(* ===== verification/Prelude.thy ===== *)
theory Prelude
  imports Main "HOL-Library.Word"
begin

text \<open>
  Shared vocabulary of the development: the machine types of the Rust sources, the
  checked and saturating arithmetic of the Rust standard library, big-endian byte
  encodings, slices, the stable error categories of \<^verbatim>\<open>rnet-core\<close> and the result type
  of every fallible operation.

  Conventions. A \<^verbatim>\<open>u8/u16/u32/u64\<close> that is shifted, masked, wrapped or put on the wire
  is a word of that width. A \<^verbatim>\<open>usize\<close> and a saturating \<^verbatim>\<open>u64\<close> counter is a natural
  number with the 64-bit limit written out (the supported platform is Linux x86_64).
  Monotonic instants and durations are natural numbers of nanoseconds. An
  \<^verbatim>\<open>RnetError\<close> is represented by its stable category; its free-form diagnostic
  message is not modelled.
\<close>

unbundle bit_operations_syntax

section \<open>Machine types\<close>

type_synonym u8 = "8 word"
type_synonym u16 = "16 word"
type_synonym u32 = "32 word"
type_synonym u64 = "64 word"
type_synonym bytes = "8 word list"
type_synonym handle = "64 word"
type_synonym instant = nat
type_synonym duration = nat

named_theorems wire_simps \<open>layout facts of the wire encodings\<close>
named_theorems inv_intros \<open>invariant preservation by the operations of a component\<close>

section \<open>Errors and results\<close>

datatype error_code =
    Ok_Status
  | InvalidArgument
  | InvalidHandle
  | InvalidState
  | WouldBlock
  | Timeout
  | NotSupported
  | IoError
  | ProtocolError
  | MessageTooLarge
  | InternalPanic
  | HandshakeRequired
  | HandshakeFailed
  | AuthRejected
  | PeerKeyMismatch
  | ReplayDetected
  | CryptoError
  | RateLimited
  | Cancelled

type_synonym 'a result = "error_code + 'a"

fun error_number :: "error_code \<Rightarrow> int" where
  "error_number Ok_Status = 0"
| "error_number InvalidArgument = -1"
| "error_number InvalidHandle = -2"
| "error_number InvalidState = -3"
| "error_number WouldBlock = -4"
| "error_number Timeout = -5"
| "error_number NotSupported = -6"
| "error_number IoError = -7"
| "error_number ProtocolError = -8"
| "error_number MessageTooLarge = -9"
| "error_number InternalPanic = -10"
| "error_number HandshakeRequired = -11"
| "error_number HandshakeFailed = -12"
| "error_number AuthRejected = -13"
| "error_number PeerKeyMismatch = -14"
| "error_number ReplayDetected = -15"
| "error_number CryptoError = -16"
| "error_number RateLimited = -17"
| "error_number Cancelled = -18"

definition error_code_try_from :: "int \<Rightarrow> error_code result" where
  "error_code_try_from v =
     (if v = 0 then Inr Ok_Status
      else if v = -1 then Inr InvalidArgument
      else if v = -2 then Inr InvalidHandle
      else if v = -3 then Inr InvalidState
      else if v = -4 then Inr WouldBlock
      else if v = -5 then Inr Timeout
      else if v = -6 then Inr NotSupported
      else if v = -7 then Inr IoError
      else if v = -8 then Inr ProtocolError
      else if v = -9 then Inr MessageTooLarge
      else if v = -10 then Inr InternalPanic
      else if v = -11 then Inr HandshakeRequired
      else if v = -12 then Inr HandshakeFailed
      else if v = -13 then Inr AuthRejected
      else if v = -14 then Inr PeerKeyMismatch
      else if v = -15 then Inr ReplayDetected
      else if v = -16 then Inr CryptoError
      else if v = -17 then Inr RateLimited
      else if v = -18 then Inr Cancelled
      else Inl InvalidArgument)"

lemma error_code_try_from_number [simp]: "error_code_try_from (error_number c) = Inr c"
  by (cases c) (simp_all add: error_code_try_from_def)

lemma error_code_try_from_Inr_iff: "error_code_try_from v = Inr c \<longleftrightarrow> v = error_number c"
  by (cases c) (auto simp: error_code_try_from_def split: if_splits)

section \<open>Arithmetic of the Rust standard library\<close>

definition usize_max :: nat where
  "usize_max = 18446744073709551615"

definition u64_max :: nat where
  "u64_max = 18446744073709551615"

definition u32_max :: nat where
  "u32_max = 4294967295"

definition u16_max :: nat where
  "u16_max = 65535"

definition checked_add :: "nat \<Rightarrow> nat \<Rightarrow> nat option" where
  "checked_add a b = (if a + b \<le> usize_max then Some (a + b) else None)"

text \<open>\<^verbatim>\<open>u64::checked_add(1)\<close> on a word: \<open>- 1\<close> is the largest value.\<close>

definition u64_checked_succ :: "u64 \<Rightarrow> u64 option" where
  "u64_checked_succ n = (if n = - 1 then None else Some (n + 1))"

lemma u64_checked_succ_unat: "u64_checked_succ n = Some m \<Longrightarrow> unat m = Suc (unat n)"
  by (auto simp: u64_checked_succ_def add.commute [of _ 1] eq_neg_iff_add_eq_0 unatSuc split: if_splits)

definition sat_add :: "nat \<Rightarrow> nat \<Rightarrow> nat" where
  "sat_add a b = min (a + b) u64_max"

lemma checked_add_Some_iff [simp]:
  "checked_add a b = Some c \<longleftrightarrow> c = a + b \<and> a + b \<le> usize_max"
  by (auto simp: checked_add_def)

lemma checked_add_None_iff [simp]: "checked_add a b = None \<longleftrightarrow> usize_max < a + b"
  by (auto simp: checked_add_def)

lemma sat_add_ge: "a \<le> u64_max \<Longrightarrow> a \<le> sat_add a b"
  by (simp add: sat_add_def)

lemma sat_add_le_max [simp]: "sat_add a b \<le> u64_max"
  by (simp add: sat_add_def)

text \<open>An \<^verbatim>\<open>Instant\<close> on the supported platform holds 63-bit seconds plus nanoseconds.\<close>

definition instant_max :: nat where
  "instant_max = 9223372036854775807999999999"

definition instant_checked_add :: "instant \<Rightarrow> duration \<Rightarrow> instant option" where
  "instant_checked_add t d = (if t + d \<le> instant_max then Some (t + d) else None)"

definition checked_duration_since :: "instant \<Rightarrow> instant \<Rightarrow> duration option" where
  "checked_duration_since later earlier =
     (if earlier \<le> later then Some (later - earlier) else None)"

abbreviation millis :: "nat \<Rightarrow> duration" where
  "millis n \<equiv> n * 1000000"

abbreviation secs :: "nat \<Rightarrow> duration" where
  "secs n \<equiv> n * 1000000000"

section \<open>Records shared by the transport and the game layer\<close>

text \<open>\<^verbatim>\<open>KcpRetransmissionSnapshot\<close>: written by the KCP adapter, read by the quality policy.\<close>

record kcp_retransmission_snapshot =
  ks_segments_sent :: nat
  ks_retransmitted :: nat
  ks_recent_segments :: u16
  ks_recent_retransmitted :: u16
  ks_recent_retransmission_per_mille :: u16

section \<open>Slices\<close>

text \<open>\<^verbatim>\<open>input[a..b]\<close>; every use in the sources is behind a length check.\<close>

definition subslice :: "nat \<Rightarrow> nat \<Rightarrow> 'a list \<Rightarrow> 'a list" where
  "subslice a b xs = take (b - a) (drop a xs)"

lemma length_subslice [simp]: "length (subslice a b xs) = min (b - a) (length xs - a)"
  by (simp add: subslice_def min.commute)

lemma subslice_0 [simp]: "subslice 0 b xs = take b xs"
  by (simp add: subslice_def)

lemma subslice_append_right:
  "length xs \<le> a \<Longrightarrow> subslice a b (xs @ ys) = subslice (a - length xs) (b - length xs) ys"
  by (simp add: subslice_def)

lemma subslice_append_left: "b \<le> length xs \<Longrightarrow> subslice a b (xs @ ys) = subslice a b xs"
  by (cases "a \<le> b") (auto simp: subslice_def)

lemma subslice_whole: "length xs = b - a \<Longrightarrow> a = 0 \<Longrightarrow> subslice a b xs = xs"
  by simp

lemma take_subslice_drop:
  "a \<le> b \<Longrightarrow> take a xs @ subslice a b xs @ drop b xs = xs"
  by (metis append_take_drop_id subslice_def drop_drop le_add_diff_inverse2)

lemma subslice_join:
  "a \<le> b \<Longrightarrow> b \<le> c \<Longrightarrow> subslice a b xs @ subslice b c xs = subslice a c xs"
proof -
  assume ab: "a \<le> b" and bc: "b \<le> c"
  have "take (c - a) (drop a xs) =
      take (b - a) (drop a xs) @ take (c - b) (drop (b - a) (drop a xs))"
    using take_add [of "b - a" "c - b" "drop a xs"] ab bc by simp
  moreover have "drop (b - a) (drop a xs) = drop b xs"
    using ab by simp
  ultimately show ?thesis by (simp add: subslice_def)
qed

lemma take_subslice_join: "a \<le> b \<Longrightarrow> take a xs @ subslice a b xs = take b xs"
  using subslice_join [of 0 a b xs] by simp

lemma subslice_to_end:
  "a \<le> b \<Longrightarrow> subslice a b xs @ drop b xs = drop a xs"
proof -
  assume "a \<le> b"
  then have "drop b xs = drop (b - a) (drop a xs)" by simp
  then show ?thesis by (simp only: subslice_def append_take_drop_id)
qed

section \<open>Big-endian encodings\<close>

fun be_bytes :: "nat \<Rightarrow> nat \<Rightarrow> bytes" where
  "be_bytes 0 x = []"
| "be_bytes (Suc k) x = be_bytes k (x div 256) @ [word_of_nat (x mod 256)]"

definition from_be :: "bytes \<Rightarrow> nat" where
  "from_be bs = foldl (\<lambda>acc b. acc * 256 + unat b) 0 bs"

lemma from_be_Nil [simp]: "from_be [] = 0"
  by (simp add: from_be_def)

lemma from_be_snoc [simp]: "from_be (bs @ [b]) = from_be bs * 256 + unat b"
  by (simp add: from_be_def)

lemma length_be_bytes [simp]: "length (be_bytes k x) = k"
  by (induction k arbitrary: x) auto

lemma unat_u8_less [simp]: "unat (b :: u8) < 256"
  using unsigned_less [of b, where ?'a = nat] by simp

lemma from_be_less: "from_be bs < 256 ^ length bs"
proof (induction bs rule: rev_induct)
  case Nil
  then show ?case by simp
next
  case (snoc b bs)
  have "from_be bs * 256 + unat b < from_be bs * 256 + 256"
    by simp
  also have "\<dots> \<le> 256 ^ length bs * 256"
    using snoc by (metis Suc_leI add.commute mult_Suc mult_le_mono1)
  finally show ?case by simp
qed

lemma from_be_be_bytes [simp]: "from_be (be_bytes k x) = x mod 256 ^ k"
proof (induction k arbitrary: x)
  case 0
  then show ?case by simp
next
  case (Suc k)
  have "x div 256 mod 256 ^ k * 256 + x mod 256 = x mod (256 * 256 ^ k)"
    by (metis mod_mult2_eq mult.commute add.commute)
  then show ?case by (simp add: Suc unat_of_nat)
qed

lemma be_bytes_from_be [simp]: "be_bytes (length bs) (from_be bs) = bs"
proof (induction bs rule: rev_induct)
  case Nil
  then show ?case by simp
next
  case (snoc b bs)
  have "(from_be bs * 256 + unat b) div 256 = from_be bs"
    by (metis div_mult_self3 div_less add.right_neutral unat_u8_less zero_neq_numeral)
  moreover have "(from_be bs * 256 + unat b) mod 256 = unat b"
    by (metis mod_mult_self3 mod_less unat_u8_less)
  ultimately show ?case using snoc by simp
qed

lemma be_bytes_from_be_length: "length bs = k \<Longrightarrow> be_bytes k (from_be bs) = bs"
  using be_bytes_from_be by blast

definition u16_be :: "u16 \<Rightarrow> bytes" where "u16_be w = be_bytes 2 (unat w)"
definition u32_be :: "u32 \<Rightarrow> bytes" where "u32_be w = be_bytes 4 (unat w)"
definition u64_be :: "u64 \<Rightarrow> bytes" where "u64_be w = be_bytes 8 (unat w)"

definition u16_from_be :: "bytes \<Rightarrow> u16" where "u16_from_be bs = word_of_nat (from_be bs)"
definition u32_from_be :: "bytes \<Rightarrow> u32" where "u32_from_be bs = word_of_nat (from_be bs)"
definition u64_from_be :: "bytes \<Rightarrow> u64" where "u64_from_be bs = word_of_nat (from_be bs)"

text \<open>Unfolded forms, to evaluate concrete encodings.\<close>

lemma be_bytes_numeral:
  "be_bytes (numeral k) x = be_bytes (pred_numeral k) (x div 256) @ [word_of_nat (x mod 256)]"
  by (simp only: numeral_eq_Suc be_bytes.simps)

lemmas be_eval = u16_be_def u32_be_def u64_be_def be_bytes_numeral

lemma length_u16_be [simp]: "length (u16_be w) = 2" by (simp add: u16_be_def)
lemma length_u32_be [simp]: "length (u32_be w) = 4" by (simp add: u32_be_def)
lemma length_u64_be [simp]: "length (u64_be w) = 8" by (simp add: u64_be_def)

lemma u16_from_be_be [simp]: "u16_from_be (u16_be w) = w"
  using unsigned_less [of w, where ?'a = nat] by (simp add: u16_from_be_def u16_be_def)

lemma u32_from_be_be [simp]: "u32_from_be (u32_be w) = w"
  using unsigned_less [of w, where ?'a = nat] by (simp add: u32_from_be_def u32_be_def)

lemma u64_from_be_be [simp]: "u64_from_be (u64_be w) = w"
  using unsigned_less [of w, where ?'a = nat] by (simp add: u64_from_be_def u64_be_def)

lemma u16_be_from_be [simp]: "length bs = 2 \<Longrightarrow> u16_be (u16_from_be bs) = bs"
  using from_be_less [of bs]
  by (simp add: u16_from_be_def u16_be_def unat_of_nat be_bytes_from_be_length)

lemma u32_be_from_be [simp]: "length bs = 4 \<Longrightarrow> u32_be (u32_from_be bs) = bs"
  using from_be_less [of bs]
  by (simp add: u32_from_be_def u32_be_def unat_of_nat be_bytes_from_be_length)

lemma u64_be_from_be [simp]: "length bs = 8 \<Longrightarrow> u64_be (u64_from_be bs) = bs"
  using from_be_less [of bs]
  by (simp add: u64_from_be_def u64_be_def unat_of_nat be_bytes_from_be_length)

lemma unat_u32_of_nat: "n \<le> u32_max \<Longrightarrow> unat (word_of_nat n :: u32) = n"
  by (simp add: u32_max_def unat_of_nat)

lemma unat_u16_of_nat: "n \<le> u16_max \<Longrightarrow> unat (word_of_nat n :: u16) = n"
  by (simp add: u16_max_def unat_of_nat)

lemma unat_u32_le [simp]: "unat (w :: u32) \<le> u32_max"
  using unsigned_less [of w, where ?'a = nat] by (simp add: u32_max_def)

lemma unat_u16_le [simp]: "unat (w :: u16) \<le> u16_max"
  using unsigned_less [of w, where ?'a = nat] by (simp add: u16_max_def)

end
