(* ===== verification/Handles.thy ===== *)
theory Handles
  imports Prelude
begin

text \<open>
  The generational slot table of \<^verbatim>\<open>rnet-core/src/handle.rs\<close> and its client
  \<^verbatim>\<open>BufferStore\<close> of \<^verbatim>\<open>rnet-core/src/buffer.rs\<close>. A handle packs a 32-bit generation and a
  one-based 32-bit slot index into 64 bits. The theory shows that the table implements a
  finite map from live handles to values, that a removed handle stays dead until its slot
  has been recycled \<open>2 ^ 32 - 1\<close> times, and states the map contract as the locale
  \<open>handle_map\<close> on which the clients rest.
\<close>

section \<open>The slot table\<close>

record 'v slot =
  generation :: u32
  slot_value :: "'v option"

record 'v handle_table =
  slots :: "'v slot list"
  free_slots :: "nat list"

definition ht_new :: "'v handle_table" where
  "ht_new = \<lparr>slots = [], free_slots = []\<rparr>"

definition encode_handle :: "nat \<Rightarrow> u32 \<Rightarrow> handle" where
  "encode_handle index gen = (push_bit 32 (ucast gen) OR (word_of_nat index + 1))"

definition decode_handle :: "handle \<Rightarrow> (nat \<times> u32) option" where
  "decode_handle h =
     (let encoded_index = (ucast (h AND 0xFFFFFFFF) :: u32);
          gen = (ucast (drop_bit 32 h) :: u32)
      in if encoded_index = 0 \<or> gen = 0 then None
         else Some (unat (encoded_index - 1), gen))"

definition ht_len :: "'v handle_table \<Rightarrow> nat" where
  "ht_len t = length (filter (\<lambda>s. slot_value s \<noteq> None) (slots t))"

definition ht_is_empty :: "'v handle_table \<Rightarrow> bool" where
  "ht_is_empty t = list_all (\<lambda>s. slot_value s = None) (slots t)"

text \<open>
  \<^verbatim>\<open>free.pop()\<close> takes the last free index; without one a fresh slot is pushed. The
  indexing \<^verbatim>\<open>self.slots[index]\<close> panics out of range: that is the result \<open>None\<close>.
\<close>

definition ht_insert :: "'v \<Rightarrow> 'v handle_table \<Rightarrow> ('v handle_table \<times> handle) option" where
  "ht_insert v t =
     (let (index, sl, fr) =
        (if free_slots t \<noteq> [] then (last (free_slots t), slots t, butlast (free_slots t))
         else (length (slots t), slots t @ [\<lparr>generation = 1, slot_value = None\<rparr>], []))
      in if index < length sl
         then Some (\<lparr>slots = sl[index := (sl ! index)\<lparr>slot_value := Some v\<rparr>],
                     free_slots = fr\<rparr>,
                    encode_handle index (generation (sl ! index)))
         else None)"

definition ht_get :: "'v handle_table \<Rightarrow> handle \<Rightarrow> 'v option" where
  "ht_get t h =
     (case decode_handle h of None \<Rightarrow> None
      | Some (index, gen) \<Rightarrow>
          if index < length (slots t) \<and> generation (slots t ! index) = gen
          then slot_value (slots t ! index) else None)"

text \<open>\<^verbatim>\<open>get_mut\<close> followed by a write through the borrow.\<close>

definition ht_get_mut :: "('v \<Rightarrow> 'v) \<Rightarrow> 'v handle_table \<Rightarrow> handle \<Rightarrow> 'v handle_table option" where
  "ht_get_mut f t h =
     (case decode_handle h of None \<Rightarrow> None
      | Some (index, gen) \<Rightarrow>
          if index < length (slots t) \<and> generation (slots t ! index) = gen
          then (case slot_value (slots t ! index) of None \<Rightarrow> None
                | Some v \<Rightarrow> Some (t\<lparr>slots := (slots t)[index :=
                    (slots t ! index)\<lparr>slot_value := Some (f v)\<rparr>]\<rparr>))
          else None)"

definition next_generation :: "u32 \<Rightarrow> u32" where
  "next_generation g = max (g + 1) 1"

definition ht_remove :: "'v handle_table \<Rightarrow> handle \<Rightarrow> 'v handle_table \<times> 'v option" where
  "ht_remove t h =
     (case decode_handle h of None \<Rightarrow> (t, None)
      | Some (index, gen) \<Rightarrow>
          if index < length (slots t) \<and> generation (slots t ! index) = gen
          then (case slot_value (slots t ! index) of None \<Rightarrow> (t, None)
                | Some v \<Rightarrow>
                    (\<lparr>slots = (slots t)[index :=
                        \<lparr>generation = next_generation (generation (slots t ! index)),
                         slot_value = None\<rparr>],
                      free_slots = free_slots t @ [index]\<rparr>, Some v))
          else (t, None))"

definition ht_handles :: "'v handle_table \<Rightarrow> handle list" where
  "ht_handles t =
     map (\<lambda>(i, s). encode_handle i (generation s))
       (filter (\<lambda>(i, s). slot_value s \<noteq> None) (enumerate 0 (slots t)))"

section \<open>Packing\<close>

definition slot_limit :: nat where
  "slot_limit = 4294967295"


lemma low_handle_word:
  assumes "index < slot_limit"
  shows "unat (word_of_nat index + 1 :: u64) = index + 1"
proof -
  have "word_of_nat index + 1 = (word_of_nat (index + 1) :: u64)" by simp
  moreover have "index + 1 < 2 ^ 64" using assms by (simp add: slot_limit_def)
  ultimately show ?thesis by (simp only: unat_of_nat) simp
qed

lemma take_bit_small_u64:
  "unat (w :: u64) < 2 ^ 32 \<Longrightarrow> take_bit 32 w = w"
  by (rule unsigned_word_eqI [where ?'a = nat]) (simp add: unsigned_take_bit_eq take_bit_nat_eq_self)

lemma drop_bit_small_u64:
  "unat (w :: u64) < 2 ^ 32 \<Longrightarrow> drop_bit 32 w = 0"
  by (rule unsigned_word_eqI [where ?'a = nat]) (simp only: unat_drop_bit_eq, simp add: drop_bit_eq_div)

lemma mask32_and: "(h :: u64) AND 0xFFFFFFFF = take_bit 32 h"
proof -
  have "(0xFFFFFFFF :: u64) = mask 32" by (simp add: mask_eq_exp_minus_1)
  then show ?thesis by (simp only: take_bit_eq_mask)
qed

lemma take_bit_encode:
  assumes "index < slot_limit"
  shows "take_bit 32 (encode_handle index gen) = word_of_nat index + 1"
proof -
  have "take_bit 32 (word_of_nat index + 1 :: u64) = word_of_nat index + 1"
    using low_handle_word [OF assms] assms by (intro take_bit_small_u64) (simp add: slot_limit_def)
  then show ?thesis
    by (simp add: encode_handle_def take_bit_push_bit)
qed

lemma drop_bit_encode:
  assumes "index < slot_limit"
  shows "ucast (drop_bit 32 (encode_handle index gen)) = gen"
proof -
  have "drop_bit 32 (word_of_nat index + 1 :: u64) = 0"
    using low_handle_word [OF assms] assms by (intro drop_bit_small_u64) (simp add: slot_limit_def)
  then have "drop_bit 32 (encode_handle index gen) = drop_bit 32 (push_bit 32 (ucast gen :: u64))"
    by (simp add: encode_handle_def drop_bit_or)
  moreover have "ucast (drop_bit 32 (push_bit 32 (ucast gen :: u64))) = gen"
    by (rule bit_word_eqI) (auto simp: bit_simps)
  ultimately show ?thesis by simp
qed

lemma decode_encode_handle:
  assumes "index < slot_limit" and "gen \<noteq> 0"
  shows "decode_handle (encode_handle index gen) = Some (index, gen)"
proof -
  let ?e = "ucast (word_of_nat index + 1 :: u64) :: u32"
  have e: "unat ?e = index + 1"
    using low_handle_word [OF assms(1)] assms(1)
    by (simp add: unsigned_ucast_eq take_bit_nat_eq_self slot_limit_def)
  then have nz: "?e \<noteq> 0" by auto
  have "unat (?e - 1) = index" using e nz by (simp add: unat_minus_one)
  with nz assms show ?thesis
    by (simp add: decode_handle_def mask32_and take_bit_encode drop_bit_encode)
qed

lemma decode_handle_inject:
  assumes "decode_handle h = Some (i, g)"
  shows "h = encode_handle i g \<and> i < slot_limit \<and> g \<noteq> 0"
proof -
  let ?e = "ucast (take_bit 32 h) :: u32"
  have nz: "?e \<noteq> 0" and g: "g = ucast (drop_bit 32 h)" "g \<noteq> 0" and i: "i = unat (?e - 1)"
    using assms by (auto simp: decode_handle_def mask32_and Let_def split: if_splits)
  have i1: "i + 1 = unat ?e"
    using nz i by (simp add: unat_minus_one unat_gt_0 Suc_leI)
  have e: "unat ?e = unat (take_bit 32 h)"
    by (simp add: unsigned_ucast_eq unsigned_take_bit_eq)
  have "(word_of_nat i + 1 :: u64) = word_of_nat (i + 1)" by simp
  then have low: "(word_of_nat i + 1 :: u64) = take_bit 32 h"
    by (simp only: i1 e) simp
  have "push_bit 32 (ucast g) OR take_bit 32 h = h"
    by (rule bit_word_eqI) (auto simp: g bit_simps)
  then have "h = encode_handle i g"
    by (simp add: encode_handle_def low)
  moreover have "i < slot_limit"
    using i1 unsigned_less [of ?e, where ?'a = nat] by (simp add: slot_limit_def)
  ultimately show ?thesis using g(2) by simp
qed


lemma decode_handle_eq_iff:
  assumes "decode_handle h = Some p" and "decode_handle h' = Some p'"
  shows "h' = h \<longleftrightarrow> p' = p"
proof
  assume "h' = h"
  with assms show "p' = p" by simp
next
  assume eq: "p' = p"
  obtain i g where p: "p = (i, g)" by force
  from assms eq p have "decode_handle h = Some (i, g)" "decode_handle h' = Some (i, g)"
    by simp_all
  then show "h' = h" by (metis decode_handle_inject)
qed

section \<open>The table implements a finite map\<close>

definition wf_ht :: "'v handle_table \<Rightarrow> bool" where
  "wf_ht t \<longleftrightarrow>
     distinct (free_slots t) \<and>
     set (free_slots t) = {i. i < length (slots t) \<and> slot_value (slots t ! i) = None} \<and>
     list_all (\<lambda>s. generation s \<noteq> 0) (slots t) \<and>
     length (slots t) \<le> slot_limit"

definition ht_room :: "'v handle_table \<Rightarrow> bool" where
  "ht_room t \<longleftrightarrow> free_slots t \<noteq> [] \<or> length (slots t) < slot_limit"

lemma wf_htD:
  assumes "wf_ht t"
  shows "distinct (free_slots t)"
    and "i \<in> set (free_slots t) \<longleftrightarrow> i < length (slots t) \<and> slot_value (slots t ! i) = None"
    and "i < length (slots t) \<Longrightarrow> generation (slots t ! i) \<noteq> 0"
    and "i < length (slots t) \<Longrightarrow> i < slot_limit"
  using assms by (auto simp: wf_ht_def list_all_length)

lemma ht_get_None_decode: "decode_handle h = None \<Longrightarrow> ht_get t h = None"
  by (simp add: ht_get_def)

lemma ht_get_decode:
  "decode_handle h = Some (i, g) \<Longrightarrow>
   ht_get t h = (if i < length (slots t) \<and> generation (slots t ! i) = g
                 then slot_value (slots t ! i) else None)"
  by (simp add: ht_get_def)

lemma ht_get_encode:
  assumes "wf_ht t" and "i < length (slots t)"
  shows "ht_get t (encode_handle i (generation (slots t ! i))) = slot_value (slots t ! i)"
  using assms by (simp add: ht_get_decode decode_encode_handle wf_htD)

lemma next_generation_nonzero [simp]: "next_generation g \<noteq> 0"
proof
  assume "next_generation g = 0"
  then have "max (g + 1) 1 = 0" by (simp add: next_generation_def)
  moreover have "1 \<le> max (g + 1) (1 :: u32)" by simp
  ultimately show False by simp
qed

lemma unat_next_generation:
  "unat (next_generation g) = (if unat g = slot_limit then 1 else unat g + 1)"
proof (cases "unat g = slot_limit")
  case True
  then have "word_of_nat (unat g) = (word_of_nat slot_limit :: u32)" by simp
  then have "g = word_of_nat slot_limit" by simp
  then have "g + 1 = 0" by (simp add: slot_limit_def)
  with True show ?thesis by (simp add: next_generation_def)
next
  case False
  then have lt: "unat g + 1 < 2 ^ 32"
    using unsigned_less [of g, where ?'a = nat] by (simp add: slot_limit_def)
  then have u: "unat (g + 1) = unat g + 1"
    using unat_add_lem [of g 1] by simp
  then have "1 \<le> g + 1" by (simp add: word_le_nat_alt)
  with u False show ?thesis by (simp add: next_generation_def max_def)
qed

lemma next_generation_neq: "next_generation g \<noteq> g"
proof
  assume "next_generation g = g"
  then have "unat (next_generation g) = unat g" by simp
  then show False by (simp add: unat_next_generation slot_limit_def split: if_splits)
qed

lemma ht_new_wf: "wf_ht ht_new"
  by (simp add: wf_ht_def ht_new_def)

lemma ht_insert_total:
  assumes "wf_ht t"
  shows "ht_insert v t \<noteq> None"
proof -
  have "free_slots t \<noteq> [] \<Longrightarrow> last (free_slots t) < length (slots t)"
    using wf_htD(2) [OF assms, of "last (free_slots t)"] by simp
  then show ?thesis by (simp add: ht_insert_def Let_def)
qed

text \<open>Recycling the last free slot.\<close>

lemma ht_insert_recycle:
  assumes wf: "wf_ht t" and fr: "free_slots t \<noteq> []" and ins: "ht_insert v t = Some (t', h)"
  shows "wf_ht t'" and "ht_get t h = None" and "ht_get t' = (ht_get t)(h \<mapsto> v)"
proof -
  define i where "i = last (free_slots t)"
  note D = wf_htD [OF wf]
  have i: "i < length (slots t)" "slot_value (slots t ! i) = None"
    using D(2) [of i] fr by (auto simp: i_def)
  have t': "slots t' = (slots t)[i := (slots t ! i)\<lparr>slot_value := Some v\<rparr>]"
    "free_slots t' = butlast (free_slots t)"
    and h: "h = encode_handle i (generation (slots t ! i))"
    using ins fr i by (auto simp: ht_insert_def Let_def i_def)
  have fs: "free_slots t = free_slots t' @ [i]"
    using fr by (simp add: t' i_def)
  have "set (free_slots t') = set (free_slots t) - {i}"
    using D(1) fs by auto
  moreover have "set (free_slots t) =
      {j. j < length (slots t) \<and> slot_value (slots t ! j) = None}"
    using D(2) by blast
  moreover have "distinct (free_slots t')"
    using D(1) fs by simp
  moreover have "list_all (\<lambda>s. generation s \<noteq> 0) (slots t')"
    using D(3) i by (auto simp: t' list_all_length nth_list_update)
  moreover have "length (slots t') \<le> slot_limit"
    using wf by (simp add: t' wf_ht_def)
  ultimately show "wf_ht t'"
    using i by (auto simp: wf_ht_def t' nth_list_update)
  have dec: "decode_handle h = Some (i, generation (slots t ! i))"
    using D(3,4) i by (simp add: h decode_encode_handle)
  show "ht_get t h = None"
    using i by (simp add: ht_get_decode [OF dec])
  show "ht_get t' = (ht_get t)(h \<mapsto> v)"
  proof
    fix h'
    show "ht_get t' h' = ((ht_get t)(h \<mapsto> v)) h'"
    proof (cases "decode_handle h'")
      case None
      then show ?thesis using dec by (auto simp: ht_get_None_decode)
    next
      case (Some p)
      obtain j g where p: "p = (j, g)" by force
      have d': "decode_handle h' = Some (j, g)" using Some p by simp
      have hh: "h' = h \<longleftrightarrow> j = i \<and> g = generation (slots t ! i)"
        using decode_handle_eq_iff [OF dec d'] by auto
      show ?thesis
        using i by (auto simp: ht_get_decode [OF d'] t' hh nth_list_update)
    qed
  qed
qed

text \<open>Without a free slot, pushing the fresh one first gives a table with the same map.\<close>

definition ht_pushed :: "'v handle_table \<Rightarrow> 'v handle_table" where
  "ht_pushed t = \<lparr>slots = slots t @ [\<lparr>generation = 1, slot_value = None\<rparr>],
                  free_slots = [length (slots t)]\<rparr>"

lemma ht_pushed_same:
  assumes wf: "wf_ht t" and fr: "free_slots t = []" and room: "length (slots t) < slot_limit"
  shows "wf_ht (ht_pushed t)" and "ht_get (ht_pushed t) = ht_get t"
    and "ht_insert v (ht_pushed t) = ht_insert v t"
proof -
  have "\<forall>i < length (slots t). slot_value (slots t ! i) \<noteq> None"
    using wf_htD(2) [OF wf] fr by auto
  then show "wf_ht (ht_pushed t)"
    using wf room by (auto simp: wf_ht_def ht_pushed_def nth_append less_Suc_eq)
  show "ht_get (ht_pushed t) = ht_get t"
    by (rule ext) (auto simp: ht_get_def ht_pushed_def nth_append split: option.splits)
  show "ht_insert v (ht_pushed t) = ht_insert v t"
    using fr by (simp add: ht_insert_def ht_pushed_def Let_def)
qed

lemma ht_insert_map:
  assumes wf: "wf_ht t" and room: "ht_room t" and ins: "ht_insert v t = Some (t', h)"
  shows "wf_ht t' \<and> ht_get t h = None \<and> ht_get t' = (ht_get t)(h \<mapsto> v)"
proof (cases "free_slots t = []")
  case False
  then show ?thesis using ht_insert_recycle [OF wf False ins] by simp
next
  case True
  with room have lt: "length (slots t) < slot_limit" by (simp add: ht_room_def)
  note P = ht_pushed_same [OF wf True lt]
  have ne: "free_slots (ht_pushed t) \<noteq> []" by (simp add: ht_pushed_def)
  have "ht_insert v (ht_pushed t) = Some (t', h)" using P(3) ins by simp
  from ht_insert_recycle [OF P(1) ne this] show ?thesis by (simp add: P(2))
qed

lemma ht_remove_miss: "ht_get t h = None \<Longrightarrow> ht_remove t h = (t, None)"
  by (auto simp: ht_get_def ht_remove_def split: option.splits if_splits)

lemma ht_remove_hit:
  assumes wf: "wf_ht t" and get: "ht_get t h = Some v" and rem: "ht_remove t h = (t', r)"
  shows "r = Some v" and "wf_ht t'" and "ht_get t' = (ht_get t)(h := None)"
proof -
  note D = wf_htD [OF wf]
  obtain i g where dec: "decode_handle h = Some (i, g)"
    using get by (auto simp: ht_get_def split: option.splits)
  have i: "i < length (slots t)" "generation (slots t ! i) = g" "slot_value (slots t ! i) = Some v"
    using get by (auto simp: ht_get_decode [OF dec] split: if_splits)
  have t': "slots t' = (slots t)[i := \<lparr>generation = next_generation g, slot_value = None\<rparr>]"
    "free_slots t' = free_slots t @ [i]" and r: "r = Some v"
    using rem i by (auto simp: ht_remove_def dec)
  show "r = Some v" by (rule r)
  have "i \<notin> set (free_slots t)" using D(2) i by simp
  moreover have "set (free_slots t) =
      {j. j < length (slots t) \<and> slot_value (slots t ! j) = None}"
    using D(2) by blast
  moreover have "list_all (\<lambda>s. generation s \<noteq> 0) (slots t')"
    using D(3) i by (auto simp: t' list_all_length nth_list_update)
  moreover have "distinct (free_slots t')" "length (slots t') \<le> slot_limit"
    using wf \<open>i \<notin> set (free_slots t)\<close> by (simp_all add: wf_ht_def t')
  ultimately show "wf_ht t'"
    using i by (simp add: wf_ht_def t' nth_list_update) force
  show "ht_get t' = (ht_get t)(h := None)"
  proof
    fix h'
    show "ht_get t' h' = ((ht_get t)(h := None)) h'"
    proof (cases "decode_handle h'")
      case None
      then show ?thesis by (auto simp: ht_get_None_decode)
    next
      case (Some p)
      obtain j g' where p: "p = (j, g')" by force
      have d': "decode_handle h' = Some (j, g')" using Some p by simp
      have hh: "h' = h \<longleftrightarrow> j = i \<and> g' = g"
        using decode_handle_eq_iff [OF dec d'] by auto
      show ?thesis
        using i next_generation_neq [of g]
        by (simp add: ht_get_decode [OF d'] t' hh nth_list_update) auto
    qed
  qed
qed

lemma ht_remove_map:
  assumes "wf_ht t" and "ht_remove t h = (t', r)"
  shows "wf_ht t' \<and> r = ht_get t h \<and> ht_get t' = (ht_get t)(h := None)"
proof (cases "ht_get t h")
  case None
  with assms show ?thesis by (auto simp: ht_remove_miss)
next
  case (Some v)
  show ?thesis using ht_remove_hit [OF assms(1) Some assms(2)] Some by simp
qed

lemma ht_get_mut_map:
  assumes mut: "ht_get_mut f t h = Some t'" and wf: "wf_ht t"
  shows "wf_ht t' \<and> (\<exists>v. ht_get t h = Some v \<and> ht_get t' = (ht_get t)(h \<mapsto> f v))"
proof -
  obtain i g where dec: "decode_handle h = Some (i, g)"
    using mut by (auto simp: ht_get_mut_def split: option.splits)
  obtain v where i: "i < length (slots t)" "generation (slots t ! i) = g"
      "slot_value (slots t ! i) = Some v"
    and t': "t' = t\<lparr>slots := (slots t)[i := (slots t ! i)\<lparr>slot_value := Some (f v)\<rparr>]\<rparr>"
    using mut by (auto simp: ht_get_mut_def dec split: option.splits if_splits)
  have "ht_get t h = Some v"
    using i by (simp add: ht_get_decode [OF dec])
  moreover have "wf_ht t'"
    using wf i by (auto simp: wf_ht_def t' nth_list_update list_all_length)
  moreover have "ht_get t' = (ht_get t)(h \<mapsto> f v)"
  proof
    fix h'
    show "ht_get t' h' = ((ht_get t)(h \<mapsto> f v)) h'"
    proof (cases "decode_handle h'")
      case None
      then show ?thesis using dec by (auto simp: ht_get_None_decode)
    next
      case (Some p)
      obtain j g' where p: "p = (j, g')" by force
      have d': "decode_handle h' = Some (j, g')" using Some p by simp
      have hh: "h' = h \<longleftrightarrow> j = i \<and> g' = g"
        using decode_handle_eq_iff [OF dec d'] by auto
      show ?thesis
        using i by (auto simp: ht_get_decode [OF d'] t' hh nth_list_update)
    qed
  qed
  ultimately show ?thesis by blast
qed

section \<open>Stale handles stay dead until the generation wraps\<close>

datatype 'v ht_op = Ins 'v | Rem handle

fun ht_step :: "'v handle_table \<Rightarrow> 'v ht_op \<Rightarrow> 'v handle_table option" where
  "ht_step t (Ins v) = map_option fst (ht_insert v t)"
| "ht_step t (Rem h) = Some (fst (ht_remove t h))"

fun ht_run :: "'v handle_table \<Rightarrow> 'v ht_op list \<Rightarrow> 'v handle_table option" where
  "ht_run t [] = Some t"
| "ht_run t (x # xs) = (case ht_step t x of None \<Rightarrow> None | Some t' \<Rightarrow> ht_run t' xs)"

fun removals :: "'v ht_op list \<Rightarrow> nat" where
  "removals [] = 0"
| "removals (Ins v # xs) = removals xs"
| "removals (Rem h # xs) = Suc (removals xs)"

lemma unat_next_generation_pow:
  assumes "g \<noteq> 0"
  shows "unat ((next_generation ^^ k) g) = (unat g - 1 + k) mod slot_limit + 1"
proof (induction k)
  case 0
  have "unat g - 1 < slot_limit"
    using unsigned_less [of g, where ?'a = nat] assms
    by (simp add: slot_limit_def)
  moreover have "0 < unat g" using assms by (simp add: unat_gt_0)
  ultimately show ?case by simp
next
  case (Suc k)
  let ?m = "(unat g - 1 + k) mod slot_limit"
  have lt: "?m < slot_limit" by (simp add: slot_limit_def)
  have "(unat g - 1 + Suc k) mod slot_limit = Suc ?m mod slot_limit"
    by (simp add: mod_Suc_eq)
  also have "\<dots> = (if Suc ?m = slot_limit then 0 else Suc ?m)"
    using lt by (simp add: mod_Suc)
  finally show ?case
    using Suc lt by (simp add: unat_next_generation)
qed

lemma next_generation_pow_neq:
  assumes "g \<noteq> 0" and "0 < k" and "k < slot_limit"
  shows "(next_generation ^^ k) g \<noteq> g"
proof
  assume "(next_generation ^^ k) g = g"
  then have "(unat g - 1 + k) mod slot_limit = (unat g - 1 + 0) mod slot_limit"
    using unat_next_generation_pow [OF assms(1), of k]
      unat_next_generation_pow [OF assms(1), of 0] by simp
  then have "slot_limit dvd k"
    by (simp add: mod_eq_dvd_iff_nat)
  with assms show False by (simp add: nat_dvd_not_less)
qed

lemma ht_step_generation:
  assumes step: "ht_step t x = Some t'" and i: "i < length (slots t)"
  shows "i < length (slots t')" and
    "generation (slots t' ! i) = generation (slots t ! i) \<or>
     generation (slots t' ! i) = next_generation (generation (slots t ! i)) \<and> (\<exists>h. x = Rem h)"
proof -
  have "i < length (slots t') \<and> (generation (slots t' ! i) = generation (slots t ! i) \<or>
     generation (slots t' ! i) = next_generation (generation (slots t ! i)) \<and> (\<exists>h. x = Rem h))"
  proof (cases x)
    case (Ins v)
    with step i show ?thesis
      by (auto simp: ht_insert_def Let_def nth_list_update nth_append split: if_splits)
  next
    case (Rem h)
    with step i show ?thesis
      by (auto simp: ht_remove_def nth_list_update split: option.splits if_splits)
  qed
  then show "i < length (slots t')" and
    "generation (slots t' ! i) = generation (slots t ! i) \<or>
     generation (slots t' ! i) = next_generation (generation (slots t ! i)) \<and> (\<exists>h. x = Rem h)"
    by blast+
qed

lemma ht_run_generation:
  assumes "ht_run t xs = Some t'" and "i < length (slots t)"
    and "generation (slots t ! i) = (next_generation ^^ k) g"
  shows "i < length (slots t') \<and>
    (\<exists>j. k \<le> j \<and> j \<le> k + removals xs \<and> generation (slots t' ! i) = (next_generation ^^ j) g)"
  using assms
proof (induction xs arbitrary: t k)
  case Nil
  then show ?case by auto
next
  case (Cons x xs)
  then obtain t1 where t1: "ht_step t x = Some t1" and run: "ht_run t1 xs = Some t'"
    by (auto split: option.splits)
  note G = ht_step_generation [OF t1 Cons.prems(2)]
  from G(2) show ?case
  proof
    assume "generation (slots t1 ! i) = generation (slots t ! i)"
    then have "i < length (slots t') \<and> (\<exists>j. k \<le> j \<and> j \<le> k + removals xs \<and>
        generation (slots t' ! i) = (next_generation ^^ j) g)"
      using Cons.IH [OF run G(1), of k] Cons.prems(3) by simp
    moreover have "removals xs \<le> removals (x # xs)" by (cases x) simp_all
    ultimately show ?thesis by (meson add_left_mono order_trans)
  next
    assume a: "generation (slots t1 ! i) = next_generation (generation (slots t ! i)) \<and>
      (\<exists>h. x = Rem h)"
    then have "generation (slots t1 ! i) = (next_generation ^^ Suc k) g"
      using Cons.prems(3) by simp
    from Cons.IH [OF run G(1) this] obtain j where
      "i < length (slots t')" "Suc k \<le> j" "j \<le> Suc k + removals xs"
      "generation (slots t' ! i) = (next_generation ^^ j) g"
      by blast
    moreover from a have "removals (x # xs) = Suc (removals xs)" by auto
    ultimately show ?thesis by (intro conjI exI [of _ j]) simp_all
  qed
qed

lemma ht_stale_lookup:
  assumes live: "ht_get t h \<noteq> None" and run: "ht_run (fst (ht_remove t h)) xs = Some t'"
    and few: "Suc (removals xs) < slot_limit"
  shows "ht_get t' h = None"
proof -
  obtain i g where dec: "decode_handle h = Some (i, g)"
    using live by (auto simp: ht_get_def split: option.splits)
  have g: "g \<noteq> 0" using decode_handle_inject [OF dec] by simp
  obtain v where i: "i < length (slots t)" "generation (slots t ! i) = g"
      "slot_value (slots t ! i) = Some v"
    using live by (auto simp: ht_get_decode [OF dec] split: if_splits)
  let ?t1 = "fst (ht_remove t h)"
  have "i < length (slots ?t1)" "generation (slots ?t1 ! i) = (next_generation ^^ 1) g"
    using i by (simp_all add: ht_remove_def dec)
  from ht_run_generation [OF run this] obtain j where
    "1 \<le> j" "j \<le> 1 + removals xs" "generation (slots t' ! i) = (next_generation ^^ j) g"
    by blast
  then have "generation (slots t' ! i) \<noteq> g"
    using next_generation_pow_neq [OF g, of j] few by simp
  then show ?thesis by (simp add: ht_get_decode [OF dec])
qed

section \<open>The map contract and its clients\<close>

text \<open>
  What \<^verbatim>\<open>BufferStore\<close> and the session and endpoint registries of the transport rely on:
  insertion returns a handle that was not live and binds it, removal unbinds exactly the
  given handle and yields its value.
\<close>

locale handle_map =
  fixes wf :: "'t \<Rightarrow> bool"
    and room :: "'t \<Rightarrow> bool"
    and ins :: "'v \<Rightarrow> 't \<Rightarrow> ('t \<times> handle) option"
    and get :: "'t \<Rightarrow> handle \<Rightarrow> 'v option"
    and rem :: "'t \<Rightarrow> handle \<Rightarrow> 't \<times> 'v option"
  assumes ins_total: "wf t \<Longrightarrow> ins v t \<noteq> None"
    and ins_map: "wf t \<Longrightarrow> room t \<Longrightarrow> ins v t = Some (t', h) \<Longrightarrow>
      wf t' \<and> get t h = None \<and> get t' = (get t)(h \<mapsto> v)"
    and rem_map: "wf t \<Longrightarrow> rem t h = (t', r) \<Longrightarrow>
      wf t' \<and> r = get t h \<and> get t' = (get t)(h := None)"
begin

lemma insE:
  assumes "wf t" and "room t"
  obtains t' h where "ins v t = Some (t', h)" and "wf t'" and "get t h = None"
    and "get t' = (get t)(h \<mapsto> v)"
proof -
  obtain p where "ins v t = Some p" using ins_total [OF assms(1)] by blast
  moreover obtain t' h where "p = (t', h)" by force
  ultimately show ?thesis using ins_map [OF assms] that by blast
qed

lemma ins_then_rem:
  assumes "wf t" and "room t" and "ins v t = Some (t', h)"
  shows "get (fst (rem t' h)) = get t" and "snd (rem t' h) = Some v"
    and "snd (rem (fst (rem t' h)) h) = None"
proof -
  note I = ins_map [OF assms]
  obtain t2 r where R: "rem t' h = (t2, r)" by force
  have r: "wf t2 \<and> r = Some v \<and> get t2 = (get t')(h := None)"
    using rem_map [OF _ R] I by simp
  then show "get (fst (rem t' h)) = get t"
    using I R by (auto simp: fun_eq_iff)
  show "snd (rem t' h) = Some v" using r R by simp
  obtain t3 r3 where R3: "rem t2 h = (t3, r3)" by force
  have "r3 = None" using rem_map [OF _ R3] r by simp
  then show "snd (rem (fst (rem t' h)) h) = None" using R R3 by simp
qed

lemma ins_fresh:
  assumes "wf t" and "room t" and "ins v t = Some (t', h)" and "get t k \<noteq> None"
  shows "k \<noteq> h" and "get t' k = get t k"
  using ins_map [OF assms(1-3)] assms(4) by auto

end

interpretation ht: handle_map wf_ht ht_room ht_insert ht_get ht_remove
  by unfold_locales (rule ht_insert_total ht_insert_map ht_remove_map; assumption)+


section \<open>Enumeration\<close>

lemma ht_handles_nth:
  "ht_handles t = map (\<lambda>i. encode_handle i (generation (slots t ! i)))
     (filter (\<lambda>i. slot_value (slots t ! i) \<noteq> None) [0..<length (slots t)])"
proof -
  have "enumerate 0 (slots t) = map (\<lambda>i. (i, slots t ! i)) [0..<length (slots t)]"
    by (rule nth_equalityI) (simp_all add: nth_enumerate_eq)
  then show ?thesis by (simp add: ht_handles_def filter_map o_def)
qed

lemma ht_handles_live:
  assumes "wf_ht t"
  shows "set (ht_handles t) = dom (ht_get t)" and "distinct (ht_handles t)"
proof -
  note D = wf_htD [OF assms]
  show "set (ht_handles t) = dom (ht_get t)"
  proof (intro set_eqI iffI)
    fix h assume "h \<in> set (ht_handles t)"
    then obtain i where "i < length (slots t)" "slot_value (slots t ! i) \<noteq> None"
      "h = encode_handle i (generation (slots t ! i))"
      by (auto simp: ht_handles_nth)
    then show "h \<in> dom (ht_get t)"
      by (simp add: domIff ht_get_encode [OF assms])
  next
    fix h assume "h \<in> dom (ht_get t)"
    then obtain i g where dec: "decode_handle h = Some (i, g)"
      by (auto simp: ht_get_def split: option.splits)
    with \<open>h \<in> dom (ht_get t)\<close> have "i < length (slots t)" "generation (slots t ! i) = g"
      "slot_value (slots t ! i) \<noteq> None"
      by (simp_all add: domIff ht_get_decode [OF dec] split: if_splits)
    moreover have "h = encode_handle i g" using decode_handle_inject [OF dec] by simp
    ultimately show "h \<in> set (ht_handles t)"
      unfolding ht_handles_nth set_map set_filter by (intro image_eqI [of _ _ i]) simp_all
  qed
  have "inj_on (\<lambda>i. encode_handle i (generation (slots t ! i))) {0..<length (slots t)}"
  proof (rule inj_onI)
    fix i j
    assume ij: "i \<in> {0..<length (slots t)}" "j \<in> {0..<length (slots t)}"
      and eq: "encode_handle i (generation (slots t ! i)) =
        encode_handle j (generation (slots t ! j))"
    have "decode_handle (encode_handle k (generation (slots t ! k))) =
        Some (k, generation (slots t ! k))" if "k < length (slots t)" for k
      using that D(3,4) by (simp add: decode_encode_handle)
    then have "decode_handle (encode_handle i (generation (slots t ! i))) =
        Some (i, generation (slots t ! i))"
      "decode_handle (encode_handle j (generation (slots t ! j))) =
        Some (j, generation (slots t ! j))"
      using ij by simp_all
    then show "i = j" unfolding eq by simp
  qed
  then have "inj_on (\<lambda>i. encode_handle i (generation (slots t ! i)))
      (set (filter (\<lambda>i. slot_value (slots t ! i) \<noteq> None) [0..<length (slots t)]))"
    by (rule inj_on_subset) auto
  then show "distinct (ht_handles t)"
    by (simp add: ht_handles_nth distinct_map)
qed

lemma ht_handles_card: "wf_ht t \<Longrightarrow> length (ht_handles t) = card (dom (ht_get t))"
  using ht_handles_live [of t] distinct_card [of "ht_handles t"] by simp

lemma ht_len_handles: "ht_len t = length (ht_handles t)"
proof -
  have "slots t = map ((!) (slots t)) [0..<length (slots t)]"
    by (simp add: map_nth)
  then have "length (filter (\<lambda>s. slot_value s \<noteq> None) (slots t)) =
      length (filter (\<lambda>s. slot_value s \<noteq> None) (map ((!) (slots t)) [0..<length (slots t)]))"
    by simp
  then show ?thesis by (simp add: ht_len_def ht_handles_nth filter_map o_def)
qed

lemma ht_is_empty_len: "ht_is_empty t \<longleftrightarrow> ht_len t = 0"
  by (auto simp: ht_is_empty_def ht_len_def list_all_iff filter_empty_conv)

section \<open>Exported buffers\<close>

text \<open>The exported address is represented by whether it is null.\<close>

record buffer_view =
  view_token :: handle
  view_null :: bool
  view_len :: nat

type_synonym buffer_store = "bytes handle_table"

definition buffer_insert :: "bytes \<Rightarrow> buffer_store \<Rightarrow> (buffer_store \<times> buffer_view) option" where
  "buffer_insert bs st =
     (case ht_insert bs st of None \<Rightarrow> None
      | Some (st', tok) \<Rightarrow>
          Some (st', \<lparr>view_token = tok, view_null = (bs = []), view_len = length bs\<rparr>))"

definition buffer_release :: "handle \<Rightarrow> buffer_store \<Rightarrow> buffer_store \<times> unit result" where
  "buffer_release tok st =
     (case ht_remove st tok of
        (st', None) \<Rightarrow> (st', Inl InvalidHandle)
      | (st', Some bs) \<Rightarrow> (st', Inr ()))"

definition buffer_copy :: "handle \<Rightarrow> buffer_store \<Rightarrow> bytes result" where
  "buffer_copy tok st =
     (case ht_get st tok of None \<Rightarrow> Inl InvalidHandle | Some bs \<Rightarrow> Inr bs)"

definition buffer_outstanding :: "buffer_store \<Rightarrow> nat" where
  "buffer_outstanding st = length (ht_handles st)"

section \<open>Properties\<close>



text \<open>
  C2. A removed handle stays dead: after removing a live handle, no sequence of insertions
  and removals resolves it again, as long as fewer than \<open>2 ^ 32 - 2\<close> removals follow
  (after which the slot's generation may have wrapped).
\<close>
theorem removed_handle_stays_dead:
  assumes "ht_get t h \<noteq> None" and "ht_run (fst (ht_remove t h)) xs = Some t'"
    and "Suc (removals xs) < slot_limit"
  shows "ht_get t' h = None"
  by (rule ht_stale_lookup [OF assms])

theorem removed_handle_stays_dead_witness:
  "let t1 = \<lparr>slots = [\<lparr>generation = 1, slot_value = Some (5 :: nat)\<rparr>], free_slots = []\<rparr>;
       h = 0x100000001
   in ht_insert 5 ht_new = Some (t1, h) \<and> ht_get t1 h = Some 5 \<and>
      (\<exists>t'. ht_run (fst (ht_remove t1 h)) [Ins 6, Rem 0, Ins 8] = Some t' \<and> ht_get t' h = None)"
proof -
  define t1 where "t1 = \<lparr>slots = [\<lparr>generation = 1, slot_value = Some (5 :: nat)\<rparr>], free_slots = []\<rparr>"
  have d: "decode_handle 0x100000001 = Some (0, 1)" "decode_handle 0 = None"
    by (simp_all add: decode_handle_def)
  have ins: "ht_insert 5 ht_new = Some (t1, 0x100000001)"
    by (simp add: ht_insert_def ht_new_def encode_handle_def t1_def)
  have live: "ht_get t1 0x100000001 = Some 5"
    by (simp add: ht_get_def d t1_def)
  obtain t' where run: "ht_run (fst (ht_remove t1 0x100000001)) [Ins 6, Rem 0, Ins 8] = Some t'"
    by (simp add: ht_remove_def ht_insert_def d t1_def)
  have "ht_get t' 0x100000001 = None"
    using removed_handle_stays_dead [OF _ run] live by (simp add: slot_limit_def)
  with ins live run show ?thesis by (auto simp: Let_def t1_def)
qed

text \<open>
  An exported buffer is released exactly once: its token copies back the stored bytes,
  one release succeeds and restores the store's contents, a second release and a copy
  after it fail with \<open>InvalidHandle\<close>; the exported address is null exactly for an empty
  buffer.
\<close>
lemma buffer_released_exactly_once:
  assumes "wf_ht st" and "ht_room st"
  shows "\<exists>st' view. buffer_insert bs st = Some (st', view) \<and>
    view_len view = length bs \<and> (view_null view \<longleftrightarrow> view_len view = 0) \<and>
    buffer_copy (view_token view) st' = Inr bs \<and>
    buffer_outstanding st' = Suc (buffer_outstanding st) \<and>
    (\<exists>st2. buffer_release (view_token view) st' = (st2, Inr ()) \<and> wf_ht st2 \<and>
       ht_get st2 = ht_get st \<and>
       buffer_copy (view_token view) st2 = Inl InvalidHandle \<and>
       buffer_release (view_token view) st2 = (st2, Inl InvalidHandle))"
proof -
  obtain st' h where I: "ht_insert bs st = Some (st', h)" "wf_ht st'" "ht_get st h = None"
    "ht_get st' = (ht_get st)(h \<mapsto> bs)"
    using ht.insE [OF assms] by blast
  obtain st2 r where R: "ht_remove st' h = (st2, r)" by force
  have r: "r = Some bs" "wf_ht st2" and same: "ht_get st2 = ht_get st"
    using ht.rem_map [OF I(2) R] I ht.ins_then_rem(1) [OF assms I(1)] R by auto
  have "buffer_outstanding st' = Suc (buffer_outstanding st)"
    using ht_handles_card [OF I(2)] ht_handles_card [OF assms(1)] I(3,4)
      ht_handles_live(1) [OF assms(1)]
    by (metis List.finite_set buffer_outstanding_def card_insert_disjoint domIff dom_fun_upd
        option.distinct(1))
  moreover have "ht_remove st2 h = (st2, None)"
    using same I(3) by (simp add: ht_remove_miss)
  ultimately show ?thesis
    using I r same R by (auto simp: buffer_insert_def buffer_copy_def buffer_release_def)
qed

end
