(* ===== verification/Step_System.thy ===== *)
theory Step_System
  imports Prelude
begin

text \<open>
  Two contracts shared by the stateful components. \<open>invariant_system\<close>: an operation set whose
  every step keeps an invariant, hence every run does. \<open>byte_budgeted\<close> extends it with the
  accounting promise the bounded queues of the program make: the bytes charged are exactly
  the sizes of what is held, and never above the limit.
\<close>

primrec run_ops :: "('op \<Rightarrow> 's \<Rightarrow> 's) \<Rightarrow> 'op list \<Rightarrow> 's \<Rightarrow> 's" where
  "run_ops step [] s = s"
| "run_ops step (x # xs) s = run_ops step xs (step x s)"

lemma run_ops_append: "run_ops step (xs @ ys) s = run_ops step ys (run_ops step xs s)"
  by (induction xs arbitrary: s) auto

locale invariant_system =
  fixes start :: "'s \<Rightarrow> bool"
    and step :: "'op \<Rightarrow> 's \<Rightarrow> 's"
    and inv :: "'s \<Rightarrow> bool"
  assumes start_inv: "start s \<Longrightarrow> inv s"
    and step_inv: "inv s \<Longrightarrow> inv (step x s)"
begin

lemma run_inv: "inv s \<Longrightarrow> inv (run_ops step ops s)"
  by (induction ops arbitrary: s) (auto intro: step_inv)

lemma reachable_inv: "start s \<Longrightarrow> inv (run_ops step ops s)"
  by (rule run_inv [OF start_inv])

lemma run_measure:
  assumes "\<And>x s. inv s \<Longrightarrow> f (step x s) = f s" and "inv s"
  shows "f (run_ops step ops s) = f s"
  using assms(2)
proof (induction ops arbitrary: s)
  case (Cons x ops)
  then show ?case using assms(1) [of s x] step_inv [of s x] by simp
qed simp

end

locale byte_budgeted = invariant_system start step inv
  for start :: "'s \<Rightarrow> bool" and step :: "'op \<Rightarrow> 's \<Rightarrow> 's" and inv :: "'s \<Rightarrow> bool" +
  fixes charged :: "'s \<Rightarrow> nat"
    and limit :: "'s \<Rightarrow> nat"
    and sizes :: "'s \<Rightarrow> nat list"
  assumes exact: "inv s \<Longrightarrow> charged s = sum_list (sizes s)"
    and bounded: "inv s \<Longrightarrow> charged s \<le> limit s"
    and limit_fixed: "inv s \<Longrightarrow> limit (step x s) = limit s"
begin

lemma run_accounting:
  assumes "start s"
  shows "charged (run_ops step ops s) = sum_list (sizes (run_ops step ops s)) \<and>
    charged (run_ops step ops s) \<le> limit s"
proof -
  have i: "inv (run_ops step ops s)" by (rule reachable_inv [OF assms])
  have "limit (run_ops step ops s) = limit s"
    by (rule run_measure [OF limit_fixed start_inv [OF assms]])
  then show ?thesis using exact [OF i] bounded [OF i] by simp
qed

lemma empty_releases_all:
  "start s \<Longrightarrow> sizes (run_ops step ops s) = [] \<Longrightarrow> charged (run_ops step ops s) = 0"
  using run_accounting [of s ops] by simp

end

text \<open>A run that also collects what each step returns.\<close>

primrec run_out :: "('op \<Rightarrow> 's \<Rightarrow> 's \<times> 'out) \<Rightarrow> 'op list \<Rightarrow> 's \<Rightarrow> 's \<times> 'out list" where
  "run_out step [] s = (s, [])"
| "run_out step (x # xs) s =
     (let (s1, out) = step x s; (s2, outs) = run_out step xs s1 in (s2, out # outs))"

text \<open>
  An implementation simulates a specification when related states answer every operation alike
  and stay related.
\<close>

locale simulation =
  fixes step :: "'op \<Rightarrow> 's \<Rightarrow> 's \<times> 'out"
    and spec :: "'op \<Rightarrow> 'a \<Rightarrow> 'a \<times> 'out"
    and rel :: "'s \<Rightarrow> 'a \<Rightarrow> bool"
  assumes step_sim: "rel s a \<Longrightarrow> snd (step x s) = snd (spec x a) \<and> rel (fst (step x s)) (fst (spec x a))"
begin

lemma run_sim:
  "rel s a \<Longrightarrow> snd (run_out step ops s) = snd (run_out spec ops a) \<and>
     rel (fst (run_out step ops s)) (fst (run_out spec ops a))"
proof (induction ops arbitrary: s a)
  case (Cons x ops)
  show ?case
    using step_sim [OF Cons.prems, of x] Cons.IH [of "fst (step x s)" "fst (spec x a)"]
    by (simp add: Let_def case_prod_unfold)
qed simp

end

text \<open>
  A system whose every step keeps an invariant and gives an acceptable answer, hence every run
  answers acceptably throughout.
\<close>

locale answering_system =
  fixes step :: "'op \<Rightarrow> 's \<Rightarrow> 's \<times> 'out"
    and inv :: "'s \<Rightarrow> bool"
    and good :: "'op \<Rightarrow> 'out \<Rightarrow> bool"
  assumes step_answer: "inv s \<Longrightarrow> inv (fst (step x s)) \<and> good x (snd (step x s))"
begin

lemma run_answers:
  "inv s \<Longrightarrow> inv (fst (run_out step ops s)) \<and> list_all2 good ops (snd (run_out step ops s))"
proof (induction ops arbitrary: s)
  case (Cons x ops)
  show ?case
    using step_answer [OF Cons.prems, of x] Cons.IH [of "fst (step x s)"]
    by (simp add: Let_def case_prod_unfold)
qed simp

end

end
