(* ===== verification/Event_Queue.thy ===== *)
theory Event_Queue
  imports Step_System "HOL-Library.Sublist"
begin

text \<open>
  The event types of \<^verbatim>\<open>rnet-core/src/event.rs\<close> and the bounded event queue of
  \<^verbatim>\<open>rnet-core/src/event_queue.rs\<close>. The mutex makes every operation atomic except the two
  condition-variable waits; what other threads do during a wait is an explicit list of
  operations, one list per wait.
\<close>

section \<open>Events\<close>

datatype transport = Tcp | Udp | Kcp

definition transport_try_from :: "u32 \<Rightarrow> transport result" where
  "transport_try_from v =
     (if v = 1 then Inr Tcp else if v = 2 then Inr Udp else if v = 3 then Inr Kcp
      else Inl InvalidArgument)"

datatype event_type =
  RuntimeStarted | EndpointOpened | EndpointError | SessionOpened | SessionClosed | Message |
  Writable | RuntimeStopped | AuthRequest | JoinFailed | SecurityChanged | GameControlEvent

record event =
  ev_type :: event_type
  ev_endpoint :: handle
  ev_session :: handle
  ev_correlation_id :: u64
  ev_status :: error_code
  ev_data :: bytes
  ev_integrity_verified :: bool
  ev_queued_at :: instant

definition event_simple :: "event_type \<Rightarrow> instant \<Rightarrow> event" where
  "event_simple t now = \<lparr>ev_type = t, ev_endpoint = 0, ev_session = 0, ev_correlation_id = 0,
     ev_status = Ok_Status, ev_data = [], ev_integrity_verified = False, ev_queued_at = now\<rparr>"

section \<open>The queue\<close>

record event_queue =
  eq_capacity :: nat
  eq_byte_capacity :: nat
  eq_queued_bytes :: nat
  eq_queue :: "event list"

definition eq_new_with_limits :: "nat \<Rightarrow> nat \<Rightarrow> event_queue result" where
  "eq_new_with_limits capacity byte_capacity =
     (if capacity = 0 \<or> byte_capacity = 0 then Inl InvalidArgument
      else Inr \<lparr>eq_capacity = capacity, eq_byte_capacity = byte_capacity,
                eq_queued_bytes = 0, eq_queue = []\<rparr>)"

definition eq_new :: "nat \<Rightarrow> event_queue result" where
  "eq_new capacity = eq_new_with_limits capacity usize_max"

text \<open>The two tests the code repeats: no byte budget for the payload, and queue full.\<close>

definition eq_over_bytes :: "event_queue \<Rightarrow> nat \<Rightarrow> bool" where
  "eq_over_bytes q n =
     (case checked_add (eq_queued_bytes q) n of None \<Rightarrow> True | Some t \<Rightarrow> eq_byte_capacity q < t)"

definition eq_full :: "event_queue \<Rightarrow> nat \<Rightarrow> bool" where
  "eq_full q n \<longleftrightarrow> length (eq_queue q) = eq_capacity q \<or> eq_over_bytes q n"

text \<open>The admission tail shared by the three producers: charge, stamp, append.\<close>

definition eq_admit :: "event \<Rightarrow> instant \<Rightarrow> event_queue \<Rightarrow> event_queue" where
  "eq_admit ev now q =
     q\<lparr>eq_queued_bytes := eq_queued_bytes q + length (ev_data ev),
       eq_queue := eq_queue q @ [ev\<lparr>ev_queued_at := now\<rparr>]\<rparr>"

definition eq_try_push :: "event \<Rightarrow> instant \<Rightarrow> event_queue \<Rightarrow> event_queue \<times> unit result" where
  "eq_try_push ev now q =
     (if eq_full q (length (ev_data ev)) then (q, Inl WouldBlock)
      else (eq_admit ev now q, Inr ()))"

definition evictable :: "event \<Rightarrow> bool" where
  "evictable ev \<longleftrightarrow> ev_type ev \<in> {Message, Writable, GameControlEvent}"

definition strippable :: "event \<Rightarrow> bool" where
  "strippable ev \<longleftrightarrow> ev_type ev \<in> {SessionClosed, JoinFailed, EndpointError}"

primrec position :: "('a \<Rightarrow> bool) \<Rightarrow> 'a list \<Rightarrow> nat option" where
  "position P [] = None"
| "position P (x # xs) = (if P x then Some 0 else map_option Suc (position P xs))"

definition remove_at :: "nat \<Rightarrow> 'a list \<Rightarrow> 'a list" where
  "remove_at i xs = take i xs @ drop (Suc i) xs"

lemma position_Some: "position P xs = Some i \<Longrightarrow> i < length xs \<and> P (xs ! i) \<and> (\<forall>j < i. \<not> P (xs ! j))"
  by (induction xs arbitrary: i) (auto simp: less_Suc_eq_0_disj split: if_splits)

lemma position_None [simp]: "position P xs = None \<longleftrightarrow> (\<forall>x \<in> set xs. \<not> P x)"
  by (induction xs) auto

lemma length_remove_at [simp]: "i < length xs \<Longrightarrow> length (remove_at i xs) = length xs - 1"
  by (simp add: remove_at_def)

function evict_loop :: "nat \<Rightarrow> bool \<Rightarrow> event_queue \<Rightarrow> event_queue \<times> bool result" where
  "evict_loop n evicted q =
     (if eq_full q n then
        (case position evictable (eq_queue q) of
           None \<Rightarrow> (q, Inl WouldBlock)
         | Some i \<Rightarrow>
             evict_loop n True
               (q\<lparr>eq_queue := remove_at i (eq_queue q),
                  eq_queued_bytes := eq_queued_bytes q - length (ev_data (eq_queue q ! i))\<rparr>))
      else (q, Inr evicted))"
  by pat_completeness auto
termination
  by (relation "measure (\<lambda>(n, b, q). length (eq_queue q))") (auto dest!: position_Some)

declare evict_loop.simps [simp del]

definition strip_diagnostics :: "event \<Rightarrow> event_queue \<Rightarrow> event" where
  "strip_diagnostics ev q =
     (if strippable ev \<and> eq_over_bytes q (length (ev_data ev)) then ev\<lparr>ev_data := []\<rparr> else ev)"

definition eq_push_priority :: "event \<Rightarrow> instant \<Rightarrow> event_queue \<Rightarrow> event_queue \<times> bool result" where
  "eq_push_priority ev0 now q =
     (let ev = strip_diagnostics ev0 q
      in if eq_byte_capacity q < length (ev_data ev) then (q, Inl WouldBlock)
         else case evict_loop (length (ev_data ev)) False q of
           (q1, Inl e) \<Rightarrow> (q1, Inl e)
         | (q1, Inr evicted) \<Rightarrow> (eq_admit ev now q1, Inr evicted))"

fun poll_count :: "nat \<Rightarrow> event list \<Rightarrow> nat" where
  "poll_count remaining [] = 0"
| "poll_count remaining (ev # evs) =
     (if remaining < length (ev_data ev) then 0
      else Suc (poll_count (remaining - length (ev_data ev)) evs))"

text \<open>The part of a poll that runs under the lock, after the optional wait.\<close>

definition eq_drain :: "nat \<Rightarrow> nat \<Rightarrow> event_queue \<Rightarrow> event_queue \<times> event list" where
  "eq_drain capacity byte_limit q =
     (let n = poll_count byte_limit (take capacity (eq_queue q));
          events = take n (eq_queue q)
      in (q\<lparr>eq_queue := drop n (eq_queue q),
            eq_queued_bytes :=
              eq_queued_bytes q - sum_list (map (\<lambda>ev. length (ev_data ev)) events)\<rparr>,
          events))"

text \<open>What another thread may do to the queue while this one waits.\<close>

datatype eq_op =
  TryPush event instant
| PushPriority event instant
| Drain nat nat

fun eq_step :: "eq_op \<Rightarrow> event_queue \<Rightarrow> event_queue" where
  "eq_step (TryPush ev now) q = fst (eq_try_push ev now q)"
| "eq_step (PushPriority ev now) q = fst (eq_push_priority ev now q)"
| "eq_step (Drain capacity byte_limit) q = fst (eq_drain capacity byte_limit q)"

definition eq_poll_with_byte_limit ::
    "nat \<Rightarrow> nat \<Rightarrow> duration \<Rightarrow> eq_op list \<Rightarrow> event_queue \<Rightarrow> event_queue \<times> event list" where
  "eq_poll_with_byte_limit capacity byte_limit timeout others q =
     (if capacity = 0 then (q, [])
      else let q1 = (if eq_queue q = [] \<and> timeout \<noteq> 0 then run_ops eq_step others q else q)
           in eq_drain capacity byte_limit q1)"

definition eq_poll :: "nat \<Rightarrow> duration \<Rightarrow> eq_op list \<Rightarrow> event_queue \<Rightarrow> event_queue \<times> event list" where
  "eq_poll capacity timeout others q = eq_poll_with_byte_limit capacity usize_max timeout others q"

text \<open>
  One wait of \<^verbatim>\<open>push_timeout\<close>: the clock read before it, what happened to the queue during
  it, and whether the wait timed out. The result is \<open>None\<close> while the caller still waits.
\<close>

record eq_wait =
  wait_now :: instant
  wait_others :: "eq_op list"
  wait_timed_out :: bool

fun push_wait_loop ::
    "event \<Rightarrow> instant \<Rightarrow> instant \<Rightarrow> eq_wait list \<Rightarrow> event_queue \<Rightarrow>
      event_queue \<times> unit result option" where
  "push_wait_loop ev deadline now waits q =
     (if \<not> eq_full q (length (ev_data ev)) then (eq_admit ev now q, Some (Inr ()))
      else case waits of
        [] \<Rightarrow> (q, None)
      | w # ws \<Rightarrow>
          if deadline \<le> wait_now w then (q, Some (Inl WouldBlock))
          else (let q1 = run_ops eq_step (wait_others w) q
                in if wait_timed_out w \<and> eq_full q1 (length (ev_data ev))
                   then (q1, Some (Inl WouldBlock))
                   else push_wait_loop ev deadline now ws q1))"

declare push_wait_loop.simps [simp del]

definition eq_push_timeout ::
    "event \<Rightarrow> duration \<Rightarrow> instant \<Rightarrow> instant \<Rightarrow> eq_wait list \<Rightarrow> event_queue \<Rightarrow>
      event_queue \<times> unit result option" where
  "eq_push_timeout ev timeout start now waits q =
     (case instant_checked_add start timeout of
        None \<Rightarrow> (q, Some (Inl InvalidArgument))
      | Some deadline \<Rightarrow> push_wait_loop ev deadline now waits q)"

definition eq_len :: "event_queue \<Rightarrow> nat" where
  "eq_len q = length (eq_queue q)"

definition eq_is_empty :: "event_queue \<Rightarrow> bool" where
  "eq_is_empty q \<longleftrightarrow> eq_len q = 0"

section \<open>Invariant\<close>

definition payload_bytes :: "event list \<Rightarrow> nat" where
  "payload_bytes evs = sum_list (map (\<lambda>ev. length (ev_data ev)) evs)"

lemma payload_bytes_simps [simp]:
  "payload_bytes [] = 0"
  "payload_bytes (ev # evs) = length (ev_data ev) + payload_bytes evs"
  "payload_bytes (xs @ ys) = payload_bytes xs + payload_bytes ys"
  by (simp_all add: payload_bytes_def)

definition wf_eq :: "event_queue \<Rightarrow> bool" where
  "wf_eq q \<longleftrightarrow> 0 < eq_capacity q \<and> 0 < eq_byte_capacity q \<and>
     length (eq_queue q) \<le> eq_capacity q \<and> eq_queued_bytes q = payload_bytes (eq_queue q) \<and>
     eq_queued_bytes q \<le> eq_byte_capacity q"

lemma not_over_bytes: "\<not> eq_over_bytes q n \<Longrightarrow> eq_queued_bytes q + n \<le> eq_byte_capacity q"
  by (auto simp: eq_over_bytes_def checked_add_def split: if_splits)

lemma wf_eq_admit [inv_intros]:
  "wf_eq q \<Longrightarrow> \<not> eq_full q (length (ev_data ev)) \<Longrightarrow> wf_eq (eq_admit ev now q)"
  using not_over_bytes [of q "length (ev_data ev)"]
  by (auto simp: wf_eq_def eq_full_def eq_admit_def)

lemma wf_eq_try_push [inv_intros]: "wf_eq q \<Longrightarrow> wf_eq (fst (eq_try_push ev now q))"
  by (simp add: eq_try_push_def wf_eq_admit)

text \<open>
  The specification of eviction: \<open>survivors k\<close> drops the \<open>k\<close> oldest data notifications and
  keeps everything else in order.
\<close>

fun survivors :: "nat \<Rightarrow> event list \<Rightarrow> event list" where
  "survivors k [] = []"
| "survivors 0 (ev # evs) = ev # evs"
| "survivors (Suc k) (ev # evs) =
     (if evictable ev then survivors k evs else ev # survivors (Suc k) evs)"

lemma survivors_0 [simp]: "survivors 0 evs = evs"
  by (cases evs) auto

lemma survivors_lifecycle: "filter (\<lambda>ev. \<not> evictable ev) (survivors k evs) = filter (\<lambda>ev. \<not> evictable ev) evs"
  by (induction k evs rule: survivors.induct) auto

lemma survivors_data: "filter evictable (survivors k evs) = drop k (filter evictable evs)"
  by (induction k evs rule: survivors.induct) auto

lemma subseq_survivors: "subseq (survivors k evs) evs"
  by (induction k evs rule: survivors.induct) auto

lemma survivors_remove_at:
  "position evictable evs = Some i \<Longrightarrow> survivors k (remove_at i evs) = survivors (Suc k) evs"
  by (cases k; induction evs arbitrary: i) (auto simp: remove_at_def split: if_splits)

lemma survivors_none: "\<forall>ev \<in> set evs. \<not> evictable ev \<Longrightarrow> survivors k evs = evs"
  by (induction k evs rule: survivors.induct) auto

lemma payload_remove_at:
  "i < length evs \<Longrightarrow> payload_bytes (remove_at i evs) = payload_bytes evs - length (ev_data (evs ! i))"
  by (subst (2) id_take_nth_drop [of i evs]) (simp_all add: remove_at_def)

definition with_events :: "event list \<Rightarrow> event_queue \<Rightarrow> event_queue" where
  "with_events evs q = q\<lparr>eq_queue := evs, eq_queued_bytes := payload_bytes evs\<rparr>"

lemma with_events_self: "wf_eq q \<Longrightarrow> with_events (eq_queue q) q = q"
  by (simp add: with_events_def wf_eq_def)

lemma with_events_simps [simp]:
  "eq_queue (with_events evs q) = evs"
  "eq_queued_bytes (with_events evs q) = payload_bytes evs"
  "eq_capacity (with_events evs q) = eq_capacity q"
  "eq_byte_capacity (with_events evs q) = eq_byte_capacity q"
  "with_events evs (with_events evs' q) = with_events evs q"
  by (simp_all add: with_events_def)

lemma payload_survivors_le: "payload_bytes (survivors k evs) \<le> payload_bytes evs"
  by (induction k evs rule: survivors.induct) auto

lemma wf_eq_survivors [inv_intros]: "wf_eq q \<Longrightarrow> wf_eq (with_events (survivors k (eq_queue q)) q)"
  using list_emb_length [OF subseq_survivors, of k "eq_queue q"]
    payload_survivors_le [of k "eq_queue q"]
  by (simp add: wf_eq_def)

text \<open>The eviction loop drops the fewest oldest data notifications that make room.\<close>

lemma evict_loop_spec:
  assumes "wf_eq q"
  shows "(\<exists>k. evict_loop n b q =
            (with_events (survivors k (eq_queue q)) q, Inr (b \<or> 0 < k)) \<and>
            \<not> eq_full (with_events (survivors k (eq_queue q)) q) n \<and>
            (\<forall>j < k. eq_full (with_events (survivors j (eq_queue q)) q) n)) \<or>
         (\<exists>k. evict_loop n b q = (with_events (survivors k (eq_queue q)) q, Inl WouldBlock) \<and>
            (\<forall>j. eq_full (with_events (survivors j (eq_queue q)) q) n))"
  using assms
proof (induction "length (eq_queue q)" arbitrary: q b rule: less_induct)
  case less
  show ?case
  proof (cases "eq_full q n")
    case False
    then show ?thesis
      using with_events_self [OF less.prems]
      by (intro disjI1 exI [of _ 0]) (simp add: evict_loop.simps)
  next
    case full: True
    show ?thesis
    proof (cases "position evictable (eq_queue q)")
      case None
      then have "survivors j (eq_queue q) = eq_queue q" for j by (simp add: survivors_none)
      then show ?thesis
        using full with_events_self [OF less.prems]
        by (intro disjI2 exI [of _ 0]) (simp add: evict_loop.simps None del: position_None)
    next
      case (Some i)
      let ?q = "with_events (survivors 1 (eq_queue q)) q"
      have i: "i < length (eq_queue q)" using position_Some [OF Some] by simp
      have r: "remove_at i (eq_queue q) = survivors 1 (eq_queue q)"
        using survivors_remove_at [OF Some, of 0] by simp
      have e: "evict_loop n b q = evict_loop n True ?q"
        using full Some less.prems payload_remove_at [OF i]
        by (simp add: evict_loop.simps [of n b q] with_events_def wf_eq_def r)
      have s: "survivors k (eq_queue ?q) = survivors (Suc k) (eq_queue q)" for k
        using survivors_remove_at [OF Some] by (simp add: r)
      have "length (eq_queue ?q) < length (eq_queue q)"
        using length_remove_at [OF i] i by (simp add: r)
      note ih = less.hyps [OF this wf_eq_survivors [OF less.prems], of True]
      have f0: "eq_full (with_events (survivors 0 (eq_queue q)) q) n"
        using full with_events_self [OF less.prems] by simp
      have all: "(\<forall>j. eq_full (with_events (survivors (Suc j) (eq_queue q)) q) n) \<Longrightarrow>
          eq_full (with_events (survivors j (eq_queue q)) q) n" for j
        using f0 by (cases j) simp_all
      have below: "(\<forall>j < k. eq_full (with_events (survivors (Suc j) (eq_queue q)) q) n) \<Longrightarrow>
          (\<forall>j < Suc k. eq_full (with_events (survivors j (eq_queue q)) q) n)" for k
        using f0 by (auto simp: less_Suc_eq_0_disj)
      from ih show ?thesis
        unfolding e s
      proof (elim disjE exE conjE, goal_cases)
        case (1 k)
        then show ?case using below [of k] by (intro disjI1 exI [of _ "Suc k"]) simp
      next
        case (2 k)
        then show ?case using all by (intro disjI2 exI [of _ "Suc k"]) simp
      qed
    qed
  qed
qed

lemma evict_loop_cases:
  assumes "wf_eq q"
  obtains (room) k where "evict_loop n b q = (with_events (survivors k (eq_queue q)) q, Inr (b \<or> 0 < k))"
      "\<not> eq_full (with_events (survivors k (eq_queue q)) q) n"
      "\<forall>j < k. eq_full (with_events (survivors j (eq_queue q)) q) n"
    | (stuck) k where "evict_loop n b q = (with_events (survivors k (eq_queue q)) q, Inl WouldBlock)"
      "\<forall>j. eq_full (with_events (survivors j (eq_queue q)) q) n"
  using evict_loop_spec [OF assms, of n b] by blast

lemma over_budget_full: "eq_byte_capacity q < n \<Longrightarrow> eq_full q n"
  by (auto simp: eq_full_def eq_over_bytes_def split: option.splits)

text \<open>The cases of a priority push on a well-formed queue.\<close>

lemma push_priority_cases:
  fixes q ev0
  defines "ev \<equiv> strip_diagnostics ev0 q"
  assumes "wf_eq q"
  obtains (published) k where
      "eq_push_priority ev0 now q =
         (eq_admit ev now (with_events (survivors k (eq_queue q)) q), Inr (0 < k))"
      "\<not> eq_full (with_events (survivors k (eq_queue q)) q) (length (ev_data ev))"
      "\<forall>j < k. eq_full (with_events (survivors j (eq_queue q)) q) (length (ev_data ev))"
    | (rejected) k where
      "eq_push_priority ev0 now q = (with_events (survivors k (eq_queue q)) q, Inl WouldBlock)"
      "\<forall>j. eq_full (with_events (survivors j (eq_queue q)) q) (length (ev_data ev))"
proof (cases "eq_byte_capacity q < length (ev_data ev)")
  case True
  then have "eq_push_priority ev0 now q = (with_events (survivors 0 (eq_queue q)) q, Inl WouldBlock)"
    using with_events_self [OF assms(2)] by (simp add: eq_push_priority_def ev_def)
  then show ?thesis using True by (intro rejected [of 0]) (auto intro: over_budget_full)
next
  case False
  show ?thesis
    using assms(2)
  proof (cases rule: evict_loop_cases [where n = "length (ev_data ev)" and b = False])
    case (room k)
    then show ?thesis using False
      by (intro published [of k]) (simp_all add: eq_push_priority_def Let_def flip: ev_def)
  next
    case (stuck k)
    then show ?thesis using False
      by (intro rejected [of k]) (simp_all add: eq_push_priority_def Let_def flip: ev_def)
  qed
qed

lemma wf_eq_push_priority [inv_intros]:
  assumes "wf_eq q"
  shows "wf_eq (fst (eq_push_priority ev now q))"
  using assms
  by (cases rule: push_priority_cases [where ?ev0.0 = ev and now = now])
    (auto intro: wf_eq_admit wf_eq_survivors assms)

lemma wf_eq_drain [inv_intros]: "wf_eq q \<Longrightarrow> wf_eq (fst (eq_drain capacity byte_limit q))"
proof -
  assume wf: "wf_eq q"
  let ?n = "poll_count byte_limit (take capacity (eq_queue q))"
  have "payload_bytes (take ?n (eq_queue q)) + payload_bytes (drop ?n (eq_queue q)) =
      payload_bytes (eq_queue q)"
    by (simp flip: payload_bytes_simps(3))
  then show ?thesis
    using wf by (auto simp: wf_eq_def eq_drain_def Let_def payload_bytes_def [symmetric])
qed

lemma wf_eq_step [inv_intros]: "wf_eq q \<Longrightarrow> wf_eq (eq_step x q)"
  by (cases x) (auto intro: inv_intros)

lemma eq_step_limits [simp]:
  "wf_eq q \<Longrightarrow> eq_byte_capacity (eq_step x q) = eq_byte_capacity q"
proof (cases x)
  case (PushPriority ev now)
  assume "wf_eq q"
  then show ?thesis
    unfolding PushPriority
    by (cases rule: push_priority_cases [where ?ev0.0 = ev and now = now])
      (auto simp: eq_admit_def)
qed (auto simp: eq_try_push_def eq_admit_def eq_drain_def Let_def)

definition fresh_eq :: "event_queue \<Rightarrow> bool" where
  "fresh_eq q \<longleftrightarrow> (\<exists>c b. eq_new_with_limits c b = Inr q)"

lemma fresh_eq_wf: "fresh_eq q \<Longrightarrow> wf_eq q"
  by (auto simp: fresh_eq_def eq_new_with_limits_def wf_eq_def split: if_splits)

interpretation evq: byte_budgeted fresh_eq eq_step wf_eq eq_queued_bytes eq_byte_capacity
  "\<lambda>q. map (\<lambda>ev. length (ev_data ev)) (eq_queue q)"
  by unfold_locales
    (auto intro: fresh_eq_wf wf_eq_step simp: wf_eq_def [symmetric] dest: wf_eq_def [THEN iffD1]
      simp: payload_bytes_def)

section \<open>Runs and their histories\<close>

text \<open>What an operation accepts into the queue, as stored, and what it hands to the consumer.\<close>

fun eq_accepted :: "eq_op \<Rightarrow> event_queue \<Rightarrow> event list" where
  "eq_accepted (TryPush ev now) q =
     (case snd (eq_try_push ev now q) of Inl _ \<Rightarrow> [] | Inr _ \<Rightarrow> [ev\<lparr>ev_queued_at := now\<rparr>])"
| "eq_accepted (PushPriority ev now) q =
     (case snd (eq_push_priority ev now q) of
        Inl _ \<Rightarrow> [] | Inr _ \<Rightarrow> [(strip_diagnostics ev q)\<lparr>ev_queued_at := now\<rparr>])"
| "eq_accepted (Drain capacity byte_limit) q = []"

fun eq_delivered :: "eq_op \<Rightarrow> event_queue \<Rightarrow> event list" where
  "eq_delivered (Drain capacity byte_limit) q = snd (eq_drain capacity byte_limit q)"
| "eq_delivered _ q = []"

primrec accepted_in :: "eq_op list \<Rightarrow> event_queue \<Rightarrow> event list" where
  "accepted_in [] q = []"
| "accepted_in (x # xs) q = eq_accepted x q @ accepted_in xs (eq_step x q)"

primrec delivered_in :: "eq_op list \<Rightarrow> event_queue \<Rightarrow> event list" where
  "delivered_in [] q = []"
| "delivered_in (x # xs) q = eq_delivered x q @ delivered_in xs (eq_step x q)"

abbreviation lifecycle_events :: "event list \<Rightarrow> event list" where
  "lifecycle_events \<equiv> filter (\<lambda>ev. \<not> evictable ev)"

lemma eq_step_history:
  assumes "wf_eq q"
  shows "lifecycle_events (eq_delivered x q @ eq_queue (eq_step x q)) =
      lifecycle_events (eq_queue q @ eq_accepted x q) \<and>
    subseq (eq_delivered x q @ eq_queue (eq_step x q)) (eq_queue q @ eq_accepted x q)"
proof (cases x)
  case (TryPush ev now)
  then show ?thesis by (simp add: eq_try_push_def eq_admit_def)
next
  case (PushPriority ev now)
  show ?thesis
    using assms
  proof (cases rule: push_priority_cases [where ?ev0.0 = ev and now = now])
    case (published k)
    then show ?thesis
      by (simp add: PushPriority eq_admit_def survivors_lifecycle subseq_survivors
          list_emb_append_mono)
  next
    case (rejected k)
    then show ?thesis by (simp add: PushPriority survivors_lifecycle subseq_survivors)
  qed
next
  case (Drain capacity byte_limit)
  then show ?thesis by (simp add: eq_drain_def Let_def del: filter_append)
qed

lemma eq_run_history:
  assumes "wf_eq q"
  shows "lifecycle_events (delivered_in xs q @ eq_queue (run_ops eq_step xs q)) =
      lifecycle_events (eq_queue q @ accepted_in xs q) \<and>
    subseq (delivered_in xs q @ eq_queue (run_ops eq_step xs q)) (eq_queue q @ accepted_in xs q)"
  using assms
proof (induction xs arbitrary: q)
  case Nil
  then show ?case by simp
next
  case (Cons x xs)
  let ?q = "eq_step x q"
  note h = eq_step_history [OF Cons.prems, of x]
  note ih = Cons.IH [OF wf_eq_step [OF Cons.prems, of x]]
  have a: "subseq (eq_delivered x q @ delivered_in xs ?q @ eq_queue (run_ops eq_step xs ?q))
      (eq_delivered x q @ eq_queue ?q @ accepted_in xs ?q)"
    by (rule list_emb_append_mono) (use ih in auto)
  have b: "subseq ((eq_delivered x q @ eq_queue ?q) @ accepted_in xs ?q)
      ((eq_queue q @ eq_accepted x q) @ accepted_in xs ?q)"
    by (rule list_emb_append_mono) (use h in auto)
  have sub: "subseq (delivered_in (x # xs) q @ eq_queue (run_ops eq_step (x # xs) q))
      (eq_queue q @ accepted_in (x # xs) q)"
    using subseq_order.order_trans [OF a b [unfolded append_assoc]]
    by (simp only: delivered_in.simps accepted_in.simps run_ops.simps append_assoc)
  have "lifecycle_events (delivered_in (x # xs) q @ eq_queue (run_ops eq_step (x # xs) q)) =
      lifecycle_events (eq_delivered x q) @ lifecycle_events (eq_queue ?q @ accepted_in xs ?q)"
    using ih by simp
  also have "\<dots> = lifecycle_events (eq_delivered x q @ eq_queue ?q) @
      lifecycle_events (accepted_in xs ?q)"
    by simp
  also have "\<dots> = lifecycle_events (eq_queue q @ accepted_in (x # xs) q)"
    unfolding h [THEN conjunct1] by simp
  finally show ?case using sub by (rule conjI)
qed

lemma poll_count_spec:
  "poll_count r evs \<le> length evs \<and> payload_bytes (take (poll_count r evs) evs) \<le> r \<and>
   (poll_count r evs < length evs \<longrightarrow>
      r < payload_bytes (take (Suc (poll_count r evs)) evs))"
  by (induction r evs rule: poll_count.induct) auto

lemma push_wait_loop_wf: "wf_eq q \<Longrightarrow> wf_eq (fst (push_wait_loop ev dl now waits q))"
proof (induction waits arbitrary: q)
  case Nil
  then show ?case by (simp add: push_wait_loop.simps [of _ _ _ "[]"] wf_eq_admit)
next
  case (Cons w ws)
  then have "wf_eq (run_ops eq_step (wait_others w) q)" by (intro evq.run_inv)
  then show ?case
    using Cons by (subst push_wait_loop.simps) (simp add: Let_def wf_eq_admit)
qed

text \<open>A blocking push admits exactly its event, or reports a queue that is full right then.\<close>

lemma push_wait_loop_result:
  "push_wait_loop ev dl now waits q = (q', Some r) \<Longrightarrow>
     (r = Inr () \<and> (\<exists>q1. \<not> eq_full q1 (length (ev_data ev)) \<and> q' = eq_admit ev now q1)) \<or>
     (r = Inl WouldBlock \<and> eq_full q' (length (ev_data ev)))"
proof (induction waits arbitrary: q)
  case Nil
  then show ?case by (auto simp: push_wait_loop.simps [of _ _ _ "[]"] split: if_splits)
next
  case (Cons w ws)
  from Cons.prems show ?case
    by (subst (asm) push_wait_loop.simps) (auto simp: Let_def dest: Cons.IH split: if_splits)
qed

lemma push_wait_loop_returns:
  "\<exists>w \<in> set waits. dl \<le> wait_now w \<Longrightarrow> snd (push_wait_loop ev dl now waits q) \<noteq> None"
proof (induction waits arbitrary: q)
  case (Cons w ws)
  then show ?case
    by (subst push_wait_loop.simps) (auto simp: Let_def)
qed simp

lemmas eq_eval = eq_try_push_def eq_full_def eq_over_bytes_def checked_add_def usize_max_def
  event_simple_def eq_admit_def eq_push_priority_def strip_diagnostics_def strippable_def
  evictable_def evict_loop.simps remove_at_def eq_drain_def Let_def wf_eq_def

section \<open>Properties\<close>

text \<open>
  C7. From construction on, through every interleaving of immediate pushes, priority pushes
  and polls, the bytes charged by the event queue are exactly the payload bytes it holds and
  never exceed the byte capacity, and the number of events never exceeds the capacity.
\<close>

theorem event_queue_accounting:
  assumes "eq_new_with_limits capacity byte_capacity = Inr q0"
    and "q = run_ops eq_step ops q0"
  shows "eq_queued_bytes q = sum_list (map (\<lambda>ev. length (ev_data ev)) (eq_queue q)) \<and>
    eq_queued_bytes q \<le> byte_capacity \<and> length (eq_queue q) \<le> eq_capacity q"
proof -
  have f: "fresh_eq q0" using assms(1) by (auto simp: fresh_eq_def)
  have "eq_byte_capacity q0 = byte_capacity"
    using assms(1) by (auto simp: eq_new_with_limits_def split: if_splits)
  then show ?thesis
    using evq.run_accounting [OF f, of ops] evq.reachable_inv [OF f, of ops] assms(2)
    by (simp add: wf_eq_def)
qed

theorem event_queue_accounting_witness:
  "let q0 = \<lparr>eq_capacity = 2, eq_byte_capacity = 8, eq_queued_bytes = 0, eq_queue = []\<rparr>;
       q = run_ops eq_step [TryPush ((event_simple Message 0)\<lparr>ev_data := [1, 2]\<rparr>) 5] q0
   in eq_queued_bytes q = 2 \<and>
      eq_queued_bytes q = sum_list (map (\<lambda>ev. length (ev_data ev)) (eq_queue q))"
  using event_queue_accounting [of 2 8 "\<lparr>eq_capacity = 2, eq_byte_capacity = 8,
      eq_queued_bytes = 0, eq_queue = []\<rparr>" _
      "[TryPush ((event_simple Message 0)\<lparr>ev_data := [1, 2]\<rparr>) 5]"]
  by (simp add: eq_new_with_limits_def eq_eval)



text \<open>
  A priority push evicts the oldest data notifications, and only as many as it needs:
  either it is published behind the survivors of the least sufficient number of evictions,
  and reports whether that number is positive, or it is rejected and no number of evictions
  would have made room.
\<close>

lemma push_priority_minimal_eviction:
  assumes "wf_eq q" and "ev = strip_diagnostics ev0 q"
  shows "(\<exists>k. eq_push_priority ev0 now q =
            (eq_admit ev now (with_events (survivors k (eq_queue q)) q), Inr (0 < k)) \<and>
            \<not> eq_full (with_events (survivors k (eq_queue q)) q) (length (ev_data ev)) \<and>
            (\<forall>j < k. eq_full (with_events (survivors j (eq_queue q)) q) (length (ev_data ev)))) \<or>
         (snd (eq_push_priority ev0 now q) = Inl WouldBlock \<and>
          (\<forall>j. eq_full (with_events (survivors j (eq_queue q)) q) (length (ev_data ev))))"
  using assms(1) unfolding assms(2)
  by (cases rule: push_priority_cases [where ?ev0.0 = ev0 and now = now]) auto

text \<open>
  A poll removes the longest first-in-first-out prefix within both limits: what it
  returns followed by what stays is the old queue, and it stops only at the count limit, at
  the end, or at an event whose payload does not fit the byte limit.
\<close>

lemma poll_takes_maximal_prefix:
  assumes "eq_drain capacity byte_limit q = (q', evs)"
  shows "evs @ eq_queue q' = eq_queue q \<and> length evs \<le> capacity \<and>
    payload_bytes evs \<le> byte_limit \<and>
    (eq_queue q' = [] \<or> length evs = capacity \<or>
     byte_limit < payload_bytes (evs @ [hd (eq_queue q')]))"
proof -
  define n where "n = poll_count byte_limit (take capacity (eq_queue q))"
  have e: "evs = take n (eq_queue q)" "eq_queue q' = drop n (eq_queue q)"
    using assms by (auto simp: eq_drain_def Let_def n_def)
  have sp: "n \<le> length (eq_queue q)" "n \<le> capacity"
    "payload_bytes (take n (take capacity (eq_queue q))) \<le> byte_limit"
    "n < length (eq_queue q) \<Longrightarrow> n < capacity \<Longrightarrow>
       byte_limit < payload_bytes (take (Suc n) (take capacity (eq_queue q)))"
    using poll_count_spec [of byte_limit "take capacity (eq_queue q)"] by (auto simp flip: n_def)
  have "take n (take capacity (eq_queue q)) = evs" using sp(2) e(1) by (simp add: min_absorb1)
  moreover have "take (Suc n) (take capacity (eq_queue q)) = evs @ [hd (eq_queue q')]"
    if "n < length (eq_queue q)" "n < capacity"
    using that e by (simp add: min_absorb1 take_Suc_conv_app_nth hd_drop_conv_nth)
  ultimately show ?thesis
    using sp e by (cases "n < length (eq_queue q)"; cases "n < capacity") simp_all
qed

text \<open>
  A blocking push, under any interference during its waits, keeps the queue well
  formed; when it returns it has either appended exactly its event to a queue with room, or
  reported \<^verbatim>\<open>WouldBlock\<close> on a queue that is full for it at that moment; and it does return
  once the clock has reached its deadline.
\<close>

lemma push_timeout_correct:
  assumes "wf_eq q" and "instant_checked_add start timeout = Some deadline"
  shows "wf_eq (fst (eq_push_timeout ev timeout start now waits q)) \<and>
    (\<forall>q' r. eq_push_timeout ev timeout start now waits q = (q', Some r) \<longrightarrow>
       (r = Inr () \<and> (\<exists>q1. \<not> eq_full q1 (length (ev_data ev)) \<and> q' = eq_admit ev now q1)) \<or>
       (r = Inl WouldBlock \<and> eq_full q' (length (ev_data ev)))) \<and>
    ((\<exists>w \<in> set waits. deadline \<le> wait_now w) \<longrightarrow>
       snd (eq_push_timeout ev timeout start now waits q) \<noteq> None)"
  using push_wait_loop_wf [OF assms(1)] push_wait_loop_result push_wait_loop_returns
  by (simp add: eq_push_timeout_def assms(2))

end
