(* ===== verification/Runtime_Lifecycle.thy ===== *)
theory Runtime_Lifecycle
  imports Step_System
begin

text \<open>
  The atomic runtime lifecycle of \<^verbatim>\<open>rnet-core/src/lifecycle.rs\<close>. Each compare-exchange is one
  atomic step; the load that precedes it in \<^verbatim>\<open>begin_draining\<close> and \<^verbatim>\<open>mark_stopped\<close> is a step of
  its own, so that other threads may run in between.
\<close>

datatype lifecycle = Created | Running | Draining | Stopped

fun lifecycle_rank :: "lifecycle \<Rightarrow> nat" where
  "lifecycle_rank Created = 0"
| "lifecycle_rank Running = 1"
| "lifecycle_rank Draining = 2"
| "lifecycle_rank Stopped = 3"

definition lc_load :: "nat \<Rightarrow> lifecycle" where
  "lc_load v = (if v = 0 then Created else if v = 1 then Running else if v = 2 then Draining
     else Stopped)"

definition lc_transition :: "lifecycle \<Rightarrow> lifecycle \<Rightarrow> nat \<Rightarrow> nat \<times> unit result" where
  "lc_transition from to v =
     (if v = lifecycle_rank from then (lifecycle_rank to, Inr ()) else (v, Inl InvalidState))"

definition lc_created :: nat where
  "lc_created = lifecycle_rank Created"

definition lc_start :: "nat \<Rightarrow> nat \<times> unit result" where
  "lc_start v = lc_transition Created Running v"

text \<open>The calls in flight: what a thread has still to do after its load.\<close>

datatype lc_call = Start | BeginDraining | MarkStopped

datatype lc_pending = Cas lifecycle lifecycle | Done "unit result"

fun lc_begin :: "lc_call \<Rightarrow> nat \<Rightarrow> lc_pending" where
  "lc_begin Start v = Cas Created Running"
| "lc_begin BeginDraining v =
     (case lc_load v of
        Running \<Rightarrow> Cas Running Draining
      | Draining \<Rightarrow> Done (Inr ())
      | _ \<Rightarrow> Done (Inl InvalidState))"
| "lc_begin MarkStopped v =
     (case lc_load v of
        Draining \<Rightarrow> Cas Draining Stopped
      | Stopped \<Rightarrow> Done (Inr ())
      | _ \<Rightarrow> Done (Inl InvalidState))"

fun lc_finish :: "lc_pending \<Rightarrow> nat \<Rightarrow> nat \<times> unit result" where
  "lc_finish (Cas from to) v = lc_transition from to v"
| "lc_finish (Done r) v = (v, r)"

definition lc_begin_draining :: "nat \<Rightarrow> nat \<times> unit result" where
  "lc_begin_draining v = lc_finish (lc_begin BeginDraining v) v"

definition lc_mark_stopped :: "nat \<Rightarrow> nat \<times> unit result" where
  "lc_mark_stopped v = lc_finish (lc_begin MarkStopped v) v"

text \<open>
  Any number of threads: a state is the flag, the calls in flight and the log of finished
  exchanges \<open>(from, to)\<close> in the order they took effect.
\<close>

record lc_state =
  lc_flag :: nat
  lc_pendings :: "lc_pending list"
  lc_log :: "(lifecycle \<times> lifecycle) list"

datatype lc_step = Begin lc_call | Finish nat

fun lc_do :: "lc_step \<Rightarrow> lc_state \<Rightarrow> lc_state" where
  "lc_do (Begin c) s = s\<lparr>lc_pendings := lc_pendings s @ [lc_begin c (lc_flag s)]\<rparr>"
| "lc_do (Finish i) s =
     (if i < length (lc_pendings s) then
        (let p = lc_pendings s ! i;
             (v, r) = lc_finish p (lc_flag s);
             s1 = s\<lparr>lc_flag := v, lc_pendings := take i (lc_pendings s) @ drop (Suc i) (lc_pendings s)\<rparr>
         in case p of
              Cas from to \<Rightarrow> (if r = Inr () then s1\<lparr>lc_log := lc_log s @ [(from, to)]\<rparr> else s1)
            | Done _ \<Rightarrow> s1)
      else s)"

definition lc_init :: "lc_state \<Rightarrow> bool" where
  "lc_init s \<longleftrightarrow> s = \<lparr>lc_flag = lc_created, lc_pendings = [], lc_log = []\<rparr>"

definition lc_path :: "(lifecycle \<times> lifecycle) list" where
  "lc_path = [(Created, Running), (Running, Draining), (Draining, Stopped)]"

definition lc_inv :: "lc_state \<Rightarrow> bool" where
  "lc_inv s \<longleftrightarrow> lc_flag s \<le> 3 \<and> lc_log s = take (lc_flag s) lc_path \<and>
     (\<forall>p \<in> set (lc_pendings s). \<forall>a b. p = Cas a b \<longrightarrow> (a, b) \<in> set lc_path)"

lemma lc_path_nth: "(a, b) \<in> set lc_path \<Longrightarrow>
    lifecycle_rank a < 3 \<and> lifecycle_rank b = Suc (lifecycle_rank a) \<and>
    lc_path ! lifecycle_rank a = (a, b)"
  by (auto simp: lc_path_def)

lemma lc_begin_path: "lc_begin c v = Cas a b \<Longrightarrow> (a, b) \<in> set lc_path"
  by (cases c) (auto simp: lc_path_def split: lifecycle.splits)

lemma lc_inv_step: "lc_inv s \<Longrightarrow> lc_inv (lc_do x s)"
proof (cases x)
  case (Begin c)
  assume "lc_inv s"
  then show ?thesis using lc_begin_path [of c "lc_flag s"] by (auto simp: Begin lc_inv_def)
next
  case (Finish i)
  assume inv: "lc_inv s"
  show ?thesis
  proof (cases "i < length (lc_pendings s)")
    case False
    then show ?thesis using inv by (simp add: Finish)
  next
    case True
    let ?p = "lc_pendings s ! i"
    have mem: "?p \<in> set (lc_pendings s)" using True by simp
    have rest: "set (take i (lc_pendings s) @ drop (Suc i) (lc_pendings s)) \<subseteq> set (lc_pendings s)"
      by (auto dest: in_set_takeD in_set_dropD)
    show ?thesis
    proof (cases ?p)
      case (Done r)
      then show ?thesis using inv True rest by (auto simp: Finish lc_inv_def)
    next
      case (Cas a b)
      note ab = lc_path_nth [of a b]
      have "(a, b) \<in> set lc_path" using inv mem Cas by (simp add: lc_inv_def)
      moreover have "length lc_path = 3" by (simp add: lc_path_def)
      ultimately show ?thesis
        using inv True rest Cas ab
        by (auto simp: Finish lc_inv_def lc_transition_def take_Suc_conv_app_nth)
    qed
  qed
qed

lemma lc_inv_init: "lc_init s \<Longrightarrow> lc_inv s"
  by (simp add: lc_init_def lc_inv_def lc_created_def)

interpretation lcm: invariant_system lc_init lc_do lc_inv
  by unfold_locales (rule lc_inv_init lc_inv_step; assumption)+

text \<open>
  The lifecycle only moves forward, however many threads call \<^verbatim>\<open>start\<close>,
  \<^verbatim>\<open>begin_draining\<close> and \<^verbatim>\<open>mark_stopped\<close> concurrently: the transitions that took effect are a
  prefix of Created, Running, Draining, Stopped, each of them once, and the flag is the state
  that prefix leads to.
\<close>

lemma lifecycle_transitions_once:
  assumes "lc_init s0"
  shows "lc_log (run_ops lc_do steps s0) =
      take (lc_flag (run_ops lc_do steps s0))
        [(Created, Running), (Running, Draining), (Draining, Stopped)] \<and>
    lc_flag (run_ops lc_do steps s0) \<le> 3"
  using lcm.reachable_inv [OF assms, of steps] by (simp add: lc_inv_def lc_path_def)

end
