(* ===== verification/Wire_Codec.thy ===== *)
theory Wire_Codec
  imports Prelude
begin

text \<open>
  The contract every wire format of the program keeps, as the locale \<open>wire_codec\<close>: what
  an encoder emits is decoded back, and what a decoder accepts is exactly what the encoder
  emits for the decoded value. The formats are parameterised by the byte limit the caller
  passes to both sides; \<open>fits\<close> says for which limits the second law holds.
\<close>

locale wire_codec =
  fixes enc :: "nat \<Rightarrow> 'a \<Rightarrow> bytes result"
    and dec :: "nat \<Rightarrow> bytes \<Rightarrow> 'a result"
    and fits :: "nat \<Rightarrow> bool"
    and valid :: "'a \<Rightarrow> bool"
  assumes dec_enc: "valid x \<Longrightarrow> enc m x = Inr bs \<Longrightarrow> dec m bs = Inr x"
    and enc_dec: "fits m \<Longrightarrow> dec m bs = Inr x \<Longrightarrow> enc m x = Inr bs \<and> valid x"
begin

lemma dec_iff_enc: "fits m \<Longrightarrow> dec m bs = Inr x \<longleftrightarrow> valid x \<and> enc m x = Inr bs"
  using dec_enc enc_dec by blast

lemma enc_inject:
  "valid x \<Longrightarrow> valid y \<Longrightarrow> enc m x = Inr bs \<Longrightarrow> enc m y = Inr bs \<Longrightarrow> x = y"
  using dec_enc [of x m bs] dec_enc [of y m bs] by simp

lemma dec_canonical:
  "fits m \<Longrightarrow> dec m bs = Inr x \<Longrightarrow> dec m bs' = Inr x \<Longrightarrow> bs = bs'"
  using enc_dec [of m bs x] enc_dec [of m bs' x] by simp

end

text \<open>Splitting a byte string into the fields of a fixed header.\<close>

lemma append_eq_parts:
  "length xs = length us \<Longrightarrow> (xs @ ys = us @ vs) = (xs = us \<and> ys = vs)"
  by simp

lemma take_append_exact: "length xs = n \<Longrightarrow> take n (xs @ ys) = xs"
  by simp

lemma drop_append_exact: "length xs = n \<Longrightarrow> drop n (xs @ ys) = ys"
  by simp

lemma subslice_parts:
  assumes "a \<le> b" and "b \<le> length xs"
  shows "length (subslice a b xs) = b - a"
  using assms by simp

lemma nth_as_subslice: "i < length xs \<Longrightarrow> j = Suc i \<Longrightarrow> [xs ! i] = subslice i j xs"
  by (simp add: subslice_def take_Suc_conv_app_nth hd_drop_conv_nth take_Suc)

lemma subslice_Nil_ge: "length xs \<le> a \<Longrightarrow> subslice a b xs = []"
  by (simp add: subslice_def)

lemma subslice_full: "length xs \<le> b \<Longrightarrow> subslice a b xs = drop a xs"
  by (simp add: subslice_def)

lemma subslice_skip [simp]:
  "length xs = n \<Longrightarrow> n \<le> a \<Longrightarrow> subslice a b (xs @ ys) = subslice (a - n) (b - n) ys"
  by (simp add: subslice_append_right)

lemma subslice_hit [simp]: "length xs = b \<Longrightarrow> subslice 0 b (xs @ ys) = xs"
  by simp

lemma subslice_Cons [simp]:
  "subslice (Suc a) b (x # xs) = subslice a (b - 1) xs"
  "subslice (numeral k) b (x # xs) = subslice (pred_numeral k) (b - 1) xs"
  by (simp_all add: subslice_def numeral_eq_Suc)

lemma nth_append_skip [simp]:
  "length xs = n \<Longrightarrow> n \<le> i \<Longrightarrow> (xs @ ys) ! i = ys ! (i - n)"
  by (simp add: nth_append)

text \<open>A small header plus a \<^verbatim>\<open>u32\<close> length never overflows a 64-bit \<^verbatim>\<open>usize\<close>.\<close>

lemma not_u32_max_less [simp]: "\<not> u32_max < unat (w :: u32)"
  by (simp only: not_less unat_u32_le)

lemma checked_add_u32 [simp]:
  "k \<le> 4096 \<Longrightarrow> checked_add k (unat (w :: u32)) = Some (k + unat w)"
  using unat_u32_le [of w] by (simp add: usize_max_def u32_max_def)

end
