(* ===== verification/Record_Stream.thy ===== *)
theory Record_Stream
  imports Wire_Codec
begin

text \<open>
  Incremental parsing of a byte stream, as a contract, and its second instance: the
  length-prefixed record reader of \<^verbatim>\<open>rnet-transport/src/record_reader.rs\<close>.
\<close>

section \<open>The contract of an incremental parser\<close>

text \<open>
  \<open>drained nxt buf fs rest\<close>: taking items from \<open>buf\<close> until none is complete yields \<open>fs\<close> and
  leaves \<open>rest\<close>.
\<close>

inductive drained :: "(bytes \<Rightarrow> (bytes \<times> 'f) option result) \<Rightarrow> bytes \<Rightarrow> 'f list \<Rightarrow> bytes \<Rightarrow> bool"
  for nxt where
  stop: "nxt buf = Inr None \<Longrightarrow> drained nxt buf [] buf"
| more: "nxt buf = Inr (Some (rest, f)) \<Longrightarrow> drained nxt rest fs b \<Longrightarrow> drained nxt buf (f # fs) b"

inductive_cases drainedE: "drained nxt buf fs b"

locale stream_parser =
  fixes nxt :: "bytes \<Rightarrow> (bytes \<times> 'f) option result"
  assumes shorter: "nxt buf = Inr (Some (rest, f)) \<Longrightarrow> length rest < length buf"
    and stable: "nxt buf = Inr (Some (rest, f)) \<Longrightarrow> nxt (buf @ ys) = Inr (Some (rest @ ys, f))"
    and stable_error: "nxt buf = Inl e \<Longrightarrow> nxt (buf @ ys) = Inl e"
begin

lemma drained_quiet: "drained nxt buf fs b \<Longrightarrow> nxt b = Inr None"
  by (induction rule: drained.induct) auto

lemma drained_append:
  "drained nxt buf fs b \<Longrightarrow> drained nxt (b @ ys) gs c \<Longrightarrow> drained nxt (buf @ ys) (fs @ gs) c"
proof (induction rule: drained.induct)
  case (more buf rest f fs b)
  then show ?case using stable [of buf rest f ys] by (auto intro: drained.more)
qed simp

lemma drained_unique: "drained nxt buf fs b \<Longrightarrow> drained nxt buf gs c \<Longrightarrow> fs = gs \<and> b = c"
proof (induction arbitrary: gs rule: drained.induct)
  case (stop buf)
  then show ?case by (auto elim: drainedE)
next
  case (more buf rest f fs b)
  from more.prems more.hyps(1) obtain gs' where "gs = f # gs'" "drained nxt rest gs' c"
    by (auto elim: drainedE)
  then show ?case using more.IH by auto
qed

end

section \<open>The record reader\<close>

record record_reader =
  rr_buffered :: bytes
  rr_max_len :: nat

definition rr_new :: "nat \<Rightarrow> record_reader" where
  "rr_new max_len = \<lparr>rr_buffered = [], rr_max_len = max_len\<rparr>"

definition rr_take :: "record_reader \<Rightarrow> (record_reader \<times> bytes option) result" where
  "rr_take r =
     (let buf = rr_buffered r
      in if length buf < 4 then Inr (r, None)
         else let len = unat (u32_from_be (take 4 buf))
              in if len = 0 then Inl ProtocolError
                 else if rr_max_len r < len then Inl MessageTooLarge
                 else case checked_add len 4 of
                   None \<Rightarrow> Inl MessageTooLarge
                 | Some framed_len \<Rightarrow>
                     if length buf < framed_len then Inr (r, None)
                     else Inr (r\<lparr>rr_buffered := drop len (drop 4 buf)\<rparr>,
                               Some (take len (drop 4 buf))))"

definition rr_extend :: "bytes \<Rightarrow> record_reader \<Rightarrow> record_reader" where
  "rr_extend chunk r = r\<lparr>rr_buffered := rr_buffered r @ chunk\<rparr>"

definition rr_next :: "nat \<Rightarrow> bytes \<Rightarrow> (bytes \<times> bytes) option result" where
  "rr_next max_len buf =
     (case rr_take \<lparr>rr_buffered = buf, rr_max_len = max_len\<rparr> of
        Inl e \<Rightarrow> Inl e
      | Inr (r, None) \<Rightarrow> Inr None
      | Inr (r, Some x) \<Rightarrow> Inr (Some (rr_buffered r, x)))"

lemma rr_checked [simp]: "checked_add (unat (w :: u32)) 4 = Some (unat w + 4)"
  using unat_u32_le [of w] by (simp add: usize_max_def u32_max_def)

lemma rr_next_eq:
  "rr_next max_len buf =
     (if length buf < 4 then Inr None
      else let len = unat (u32_from_be (take 4 buf))
           in if len = 0 then Inl ProtocolError
              else if max_len < len then Inl MessageTooLarge
              else if length buf < len + 4 then Inr None
              else Inr (Some (drop (len + 4) buf, take len (drop 4 buf))))"
  by (simp add: rr_next_def rr_take_def Let_def add.commute)

interpretation records: stream_parser "rr_next max_len" for max_len
proof
  show "length rest < length buf" if "rr_next max_len buf = Inr (Some (rest, f))" for buf rest f
    using that by (auto simp: rr_next_eq Let_def split: if_splits)
  show "rr_next max_len (buf @ ys) = Inr (Some (rest @ ys, f))"
    if "rr_next max_len buf = Inr (Some (rest, f))" for buf rest f ys
    using that by (auto simp: rr_next_eq Let_def not_less split: if_splits)
  show "rr_next max_len (buf @ ys) = Inl e" if "rr_next max_len buf = Inl e" for buf e ys
    using that by (auto simp: rr_next_eq Let_def not_less split: if_splits)
qed

text \<open>The length-prefixed form a writer gives to one record.\<close>

definition framed :: "bytes \<Rightarrow> bytes" where
  "framed enc = u32_be (word_of_nat (length enc)) @ enc"

definition frameable :: "nat \<Rightarrow> bytes \<Rightarrow> bool" where
  "frameable max_len enc \<longleftrightarrow> enc \<noteq> [] \<and> length enc \<le> max_len \<and> length enc \<le> u32_max"

lemma rr_next_framed:
  assumes "frameable max_len enc"
  shows "rr_next max_len (framed enc @ ys) = Inr (Some (ys, enc))"
  using assms by (simp add: rr_next_eq Let_def framed_def frameable_def unat_u32_of_nat)

lemma rr_next_partial:
  assumes "frameable max_len enc" and "framed enc = buf @ missing" and "missing \<noteq> []"
  shows "rr_next max_len buf = Inr None"
proof (cases "rr_next max_len buf")
  case (Inl e)
  then have "rr_next max_len (buf @ missing @ []) = Inl e" by (rule records.stable_error)
  then show ?thesis using rr_next_framed [OF assms(1), of "[]"] assms(2) by simp
next
  case (Inr r)
  show ?thesis
  proof (cases r)
    case (Some p)
    obtain rest f where "p = (rest, f)" by fastforce
    then have "rr_next max_len (buf @ missing) = Inr (Some (rest @ missing, f))"
      using Inr Some by (intro records.stable) simp
    then show ?thesis using rr_next_framed [OF assms(1), of "[]"] assms(2,3) by simp
  qed (simp add: Inr)
qed

text \<open>
  If the buffered bytes are a prefix of a stream of framed records, the reader takes the
  first record or waits, and the rest is again a prefix of the remaining stream.
\<close>

lemma rr_next_stream:
  assumes "buf @ wire = concat (map framed (enc # encs))" and "frameable max_len enc"
  shows "(rr_next max_len buf = Inr None \<and> length buf < length (framed enc)) \<or>
    (\<exists>rest. rr_next max_len buf = Inr (Some (rest, enc)) \<and>
       rest @ wire = concat (map framed encs))"
proof (cases "length (framed enc) \<le> length buf")
  case True
  let ?n = "length (framed enc)"
  have "take ?n (buf @ wire) = framed enc" by (simp add: assms(1))
  then have "take ?n buf = framed enc" using True by simp
  then obtain rest where b: "buf = framed enc @ rest" by (metis append_take_drop_id)
  then show ?thesis using rr_next_framed [OF assms(2)] assms(1) by auto
next
  case False
  have "take (length buf) (framed enc @ concat (map framed encs)) = buf"
    using assms(1) by (metis append_eq_conv_conj concat.simps(2) list.map(2))
  then have "take (length buf) (framed enc) = buf" using False by simp
  then obtain missing where "framed enc = buf @ missing" "missing \<noteq> []"
    using False by (metis append_take_drop_id append_Nil2 order_refl)
  then show ?thesis using rr_next_partial [OF assms(2)] by simp
qed

end
