(* ===== verification/Frame_Codec.thy ===== *)
theory Frame_Codec
  imports Record_Stream
begin

text \<open>
  Logical framing of \<^verbatim>\<open>rnet-protocol/src/lib.rs\<close>: the 20-byte frame header, the datagram
  decoder and the incremental stream parser \<^verbatim>\<open>FrameCodec\<close>. Shown: encoder and decoder are
  inverse on the whole format, the stream parser is independent of how the transport
  chunks the bytes, delivers exactly the frames that were encoded, and retains less than
  one maximal frame between calls.
\<close>

definition MAGIC :: u32 where "MAGIC = 0x524e4554"
definition VERSION :: u16 where "VERSION = 2"
definition HEADER_LEN :: nat where "HEADER_LEN = 20"
definition SUPPORTED_FLAGS :: u16 where "SUPPORTED_FLAGS = 0"

record frame_header =
  hdr_version :: u16
  hdr_flags :: u16
  hdr_body_len :: u32
  hdr_correlation_id :: u64

record frame =
  frame_hdr :: frame_header
  frame_body :: bytes

definition validate_flags :: "u16 \<Rightarrow> unit result" where
  "validate_flags flags =
     (if flags AND NOT SUPPORTED_FLAGS \<noteq> 0 then Inl ProtocolError else Inr ())"

definition encode_frame :: "u64 \<Rightarrow> u16 \<Rightarrow> bytes \<Rightarrow> nat \<Rightarrow> bytes result" where
  "encode_frame correlation flags body max_body_len =
     (if max_body_len = 0 \<or> u32_max < max_body_len then Inl InvalidArgument
      else case validate_flags flags of
        Inl e \<Rightarrow> Inl e
      | Inr _ \<Rightarrow>
          if max_body_len < length body \<or> u32_max < length body then Inl MessageTooLarge
          else Inr (u32_be MAGIC @ u16_be VERSION @ u16_be flags @
                    u32_be (word_of_nat (length body)) @ u64_be correlation @ body))"

definition parse_header :: "bytes \<Rightarrow> nat \<Rightarrow> frame_header result" where
  "parse_header input max_body_len =
     (if u32_from_be (subslice 0 4 input) \<noteq> MAGIC then Inl ProtocolError
      else if u16_from_be (subslice 4 6 input) \<noteq> VERSION then Inl ProtocolError
      else case validate_flags (u16_from_be (subslice 6 8 input)) of
        Inl e \<Rightarrow> Inl e
      | Inr _ \<Rightarrow>
          let body_len = u32_from_be (subslice 8 12 input)
          in if max_body_len < unat body_len then Inl MessageTooLarge
             else Inr \<lparr>hdr_version = u16_from_be (subslice 4 6 input),
                       hdr_flags = u16_from_be (subslice 6 8 input),
                       hdr_body_len = body_len,
                       hdr_correlation_id = u64_from_be (subslice 12 20 input)\<rparr>)"

definition decode_datagram :: "bytes \<Rightarrow> nat \<Rightarrow> frame result" where
  "decode_datagram input max_body_len =
     (if length input < HEADER_LEN then Inl ProtocolError
      else case parse_header (take HEADER_LEN input) max_body_len of
        Inl e \<Rightarrow> Inl e
      | Inr hdr \<Rightarrow>
          if length input \<noteq> HEADER_LEN + unat (hdr_body_len hdr) then Inl ProtocolError
          else Inr \<lparr>frame_hdr = hdr, frame_body = drop HEADER_LEN input\<rparr>)"

record frame_codec =
  codec_max_body_len :: nat
  codec_buffer :: bytes

definition codec_new :: "nat \<Rightarrow> frame_codec result" where
  "codec_new max_body_len =
     (if max_body_len = 0 \<or> u32_max < max_body_len then Inl InvalidArgument
      else Inr \<lparr>codec_max_body_len = max_body_len, codec_buffer = []\<rparr>)"

text \<open>
  The loop of \<^verbatim>\<open>FrameCodec::push\<close>: it returns the buffer left behind and either the frames
  emitted so far or the error, on which the frames of this call are lost.
\<close>

function push_loop :: "nat \<Rightarrow> bytes \<Rightarrow> frame list \<Rightarrow> bytes \<times> frame list result" where
  "push_loop max_body_len buf frames =
     (if length buf < HEADER_LEN then (buf, Inr frames)
      else case parse_header (take HEADER_LEN buf) max_body_len of
        Inl e \<Rightarrow> (buf, Inl e)
      | Inr hdr \<Rightarrow>
          (case checked_add HEADER_LEN (unat (hdr_body_len hdr)) of
             None \<Rightarrow> (buf, Inl MessageTooLarge)
           | Some frame_len \<Rightarrow>
               if length buf < frame_len then (buf, Inr frames)
               else push_loop max_body_len (drop frame_len buf)
                      (frames @ [\<lparr>frame_hdr = hdr,
                                  frame_body = drop HEADER_LEN (take frame_len buf)\<rparr>])))"
  by pat_completeness auto
termination
  by (relation "measure (\<lambda>(m, buf, fs). length buf)") (auto simp: HEADER_LEN_def)

declare push_loop.simps [simp del]

lemma frame_len_fits [simp]: "HEADER_LEN + unat (w :: u32) \<le> usize_max"
  using unat_u32_le [of w] by (simp add: HEADER_LEN_def usize_max_def u32_max_def)

definition codec_push :: "frame_codec \<Rightarrow> bytes \<Rightarrow> frame_codec \<times> frame list result" where
  "codec_push c input =
     (case push_loop (codec_max_body_len c) (codec_buffer c @ input) [] of
        (buf, r) \<Rightarrow> (c\<lparr>codec_buffer := buf\<rparr>, r))"

text \<open>A stream delivered in chunks; the codec is discarded at the first error.\<close>

fun codec_push_all :: "frame_codec \<Rightarrow> bytes list \<Rightarrow> frame_codec \<times> frame list result" where
  "codec_push_all c [] = (c, Inr [])"
| "codec_push_all c (x # xs) =
     (case codec_push c x of
        (c1, Inl e) \<Rightarrow> (c1, Inl e)
      | (c1, Inr fs) \<Rightarrow>
          (case codec_push_all c1 xs of
             (c2, Inl e) \<Rightarrow> (c2, Inl e)
           | (c2, Inr gs) \<Rightarrow> (c2, Inr (fs @ gs))))"

section \<open>Datagram round trip\<close>

definition frame_valid :: "frame \<Rightarrow> bool" where
  "frame_valid fr \<longleftrightarrow> hdr_version (frame_hdr fr) = VERSION \<and>
     unat (hdr_body_len (frame_hdr fr)) = length (frame_body fr)"

definition frame_enc :: "nat \<Rightarrow> frame \<Rightarrow> bytes result" where
  "frame_enc m fr =
     encode_frame (hdr_correlation_id (frame_hdr fr)) (hdr_flags (frame_hdr fr)) (frame_body fr) m"

definition frame_dec :: "nat \<Rightarrow> bytes \<Rightarrow> frame result" where
  "frame_dec m bs = decode_datagram bs m"

definition body_limit_ok :: "nat \<Rightarrow> bool" where
  "body_limit_ok m \<longleftrightarrow> 0 < m \<and> m \<le> u32_max"

lemma encode_frame_Inr_iff:
  "encode_frame cid flags body m = Inr bs \<longleftrightarrow>
     body_limit_ok m \<and> flags AND NOT SUPPORTED_FLAGS = 0 \<and> length body \<le> m \<and>
     bs = u32_be MAGIC @ u16_be VERSION @ u16_be flags @
          u32_be (word_of_nat (length body)) @ u64_be cid @ body"
  by (auto simp: encode_frame_def validate_flags_def body_limit_ok_def not_less)

text \<open>The header parser on the first 20 bytes of an encoded frame.\<close>

lemma parse_header_encoded:
  assumes "flags AND NOT SUPPORTED_FLAGS = 0" and "length body \<le> m" and "m \<le> u32_max"
  shows "parse_header (u32_be MAGIC @ u16_be VERSION @ u16_be flags @
      u32_be (word_of_nat (length body)) @ u64_be cid) m =
    Inr \<lparr>hdr_version = VERSION, hdr_flags = flags,
         hdr_body_len = word_of_nat (length body), hdr_correlation_id = cid\<rparr>"
  using assms by (simp add: parse_header_def validate_flags_def Let_def unat_u32_of_nat)

lemma parse_header_Inr:
  assumes "length hb = HEADER_LEN" and "parse_header hb m = Inr h"
  shows "hb = u32_be MAGIC @ u16_be VERSION @ u16_be (hdr_flags h) @
      u32_be (hdr_body_len h) @ u64_be (hdr_correlation_id h)"
    and "hdr_version h = VERSION" and "hdr_flags h AND NOT SUPPORTED_FLAGS = 0"
    and "unat (hdr_body_len h) \<le> m"
proof -
  have p: "u32_from_be (subslice 0 4 hb) = MAGIC" "u16_from_be (subslice 4 6 hb) = VERSION"
    and h: "h = \<lparr>hdr_version = u16_from_be (subslice 4 6 hb),
       hdr_flags = u16_from_be (subslice 6 8 hb), hdr_body_len = u32_from_be (subslice 8 12 hb),
       hdr_correlation_id = u64_from_be (subslice 12 20 hb)\<rparr>"
    and v: "u16_from_be (subslice 6 8 hb) AND NOT SUPPORTED_FLAGS = 0"
      "unat (u32_from_be (subslice 8 12 hb)) \<le> m"
    using assms(2)
    by (auto simp: parse_header_def validate_flags_def Let_def split: if_splits)
  have l: "length hb = 20" using assms(1) by (simp add: HEADER_LEN_def)
  have "hb = subslice 0 4 hb @ subslice 4 6 hb @ subslice 6 8 hb @ subslice 8 12 hb @
      subslice 12 20 hb"
    using l by (simp add: subslice_join take_subslice_join)
  moreover have "u32_be MAGIC = subslice 0 4 hb"
    unfolding p(1) [symmetric] using l by simp
  moreover have "u16_be VERSION = subslice 4 6 hb"
    unfolding p(2) [symmetric] using l by simp
  ultimately show "hb = u32_be MAGIC @ u16_be VERSION @ u16_be (hdr_flags h) @
      u32_be (hdr_body_len h) @ u64_be (hdr_correlation_id h)"
    using l by (simp add: h)
  show "hdr_version h = VERSION" and "hdr_flags h AND NOT SUPPORTED_FLAGS = 0"
    and "unat (hdr_body_len h) \<le> m"
    using p(2) v by (simp_all add: h)
qed


lemma decode_datagram_Inr_iff:
  "decode_datagram bs m = Inr fr \<longleftrightarrow>
     HEADER_LEN \<le> length bs \<and> parse_header (take HEADER_LEN bs) m = Inr (frame_hdr fr) \<and>
     length bs = HEADER_LEN + unat (hdr_body_len (frame_hdr fr)) \<and>
     frame_body fr = drop HEADER_LEN bs"
  by (cases fr) (auto simp: decode_datagram_def split: sum.splits)

lemma decode_encode_frame:
  assumes "frame_valid fr" and "frame_enc m fr = Inr bs"
  shows "frame_dec m bs = Inr fr"
proof -
  let ?h = "frame_hdr fr"
  have "word_of_nat (unat (hdr_body_len ?h)) = hdr_body_len ?h" by simp
  then have w: "word_of_nat (length (frame_body fr)) = hdr_body_len ?h"
    using assms(1) by (simp only: frame_valid_def)
  have "parse_header (take HEADER_LEN bs) m = Inr ?h" and "HEADER_LEN \<le> length bs"
    and "length bs = HEADER_LEN + unat (hdr_body_len ?h)" and "frame_body fr = drop HEADER_LEN bs"
    using assms parse_header_encoded [of "hdr_flags ?h" "frame_body fr" m "hdr_correlation_id ?h"]
    by (auto simp: frame_enc_def encode_frame_Inr_iff frame_valid_def body_limit_ok_def
        HEADER_LEN_def w)
  then show ?thesis by (simp add: frame_dec_def decode_datagram_Inr_iff)
qed

lemma encode_decode_frame:
  assumes "body_limit_ok m" and "frame_dec m bs = Inr fr"
  shows "frame_enc m fr = Inr bs \<and> frame_valid fr"
proof -
  let ?h = "frame_hdr fr"
  have d: "HEADER_LEN \<le> length bs" "parse_header (take HEADER_LEN bs) m = Inr ?h"
    "length bs = HEADER_LEN + unat (hdr_body_len ?h)" "frame_body fr = drop HEADER_LEN bs"
    using assms(2) by (simp_all add: frame_dec_def decode_datagram_Inr_iff)
  have "length (take HEADER_LEN bs) = HEADER_LEN" using d(1) by simp
  note ph = parse_header_Inr [OF this d(2)]
  have "bs = take HEADER_LEN bs @ frame_body fr" using d(4) by simp
  moreover have "word_of_nat (length (frame_body fr)) = hdr_body_len ?h"
    using d(3,4) by simp
  ultimately show ?thesis
    using assms(1) ph d(3,4)
    by (auto simp: frame_enc_def encode_frame_Inr_iff frame_valid_def)
qed

interpretation frame: wire_codec frame_enc frame_dec body_limit_ok frame_valid
  by unfold_locales (rule decode_encode_frame encode_decode_frame; assumption)+

section \<open>The stream parser\<close>

text \<open>
  The four exits of one iteration. The overflow check of the frame length never fires on a
  64-bit target, because the body length is a \<^verbatim>\<open>u32\<close>.
\<close>

definition next_frame :: "nat \<Rightarrow> bytes \<Rightarrow> (bytes \<times> frame) option result" where
  "next_frame m buf =
     (if length buf < HEADER_LEN then Inr None
      else case parse_header (take HEADER_LEN buf) m of
        Inl e \<Rightarrow> Inl e
      | Inr hdr \<Rightarrow>
          (let n = HEADER_LEN + unat (hdr_body_len hdr)
           in if length buf < n then Inr None
              else Inr (Some (drop n buf,
                \<lparr>frame_hdr = hdr, frame_body = drop HEADER_LEN (take n buf)\<rparr>))))"

lemma push_loop_next:
  "push_loop m buf fs =
     (case next_frame m buf of
        Inl e \<Rightarrow> (buf, Inl e)
      | Inr None \<Rightarrow> (buf, Inr fs)
      | Inr (Some (rest, fr)) \<Rightarrow> push_loop m rest (fs @ [fr]))"
  by (subst push_loop.simps)
    (auto simp: next_frame_def Let_def checked_add_def split: sum.splits)

lemma next_frame_shorter: "next_frame m buf = Inr (Some (rest, fr)) \<Longrightarrow> length rest < length buf"
  by (auto simp: next_frame_def Let_def HEADER_LEN_def split: if_splits sum.splits)

lemma next_frame_induct [case_names step]:
  assumes "\<And>buf fs. (\<And>rest fr. next_frame m buf = Inr (Some (rest, fr)) \<Longrightarrow> P rest (fs @ [fr])) \<Longrightarrow>
    P buf fs"
  shows "P buf fs"
proof (induction buf arbitrary: fs rule: length_induct)
  case (1 buf)
  then show ?case using assms next_frame_shorter by blast
qed

lemma next_frame_append:
  "next_frame m buf = Inl e \<Longrightarrow> next_frame m (buf @ ys) = Inl e"
  "next_frame m buf = Inr (Some (rest, fr)) \<Longrightarrow>
     next_frame m (buf @ ys) = Inr (Some (rest @ ys, fr))"
  by (auto simp: next_frame_def Let_def not_less split: if_splits sum.splits)

interpretation frames: stream_parser "next_frame m" for m
  by unfold_locales (rule next_frame_shorter next_frame_append; assumption)+

text \<open>Accumulated frames are a prefix of the result, so the loop may start from none.\<close>

lemma push_loop_acc:
  "push_loop m buf (fs @ gs) =
     (case push_loop m buf gs of (b, Inl e) \<Rightarrow> (b, Inl e) | (b, Inr hs) \<Rightarrow> (b, Inr (fs @ hs)))"
proof (induction buf gs rule: next_frame_induct [of m])
  case (step buf gs)
  then show ?case
    by (subst (1 2) push_loop_next) (auto split: sum.splits option.splits)
qed

lemma push_loop_acc_Nil:
  "push_loop m buf fs =
     (case push_loop m buf [] of (b, Inl e) \<Rightarrow> (b, Inl e) | (b, Inr hs) \<Rightarrow> (b, Inr (fs @ hs)))"
  using push_loop_acc [of m buf fs "[]"] by simp

text \<open>
  Bytes that arrive later do not change what was already decided: the loop over a longer
  buffer is the loop over the shorter one, continued on what it left.
\<close>

lemma push_loop_append:
  "push_loop m (buf @ ys) fs =
     (case push_loop m buf fs of
        (b, Inl e) \<Rightarrow> (b @ ys, Inl e)
      | (b, Inr gs) \<Rightarrow> push_loop m (b @ ys) gs)"
proof (induction buf fs rule: next_frame_induct [of m])
  case (step buf fs)
  show ?case
  proof (cases "next_frame m buf = Inr None")
    case True
    then show ?thesis by (simp add: push_loop_next [of m buf])
  next
    case False
    then consider e where "next_frame m buf = Inl e"
      | rest fr where "next_frame m buf = Inr (Some (rest, fr))"
      by (cases "next_frame m buf") auto
    then show ?thesis
    proof cases
      case 1
      then show ?thesis using next_frame_append(1)
        by (simp add: push_loop_next [of m buf] push_loop_next [of m "buf @ ys"])
    next
      case 2
      then show ?thesis using next_frame_append(2) step
        by (simp add: push_loop_next [of m buf] push_loop_next [of m "buf @ ys"])
    qed
  qed
qed

text \<open>The loop is the parser run to exhaustion.\<close>

lemma drained_push_loop:
  "drained (next_frame m) buf fs b \<Longrightarrow> push_loop m buf gs = (b, Inr (gs @ fs))"
  by (induction arbitrary: gs rule: drained.induct) (simp_all add: push_loop_next)

lemma codec_push_append:
  "codec_push c (xs @ ys) =
     (case codec_push c xs of
        (c1, Inl e) \<Rightarrow> (c1\<lparr>codec_buffer := codec_buffer c1 @ ys\<rparr>, Inl e)
      | (c1, Inr fs) \<Rightarrow>
          (case codec_push c1 ys of
             (c2, Inl e) \<Rightarrow> (c2, Inl e)
           | (c2, Inr gs) \<Rightarrow> (c2, Inr (fs @ gs))))"
proof -
  let ?m = "codec_max_body_len c"
  obtain b r where p: "push_loop ?m (codec_buffer c @ xs) [] = (b, r)" by fastforce
  have "push_loop ?m (codec_buffer c @ xs @ ys) [] =
      (case r of Inl e \<Rightarrow> (b @ ys, Inl e) | Inr gs \<Rightarrow> push_loop ?m (b @ ys) gs)"
    using push_loop_append [of ?m "codec_buffer c @ xs" ys "[]"] p by (auto split: sum.splits)
  then show ?thesis
    using p push_loop_acc_Nil [of ?m "b @ ys" "projr r"]
    by (cases r; cases "push_loop ?m (b @ ys) []") (auto simp: codec_push_def split: sum.splits)
qed

text \<open>A codec is settled when its buffer holds no complete frame and no bad header.\<close>

definition settled :: "frame_codec \<Rightarrow> bool" where
  "settled c \<longleftrightarrow> next_frame (codec_max_body_len c) (codec_buffer c) = Inr None"

lemma codec_push_settled: "settled c \<Longrightarrow> codec_push c [] = (c, Inr [])"
  by (simp add: settled_def codec_push_def push_loop_next)

lemma push_loop_settles:
  "push_loop m buf fs = (b, Inr gs) \<Longrightarrow> next_frame m b = Inr None"
proof (induction buf fs rule: next_frame_induct [of m])
  case (step buf fs)
  then show ?case
    by (subst (asm) (2) push_loop_next) (auto split: sum.splits option.splits)
qed

lemma settled_new: "codec_new m = Inr c \<Longrightarrow> settled c"
  by (auto simp: codec_new_def settled_def next_frame_def HEADER_LEN_def split: if_splits)

lemma settled_push: "codec_push c xs = (c', Inr fs) \<Longrightarrow> settled c'"
  by (auto simp: settled_def codec_push_def dest: push_loop_settles split: prod.splits)

lemma codec_push_all_concat_Inr:
  assumes "settled c" and "codec_push_all c chunks = (c', Inr fs)"
  shows "codec_push c (concat chunks) = (c', Inr fs)"
  using assms
proof (induction chunks arbitrary: c fs)
  case Nil
  then show ?case by (simp add: codec_push_settled)
next
  case (Cons x chunks)
  then obtain c1 gs hs where "codec_push c x = (c1, Inr gs)"
    "codec_push_all c1 chunks = (c', Inr hs)" "fs = gs @ hs"
    by (auto split: prod.splits sum.splits)
  moreover from this Cons.IH [of c1 hs] settled_push
  have "codec_push c1 (concat chunks) = (c', Inr hs)" by blast
  ultimately show ?case by (simp add: codec_push_append)
qed

lemma codec_push_all_concat_Inl:
  assumes "settled c" and "codec_push_all c chunks = (c', Inl e)"
  shows "snd (codec_push c (concat chunks)) = Inl e"
  using assms
proof (induction chunks arbitrary: c)
  case Nil
  then show ?case by simp
next
  case (Cons x chunks)
  show ?case
  proof (cases "codec_push c x")
    case (Pair c1 r)
    show ?thesis
    proof (cases r)
      case (Inl e')
      then show ?thesis using Cons.prems Pair by (simp add: codec_push_append)
    next
      case (Inr gs)
      then have "codec_push_all c1 chunks = (c', Inl e)"
        using Cons.prems Pair by (auto split: prod.splits sum.splits)
      moreover have "settled c1" using Pair Inr settled_push by blast
      ultimately have "snd (codec_push c1 (concat chunks)) = Inl e" using Cons.IH by blast
      then show ?thesis using Pair Inr by (auto simp: codec_push_append split: prod.splits)
    qed
  qed
qed

text \<open>One encoded frame at the front of the buffer is emitted and removed.\<close>

lemma push_loop_frame:
  assumes "frame_valid fr" and "frame_enc m fr = Inr w"
  shows "push_loop m (w @ rest) fs = push_loop m rest (fs @ [fr])"
proof -
  have "next_frame m (w @ rest) = Inr (Some (rest, fr))"
    using decode_encode_frame [OF assms]
    by (simp add: frame_dec_def decode_datagram_Inr_iff next_frame_def Let_def)
  then show ?thesis by (simp add: push_loop_next)
qed

lemma push_loop_frames:
  assumes "list_all2 (\<lambda>fr w. frame_valid fr \<and> frame_enc m fr = Inr w) frs ws"
  shows "push_loop m (concat ws @ rest) fs = push_loop m rest (fs @ frs)"
  using assms by (induction arbitrary: fs rule: list_all2_induct) (auto simp: push_loop_frame)

text \<open>A strict prefix of one encoded frame stays in the buffer.\<close>

lemma push_loop_partial:
  assumes "frame_valid fr" and "frame_enc m fr = Inr (rest @ more_bytes)" and "more_bytes \<noteq> []"
  shows "push_loop m rest fs = (rest, Inr fs)"
proof -
  have "next_frame m rest = Inr None"
    using decode_encode_frame [OF assms(1,2)] assms(3)
    by (cases more_bytes) (auto simp: frame_dec_def decode_datagram_Inr_iff next_frame_def Let_def)
  then show ?thesis by (simp add: push_loop_next)
qed

lemma push_loop_body_bound:
  assumes "push_loop m buf fs = (b, Inr gs)"
  shows "length b < HEADER_LEN + m \<and> (\<forall>fr \<in> set gs - set fs. length (frame_body fr) \<le> m)"
  using assms
proof (induction buf fs rule: next_frame_induct [of m])
  case (step buf fs)
  show ?case
  proof (cases "next_frame m buf")
    case (Inl e)
    then show ?thesis using step.prems by (simp add: push_loop_next)
  next
    case (Inr nf)
    show ?thesis
    proof (cases nf)
      case None
      then show ?thesis using step.prems Inr parse_header_Inr(4) [of "take HEADER_LEN buf" m]
        by (fastforce simp: push_loop_next next_frame_def Let_def HEADER_LEN_def
            split: if_splits sum.splits)
    next
      case (Some p)
      obtain rest fr where p: "p = (rest, fr)" by fastforce
      have "length (frame_body fr) \<le> m"
        using Inr Some p parse_header_Inr(4) [of "take HEADER_LEN buf" m]
        by (auto simp: next_frame_def Let_def split: if_splits sum.splits)
      then show ?thesis using step Inr Some p push_loop_next [of m buf fs] by auto
    qed
  qed
qed

lemmas frame_eval = encode_frame_def validate_flags_def SUPPORTED_FLAGS_def MAGIC_def
  VERSION_def HEADER_LEN_def u32_max_def be_eval

section \<open>Properties\<close>

text \<open>
  C3. A frame is decoded from a datagram exactly when that datagram is the encoding of the
  frame: encoding and decoding are inverse, the wire form is canonical, and no other byte
  string is accepted.
\<close>

theorem datagram_round_trip:
  assumes "body_limit_ok m"
  shows "decode_datagram bs m = Inr fr \<longleftrightarrow>
    frame_valid fr \<and>
    encode_frame (hdr_correlation_id (frame_hdr fr)) (hdr_flags (frame_hdr fr)) (frame_body fr) m
      = Inr bs"
  using frame.dec_iff_enc [OF assms, of bs fr] by (simp add: frame_enc_def frame_dec_def)

theorem datagram_round_trip_witness:
  "decode_datagram [0x52,0x4e,0x45,0x54, 0,2, 0,0, 0,0,0,2, 0,0,0,0,0,0,0,7, 9,8] 16 =
     Inr \<lparr>frame_hdr = \<lparr>hdr_version = 2, hdr_flags = 0, hdr_body_len = 2,
           hdr_correlation_id = 7\<rparr>, frame_body = [9, 8]\<rparr>"
  by (subst datagram_round_trip)
    (simp_all add: body_limit_ok_def u32_max_def frame_valid_def frame_eval)

text \<open>
  The stream parser does not depend on how the transport cuts the byte stream: for any
  two ways of chunking the same bytes, a fresh codec reports the same frames in the same
  order, or the same error.
\<close>

lemma stream_chunking_irrelevant:
  assumes "codec_new m = Inr c" and "concat chunks = concat chunks'"
  shows "snd (codec_push_all c chunks) = snd (codec_push_all c chunks')"
proof -
  have "snd (codec_push_all c cs) = snd (codec_push c (concat cs))" for cs
    using codec_push_all_concat_Inr [OF settled_new [OF assms(1)], of cs]
      codec_push_all_concat_Inl [OF settled_new [OF assms(1)], of cs]
    by (cases "codec_push_all c cs"; cases "snd (codec_push_all c cs)") auto
  then show ?thesis using assms(2) by simp
qed

text \<open>
  A codec fed the concatenation of encoded frames, cut anywhere, followed by an
  incomplete frame, returns exactly those frames in order and keeps exactly the incomplete
  tail.
\<close>

lemma stream_delivers_frames:
  assumes "codec_new m = Inr c"
    and "list_all2 (\<lambda>fr w. frame_valid fr \<and> frame_enc m fr = Inr w) frs ws"
    and "frame_valid last_fr" and "frame_enc m last_fr = Inr (rest @ missing)" and "missing \<noteq> []"
    and "concat chunks = concat ws @ rest"
  shows "codec_push_all c chunks = (c\<lparr>codec_buffer := rest\<rparr>, Inr frs)"
proof -
  have c: "codec_max_body_len c = m" "codec_buffer c = []"
    using assms(1) by (auto simp: codec_new_def split: if_splits)
  have "push_loop m (concat ws @ rest) [] = (rest, Inr frs)"
    by (simp add: push_loop_frames [OF assms(2)] push_loop_partial [OF assms(3-5)])
  then have p: "codec_push c (concat chunks) = (c\<lparr>codec_buffer := rest\<rparr>, Inr frs)"
    by (simp add: codec_push_def c assms(6))
  show ?thesis
    using codec_push_all_concat_Inr [OF settled_new [OF assms(1)], of chunks]
      codec_push_all_concat_Inl [OF settled_new [OF assms(1)], of chunks] p
    by (cases "codec_push_all c chunks"; cases "snd (codec_push_all c chunks)") auto
qed

text \<open>
  Whatever the peer sends, a successful call leaves less than one maximal frame in the
  codec and emits no body above the configured limit.
\<close>

lemma stream_buffer_bounded:
  assumes "codec_push c input = (c', Inr frs)"
  shows "length (codec_buffer c') < HEADER_LEN + codec_max_body_len c \<and>
    codec_max_body_len c' = codec_max_body_len c \<and>
    (\<forall>fr \<in> set frs. length (frame_body fr) \<le> codec_max_body_len c)"
  using assms push_loop_body_bound [of "codec_max_body_len c" "codec_buffer c @ input" "[]"]
  by (auto simp: codec_push_def split: prod.splits)

end
