(* ===== verification/Security_Records.thy ===== *)
theory Security_Records
  imports Wire_Codec
begin

text \<open>
  The security records of \<^verbatim>\<open>rnet-protocol/src/control.rs\<close>: the outer record, the protected
  message inside it and the transition control inside that. Each format is shown to be a
  \<open>wire_codec\<close>: canonical, injective and rejecting every byte string its encoder does not emit.
\<close>

definition REC_MAGIC :: u32 where "REC_MAGIC = 0x524e5332"
definition REC_VERSION :: u16 where "REC_VERSION = 1"
definition REC_HEADER_LEN :: nat where "REC_HEADER_LEN = 20"
definition CONTROL_LEN :: nat where "CONTROL_LEN = 10"
definition PROTECTED_HEADER_LEN :: nat where "PROTECTED_HEADER_LEN = 5"

section \<open>Tags\<close>

datatype security_mode = Plaintext | Encrypted

fun mode_tag :: "security_mode \<Rightarrow> u8" where
  "mode_tag Plaintext = 1"
| "mode_tag Encrypted = 2"

definition mode_try_from :: "u8 \<Rightarrow> security_mode result" where
  "mode_try_from v =
     (if v = 1 then Inr Plaintext else if v = 2 then Inr Encrypted else Inl ProtocolError)"

datatype record_kind =
  ClientHello | ServerHello | Handshake | Protected | PlainData | CookieChallenge

fun record_kind_tag :: "record_kind \<Rightarrow> u8" where
  "record_kind_tag ClientHello = 1"
| "record_kind_tag ServerHello = 2"
| "record_kind_tag Handshake = 3"
| "record_kind_tag Protected = 4"
| "record_kind_tag PlainData = 5"
| "record_kind_tag CookieChallenge = 6"

definition record_kind_try_from :: "u8 \<Rightarrow> record_kind result" where
  "record_kind_try_from v =
     (if v = 1 then Inr ClientHello else if v = 2 then Inr ServerHello
      else if v = 3 then Inr Handshake else if v = 4 then Inr Protected
      else if v = 5 then Inr PlainData else if v = 6 then Inr CookieChallenge
      else Inl ProtocolError)"

datatype protected_kind = AuthDecision | Data | ControlMsg | AuthAck | GameControl

fun protected_kind_tag :: "protected_kind \<Rightarrow> u8" where
  "protected_kind_tag AuthDecision = 1"
| "protected_kind_tag Data = 2"
| "protected_kind_tag ControlMsg = 3"
| "protected_kind_tag AuthAck = 4"
| "protected_kind_tag GameControl = 5"

definition protected_kind_try_from :: "u8 \<Rightarrow> protected_kind result" where
  "protected_kind_try_from v =
     (if v = 1 then Inr AuthDecision else if v = 2 then Inr Data
      else if v = 3 then Inr ControlMsg else if v = 4 then Inr AuthAck
      else if v = 5 then Inr GameControl else Inl ProtocolError)"

datatype control_kind =
  SwitchPropose | SwitchReady | SwitchCommit | SwitchAck |
  RekeyPropose | RekeyReady | RekeyCommit | RekeyAck

fun control_kind_tag :: "control_kind \<Rightarrow> u8" where
  "control_kind_tag SwitchPropose = 1"
| "control_kind_tag SwitchReady = 2"
| "control_kind_tag SwitchCommit = 3"
| "control_kind_tag SwitchAck = 4"
| "control_kind_tag RekeyPropose = 5"
| "control_kind_tag RekeyReady = 6"
| "control_kind_tag RekeyCommit = 7"
| "control_kind_tag RekeyAck = 8"

definition control_kind_try_from :: "u8 \<Rightarrow> control_kind result" where
  "control_kind_try_from v =
     (if v = 1 then Inr SwitchPropose else if v = 2 then Inr SwitchReady
      else if v = 3 then Inr SwitchCommit else if v = 4 then Inr SwitchAck
      else if v = 5 then Inr RekeyPropose else if v = 6 then Inr RekeyReady
      else if v = 7 then Inr RekeyCommit else if v = 8 then Inr RekeyAck
      else Inl ProtocolError)"

section \<open>Messages and codecs\<close>

record sec_record =
  rec_kind :: record_kind
  rec_epoch :: u64
  rec_payload :: bytes

record protected_message =
  pm_kind :: protected_kind
  pm_payload :: bytes

record control =
  ctl_kind :: control_kind
  ctl_epoch :: u64
  ctl_mode :: "security_mode option"

definition control_switch :: "control_kind \<Rightarrow> u64 \<Rightarrow> security_mode \<Rightarrow> control" where
  "control_switch kind epoch mode = \<lparr>ctl_kind = kind, ctl_epoch = epoch, ctl_mode = Some mode\<rparr>"

definition control_barrier :: "control_kind \<Rightarrow> u64 \<Rightarrow> control" where
  "control_barrier kind epoch = \<lparr>ctl_kind = kind, ctl_epoch = epoch, ctl_mode = None\<rparr>"

definition validate_payload_len :: "nat \<Rightarrow> nat \<Rightarrow> unit result" where
  "validate_payload_len payload_len max_payload_len =
     (if max_payload_len < payload_len \<or> u32_max < payload_len then Inl MessageTooLarge
      else Inr ())"

definition encode_protected :: "protected_message \<Rightarrow> nat \<Rightarrow> bytes result" where
  "encode_protected msg max_payload_len =
     (case validate_payload_len (length (pm_payload msg)) max_payload_len of
        Inl e \<Rightarrow> Inl e
      | Inr _ \<Rightarrow> Inr ([protected_kind_tag (pm_kind msg)] @
          u32_be (word_of_nat (length (pm_payload msg))) @ pm_payload msg))"

definition decode_protected :: "bytes \<Rightarrow> nat \<Rightarrow> protected_message result" where
  "decode_protected input max_payload_len =
     (if length input < PROTECTED_HEADER_LEN then Inl ProtocolError
      else case protected_kind_try_from (input ! 0) of
        Inl e \<Rightarrow> Inl e
      | Inr kind \<Rightarrow>
          (let payload_len = unat (u32_from_be (subslice 1 5 input))
           in case validate_payload_len payload_len max_payload_len of
                Inl e \<Rightarrow> Inl e
              | Inr _ \<Rightarrow>
                  (case checked_add PROTECTED_HEADER_LEN payload_len of
                     None \<Rightarrow> Inl MessageTooLarge
                   | Some expected \<Rightarrow>
                       if length input \<noteq> expected then Inl ProtocolError
                       else Inr \<lparr>pm_kind = kind,
                                 pm_payload = drop PROTECTED_HEADER_LEN input\<rparr>)))"

definition encode_record :: "sec_record \<Rightarrow> nat \<Rightarrow> bytes result" where
  "encode_record r max_payload_len =
     (case validate_payload_len (length (rec_payload r)) max_payload_len of
        Inl e \<Rightarrow> Inl e
      | Inr _ \<Rightarrow> Inr (u32_be REC_MAGIC @ u16_be REC_VERSION @ [record_kind_tag (rec_kind r)] @ [0] @
          u64_be (rec_epoch r) @ u32_be (word_of_nat (length (rec_payload r))) @ rec_payload r))"

definition decode_record :: "bytes \<Rightarrow> nat \<Rightarrow> sec_record result" where
  "decode_record input max_payload_len =
     (if length input < REC_HEADER_LEN then Inl ProtocolError
      else if u32_from_be (subslice 0 4 input) \<noteq> REC_MAGIC \<or>
              u16_from_be (subslice 4 6 input) \<noteq> REC_VERSION \<or> input ! 7 \<noteq> 0
      then Inl ProtocolError
      else case record_kind_try_from (input ! 6) of
        Inl e \<Rightarrow> Inl e
      | Inr kind \<Rightarrow>
          (let payload_len = unat (u32_from_be (subslice 16 20 input))
           in case validate_payload_len payload_len max_payload_len of
                Inl e \<Rightarrow> Inl e
              | Inr _ \<Rightarrow>
                  (case checked_add REC_HEADER_LEN payload_len of
                     None \<Rightarrow> Inl MessageTooLarge
                   | Some expected \<Rightarrow>
                       if length input \<noteq> expected then Inl ProtocolError
                       else Inr \<lparr>rec_kind = kind,
                                 rec_epoch = u64_from_be (subslice 8 16 input),
                                 rec_payload = drop REC_HEADER_LEN input\<rparr>)))"

definition encode_control :: "control \<Rightarrow> bytes" where
  "encode_control c =
     [control_kind_tag (ctl_kind c)] @ [case ctl_mode c of None \<Rightarrow> 0 | Some m \<Rightarrow> mode_tag m] @
     u64_be (ctl_epoch c)"

definition decode_control :: "bytes \<Rightarrow> control result" where
  "decode_control input =
     (if length input \<noteq> CONTROL_LEN then Inl ProtocolError
      else case control_kind_try_from (input ! 0) of
        Inl e \<Rightarrow> Inl e
      | Inr kind \<Rightarrow>
          (let epoch = u64_from_be (drop 2 input)
           in if epoch = 0 then Inl ProtocolError
              else if kind = SwitchPropose then
                (case mode_try_from (input ! 1) of
                   Inl e \<Rightarrow> Inl e
                 | Inr mode \<Rightarrow> Inr \<lparr>ctl_kind = kind, ctl_epoch = epoch, ctl_mode = Some mode\<rparr>)
              else if input ! 1 = 0
              then Inr \<lparr>ctl_kind = kind, ctl_epoch = epoch, ctl_mode = None\<rparr>
              else Inl ProtocolError))"

section \<open>Tags are bijective with their decoders\<close>

lemma mode_try_from_iff [simp]: "mode_try_from v = Inr m \<longleftrightarrow> v = mode_tag m"
  by (cases m) (auto simp: mode_try_from_def)

lemma record_kind_try_from_iff [simp]: "record_kind_try_from v = Inr k \<longleftrightarrow> v = record_kind_tag k"
  by (cases k) (auto simp: record_kind_try_from_def)

lemma protected_kind_try_from_iff [simp]:
  "protected_kind_try_from v = Inr k \<longleftrightarrow> v = protected_kind_tag k"
  by (cases k) (auto simp: protected_kind_try_from_def)

lemma control_kind_try_from_iff [simp]:
  "control_kind_try_from v = Inr k \<longleftrightarrow> v = control_kind_tag k"
  by (cases k) (auto simp: control_kind_try_from_def)

lemma mode_tag_try_from [simp]: "mode_try_from (mode_tag k) = Inr k"
  by simp

lemma mode_tag_eq_iff [simp]: "mode_tag a = mode_tag b \<longleftrightarrow> a = b"
  by (cases a; cases b) simp_all

lemma record_kind_tag_try_from [simp]: "record_kind_try_from (record_kind_tag k) = Inr k"
  by simp

lemma record_kind_tag_eq_iff [simp]: "record_kind_tag a = record_kind_tag b \<longleftrightarrow> a = b"
  by (cases a; cases b) simp_all

lemma protected_kind_tag_try_from [simp]: "protected_kind_try_from (protected_kind_tag k) = Inr k"
  by simp

lemma protected_kind_tag_eq_iff [simp]: "protected_kind_tag a = protected_kind_tag b \<longleftrightarrow> a = b"
  by (cases a; cases b) simp_all

lemma control_kind_tag_try_from [simp]: "control_kind_try_from (control_kind_tag k) = Inr k"
  by simp

lemma control_kind_tag_eq_iff [simp]: "control_kind_tag a = control_kind_tag b \<longleftrightarrow> a = b"
  by (cases a; cases b) simp_all

lemma control_kind_try_from_1 [simp]: "control_kind_try_from 1 = Inr SwitchPropose"
  by (simp add: control_kind_try_from_def)

lemma mode_tag_nonzero [simp]: "mode_tag m \<noteq> 0"
  by (cases m) auto

lemma validate_payload_len_Inr_iff [simp]:
  "validate_payload_len n m = Inr u \<longleftrightarrow> n \<le> m \<and> n \<le> u32_max"
  by (auto simp: validate_payload_len_def)

lemma validate_payload_len_Inl_iff [simp]:
  "validate_payload_len n m = Inl e \<longleftrightarrow> e = MessageTooLarge \<and> (m < n \<or> u32_max < n)"
  by (auto simp: validate_payload_len_def)

section \<open>Exact characterisation of the decoders\<close>

lemma encode_protected_Inr_iff:
  "encode_protected p m = Inr bs \<longleftrightarrow>
     length (pm_payload p) \<le> m \<and> length (pm_payload p) \<le> u32_max \<and>
     bs = [protected_kind_tag (pm_kind p)] @ u32_be (word_of_nat (length (pm_payload p))) @
          pm_payload p"
  by (auto simp: encode_protected_def validate_payload_len_def)

lemma decode_protected_Inr_iff:
  "decode_protected bs m = Inr p \<longleftrightarrow>
     length bs = PROTECTED_HEADER_LEN + unat (u32_from_be (subslice 1 5 bs)) \<and>
     unat (u32_from_be (subslice 1 5 bs)) \<le> m \<and>
     bs ! 0 = protected_kind_tag (pm_kind p) \<and> pm_payload p = drop PROTECTED_HEADER_LEN bs"
  by (cases p) (auto simp: decode_protected_def Let_def PROTECTED_HEADER_LEN_def not_le
      split: sum.splits)

lemma encode_record_Inr_iff:
  "encode_record r m = Inr bs \<longleftrightarrow>
     length (rec_payload r) \<le> m \<and> length (rec_payload r) \<le> u32_max \<and>
     bs = u32_be REC_MAGIC @ u16_be REC_VERSION @ [record_kind_tag (rec_kind r)] @ [0] @
          u64_be (rec_epoch r) @ u32_be (word_of_nat (length (rec_payload r))) @ rec_payload r"
  by (auto simp: encode_record_def validate_payload_len_def)

lemma decode_record_Inr_iff:
  "decode_record bs m = Inr r \<longleftrightarrow>
     length bs = REC_HEADER_LEN + unat (u32_from_be (subslice 16 20 bs)) \<and>
     unat (u32_from_be (subslice 16 20 bs)) \<le> m \<and>
     u32_from_be (subslice 0 4 bs) = REC_MAGIC \<and> u16_from_be (subslice 4 6 bs) = REC_VERSION \<and>
     bs ! 6 = record_kind_tag (rec_kind r) \<and> bs ! 7 = 0 \<and>
     rec_epoch r = u64_from_be (subslice 8 16 bs) \<and> rec_payload r = drop REC_HEADER_LEN bs"
  by (cases r) (auto simp: decode_record_def Let_def REC_HEADER_LEN_def not_le
      split: sum.splits)

definition control_valid :: "control \<Rightarrow> bool" where
  "control_valid c \<longleftrightarrow> ctl_epoch c \<noteq> 0 \<and> (ctl_mode c \<noteq> None \<longleftrightarrow> ctl_kind c = SwitchPropose)"

lemma decode_control_Inr_iff:
  "decode_control bs = Inr c \<longleftrightarrow>
     length bs = CONTROL_LEN \<and> control_valid c \<and> bs ! 0 = control_kind_tag (ctl_kind c) \<and>
     bs ! 1 = (case ctl_mode c of None \<Rightarrow> 0 | Some m \<Rightarrow> mode_tag m) \<and>
     ctl_epoch c = u64_from_be (drop 2 bs)"
  by (cases c) (auto simp: decode_control_def control_valid_def Let_def
      split: sum.splits option.splits)

lemma decode_encode_protected:
  "encode_protected p m = Inr bs \<Longrightarrow> decode_protected bs m = Inr p"
  by (auto simp: encode_protected_Inr_iff decode_protected_Inr_iff PROTECTED_HEADER_LEN_def
      unat_u32_of_nat)

lemma encode_decode_protected:
  assumes "decode_protected bs m = Inr p"
  shows "encode_protected p m = Inr bs"
proof -
  have d: "length bs = 5 + unat (u32_from_be (subslice 1 5 bs))"
    "unat (u32_from_be (subslice 1 5 bs)) \<le> m"
    "bs ! 0 = protected_kind_tag (pm_kind p)" "pm_payload p = drop 5 bs"
    using assms by (simp_all add: decode_protected_Inr_iff PROTECTED_HEADER_LEN_def)
  have parts: "[protected_kind_tag (pm_kind p)] = subslice 0 1 bs"
    unfolding d(3) [symmetric] by (rule nth_as_subslice) (simp_all add: d(1))
  have parts2: "u32_be (word_of_nat (length (pm_payload p))) = subslice 1 5 bs"
    using d(1,4) by simp
  have "length (pm_payload p) \<le> m \<and> length (pm_payload p) \<le> u32_max" using d by simp
  moreover have "[protected_kind_tag (pm_kind p)] @ u32_be (word_of_nat (length (pm_payload p))) @
      pm_payload p = bs"
    unfolding parts parts2 unfolding d(4) by (simp add: subslice_to_end)
  ultimately show ?thesis unfolding encode_protected_Inr_iff by blast
qed

lemma decode_encode_record: "encode_record r m = Inr bs \<Longrightarrow> decode_record bs m = Inr r"
  by (auto simp: encode_record_Inr_iff decode_record_Inr_iff REC_HEADER_LEN_def
      unat_u32_of_nat)

lemma encode_decode_record:
  assumes "decode_record bs m = Inr r"
  shows "encode_record r m = Inr bs"
proof -
  have d: "length bs = 20 + unat (u32_from_be (subslice 16 20 bs))"
    "unat (u32_from_be (subslice 16 20 bs)) \<le> m"
    "u32_from_be (subslice 0 4 bs) = REC_MAGIC" "u16_from_be (subslice 4 6 bs) = REC_VERSION"
    "bs ! 6 = record_kind_tag (rec_kind r)" "bs ! 7 = 0"
    "rec_epoch r = u64_from_be (subslice 8 16 bs)" "rec_payload r = drop 20 bs"
    using assms by (simp_all add: decode_record_Inr_iff REC_HEADER_LEN_def)
  have parts: "u32_be REC_MAGIC = subslice 0 4 bs" "u16_be REC_VERSION = subslice 4 6 bs"
    unfolding d(3,4) [symmetric] using d(1) by simp_all
  have "[bs ! 6] = subslice 6 7 bs" "[bs ! 7] = subslice 7 8 bs"
    by (rule nth_as_subslice; simp add: d(1))+
  then have parts2: "[record_kind_tag (rec_kind r)] = subslice 6 7 bs" "[0] = subslice 7 8 bs"
    unfolding d(5,6) .
  have parts3: "u64_be (rec_epoch r) = subslice 8 16 bs"
    "u32_be (word_of_nat (length (rec_payload r))) = subslice 16 20 bs"
    using d(1,7,8) by simp_all
  have "length (rec_payload r) \<le> m \<and> length (rec_payload r) \<le> u32_max" using d by simp
  moreover have "u32_be REC_MAGIC @ u16_be REC_VERSION @ [record_kind_tag (rec_kind r)] @ [0] @
      u64_be (rec_epoch r) @ u32_be (word_of_nat (length (rec_payload r))) @ rec_payload r = bs"
    unfolding parts parts2 parts3 unfolding d(8) by (simp add: subslice_to_end)
  ultimately show ?thesis unfolding encode_record_Inr_iff by blast
qed

lemma decode_encode_control: "control_valid c \<Longrightarrow> decode_control (encode_control c) = Inr c"
  by (simp add: encode_control_def decode_control_Inr_iff CONTROL_LEN_def)

lemma encode_decode_control:
  assumes "decode_control bs = Inr c"
  shows "encode_control c = bs \<and> control_valid c"
proof -
  have d: "length bs = 10" "control_valid c" "bs ! 0 = control_kind_tag (ctl_kind c)"
    "bs ! 1 = (case ctl_mode c of None \<Rightarrow> 0 | Some m \<Rightarrow> mode_tag m)"
    "ctl_epoch c = u64_from_be (drop 2 bs)"
    using assms by (simp_all add: decode_control_Inr_iff CONTROL_LEN_def)
  have parts: "[control_kind_tag (ctl_kind c)] = subslice 0 1 bs"
    "[case ctl_mode c of None \<Rightarrow> 0 | Some m \<Rightarrow> mode_tag m] = subslice 1 2 bs"
    "u64_be (ctl_epoch c) = drop 2 bs"
    using d nth_as_subslice [of 0 bs 1] nth_as_subslice [of 1 bs 2] by simp_all
  show ?thesis using d(2) unfolding encode_control_def parts by (simp add: subslice_to_end)
qed

interpretation security_record:
  wire_codec "\<lambda>m r. encode_record r m" "\<lambda>m bs. decode_record bs m" "\<lambda>m. True" "\<lambda>r. True"
  by unfold_locales (auto intro: decode_encode_record encode_decode_record)

interpretation protected_msg:
  wire_codec "\<lambda>m p. encode_protected p m" "\<lambda>m bs. decode_protected bs m" "\<lambda>m. True" "\<lambda>p. True"
  by unfold_locales (auto intro: decode_encode_protected encode_decode_protected)

interpretation transition_control:
  wire_codec "\<lambda>m c. Inr (encode_control c)" "\<lambda>m bs. decode_control bs" "\<lambda>m. True" control_valid
  by unfold_locales (auto simp: decode_encode_control dest: encode_decode_control)

section \<open>Properties\<close>

text \<open>
  C5. The three layers of a security record decode exactly what they encode: for every limit,
  a byte string is accepted as a record, a protected message or a transition control if and
  only if it is the one encoding of the decoded value, and a control is only ever accepted
  with a nonzero epoch and a mode exactly on a switch proposal.
\<close>

theorem security_records_round_trip:
  "(decode_record bs m = Inr r \<longleftrightarrow> encode_record r m = Inr bs) \<and>
   (decode_protected bs m = Inr p \<longleftrightarrow> encode_protected p m = Inr bs) \<and>
   (decode_control bs = Inr c \<longleftrightarrow>
      ctl_epoch c \<noteq> 0 \<and> (ctl_mode c \<noteq> None \<longleftrightarrow> ctl_kind c = SwitchPropose) \<and>
      encode_control c = bs)"
  using security_record.dec_iff_enc protected_msg.dec_iff_enc transition_control.dec_iff_enc
  by (simp add: control_valid_def)

end
