(* ===== verification/Secure_Channel.thy ===== *)
theory Secure_Channel
  imports Step_System "HOL-Library.Multiset"
begin

text \<open>
  The Noise wrappers of \<^verbatim>\<open>rnet-security/src/lib.rs\<close>: the 64-position replay window, the
  datagram transport with explicit nonces, the ordered transport and the pinned handshake.
  The Noise implementation itself (the \<^verbatim>\<open>snow\<close> crate) is a parameter: its cipher and handshake
  states are opaque, its operations are arguments of the definitions.
\<close>

datatype security_error = PeerKeyMismatchE | InvalidStateE | CryptoE | ReplayDetectedE

type_synonym 'a sec_result = "security_error + 'a"

section \<open>Replay window\<close>

record replay_window =
  rw_highest :: "u64 option"
  rw_bitmap :: u64

definition rw_default :: replay_window where
  "rw_default = \<lparr>rw_highest = None, rw_bitmap = 0\<rparr>"

definition rw_contains :: "replay_window \<Rightarrow> u64 \<Rightarrow> bool" where
  "rw_contains w nonce =
     (case rw_highest w of
        None \<Rightarrow> False
      | Some highest \<Rightarrow>
          if highest < nonce then False
          else let distance = highest - nonce
               in 64 \<le> distance \<or> rw_bitmap w AND push_bit (unat distance) 1 \<noteq> 0)"

definition rw_insert :: "u64 \<Rightarrow> replay_window \<Rightarrow> replay_window sec_result" where
  "rw_insert nonce w =
     (case rw_highest w of
        None \<Rightarrow> Inr \<lparr>rw_highest = Some nonce, rw_bitmap = 1\<rparr>
      | Some highest \<Rightarrow>
          if highest < nonce then
            (let distance = nonce - highest
             in Inr \<lparr>rw_highest = Some nonce,
                     rw_bitmap = (if 64 \<le> distance then 1
                                  else push_bit (unat distance) (rw_bitmap w) OR 1)\<rparr>)
          else
            (let distance = highest - nonce
             in if 64 \<le> distance \<or> rw_bitmap w AND push_bit (unat distance) 1 \<noteq> 0
                then Inl ReplayDetectedE
                else Inr (w\<lparr>rw_bitmap := rw_bitmap w OR push_bit (unat distance) 1\<rparr>)))"

text \<open>
  The specification: the window stands for the set \<open>S\<close> of nonces accepted so far. It answers
  membership exactly for the last 64 positions below the highest nonce.
\<close>

definition rw_rep :: "replay_window \<Rightarrow> nat set \<Rightarrow> bool" where
  "rw_rep w S \<longleftrightarrow>
     (case rw_highest w of
        None \<Rightarrow> S = {}
      | Some h \<Rightarrow> unat h \<in> S \<and> (\<forall>n \<in> S. n \<le> unat h) \<and>
          (\<forall>i < 64. bit (rw_bitmap w) i \<longleftrightarrow> i \<le> unat h \<and> unat h - i \<in> S))"

definition rw_stale :: "nat set \<Rightarrow> nat \<Rightarrow> bool" where
  "rw_stale S n \<longleftrightarrow> (\<exists>h \<in> S. (\<forall>m \<in> S. m \<le> h) \<and> n + 64 \<le> h)"

lemma rw_default_rep: "rw_rep rw_default {}"
  by (simp add: rw_rep_def rw_default_def)

lemma unat_diff: "b \<le> a \<Longrightarrow> unat (a - b) = unat a - unat b" for a b :: u64
  by (simp add: unat_sub word_le_nat_alt)

lemma ge_64_iff: "64 \<le> (d :: u64) \<longleftrightarrow> 64 \<le> unat d"
  by (simp add: word_le_nat_alt)

lemma rw_contains_iff:
  assumes "rw_rep w S"
  shows "rw_contains w n \<longleftrightarrow> unat n \<in> S \<or> rw_stale S (unat n)"
proof (cases "rw_highest w")
  case None
  then show ?thesis using assms by (simp add: rw_contains_def rw_rep_def rw_stale_def)
next
  case (Some h)
  have r: "unat h \<in> S" "\<And>m. m \<in> S \<Longrightarrow> m \<le> unat h"
    "\<And>i. i < 64 \<Longrightarrow> bit (rw_bitmap w) i \<longleftrightarrow> i \<le> unat h \<and> unat h - i \<in> S"
    using assms Some by (auto simp: rw_rep_def)
  have st: "rw_stale S (unat n) \<longleftrightarrow> unat n + 64 \<le> unat h"
    using r(1,2) unfolding rw_stale_def by (meson order.trans)
  show ?thesis
  proof (cases "h < n")
    case True
    then have "unat h < unat n" by (simp add: word_less_nat_alt)
    then have "unat n \<notin> S" "\<not> unat n + 64 \<le> unat h" using r(2) [of "unat n"] by auto
    then show ?thesis using True Some st by (simp add: rw_contains_def)
  next
    case False
    then have le: "n \<le> h" "unat n \<le> unat h" by (simp_all add: not_less word_le_nat_alt)
    show ?thesis
    proof (cases "64 \<le> unat h - unat n")
      case True
      then show ?thesis
        using le False Some st by (auto simp: rw_contains_def Let_def ge_64_iff unat_diff)
    next
      case in_window: False
      then show ?thesis
        using le False Some st r(3) [of "unat h - unat n"]
        by (auto simp: rw_contains_def Let_def ge_64_iff unat_diff and_exp_eq_0_iff_not_bit)
    qed
  qed
qed

text \<open>Advancing the window shifts the bitmap by the distance to the new highest nonce.\<close>

lemma rw_shift_bit:
  fixes bm :: u64
  assumes d: "0 < d" and i: "i < 64"
    and bm: "\<And>j. j < 64 \<Longrightarrow> bit bm j \<longleftrightarrow> j \<le> h \<and> h - j \<in> S"
    and top: "\<And>m. m \<in> S \<Longrightarrow> m \<le> h"
  shows "bit (if 64 \<le> d then 1 else push_bit d bm OR 1) i \<longleftrightarrow>
    i \<le> h + d \<and> h + d - i \<in> insert (h + d) S"
proof (cases "i = 0")
  case True
  then show ?thesis by (simp add: bit_or_iff bit_1_iff)
next
  case False
  have lhs: "bit (if 64 \<le> d then 1 else push_bit d bm OR 1) i \<longleftrightarrow> d \<le> i \<and> bit bm (i - d)"
    using False i by (auto simp: bit_or_iff bit_1_iff bit_push_bit_iff)
  show ?thesis
  proof (cases "d \<le> i")
    case True
    then have "h + d - i = h - (i - d)" "h + d - i \<noteq> h + d \<or> i = 0" using d False by auto
    then show ?thesis unfolding lhs using True bm [of "i - d"] i False by auto
  next
    case below: False
    then have "h < h + d - i" by simp
    then have "h + d - i \<notin> S" using top [of "h + d - i"] by auto
    then show ?thesis unfolding lhs using below False by simp
  qed
qed

lemma rw_rep_Some:
  assumes "rw_rep w S" and "rw_highest w = Some h"
  shows "unat h \<in> S" and "\<And>m. m \<in> S \<Longrightarrow> m \<le> unat h"
    and "\<And>i. i < 64 \<Longrightarrow> bit (rw_bitmap w) i \<longleftrightarrow> i \<le> unat h \<and> unat h - i \<in> S"
  using assms by (auto simp: rw_rep_def)

lemma rw_insert_above:
  assumes "rw_rep w S" and "rw_highest w = Some h" and "h < n"
  shows "\<exists>w'. rw_insert n w = Inr w' \<and> rw_rep w' (insert (unat n) S)"
proof -
  note r = rw_rep_Some [OF assms(1,2)]
  define d where "d = unat n - unat h"
  have lt: "unat h < unat n" using assms(3) by (simp add: word_less_nat_alt)
  have n: "unat n = unat h + d" "0 < d" using lt by (simp_all add: d_def)
  have ud: "unat (n - h) = d" using assms(3) by (simp add: unat_diff d_def order_less_imp_le)
  let ?bm = "if 64 \<le> d then 1 else push_bit d (rw_bitmap w) OR 1"
  have "rw_insert n w = Inr \<lparr>rw_highest = Some n, rw_bitmap = ?bm\<rparr>"
    using assms(2,3) by (simp add: rw_insert_def Let_def ge_64_iff ud)
  moreover have "rw_rep \<lparr>rw_highest = Some n, rw_bitmap = ?bm\<rparr> (insert (unat n) S)"
    unfolding rw_rep_def n(1)
    using rw_shift_bit [OF n(2) _ r(3,2)] r(2) by (fastforce simp: n(1))
  ultimately show ?thesis by blast
qed

lemma rw_insert_below:
  assumes "rw_rep w S" and "rw_highest w = Some h" and "\<not> h < n" and "\<not> rw_contains w n"
  shows "\<exists>w'. rw_insert n w = Inr w' \<and> rw_rep w' (insert (unat n) S)"
proof -
  note r = rw_rep_Some [OF assms(1,2)]
  define d where "d = unat h - unat n"
  have le: "n \<le> h" "unat n \<le> unat h" using assms(3) by (simp_all add: not_less word_le_nat_alt)
  have ud: "unat (h - n) = d" using le by (simp add: unat_diff d_def)
  have c: "d < 64" "\<not> bit (rw_bitmap w) d"
    using assms(2-4)
    by (auto simp: rw_contains_def Let_def ge_64_iff ud and_exp_eq_0_iff_not_bit)
  have "rw_insert n w = Inr (w\<lparr>rw_bitmap := rw_bitmap w OR push_bit d 1\<rparr>)"
    using assms(2,3) c by (simp add: rw_insert_def Let_def ge_64_iff ud and_exp_eq_0_iff_not_bit)
  moreover have "bit (rw_bitmap w OR push_bit d 1) i \<longleftrightarrow>
      i \<le> unat h \<and> unat h - i \<in> insert (unat n) S" if "i < 64" for i
  proof -
    have "bit (rw_bitmap w OR push_bit d 1) i \<longleftrightarrow> bit (rw_bitmap w) i \<or> i = d"
      using that by (auto simp: bit_or_iff bit_exp_iff)
    then show ?thesis using r(3) [OF that] le(2) by (auto simp: d_def)
  qed
  ultimately show ?thesis using r(1,2) le(2) assms(2) by (auto simp: rw_rep_def)
qed

lemma rw_insert_new:
  assumes "rw_rep w S" and "\<not> rw_contains w n"
  shows "\<exists>w'. rw_insert n w = Inr w' \<and> rw_rep w' (insert (unat n) S)"
proof (cases "rw_highest w")
  case None
  then show ?thesis using assms by (auto simp: rw_insert_def rw_rep_def bit_1_iff)
next
  case (Some h)
  then show ?thesis using assms rw_insert_above rw_insert_below by (cases "h < n") blast+
qed

section \<open>Datagram transport\<close>

text \<open>
  The parameters stand for \<^verbatim>\<open>snow::StatelessTransportState\<close>: \<open>write_message\<close> and
  \<open>read_message\<close> with an explicit nonce, and the two rekey operations, on an opaque state.
\<close>

record 'st datagram_transport =
  dt_state :: 'st
  dt_send_nonce :: u64
  dt_replay :: replay_window

definition dt_new :: "'st \<Rightarrow> 'st datagram_transport" where
  "dt_new st = \<lparr>dt_state = st, dt_send_nonce = 0, dt_replay = rw_default\<rparr>"

definition dt_rekey_outgoing :: "('st \<Rightarrow> 'st) \<Rightarrow> 'st datagram_transport \<Rightarrow> 'st datagram_transport" where
  "dt_rekey_outgoing rekey_out t = t\<lparr>dt_state := rekey_out (dt_state t), dt_send_nonce := 0\<rparr>"

definition dt_rekey_incoming :: "('st \<Rightarrow> 'st) \<Rightarrow> 'st datagram_transport \<Rightarrow> 'st datagram_transport" where
  "dt_rekey_incoming rekey_in t = t\<lparr>dt_state := rekey_in (dt_state t), dt_replay := rw_default\<rparr>"

definition dt_encrypt ::
    "('st \<Rightarrow> u64 \<Rightarrow> bytes \<Rightarrow> bytes option) \<Rightarrow> bytes \<Rightarrow> 'st datagram_transport \<Rightarrow>
      'st datagram_transport \<times> bytes sec_result" where
  "dt_encrypt write_message plaintext t =
     (let nonce = dt_send_nonce t
      in case u64_checked_succ nonce of
           None \<Rightarrow> (t, Inl InvalidStateE)
         | Some next \<Rightarrow>
             let t1 = t\<lparr>dt_send_nonce := next\<rparr>
             in case write_message (dt_state t1) nonce plaintext of
                  None \<Rightarrow> (t1, Inl CryptoE)
                | Some ciphertext \<Rightarrow> (t1, Inr (u64_be nonce @ ciphertext)))"

definition dt_decrypt ::
    "('st \<Rightarrow> u64 \<Rightarrow> bytes \<Rightarrow> bytes option) \<Rightarrow> bytes \<Rightarrow> 'st datagram_transport \<Rightarrow>
      'st datagram_transport \<times> bytes sec_result" where
  "dt_decrypt read_message record t =
     (if length record < 24 then (t, Inl CryptoE)
      else let nonce = u64_from_be (take 8 record)
           in if rw_contains (dt_replay t) nonce then (t, Inl ReplayDetectedE)
              else case read_message (dt_state t) nonce (drop 8 record) of
                None \<Rightarrow> (t, Inl CryptoE)
              | Some plaintext \<Rightarrow>
                  (case rw_insert nonce (dt_replay t) of
                     Inl e \<Rightarrow> (t, Inl e)
                   | Inr w \<Rightarrow> (t\<lparr>dt_replay := w\<rparr>, Inr plaintext)))"

text \<open>A receiver working through a sequence of records of one key epoch, with what it accepts.\<close>

fun dt_receive_all ::
    "('st \<Rightarrow> u64 \<Rightarrow> bytes \<Rightarrow> bytes option) \<Rightarrow> bytes list \<Rightarrow> 'st datagram_transport \<Rightarrow>
      'st datagram_transport \<times> (u64 \<times> bytes) list" where
  "dt_receive_all rd [] t = (t, [])"
| "dt_receive_all rd (r # rs) t =
     (case dt_decrypt rd r t of
        (t1, Inl _) \<Rightarrow> dt_receive_all rd rs t1
      | (t1, Inr p) \<Rightarrow>
          (case dt_receive_all rd rs t1 of (t2, acc) \<Rightarrow> (t2, (u64_from_be (take 8 r), p) # acc)))"

text \<open>
  A sender working through a sequence of plaintexts: the nonces it hands to the cipher, also
  when the cipher then fails, and the records it emits.
\<close>

fun dt_cipher_calls ::
    "('st \<Rightarrow> u64 \<Rightarrow> bytes \<Rightarrow> bytes option) \<Rightarrow> bytes list \<Rightarrow> 'st datagram_transport \<Rightarrow>
      (u64 \<times> bytes) list" where
  "dt_cipher_calls wr [] t = []"
| "dt_cipher_calls wr (p # ps) t =
     (if u64_checked_succ (dt_send_nonce t) = None then [] else [(dt_send_nonce t, p)]) @
     dt_cipher_calls wr ps (fst (dt_encrypt wr p t))"

fun dt_send_all ::
    "('st \<Rightarrow> u64 \<Rightarrow> bytes \<Rightarrow> bytes option) \<Rightarrow> bytes list \<Rightarrow> 'st datagram_transport \<Rightarrow>
      'st datagram_transport \<times> (bytes \<times> bytes) list" where
  "dt_send_all wr [] t = (t, [])"
| "dt_send_all wr (p # ps) t =
     (case dt_encrypt wr p t of
        (t1, Inl _) \<Rightarrow> dt_send_all wr ps t1
      | (t1, Inr r) \<Rightarrow> (case dt_send_all wr ps t1 of (t2, rs) \<Rightarrow> (t2, (p, r) # rs)))"

lemma dt_decrypt_cases:
  assumes "rw_rep (dt_replay t) S"
  obtains (rejected) e where "dt_decrypt rd r t = (t, Inl e)"
    | (accepted) p w where "dt_decrypt rd r t = (t\<lparr>dt_replay := w\<rparr>, Inr p)"
      "rw_rep w (insert (unat (u64_from_be (take 8 r))) S)"
      "unat (u64_from_be (take 8 r)) \<notin> S" "\<not> rw_stale S (unat (u64_from_be (take 8 r)))"
      "rd (dt_state t) (u64_from_be (take 8 r)) (drop 8 r) = Some p" "24 \<le> length r"
proof (cases "length r < 24 \<or> rw_contains (dt_replay t) (u64_from_be (take 8 r)) \<or>
    rd (dt_state t) (u64_from_be (take 8 r)) (drop 8 r) = None")
  case True
  then have "\<exists>e. dt_decrypt rd r t = (t, Inl e)" by (auto simp: dt_decrypt_def Let_def)
  then show ?thesis using rejected by blast
next
  case False
  then obtain p where p: "rd (dt_state t) (u64_from_be (take 8 r)) (drop 8 r) = Some p" by blast
  obtain w where w: "rw_insert (u64_from_be (take 8 r)) (dt_replay t) = Inr w"
    "rw_rep w (insert (unat (u64_from_be (take 8 r))) S)"
    using rw_insert_new [OF assms] False by blast
  have "dt_decrypt rd r t = (t\<lparr>dt_replay := w\<rparr>, Inr p)"
    using False p w(1) by (simp add: dt_decrypt_def Let_def)
  then show ?thesis
    using accepted w(2) p False rw_contains_iff [OF assms] by (simp add: not_less)
qed

lemma dt_receive_all_fresh:
  assumes "rw_rep (dt_replay t) S" and "dt_receive_all rd rs t = (t', acc)"
  shows "distinct (map (unat \<circ> fst) acc) \<and> (unat \<circ> fst) ` set acc \<inter> S = {} \<and>
    dt_state t' = dt_state t \<and>
    (\<forall>(n, p) \<in> set acc. \<exists>r \<in> set rs. n = u64_from_be (take 8 r) \<and> 24 \<le> length r \<and>
       rd (dt_state t) n (drop 8 r) = Some p)"
  using assms
proof (induction rs arbitrary: t acc S)
  case Nil
  then show ?case by simp
next
  case (Cons r rs)
  from Cons.prems(1) show ?case
  proof (cases rule: dt_decrypt_cases [where rd = rd and r = r])
    case (rejected e)
    then show ?thesis using Cons.IH [OF Cons.prems(1), of acc] Cons.prems(2) by auto
  next
    case (accepted p w)
    obtain acc1 where a: "dt_receive_all rd rs (t\<lparr>dt_replay := w\<rparr>) = (t', acc1)"
      "acc = (u64_from_be (take 8 r), p) # acc1"
      using Cons.prems(2) accepted(1) by (auto split: prod.splits)
    have "rw_rep (dt_replay (t\<lparr>dt_replay := w\<rparr>)) (insert (unat (u64_from_be (take 8 r))) S)"
      using accepted(2) by simp
    from Cons.IH [OF this a(1)] show ?thesis
      using accepted(3,5,6) unfolding a(2) by auto
  qed
qed

lemma dt_encrypt_nonce:
  "dt_state (fst (dt_encrypt wr p t)) = dt_state t"
  "u64_checked_succ (dt_send_nonce t) = None \<Longrightarrow> dt_encrypt wr p t = (t, Inl InvalidStateE)"
  "u64_checked_succ (dt_send_nonce t) = Some m \<Longrightarrow> dt_send_nonce (fst (dt_encrypt wr p t)) = m"
  by (auto simp: dt_encrypt_def Let_def split: option.splits)

lemma dt_cipher_calls_increasing:
  "sorted_wrt (<) (map (unat \<circ> fst) (dt_cipher_calls wr ps t)) \<and>
   (\<forall>(n, p) \<in> set (dt_cipher_calls wr ps t). unat (dt_send_nonce t) \<le> unat n)"
proof (induction ps arbitrary: t)
  case Nil
  then show ?case by simp
next
  case (Cons p ps)
  show ?case
  proof (cases "u64_checked_succ (dt_send_nonce t)")
    case None
    then show ?thesis using Cons [of t] by (simp add: dt_encrypt_nonce)
  next
    case (Some m)
    have "unat m = Suc (unat (dt_send_nonce t))" by (rule u64_checked_succ_unat [OF Some])
    then show ?thesis
      using Cons [of "fst (dt_encrypt wr p t)"] Some by (fastforce simp: dt_encrypt_nonce)
  qed
qed

lemma dt_cipher_calls_plaintexts: "mset (map snd (dt_cipher_calls wr ps t)) \<subseteq># mset ps"
  by (induction ps arbitrary: t)
    (auto intro: subset_mset.order_trans [OF _ mset_subset_eq_add_left [of _ "{#a#}" for a], simplified])

lemma dt_send_all_calls:
  "dt_send_all wr ps t = (t', rs) \<Longrightarrow> (p, r) \<in> set rs \<Longrightarrow>
     \<exists>n c. (n, p) \<in> set (dt_cipher_calls wr ps t) \<and> wr (dt_state t) n p = Some c \<and> r = u64_be n @ c"
proof (induction ps arbitrary: t rs)
  case Nil
  then show ?case by simp
next
  case (Cons q ps)
  then show ?case
    using dt_encrypt_nonce(1) [of wr q t]
    by (fastforce simp: dt_encrypt_def Let_def split: option.splits prod.splits sum.splits)
qed

section \<open>Ordered transport\<close>

text \<open>
  The parameters stand for \<^verbatim>\<open>snow::TransportState\<close>. A Noise transport state is a pair of
  cipher states, one per direction; \<open>wr\<close> and \<open>rd\<close> advance the one they use.
\<close>

record 'k secure_transport =
  st_tx :: 'k
  st_rx :: 'k

definition st_rekey_outgoing :: "('k \<Rightarrow> 'k) \<Rightarrow> 'k secure_transport \<Rightarrow> 'k secure_transport" where
  "st_rekey_outgoing rk t = t\<lparr>st_tx := rk (st_tx t)\<rparr>"

definition st_rekey_incoming :: "('k \<Rightarrow> 'k) \<Rightarrow> 'k secure_transport \<Rightarrow> 'k secure_transport" where
  "st_rekey_incoming rk t = t\<lparr>st_rx := rk (st_rx t)\<rparr>"

definition st_encrypt ::
    "('k \<Rightarrow> bytes \<Rightarrow> ('k \<times> bytes) option) \<Rightarrow> bytes \<Rightarrow> 'k secure_transport \<Rightarrow>
      ('k secure_transport \<times> bytes) sec_result" where
  "st_encrypt wr plaintext t =
     (case wr (st_tx t) plaintext of
        None \<Rightarrow> Inl CryptoE
      | Some (k, ciphertext) \<Rightarrow> Inr (t\<lparr>st_tx := k\<rparr>, ciphertext))"

definition st_decrypt ::
    "('k \<Rightarrow> bytes \<Rightarrow> ('k \<times> bytes) option) \<Rightarrow> bytes \<Rightarrow> 'k secure_transport \<Rightarrow>
      ('k secure_transport \<times> bytes) sec_result" where
  "st_decrypt rd ciphertext t =
     (case rd (st_rx t) ciphertext of
        None \<Rightarrow> Inl CryptoE
      | Some (k, plaintext) \<Rightarrow> Inr (t\<lparr>st_rx := k\<rparr>, plaintext))"

section \<open>Pinned handshake\<close>

text \<open>
  The parameters stand for \<^verbatim>\<open>snow::HandshakeState\<close>: reading and writing a message move the
  opaque state whether or not they succeed, \<open>remote\<close> is \<^verbatim>\<open>get_remote_static\<close> and \<open>into\<close> the
  change to transport mode.
\<close>

record 'h initiator =
  ih_state :: 'h
  ih_expected :: bytes
  ih_verified :: bool

definition ih_new :: "(bytes \<Rightarrow> 'h option) \<Rightarrow> bytes \<Rightarrow> bytes \<Rightarrow> 'h initiator sec_result" where
  "ih_new build local_private expected_peer_public =
     (if length expected_peer_public \<noteq> 32 then Inl PeerKeyMismatchE
      else if length local_private \<noteq> 32 then Inl CryptoE
      else case build local_private of
        None \<Rightarrow> Inl CryptoE
      | Some h \<Rightarrow> Inr \<lparr>ih_state = h, ih_expected = expected_peer_public, ih_verified = False\<rparr>)"

definition ih_write_first ::
    "('h \<Rightarrow> bytes \<Rightarrow> 'h \<times> bytes option) \<Rightarrow> 'h initiator \<Rightarrow> 'h initiator \<times> bytes sec_result" where
  "ih_write_first wr i =
     (case wr (ih_state i) [] of
        (h, None) \<Rightarrow> (i\<lparr>ih_state := h\<rparr>, Inl CryptoE)
      | (h, Some msg) \<Rightarrow> (i\<lparr>ih_state := h\<rparr>, Inr msg))"

definition ih_read_response ::
    "('h \<Rightarrow> bytes \<Rightarrow> 'h \<times> bytes option) \<Rightarrow> ('h \<Rightarrow> bytes option) \<Rightarrow> bytes \<Rightarrow> 'h initiator \<Rightarrow>
      'h initiator \<times> unit sec_result" where
  "ih_read_response rd remote msg i0 =
     (let i = i0\<lparr>ih_verified := False\<rparr>
      in case rd (ih_state i) msg of
           (h, None) \<Rightarrow> (i\<lparr>ih_state := h\<rparr>, Inl CryptoE)
         | (h, Some _) \<Rightarrow>
             (let i1 = i\<lparr>ih_state := h\<rparr>
              in case remote h of
                   None \<Rightarrow> (i1, Inl InvalidStateE)
                 | Some peer \<Rightarrow>
                     if peer \<noteq> ih_expected i then (i1, Inl PeerKeyMismatchE)
                     else (i1\<lparr>ih_verified := True\<rparr>, Inr ())))"

definition ih_finish ::
    "('h \<Rightarrow> bytes \<Rightarrow> 'h \<times> bytes option) \<Rightarrow> ('h \<Rightarrow> 't option) \<Rightarrow> bytes \<Rightarrow> 'h initiator \<Rightarrow>
      (bytes \<times> 't) sec_result" where
  "ih_finish wr into join_payload i =
     (if \<not> ih_verified i then Inl InvalidStateE
      else case wr (ih_state i) join_payload of
        (h, None) \<Rightarrow> Inl CryptoE
      | (h, Some msg) \<Rightarrow> (case into h of None \<Rightarrow> Inl CryptoE | Some t \<Rightarrow> Inr (msg, t)))"

definition ih_finish_datagram ::
    "('h \<Rightarrow> bytes \<Rightarrow> 'h \<times> bytes option) \<Rightarrow> ('h \<Rightarrow> 'st option) \<Rightarrow> bytes \<Rightarrow> 'h initiator \<Rightarrow>
      (bytes \<times> 'st datagram_transport) sec_result" where
  "ih_finish_datagram wr into join_payload i =
     (if \<not> ih_verified i then Inl InvalidStateE
      else case wr (ih_state i) join_payload of
        (h, None) \<Rightarrow> Inl CryptoE
      | (h, Some msg) \<Rightarrow> (case into h of None \<Rightarrow> Inl CryptoE | Some st \<Rightarrow> Inr (msg, dt_new st)))"

record 'h responder =
  rh_state :: 'h

definition rh_new :: "(bytes \<Rightarrow> 'h option) \<Rightarrow> bytes \<Rightarrow> 'h responder sec_result" where
  "rh_new build local_private =
     (if length local_private \<noteq> 32 then Inl CryptoE
      else case build local_private of None \<Rightarrow> Inl CryptoE | Some h \<Rightarrow> Inr \<lparr>rh_state = h\<rparr>)"

definition rh_read_first ::
    "('h \<Rightarrow> bytes \<Rightarrow> 'h \<times> bytes option) \<Rightarrow> bytes \<Rightarrow> 'h responder \<Rightarrow> 'h responder \<times> unit sec_result" where
  "rh_read_first rd msg i =
     (case rd (rh_state i) msg of
        (h, None) \<Rightarrow> (i\<lparr>rh_state := h\<rparr>, Inl CryptoE)
      | (h, Some _) \<Rightarrow> (i\<lparr>rh_state := h\<rparr>, Inr ()))"

definition rh_write_response ::
    "('h \<Rightarrow> bytes \<Rightarrow> 'h \<times> bytes option) \<Rightarrow> 'h responder \<Rightarrow> 'h responder \<times> bytes sec_result" where
  "rh_write_response wr i =
     (case wr (rh_state i) [] of
        (h, None) \<Rightarrow> (i\<lparr>rh_state := h\<rparr>, Inl CryptoE)
      | (h, Some msg) \<Rightarrow> (i\<lparr>rh_state := h\<rparr>, Inr msg))"

definition rh_finish ::
    "('h \<Rightarrow> bytes \<Rightarrow> 'h \<times> bytes option) \<Rightarrow> ('h \<Rightarrow> bytes option) \<Rightarrow> ('h \<Rightarrow> 't option) \<Rightarrow> bytes \<Rightarrow>
      'h responder \<Rightarrow> (bytes \<times> bytes \<times> 't) sec_result" where
  "rh_finish rd remote into msg i =
     (case rd (rh_state i) msg of
        (h, None) \<Rightarrow> Inl CryptoE
      | (h, Some payload) \<Rightarrow>
          (case remote h of
             None \<Rightarrow> Inl InvalidStateE
           | Some peer \<Rightarrow>
               (case into h of None \<Rightarrow> Inl CryptoE | Some t \<Rightarrow> Inr (payload, peer, t))))"

datatype ih_op = WriteFirst | ReadResponse bytes

fun ih_step ::
    "('h \<Rightarrow> bytes \<Rightarrow> 'h \<times> bytes option) \<Rightarrow> ('h \<Rightarrow> bytes \<Rightarrow> 'h \<times> bytes option) \<Rightarrow>
      ('h \<Rightarrow> bytes option) \<Rightarrow> ih_op \<Rightarrow> 'h initiator \<Rightarrow> 'h initiator" where
  "ih_step wr rd remote WriteFirst i = fst (ih_write_first wr i)"
| "ih_step wr rd remote (ReadResponse msg) i = fst (ih_read_response rd remote msg i)"

lemma ih_step_expected: "ih_expected (ih_step wr rd remote x i) = ih_expected i"
  by (cases x) (auto simp: ih_write_first_def ih_read_response_def Let_def
      split: prod.splits option.splits)

lemma ih_run_expected: "ih_expected (run_ops (ih_step wr rd remote) ops i) = ih_expected i"
  by (induction ops arbitrary: i) (simp_all add: ih_step_expected)

lemma ih_verified_only_by_read:
  assumes "\<not> ih_verified i" and "ih_verified (run_ops (ih_step wr rd remote) ops i)"
  shows "\<exists>pre msg post h p. ops = pre @ ReadResponse msg # post \<and>
    (\<forall>x \<in> set post. x = WriteFirst) \<and>
    rd (ih_state (run_ops (ih_step wr rd remote) pre i)) msg = (h, Some p) \<and>
    remote h = Some (ih_expected i)"
  using assms
proof (induction ops rule: rev_induct)
  case Nil
  then show ?case by simp
next
  case (snoc x ops)
  let ?i = "run_ops (ih_step wr rd remote) ops i"
  show ?case
  proof (cases x)
    case WriteFirst
    have "ih_verified ?i"
      using snoc.prems(2) WriteFirst
      by (auto simp: run_ops_append ih_write_first_def split: prod.splits option.splits)
    from snoc.IH [OF snoc.prems(1) this] show ?thesis
      using WriteFirst by (fastforce intro: exI [of _ "_ @ [WriteFirst]"])
  next
    case (ReadResponse msg)
    have "\<exists>h p. rd (ih_state ?i) msg = (h, Some p) \<and> remote h = Some (ih_expected i)"
      using snoc.prems(2) ReadResponse ih_run_expected [of wr rd remote ops i]
      by (auto simp: run_ops_append ih_read_response_def Let_def
          split: prod.splits option.splits if_splits)
    then show ?thesis using ReadResponse by fastforce
  qed
qed

section \<open>Properties\<close>

lemma dt_receive_all_rep:
  assumes "rw_rep (dt_replay t) S" and "dt_receive_all rd rs t = (t', acc)"
  shows "rw_rep (dt_replay t') (S \<union> (unat \<circ> fst) ` set acc) \<and> dt_state t' = dt_state t"
  using assms
proof (induction rs arbitrary: t acc S)
  case Nil
  then show ?case by simp
next
  case (Cons r rs)
  from Cons.prems(1) show ?case
  proof (cases rule: dt_decrypt_cases [where rd = rd and r = r])
    case (rejected e)
    then show ?thesis using Cons.IH [OF Cons.prems(1), of acc] Cons.prems(2) by auto
  next
    case (accepted p w)
    obtain acc1 where a: "dt_receive_all rd rs (t\<lparr>dt_replay := w\<rparr>) = (t', acc1)"
      "acc = (u64_from_be (take 8 r), p) # acc1"
      using Cons.prems(2) accepted(1) by (auto split: prod.splits)
    have "rw_rep (dt_replay (t\<lparr>dt_replay := w\<rparr>)) (insert (unat (u64_from_be (take 8 r))) S)"
      using accepted(2) by simp
    from Cons.IH [OF this a(1)] show ?thesis unfolding a(2) by simp
  qed
qed

text \<open>
  C10. The receive path of the datagram transport is exact. After any history of received
  records, a further record is accepted if and only if it is long enough, its nonce was not
  accepted before, is not 64 or more below the highest accepted nonce, and the cipher
  authenticates it; a refused record changes nothing, so a forged nonce cannot move the
  replay window.
\<close>

theorem datagram_accepts_exactly_fresh:
  assumes "dt_receive_all rd history (dt_new st) = (t, acc)"
    and "S = (unat \<circ> fst) ` set acc" and "n = u64_from_be (take 8 r)"
  shows "(snd (dt_decrypt rd r t) = Inr p \<longleftrightarrow>
      24 \<le> length r \<and> unat n \<notin> S \<and> \<not> rw_stale S (unat n) \<and> rd st n (drop 8 r) = Some p) \<and>
    (\<forall>e. snd (dt_decrypt rd r t) = Inl e \<longrightarrow> fst (dt_decrypt rd r t) = t)"
proof -
  have "rw_rep (dt_replay (dt_new st :: 'a datagram_transport)) {}"
    by (simp add: dt_new_def rw_default_rep)
  from dt_receive_all_rep [OF this assms(1)]
  have rep: "rw_rep (dt_replay t) S" and st: "dt_state t = st"
    using assms(2) by (simp_all add: dt_new_def)
  show ?thesis
    using rep
  proof (cases rule: dt_decrypt_cases [where rd = rd and r = r])
    case (accepted p' w)
    then show ?thesis using assms(3) st by auto
  next
    case (rejected e)
    have "\<not> (24 \<le> length r \<and> unat n \<notin> S \<and> \<not> rw_stale S (unat n) \<and> rd st n (drop 8 r) = Some p)"
    proof
      assume a: "24 \<le> length r \<and> unat n \<notin> S \<and> \<not> rw_stale S (unat n) \<and> rd st n (drop 8 r) = Some p"
      then have "\<not> rw_contains (dt_replay t) n" using rw_contains_iff [OF rep] by blast
      moreover obtain w where "rw_insert n (dt_replay t) = Inr w"
        using rw_insert_new [OF rep calculation] by blast
      ultimately show False using a rejected assms(3) st by (simp add: dt_decrypt_def Let_def)
    qed
    then show ?thesis using rejected by simp
  qed
qed

theorem datagram_accepts_exactly_fresh_witness:
  "snd (dt_decrypt (\<lambda>_ _ c. if c = replicate 16 7 then Some [1] else None)
          (replicate 8 0 @ replicate 16 7) (dt_new ())) = Inr [1]"
  using datagram_accepts_exactly_fresh
    [of "\<lambda>_ _ c. if c = replicate 16 7 then Some [1] else None" "[]" "()" "dt_new ()" "[]" "{}"
      "u64_from_be (take 8 (replicate 8 0 @ replicate 16 7))" "replicate 8 0 @ replicate 16 7" "[1]"]
  by (simp add: rw_stale_def)

text \<open>
  Under one key the sender never hands the cipher the same nonce twice, not even after
  a failed encryption, and every emitted record carries in clear the nonce it was sealed with.
\<close>

lemma datagram_nonce_never_reused:
  "distinct (map fst (dt_cipher_calls wr ps t)) \<and>
   (\<forall>t' rs p r. dt_send_all wr ps t = (t', rs) \<and> (p, r) \<in> set rs \<longrightarrow>
      (\<exists>n c. (n, p) \<in> set (dt_cipher_calls wr ps t) \<and> wr (dt_state t) n p = Some c \<and>
         r = u64_be n @ c))"
proof -
  have "distinct (map (unat \<circ> fst) (dt_cipher_calls wr ps t))"
    using dt_cipher_calls_increasing [of wr ps t] strict_sorted_iff by blast
  then have "distinct (map fst (dt_cipher_calls wr ps t))"
    by (metis distinct_map list.map_comp)
  then show ?thesis using dt_send_all_calls [of wr ps t] by blast
qed

text \<open>
  C11. At-most-once delivery over a hostile network: if the cipher only authenticates what
  the peer sealed under the same nonce, then whatever bytes arrive, in whatever order and
  however often, the plaintexts the receiver hands out are, counted with multiplicity, among
  those the sender sent.
\<close>

theorem datagram_at_most_once:
  assumes "\<And>n c p. rd rst n c = Some p \<Longrightarrow> (n, p) \<in> set (dt_cipher_calls wr ps (dt_new sst))"
    and "dt_receive_all rd rs (dt_new rst) = (t, acc)"
  shows "mset (map snd acc) \<subseteq># mset ps"
proof -
  let ?calls = "dt_cipher_calls wr ps (dt_new sst)"
  have "rw_rep (dt_replay (dt_new rst :: 'a datagram_transport)) {}"
    by (simp add: dt_new_def rw_default_rep)
  note f = dt_receive_all_fresh [OF this assms(2)]
  have "set acc \<subseteq> set ?calls" using f assms(1) by (fastforce simp: dt_new_def)
  moreover have "distinct acc" using f by (auto simp: distinct_map)
  moreover have "distinct ?calls"
    using dt_cipher_calls_increasing [of wr ps "dt_new sst"] strict_sorted_iff
    by (metis distinct_map)
  ultimately have "mset acc \<subseteq># mset ?calls"
    by (simp add: mset_set_set [symmetric] subset_imp_msubset_mset_set)
  then have "mset (map snd acc) \<subseteq># mset (map snd ?calls)"
    by (simp add: image_mset_subseteq_mono)
  then show ?thesis
    using dt_cipher_calls_plaintexts subset_mset.order_trans by blast
qed

theorem datagram_at_most_once_witness:
  "mset (map snd (snd (dt_receive_all (\<lambda>_ n c. if n = 0 then Some [5] else None)
     [replicate 24 0, replicate 24 0] (dt_new ())))) \<subseteq># mset [[5]]"
proof -
  let ?rd = "\<lambda>(_ :: unit) (n :: u64) (c :: bytes). if n = 0 then Some [5 :: u8] else None"
  let ?out = "dt_receive_all ?rd [replicate 24 0, replicate 24 0] (dt_new ())"
  show ?thesis
  proof (rule datagram_at_most_once [where rd = ?rd and rst = "()" and t = "fst ?out" and
        rs = "[replicate 24 0, replicate 24 0]" and wr = "\<lambda>_ _ _. None" and sst = "()"])
    show "(n, p) \<in> set (dt_cipher_calls (\<lambda>_ _ _. None) [[5]] (dt_new ()))"
      if "?rd () n c = Some p" for n c p
      using that by (auto simp: dt_new_def u64_checked_succ_def split: if_splits)
  qed simp
qed

text \<open>
  The client never finishes a handshake with an unpinned server: whatever sequence of
  handshake calls precedes it, finishing succeeds only if the last response read was
  authenticated and showed the pinned public key, for the ordered and for the datagram mode.
\<close>

lemma handshake_requires_pin:
  assumes "ih_new build priv pin = Inr i0"
    and "i = run_ops (ih_step wr rd remote) ops i0"
    and "ih_finish wr into payload i = Inr r \<or> ih_finish_datagram wr into' payload i = Inr r'"
  shows "\<exists>pre msg post h p. ops = pre @ ReadResponse msg # post \<and>
    (\<forall>x \<in> set post. x = WriteFirst) \<and>
    rd (ih_state (run_ops (ih_step wr rd remote) pre i0)) msg = (h, Some p) \<and>
    remote h = Some pin"
proof -
  have i0: "\<not> ih_verified i0" "ih_expected i0 = pin"
    using assms(1) by (auto simp: ih_new_def split: if_splits option.splits)
  have "ih_verified i"
    using assms(3) by (auto simp: ih_finish_def ih_finish_datagram_def split: if_splits)
  then show ?thesis
    using ih_verified_only_by_read [OF i0(1)] unfolding assms(2) i0(2) by blast
qed

end
