(* ===== verification/Security_Transition.thy ===== *)
theory Security_Transition
  imports Security_Records
begin

text \<open>
  The server-led transition barriers of \<^verbatim>\<open>rnet-security/src/transition.rs\<close>: the controller of
  one side, with at most one mode switch or rekey in flight.
\<close>

datatype role = Server | Client

datatype effect = NoEffect | SetMode security_mode | Rekey | AdvanceEpoch

record transition =
  before_response :: effect
  response :: "control option"
  after_response :: effect

definition transition_response :: "control \<Rightarrow> transition" where
  "transition_response c =
     \<lparr>before_response = NoEffect, response = Some c, after_response = NoEffect\<rparr>"

datatype pending =
  ServerSwitchReady u64 security_mode
| ServerSwitchAck u64 security_mode
| ClientSwitchCommit u64 security_mode
| ServerRekeyReady u64
| ServerRekeyAck u64
| ClientRekeyCommit u64

record controller =
  sc_role :: role
  sc_mode :: security_mode
  sc_epoch :: u64
  sc_pending :: "pending option"

definition sc_new :: "role \<Rightarrow> security_mode \<Rightarrow> u64 \<Rightarrow> controller" where
  "sc_new r m e = \<lparr>sc_role = r, sc_mode = m, sc_epoch = e, sc_pending = None\<rparr>"

definition is_transitioning :: "controller \<Rightarrow> bool" where
  "is_transitioning c \<longleftrightarrow> sc_pending c \<noteq> None"

definition ensure_server_idle :: "controller \<Rightarrow> unit result" where
  "ensure_server_idle c =
     (if sc_role c \<noteq> Server then Inl InvalidState
      else if sc_pending c \<noteq> None then Inl InvalidState
      else if sc_epoch c = 0 then Inl InvalidState
      else Inr ())"

definition next_epoch :: "controller \<Rightarrow> u64 result" where
  "next_epoch c = (case u64_checked_succ (sc_epoch c) of None \<Rightarrow> Inl InvalidState | Some e \<Rightarrow> Inr e)"

definition validate_next_epoch :: "controller \<Rightarrow> u64 \<Rightarrow> unit result" where
  "validate_next_epoch c epoch =
     (case next_epoch c of
        Inl e \<Rightarrow> Inl e
      | Inr n \<Rightarrow> if epoch \<noteq> n then Inl InvalidState else Inr ())"

definition begin_switch :: "security_mode \<Rightarrow> controller \<Rightarrow> (controller \<times> control) result" where
  "begin_switch mode c =
     (case ensure_server_idle c of
        Inl e \<Rightarrow> Inl e
      | Inr _ \<Rightarrow>
          if mode = sc_mode c then Inl InvalidState
          else case next_epoch c of
            Inl e \<Rightarrow> Inl e
          | Inr epoch \<Rightarrow>
              Inr (c\<lparr>sc_pending := Some (ServerSwitchReady epoch mode)\<rparr>,
                   control_switch SwitchPropose epoch mode))"

definition begin_rekey :: "controller \<Rightarrow> (controller \<times> control) result" where
  "begin_rekey c =
     (case ensure_server_idle c of
        Inl e \<Rightarrow> Inl e
      | Inr _ \<Rightarrow>
          (case next_epoch c of
             Inl e \<Rightarrow> Inl e
           | Inr epoch \<Rightarrow>
               Inr (c\<lparr>sc_pending := Some (ServerRekeyReady epoch)\<rparr>,
                    control_barrier RekeyPropose epoch)))"

text \<open>The match of \<^verbatim>\<open>handle\<close>, arm by arm; the guards on the epoch fall through to the last arm.\<close>

definition handle :: "control \<Rightarrow> controller \<Rightarrow> (controller \<times> transition) result" where
  "handle ctl c =
     (case (sc_role c, sc_pending c, ctl_kind ctl) of
        (Client, None, SwitchPropose) \<Rightarrow>
          (case ctl_mode ctl of
             None \<Rightarrow> Inl InvalidState
           | Some mode \<Rightarrow>
               (case validate_next_epoch c (ctl_epoch ctl) of
                  Inl e \<Rightarrow> Inl e
                | Inr _ \<Rightarrow>
                    Inr (c\<lparr>sc_pending := Some (ClientSwitchCommit (ctl_epoch ctl) mode)\<rparr>,
                         transition_response (control_barrier SwitchReady (ctl_epoch ctl)))))
      | (Server, Some (ServerSwitchReady epoch mode), SwitchReady) \<Rightarrow>
          if ctl_epoch ctl = epoch then
            Inr (c\<lparr>sc_pending := Some (ServerSwitchAck epoch mode)\<rparr>,
                 transition_response (control_barrier SwitchCommit epoch))
          else Inl InvalidState
      | (Client, Some (ClientSwitchCommit epoch mode), SwitchCommit) \<Rightarrow>
          if ctl_epoch ctl = epoch then
            Inr (c\<lparr>sc_mode := mode, sc_epoch := epoch, sc_pending := None\<rparr>,
                 \<lparr>before_response = SetMode mode,
                  response = Some (control_barrier SwitchAck epoch), after_response = NoEffect\<rparr>)
          else Inl InvalidState
      | (Server, Some (ServerSwitchAck epoch mode), SwitchAck) \<Rightarrow>
          if ctl_epoch ctl = epoch then
            Inr (c\<lparr>sc_mode := mode, sc_epoch := epoch, sc_pending := None\<rparr>,
                 \<lparr>before_response = SetMode mode, response = None, after_response = NoEffect\<rparr>)
          else Inl InvalidState
      | (Client, None, RekeyPropose) \<Rightarrow>
          (case validate_next_epoch c (ctl_epoch ctl) of
             Inl e \<Rightarrow> Inl e
           | Inr _ \<Rightarrow>
               Inr (c\<lparr>sc_pending := Some (ClientRekeyCommit (ctl_epoch ctl))\<rparr>,
                    transition_response (control_barrier RekeyReady (ctl_epoch ctl))))
      | (Server, Some (ServerRekeyReady epoch), RekeyReady) \<Rightarrow>
          if ctl_epoch ctl = epoch then
            Inr (c\<lparr>sc_pending := Some (ServerRekeyAck epoch)\<rparr>,
                 \<lparr>before_response = NoEffect,
                  response = Some (control_barrier RekeyCommit epoch), after_response = Rekey\<rparr>)
          else Inl InvalidState
      | (Client, Some (ClientRekeyCommit epoch), RekeyCommit) \<Rightarrow>
          if ctl_epoch ctl = epoch then
            Inr (c\<lparr>sc_epoch := epoch, sc_pending := None\<rparr>,
                 \<lparr>before_response = Rekey,
                  response = Some (control_barrier RekeyAck epoch), after_response = NoEffect\<rparr>)
          else Inl InvalidState
      | (Server, Some (ServerRekeyAck epoch), RekeyAck) \<Rightarrow>
          if ctl_epoch ctl = epoch then
            Inr (c\<lparr>sc_epoch := epoch, sc_pending := None\<rparr>,
                 \<lparr>before_response = AdvanceEpoch, response = None, after_response = NoEffect\<rparr>)
          else Inl InvalidState
      | _ \<Rightarrow> Inl InvalidState)"

end
