(* ===== verification/Tcp_Session.thy ===== *)
theory Tcp_Session
  imports Frame_Codec Security_Transition Secure_Channel Event_Queue
begin

text \<open>
  The established TCP session of \<^verbatim>\<open>rnet-transport/src/adaptive_tcp_session.rs\<close>: record I/O,
  the inbound handler, the outbound and security-command branches of the session loop, and
  two such sessions joined by two byte streams that may be cut anywhere. The Noise cipher
  states are parameters.
\<close>

section \<open>Records on the wire\<close>

fun map_security_error :: "security_error \<Rightarrow> error_code" where
  "map_security_error PeerKeyMismatchE = PeerKeyMismatch"
| "map_security_error InvalidStateE = HandshakeFailed"
| "map_security_error CryptoE = CryptoError"
| "map_security_error ReplayDetectedE = ReplayDetected"

definition write_wire :: "sec_record \<Rightarrow> nat \<Rightarrow> bytes result" where
  "write_wire r max_payload =
     (case encode_record r max_payload of
        Inl e \<Rightarrow> Inl e
      | Inr encoded \<Rightarrow>
          if u32_max < length encoded then Inl MessageTooLarge
          else Inr (u32_be (word_of_nat (length encoded)) @ encoded))"

definition write_protected ::
    "('k \<Rightarrow> bytes \<Rightarrow> ('k \<times> bytes) option) \<Rightarrow> 'k secure_transport \<Rightarrow> u64 \<Rightarrow> protected_kind \<Rightarrow> bytes \<Rightarrow>
      nat \<Rightarrow> ('k secure_transport \<times> bytes) result" where
  "write_protected wr tr epoch kind payload max_payload =
     (case encode_protected \<lparr>pm_kind = kind, pm_payload = payload\<rparr> max_payload of
        Inl e \<Rightarrow> Inl e
      | Inr inner \<Rightarrow>
          (case st_encrypt wr inner tr of
             Inl e \<Rightarrow> Inl (map_security_error e)
           | Inr (tr1, ciphertext) \<Rightarrow>
               (case write_wire \<lparr>rec_kind = Protected, rec_epoch = epoch, rec_payload = ciphertext\<rparr>
                       (max_payload + 64) of
                  Inl e \<Rightarrow> Inl e
                | Inr bs \<Rightarrow> Inr (tr1, bs))))"

definition decrypt_protected ::
    "('k \<Rightarrow> bytes \<Rightarrow> ('k \<times> bytes) option) \<Rightarrow> 'k secure_transport \<Rightarrow> sec_record \<Rightarrow> nat \<Rightarrow>
      ('k secure_transport \<times> protected_message) result" where
  "decrypt_protected rd tr r max_payload =
     (if rec_kind r \<noteq> Protected then Inl ProtocolError
      else case st_decrypt rd (rec_payload r) tr of
        Inl e \<Rightarrow> Inl (map_security_error e)
      | Inr (tr1, plaintext) \<Rightarrow>
          (case decode_protected plaintext max_payload of
             Inl e \<Rightarrow> Inl e
           | Inr msg \<Rightarrow> Inr (tr1, msg)))"

definition write_control ::
    "('k \<Rightarrow> bytes \<Rightarrow> ('k \<times> bytes) option) \<Rightarrow> 'k secure_transport \<Rightarrow> u64 \<Rightarrow> control \<Rightarrow> nat \<Rightarrow>
      ('k secure_transport \<times> bytes) result" where
  "write_control wr tr epoch ctl max_payload =
     write_protected wr tr epoch ControlMsg (encode_control ctl) max_payload"

section \<open>Events of a session\<close>

datatype security_operation = ModeSwitch | RekeyOp

fun operation_tag :: "security_operation \<Rightarrow> u8" where
  "operation_tag ModeSwitch = 1"
| "operation_tag RekeyOp = 2"

fun completed_operation :: "control_kind \<Rightarrow> security_operation option" where
  "completed_operation SwitchCommit = Some ModeSwitch"
| "completed_operation SwitchAck = Some ModeSwitch"
| "completed_operation RekeyCommit = Some RekeyOp"
| "completed_operation RekeyAck = Some RekeyOp"
| "completed_operation _ = None"

definition session_event :: "event_type \<Rightarrow> handle \<Rightarrow> handle \<Rightarrow> instant \<Rightarrow> event" where
  "session_event t endpoint session now =
     (event_simple t now)\<lparr>ev_endpoint := endpoint, ev_session := session\<rparr>"

definition message_event_with_integrity ::
    "handle \<Rightarrow> handle \<Rightarrow> frame \<Rightarrow> bool \<Rightarrow> instant \<Rightarrow> event" where
  "message_event_with_integrity endpoint session fr verified now =
     \<lparr>ev_type = Message, ev_endpoint = endpoint, ev_session = session,
      ev_correlation_id = hdr_correlation_id (frame_hdr fr), ev_status = Ok_Status,
      ev_data = frame_body fr, ev_integrity_verified = verified, ev_queued_at = now\<rparr>"

definition game_control_event :: "handle \<Rightarrow> handle \<Rightarrow> bytes \<Rightarrow> instant \<Rightarrow> event" where
  "game_control_event endpoint session data now =
     (session_event GameControlEvent endpoint session now)\<lparr>ev_data := data\<rparr>"

definition security_changed_event ::
    "handle \<Rightarrow> handle \<Rightarrow> security_operation \<Rightarrow> security_mode \<Rightarrow> u64 \<Rightarrow> instant \<Rightarrow> event" where
  "security_changed_event endpoint session op mode epoch now =
     (session_event SecurityChanged endpoint session now)
       \<lparr>ev_data := [mode_tag mode] @ u64_be epoch @ [operation_tag op]\<rparr>"

record security_change =
  chg_operation :: security_operation
  chg_mode :: security_mode
  chg_epoch :: u64

definition security_change_from_event :: "event \<Rightarrow> security_change result" where
  "security_change_from_event ev =
     (if ev_type ev \<noteq> SecurityChanged \<or> length (ev_data ev) \<noteq> 10 then Inl InvalidArgument
      else case mode_try_from (ev_data ev ! 0) of
        Inl e \<Rightarrow> Inl e
      | Inr mode \<Rightarrow>
          (let epoch = u64_from_be (subslice 1 9 (ev_data ev))
           in if ev_data ev ! 9 = 1
              then Inr \<lparr>chg_operation = ModeSwitch, chg_mode = mode, chg_epoch = epoch\<rparr>
              else if ev_data ev ! 9 = 2
              then Inr \<lparr>chg_operation = RekeyOp, chg_mode = mode, chg_epoch = epoch\<rparr>
              else Inl InvalidArgument))"

section \<open>The session\<close>

record 'k tcp_session =
  ts_controller :: controller
  ts_transport :: "'k secure_transport"
  ts_reader :: record_reader

record session_ids =
  id_endpoint :: handle
  id_session :: handle
  id_max_body :: nat

definition max_payload_of :: "nat \<Rightarrow> nat" where
  "max_payload_of max_body = max_body + HEADER_LEN + 64"

definition apply_effect :: "('k \<Rightarrow> 'k) \<Rightarrow> effect \<Rightarrow> 'k secure_transport \<Rightarrow> 'k secure_transport" where
  "apply_effect rk eff tr =
     (if eff = Rekey then st_rekey_outgoing rk (st_rekey_incoming rk tr) else tr)"

text \<open>
  The result of a handler: the session after it, the bytes written to the stream and the
  events published, or the error that closes the session.
\<close>

type_synonym 'k tcp_out = "('k tcp_session \<times> bytes \<times> event list) result"

definition handle_control ::
    "('k \<Rightarrow> bytes \<Rightarrow> ('k \<times> bytes) option) \<Rightarrow> ('k \<Rightarrow> 'k) \<Rightarrow> session_ids \<Rightarrow> instant \<Rightarrow>
      'k tcp_session \<Rightarrow> 'k secure_transport \<Rightarrow> sec_record \<Rightarrow> bytes \<Rightarrow> 'k tcp_out" where
  "handle_control wr rk ids now s tr r payload =
     (case decode_control payload of
        Inl e \<Rightarrow> Inl e
      | Inr ctl \<Rightarrow>
          (case handle ctl (ts_controller s) of
             Inl e \<Rightarrow> Inl e
           | Inr (c1, t) \<Rightarrow>
               (let tr1 = apply_effect rk (before_response t) tr
                in case (case response t of
                      None \<Rightarrow> Inr (tr1, [])
                    | Some resp \<Rightarrow>
                        write_control wr tr1 (rec_epoch r) resp (max_payload_of (id_max_body ids))) of
                  Inl e \<Rightarrow> Inl e
                | Inr (tr2, out) \<Rightarrow>
                    Inr (s\<lparr>ts_controller := c1,
                           ts_transport := apply_effect rk (after_response t) tr2\<rparr>,
                         out,
                         if is_transitioning c1 then []
                         else case completed_operation (ctl_kind ctl) of
                           None \<Rightarrow> []
                         | Some op \<Rightarrow>
                             [security_changed_event (id_endpoint ids) (id_session ids) op
                                (sc_mode c1) (sc_epoch c1) now]))))"

definition process_inbound ::
    "('k \<Rightarrow> bytes \<Rightarrow> ('k \<times> bytes) option) \<Rightarrow> ('k \<Rightarrow> bytes \<Rightarrow> ('k \<times> bytes) option) \<Rightarrow> ('k \<Rightarrow> 'k) \<Rightarrow>
      session_ids \<Rightarrow> instant \<Rightarrow> bool \<Rightarrow> 'k tcp_session \<Rightarrow> sec_record \<Rightarrow> 'k tcp_out" where
  "process_inbound wr rd rk ids now active s r =
     (let c = ts_controller s; max_payload = max_payload_of (id_max_body ids)
      in if \<not> active \<or> rec_epoch r \<noteq> sc_epoch c then Inl ProtocolError
         else case (if rec_kind r = PlainData \<and> sc_mode c = Plaintext
                    then Inr (ts_transport s, \<lparr>pm_kind = Data, pm_payload = rec_payload r\<rparr>)
                    else if rec_kind r = Protected
                    then decrypt_protected rd (ts_transport s) r max_payload
                    else Inl ProtocolError) of
           Inl e \<Rightarrow> Inl e
         | Inr (tr, msg) \<Rightarrow>
             (case pm_kind msg of
                Data \<Rightarrow>
                  if rec_kind r = Protected \<and> sc_mode c \<noteq> Encrypted then Inl ProtocolError
                  else (case decode_datagram (pm_payload msg) (id_max_body ids) of
                          Inl e \<Rightarrow> Inl e
                        | Inr fr \<Rightarrow>
                            Inr (s\<lparr>ts_transport := tr\<rparr>, [],
                                 [message_event_with_integrity (id_endpoint ids) (id_session ids) fr
                                    (rec_kind r = Protected) now]))
              | GameControl \<Rightarrow>
                  if rec_kind r = Protected then
                    (if id_max_body ids < length (pm_payload msg) then Inl MessageTooLarge
                     else Inr (s\<lparr>ts_transport := tr\<rparr>, [],
                               [game_control_event (id_endpoint ids) (id_session ids)
                                  (pm_payload msg) now]))
                  else Inl ProtocolError
              | ControlMsg \<Rightarrow> handle_control wr rk ids now s tr r (pm_payload msg)
              | AuthDecision \<Rightarrow> Inl ProtocolError
              | AuthAck \<Rightarrow> Inl ProtocolError))"

text \<open>The top of the session loop: take one complete record, decode and process it.\<close>

definition tcp_receive ::
    "('k \<Rightarrow> bytes \<Rightarrow> ('k \<times> bytes) option) \<Rightarrow> ('k \<Rightarrow> bytes \<Rightarrow> ('k \<times> bytes) option) \<Rightarrow> ('k \<Rightarrow> 'k) \<Rightarrow>
      session_ids \<Rightarrow> instant \<Rightarrow> bool \<Rightarrow> 'k tcp_session \<Rightarrow> 'k tcp_out" where
  "tcp_receive wr rd rk ids now active s =
     (case rr_take (ts_reader s) of
        Inl e \<Rightarrow> Inl e
      | Inr (rd1, None) \<Rightarrow> Inr (s\<lparr>ts_reader := rd1\<rparr>, [], [])
      | Inr (rd1, Some encoded) \<Rightarrow>
          (case decode_record encoded (max_payload_of (id_max_body ids) + 64) of
             Inl e \<Rightarrow> Inl e
           | Inr r \<Rightarrow> process_inbound wr rd rk ids now active (s\<lparr>ts_reader := rd1\<rparr>) r))"

datatype outbound_kind = OutData | OutGameControl

text \<open>The outbound branch; the loop takes it only while no transition is in flight.\<close>

definition tcp_send ::
    "('k \<Rightarrow> bytes \<Rightarrow> ('k \<times> bytes) option) \<Rightarrow> session_ids \<Rightarrow> outbound_kind \<Rightarrow> bytes \<Rightarrow>
      'k tcp_session \<Rightarrow> ('k tcp_session \<times> bytes) result" where
  "tcp_send wr ids kind bs s =
     (let c = ts_controller s; max_payload = max_payload_of (id_max_body ids)
      in case (case kind of
                 OutGameControl \<Rightarrow>
                   write_protected wr (ts_transport s) (sc_epoch c) GameControl bs max_payload
               | OutData \<Rightarrow>
                   if sc_mode c = Encrypted
                   then write_protected wr (ts_transport s) (sc_epoch c) Data bs max_payload
                   else (case write_wire \<lparr>rec_kind = PlainData, rec_epoch = sc_epoch c,
                                           rec_payload = bs\<rparr> max_payload of
                           Inl e \<Rightarrow> Inl e
                         | Inr out \<Rightarrow> Inr (ts_transport s, out))) of
           Inl e \<Rightarrow> Inl e
         | Inr (tr, out) \<Rightarrow> Inr (s\<lparr>ts_transport := tr\<rparr>, out))"

datatype security_command = SetModeCmd security_mode | RekeyCmd

text \<open>The command branch; a rejected command is dropped and the loop continues.\<close>

definition tcp_command ::
    "('k \<Rightarrow> bytes \<Rightarrow> ('k \<times> bytes) option) \<Rightarrow> session_ids \<Rightarrow> security_command \<Rightarrow>
      'k tcp_session \<Rightarrow> ('k tcp_session \<times> bytes) result" where
  "tcp_command wr ids cmd s =
     (case (case cmd of
              SetModeCmd mode \<Rightarrow> begin_switch mode (ts_controller s)
            | RekeyCmd \<Rightarrow> begin_rekey (ts_controller s)) of
        Inl e \<Rightarrow> Inr (s, [])
      | Inr (c1, ctl) \<Rightarrow>
          (case write_control wr (ts_transport s) (sc_epoch c1) ctl
                  (max_payload_of (id_max_body ids)) of
             Inl e \<Rightarrow> Inl IoError
           | Inr (tr, out) \<Rightarrow> Inr (s\<lparr>ts_controller := c1, ts_transport := tr\<rparr>, out)))"

end
