(* ===== verification/Tcp_Pair.thy ===== *)
theory Tcp_Pair
  imports Tcp_Session
begin

text \<open>
  Two established TCP sessions, a server and a client, joined by two byte streams. The
  streams deliver bytes in order but cut anywhere; the sides interleave freely. Shown: no
  reachable exchange ever fails, business data arrives exactly once and in order through any
  number of mode switches and rekeys, and both sides agree on epoch, mode and keys whenever
  no transition is in flight.
\<close>

section \<open>The system\<close>

text \<open>The parameters of a system: the Noise cipher-state operations and the two sessions' ids.\<close>

record 'k env =
  seal :: "'k \<Rightarrow> bytes \<Rightarrow> ('k \<times> bytes) option"
  unseal :: "'k \<Rightarrow> bytes \<Rightarrow> ('k \<times> bytes) option"
  rekey :: "'k \<Rightarrow> 'k"
  srv_ids :: session_ids
  cli_ids :: session_ids
  clock :: instant

record 'k net =
  srv :: "'k tcp_session"
  cli :: "'k tcp_session"
  to_cli :: bytes
  to_srv :: bytes
  srv_log :: "event list"
  cli_log :: "event list"
  srv_sent :: "event list"
  cli_sent :: "event list"

text \<open>What a send publishes at the other side, and which sends the upper layer may make.\<close>

definition sendable :: "nat \<Rightarrow> outbound_kind \<Rightarrow> bytes \<Rightarrow> bool" where
  "sendable max_body kind bs \<longleftrightarrow>
     (case kind of
        OutData \<Rightarrow> (case decode_datagram bs max_body of Inl _ \<Rightarrow> False | Inr _ \<Rightarrow> True)
      | OutGameControl \<Rightarrow> length bs \<le> max_body)"

definition business_event ::
    "session_ids \<Rightarrow> instant \<Rightarrow> security_mode \<Rightarrow> outbound_kind \<Rightarrow> bytes \<Rightarrow> event" where
  "business_event ids now mode kind bs =
     (case kind of
        OutData \<Rightarrow>
          message_event_with_integrity (id_endpoint ids) (id_session ids)
            (projr (decode_datagram bs (id_max_body ids))) (mode = Encrypted) now
      | OutGameControl \<Rightarrow> game_control_event (id_endpoint ids) (id_session ids) bs now)"

definition business :: "event list \<Rightarrow> event list" where
  "business evs = filter (\<lambda>ev. ev_type ev \<noteq> SecurityChanged) evs"

definition extend_reader :: "bytes \<Rightarrow> 'k tcp_session \<Rightarrow> 'k tcp_session" where
  "extend_reader chunk s = s\<lparr>ts_reader := rr_extend chunk (ts_reader s)\<rparr>"

inductive net_step :: "'k env \<Rightarrow> 'k net \<Rightarrow> 'k net \<Rightarrow> bool" for E where
  srv_send:
    "\<not> is_transitioning (ts_controller (srv n)) \<Longrightarrow> sendable (id_max_body (srv_ids E)) kind bs \<Longrightarrow>
     tcp_send (seal E) (srv_ids E) kind bs (srv n) = Inr (s, out) \<Longrightarrow>
     net_step E n (n\<lparr>srv := s, to_cli := to_cli n @ out,
       srv_sent := srv_sent n @
         [business_event (cli_ids E) (clock E) (sc_mode (ts_controller (srv n))) kind bs]\<rparr>)"
| cli_send:
    "\<not> is_transitioning (ts_controller (cli n)) \<Longrightarrow> sendable (id_max_body (cli_ids E)) kind bs \<Longrightarrow>
     tcp_send (seal E) (cli_ids E) kind bs (cli n) = Inr (s, out) \<Longrightarrow>
     net_step E n (n\<lparr>cli := s, to_srv := to_srv n @ out,
       cli_sent := cli_sent n @
         [business_event (srv_ids E) (clock E) (sc_mode (ts_controller (cli n))) kind bs]\<rparr>)"
| srv_command:
    "\<not> is_transitioning (ts_controller (srv n)) \<Longrightarrow>
     tcp_command (seal E) (srv_ids E) cmd (srv n) = Inr (s, out) \<Longrightarrow>
     net_step E n (n\<lparr>srv := s, to_cli := to_cli n @ out\<rparr>)"
| cli_bytes:
    "to_cli n = chunk @ rest \<Longrightarrow>
     net_step E n (n\<lparr>cli := extend_reader chunk (cli n), to_cli := rest\<rparr>)"
| srv_bytes:
    "to_srv n = chunk @ rest \<Longrightarrow>
     net_step E n (n\<lparr>srv := extend_reader chunk (srv n), to_srv := rest\<rparr>)"
| cli_receive:
    "tcp_receive (seal E) (unseal E) (rekey E) (cli_ids E) (clock E) True (cli n) = Inr (s, out, evs) \<Longrightarrow>
     net_step E n (n\<lparr>cli := s, to_srv := to_srv n @ out, cli_log := cli_log n @ evs\<rparr>)"
| srv_receive:
    "tcp_receive (seal E) (unseal E) (rekey E) (srv_ids E) (clock E) True (srv n) = Inr (s, out, evs) \<Longrightarrow>
     net_step E n (n\<lparr>srv := s, to_cli := to_cli n @ out, srv_log := srv_log n @ evs\<rparr>)"

inductive_cases net_stepE: "net_step E n n'"

definition session_start :: "role \<Rightarrow> security_mode \<Rightarrow> 'k \<Rightarrow> 'k \<Rightarrow> nat \<Rightarrow> 'k tcp_session" where
  "session_start r mode tx rx max_body =
     \<lparr>ts_controller = sc_new r mode 1, ts_transport = \<lparr>st_tx = tx, st_rx = rx\<rparr>,
      ts_reader = rr_new (max_payload_of max_body + 84)\<rparr>"

definition net_start :: "'k env \<Rightarrow> security_mode \<Rightarrow> 'k \<Rightarrow> 'k \<Rightarrow> 'k net" where
  "net_start E mode k1 k2 =
     \<lparr>srv = session_start Server mode k1 k2 (id_max_body (srv_ids E)),
      cli = session_start Client mode k2 k1 (id_max_body (cli_ids E)),
      to_cli = [], to_srv = [], srv_log = [], cli_log = [], srv_sent = [], cli_sent = []\<rparr>"

definition reachable :: "'k env \<Rightarrow> security_mode \<Rightarrow> 'k \<Rightarrow> 'k \<Rightarrow> 'k net \<Rightarrow> bool" where
  "reachable E mode k1 k2 n \<longleftrightarrow> (net_step E)\<^sup>*\<^sup>* (net_start E mode k1 k2) n"

text \<open>
  What is relied on of the cipher: opening with the matching state returns the plaintext and
  moves to the matching next state, sealing adds a 16-byte tag, and a 15-byte transition
  control can be sealed. Both sides are configured with the same body limit.
\<close>

definition good_env :: "'k env \<Rightarrow> bool" where
  "good_env E \<longleftrightarrow>
     (\<forall>k p k' c. seal E k p = Some (k', c) \<longrightarrow> unseal E k c = Some (k', p) \<and> length c = length p + 16) \<and>
     (\<forall>k p. length p = 15 \<longrightarrow> seal E k p \<noteq> None) \<and>
     id_max_body (cli_ids E) = id_max_body (srv_ids E) \<and>
     id_max_body (srv_ids E) + 512 \<le> u32_max"

section \<open>What a record carries\<close>

datatype item = Ctl control | Biz outbound_kind bytes

type_synonym tagged = "security_mode \<times> u64 \<times> item"

fun item_message :: "item \<Rightarrow> protected_message" where
  "item_message (Ctl c) = \<lparr>pm_kind = ControlMsg, pm_payload = encode_control c\<rparr>"
| "item_message (Biz OutData bs) = \<lparr>pm_kind = Data, pm_payload = bs\<rparr>"
| "item_message (Biz OutGameControl bs) = \<lparr>pm_kind = GameControl, pm_payload = bs\<rparr>"

inductive carries :: "'k env \<Rightarrow> 'k \<Rightarrow> tagged \<Rightarrow> bytes \<Rightarrow> 'k \<Rightarrow> bool" for E where
  sealed:
    "encode_protected (item_message it) mp = Inr inner \<Longrightarrow> seal E k inner = Some (k', c) \<Longrightarrow>
     encode_record \<lparr>rec_kind = Protected, rec_epoch = e, rec_payload = c\<rparr> (mp + 64) = Inr enc \<Longrightarrow>
     mp = max_payload_of (id_max_body (srv_ids E)) \<Longrightarrow>
     (\<And>bs. it = Biz OutData bs \<Longrightarrow> mode = Encrypted) \<Longrightarrow>
     carries E k (mode, e, it) enc k'"
| plain:
    "encode_record \<lparr>rec_kind = PlainData, rec_epoch = e, rec_payload = bs\<rparr> mp = Inr enc \<Longrightarrow>
     mp = max_payload_of (id_max_body (srv_ids E)) \<Longrightarrow>
     carries E k (Plaintext, e, Biz OutData bs) enc k"

inductive chain :: "'k env \<Rightarrow> 'k \<Rightarrow> tagged list \<Rightarrow> bytes list \<Rightarrow> 'k \<Rightarrow> bool" for E where
  empty: "chain E k [] [] k"
| link: "carries E k it enc k1 \<Longrightarrow> chain E k1 its encs k2 \<Longrightarrow> chain E k (it # its) (enc # encs) k2"

inductive_simps chain_Nil [simp]: "chain E k [] encs k'"
inductive_simps chain_Cons [simp]: "chain E k (it # its) encs k'"

lemma chain_snoc:
  "chain E k its encs k1 \<Longrightarrow> carries E k1 it enc k2 \<Longrightarrow> chain E k (its @ [it]) (encs @ [enc]) k2"
  by (induction rule: chain.induct) auto

lemma chain_length: "chain E k its encs k' \<Longrightarrow> length encs = length its"
  by (induction rule: chain.induct) auto

abbreviation wire_limit :: "'k env \<Rightarrow> nat" where
  "wire_limit E \<equiv> max_payload_of (id_max_body (srv_ids E)) + 84"

lemma encode_record_length:
  "encode_record r m = Inr enc \<Longrightarrow> length enc = 20 + length (rec_payload r) \<and>
    length (rec_payload r) \<le> m"
  by (auto simp: encode_record_Inr_iff)

lemma carries_frameable:
  assumes "good_env E" and "carries E k it enc k'"
  shows "frameable (wire_limit E) enc"
  using assms(2)
proof cases
  case (sealed it mp inner c e mode)
  then show ?thesis
    using assms(1) encode_record_length [OF sealed(4)]
    by (auto simp: frameable_def good_env_def max_payload_of_def HEADER_LEN_def)
next
  case (plain e bs mp)
  then show ?thesis
    using assms(1) encode_record_length [OF plain(3)]
    by (auto simp: frameable_def good_env_def max_payload_of_def HEADER_LEN_def)
qed

section \<open>Sending\<close>

lemma write_wire_Inr:
  "write_wire r m = Inr out \<Longrightarrow> \<exists>enc. encode_record r m = Inr enc \<and> out = framed enc"
  by (auto simp: write_wire_def framed_def split: sum.splits if_splits)

lemma write_protected_Inr:
  assumes "write_protected (seal E) tr e pk payload mp = Inr (tr', out)"
  shows "\<exists>inner c enc k'. encode_protected \<lparr>pm_kind = pk, pm_payload = payload\<rparr> mp = Inr inner \<and>
    seal E (st_tx tr) inner = Some (k', c) \<and> tr' = tr\<lparr>st_tx := k'\<rparr> \<and>
    encode_record \<lparr>rec_kind = Protected, rec_epoch = e, rec_payload = c\<rparr> (mp + 64) = Inr enc \<and>
    out = framed enc"
  using assms
  by (auto simp: write_protected_def st_encrypt_def split: sum.splits option.splits
      dest!: write_wire_Inr)

lemma write_item:
  assumes "write_protected (seal E) tr e (pm_kind (item_message it)) (pm_payload (item_message it))
      (max_payload_of (id_max_body (srv_ids E))) = Inr (tr', out)"
    and "\<And>bs. it = Biz OutData bs \<Longrightarrow> mode = Encrypted"
  shows "\<exists>enc. out = framed enc \<and> carries E (st_tx tr) (mode, e, it) enc (st_tx tr') \<and>
    st_rx tr' = st_rx tr"
proof -
  obtain inner c enc k' where w:
    "encode_protected (item_message it) (max_payload_of (id_max_body (srv_ids E))) = Inr inner"
    "seal E (st_tx tr) inner = Some (k', c)" "tr' = tr\<lparr>st_tx := k'\<rparr>"
    "encode_record \<lparr>rec_kind = Protected, rec_epoch = e, rec_payload = c\<rparr>
       (max_payload_of (id_max_body (srv_ids E)) + 64) = Inr enc" "out = framed enc"
    using write_protected_Inr [OF assms(1)] by (cases "item_message it") auto
  have "carries E (st_tx tr) (mode, e, it) enc k'"
    by (rule carries.sealed [OF w(1,2,4) refl]) (rule assms(2))
  then show ?thesis using w(3,5) by auto
qed

lemma write_control_carries:
  assumes "write_control (seal E) tr e ctl (max_payload_of (id_max_body (srv_ids E))) = Inr (tr', out)"
  shows "\<exists>enc. out = framed enc \<and> carries E (st_tx tr) (mode, e, Ctl ctl) enc (st_tx tr') \<and>
    st_rx tr' = st_rx tr"
  using assms write_item [of E tr e "Ctl ctl" tr' out mode] by (simp add: write_control_def)

text \<open>Sealing a control never fails, given the cipher accepts 15-byte messages.\<close>

lemma write_control_succeeds:
  assumes "good_env E"
  shows "\<exists>tr' out. write_control (seal E) tr e ctl (max_payload_of (id_max_body (srv_ids E))) =
    Inr (tr', out)"
proof -
  let ?mp = "max_payload_of (id_max_body (srv_ids E))"
  have l: "length (encode_control ctl) = 10" by (simp add: encode_control_def)
  let ?inner = "[protected_kind_tag ControlMsg] @ u32_be (word_of_nat 10) @ encode_control ctl"
  have i: "encode_protected \<lparr>pm_kind = ControlMsg, pm_payload = encode_control ctl\<rparr> ?mp = Inr ?inner"
    by (simp add: encode_protected_Inr_iff l max_payload_of_def u32_max_def)
  obtain k' c where s: "seal E (st_tx tr) ?inner = Some (k', c)"
    using assms l by (force simp: good_env_def)
  have "length c = 31" using assms s l by (force simp: good_env_def)
  then show ?thesis
    using i s by (simp add: write_control_def write_protected_def st_encrypt_def write_wire_def
        encode_record_def validate_payload_len_def max_payload_of_def u32_max_def HEADER_LEN_def)
qed

lemma tcp_send_carries:
  assumes "tcp_send (seal E) ids kind bs s = Inr (s', out)"
    and "id_max_body ids = id_max_body (srv_ids E)"
  shows "\<exists>enc. out = framed enc \<and>
    carries E (st_tx (ts_transport s))
      (sc_mode (ts_controller s), sc_epoch (ts_controller s), Biz kind bs) enc
      (st_tx (ts_transport s')) \<and>
    s' = s\<lparr>ts_transport := ts_transport s'\<rparr> \<and> st_rx (ts_transport s') = st_rx (ts_transport s)"
proof -
  let ?c = "ts_controller s" and ?mp = "max_payload_of (id_max_body (srv_ids E))"
  consider (sealed) tr where "kind = OutData \<Longrightarrow> sc_mode ?c = Encrypted"
      "write_protected (seal E) (ts_transport s) (sc_epoch ?c) (pm_kind (item_message (Biz kind bs)))
         (pm_payload (item_message (Biz kind bs))) ?mp = Inr (tr, out)" "s' = s\<lparr>ts_transport := tr\<rparr>"
    | (plain) "kind = OutData" "sc_mode ?c = Plaintext" "s' = s"
      "write_wire \<lparr>rec_kind = PlainData, rec_epoch = sc_epoch ?c, rec_payload = bs\<rparr> ?mp = Inr out"
    using assms
    by (cases kind; cases "sc_mode ?c")
      (auto simp: tcp_send_def Let_def split: sum.splits outbound_kind.splits)
  then show ?thesis
  proof cases
    case sealed
    then show ?thesis
      using write_item [OF sealed(2), of "sc_mode ?c"] by auto
  next
    case plain
    then show ?thesis using write_wire_Inr [OF plain(4)] by (auto intro: carries.plain)
  qed
qed

section \<open>Receiving\<close>

lemma decode_record_mono: "encode_record r m = Inr enc \<Longrightarrow> m \<le> m' \<Longrightarrow> decode_record enc m' = Inr r"
  by (rule decode_encode_record) (auto simp: encode_record_Inr_iff)

lemma carries_record:
  assumes "carries E k (mode, e, it) enc k'"
  shows "\<exists>r. decode_record enc (max_payload_of (id_max_body (srv_ids E)) + 64) = Inr r \<and> rec_epoch r = e"
  using assms
  by cases (auto dest!: decode_record_mono
      [where m' = "max_payload_of (id_max_body (srv_ids E)) + 64"])

lemma decrypt_item:
  assumes "good_env E"
    and "encode_protected (item_message it) mp = Inr inner" and "seal E (st_rx tr) inner = Some (k', c)"
  shows "decrypt_protected (unseal E) tr \<lparr>rec_kind = Protected, rec_epoch = e, rec_payload = c\<rparr> mp =
    Inr (tr\<lparr>st_rx := k'\<rparr>, item_message it)"
  using assms decode_encode_protected [OF assms(2)]
  by (auto simp: decrypt_protected_def st_decrypt_def good_env_def)

text \<open>A business record is delivered when receiver and record agree on mode, epoch and key.\<close>

lemma process_business:
  assumes "good_env E" and "id_max_body ids = id_max_body (srv_ids E)"
    and "carries E (st_rx (ts_transport s)) (sc_mode c, sc_epoch c, Biz kind bs) enc k'"
    and "c = ts_controller s" and "sendable (id_max_body ids) kind bs"
    and "decode_record enc (max_payload_of (id_max_body (srv_ids E)) + 64) = Inr r"
  shows "process_inbound (seal E) (unseal E) (rekey E) ids now True s r =
    Inr (s\<lparr>ts_transport := (ts_transport s)\<lparr>st_rx := k'\<rparr>\<rparr>, [],
         [business_event ids now (sc_mode c) kind bs])"
  using assms(3)
proof cases
  case (sealed mp inner ct)
  have r: "r = \<lparr>rec_kind = Protected, rec_epoch = sc_epoch c, rec_payload = ct\<rparr>"
    using decode_record_mono [OF sealed(3)] sealed(4) assms(6) by auto
  note d = decrypt_item [OF assms(1) sealed(1,2), of "sc_epoch c"]
  show ?thesis
    using d sealed(4,5) assms(2,4,5)
    by (cases kind)
      (auto simp: process_inbound_def Let_def r business_event_def sendable_def split: sum.splits)
next
  case (plain mp)
  have r: "r = \<lparr>rec_kind = PlainData, rec_epoch = sc_epoch c, rec_payload = bs\<rparr>"
    using decode_record_mono [OF plain(4)] plain(5) assms(6) by auto
  show ?thesis
    using plain(1-3) assms(4,5)
    by (auto simp: process_inbound_def Let_def r business_event_def sendable_def split: sum.splits)
qed

lemma process_control:
  assumes "good_env E" and "id_max_body ids = id_max_body (srv_ids E)"
    and "carries E (st_rx (ts_transport s)) (mode, sc_epoch (ts_controller s), Ctl ctl) enc k'"
    and "decode_record enc (max_payload_of (id_max_body (srv_ids E)) + 64) = Inr r"
  shows "rec_epoch r = sc_epoch (ts_controller s) \<and>
    process_inbound (seal E) (unseal E) (rekey E) ids now True s r =
    handle_control (seal E) (rekey E) ids now s ((ts_transport s)\<lparr>st_rx := k'\<rparr>) r (encode_control ctl)"
  using assms(3)
proof cases
  case (sealed mp inner ct)
  have r: "r = \<lparr>rec_kind = Protected, rec_epoch = sc_epoch (ts_controller s), rec_payload = ct\<rparr>"
    using decode_record_mono [OF sealed(3)] sealed(4) assms(4) by auto
  note d = decrypt_item [OF assms(1) sealed(1,2), of "sc_epoch (ts_controller s)"]
  show ?thesis using d sealed(4) assms(2) by (simp add: process_inbound_def Let_def r)
qed

section \<open>The barriers of one change\<close>

datatype change = Sw security_mode | Rk

fun propose :: "change \<Rightarrow> u64 \<Rightarrow> control" where
  "propose (Sw m) e = control_switch SwitchPropose e m"
| "propose Rk e = control_barrier RekeyPropose e"

fun ready :: "change \<Rightarrow> u64 \<Rightarrow> control" where
  "ready (Sw m) e = control_barrier SwitchReady e"
| "ready Rk e = control_barrier RekeyReady e"

fun commit :: "change \<Rightarrow> u64 \<Rightarrow> control" where
  "commit (Sw m) e = control_barrier SwitchCommit e"
| "commit Rk e = control_barrier RekeyCommit e"

fun ack :: "change \<Rightarrow> u64 \<Rightarrow> control" where
  "ack (Sw m) e = control_barrier SwitchAck e"
| "ack Rk e = control_barrier RekeyAck e"

fun srv_ready :: "change \<Rightarrow> u64 \<Rightarrow> pending" where
  "srv_ready (Sw m) e = ServerSwitchReady e m"
| "srv_ready Rk e = ServerRekeyReady e"

fun srv_ack :: "change \<Rightarrow> u64 \<Rightarrow> pending" where
  "srv_ack (Sw m) e = ServerSwitchAck e m"
| "srv_ack Rk e = ServerRekeyAck e"

fun cli_commit :: "change \<Rightarrow> u64 \<Rightarrow> pending" where
  "cli_commit (Sw m) e = ClientSwitchCommit e m"
| "cli_commit Rk e = ClientRekeyCommit e"

fun new_mode :: "change \<Rightarrow> security_mode \<Rightarrow> security_mode" where
  "new_mode (Sw m) old = m"
| "new_mode Rk old = old"

fun rotated :: "('k \<Rightarrow> 'k) \<Rightarrow> change \<Rightarrow> 'k \<Rightarrow> 'k" where
  "rotated rk (Sw m) k = k"
| "rotated rk Rk k = rk k"

fun change_effect :: "change \<Rightarrow> effect" where
  "change_effect (Sw m) = SetMode m"
| "change_effect Rk = Rekey"

lemmas barrier_defs = control_switch_def control_barrier_def handle_def validate_next_epoch_def
  next_epoch_def transition_response_def

lemma handle_propose:
  assumes "sc_role c = Client" and "sc_pending c = None" and "u64_checked_succ (sc_epoch c) = Some e"
  shows "handle (propose ch e) c =
    Inr (c\<lparr>sc_pending := Some (cli_commit ch e)\<rparr>, transition_response (ready ch e))"
  using assms by (cases ch) (simp_all add: barrier_defs)

lemma handle_ready:
  assumes "sc_role c = Server" and "sc_pending c = Some (srv_ready ch e)"
  shows "\<exists>eff. handle (ready ch e) c =
    Inr (c\<lparr>sc_pending := Some (srv_ack ch e)\<rparr>,
         \<lparr>before_response = NoEffect, response = Some (commit ch e), after_response = eff\<rparr>) \<and>
    (\<forall>tr. apply_effect rk eff tr =
       tr\<lparr>st_tx := rotated rk ch (st_tx tr), st_rx := rotated rk ch (st_rx tr)\<rparr>)"
  using assms
  by (cases ch) (simp_all add: barrier_defs apply_effect_def st_rekey_outgoing_def st_rekey_incoming_def)

lemma handle_commit:
  assumes "sc_role c = Client" and "sc_pending c = Some (cli_commit ch e)"
  shows "\<exists>eff. handle (commit ch e) c =
    Inr (c\<lparr>sc_mode := new_mode ch (sc_mode c), sc_epoch := e, sc_pending := None\<rparr>,
         \<lparr>before_response = eff, response = Some (ack ch e), after_response = NoEffect\<rparr>) \<and>
    (\<forall>tr. apply_effect rk eff tr =
       tr\<lparr>st_tx := rotated rk ch (st_tx tr), st_rx := rotated rk ch (st_rx tr)\<rparr>)"
  using assms
  by (cases ch) (simp_all add: barrier_defs apply_effect_def st_rekey_outgoing_def st_rekey_incoming_def)

lemma handle_ack:
  assumes "sc_role c = Server" and "sc_pending c = Some (srv_ack ch e)"
  shows "\<exists>eff. handle (ack ch e) c =
    Inr (c\<lparr>sc_mode := new_mode ch (sc_mode c), sc_epoch := e, sc_pending := None\<rparr>,
         \<lparr>before_response = eff, response = None, after_response = NoEffect\<rparr>) \<and>
    (\<forall>tr. apply_effect rk eff tr = tr)"
  using assms by (cases ch) (simp_all add: barrier_defs apply_effect_def)

lemma barrier_valid:
  assumes "e \<noteq> 0"
  shows "control_valid (propose ch e)" "control_valid (ready ch e)" "control_valid (commit ch e)"
    "control_valid (ack ch e)"
  using assms by (cases ch; simp add: control_valid_def control_switch_def control_barrier_def)+

lemma begin_cases:
  assumes "sc_role c = Server" and "sc_pending c = None"
    and "(case cmd of SetModeCmd mode \<Rightarrow> begin_switch mode c | RekeyCmd \<Rightarrow> begin_rekey c) = Inr (c1, ctl)"
  shows "\<exists>ch e. u64_checked_succ (sc_epoch c) = Some e \<and> sc_epoch c \<noteq> 0 \<and>
    c1 = c\<lparr>sc_pending := Some (srv_ready ch e)\<rparr> \<and> ctl = propose ch e"
proof (cases cmd)
  case (SetModeCmd mode)
  then show ?thesis using assms
    by (auto simp: begin_switch_def ensure_server_idle_def next_epoch_def
        split: if_splits option.splits intro!: exI [of _ "Sw mode"])
next
  case RekeyCmd
  then show ?thesis using assms
    by (auto simp: begin_rekey_def ensure_server_idle_def next_epoch_def
        split: if_splits option.splits intro!: exI [of _ Rk])
qed

lemma succ_nonzero: "u64_checked_succ a = Some b \<Longrightarrow> b \<noteq> 0"
  by (auto dest: u64_checked_succ_unat)

section \<open>The invariant\<close>

definition all_business :: "nat \<Rightarrow> security_mode \<Rightarrow> u64 \<Rightarrow> tagged list \<Rightarrow> bool" where
  "all_business max_body m e its \<longleftrightarrow>
     (\<forall>t \<in> set its. \<exists>kind bs. t = (m, e, Biz kind bs) \<and> sendable max_body kind bs)"

lemma all_business_simps [simp]:
  "all_business mb m e []"
  "all_business mb m e ((m', e', it) # its) \<longleftrightarrow>
     m' = m \<and> e' = e \<and> (\<exists>kind bs. it = Biz kind bs \<and> sendable mb kind bs) \<and> all_business mb m e its"
  "all_business mb m e (its @ its') \<longleftrightarrow> all_business mb m e its \<and> all_business mb m e its'"
  by (auto simp: all_business_def)

text \<open>
  The five stages of a change, from the server's last quiet moment to its next: controllers
  and keys of both sides together with what is in flight in each direction.
\<close>

inductive phase ::
    "'k env \<Rightarrow> controller \<Rightarrow> 'k secure_transport \<Rightarrow> controller \<Rightarrow> 'k secure_transport \<Rightarrow>
      tagged list \<Rightarrow> bytes list \<Rightarrow> tagged list \<Rightarrow> bytes list \<Rightarrow> bool" for E where
  idle:
    "sc_role S = Server \<Longrightarrow> sc_role C = Client \<Longrightarrow> sc_pending S = None \<Longrightarrow> sc_pending C = None \<Longrightarrow>
     sc_epoch S = sc_epoch C \<Longrightarrow> sc_mode S = sc_mode C \<Longrightarrow>
     all_business (id_max_body (srv_ids E)) (sc_mode C) (sc_epoch C) sc \<Longrightarrow>
     all_business (id_max_body (srv_ids E)) (sc_mode C) (sc_epoch C) cs \<Longrightarrow>
     chain E (st_rx tC) sc esc (st_tx tS) \<Longrightarrow> chain E (st_rx tS) cs ecs (st_tx tC) \<Longrightarrow>
     phase E S tS C tC sc esc cs ecs"
| proposed:
    "sc_role S = Server \<Longrightarrow> sc_role C = Client \<Longrightarrow> sc_pending S = Some (srv_ready ch e) \<Longrightarrow>
     sc_pending C = None \<Longrightarrow> sc_epoch S = sc_epoch C \<Longrightarrow> sc_mode S = sc_mode C \<Longrightarrow>
     u64_checked_succ (sc_epoch C) = Some e \<Longrightarrow>
     all_business (id_max_body (srv_ids E)) (sc_mode C) (sc_epoch C) sc0 \<Longrightarrow>
     sc = sc0 @ [(sc_mode C, sc_epoch C, Ctl (propose ch e))] \<Longrightarrow>
     all_business (id_max_body (srv_ids E)) (sc_mode C) (sc_epoch C) cs \<Longrightarrow>
     chain E (st_rx tC) sc esc (st_tx tS) \<Longrightarrow> chain E (st_rx tS) cs ecs (st_tx tC) \<Longrightarrow>
     phase E S tS C tC sc esc cs ecs"
| readied:
    "sc_role S = Server \<Longrightarrow> sc_role C = Client \<Longrightarrow> sc_pending S = Some (srv_ready ch e) \<Longrightarrow>
     sc_pending C = Some (cli_commit ch e) \<Longrightarrow> sc_epoch S = sc_epoch C \<Longrightarrow> sc_mode S = sc_mode C \<Longrightarrow>
     u64_checked_succ (sc_epoch C) = Some e \<Longrightarrow>
     all_business (id_max_body (srv_ids E)) (sc_mode C) (sc_epoch C) cs0 \<Longrightarrow>
     cs = cs0 @ [(sc_mode C, sc_epoch C, Ctl (ready ch e))] \<Longrightarrow>
     st_rx tC = st_tx tS \<Longrightarrow> chain E (st_rx tS) cs ecs (st_tx tC) \<Longrightarrow>
     phase E S tS C tC [] [] cs ecs"
| committed:
    "sc_role S = Server \<Longrightarrow> sc_role C = Client \<Longrightarrow> sc_pending S = Some (srv_ack ch e) \<Longrightarrow>
     sc_pending C = Some (cli_commit ch e) \<Longrightarrow> sc_epoch S = sc_epoch C \<Longrightarrow> sc_mode S = sc_mode C \<Longrightarrow>
     u64_checked_succ (sc_epoch C) = Some e \<Longrightarrow>
     carries E (st_rx tC) (sc_mode C, sc_epoch C, Ctl (commit ch e)) enc k \<Longrightarrow>
     st_tx tS = rotated (rekey E) ch k \<Longrightarrow> st_rx tS = rotated (rekey E) ch (st_tx tC) \<Longrightarrow>
     phase E S tS C tC [(sc_mode C, sc_epoch C, Ctl (commit ch e))] [enc] [] []"
| acked:
    "sc_role S = Server \<Longrightarrow> sc_role C = Client \<Longrightarrow> sc_pending S = Some (srv_ack ch e) \<Longrightarrow>
     sc_pending C = None \<Longrightarrow> u64_checked_succ (sc_epoch S) = Some e \<Longrightarrow> sc_epoch C = e \<Longrightarrow>
     sc_mode C = new_mode ch (sc_mode S) \<Longrightarrow>
     all_business (id_max_body (srv_ids E)) (sc_mode C) (sc_epoch C) cs0 \<Longrightarrow>
     cs = (sc_mode S, sc_epoch S, Ctl (ack ch e)) # cs0 \<Longrightarrow>
     st_rx tC = st_tx tS \<Longrightarrow> chain E (st_rx tS) cs ecs (st_tx tC) \<Longrightarrow>
     phase E S tS C tC [] [] cs ecs"

section \<open>Stage changes\<close>

lemma phase_srv_send:
  assumes "phase E S tS C tC sc esc cs ecs" and "\<not> is_transitioning S"
    and "carries E (st_tx tS) (sc_mode S, sc_epoch S, Biz kind bs) enc (st_tx tS')"
    and "st_rx tS' = st_rx tS" and "sendable (id_max_body (srv_ids E)) kind bs"
  shows "phase E S tS' C tC (sc @ [(sc_mode S, sc_epoch S, Biz kind bs)]) (esc @ [enc]) cs ecs"
  using assms
  by cases (auto simp: is_transitioning_def intro!: phase.idle chain_snoc)

lemma phase_cli_send:
  assumes "phase E S tS C tC sc esc cs ecs" and "\<not> is_transitioning C"
    and "carries E (st_tx tC) (sc_mode C, sc_epoch C, Biz kind bs) enc (st_tx tC')"
    and "st_rx tC' = st_rx tC" and "sendable (id_max_body (srv_ids E)) kind bs"
  shows "phase E S tS C tC' sc esc (cs @ [(sc_mode C, sc_epoch C, Biz kind bs)]) (ecs @ [enc])"
  using assms(1)
proof cases
  case idle
  then show ?thesis using assms(3-) by (auto intro!: phase.idle chain_snoc)
next
  case (proposed ch e sc0)
  then show ?thesis using assms(3-)
    by (intro phase.proposed [where ch = ch and e = e and ?sc0.0 = sc0]) (auto intro: chain_snoc)
next
  case (acked ch e cs0)
  have "chain E (st_rx tS) (cs @ [(sc_mode C, sc_epoch C, Biz kind bs)]) (ecs @ [enc]) (st_tx tC')"
    using acked assms(3) by (intro chain_snoc) auto
  then show ?thesis using acked assms(4,5)
    by (simp only: acked(1,2))
      (rule phase.acked [where ch = ch and e = e and
          ?cs0.0 = "cs0 @ [(sc_mode C, sc_epoch C, Biz kind bs)]"]; simp)
qed (use assms(2) in \<open>simp_all add: is_transitioning_def\<close>)

lemma phase_command:
  assumes "phase E S tS C tC sc esc cs ecs" and "sc_pending S = None"
    and "u64_checked_succ (sc_epoch S) = Some e"
    and "carries E (st_tx tS) (sc_mode S, sc_epoch S, Ctl (propose ch e)) enc (st_tx tS')"
    and "st_rx tS' = st_rx tS"
  shows "phase E (S\<lparr>sc_pending := Some (srv_ready ch e)\<rparr>) tS' C tC
    (sc @ [(sc_mode S, sc_epoch S, Ctl (propose ch e))]) (esc @ [enc]) cs ecs"
  using assms(1)
proof cases
  case idle
  then show ?thesis using assms
    by (intro phase.proposed [where ch = ch and e = e and ?sc0.0 = sc]) (auto intro: chain_snoc)
qed (use assms(2) in simp_all)

text \<open>The client takes the oldest record in flight.\<close>

lemma phase_cli_receive:
  assumes "phase E S tS C tC (t # sc) (enc # esc) cs ecs"
  obtains (biz) kind bs k where "t = (sc_mode C, sc_epoch C, Biz kind bs)"
      "sendable (id_max_body (srv_ids E)) kind bs" "carries E (st_rx tC) t enc k"
      "phase E S tS C (tC\<lparr>st_rx := k\<rparr>) sc esc cs ecs"
  | (propose) ch e k where "t = (sc_mode C, sc_epoch C, Ctl (propose ch e))" "sc = []" "esc = []"
      "carries E (st_rx tC) t enc k" "sc_role C = Client" "sc_pending C = None"
      "u64_checked_succ (sc_epoch C) = Some e"
      "\<And>tr enc'. carries E (st_tx tC) (sc_mode C, sc_epoch C, Ctl (ready ch e)) enc' (st_tx tr) \<Longrightarrow>
         st_rx tr = k \<Longrightarrow>
         phase E S tS (C\<lparr>sc_pending := Some (cli_commit ch e)\<rparr>) tr [] []
           (cs @ [(sc_mode C, sc_epoch C, Ctl (ready ch e))]) (ecs @ [enc'])"
  | (commit) ch e k where "t = (sc_mode C, sc_epoch C, Ctl (commit ch e))" "sc = []" "esc = []"
      "carries E (st_rx tC) t enc k" "sc_role C = Client" "sc_pending C = Some (cli_commit ch e)"
      "u64_checked_succ (sc_epoch C) = Some e" "cs = []" "ecs = []"
      "\<And>tr enc' m. carries E (rotated (rekey E) ch (st_tx tC)) (m, sc_epoch C, Ctl (ack ch e)) enc' (st_tx tr) \<Longrightarrow>
         st_rx tr = rotated (rekey E) ch k \<Longrightarrow> m = sc_mode C \<Longrightarrow>
         phase E S tS (C\<lparr>sc_mode := new_mode ch (sc_mode C), sc_epoch := e, sc_pending := None\<rparr>) tr
           [] [] [(m, sc_epoch C, Ctl (ack ch e))] [enc']"
  using assms
proof cases
  case idle
  from idle obtain kind bs k where "t = (sc_mode C, sc_epoch C, Biz kind bs)"
    "sendable (id_max_body (srv_ids E)) kind bs" "carries E (st_rx tC) t enc k"
    "chain E k sc esc (st_tx tS)"
    by (cases t) auto
  then show ?thesis using idle by (intro biz) (auto intro!: phase.idle)
next
  case (proposed ch e sc0)
  show ?thesis
  proof (cases sc0)
    case Nil
    then obtain k where k: "t = (sc_mode C, sc_epoch C, Ctl (propose ch e))" "sc = []" "esc = []"
      "carries E (st_rx tC) t enc k" "k = st_tx tS"
      using proposed by auto
    show ?thesis
    proof (rule propose [OF k(1-4)])
      show "phase E S tS (C\<lparr>sc_pending := Some (cli_commit ch e)\<rparr>) tr [] []
          (cs @ [(sc_mode C, sc_epoch C, Ctl (ready ch e))]) (ecs @ [enc'])"
        if "carries E (st_tx tC) (sc_mode C, sc_epoch C, Ctl (ready ch e)) enc' (st_tx tr)"
          "st_rx tr = k" for tr enc'
        using proposed that k(5)
        by (intro phase.readied [where ch = ch and e = e and ?cs0.0 = cs]) (auto intro: chain_snoc)
    qed (use proposed in auto)
  next
    case (Cons t0 sc1)
    from proposed Cons obtain kind bs k where "t = (sc_mode C, sc_epoch C, Biz kind bs)"
      "sendable (id_max_body (srv_ids E)) kind bs" "carries E (st_rx tC) t enc k"
      "sc = sc1 @ [(sc_mode C, sc_epoch C, Ctl (propose ch e))]" "chain E k sc esc (st_tx tS)"
      by (cases t) auto
    then show ?thesis using proposed Cons
      by (intro biz) (auto intro!: phase.proposed [where ch = ch and e = e and ?sc0.0 = sc1])
  qed
next
  case (committed ch e k)
  show ?thesis
  proof (rule commit [of ch e k])
    show "phase E S tS (C\<lparr>sc_mode := new_mode ch (sc_mode C), sc_epoch := e, sc_pending := None\<rparr>) tr
        [] [] [(m, sc_epoch C, Ctl (ack ch e))] [enc']"
      if "carries E (rotated (rekey E) ch (st_tx tC)) (m, sc_epoch C, Ctl (ack ch e)) enc' (st_tx tr)"
        "st_rx tr = rotated (rekey E) ch k" "m = sc_mode C" for tr enc' m
      using committed that
      by (intro phase.acked [where ch = ch and e = e and ?cs0.0 = "[]"]) auto
  qed (use committed in auto)
qed

text \<open>The server takes the oldest record in flight.\<close>

lemma phase_srv_receive:
  assumes "phase E S tS C tC sc esc (t # cs) (enc # ecs)"
  obtains (biz) kind bs k where "t = (sc_mode S, sc_epoch S, Biz kind bs)"
      "sendable (id_max_body (srv_ids E)) kind bs" "carries E (st_rx tS) t enc k"
      "phase E S (tS\<lparr>st_rx := k\<rparr>) C tC sc esc cs ecs"
  | (ready) ch e k where "t = (sc_mode S, sc_epoch S, Ctl (ready ch e))" "cs = []" "ecs = []"
      "carries E (st_rx tS) t enc k" "sc_role S = Server" "sc_pending S = Some (srv_ready ch e)"
      "e \<noteq> 0" "sc = []" "esc = []"
      "\<And>tr enc' k1. carries E (st_tx tS) (sc_mode S, sc_epoch S, Ctl (commit ch e)) enc' k1 \<Longrightarrow>
         st_tx tr = rotated (rekey E) ch k1 \<Longrightarrow> st_rx tr = rotated (rekey E) ch k \<Longrightarrow>
         phase E (S\<lparr>sc_pending := Some (srv_ack ch e)\<rparr>) tr C tC
           [(sc_mode S, sc_epoch S, Ctl (commit ch e))] [enc'] [] []"
  | (ack) ch e k where "t = (sc_mode S, sc_epoch S, Ctl (ack ch e))"
      "carries E (st_rx tS) t enc k" "sc_role S = Server" "sc_pending S = Some (srv_ack ch e)"
      "e \<noteq> 0"
      "phase E (S\<lparr>sc_mode := new_mode ch (sc_mode S), sc_epoch := e, sc_pending := None\<rparr>)
         (tS\<lparr>st_rx := k\<rparr>) C tC sc esc cs ecs"
  using assms
proof cases
  case idle
  from idle obtain kind bs k where "t = (sc_mode S, sc_epoch S, Biz kind bs)"
    "sendable (id_max_body (srv_ids E)) kind bs" "carries E (st_rx tS) t enc k"
    "chain E k cs ecs (st_tx tC)"
    by (cases t) auto
  then show ?thesis using idle by (intro biz) (auto intro!: phase.idle)
next
  case (proposed ch e sc0)
  from proposed obtain kind bs k where "t = (sc_mode S, sc_epoch S, Biz kind bs)"
    "sendable (id_max_body (srv_ids E)) kind bs" "carries E (st_rx tS) t enc k"
    "chain E k cs ecs (st_tx tC)"
    by (cases t) auto
  then show ?thesis using proposed
    by (intro biz) (auto intro!: phase.proposed [where ch = ch and e = e and ?sc0.0 = sc0])
next
  case (readied ch e cs0)
  show ?thesis
  proof (cases cs0)
    case Nil
    then obtain k where k: "t = (sc_mode S, sc_epoch S, Ctl (ready ch e))" "cs = []" "ecs = []"
      "carries E (st_rx tS) t enc k" "k = st_tx tC"
      using readied by auto
    show ?thesis
    proof (rule ready [OF k(1-4)])
      show "phase E (S\<lparr>sc_pending := Some (srv_ack ch e)\<rparr>) tr C tC
          [(sc_mode S, sc_epoch S, Ctl (commit ch e))] [enc'] [] []"
        if "carries E (st_tx tS) (sc_mode S, sc_epoch S, Ctl (commit ch e)) enc' k1"
          "st_tx tr = rotated (rekey E) ch k1" "st_rx tr = rotated (rekey E) ch k" for tr enc' k1
        using readied that k(5) phase.committed
          [of "S\<lparr>sc_pending := Some (srv_ack ch e)\<rparr>" C ch e E tC enc' k1 tr]
        by simp
    qed (use readied succ_nonzero in auto)
  next
    case (Cons t0 cs1)
    from readied Cons obtain kind bs k where "t = (sc_mode S, sc_epoch S, Biz kind bs)"
      "sendable (id_max_body (srv_ids E)) kind bs" "carries E (st_rx tS) t enc k"
      "cs = cs1 @ [(sc_mode C, sc_epoch C, Ctl (ready ch e))]" "chain E k cs ecs (st_tx tC)"
      by (cases t) auto
    then show ?thesis using readied Cons
      by (intro biz) (auto intro!: phase.readied [where ch = ch and e = e and ?cs0.0 = cs1])
  qed
next
  case (acked ch e cs0)
  then obtain k where k: "carries E (st_rx tS) t enc k" "chain E k cs ecs (st_tx tC)" by auto
  show ?thesis
  proof (rule ack [OF _ k(1)])
    show "phase E (S\<lparr>sc_mode := new_mode ch (sc_mode S), sc_epoch := e, sc_pending := None\<rparr>)
        (tS\<lparr>st_rx := k\<rparr>) C tC sc esc cs ecs"
      using acked k by (intro phase.idle) auto
  qed (use acked succ_nonzero in auto)
qed

section \<open>One direction of the link\<close>

fun item_events :: "session_ids \<Rightarrow> instant \<Rightarrow> tagged \<Rightarrow> event list" where
  "item_events ids now (m, e, Ctl c) = []"
| "item_events ids now (m, e, Biz kind bs) = [business_event ids now m kind bs]"

text \<open>
  Receiver side of a direction: its reader and the bytes still travelling are the framed
  records in flight, and what it published plus what is in flight is what was sent.
\<close>

definition link_ok ::
    "'k env \<Rightarrow> session_ids \<Rightarrow> 'k tcp_session \<Rightarrow> bytes \<Rightarrow> tagged list \<Rightarrow> bytes list \<Rightarrow> event list \<Rightarrow>
      event list \<Rightarrow> bool" where
  "link_ok E ids s wire its encs log sent \<longleftrightarrow>
     rr_buffered (ts_reader s) @ wire = concat (map framed encs) \<and>
     rr_max_len (ts_reader s) = wire_limit E \<and> list_all (frameable (wire_limit E)) encs \<and>
     length encs = length its \<and>
     business log @ concat (map (item_events ids (clock E)) its) = sent"

lemma link_append:
  assumes "link_ok E ids s wire its encs log sent" and "frameable (wire_limit E) enc"
  shows "link_ok E ids s (wire @ framed enc) (its @ [t]) (encs @ [enc]) log
    (sent @ item_events ids (clock E) t)"
  using assms by (auto simp: link_ok_def)

lemma link_bytes:
  assumes "link_ok E ids s (chunk @ rest) its encs log sent"
  shows "link_ok E ids (extend_reader chunk s) rest its encs log sent"
  using assms by (simp add: link_ok_def extend_reader_def rr_extend_def)

lemma link_session:
  assumes "link_ok E ids s wire its encs log sent" and "ts_reader s' = ts_reader s"
  shows "link_ok E ids s' wire its encs log sent"
  using assms by (simp add: link_ok_def)

lemma rr_take_next:
  "rr_take r =
     (case rr_next (rr_max_len r) (rr_buffered r) of
        Inl e \<Rightarrow> Inl e
      | Inr None \<Rightarrow> Inr (r, None)
      | Inr (Some (rest, x)) \<Rightarrow> Inr (r\<lparr>rr_buffered := rest\<rparr>, Some x))"
  by (auto simp: rr_next_def rr_take_def Let_def split: sum.splits option.splits)

text \<open>The reader finds nothing to do, or hands over the oldest record in flight.\<close>

lemma link_receive:
  assumes "link_ok E ids s wire its encs log sent" and "id_max_body ids = id_max_body (srv_ids E)"
    and "its \<noteq> [] \<longrightarrow> (\<exists>k k'. carries E k (hd its) (hd encs) k')"
  obtains (none) "tcp_receive wr rd rk ids now True s = Inr (s, [], [])"
  | (some) t its' enc encs' r rr where "its = t # its'" "encs = enc # encs'"
      "decode_record enc (max_payload_of (id_max_body (srv_ids E)) + 64) = Inr r"
      "tcp_receive wr rd rk ids now True s =
         process_inbound wr rd rk ids now True (s\<lparr>ts_reader := rr\<rparr>) r"
      "\<And>s' log'. ts_reader s' = rr \<Longrightarrow> business log' = business log @ item_events ids (clock E) t \<Longrightarrow>
         link_ok E ids s' wire its' encs' log' sent"
proof (cases its)
  case Nil
  then have "encs = []" using assms(1) by (simp add: link_ok_def)
  then have "rr_buffered (ts_reader s) = []" using assms(1) by (auto simp: link_ok_def)
  then have "tcp_receive wr rd rk ids now True s = Inr (s, [], [])"
    by (simp add: tcp_receive_def rr_take_def Let_def)
  then show ?thesis by (rule none)
next
  case (Cons t its')
  then obtain enc encs' where e: "encs = enc # encs'"
    using assms(1) by (cases encs) (auto simp: link_ok_def)
  have la: "rr_buffered (ts_reader s) @ wire = concat (map framed encs)"
    "rr_max_len (ts_reader s) = wire_limit E" "list_all (frameable (wire_limit E)) encs"
    "length encs = length its"
    "business log @ concat (map (item_events ids (clock E)) its) = sent"
    using assms(1) by (simp_all only: link_ok_def)
  have l: "rr_buffered (ts_reader s) @ wire = concat (map framed (enc # encs'))"
    "frameable (wire_limit E) enc" "rr_max_len (ts_reader s) = wire_limit E"
    using la(1-3) unfolding e by (simp_all only: list.pred_inject)
  obtain k k' m ep it where "carries E k t enc k'" and t: "t = (m, ep, it)"
    using assms(3) Cons e by (cases t) auto
  then obtain r where r: "decode_record enc (max_payload_of (id_max_body (srv_ids E)) + 64) = Inr r"
    using carries_record [of E k m ep it enc k'] by auto
  from rr_next_stream [OF l(1,2)] show ?thesis
  proof (elim disjE exE conjE)
    assume "rr_next (wire_limit E) (rr_buffered (ts_reader s)) = Inr None"
    then have "tcp_receive wr rd rk ids now True s = Inr (s, [], [])"
      using l(3) by (simp add: tcp_receive_def rr_take_next)
    then show ?thesis by (rule none)
  next
    fix rest
    assume n: "rr_next (wire_limit E) (rr_buffered (ts_reader s)) = Inr (Some (rest, enc))"
      "rest @ wire = concat (map framed encs')"
    show ?thesis
    proof (rule some [OF Cons e r])
      show "tcp_receive wr rd rk ids now True s =
          process_inbound wr rd rk ids now True
            (s\<lparr>ts_reader := (ts_reader s)\<lparr>rr_buffered := rest\<rparr>\<rparr>) r"
        using n(1) l(3) r assms(2) by (simp add: tcp_receive_def rr_take_next)
      show "link_ok E ids s' wire its' encs' log' sent"
        if "ts_reader s' = (ts_reader s)\<lparr>rr_buffered := rest\<rparr>"
          "business log' = business log @ item_events ids (clock E) t" for s' log'
        unfolding link_ok_def using that n(2) la(2-5) Cons e by simp
    qed
  qed
qed

definition net_inv :: "'k env \<Rightarrow> 'k net \<Rightarrow> bool" where
  "net_inv E n \<longleftrightarrow> (\<exists>sc esc cs ecs.
     phase E (ts_controller (srv n)) (ts_transport (srv n)) (ts_controller (cli n))
       (ts_transport (cli n)) sc esc cs ecs \<and>
     link_ok E (cli_ids E) (cli n) (to_cli n) sc esc (cli_log n) (srv_sent n) \<and>
     link_ok E (srv_ids E) (srv n) (to_srv n) cs ecs (srv_log n) (cli_sent n))"

lemma net_invI:
  assumes "phase E (ts_controller (srv n)) (ts_transport (srv n)) (ts_controller (cli n))
       (ts_transport (cli n)) sc esc cs ecs"
    and "link_ok E (cli_ids E) (cli n) (to_cli n) sc esc (cli_log n) (srv_sent n)"
    and "link_ok E (srv_ids E) (srv n) (to_srv n) cs ecs (srv_log n) (cli_sent n)"
  shows "net_inv E n"
  using assms unfolding net_inv_def by blast

lemma net_invE:
  assumes "net_inv E n"
  obtains sc esc cs ecs where
    "phase E (ts_controller (srv n)) (ts_transport (srv n)) (ts_controller (cli n))
       (ts_transport (cli n)) sc esc cs ecs"
    "link_ok E (cli_ids E) (cli n) (to_cli n) sc esc (cli_log n) (srv_sent n)"
    "link_ok E (srv_ids E) (srv n) (to_srv n) cs ecs (srv_log n) (cli_sent n)"
  using assms unfolding net_inv_def by blast

lemma phase_heads:
  assumes "phase E S tS C tC sc esc cs ecs"
  shows "sc \<noteq> [] \<Longrightarrow> \<exists>k k'. carries E k (hd sc) (hd esc) k'"
    and "cs \<noteq> [] \<Longrightarrow> \<exists>k k'. carries E k (hd cs) (hd ecs) k'"
proof -
  have ch: "chain E k its encs k' \<Longrightarrow> its \<noteq> [] \<Longrightarrow> \<exists>k k'. carries E k (hd its) (hd encs) k'"
    for k its encs k'
    by (induction rule: chain.induct) auto
  show "sc \<noteq> [] \<Longrightarrow> \<exists>k k'. carries E k (hd sc) (hd esc) k'"
    using assms
  proof cases
    case proposed
    then show ?thesis using ch by blast
  qed (use ch in auto)
  show "cs \<noteq> [] \<Longrightarrow> \<exists>k k'. carries E k (hd cs) (hd ecs) k'"
    using assms
  proof cases
    case acked
    then show ?thesis using ch by blast
  qed (use ch in auto)
qed

lemma business_simps [simp]:
  "business [] = []"
  "business (xs @ ys) = business xs @ business ys"
  "business [business_event ids now m kind bs] = [business_event ids now m kind bs]"
  "business [security_changed_event ep se op mode e now] = []"
  by (auto simp: business_def business_event_def message_event_with_integrity_def
      game_control_event_def security_changed_event_def session_event_def event_simple_def
      split: outbound_kind.splits)

section \<open>Every step keeps the invariant\<close>

lemma net_inv_srv_send:
  assumes "good_env E" and "net_inv E n" and "\<not> is_transitioning (ts_controller (srv n))"
    and "sendable (id_max_body (srv_ids E)) kind bs"
    and "tcp_send (seal E) (srv_ids E) kind bs (srv n) = Inr (s, out)"
  shows "net_inv E (n\<lparr>srv := s, to_cli := to_cli n @ out, srv_sent := srv_sent n @
    [business_event (cli_ids E) (clock E) (sc_mode (ts_controller (srv n))) kind bs]\<rparr>)"
proof -
  let ?S = "ts_controller (srv n)"
  obtain sc esc cs ecs where i:
    "phase E ?S (ts_transport (srv n)) (ts_controller (cli n)) (ts_transport (cli n)) sc esc cs ecs"
    "link_ok E (cli_ids E) (cli n) (to_cli n) sc esc (cli_log n) (srv_sent n)"
    "link_ok E (srv_ids E) (srv n) (to_srv n) cs ecs (srv_log n) (cli_sent n)"
    using assms(2) by (rule net_invE)
  obtain enc where e: "out = framed enc"
    "carries E (st_tx (ts_transport (srv n))) (sc_mode ?S, sc_epoch ?S, Biz kind bs) enc
       (st_tx (ts_transport s))"
    "s = (srv n)\<lparr>ts_transport := ts_transport s\<rparr>"
    "st_rx (ts_transport s) = st_rx (ts_transport (srv n))"
    using tcp_send_carries [OF assms(5)] by blast
  have c: "ts_controller s = ?S" "ts_reader s = ts_reader (srv n)"
    by (subst e(3), simp)+
  note ph = phase_srv_send [OF i(1) assms(3) e(2,4) assms(4)]
  note lk = link_append [OF i(2) carries_frameable [OF assms(1) e(2)],
      of "(sc_mode ?S, sc_epoch ?S, Biz kind bs)"]
  show ?thesis
    by (rule net_invI [of _ _ "sc @ [(sc_mode ?S, sc_epoch ?S, Biz kind bs)]" "esc @ [enc]" cs ecs])
      (use ph lk link_session [OF i(3) c(2)] c(1) e(1) in simp_all)
qed

lemma net_inv_cli_send:
  assumes "good_env E" and "net_inv E n" and "\<not> is_transitioning (ts_controller (cli n))"
    and "sendable (id_max_body (cli_ids E)) kind bs"
    and "tcp_send (seal E) (cli_ids E) kind bs (cli n) = Inr (s, out)"
  shows "net_inv E (n\<lparr>cli := s, to_srv := to_srv n @ out, cli_sent := cli_sent n @
    [business_event (srv_ids E) (clock E) (sc_mode (ts_controller (cli n))) kind bs]\<rparr>)"
proof -
  let ?C = "ts_controller (cli n)"
  obtain sc esc cs ecs where i:
    "phase E (ts_controller (srv n)) (ts_transport (srv n)) ?C (ts_transport (cli n)) sc esc cs ecs"
    "link_ok E (cli_ids E) (cli n) (to_cli n) sc esc (cli_log n) (srv_sent n)"
    "link_ok E (srv_ids E) (srv n) (to_srv n) cs ecs (srv_log n) (cli_sent n)"
    using assms(2) by (rule net_invE)
  have mb: "id_max_body (cli_ids E) = id_max_body (srv_ids E)" using assms(1) by (simp add: good_env_def)
  obtain enc where e: "out = framed enc"
    "carries E (st_tx (ts_transport (cli n))) (sc_mode ?C, sc_epoch ?C, Biz kind bs) enc
       (st_tx (ts_transport s))"
    "s = (cli n)\<lparr>ts_transport := ts_transport s\<rparr>"
    "st_rx (ts_transport s) = st_rx (ts_transport (cli n))"
    using tcp_send_carries [OF assms(5) mb] by blast
  have c: "ts_controller s = ?C" "ts_reader s = ts_reader (cli n)"
    by (subst e(3), simp)+
  note ph = phase_cli_send [OF i(1) assms(3) e(2,4) assms(4) [unfolded mb]]
  note lk = link_append [OF i(3) carries_frameable [OF assms(1) e(2)],
      of "(sc_mode ?C, sc_epoch ?C, Biz kind bs)"]
  show ?thesis
    by (rule net_invI [of _ _ sc esc "cs @ [(sc_mode ?C, sc_epoch ?C, Biz kind bs)]" "ecs @ [enc]"])
      (use ph lk link_session [OF i(2) c(2)] c(1) e(1) in simp_all)
qed

lemma net_inv_command:
  assumes "good_env E" and "net_inv E n" and "\<not> is_transitioning (ts_controller (srv n))"
    and "tcp_command (seal E) (srv_ids E) cmd (srv n) = Inr (s, out)"
  shows "net_inv E (n\<lparr>srv := s, to_cli := to_cli n @ out\<rparr>)"
proof -
  let ?S = "ts_controller (srv n)"
  obtain sc esc cs ecs where i:
    "phase E ?S (ts_transport (srv n)) (ts_controller (cli n)) (ts_transport (cli n)) sc esc cs ecs"
    "link_ok E (cli_ids E) (cli n) (to_cli n) sc esc (cli_log n) (srv_sent n)"
    "link_ok E (srv_ids E) (srv n) (to_srv n) cs ecs (srv_log n) (cli_sent n)"
    using assms(2) by (rule net_invE)
  have role: "sc_role ?S = Server" using i(1) by cases auto
  have idle: "sc_pending ?S = None" using assms(3) by (simp add: is_transitioning_def)
  let ?r = "case cmd of SetModeCmd mode \<Rightarrow> begin_switch mode ?S | RekeyCmd \<Rightarrow> begin_rekey ?S"
  show ?thesis
  proof (cases ?r)
    case (Inl e)
    then show ?thesis using assms(2,4) by (simp add: tcp_command_def net_inv_def)
  next
    case (Inr p)
    obtain c1 ctl where p: "p = (c1, ctl)" by fastforce
    obtain ch e where b: "u64_checked_succ (sc_epoch ?S) = Some e"
      "c1 = ?S\<lparr>sc_pending := Some (srv_ready ch e)\<rparr>" "ctl = propose ch e"
      using begin_cases [OF role idle] Inr p by blast
    obtain tr where w: "write_control (seal E) (ts_transport (srv n)) (sc_epoch ?S) (propose ch e)
        (max_payload_of (id_max_body (srv_ids E))) = Inr (tr, out)"
      "s = (srv n)\<lparr>ts_controller := c1, ts_transport := tr\<rparr>"
      using assms(4) Inr p b(2,3) by (auto simp: tcp_command_def split: sum.splits)
    obtain enc where e: "out = framed enc" "st_rx tr = st_rx (ts_transport (srv n))"
      "carries E (st_tx (ts_transport (srv n))) (sc_mode ?S, sc_epoch ?S, Ctl (propose ch e)) enc (st_tx tr)"
      using write_control_carries [OF w(1)] by blast
    note ph = phase_command [OF i(1) idle b(1) e(3,2)]
    note lk = link_append [OF i(2) carries_frameable [OF assms(1) e(3)],
        of "(sc_mode ?S, sc_epoch ?S, Ctl (propose ch e))"]
    have "ts_reader s = ts_reader (srv n)" using w(2) by simp
    note l2 = link_session [OF i(3) this]
    show ?thesis
      by (rule net_invI [of _ _ "sc @ [(sc_mode ?S, sc_epoch ?S, Ctl (propose ch e))]"
            "esc @ [enc]" cs ecs])
        (use ph lk l2 w(2) b(2) e(1) in simp_all)
  qed
qed

text \<open>The control handler on a barrier of the change in flight.\<close>

lemma handle_control_barrier:
  assumes "good_env E" and "id_max_body ids = id_max_body (srv_ids E)" and "control_valid ctl"
    and "handle ctl (ts_controller s) =
      Inr (c1, \<lparr>before_response = eff1, response = Some resp, after_response = eff2\<rparr>)"
    and "rec_epoch r = e"
  shows "\<exists>tr2 enc. handle_control (seal E) rk ids now s tr r (encode_control ctl) =
      Inr (s\<lparr>ts_controller := c1, ts_transport := apply_effect rk eff2 tr2\<rparr>, framed enc,
        if is_transitioning c1 then []
        else case completed_operation (ctl_kind ctl) of None \<Rightarrow> []
          | Some op \<Rightarrow> [security_changed_event (id_endpoint ids) (id_session ids) op
                          (sc_mode c1) (sc_epoch c1) now]) \<and>
    carries E (st_tx (apply_effect rk eff1 tr)) (mode, e, Ctl resp) enc (st_tx tr2) \<and>
    st_rx tr2 = st_rx (apply_effect rk eff1 tr)"
proof -
  obtain tr2 out where w: "write_control (seal E) (apply_effect rk eff1 tr) e resp
      (max_payload_of (id_max_body (srv_ids E))) = Inr (tr2, out)"
    using write_control_succeeds [OF assms(1)] by blast
  obtain enc where "out = framed enc" "st_rx tr2 = st_rx (apply_effect rk eff1 tr)"
    "carries E (st_tx (apply_effect rk eff1 tr)) (mode, e, Ctl resp) enc (st_tx tr2)"
    using write_control_carries [OF w, of mode] by blast
  then show ?thesis
    using w assms(2,4,5) decode_encode_control [OF assms(3)]
    by (auto simp: handle_control_def Let_def)
qed

lemma barrier_events_business:
  "business (if is_transitioning c then [] else case completed_operation k of None \<Rightarrow> []
     | Some op \<Rightarrow> [security_changed_event a b op m e now]) = []"
  by (auto split: option.splits)

text \<open>Receiving a barrier that has a response.\<close>

lemma process_barrier:
  assumes "good_env E" and "id_max_body ids = id_max_body (srv_ids E)"
    and "carries E (st_rx (ts_transport s)) (m, sc_epoch (ts_controller s), Ctl ctl) enc k"
    and "decode_record enc (max_payload_of (id_max_body (srv_ids E)) + 64) = Inr r"
    and "control_valid ctl"
    and "handle ctl (ts_controller s) =
      Inr (c1, \<lparr>before_response = eff1, response = Some resp, after_response = eff2\<rparr>)"
  obtains tr2 enc' evs where
    "process_inbound (seal E) (unseal E) (rekey E) ids now True s r =
       Inr (s\<lparr>ts_controller := c1, ts_transport := apply_effect (rekey E) eff2 tr2\<rparr>, framed enc', evs)"
    "business evs = []"
    "carries E (st_tx (apply_effect (rekey E) eff1 ((ts_transport s)\<lparr>st_rx := k\<rparr>)))
       (m', sc_epoch (ts_controller s), Ctl resp) enc' (st_tx tr2)"
    "st_rx tr2 = st_rx (apply_effect (rekey E) eff1 ((ts_transport s)\<lparr>st_rx := k\<rparr>))"
proof -
  note pc = process_control [OF assms(1-4), of now]
  obtain tr2 enc' where hc: "handle_control (seal E) (rekey E) ids now s ((ts_transport s)\<lparr>st_rx := k\<rparr>) r
      (encode_control ctl) =
    Inr (s\<lparr>ts_controller := c1, ts_transport := apply_effect (rekey E) eff2 tr2\<rparr>, framed enc',
        if is_transitioning c1 then []
        else case completed_operation (ctl_kind ctl) of None \<Rightarrow> []
          | Some op \<Rightarrow> [security_changed_event (id_endpoint ids) (id_session ids) op
                          (sc_mode c1) (sc_epoch c1) now])"
    and tr2: "carries E (st_tx (apply_effect (rekey E) eff1 ((ts_transport s)\<lparr>st_rx := k\<rparr>)))
       (m', sc_epoch (ts_controller s), Ctl resp) enc' (st_tx tr2)"
    "st_rx tr2 = st_rx (apply_effect (rekey E) eff1 ((ts_transport s)\<lparr>st_rx := k\<rparr>))"
    using handle_control_barrier [OF assms(1,2,5,6) pc [THEN conjunct1], of "rekey E" now
        "(ts_transport s)\<lparr>st_rx := k\<rparr>" m']
    by blast
  show ?thesis
    by (rule that [OF trans [OF pc [THEN conjunct2] hc] barrier_events_business tr2])
qed

text \<open>The client processes the oldest record in flight, whatever the stage.\<close>

lemma cli_process_ok:
  assumes "good_env E"
    and ph: "phase E (ts_controller (srv n)) (ts_transport (srv n)) (ts_controller (cli n))
      (ts_transport (cli n)) (t # sc) (enc # esc) cs ecs"
    and dec: "decode_record enc (max_payload_of (id_max_body (srv_ids E)) + 64) = Inr r"
    and down: "\<And>s' log'. ts_reader s' = rr \<Longrightarrow>
      business log' = business (cli_log n) @ item_events (cli_ids E) (clock E) t \<Longrightarrow>
      link_ok E (cli_ids E) s' (to_cli n) sc esc log' (srv_sent n)"
    and up: "link_ok E (srv_ids E) (srv n) (to_srv n) cs ecs (srv_log n) (cli_sent n)"
  shows "\<exists>s out evs.
    process_inbound (seal E) (unseal E) (rekey E) (cli_ids E) (clock E) True
      ((cli n)\<lparr>ts_reader := rr\<rparr>) r = Inr (s, out, evs) \<and>
    net_inv E (n\<lparr>cli := s, to_srv := to_srv n @ out, cli_log := cli_log n @ evs\<rparr>)"
proof -
  let ?S = "ts_controller (srv n)" and ?tS = "ts_transport (srv n)"
  let ?C = "ts_controller (cli n)" and ?tC = "ts_transport (cli n)" and ?s = "(cli n)\<lparr>ts_reader := rr\<rparr>"
  have mb: "id_max_body (cli_ids E) = id_max_body (srv_ids E)" using assms(1) by (simp add: good_env_def)
  from ph show ?thesis
  proof (cases rule: phase_cli_receive)
    case (biz kind bs k)
    let ?ev = "business_event (cli_ids E) (clock E) (sc_mode ?C) kind bs"
    let ?s' = "?s\<lparr>ts_transport := ?tC\<lparr>st_rx := k\<rparr>\<rparr>"
    have ca: "carries E (st_rx (ts_transport ?s)) (sc_mode ?C, sc_epoch ?C, Biz kind bs) enc k"
      using biz(1,3) by simp
    have r: "process_inbound (seal E) (unseal E) (rekey E) (cli_ids E) (clock E) True ?s r =
        Inr (?s', [], [?ev])"
      using process_business [OF assms(1) mb ca _ _ dec, of "clock E"] biz(2) by (simp add: mb)
    have "link_ok E (cli_ids E) ?s' (to_cli n) sc esc (cli_log n @ [?ev]) (srv_sent n)"
      by (rule down) (simp_all add: biz(1))
    then have "net_inv E (n\<lparr>cli := ?s', to_srv := to_srv n @ [], cli_log := cli_log n @ [?ev]\<rparr>)"
      by (intro net_invI [of _ _ sc esc cs ecs]) (use up biz(4) in simp_all)
    then show ?thesis using r by blast
  next
    case (propose ch e k)
    let ?c1 = "?C\<lparr>sc_pending := Some (cli_commit ch e)\<rparr>"
    let ?t = "(sc_mode ?C, sc_epoch ?C, Ctl (ready ch e))"
    have cv: "control_valid (propose ch e)" by (rule barrier_valid, rule succ_nonzero [OF propose(7)])
    have ca: "carries E (st_rx (ts_transport ?s)) (sc_mode ?C, sc_epoch (ts_controller ?s),
        Ctl (propose ch e)) enc k"
      using propose(1,4) by simp
    have h: "handle (propose ch e) (ts_controller ?s) = Inr (?c1, \<lparr>before_response = NoEffect,
        response = Some (ready ch e), after_response = NoEffect\<rparr>)"
      using handle_propose [OF propose(5-7)] by (simp add: transition_response_def)
    obtain tr2 enc' evs where b:
      "process_inbound (seal E) (unseal E) (rekey E) (cli_ids E) (clock E) True ?s r =
         Inr (?s\<lparr>ts_controller := ?c1, ts_transport := tr2\<rparr>, framed enc', evs)"
      "business evs = []" "carries E (st_tx ?tC) ?t enc' (st_tx tr2)" "st_rx tr2 = k"
      by (rule process_barrier [OF assms(1) mb ca dec cv h, where now = "clock E" and m' = "sc_mode ?C"])
        (simp add: apply_effect_def)
    let ?s' = "?s\<lparr>ts_controller := ?c1, ts_transport := tr2\<rparr>"
    have "link_ok E (cli_ids E) ?s' (to_cli n) [] [] (cli_log n @ evs) (srv_sent n)"
      using down [of ?s' "cli_log n @ evs"] propose(1-3) b(2) by simp
    moreover have "link_ok E (srv_ids E) (srv n) (to_srv n @ framed enc') (cs @ [?t]) (ecs @ [enc'])
        (srv_log n) (cli_sent n)"
      using link_append [OF up carries_frameable [OF assms(1) b(3)], of ?t] by simp
    ultimately have "net_inv E (n\<lparr>cli := ?s', to_srv := to_srv n @ framed enc', cli_log := cli_log n @ evs\<rparr>)"
      by (intro net_invI [of _ _ "[]" "[]" "cs @ [?t]" "ecs @ [enc']"])
        (use propose(8) [OF b(3,4)] in simp_all)
    then show ?thesis using b(1) by blast
  next
    case (commit ch e k)
    let ?c1 = "?C\<lparr>sc_mode := new_mode ch (sc_mode ?C), sc_epoch := e, sc_pending := None\<rparr>"
    let ?t = "(sc_mode ?C, sc_epoch ?C, Ctl (ack ch e))"
    obtain eff where h: "handle (commit ch e) ?C =
        Inr (?c1, \<lparr>before_response = eff, response = Some (ack ch e), after_response = NoEffect\<rparr>)"
      and eff: "\<And>tr. apply_effect (rekey E) eff tr =
        tr\<lparr>st_tx := rotated (rekey E) ch (st_tx tr), st_rx := rotated (rekey E) ch (st_rx tr)\<rparr>"
      using handle_commit [OF commit(5,6), of "rekey E"] by blast
    have cv: "control_valid (commit ch e)" by (rule barrier_valid, rule succ_nonzero [OF commit(7)])
    have ca: "carries E (st_rx (ts_transport ?s)) (sc_mode ?C, sc_epoch (ts_controller ?s),
        Ctl (commit ch e)) enc k"
      using commit(1,4) by simp
    have h': "handle (commit ch e) (ts_controller ?s) = Inr (?c1, \<lparr>before_response = eff,
        response = Some (ack ch e), after_response = NoEffect\<rparr>)"
      using h by simp
    obtain tr2 enc' evs where b:
      "process_inbound (seal E) (unseal E) (rekey E) (cli_ids E) (clock E) True ?s r =
         Inr (?s\<lparr>ts_controller := ?c1, ts_transport := tr2\<rparr>, framed enc', evs)"
      "business evs = []" "carries E (rotated (rekey E) ch (st_tx ?tC)) ?t enc' (st_tx tr2)"
      "st_rx tr2 = rotated (rekey E) ch k"
      by (rule process_barrier [OF assms(1) mb ca dec cv h', where now = "clock E" and m' = "sc_mode ?C"])
        (simp add: apply_effect_def [of _ NoEffect] eff)
    let ?s' = "?s\<lparr>ts_controller := ?c1, ts_transport := tr2\<rparr>"
    have "link_ok E (cli_ids E) ?s' (to_cli n) [] [] (cli_log n @ evs) (srv_sent n)"
      using down [of ?s' "cli_log n @ evs"] commit(1-3) b(2) by simp
    moreover have "link_ok E (srv_ids E) (srv n) (to_srv n @ framed enc') [?t] [enc'] (srv_log n) (cli_sent n)"
      using link_append [OF up carries_frameable [OF assms(1) b(3)], of ?t] commit(8,9) by simp
    ultimately have "net_inv E (n\<lparr>cli := ?s', to_srv := to_srv n @ framed enc', cli_log := cli_log n @ evs\<rparr>)"
      by (intro net_invI [of _ _ "[]" "[]" "[?t]" "[enc']"])
        (use commit(10) [OF b(3,4) refl] in simp_all)
    then show ?thesis using b(1) by blast
  qed
qed

text \<open>The server processes the oldest record in flight, whatever the stage.\<close>

lemma srv_process_ok:
  assumes "good_env E"
    and ph: "phase E (ts_controller (srv n)) (ts_transport (srv n)) (ts_controller (cli n))
      (ts_transport (cli n)) sc esc (t # cs) (enc # ecs)"
    and dec: "decode_record enc (max_payload_of (id_max_body (srv_ids E)) + 64) = Inr r"
    and up: "\<And>s' log'. ts_reader s' = rr \<Longrightarrow>
      business log' = business (srv_log n) @ item_events (srv_ids E) (clock E) t \<Longrightarrow>
      link_ok E (srv_ids E) s' (to_srv n) cs ecs log' (cli_sent n)"
    and down: "link_ok E (cli_ids E) (cli n) (to_cli n) sc esc (cli_log n) (srv_sent n)"
  shows "\<exists>s out evs.
    process_inbound (seal E) (unseal E) (rekey E) (srv_ids E) (clock E) True
      ((srv n)\<lparr>ts_reader := rr\<rparr>) r = Inr (s, out, evs) \<and>
    net_inv E (n\<lparr>srv := s, to_cli := to_cli n @ out, srv_log := srv_log n @ evs\<rparr>)"
proof -
  let ?S = "ts_controller (srv n)" and ?tS = "ts_transport (srv n)" and ?s = "(srv n)\<lparr>ts_reader := rr\<rparr>"
  let ?in = "process_inbound (seal E) (unseal E) (rekey E) (srv_ids E) (clock E) True ?s r"
  from ph show ?thesis
  proof (cases rule: phase_srv_receive)
    case (biz kind bs k)
    let ?ev = "business_event (srv_ids E) (clock E) (sc_mode ?S) kind bs"
    let ?s' = "?s\<lparr>ts_transport := ?tS\<lparr>st_rx := k\<rparr>\<rparr>"
    have ca: "carries E (st_rx (ts_transport ?s)) (sc_mode ?S, sc_epoch ?S, Biz kind bs) enc k"
      using biz(1,3) by simp
    have r: "?in = Inr (?s', [], [?ev])"
      using process_business [OF assms(1) refl ca _ _ dec, of "clock E"] biz(2) by simp
    have "link_ok E (srv_ids E) ?s' (to_srv n) cs ecs (srv_log n @ [?ev]) (cli_sent n)"
      by (rule up) (simp_all add: biz(1))
    then have "net_inv E (n\<lparr>srv := ?s', to_cli := to_cli n @ [], srv_log := srv_log n @ [?ev]\<rparr>)"
      by (intro net_invI [of _ _ sc esc cs ecs]) (use down biz(4) in simp_all)
    then show ?thesis using r by blast
  next
    case (ready ch e k)
    let ?c1 = "?S\<lparr>sc_pending := Some (srv_ack ch e)\<rparr>"
    let ?t = "(sc_mode ?S, sc_epoch ?S, Ctl (commit ch e))"
    obtain eff where h: "handle (ready ch e) (ts_controller ?s) =
        Inr (?c1, \<lparr>before_response = NoEffect, response = Some (commit ch e), after_response = eff\<rparr>)"
      and eff: "\<And>tr. apply_effect (rekey E) eff tr =
        tr\<lparr>st_tx := rotated (rekey E) ch (st_tx tr), st_rx := rotated (rekey E) ch (st_rx tr)\<rparr>"
      using handle_ready [OF ready(5,6), of "rekey E"] by auto
    have cv: "control_valid (ready ch e)" by (rule barrier_valid, rule ready(7))
    have ca: "carries E (st_rx (ts_transport ?s)) (sc_mode ?S, sc_epoch (ts_controller ?s),
        Ctl (ready ch e)) enc k"
      using ready(1,4) by simp
    obtain tr2 enc' evs where b:
      "?in = Inr (?s\<lparr>ts_controller := ?c1, ts_transport := apply_effect (rekey E) eff tr2\<rparr>, framed enc', evs)"
      "business evs = []" "carries E (st_tx ?tS) ?t enc' (st_tx tr2)" "st_rx tr2 = k"
      by (rule process_barrier [OF assms(1) refl ca dec cv h, where now = "clock E" and m' = "sc_mode ?S"])
        (simp add: apply_effect_def)
    let ?tr = "apply_effect (rekey E) eff tr2"
    let ?s' = "?s\<lparr>ts_controller := ?c1, ts_transport := ?tr\<rparr>"
    have p: "phase E ?c1 ?tr (ts_controller (cli n)) (ts_transport (cli n)) [?t] [enc'] [] []"
      by (rule ready(10) [OF b(3)]) (simp_all add: eff b(4))
    have "link_ok E (srv_ids E) ?s' (to_srv n) [] [] (srv_log n @ evs) (cli_sent n)"
      using up [of ?s' "srv_log n @ evs"] ready(1-3) b(2) by simp
    moreover have "link_ok E (cli_ids E) (cli n) (to_cli n @ framed enc') [?t] [enc'] (cli_log n) (srv_sent n)"
      using link_append [OF down carries_frameable [OF assms(1) b(3)], of ?t] ready(8,9) by simp
    ultimately have "net_inv E (n\<lparr>srv := ?s', to_cli := to_cli n @ framed enc', srv_log := srv_log n @ evs\<rparr>)"
      by (intro net_invI [of _ _ "[?t]" "[enc']" "[]" "[]"]) (use p in simp_all)
    then show ?thesis using b(1) by blast
  next
    case (ack ch e k)
    let ?c1 = "?S\<lparr>sc_mode := new_mode ch (sc_mode ?S), sc_epoch := e, sc_pending := None\<rparr>"
    let ?s' = "?s\<lparr>ts_controller := ?c1, ts_transport := ?tS\<lparr>st_rx := k\<rparr>\<rparr>"
    obtain eff where h: "handle (ack ch e) (ts_controller ?s) =
        Inr (?c1, \<lparr>before_response = eff, response = None, after_response = NoEffect\<rparr>)"
      and eff: "\<And>tr. apply_effect (rekey E) eff tr = tr"
      using handle_ack [OF ack(3,4), of "rekey E"] by auto
    have ca: "carries E (st_rx (ts_transport ?s)) (sc_mode ?S, sc_epoch (ts_controller ?s),
        Ctl (ack ch e)) enc k"
      using ack(1,2) by simp
    have cv: "control_valid (ack ch e)" by (rule barrier_valid, rule ack(5))
    let ?evs = "if is_transitioning ?c1 then []
        else case completed_operation (ctl_kind (ack ch e)) of None \<Rightarrow> []
          | Some op \<Rightarrow> [security_changed_event (id_endpoint (srv_ids E)) (id_session (srv_ids E)) op
                          (sc_mode ?c1) (sc_epoch ?c1) (clock E)]"
    have b: "?in = Inr (?s', [], ?evs)"
      using process_control [OF assms(1) refl ca dec, of "clock E"] h decode_encode_control [OF cv]
      by (simp add: handle_control_def Let_def eff apply_effect_def [of _ NoEffect])
    have "link_ok E (srv_ids E) ?s' (to_srv n) cs ecs (srv_log n @ ?evs) (cli_sent n)"
      by (rule up, simp)
        (simp only: business_simps barrier_events_business ack(1) item_events.simps)
    then have "net_inv E (n\<lparr>srv := ?s', to_cli := to_cli n @ [], srv_log := srv_log n @ ?evs\<rparr>)"
      by (intro net_invI [of _ _ sc esc cs ecs]) (use down ack(6) in simp_all)
    then show ?thesis using b by blast
  qed
qed

text \<open>A receive succeeds in every state of the invariant, and keeps it.\<close>

lemma cli_receive_ok:
  assumes "good_env E" and "net_inv E n"
  shows "\<exists>s out evs.
    tcp_receive (seal E) (unseal E) (rekey E) (cli_ids E) (clock E) True (cli n) = Inr (s, out, evs) \<and>
    net_inv E (n\<lparr>cli := s, to_srv := to_srv n @ out, cli_log := cli_log n @ evs\<rparr>)"
proof -
  from assms(2) obtain sc esc cs ecs where i:
    "phase E (ts_controller (srv n)) (ts_transport (srv n)) (ts_controller (cli n))
       (ts_transport (cli n)) sc esc cs ecs"
    "link_ok E (cli_ids E) (cli n) (to_cli n) sc esc (cli_log n) (srv_sent n)"
    "link_ok E (srv_ids E) (srv n) (to_srv n) cs ecs (srv_log n) (cli_sent n)"
    by (rule net_invE)
  have mb: "id_max_body (cli_ids E) = id_max_body (srv_ids E)" using assms(1) by (simp add: good_env_def)
  have hd: "sc \<noteq> [] \<longrightarrow> (\<exists>k k'. carries E k (hd sc) (hd esc) k')" using phase_heads(1) [OF i(1)] by blast
  show ?thesis
  proof (rule link_receive [OF i(2) mb hd, of "seal E" "unseal E" "rekey E" "clock E"], goal_cases)
    case 1
    then show ?case using assms(2) by simp
  next
    case (2 t sc' enc esc' r rr)
    have ph: "phase E (ts_controller (srv n)) (ts_transport (srv n)) (ts_controller (cli n))
       (ts_transport (cli n)) (t # sc') (enc # esc') cs ecs"
      using i(1) unfolding 2(1,2) .
    show ?case unfolding 2(4) by (rule cli_process_ok [OF assms(1) ph 2(3) 2(5) i(3)])
  qed
qed

lemma srv_receive_ok:
  assumes "good_env E" and "net_inv E n"
  shows "\<exists>s out evs.
    tcp_receive (seal E) (unseal E) (rekey E) (srv_ids E) (clock E) True (srv n) = Inr (s, out, evs) \<and>
    net_inv E (n\<lparr>srv := s, to_cli := to_cli n @ out, srv_log := srv_log n @ evs\<rparr>)"
proof -
  from assms(2) obtain sc esc cs ecs where i:
    "phase E (ts_controller (srv n)) (ts_transport (srv n)) (ts_controller (cli n))
       (ts_transport (cli n)) sc esc cs ecs"
    "link_ok E (cli_ids E) (cli n) (to_cli n) sc esc (cli_log n) (srv_sent n)"
    "link_ok E (srv_ids E) (srv n) (to_srv n) cs ecs (srv_log n) (cli_sent n)"
    by (rule net_invE)
  have hd: "cs \<noteq> [] \<longrightarrow> (\<exists>k k'. carries E k (hd cs) (hd ecs) k')" using phase_heads(2) [OF i(1)] by blast
  show ?thesis
  proof (rule link_receive [OF i(3) refl hd, of "seal E" "unseal E" "rekey E" "clock E"], goal_cases)
    case 1
    then show ?case using assms(2) by simp
  next
    case (2 t cs' enc ecs' r rr)
    have ph: "phase E (ts_controller (srv n)) (ts_transport (srv n)) (ts_controller (cli n))
       (ts_transport (cli n)) sc esc (t # cs') (enc # ecs')"
      using i(1) unfolding 2(1,2) .
    show ?case unfolding 2(4) by (rule srv_process_ok [OF assms(1) ph 2(3) 2(5) i(2)])
  qed
qed

lemma net_inv_step:
  assumes "good_env E" and "net_step E n n'" and "net_inv E n"
  shows "net_inv E n'"
  using assms(2)
proof cases
  case (srv_send kind bs s out)
  then show ?thesis using net_inv_srv_send [OF assms(1,3)] by simp
next
  case (cli_send kind bs s out)
  then show ?thesis using net_inv_cli_send [OF assms(1,3)] by simp
next
  case (srv_command cmd s out)
  then show ?thesis using net_inv_command [OF assms(1,3)] by simp
next
  case (cli_bytes chunk rest)
  from assms(3) show ?thesis
    by (rule net_invE) (auto simp: cli_bytes intro!: net_invI link_bytes, simp add: extend_reader_def)
next
  case (srv_bytes chunk rest)
  from assms(3) show ?thesis
    by (rule net_invE) (auto simp: srv_bytes intro!: net_invI link_bytes, simp add: extend_reader_def)
next
  case (cli_receive s out evs)
  then show ?thesis using cli_receive_ok [OF assms(1,3)] by auto
next
  case (srv_receive s out evs)
  then show ?thesis using srv_receive_ok [OF assms(1,3)] by auto
qed

lemma net_inv_start: "good_env E \<Longrightarrow> net_inv E (net_start E mode k1 k2)"
  by (intro net_invI [of _ _ "[]" "[]" "[]" "[]"])
    (auto simp: net_start_def session_start_def sc_new_def link_ok_def rr_new_def good_env_def
      intro: phase.idle)

lemma reachable_net_inv: "good_env E \<Longrightarrow> reachable E mode k1 k2 n \<Longrightarrow> net_inv E n"
  unfolding reachable_def
  by (rotate_tac, induction rule: rtranclp_induct) (auto intro: net_inv_start net_inv_step)

lemma link_quiet:
  assumes "link_ok E ids s wire its encs log sent" and "wire = []" and "rr_buffered (ts_reader s) = []"
  shows "its = [] \<and> encs = []"
proof -
  have "framed x \<noteq> []" for x by (simp add: framed_def) (metis length_u32_be list.size(3) zero_neq_numeral)
  moreover have "concat (map framed encs) = []" using assms by (simp add: link_ok_def)
  ultimately have "encs = []" by (cases encs) auto
  then show ?thesis using assms(1) by (simp add: link_ok_def)
qed

text \<open>A concrete system: counters as cipher states, a zero tag, the keys advancing on rekey.\<close>

definition demo_env :: "nat env" where
  "demo_env =
     \<lparr>seal = (\<lambda>k p. Some (Suc k, p @ replicate 16 0)),
      unseal = (\<lambda>k c. Some (Suc k, take (length c - 16) c)), rekey = (\<lambda>k. k + 1000),
      srv_ids = \<lparr>id_endpoint = 1, id_session = 2, id_max_body = 64\<rparr>,
      cli_ids = \<lparr>id_endpoint = 3, id_session = 4, id_max_body = 64\<rparr>, clock = 0\<rparr>"

lemma demo_env_good: "good_env demo_env"
  by (simp add: good_env_def demo_env_def u32_max_def)

definition demo_net :: "nat net" where
  "demo_net = (net_start demo_env Plaintext 0 0)
     \<lparr>srv := fst (projr (tcp_command (seal demo_env) (srv_ids demo_env) RekeyCmd
        (srv (net_start demo_env Plaintext 0 0)))),
      to_cli := snd (projr (tcp_command (seal demo_env) (srv_ids demo_env) RekeyCmd
        (srv (net_start demo_env Plaintext 0 0))))\<rparr>"

text \<open>A rekey proposal is in flight in the concrete system.\<close>

lemma demo_net_reachable: "reachable demo_env Plaintext 0 0 demo_net"
proof -
  let ?n = "net_start demo_env Plaintext 0 0"
  let ?out = "tcp_command (seal demo_env) (srv_ids demo_env) RekeyCmd (srv ?n)"
  obtain c1 where c1: "begin_rekey (ts_controller (srv ?n)) = Inr c1"
    by (simp add: net_start_def session_start_def sc_new_def begin_rekey_def ensure_server_idle_def
        next_epoch_def u64_checked_succ_def)
  obtain tr out where w: "write_control (seal demo_env) (ts_transport (srv ?n)) (sc_epoch (fst c1)) (snd c1)
      (max_payload_of (id_max_body (srv_ids demo_env))) = Inr (tr, out)"
    using write_control_succeeds [OF demo_env_good] by blast
  have "?out = Inr ((srv ?n)\<lparr>ts_controller := fst c1, ts_transport := tr\<rparr>, out)"
    using c1 w by (cases c1) (simp add: tcp_command_def)
  then have "net_step demo_env ?n (?n\<lparr>srv := (srv ?n)\<lparr>ts_controller := fst c1, ts_transport := tr\<rparr>,
      to_cli := to_cli ?n @ out\<rparr>)"
    by (intro net_step.srv_command)
      (simp_all add: net_start_def session_start_def sc_new_def is_transitioning_def)
  moreover have "demo_net = ?n\<lparr>srv := (srv ?n)\<lparr>ts_controller := fst c1, ts_transport := tr\<rparr>,
      to_cli := to_cli ?n @ out\<rparr>"
    using \<open>?out = _\<close> by (simp add: demo_net_def net_start_def)
  ultimately show ?thesis by (simp add: reachable_def)
qed

section \<open>Properties\<close>

text \<open>
  C12. A pair of TCP sessions never breaks itself: in every reachable state both sides can
  process whatever their readers hold without an error, so no record is ever received under
  another epoch, mode or key than it was sent under, and no transition barrier is ever
  rejected as stale or unexpected.
\<close>

theorem tcp_pair_never_fails:
  assumes "good_env E" and "reachable E mode k1 k2 n"
  shows "\<exists>c_out s_out.
    tcp_receive (seal E) (unseal E) (rekey E) (cli_ids E) (clock E) True (cli n) = Inr c_out \<and>
    tcp_receive (seal E) (unseal E) (rekey E) (srv_ids E) (clock E) True (srv n) = Inr s_out"
  using cli_receive_ok [OF assms(1) reachable_net_inv [OF assms]]
    srv_receive_ok [OF assms(1) reachable_net_inv [OF assms]]
  by blast

theorem tcp_pair_never_fails_witness:
  "\<exists>c_out. tcp_receive (seal demo_env) (unseal demo_env) (rekey demo_env) (cli_ids demo_env) 0 True
     (cli demo_net) = Inr c_out"
  using tcp_pair_never_fails [OF demo_env_good demo_net_reachable] by (auto simp: demo_env_def)

text \<open>
  C13. Business data is delivered exactly once and in order in both directions, through any
  number of mode switches and rekeys and any cutting of the streams: what a side has
  published is a prefix of what the other side has sent, with the integrity flag telling the
  mode it was sent in, and all of it once no bytes are in flight.
\<close>

theorem tcp_pair_in_order_exactly_once:
  assumes "good_env E" and "reachable E mode k1 k2 n"
  shows "prefix (business (cli_log n)) (srv_sent n) \<and> prefix (business (srv_log n)) (cli_sent n) \<and>
    (to_cli n = [] \<and> rr_buffered (ts_reader (cli n)) = [] \<longrightarrow> business (cli_log n) = srv_sent n) \<and>
    (to_srv n = [] \<and> rr_buffered (ts_reader (srv n)) = [] \<longrightarrow> business (srv_log n) = cli_sent n)"
proof -
  have p: "prefix (business log) sent \<and>
      (wire = [] \<and> rr_buffered (ts_reader s) = [] \<longrightarrow> business log = sent)"
    if "link_ok E ids s wire its encs log sent" for ids s wire its encs log sent
    using that link_quiet [OF that] by (auto simp: link_ok_def)
  from reachable_net_inv [OF assms] show ?thesis
    by (rule net_invE) (use p in blast)
qed

theorem tcp_pair_in_order_exactly_once_witness:
  "prefix (business (cli_log demo_net)) (srv_sent demo_net)"
  using tcp_pair_in_order_exactly_once [OF demo_env_good demo_net_reachable] by blast



end
