(* ===== verification/Game_Wire.thy ===== *)
theory Game_Wire
  imports Wire_Codec
begin

text \<open>
  The two wire formats of the game facade: the message envelope of
  \<^verbatim>\<open>rnet-game/src/envelope.rs\<close> and the join metadata of \<^verbatim>\<open>rnet-game/src/join.rs\<close> with the
  protocol identity of \<^verbatim>\<open>rnet-game/src/config.rs\<close>. Both are shown to be canonical
  \<open>wire_codec\<close>s, and version selection to pick the highest common version.
\<close>

section \<open>Envelopes\<close>

definition ENV_HEADER_LEN :: nat where "ENV_HEADER_LEN = 12"
definition ENV_APPLICATION :: u8 where "ENV_APPLICATION = 0"
definition HAS_SEQUENCE :: u8 where "HAS_SEQUENCE = 1"
definition HAS_TICK :: u8 where "HAS_TICK = 2"
definition HAS_DATAGRAM_SEQUENCE :: u8 where "HAS_DATAGRAM_SEQUENCE = 4"
definition ENV_SUPPORTED_FLAGS :: u8 where
  "ENV_SUPPORTED_FLAGS = HAS_SEQUENCE OR HAS_TICK OR HAS_DATAGRAM_SEQUENCE"

datatype envelope_kind = Heartbeat | ClockSync | Resume | Protocol

fun envelope_kind_tag :: "envelope_kind \<Rightarrow> u8" where
  "envelope_kind_tag Heartbeat = 1"
| "envelope_kind_tag ClockSync = 2"
| "envelope_kind_tag Resume = 3"
| "envelope_kind_tag Protocol = 4"

definition envelope_kind_of :: "u8 \<Rightarrow> envelope_kind result" where
  "envelope_kind_of v =
     (if v = 1 then Inr Heartbeat else if v = 2 then Inr ClockSync else if v = 3 then Inr Resume
      else if v = 4 then Inr Protocol else Inl ProtocolError)"

datatype decoded_envelope =
  Application "u32 option" "u32 option" "u32 option" bytes
| ControlEnvelope envelope_kind bytes

fun unwrap_or_default :: "'a :: zero option \<Rightarrow> 'a" where
  "unwrap_or_default None = 0"
| "unwrap_or_default (Some x) = x"

definition env_encode ::
    "u8 \<Rightarrow> u8 \<Rightarrow> u32 \<Rightarrow> u32 \<Rightarrow> u32 option \<Rightarrow> bytes \<Rightarrow> nat \<Rightarrow> bytes result" where
  "env_encode kind flags sequence tick datagram_sequence payload maximum_len =
     (let header_len = ENV_HEADER_LEN + 4 * (if datagram_sequence = None then 0 else 1)
      in case checked_add header_len (length payload) of
           None \<Rightarrow> Inl MessageTooLarge
         | Some encoded_len \<Rightarrow>
             if maximum_len < encoded_len then Inl MessageTooLarge
             else Inr ([kind] @ [flags] @ u16_be (word_of_nat header_len) @ u32_be sequence @
               u32_be tick @ (case datagram_sequence of None \<Rightarrow> [] | Some d \<Rightarrow> u32_be d) @
               payload))"

definition encode_application ::
    "bytes \<Rightarrow> u32 option \<Rightarrow> u32 option \<Rightarrow> nat \<Rightarrow> bytes result" where
  "encode_application payload sequence tick maximum_len =
     (let flags = (0 OR (if sequence \<noteq> None then HAS_SEQUENCE else 0)) OR
                  (if tick \<noteq> None then HAS_TICK else 0)
      in env_encode ENV_APPLICATION flags (unwrap_or_default sequence) (unwrap_or_default tick)
           None payload maximum_len)"

definition encode_udp_application ::
    "bytes \<Rightarrow> u32 option \<Rightarrow> u32 option \<Rightarrow> u32 \<Rightarrow> nat \<Rightarrow> bytes result" where
  "encode_udp_application payload sequence tick datagram_sequence maximum_len =
     (let flags = (HAS_DATAGRAM_SEQUENCE OR (if sequence \<noteq> None then HAS_SEQUENCE else 0)) OR
                  (if tick \<noteq> None then HAS_TICK else 0)
      in env_encode ENV_APPLICATION flags (unwrap_or_default sequence) (unwrap_or_default tick)
           (Some datagram_sequence) payload maximum_len)"

definition encode_game_control :: "envelope_kind \<Rightarrow> bytes \<Rightarrow> nat \<Rightarrow> bytes result" where
  "encode_game_control kind payload maximum_len =
     env_encode (envelope_kind_tag kind) 0 0 0 None payload maximum_len"

definition has_flag :: "u8 \<Rightarrow> u8 \<Rightarrow> bool" where
  "has_flag flags f \<longleftrightarrow> flags AND f \<noteq> 0"

definition decode_envelope :: "bytes \<Rightarrow> nat \<Rightarrow> decoded_envelope result" where
  "decode_envelope input maximum_len =
     (if maximum_len < length input then Inl MessageTooLarge
      else if length input < ENV_HEADER_LEN then Inl ProtocolError
      else
        let kind = input ! 0;
            flags = input ! 1;
            header_len = unat (u16_from_be (subslice 2 4 input));
            expected_header_len =
              (if has_flag flags HAS_DATAGRAM_SEQUENCE then ENV_HEADER_LEN + 4
               else ENV_HEADER_LEN);
            sequence = u32_from_be (subslice 4 8 input);
            tick = u32_from_be (subslice 8 12 input);
            payload = drop header_len input
        in if flags AND NOT ENV_SUPPORTED_FLAGS \<noteq> 0 then Inl ProtocolError
           else if header_len \<noteq> expected_header_len \<or> length input < header_len
           then Inl ProtocolError
           else if has_flag flags HAS_DATAGRAM_SEQUENCE \<and> kind \<noteq> ENV_APPLICATION
           then Inl ProtocolError
           else if kind = ENV_APPLICATION then
             (if \<not> has_flag flags HAS_SEQUENCE \<and> sequence \<noteq> 0 then Inl ProtocolError
              else if \<not> has_flag flags HAS_TICK \<and> tick \<noteq> 0 then Inl ProtocolError
              else Inr (Application
                (if has_flag flags HAS_SEQUENCE then Some sequence else None)
                (if has_flag flags HAS_TICK then Some tick else None)
                (if has_flag flags HAS_DATAGRAM_SEQUENCE
                 then Some (u32_from_be (subslice ENV_HEADER_LEN (ENV_HEADER_LEN + 4) input))
                 else None)
                payload))
           else if flags \<noteq> 0 \<or> sequence \<noteq> 0 \<or> tick \<noteq> 0 then Inl ProtocolError
           else case envelope_kind_of kind of
             Inl e \<Rightarrow> Inl e
           | Inr k \<Rightarrow> Inr (ControlEnvelope k payload))"

text \<open>The three encoders by the envelope they produce.\<close>

fun encode_envelope :: "nat \<Rightarrow> decoded_envelope \<Rightarrow> bytes result" where
  "encode_envelope m (Application s t None p) = encode_application p s t m"
| "encode_envelope m (Application s t (Some d) p) = encode_udp_application p s t d m"
| "encode_envelope m (ControlEnvelope k p) = encode_game_control k p m"

section \<open>Join metadata\<close>

record game_protocol =
  protocol_id :: u64
  min_version :: u32
  max_version :: u32
  build_id :: u64
  capabilities :: u64

definition game_protocol_new :: "u64 \<Rightarrow> u32 \<Rightarrow> u32 \<Rightarrow> game_protocol" where
  "game_protocol_new i lo hi = \<lparr>protocol_id = i, min_version = lo, max_version = hi,
     build_id = 0, capabilities = 0\<rparr>"

definition protocol_is_valid :: "game_protocol \<Rightarrow> bool" where
  "protocol_is_valid p \<longleftrightarrow>
     protocol_id p \<noteq> 0 \<and> min_version p \<noteq> 0 \<and> min_version p \<le> max_version p"

definition JOIN_HEADER_LEN :: nat where "JOIN_HEADER_LEN = 54"
definition RANGE_RESUME_HEADER_LEN :: nat where "RANGE_RESUME_HEADER_LEN = 56"
definition RANGE_MAGIC :: bytes where "RANGE_MAGIC = [0x52, 0x47, 0x56, 0x34]"
definition RANGE_RESUME_MAGIC :: bytes where "RANGE_RESUME_MAGIC = [0x52, 0x47, 0x52, 0x34]"

definition ZERO_NONCE :: bytes where "ZERO_NONCE = replicate 16 0"

record range_join_request =
  rj_protocol :: game_protocol
  rj_nonce :: bytes
  rj_ticket :: bytes
  rj_resume_ticket :: "bytes option"

definition select_version :: "game_protocol \<Rightarrow> game_protocol \<Rightarrow> u32 option" where
  "select_version client server =
     (if \<not> protocol_is_valid client \<or> \<not> protocol_is_valid server \<or>
         protocol_id client \<noteq> protocol_id server then None
      else let lower = max (min_version client) (min_version server);
               upper = min (max_version client) (max_version server)
           in if lower \<le> upper then Some upper else None)"

definition encode_range_inner ::
    "game_protocol \<Rightarrow> bytes \<Rightarrow> bytes \<Rightarrow> bytes option \<Rightarrow> nat \<Rightarrow> bytes result" where
  "encode_range_inner protocol nonce ticket resume_ticket maximum_len =
     (if \<not> protocol_is_valid protocol \<or> nonce = ZERO_NONCE then Inl InvalidArgument
      else
        let header_len = (if resume_ticket \<noteq> None then RANGE_RESUME_HEADER_LEN
                          else JOIN_HEADER_LEN);
            resume_len = (case resume_ticket of None \<Rightarrow> 0 | Some r \<Rightarrow> length r)
        in case Option.bind (checked_add header_len (length ticket))
                  (\<lambda>len. checked_add len resume_len) of
             None \<Rightarrow> Inl MessageTooLarge
           | Some joined \<Rightarrow>
               if u16_max < length ticket \<or> (resume_ticket \<noteq> None \<and> u16_max < resume_len) \<or>
                  maximum_len < joined
               then Inl MessageTooLarge
               else Inr ((if resume_ticket \<noteq> None then RANGE_RESUME_MAGIC else RANGE_MAGIC) @
                 u64_be (protocol_id protocol) @ u32_be (min_version protocol) @
                 u32_be (max_version protocol) @ u64_be (build_id protocol) @
                 u64_be (capabilities protocol) @ nonce @ u16_be (word_of_nat (length ticket)) @
                 (case resume_ticket of None \<Rightarrow> [] | Some r \<Rightarrow> u16_be (word_of_nat (length r))) @
                 ticket @ (case resume_ticket of None \<Rightarrow> [] | Some r \<Rightarrow> r)))"

definition encode_range :: "game_protocol \<Rightarrow> bytes \<Rightarrow> bytes \<Rightarrow> nat \<Rightarrow> bytes result" where
  "encode_range protocol nonce ticket maximum_len =
     encode_range_inner protocol nonce ticket None maximum_len"

definition encode_range_resume ::
    "game_protocol \<Rightarrow> bytes \<Rightarrow> bytes \<Rightarrow> bytes \<Rightarrow> nat \<Rightarrow> bytes result" where
  "encode_range_resume protocol nonce ticket resume_ticket maximum_len =
     (if resume_ticket = [] then Inl InvalidArgument
      else encode_range_inner protocol nonce ticket (Some resume_ticket) maximum_len)"

definition decode_range :: "bytes \<Rightarrow> range_join_request result" where
  "decode_range input =
     (if length input < JOIN_HEADER_LEN \<or>
         (take 4 input \<noteq> RANGE_MAGIC \<and> take 4 input \<noteq> RANGE_RESUME_MAGIC)
      then Inl ProtocolError
      else
        let protocol = \<lparr>protocol_id = u64_from_be (subslice 4 12 input),
                        min_version = u32_from_be (subslice 12 16 input),
                        max_version = u32_from_be (subslice 16 20 input),
                        build_id = u64_from_be (subslice 20 28 input),
                        capabilities = u64_from_be (subslice 28 36 input)\<rparr>;
            nonce = subslice 36 52 input;
            ticket_len = unat (u16_from_be (subslice 52 54 input));
            resume = (take 4 input = RANGE_RESUME_MAGIC)
        in if \<not> protocol_is_valid protocol \<or> nonce = ZERO_NONCE then Inl ProtocolError
           else if resume \<and> length input < RANGE_RESUME_HEADER_LEN then Inl ProtocolError
           else
             let header_len = (if resume then RANGE_RESUME_HEADER_LEN else JOIN_HEADER_LEN);
                 resume_len = (if resume then unat (u16_from_be (subslice 54 56 input)) else 0)
             in if (resume \<and> resume_len = 0) \<or> length input \<noteq> header_len + ticket_len + resume_len
                then Inl ProtocolError
                else let ticket_end = header_len + ticket_len
                     in Inr \<lparr>rj_protocol = protocol, rj_nonce = nonce,
                             rj_ticket = subslice header_len ticket_end input,
                             rj_resume_ticket =
                               (if resume then Some (drop ticket_end input) else None)\<rparr>)"

definition encode_join :: "nat \<Rightarrow> range_join_request \<Rightarrow> bytes result" where
  "encode_join m r =
     (case rj_resume_ticket r of
        None \<Rightarrow> encode_range (rj_protocol r) (rj_nonce r) (rj_ticket r) m
      | Some t \<Rightarrow> encode_range_resume (rj_protocol r) (rj_nonce r) (rj_ticket r) t m)"

section \<open>The envelope codec\<close>

lemmas flag_defs = HAS_SEQUENCE_def HAS_TICK_def HAS_DATAGRAM_SEQUENCE_def ENV_SUPPORTED_FLAGS_def
  has_flag_def

lemma envelope_kind_of_iff [simp]: "envelope_kind_of v = Inr k \<longleftrightarrow> v = envelope_kind_tag k"
  by (cases k) (auto simp: envelope_kind_of_def)

lemma envelope_kind_tag_of [simp]: "envelope_kind_of (envelope_kind_tag k) = Inr k"
  by simp

lemma envelope_kind_tag_nonzero [simp]: "envelope_kind_tag k \<noteq> 0"
  by (cases k) auto

lemma supported_flags_cases:
  assumes "flags AND NOT ENV_SUPPORTED_FLAGS = 0"
  shows "flags \<in> {0, 1, 2, 3, 4, 5, 6, 7}"
proof -
  have m: "ENV_SUPPORTED_FLAGS = mask 3" by (simp add: flag_defs mask_eq_exp_minus_1)
  have "flags = (flags AND ENV_SUPPORTED_FLAGS) OR (flags AND NOT ENV_SUPPORTED_FLAGS)"
    by (simp add: bit_eq_iff bit_simps) blast
  then have "flags = flags AND ENV_SUPPORTED_FLAGS"
    unfolding assms by simp
  then have "take_bit 3 flags = flags"
    unfolding m by (simp add: take_bit_eq_mask)
  then have "unat flags = take_bit 3 (unat flags)"
    by (metis unsigned_take_bit_eq)
  then have "unat flags < 2 ^ 3"
    by (metis take_bit_nat_less_exp)
  then show ?thesis
    by (simp add: word_unat_eq_iff) arith
qed

lemma env_encode_Inr_iff:
  "env_encode k f s t d p m = Inr bs \<longleftrightarrow>
     (let h = 12 + (if d = None then 0 else 4) in h + length p \<le> usize_max \<and> h + length p \<le> m \<and>
       bs = [k] @ [f] @ u16_be (word_of_nat h) @ u32_be s @ u32_be t @
         (case d of None \<Rightarrow> [] | Some d \<Rightarrow> u32_be d) @ p)"
  by (auto simp: env_encode_def Let_def ENV_HEADER_LEN_def split: option.splits)

lemma unat_header_len [simp]:
  "unat (word_of_nat 12 :: u16) = 12" "unat (word_of_nat 16 :: u16) = 16"
  by simp_all

lemma decode_encode_envelope:
  assumes "encode_envelope m e = Inr bs"
  shows "decode_envelope bs m = Inr e"
proof (cases e)
  case (Application s t d p)
  then show ?thesis using assms
    by (cases s; cases t; cases d)
      (simp_all add: encode_application_def encode_udp_application_def env_encode_Inr_iff
        Let_def decode_envelope_def ENV_HEADER_LEN_def ENV_APPLICATION_def flag_defs)
next
  case (ControlEnvelope k p)
  then show ?thesis using assms
    by (simp add: encode_game_control_def env_encode_Inr_iff Let_def decode_envelope_def
        ENV_HEADER_LEN_def ENV_APPLICATION_def flag_defs)
qed

text \<open>Re-encoding the fields a decoder read gives the bytes back.\<close>

lemma env_encode_fields:
  assumes len: "h \<le> length bs" "length bs \<le> m" "m \<le> usize_max"
    and h: "unat (u16_from_be (subslice 2 4 bs)) = h"
    and d: "d = None \<and> h = 12 \<or> d = Some (u32_from_be (subslice 12 16 bs)) \<and> h = 16"
  shows "env_encode (bs ! 0) (bs ! 1) (u32_from_be (subslice 4 8 bs))
    (u32_from_be (subslice 8 12 bs)) d (drop h bs) m = Inr bs"
proof -
  have n: "12 \<le> length bs" using d len by auto
  have n01: "0 < length bs" "1 < length bs" using n by linarith+
  have parts: "[bs ! 0] = subslice 0 1 bs" "[bs ! 1] = subslice 1 2 bs"
    by (rule nth_as_subslice [OF n01(1)], simp, rule nth_as_subslice [OF n01(2)], simp)
  have hl: "u16_be (word_of_nat h) = subslice 2 4 bs"
    unfolding h [symmetric] using n by simp
  have st: "u32_be (u32_from_be (subslice 4 8 bs)) = subslice 4 8 bs"
    "u32_be (u32_from_be (subslice 8 12 bs)) = subslice 8 12 bs"
    using n by simp_all
  have tail: "(case d of None \<Rightarrow> [] | Some d \<Rightarrow> u32_be d) @ drop h bs = drop 12 bs"
    using d len by (auto simp: subslice_to_end)
  have hd: "12 + (if d = None then 0 else 4) = h" using d by auto
  show ?thesis
    unfolding env_encode_Inr_iff Let_def hd hl st tail parts
    using len by (simp add: subslice_to_end)
qed

lemma encode_decode_envelope:
  assumes "decode_envelope bs m = Inr e" and "m \<le> usize_max"
  shows "encode_envelope m e = Inr bs"
proof -
  let ?f = "bs ! 1" and ?h = "unat (u16_from_be (subslice 2 4 bs))"
  let ?d = "if has_flag ?f HAS_DATAGRAM_SEQUENCE then Some (u32_from_be (subslice 12 16 bs)) else None"
  have d: "length bs \<le> m" "12 \<le> length bs" "?f AND NOT ENV_SUPPORTED_FLAGS = 0" "?h \<le> length bs"
    "?d = None \<and> ?h = 12 \<or> ?d = Some (u32_from_be (subslice 12 16 bs)) \<and> ?h = 16"
    using assms(1)
    by (auto simp: decode_envelope_def Let_def ENV_HEADER_LEN_def split: if_splits)
  note fields = env_encode_fields [OF d(4,1) assms(2) refl d(5)]
  show ?thesis
  proof (cases "bs ! 0 = 0")
    case True
    then show ?thesis using assms(1) fields supported_flags_cases [OF d(3)]
      by (auto simp: decode_envelope_def Let_def ENV_HEADER_LEN_def ENV_APPLICATION_def flag_defs
          encode_application_def encode_udp_application_def split: if_splits)
  next
    case False
    then show ?thesis using assms(1) fields
      by (auto simp: decode_envelope_def Let_def ENV_HEADER_LEN_def ENV_APPLICATION_def flag_defs
          encode_game_control_def split: if_splits sum.splits)
  qed
qed

interpretation envelope: wire_codec encode_envelope "\<lambda>m bs. decode_envelope bs m"
    "\<lambda>m. m \<le> usize_max" "\<lambda>e. True"
  by unfold_locales (auto intro: decode_encode_envelope encode_decode_envelope)

section \<open>The join codec\<close>

lemma range_magic [simp]:
  "length RANGE_MAGIC = 4" "length RANGE_RESUME_MAGIC = 4" "RANGE_MAGIC \<noteq> RANGE_RESUME_MAGIC"
  "RANGE_RESUME_MAGIC \<noteq> RANGE_MAGIC"
  by (simp_all add: RANGE_MAGIC_def RANGE_RESUME_MAGIC_def)

definition join_valid :: "range_join_request \<Rightarrow> bool" where
  "join_valid r \<longleftrightarrow> length (rj_nonce r) = 16"

definition join_fits :: "nat \<Rightarrow> bool" where
  "join_fits m \<longleftrightarrow> RANGE_RESUME_HEADER_LEN + 2 * u16_max \<le> m"

lemma encode_range_inner_Inr_iff:
  "encode_range_inner p nonce ticket rt m = Inr bs \<longleftrightarrow>
     protocol_is_valid p \<and> nonce \<noteq> ZERO_NONCE \<and> length ticket \<le> u16_max \<and>
     (case rt of None \<Rightarrow> True | Some r \<Rightarrow> length r \<le> u16_max) \<and>
     (case rt of None \<Rightarrow> 54 + length ticket | Some r \<Rightarrow> 56 + length ticket + length r) \<le> m \<and>
     bs = (if rt \<noteq> None then RANGE_RESUME_MAGIC else RANGE_MAGIC) @
       u64_be (protocol_id p) @ u32_be (min_version p) @ u32_be (max_version p) @
       u64_be (build_id p) @ u64_be (capabilities p) @ nonce @ u16_be (word_of_nat (length ticket)) @
       (case rt of None \<Rightarrow> [] | Some r \<Rightarrow> u16_be (word_of_nat (length r))) @
       ticket @ (case rt of None \<Rightarrow> [] | Some r \<Rightarrow> r)"
  by (auto simp: encode_range_inner_def Let_def RANGE_RESUME_HEADER_LEN_def JOIN_HEADER_LEN_def
      usize_max_def u16_max_def split: option.splits Option.bind_splits)

lemma protocol_fields [simp]:
  "\<lparr>protocol_id = protocol_id p, min_version = min_version p, max_version = max_version p,
    build_id = build_id p, capabilities = capabilities p\<rparr> = (p :: game_protocol)"
  by simp

lemma decode_encode_join:
  assumes "encode_join m r = Inr bs" and "join_valid r"
  shows "decode_range bs = Inr r"
proof (cases "rj_resume_ticket r")
  case None
  have e: "encode_range_inner (rj_protocol r) (rj_nonce r) (rj_ticket r) None m = Inr bs"
    using assms(1) None by (simp add: encode_join_def encode_range_def)
  show ?thesis
    using e assms(2) None unfolding encode_range_inner_Inr_iff
    by (cases r) (simp add: Let_def decode_range_def JOIN_HEADER_LEN_def join_valid_def unat_u16_of_nat)
next
  case (Some t)
  have e: "encode_range_inner (rj_protocol r) (rj_nonce r) (rj_ticket r) (Some t) m = Inr bs"
    and t: "t \<noteq> []"
    using assms(1) Some by (simp_all add: encode_join_def encode_range_resume_def split: if_splits)
  show ?thesis
    using e t assms(2) Some unfolding encode_range_inner_Inr_iff
    by (cases r) (simp add: Let_def decode_range_def JOIN_HEADER_LEN_def RANGE_RESUME_HEADER_LEN_def
        join_valid_def unat_u16_of_nat)
qed

lemma decode_range_fields:
  assumes "decode_range bs = Inr r"
  defines "resume \<equiv> take 4 bs = RANGE_RESUME_MAGIC"
    and "tlen \<equiv> unat (u16_from_be (subslice 52 54 bs))"
    and "rlen \<equiv> unat (u16_from_be (subslice 54 56 bs))"
  shows "54 \<le> length bs \<and> (resume \<or> take 4 bs = RANGE_MAGIC) \<and>
    protocol_is_valid (rj_protocol r) \<and> rj_nonce r \<noteq> ZERO_NONCE \<and>
    protocol_id (rj_protocol r) = u64_from_be (subslice 4 12 bs) \<and>
    min_version (rj_protocol r) = u32_from_be (subslice 12 16 bs) \<and>
    max_version (rj_protocol r) = u32_from_be (subslice 16 20 bs) \<and>
    build_id (rj_protocol r) = u64_from_be (subslice 20 28 bs) \<and>
    capabilities (rj_protocol r) = u64_from_be (subslice 28 36 bs) \<and>
    rj_nonce r = subslice 36 52 bs \<and>
    (if resume then rlen \<noteq> 0 \<and> length bs = 56 + tlen + rlen \<and> rj_ticket r = subslice 56 (56 + tlen) bs \<and>
        rj_resume_ticket r = Some (drop (56 + tlen) bs)
     else length bs = 54 + tlen \<and> rj_ticket r = subslice 54 (54 + tlen) bs \<and>
        rj_resume_ticket r = None)"
  using assms(1)
  unfolding decode_range_def Let_def JOIN_HEADER_LEN_def RANGE_RESUME_HEADER_LEN_def
    resume_def [symmetric] tlen_def [symmetric] rlen_def [symmetric]
  by (cases resume) (simp split: if_split_asm, drule sym, simp)+

lemma encode_decode_join:
  assumes dec: "decode_range bs = Inr r" and m: "join_fits m"
  shows "encode_join m r = Inr bs \<and> join_valid r"
proof -
  let ?resume = "take 4 bs = RANGE_RESUME_MAGIC"
  let ?tl = "unat (u16_from_be (subslice 52 54 bs))"
  let ?rl = "unat (u16_from_be (subslice 54 56 bs))"
  note d = decode_range_fields [OF dec]
  have n: "54 \<le> length bs" and magic: "?resume \<or> take 4 bs = RANGE_MAGIC"
    and p: "protocol_is_valid (rj_protocol r)" and z: "rj_nonce r \<noteq> ZERO_NONCE"
    using d by blast+
  have f: "protocol_id (rj_protocol r) = u64_from_be (subslice 4 12 bs)"
      "min_version (rj_protocol r) = u32_from_be (subslice 12 16 bs)"
      "max_version (rj_protocol r) = u32_from_be (subslice 16 20 bs)"
      "build_id (rj_protocol r) = u64_from_be (subslice 20 28 bs)"
      "capabilities (rj_protocol r) = u64_from_be (subslice 28 36 bs)"
      "rj_nonce r = subslice 36 52 bs"
    using d by blast+
  have res: "?resume \<Longrightarrow> ?rl \<noteq> 0 \<and> length bs = 56 + ?tl + ?rl \<and>
        rj_ticket r = subslice 56 (56 + ?tl) bs \<and> rj_resume_ticket r = Some (drop (56 + ?tl) bs)"
    and nores: "\<not> ?resume \<Longrightarrow> length bs = 54 + ?tl \<and>
        rj_ticket r = subslice 54 (54 + ?tl) bs \<and> rj_resume_ticket r = None"
    using d by presburger+
  have head: "u64_be (protocol_id (rj_protocol r)) @ u32_be (min_version (rj_protocol r)) @
      u32_be (max_version (rj_protocol r)) @ u64_be (build_id (rj_protocol r)) @
      u64_be (capabilities (rj_protocol r)) @ rj_nonce r @ subslice 52 54 bs @ xs =
      subslice 4 54 bs @ xs" for xs
    unfolding f using n by (simp add: subslice_join flip: append_assoc)
  have lens: "56 + ?tl + ?rl \<le> m" "54 + ?tl \<le> m"
    using m unat_u16_le [of "u16_from_be (subslice 52 54 bs)"]
      unat_u16_le [of "u16_from_be (subslice 54 56 bs)"]
    unfolding join_fits_def RANGE_RESUME_HEADER_LEN_def by linarith+
  have v: "join_valid r" using n by (simp add: join_valid_def f)
  show ?thesis
  proof (cases ?resume)
    case True
    have tl: "u16_be (word_of_nat (length (rj_ticket r))) = subslice 52 54 bs"
      "u16_be (word_of_nat (length (drop (56 + ?tl) bs))) = subslice 54 56 bs"
      using res [OF True] by simp_all
    have "take 4 bs @ subslice 4 54 bs @ subslice 54 56 bs @ rj_ticket r @ drop (56 + ?tl) bs = bs"
      using res [OF True] by (simp add: subslice_to_end)
    then have "encode_range_inner (rj_protocol r) (rj_nonce r) (rj_ticket r)
        (Some (drop (56 + ?tl) bs)) m = Inr bs"
      unfolding encode_range_inner_Inr_iff option.case tl head
      using p z lens True res [OF True] by simp
    then show ?thesis using v res [OF True]
      by (auto simp: encode_join_def encode_range_resume_def)
  next
    case False
    have tl: "u16_be (word_of_nat (length (rj_ticket r))) = subslice 52 54 bs"
      using nores [OF False] n by simp
    have "subslice 54 (54 + ?tl) bs = drop 54 bs"
      by (rule subslice_full) (use nores [OF False] in linarith)
    then have "take 4 bs @ subslice 4 54 bs @ rj_ticket r = bs"
      using nores [OF False] by (simp add: subslice_to_end)
    moreover have "take 4 bs = RANGE_MAGIC" using magic False by blast
    ultimately have "encode_range_inner (rj_protocol r) (rj_nonce r) (rj_ticket r) None m = Inr bs"
      unfolding encode_range_inner_Inr_iff option.case append_Nil append_Nil2 tl head
      using p z lens nores [OF False] by simp
    then show ?thesis using v nores [OF False]
      by (simp add: encode_join_def encode_range_def)
  qed
qed

interpretation join: wire_codec encode_join "\<lambda>m bs. decode_range bs" join_fits join_valid
  by unfold_locales (auto intro: decode_encode_join dest: encode_decode_join)

section \<open>Version selection\<close>

definition supports :: "game_protocol \<Rightarrow> u32 \<Rightarrow> bool" where
  "supports p v \<longleftrightarrow> min_version p \<le> v \<and> v \<le> max_version p"

lemma supports_both:
  "supports c v \<and> supports s v \<longleftrightarrow>
     max (min_version c) (min_version s) \<le> v \<and> v \<le> min (max_version c) (max_version s)"
  by (auto simp: supports_def)

lemma greatest_in_interval:
  "(l \<le> u \<and> v = u) \<longleftrightarrow> (l \<le> v \<and> v \<le> u) \<and> (\<forall>w. l \<le> w \<and> w \<le> u \<longrightarrow> w \<le> v)"
  for l :: "'a :: linorder"
  by (auto intro: antisym order_trans)

lemma select_version_Some_iff:
  assumes "protocol_is_valid c" and "protocol_is_valid s" and "protocol_id c = protocol_id s"
  shows "select_version c s = Some v \<longleftrightarrow>
    (supports c v \<and> supports s v) \<and> (\<forall>w. supports c w \<and> supports s w \<longrightarrow> w \<le> v)"
proof -
  let ?l = "max (min_version c) (min_version s)" and ?u = "min (max_version c) (max_version s)"
  have "select_version c s = Some v \<longleftrightarrow> ?l \<le> ?u \<and> v = ?u"
    using assms by (auto simp: select_version_def Let_def simp del: max.bounded_iff min.bounded_iff)
  then show ?thesis unfolding supports_both greatest_in_interval .
qed

lemma select_version_None_iff:
  assumes "protocol_is_valid c" and "protocol_is_valid s" and "protocol_id c = protocol_id s"
  shows "select_version c s = None \<longleftrightarrow> (\<nexists>v. supports c v \<and> supports s v)"
proof -
  let ?l = "max (min_version c) (min_version s)" and ?u = "min (max_version c) (max_version s)"
  have "select_version c s = None \<longleftrightarrow> \<not> ?l \<le> ?u"
    using assms by (auto simp: select_version_def Let_def simp del: max.bounded_iff min.bounded_iff)
  also have "\<dots> \<longleftrightarrow> (\<nexists>v. ?l \<le> v \<and> v \<le> ?u)" by (meson order_refl order_trans)
  finally show ?thesis unfolding supports_both .
qed

section \<open>Properties\<close>

text \<open>
  C15. The game envelope is canonical: under any representable size limit the decoder accepts
  exactly the byte strings the encoders emit, and decoding returns the message that was encoded,
  so no two byte strings carry the same message and no unknown header content is skipped.
\<close>

theorem envelope_canonical:
  assumes "maximum_len \<le> usize_max"
  shows "decode_envelope input maximum_len = Inr e \<longleftrightarrow> encode_envelope maximum_len e = Inr input"
  using envelope.dec_iff_enc [OF assms] by simp

theorem envelope_canonical_witness:
  "1024 \<le> usize_max \<and>
   encode_envelope 1024 (Application (Some 7) None (Some 9) [1, 2]) =
     Inr [0, 5, 0, 16, 0, 0, 0, 7, 0, 0, 0, 0, 0, 0, 0, 9, 1, 2] \<and>
   decode_envelope [0, 5, 0, 16, 0, 0, 0, 7, 0, 0, 0, 0, 0, 0, 0, 9, 1, 2] 1024 =
     Inr (Application (Some 7) None (Some 9) [1, 2])"
proof -
  have m: "1024 \<le> usize_max" by (simp add: usize_max_def)
  have e: "encode_envelope 1024 (Application (Some 7) None (Some 9) [1, 2]) =
     Inr [0, 5, 0, 16, 0, 0, 0, 7, 0, 0, 0, 0, 0, 0, 0, 9, 1, 2]"
    by (simp add: encode_udp_application_def env_encode_def Let_def ENV_HEADER_LEN_def
        ENV_APPLICATION_def flag_defs be_eval checked_add_def usize_max_def)
  show ?thesis using m e envelope_canonical [OF m] by blast
qed

text \<open>
  The join metadata is canonical: the decoder accepts exactly what the two join encoders
  emit (with or without a resume ticket) for a request with a 16-byte nonce, whenever the
  configured limit does not itself refuse the longest join.
\<close>

lemma join_canonical:
  assumes "join_fits maximum_len"
  shows "decode_range input = Inr r \<longleftrightarrow> join_valid r \<and> encode_join maximum_len r = Inr input"
  using join.dec_iff_enc [OF assms] .

text \<open>
  Version selection is exact: for two valid protocols with the same identity the server
  selects a version precisely when the two ranges have one in common, it is then the highest
  common one, and the choice does not depend on who proposes.
\<close>

lemma version_selection_maximal:
  assumes "protocol_is_valid client" and "protocol_is_valid server"
    and "protocol_id client = protocol_id server"
  shows "(select_version client server = Some v \<longleftrightarrow>
      (supports client v \<and> supports server v) \<and>
      (\<forall>w. supports client w \<and> supports server w \<longrightarrow> w \<le> v)) \<and>
    (select_version client server = None \<longleftrightarrow> (\<nexists>v. supports client v \<and> supports server v)) \<and>
    select_version client server = select_version server client"
  using select_version_Some_iff [OF assms] select_version_None_iff [OF assms] assms
  by (simp add: select_version_def max.commute min.commute)

end
