(* ===== verification/Tables.thy ===== *)
theory Tables
  imports Prelude "HOL-Library.Finite_Map" "HOL-Library.List_Lexorder"
begin

text \<open>
  Hash tables of the sources are finite maps. Their length and the sums the accounting
  arguments take over them are defined here, with the rules for insertion and removal. A loop
  over a table visits its keys in ascending order, one of the orders the hash table may yield.
\<close>

type_synonym ('k, 'v) table = "('k, 'v) fmap"

definition table_sum :: "('v \<Rightarrow> nat) \<Rightarrow> ('k, 'v) table \<Rightarrow> nat" where
  "table_sum f m = (\<Sum>k \<in> fset (fmdom m). f (the (fmlookup m k)))"

definition table_len :: "('k, 'v) table \<Rightarrow> nat" where
  "table_len m = fcard (fmdom m)"

definition table_keys :: "('k :: linorder, 'v) table \<Rightarrow> 'k list" where
  "table_keys m = sorted_list_of_fset (fmdom m)"

lemma set_table_keys [simp]: "set (table_keys m) = fset (fmdom m)"
  by (simp add: table_keys_def)

lemma distinct_table_keys [simp]: "distinct (table_keys m)"
  by (simp add: table_keys_def sorted_list_of_fset.rep_eq)

lemma table_len_sum: "table_len m = table_sum (\<lambda>_. 1) m"
  by (simp add: table_len_def table_sum_def fcard.rep_eq)

lemma table_sum_empty [simp]: "table_sum f fmempty = 0"
  by (simp add: table_sum_def)

lemma table_len_empty [simp]: "table_len fmempty = 0"
  by (simp add: table_len_sum)

lemma table_sum_cong:
  "(\<And>k v. fmlookup m k = Some v \<Longrightarrow> f v = g v) \<Longrightarrow> table_sum f m = table_sum g m"
  unfolding table_sum_def by (rule sum.cong) (auto simp: fmlookup_dom_iff)

lemma table_sum_zero:
  "(\<And>k v. fmlookup m k = Some v \<Longrightarrow> f v = 0) \<Longrightarrow> table_sum f m = 0"
  unfolding table_sum_def by (rule sum.neutral) (auto simp: fmlookup_dom_iff)

lemma table_sum_upd [simp]: "table_sum f (fmupd k v m) = f v + table_sum f (fmdrop k m)"
proof -
  have "table_sum f (fmupd k v m) =
      f v + (\<Sum>j \<in> fset (fmdom m) - {k}. f (the (fmlookup (fmupd k v m) j)))"
    unfolding table_sum_def by (simp add: sum.insert_remove)
  also have "(\<Sum>j \<in> fset (fmdom m) - {k}. f (the (fmlookup (fmupd k v m) j))) =
      (\<Sum>j \<in> fset (fmdom m) - {k}. f (the (fmlookup (fmdrop k m) j)))"
    by (rule sum.cong) auto
  finally show ?thesis unfolding table_sum_def by simp
qed

lemma table_sum_remove: "fmlookup m k = Some v \<Longrightarrow> table_sum f m = f v + table_sum f (fmdrop k m)"
  using table_sum_upd [of f k v m] by (metis fmap_ext fmupd_lookup)

lemma fmdrop_absent: "fmlookup m k = None \<Longrightarrow> fmdrop k m = m"
  by (rule fmap_ext) auto

lemma table_len_upd [simp]: "table_len (fmupd k v m) = Suc (table_len (fmdrop k m))"
  by (simp add: table_len_sum)

lemma table_len_remove: "fmlookup m k = Some v \<Longrightarrow> table_len m = Suc (table_len (fmdrop k m))"
  using table_sum_remove [of m k v "\<lambda>_. 1"] by (simp add: table_len_sum)

lemma table_len_put:
  assumes "fmlookup m k = None \<longrightarrow> table_len m < n" and "table_len m \<le> n"
  shows "table_len (fmupd k v m) \<le> n"
proof (cases "fmlookup m k")
  case (Some w)
  then show ?thesis using assms table_len_remove [OF Some] by simp
qed (use assms in \<open>simp add: fmdrop_absent\<close>)

lemma table_sum_drop_le: "table_sum f (fmdrop k m) \<le> table_sum f m"
  by (cases "fmlookup m k") (simp_all add: fmdrop_absent table_sum_remove)

lemma table_len_drop_le: "table_len (fmdrop k m) \<le> table_len m"
  by (simp add: table_len_sum table_sum_drop_le)

lemma table_sum_ge: "fmlookup m k = Some v \<Longrightarrow> f v \<le> table_sum f m"
  by (simp add: table_sum_remove)

lemma table_sum_filter_le: "table_sum f (fmfilter P m) \<le> table_sum f m"
proof -
  have "table_sum f (fmfilter P m) = (\<Sum>k \<in> fset (fmdom (fmfilter P m)). f (the (fmlookup m k)))"
    unfolding table_sum_def by (rule sum.cong) auto
  also have "\<dots> \<le> table_sum f m" unfolding table_sum_def by (rule sum_mono2) auto
  finally show ?thesis .
qed

lemma table_len_filter_le: "table_len (fmfilter P m) \<le> table_len m"
  by (simp add: table_len_sum table_sum_filter_le)

lemma fmupd_self: "fmlookup m k = Some v \<Longrightarrow> fmupd k v m = m"
  by (rule fmap_ext) auto

lemma fmdrop_upd_same [simp]: "fmdrop k (fmupd k v m) = fmdrop k m"
  by (rule fmap_ext) auto

lemma fmdrop_upd_other [simp]: "j \<noteq> k \<Longrightarrow> fmdrop k (fmupd j v m) = fmupd j v (fmdrop k m)"
  by (rule fmap_ext) auto

lemma fmdrop_idem [simp]: "fmdrop k (fmdrop k m) = fmdrop k m"
  by (rule fmap_ext) auto

lemma fmdrop_comm: "fmdrop j (fmdrop k m) = fmdrop k (fmdrop j m)"
  by (rule fmap_ext) auto

lemma fmdrop_empty [simp]: "fmdrop k fmempty = fmempty"
  by (rule fmap_ext) auto

lemma fmupd_upd_same [simp]: "fmupd k v (fmupd k w m) = fmupd k v m"
  by (rule fmap_ext) auto

end
