(* ===== verification/Resume_Registry.thy ===== *)
theory Resume_Registry
  imports Tables
begin

text \<open>
  The one-use resume tickets of \<^verbatim>\<open>rnet-game/src/resume.rs\<close>. The HMAC keyed with the
  runtime's secret is the parameter \<open>mac\<close>, the random generator a list of the outcomes of its
  calls. A hash set of nonces is a duplicate-free list, the ordered map of expiries an
  association list in key order. The registry is shown to implement a specification over the
  history of its calls: a ticket is honoured exactly when it is still granted.
\<close>

section \<open>Model\<close>

definition NONCE_LEN :: nat where "NONCE_LEN = 16"
definition TICKET_LEN :: nat where "TICKET_LEN = NONCE_LEN + 32"
definition SIGNING_CONTEXT :: bytes where
  "SIGNING_CONTEXT = map (\<lambda>c. word_of_nat (of_char c)) ''rnet-game-resume-v1''"
definition MAX_IDENTITY_LEN :: nat where "MAX_IDENTITY_LEN = 64"
definition MAX_TTL :: duration where "MAX_TTL = secs 300"

record selected_protocol =
  sp_protocol_id :: u64
  sp_version :: u32

definition sp_is_valid :: "selected_protocol \<Rightarrow> bool" where
  "sp_is_valid p \<longleftrightarrow> sp_protocol_id p \<noteq> 0 \<and> sp_version p \<noteq> 0"

record resume_claim =
  rc_old_session :: handle
  rc_identity :: bytes

record resume_scope =
  sc_endpoint :: handle
  sc_session :: handle
  sc_peer_key :: bytes
  sc_protocol :: selected_protocol

record ticket_entry =
  te_endpoint :: handle
  te_old_session :: handle
  te_peer_key :: bytes
  te_protocol_id :: u64
  te_protocol_version :: u32
  te_identity :: bytes
  te_expires :: instant

record resume_registry =
  reg_max_entries :: nat
  reg_entries :: "(bytes, ticket_entry) table"
  reg_by_session :: "(handle, bytes) table"
  reg_expiries :: "(instant \<times> bytes list) list"

definition validate_ttl :: "duration \<Rightarrow> unit result" where
  "validate_ttl ttl = (if ttl = 0 \<or> MAX_TTL < ttl then Inl InvalidArgument else Inr ())"

text \<open>The result of filling the secret is the second argument; the secret itself is \<open>mac\<close>.\<close>

definition reg_new :: "nat \<Rightarrow> bool \<Rightarrow> resume_registry result" where
  "reg_new max_entries rng_ok =
     (if \<not> (1 \<le> max_entries \<and> max_entries \<le> 65536) then Inl InvalidArgument
      else if \<not> rng_ok then Inl CryptoError
      else Inr \<lparr>reg_max_entries = max_entries, reg_entries = fmempty, reg_by_session = fmempty,
                reg_expiries = []\<rparr>)"

definition signing_input :: "bytes \<Rightarrow> bytes" where
  "signing_input nonce = SIGNING_CONTEXT @ nonce"

definition sign :: "(bytes \<Rightarrow> bytes) \<Rightarrow> bytes \<Rightarrow> bytes" where
  "sign mac nonce = mac (signing_input nonce)"

fun expiries_insert :: "instant \<Rightarrow> bytes \<Rightarrow> (instant \<times> bytes list) list \<Rightarrow> (instant \<times> bytes list) list" where
  "expiries_insert at n [] = [(at, [n])]"
| "expiries_insert at n ((a, ns) # rest) =
     (if at < a then (at, [n]) # (a, ns) # rest
      else if at = a then (a, List.insert n ns) # rest
      else (a, ns) # expiries_insert at n rest)"

fun expiries_remove :: "instant \<Rightarrow> bytes \<Rightarrow> (instant \<times> bytes list) list \<Rightarrow> (instant \<times> bytes list) list" where
  "expiries_remove at n [] = []"
| "expiries_remove at n ((a, ns) # rest) =
     (if at = a then (if removeAll n ns = [] then rest else (a, removeAll n ns) # rest)
      else (a, ns) # expiries_remove at n rest)"

definition reg_remove :: "bytes \<Rightarrow> resume_registry \<Rightarrow> resume_registry \<times> ticket_entry option" where
  "reg_remove nonce r =
     (case fmlookup (reg_entries r) nonce of
        None \<Rightarrow> (r, None)
      | Some e \<Rightarrow>
          (r\<lparr>reg_entries := fmdrop nonce (reg_entries r),
             reg_by_session := fmdrop (te_old_session e) (reg_by_session r),
             reg_expiries := expiries_remove (te_expires e) nonce (reg_expiries r)\<rparr>, Some e))"

definition drop_nonce :: "bytes \<Rightarrow> resume_registry \<Rightarrow> resume_registry" where
  "drop_nonce nonce r =
     (case fmlookup (reg_entries r) nonce of
        None \<Rightarrow> r
      | Some e \<Rightarrow> r\<lparr>reg_entries := fmdrop nonce (reg_entries r),
                    reg_by_session := fmdrop (te_old_session e) (reg_by_session r)\<rparr>)"

fun prune_buckets :: "instant \<Rightarrow> (instant \<times> bytes list) list \<Rightarrow> resume_registry \<Rightarrow> resume_registry" where
  "prune_buckets now [] r = r\<lparr>reg_expiries := []\<rparr>"
| "prune_buckets now ((at, ns) # rest) r =
     (if at \<le> now then prune_buckets now rest (fold drop_nonce ns r)
      else r\<lparr>reg_expiries := (at, ns) # rest\<rparr>)"

definition reg_prune :: "instant \<Rightarrow> resume_registry \<Rightarrow> resume_registry" where
  "reg_prune now r = prune_buckets now (reg_expiries r) r"

definition reg_revoke_session :: "handle \<Rightarrow> resume_registry \<Rightarrow> resume_registry" where
  "reg_revoke_session session r =
     (case fmlookup (reg_by_session r) session of
        None \<Rightarrow> r
      | Some nonce \<Rightarrow> fst (reg_remove nonce r))"

definition reg_revoke_endpoint :: "handle \<Rightarrow> resume_registry \<Rightarrow> resume_registry" where
  "reg_revoke_endpoint endpoint r =
     fold (\<lambda>n r. fst (reg_remove n r))
       (filter (\<lambda>n. te_endpoint (the (fmlookup (reg_entries r) n)) = endpoint)
          (table_keys (reg_entries r))) r"

definition reg_revoke_ticket :: "bytes \<Rightarrow> resume_registry \<Rightarrow> resume_registry" where
  "reg_revoke_ticket ticket r =
     (if length ticket \<noteq> TICKET_LEN then r
      else let nonce = take NONCE_LEN ticket
           in if fmlookup (reg_entries r) nonce \<noteq> None then fst (reg_remove nonce r) else r)"

definition reg_clear :: "resume_registry \<Rightarrow> resume_registry" where
  "reg_clear r = r\<lparr>reg_entries := fmempty, reg_by_session := fmempty, reg_expiries := []\<rparr>"

definition reg_outstanding :: "resume_registry \<Rightarrow> nat" where
  "reg_outstanding r = table_len (reg_entries r)"

text \<open>Four attempts, each with its own outcome of the random generator.\<close>

fun new_nonce_loop :: "nat \<Rightarrow> bytes option list \<Rightarrow> resume_registry \<Rightarrow> bytes result" where
  "new_nonce_loop 0 rnd r = Inl CryptoError"
| "new_nonce_loop (Suc k) [] r = Inl CryptoError"
| "new_nonce_loop (Suc k) (None # rnd) r = Inl CryptoError"
| "new_nonce_loop (Suc k) (Some nonce # rnd) r =
     (if fmlookup (reg_entries r) nonce = None then Inr nonce else new_nonce_loop k rnd r)"

definition new_nonce :: "bytes option list \<Rightarrow> resume_registry \<Rightarrow> bytes result" where
  "new_nonce rnd r = new_nonce_loop 4 rnd r"

definition entry_of :: "resume_scope \<Rightarrow> bytes \<Rightarrow> instant \<Rightarrow> ticket_entry" where
  "entry_of scope identity expires =
     \<lparr>te_endpoint = sc_endpoint scope, te_old_session = sc_session scope,
      te_peer_key = sc_peer_key scope, te_protocol_id = sp_protocol_id (sc_protocol scope),
      te_protocol_version = sp_version (sc_protocol scope), te_identity = identity,
      te_expires = expires\<rparr>"

definition reg_issue ::
    "(bytes \<Rightarrow> bytes) \<Rightarrow> bytes option list \<Rightarrow> resume_scope \<Rightarrow> bytes \<Rightarrow> instant \<Rightarrow> duration \<Rightarrow>
      resume_registry \<Rightarrow> resume_registry \<times> bytes result" where
  "reg_issue mac rnd scope identity now ttl r0 =
     (if sc_endpoint scope = 0 \<or> sc_session scope = 0 \<or> \<not> sp_is_valid (sc_protocol scope) \<or>
         identity = [] \<or> MAX_IDENTITY_LEN < length identity
      then (r0, Inl InvalidArgument)
      else case validate_ttl ttl of
        Inl e \<Rightarrow> (r0, Inl e)
      | Inr _ \<Rightarrow>
          (case instant_checked_add now ttl of
             None \<Rightarrow> (r0, Inl InvalidArgument)
           | Some expires \<Rightarrow>
               let r = reg_prune now r0
               in if reg_max_entries r \<le> table_len (reg_entries r) \<and>
                     fmlookup (reg_by_session r) (sc_session scope) = None
                  then (r, Inl WouldBlock)
                  else case new_nonce rnd r of
                    Inl e \<Rightarrow> (r, Inl e)
                  | Inr nonce \<Rightarrow>
                      let ticket = nonce @ sign mac nonce;
                          r1 = reg_revoke_session (sc_session scope) r
                      in (r1\<lparr>reg_entries :=
                                fmupd nonce (entry_of scope identity expires) (reg_entries r1),
                             reg_by_session := fmupd (sc_session scope) nonce (reg_by_session r1),
                             reg_expiries := expiries_insert expires nonce (reg_expiries r1)\<rparr>,
                          Inr ticket)))"

text \<open>The checks shared by the claim and by its preview.\<close>

definition ticket_nonce :: "(bytes \<Rightarrow> bytes) \<Rightarrow> bytes \<Rightarrow> bytes result" where
  "ticket_nonce mac ticket =
     (if length ticket \<noteq> TICKET_LEN then Inl ProtocolError
      else let nonce = take NONCE_LEN ticket
           in if mac (signing_input nonce) \<noteq> drop NONCE_LEN ticket then Inl ProtocolError
              else Inr nonce)"

definition reg_consume ::
    "(bytes \<Rightarrow> bytes) \<Rightarrow> bytes \<Rightarrow> handle \<Rightarrow> bytes \<Rightarrow> selected_protocol \<Rightarrow> instant \<Rightarrow>
      resume_registry \<Rightarrow> resume_registry \<times> resume_claim result" where
  "reg_consume mac ticket endpoint peer_key protocol now r0 =
     (let r = reg_prune now r0
      in case ticket_nonce mac ticket of
           Inl e \<Rightarrow> (r, Inl e)
         | Inr nonce \<Rightarrow>
             (case fmlookup (reg_entries r) nonce of
                None \<Rightarrow> (r, Inl ProtocolError)
              | Some e \<Rightarrow>
                  if te_endpoint e \<noteq> endpoint \<or> te_peer_key e \<noteq> peer_key \<or>
                     te_protocol_id e \<noteq> sp_protocol_id protocol \<or>
                     te_protocol_version e \<noteq> sp_version protocol \<or> te_expires e \<le> now
                  then (r, Inl ProtocolError)
                  else (fst (reg_remove nonce r),
                        Inr \<lparr>rc_old_session = te_old_session e, rc_identity = te_identity e\<rparr>)))"

definition reg_pinned_version ::
    "(bytes \<Rightarrow> bytes) \<Rightarrow> bytes \<Rightarrow> handle \<Rightarrow> bytes \<Rightarrow> u64 \<Rightarrow> instant \<Rightarrow>
      resume_registry \<Rightarrow> resume_registry \<times> u32 result" where
  "reg_pinned_version mac ticket endpoint peer_key protocol_id now r0 =
     (let r = reg_prune now r0
      in case ticket_nonce mac ticket of
           Inl e \<Rightarrow> (r, Inl e)
         | Inr nonce \<Rightarrow>
             (case fmlookup (reg_entries r) nonce of
                None \<Rightarrow> (r, Inl ProtocolError)
              | Some e \<Rightarrow>
                  if te_endpoint e \<noteq> endpoint \<or> te_peer_key e \<noteq> peer_key \<or>
                     te_protocol_id e \<noteq> protocol_id \<or> te_expires e \<le> now
                  then (r, Inl ProtocolError)
                  else (r, Inr (te_protocol_version e))))"

section \<open>Well-formedness\<close>

text \<open>
  The three tables describe one set of tickets: the buckets list exactly the nonces of the live
  entries under their expiry, and each session owns at most one of them.
\<close>

definition in_bucket :: "(instant \<times> bytes list) list \<Rightarrow> instant \<Rightarrow> bytes \<Rightarrow> bool" where
  "in_bucket bs t n \<longleftrightarrow> (\<exists>ns. (t, ns) \<in> set bs \<and> n \<in> set ns)"

definition indexed :: "(instant \<times> bytes list) list \<Rightarrow> resume_registry \<Rightarrow> bool" where
  "indexed bs r \<longleftrightarrow> sorted_wrt (<) (map fst bs) \<and>
     (\<forall>t n. in_bucket bs t n \<longleftrightarrow> (\<exists>e. fmlookup (reg_entries r) n = Some e \<and> te_expires e = t)) \<and>
     (\<forall>s n. fmlookup (reg_by_session r) s = Some n \<longleftrightarrow>
        (\<exists>e. fmlookup (reg_entries r) n = Some e \<and> te_old_session e = s))"

definition wf_reg :: "resume_registry \<Rightarrow> bool" where
  "wf_reg r \<longleftrightarrow> indexed (reg_expiries r) r \<and> table_len (reg_entries r) \<le> reg_max_entries r"

lemma in_bucket_simps [simp]:
  "in_bucket [] t n \<longleftrightarrow> False"
  "in_bucket ((a, ns) # bs) t n \<longleftrightarrow> t = a \<and> n \<in> set ns \<or> in_bucket bs t n"
  by (auto simp: in_bucket_def)

lemma in_bucket_ge: "in_bucket bs t n \<Longrightarrow> t \<in> set (map fst bs)"
  by (force simp: in_bucket_def)

lemma fst_expiries_insert: "set (map fst (expiries_insert at n bs)) = insert at (set (map fst bs))"
  by (induction at n bs rule: expiries_insert.induct) auto

lemma expiries_insert_sorted:
  "sorted_wrt (<) (map fst bs) \<Longrightarrow> sorted_wrt (<) (map fst (expiries_insert at n bs))"
proof (induction at n bs rule: expiries_insert.induct)
  case (2 at n a ns rest)
  then show ?case using fst_expiries_insert [of at n rest] by auto
qed simp

lemma in_bucket_insert [simp]:
  "in_bucket (expiries_insert at m bs) t n \<longleftrightarrow> t = at \<and> n = m \<or> in_bucket bs t n"
  by (induction at m bs rule: expiries_insert.induct) auto

lemma fst_expiries_remove: "set (map fst (expiries_remove at n bs)) \<subseteq> set (map fst bs)"
  by (induction at n bs rule: expiries_remove.induct) auto

lemma expiries_remove_sorted:
  "sorted_wrt (<) (map fst bs) \<Longrightarrow> sorted_wrt (<) (map fst (expiries_remove at n bs))"
proof (induction at n bs rule: expiries_remove.induct)
  case (2 at n a ns rest)
  have "a < t" if "t \<in> set (map fst (expiries_remove at n rest))" for t
    using subsetD [OF fst_expiries_remove that] 2(2) by auto
  then show ?case using 2 by auto
qed simp

lemma in_bucket_remove:
  "sorted_wrt (<) (map fst bs) \<Longrightarrow>
     in_bucket (expiries_remove at m bs) t n \<longleftrightarrow> in_bucket bs t n \<and> \<not> (t = at \<and> n = m)"
proof (induction at m bs rule: expiries_remove.induct)
  case (2 at m a ns rest)
  have later: "\<not> in_bucket rest a n" using 2(2) in_bucket_ge [of rest a n] by auto
  have gone: "removeAll m ns = [] \<longleftrightarrow> set ns \<subseteq> {m}"
    by (metis Diff_eq_empty_iff set_empty set_removeAll)
  show ?case using 2 later by (auto simp: gone)
qed simp

lemma reg_remove_fields [simp]:
  "reg_entries (fst (reg_remove n r)) = fmdrop n (reg_entries r)"
  "reg_max_entries (fst (reg_remove n r)) = reg_max_entries r"
  by (auto simp: reg_remove_def fmdrop_absent split: option.splits)

lemma indexedI:
  assumes "sorted_wrt (<) (map fst bs)"
    and "\<And>t n. in_bucket bs t n \<longleftrightarrow>
      (\<exists>e. fmlookup (reg_entries r) n = Some e \<and> te_expires e = t)"
    and "\<And>s n. fmlookup (reg_by_session r) s = Some n \<longleftrightarrow>
      (\<exists>e. fmlookup (reg_entries r) n = Some e \<and> te_old_session e = s)"
  shows "indexed bs r"
  using assms unfolding indexed_def by blast

lemma indexedD:
  assumes "indexed bs r"
  shows "sorted_wrt (<) (map fst bs)"
    and "in_bucket bs t n \<longleftrightarrow> (\<exists>e. fmlookup (reg_entries r) n = Some e \<and> te_expires e = t)"
    and "fmlookup (reg_by_session r) s = Some n \<longleftrightarrow>
      (\<exists>e. fmlookup (reg_entries r) n = Some e \<and> te_old_session e = s)"
  using assms unfolding indexed_def by blast+

lemma indexed_session_unique:
  assumes "indexed bs r" and "fmlookup (reg_entries r) n = Some e"
    and "fmlookup (reg_entries r) m = Some f" and "te_old_session e = te_old_session f"
  shows "n = m"
proof -
  have "fmlookup (reg_by_session r) (te_old_session e) = Some n"
    "fmlookup (reg_by_session r) (te_old_session e) = Some m"
    using assms by (auto simp: indexed_def)
  then show ?thesis by simp
qed

lemma reg_remove_wf [intro]:
  assumes "wf_reg r"
  shows "wf_reg (fst (reg_remove n r))"
proof (cases "fmlookup (reg_entries r) n")
  case None
  then show ?thesis using assms by (simp add: reg_remove_def)
next
  case (Some e)
  have i: "indexed (reg_expiries r) r" and l: "table_len (reg_entries r) \<le> reg_max_entries r"
    using assms by (auto simp: wf_reg_def)
  have "indexed (reg_expiries (fst (reg_remove n r))) (fst (reg_remove n r))"
  proof (rule indexedI)
    show "sorted_wrt (<) (map fst (reg_expiries (fst (reg_remove n r))))"
      using Some expiries_remove_sorted [OF indexedD(1) [OF i]] by (simp add: reg_remove_def)
    show "in_bucket (reg_expiries (fst (reg_remove n r))) t m \<longleftrightarrow>
        (\<exists>e. fmlookup (reg_entries (fst (reg_remove n r))) m = Some e \<and> te_expires e = t)" for t m
      using Some indexedD(2) [OF i, of t m] in_bucket_remove [OF indexedD(1) [OF i], of _ n t m]
      by (auto simp: reg_remove_def)
    show "fmlookup (reg_by_session (fst (reg_remove n r))) s = Some m \<longleftrightarrow>
        (\<exists>e. fmlookup (reg_entries (fst (reg_remove n r))) m = Some e \<and> te_old_session e = s)" for s m
    proof (cases "m = n")
      case True
      then show ?thesis using Some indexedD(3) [OF i, of s n] by (auto simp: reg_remove_def)
    next
      case False
      then have "\<forall>f. fmlookup (reg_entries r) m = Some f \<longrightarrow> te_old_session f \<noteq> te_old_session e"
        using indexed_session_unique [OF i Some] by metis
      then show ?thesis using Some False indexedD(3) [OF i, of s m] by (auto simp: reg_remove_def)
    qed
  qed
  then show ?thesis using l table_len_drop_le [of n "reg_entries r"]
    by (simp add: wf_reg_def)
qed

lemma drop_nonce_fields [simp]:
  "reg_entries (drop_nonce n r) = fmdrop n (reg_entries r)"
  "reg_max_entries (drop_nonce n r) = reg_max_entries r"
  "reg_expiries (drop_nonce n r) = reg_expiries r"
  by (auto simp: drop_nonce_def fmdrop_absent split: option.splits)

lemma fold_drop_nonce_lookup [simp]:
  "fmlookup (reg_entries (fold drop_nonce ns r)) n =
     (if n \<in> set ns then None else fmlookup (reg_entries r) n)"
  by (induction ns arbitrary: r) auto

lemma fold_drop_nonce_max [simp]:
  "reg_max_entries (fold drop_nonce ns r) = reg_max_entries r"
  by (induction ns arbitrary: r) auto

lemma fold_drop_nonce_len: "table_len (reg_entries (fold drop_nonce ns r)) \<le> table_len (reg_entries r)"
proof (induction ns arbitrary: r)
  case (Cons x ns)
  then show ?case
    using Cons.IH [of "drop_nonce x r"] table_len_drop_le [of x "reg_entries r"] by simp
qed simp

lemma fold_drop_nonce_sessions:
  assumes "\<forall>s n. fmlookup (reg_by_session r) s = Some n \<longleftrightarrow>
      (\<exists>e. fmlookup (reg_entries r) n = Some e \<and> te_old_session e = s)"
  shows "\<forall>s n. fmlookup (reg_by_session (fold drop_nonce ns r)) s = Some n \<longleftrightarrow>
      (\<exists>e. fmlookup (reg_entries (fold drop_nonce ns r)) n = Some e \<and> te_old_session e = s)"
  using assms
proof (induction ns arbitrary: r)
  case (Cons x ns)
  have "\<forall>s n. fmlookup (reg_by_session (drop_nonce x r)) s = Some n \<longleftrightarrow>
      (\<exists>e. fmlookup (reg_entries (drop_nonce x r)) n = Some e \<and> te_old_session e = s)"
  proof (cases "fmlookup (reg_entries r) x")
    case None
    then show ?thesis using Cons.prems by (simp add: drop_nonce_def)
  next
    case (Some e)
    have "fmlookup (reg_by_session r) (te_old_session e) = Some x" using Cons.prems Some by blast
    then have u: "te_old_session f \<noteq> te_old_session e" if "fmlookup (reg_entries r) n = Some f" "n \<noteq> x"
      for n f
      using Cons.prems that by (metis option.inject)
    show ?thesis
    proof (intro allI)
      fix s n
      have "fmlookup (reg_by_session r) s = Some n \<longleftrightarrow>
          (\<exists>e. fmlookup (reg_entries r) n = Some e \<and> te_old_session e = s)"
        using Cons.prems by blast
      then show "fmlookup (reg_by_session (drop_nonce x r)) s = Some n \<longleftrightarrow>
          (\<exists>e. fmlookup (reg_entries (drop_nonce x r)) n = Some e \<and> te_old_session e = s)"
        using Some u [of n] by (cases "n = x") (auto simp: drop_nonce_def)
    qed
  qed
  then show ?case using Cons.IH by simp
qed simp

lemma prune_buckets_spec:
  assumes "indexed bs r"
  shows "indexed (reg_expiries (prune_buckets now bs r)) (prune_buckets now bs r) \<and>
    (\<forall>n. fmlookup (reg_entries (prune_buckets now bs r)) n =
      (case fmlookup (reg_entries r) n of None \<Rightarrow> None
       | Some e \<Rightarrow> if te_expires e \<le> now then None else Some e))"
  using assms
proof (induction now bs r rule: prune_buckets.induct)
  case (1 now r)
  then have "fmlookup (reg_entries r) n = None" for n
    using indexedD(2) [OF 1, of _ n] by (cases "fmlookup (reg_entries r) n") auto
  then show ?case using 1 by (simp add: indexed_def)
next
  case (2 now at ns rest r)
  have i: "indexed ((at, ns) # rest) r" by fact
  have later: "at < t" if "in_bucket rest t n" for t n
    using i in_bucket_ge [OF that] by (auto simp: indexed_def)
  show ?case
  proof (cases "at \<le> now")
    case True
    let ?r = "fold drop_nonce ns r"
    have b: "in_bucket rest t n \<longleftrightarrow>
        n \<notin> set ns \<and> (\<exists>e. fmlookup (reg_entries r) n = Some e \<and> te_expires e = t)" for t n
      using indexedD(2) [OF i, of t n] indexedD(2) [OF i, of at n] later [of t n]
      by (cases "n \<in> set ns") auto
    have "indexed rest ?r"
    proof (rule indexedI)
      show "sorted_wrt (<) (map fst rest)" using indexedD(1) [OF i] by simp
    qed (use b fold_drop_nonce_sessions [of r ns] indexedD(3) [OF i] in simp_all)
    moreover have "te_expires e \<le> now" if "n \<in> set ns" "fmlookup (reg_entries r) n = Some e" for n e
      using indexedD(2) [OF i, of at n] that True by auto
    ultimately show ?thesis using 2(1) True by (simp split: option.split)
  next
    case False
    have "\<not> te_expires e \<le> now" if "fmlookup (reg_entries r) n = Some e" for n e
    proof -
      have "in_bucket ((at, ns) # rest) (te_expires e) n" using indexedD(2) [OF i] that by blast
      then have "at \<le> te_expires e" using later [of "te_expires e" n] by auto
      then show ?thesis using False by simp
    qed
    then show ?thesis using i False by (simp add: indexed_def split: option.split)
  qed
qed

section \<open>What each operation does to the live tickets\<close>

definition retain :: "('a \<Rightarrow> bool) \<Rightarrow> 'a option \<Rightarrow> 'a option" where
  "retain P x = (case x of None \<Rightarrow> None | Some v \<Rightarrow> if P v then Some v else None)"

lemma retain_Some_iff [simp]: "retain P x = Some v \<longleftrightarrow> x = Some v \<and> P v"
  by (auto simp: retain_def split: option.splits)

lemma retain_None [simp]: "retain P None = None"
  by (simp add: retain_def)

lemma retain_None_iff: "retain P x = None \<longleftrightarrow> (\<forall>v. x = Some v \<longrightarrow> \<not> P v)"
  by (auto simp: retain_def split: option.splits)

lemma retain_retain: "retain P (retain Q x) = retain (\<lambda>v. P v \<and> Q v) x"
  by (auto simp: retain_def split: option.splits)

lemma prune_buckets_len:
  "table_len (reg_entries (prune_buckets now bs r)) \<le> table_len (reg_entries r) \<and>
   reg_max_entries (prune_buckets now bs r) = reg_max_entries r"
proof (induction now bs r rule: prune_buckets.induct)
  case (2 now at ns rest r)
  then show ?case using fold_drop_nonce_len [of ns r] by (auto dest: order_trans)
qed simp

lemma reg_prune_lookup:
  "wf_reg r \<Longrightarrow> fmlookup (reg_entries (reg_prune now r)) n =
     retain (\<lambda>e. now < te_expires e) (fmlookup (reg_entries r) n)"
  using prune_buckets_spec [of "reg_expiries r" r now]
  by (auto simp: reg_prune_def wf_reg_def retain_def split: option.splits)

lemma reg_prune_wf [intro]: "wf_reg r \<Longrightarrow> wf_reg (reg_prune now r)"
  using prune_buckets_spec [of "reg_expiries r" r now] prune_buckets_len [of now "reg_expiries r" r]
  by (simp add: reg_prune_def wf_reg_def)

lemma reg_revoke_session_wf [intro]: "wf_reg r \<Longrightarrow> wf_reg (reg_revoke_session s r)"
  by (auto simp: reg_revoke_session_def split: option.splits)

lemma reg_revoke_session_lookup:
  assumes "wf_reg r"
  shows "fmlookup (reg_entries (reg_revoke_session s r)) n =
     retain (\<lambda>e. te_old_session e \<noteq> s) (fmlookup (reg_entries r) n)"
proof -
  have i: "indexed (reg_expiries r) r" using assms by (simp add: wf_reg_def)
  show ?thesis
    using indexedD(3) [OF i, of s n]
    by (cases "fmlookup (reg_by_session r) s")
      (auto simp: reg_revoke_session_def retain_def split: option.splits)
qed

lemma fold_reg_remove_wf: "wf_reg r \<Longrightarrow> wf_reg (fold (\<lambda>n r. fst (reg_remove n r)) ns r)"
  by (induction ns arbitrary: r) auto

lemma fold_reg_remove_lookup [simp]:
  "fmlookup (reg_entries (fold (\<lambda>n r. fst (reg_remove n r)) ns r)) n =
     (if n \<in> set ns then None else fmlookup (reg_entries r) n)"
  by (induction ns arbitrary: r) auto

lemma reg_revoke_endpoint_wf [intro]: "wf_reg r \<Longrightarrow> wf_reg (reg_revoke_endpoint ep r)"
  by (simp add: reg_revoke_endpoint_def fold_reg_remove_wf)

lemma reg_revoke_endpoint_lookup:
  "fmlookup (reg_entries (reg_revoke_endpoint ep r)) n =
     retain (\<lambda>e. te_endpoint e \<noteq> ep) (fmlookup (reg_entries r) n)"
  by (auto simp: reg_revoke_endpoint_def retain_def fmdom_notI fmlookup_dom_iff
      split: option.splits)

lemma reg_revoke_ticket_wf [intro]: "wf_reg r \<Longrightarrow> wf_reg (reg_revoke_ticket t r)"
  by (auto simp: reg_revoke_ticket_def Let_def)

lemma reg_revoke_ticket_lookup:
  "fmlookup (reg_entries (reg_revoke_ticket t r)) n =
     (if length t = TICKET_LEN \<and> n = take NONCE_LEN t then None else fmlookup (reg_entries r) n)"
  by (auto simp: reg_revoke_ticket_def Let_def)

lemma reg_clear_wf [intro]: "wf_reg (reg_clear r)"
  by (simp add: wf_reg_def reg_clear_def indexed_def)

lemma new_nonce_loop_fresh:
  "new_nonce_loop k rnd r = Inr n \<Longrightarrow> fmlookup (reg_entries r) n = None \<and> Some n \<in> set rnd"
  by (induction k rnd r rule: new_nonce_loop.induct) (auto split: if_splits)

lemma new_nonce_fresh:
  "new_nonce rnd r = Inr n \<Longrightarrow> fmlookup (reg_entries r) n = None \<and> Some n \<in> set rnd"
  unfolding new_nonce_def by (rule new_nonce_loop_fresh)

lemma new_nonce_hit: "fmlookup (reg_entries r) n = None \<Longrightarrow> new_nonce (Some n # rnd) r = Inr n"
  by (simp add: new_nonce_def numeral_eq_Suc)

lemma reg_issue_Inr:
  assumes "wf_reg r" and "reg_issue mac rnd scope identity now ttl r = (r', Inr ticket)"
  shows "\<exists>nonce. ticket = nonce @ sign mac nonce \<and> Some nonce \<in> set rnd \<and> wf_reg r' \<and>
    (\<forall>n. fmlookup (reg_entries r') n =
      (if n = nonce then Some (entry_of scope identity (now + ttl))
       else retain (\<lambda>e. te_old_session e \<noteq> sc_session scope \<and> now < te_expires e)
              (fmlookup (reg_entries r) n)))"
proof -
  let ?p = "reg_prune now r" and ?s = "sc_session scope"
  let ?q = "reg_revoke_session ?s ?p"
  have p: "wf_reg ?p" and q: "wf_reg ?q" using assms(1) by auto
  have qi: "indexed (reg_expiries ?q) ?q" using q by (simp add: wf_reg_def)
  obtain nonce where n: "new_nonce rnd ?p = Inr nonce" and t: "ticket = nonce @ sign mac nonce"
    and room: "\<not> (reg_max_entries ?p \<le> table_len (reg_entries ?p) \<and>
        fmlookup (reg_by_session ?p) ?s = None)"
    and r': "r' = ?q\<lparr>reg_entries := fmupd nonce (entry_of scope identity (now + ttl)) (reg_entries ?q),
        reg_by_session := fmupd ?s nonce (reg_by_session ?q),
        reg_expiries := expiries_insert (now + ttl) nonce (reg_expiries ?q)\<rparr>"
    using assms(2)
    by (auto simp: reg_issue_def Let_def instant_checked_add_def
        split: if_splits option.splits sum.splits)
  have lq: "fmlookup (reg_entries ?q) m =
      retain (\<lambda>e. te_old_session e \<noteq> ?s \<and> now < te_expires e) (fmlookup (reg_entries r) m)" for m
    by (simp add: reg_revoke_session_lookup p reg_prune_lookup assms(1) retain_retain)
  have fresh: "fmlookup (reg_entries ?q) nonce = None"
    using new_nonce_fresh [OF n] by (simp add: reg_revoke_session_lookup p)
  have s: "fmlookup (reg_entries ?q) m = Some e \<Longrightarrow> te_old_session e \<noteq> ?s" for m e
    by (simp add: lq)
  have "indexed (reg_expiries r') r'"
  proof (rule indexedI)
    show "sorted_wrt (<) (map fst (reg_expiries r'))"
      using expiries_insert_sorted [OF indexedD(1) [OF qi]] by (simp add: r')
    show "in_bucket (reg_expiries r') t m \<longleftrightarrow>
        (\<exists>e. fmlookup (reg_entries r') m = Some e \<and> te_expires e = t)" for t m
      using indexedD(2) [OF qi, of t m] fresh by (auto simp: r' entry_of_def)
    show "fmlookup (reg_by_session r') s = Some m \<longleftrightarrow>
        (\<exists>e. fmlookup (reg_entries r') m = Some e \<and> te_old_session e = s)" for s m
      using indexedD(3) [OF qi, of s m] fresh s by (cases "m = nonce") (auto simp: r' entry_of_def)
  qed
  moreover have "table_len (reg_entries r') \<le> reg_max_entries r'"
  proof (cases "fmlookup (reg_by_session ?p) ?s")
    case None
    then have "?q = ?p" by (simp add: reg_revoke_session_def)
    then show ?thesis using None room fresh by (simp add: r' fmdrop_absent)
  next
    case (Some m)
    have "indexed (reg_expiries ?p) ?p" using p by (simp add: wf_reg_def)
    then obtain e where e: "fmlookup (reg_entries ?p) m = Some e"
      using indexedD(3) [of _ ?p ?s m] Some by blast
    have q': "?q = fst (reg_remove m ?p)" using Some by (simp add: reg_revoke_session_def)
    have "Suc (table_len (reg_entries ?q)) = table_len (reg_entries ?p)"
      using table_len_remove [OF e] unfolding q' by simp
    then show ?thesis using p fresh unfolding wf_reg_def by (simp add: r' fmdrop_absent q')
  qed
  ultimately have "wf_reg r'" by (simp add: wf_reg_def)
  then show ?thesis using t new_nonce_fresh [OF n] by (auto simp: r' lq)
qed

lemma reg_issue_Inl:
  "reg_issue mac rnd scope identity now ttl r = (r', Inl e) \<Longrightarrow> r' = r \<or> r' = reg_prune now r"
  by (auto simp: reg_issue_def Let_def split: if_splits option.splits sum.splits)

lemma ticket_nonce_Inr_iff:
  "ticket_nonce mac t = Inr n \<longleftrightarrow>
     length t = TICKET_LEN \<and> n = take NONCE_LEN t \<and> t = n @ sign mac n"
proof -
  have "t = take NONCE_LEN t @ x \<longleftrightarrow> x = drop NONCE_LEN t" for x
    by (metis append_take_drop_id same_append_eq)
  then show ?thesis by (auto simp: ticket_nonce_def Let_def sign_def)
qed

lemma ticket_nonce_prefix: "ticket_nonce mac t = Inr n \<Longrightarrow> n = take NONCE_LEN t"
  by (auto simp: ticket_nonce_def Let_def split: if_splits)

lemma reg_consume_Inl:
  "reg_consume mac t ep key pr now r = (r', Inl e) \<Longrightarrow> r' = reg_prune now r"
  by (auto simp: reg_consume_def Let_def split: if_splits option.splits sum.splits)

definition entry_matches :: "handle \<Rightarrow> bytes \<Rightarrow> selected_protocol \<Rightarrow> ticket_entry \<Rightarrow> bool" where
  "entry_matches ep key pr e \<longleftrightarrow> te_endpoint e = ep \<and> te_peer_key e = key \<and>
     te_protocol_id e = sp_protocol_id pr \<and> te_protocol_version e = sp_version pr"

definition claim_of :: "ticket_entry \<Rightarrow> resume_claim" where
  "claim_of e = \<lparr>rc_old_session = te_old_session e, rc_identity = te_identity e\<rparr>"

lemma reg_consume_Inr_iff:
  assumes "wf_reg r"
  shows "(\<exists>r'. reg_consume mac t ep key pr now r = (r', Inr c)) \<longleftrightarrow>
    (\<exists>n e. ticket_nonce mac t = Inr n \<and> fmlookup (reg_entries r) n = Some e \<and>
       entry_matches ep key pr e \<and> now < te_expires e \<and> c = claim_of e)"
  using reg_prune_lookup [OF assms, of now]
  by (auto simp: reg_consume_def Let_def entry_matches_def claim_of_def not_le retain_None_iff
      split: sum.splits option.splits)

lemma reg_consume_Inr_entries:
  assumes "reg_consume mac t ep key pr now r = (r', Inr c)"
  shows "r' = fst (reg_remove (take NONCE_LEN t) (reg_prune now r))"
  using assms by (auto simp: reg_consume_def Let_def dest: ticket_nonce_prefix
      split: if_splits option.splits sum.splits)

lemma reg_pinned_version_state:
  "fst (reg_pinned_version mac t ep key p now r) = reg_prune now r"
  by (auto simp: reg_pinned_version_def Let_def split: option.splits sum.splits)

section \<open>The history specification\<close>

text \<open>
  A call to the registry, its outcome, and what a history of calls (latest first) grants: the
  ticket was issued, and since then neither claimed, revoked, nor replaced by a newer ticket of
  the same session.
\<close>

datatype reg_op =
  Issue resume_scope bytes instant duration "bytes option list"
| Consume bytes handle bytes selected_protocol instant
| PinnedVersion bytes handle bytes u64 instant
| RevokeSession handle
| RevokeEndpoint handle
| RevokeTicket bytes
| ClearAll

datatype reg_out =
  Issued "bytes result"
| Claimed "resume_claim result"
| Pinned "u32 result"
| Done

fun reg_step :: "(bytes \<Rightarrow> bytes) \<Rightarrow> reg_op \<Rightarrow> resume_registry \<Rightarrow> resume_registry \<times> reg_out" where
  "reg_step mac (Issue scope identity now ttl rnd) r =
     (let (r', x) = reg_issue mac rnd scope identity now ttl r in (r', Issued x))"
| "reg_step mac (Consume t ep key pr now) r =
     (let (r', x) = reg_consume mac t ep key pr now r in (r', Claimed x))"
| "reg_step mac (PinnedVersion t ep key p now) r =
     (let (r', x) = reg_pinned_version mac t ep key p now r in (r', Pinned x))"
| "reg_step mac (RevokeSession s) r = (reg_revoke_session s r, Done)"
| "reg_step mac (RevokeEndpoint ep) r = (reg_revoke_endpoint ep r, Done)"
| "reg_step mac (RevokeTicket t) r = (reg_revoke_ticket t r, Done)"
| "reg_step mac ClearAll r = (reg_clear r, Done)"

primrec reg_history ::
    "(bytes \<Rightarrow> bytes) \<Rightarrow> reg_op list \<Rightarrow> resume_registry \<times> (reg_op \<times> reg_out) list \<Rightarrow>
      resume_registry \<times> (reg_op \<times> reg_out) list" where
  "reg_history mac [] rh = rh"
| "reg_history mac (x # xs) rh =
     reg_history mac xs
       (let (r', out) = reg_step mac x (fst rh) in (r', (x, out) # snd rh))"

fun granted_after :: "reg_op \<Rightarrow> reg_out \<Rightarrow> bytes \<Rightarrow> ticket_entry option \<Rightarrow> ticket_entry option" where
  "granted_after (Issue scope identity now ttl rnd) out t g =
     (case out of
        Issued (Inr t') \<Rightarrow>
          if t = t' then Some (entry_of scope identity (now + ttl))
          else retain (\<lambda>e. te_old_session e \<noteq> sc_session scope) g
      | _ \<Rightarrow> g)"
| "granted_after (Consume t' ep key pr now) out t g =
     (case out of Claimed (Inr c) \<Rightarrow> if t = t' then None else g | _ \<Rightarrow> g)"
| "granted_after (PinnedVersion t' ep key p now) out t g = g"
| "granted_after (RevokeSession s) out t g = retain (\<lambda>e. te_old_session e \<noteq> s) g"
| "granted_after (RevokeEndpoint ep) out t g = retain (\<lambda>e. te_endpoint e \<noteq> ep) g"
| "granted_after (RevokeTicket t') out t g =
     (if length t' = TICKET_LEN \<and> take NONCE_LEN t' = take NONCE_LEN t then None else g)"
| "granted_after ClearAll out t g = None"

primrec granted :: "(reg_op \<times> reg_out) list \<Rightarrow> bytes \<Rightarrow> ticket_entry option" where
  "granted [] t = None"
| "granted (x # h) t = granted_after (fst x) (snd x) t (granted h t)"

fun op_times :: "reg_op \<Rightarrow> instant set" where
  "op_times (Issue scope identity now ttl rnd) = {now}"
| "op_times (Consume t ep key pr now) = {now}"
| "op_times (PinnedVersion t ep key p now) = {now}"
| "op_times _ = {}"

definition times :: "(reg_op \<times> reg_out) list \<Rightarrow> instant set" where
  "times h = (\<Union>x \<in> set h. op_times (fst x))"

text \<open>What the random generator and the HMAC return has the size the code's arrays fix.\<close>

fun op_ok :: "reg_op \<Rightarrow> bool" where
  "op_ok (Issue scope identity now ttl rnd) \<longleftrightarrow> (\<forall>n. Some n \<in> set rnd \<longrightarrow> length n = NONCE_LEN)"
| "op_ok _ \<longleftrightarrow> True"

definition tag_ok :: "(bytes \<Rightarrow> bytes) \<Rightarrow> bool" where
  "tag_ok mac \<longleftrightarrow> (\<forall>x. length (mac x) = TICKET_LEN - NONCE_LEN)"

definition implements :: "(bytes \<Rightarrow> bytes) \<Rightarrow> (reg_op \<times> reg_out) list \<Rightarrow> resume_registry \<Rightarrow> bool" where
  "implements mac h r \<longleftrightarrow> wf_reg r \<and>
     (\<forall>n e. fmlookup (reg_entries r) n = Some e \<longrightarrow>
        length n = NONCE_LEN \<and> granted h (n @ sign mac n) = Some e) \<and>
     (\<forall>t e. granted h t = Some e \<longrightarrow>
        (\<exists>n. length n = NONCE_LEN \<and> t = n @ sign mac n \<and>
          (fmlookup (reg_entries r) n = Some e \<or> (\<exists>now \<in> times h. te_expires e \<le> now))))"

lemma times_Cons [simp]: "times (x # h) = op_times (fst x) \<union> times h"
  by (simp add: times_def)

lemma nonce_prefix:
  assumes "length n = NONCE_LEN"
  shows "take NONCE_LEN (n @ x) = n" "drop NONCE_LEN (n @ x) = x"
  using assms by simp_all

lemma implementsD:
  assumes "implements mac h r"
  shows "wf_reg r"
    and "fmlookup (reg_entries r) n = Some e \<Longrightarrow>
      length n = NONCE_LEN \<and> granted h (n @ sign mac n) = Some e"
    and "granted h t = Some e \<Longrightarrow> \<exists>n. length n = NONCE_LEN \<and> t = n @ sign mac n \<and>
      (fmlookup (reg_entries r) n = Some e \<or> (\<exists>now \<in> times h. te_expires e \<le> now))"
  using assms unfolding implements_def by blast+

text \<open>Operations that keep a subset of the tickets, described by a predicate on both sides.\<close>

lemma implements_filter:
  assumes "implements mac h r" and "wf_reg r'"
    and "\<And>n. fmlookup (reg_entries r') n = retain (\<lambda>e. P n e \<and> Q e) (fmlookup (reg_entries r) n)"
    and "\<And>n. length n = NONCE_LEN \<Longrightarrow> granted ((x, out) # h) (n @ sign mac n) =
      retain (P n) (granted h (n @ sign mac n))"
    and "\<And>t. granted h t = None \<Longrightarrow> granted ((x, out) # h) t = None"
    and "\<And>e. \<not> Q e \<Longrightarrow> \<exists>now \<in> op_times x. te_expires e \<le> now"
  shows "implements mac ((x, out) # h) r'"
  unfolding implements_def
proof (intro conjI allI impI)
  show "wf_reg r'" by fact
next
  fix n e
  assume "fmlookup (reg_entries r') n = Some e"
  then have e: "fmlookup (reg_entries r) n = Some e" "P n e" using assms(3) by auto
  show "length n = NONCE_LEN" using implementsD(2) [OF assms(1) e(1)] by blast
  then show "granted ((x, out) # h) (n @ sign mac n) = Some e"
    unfolding assms(4) [OF \<open>length n = NONCE_LEN\<close>]
    using implementsD(2) [OF assms(1) e(1)] e(2) by simp
next
  fix t e
  assume g: "granted ((x, out) # h) t = Some e"
  then obtain e' where "granted h t = Some e'" using assms(5) [of t] by (cases "granted h t") auto
  then obtain n where n: "length n = NONCE_LEN" "t = n @ sign mac n"
    "fmlookup (reg_entries r) n = Some e' \<or> (\<exists>now \<in> times h. te_expires e' \<le> now)"
    using implementsD(3) [OF assms(1)] by blast
  have "granted h t = Some e \<and> P n e"
    using g unfolding n(2) assms(4) [OF n(1)] by simp
  then show "\<exists>n. length n = NONCE_LEN \<and> t = n @ sign mac n \<and>
      (fmlookup (reg_entries r') n = Some e \<or> (\<exists>now \<in> times ((x, out) # h). te_expires e \<le> now))"
    using n assms(3) [of n] assms(6) [of e] \<open>granted h t = Some e'\<close> by (cases "Q e") auto
qed

lemma implements_same:
  assumes "implements mac h r" and "\<And>t. granted ((x, out) # h) t = granted h t"
  shows "implements mac ((x, out) # h) r"
  by (rule implements_filter [OF assms(1) implementsD(1) [OF assms(1)], of "\<lambda>_ _. True" "\<lambda>_. True"])
    (simp_all add: assms(2) retain_def option.case_eq_if del: granted.simps(2))

lemma implements_prune:
  assumes "implements mac h r" and "\<And>t. granted ((x, out) # h) t = granted h t"
    and "now \<in> op_times x"
  shows "implements mac ((x, out) # h) (reg_prune now r)"
  using assms(3) implementsD(1) [OF assms(1)]
  by (intro implements_filter [OF assms(1), of _ "\<lambda>_ _. True" "\<lambda>e. now < te_expires e"])
    (auto simp: assms(2) reg_prune_lookup retain_def option.case_eq_if not_less
      simp del: granted.simps(2))

lemma implements_consume:
  assumes "implements mac h r" and "reg_consume mac t ep key pr now r = (r', Inr c)"
  shows "implements mac ((Consume t ep key pr now, Claimed (Inr c)) # h) r'"
proof -
  note w = implementsD(1) [OF assms(1)]
  obtain n where n: "ticket_nonce mac t = Inr n"
    using assms(2) reg_consume_Inr_iff [OF w] by blast
  have t: "t = n @ sign mac n" and p: "n = take NONCE_LEN t" and l: "length t = TICKET_LEN"
    using n unfolding ticket_nonce_Inr_iff by blast+
  have r': "r' = fst (reg_remove n (reg_prune now r))"
    unfolding p by (rule reg_consume_Inr_entries [OF assms(2)])
  have len: "length n = NONCE_LEN"
    unfolding p using l by (simp add: TICKET_LEN_def)
  have other: "m @ sign mac m = t \<longleftrightarrow> m = n" if "length m = NONCE_LEN" for m
    unfolding t using that len by auto
  show ?thesis
    by (rule implements_filter [OF assms(1), of _ "\<lambda>m e. m \<noteq> n" "\<lambda>e. now < te_expires e"])
      (use w other in \<open>auto simp: r' reg_prune_lookup retain_def not_less split: option.splits\<close>)
qed

lemma implements_issue:
  assumes "implements mac h r" and "reg_issue mac rnd scope identity now ttl r = (r', Inr t)"
    and "op_ok (Issue scope identity now ttl rnd)"
  shows "implements mac ((Issue scope identity now ttl rnd, Issued (Inr t)) # h) r'"
proof -
  let ?h = "(Issue scope identity now ttl rnd, Issued (Inr t)) # h"
  obtain k where k: "t = k @ sign mac k" "Some k \<in> set rnd" "wf_reg r'"
    "\<And>n. fmlookup (reg_entries r') n =
      (if n = k then Some (entry_of scope identity (now + ttl))
       else retain (\<lambda>e. te_old_session e \<noteq> sc_session scope \<and> now < te_expires e)
              (fmlookup (reg_entries r) n))"
    using reg_issue_Inr [OF implementsD(1) [OF assms(1)] assms(2)] by blast
  have len: "length k = NONCE_LEN" using k(2) assms(3) by simp
  have other: "m @ sign mac m = t \<longleftrightarrow> m = k" if "length m = NONCE_LEN" for m
    unfolding k(1) using that len by auto
  show ?thesis
    unfolding implements_def
  proof (intro conjI allI impI)
    fix n e
    assume e: "fmlookup (reg_entries r') n = Some e"
    show l: "length n = NONCE_LEN"
      using e len implementsD(2) [OF assms(1), of n e] by (auto simp: k(4) split: if_splits)
    show "granted ?h (n @ sign mac n) = Some e"
      using e implementsD(2) [OF assms(1), of n e] other [OF l]
      by (auto simp: k(4) split: if_splits)
  next
    fix u e
    assume g: "granted ?h u = Some e"
    show "\<exists>n. length n = NONCE_LEN \<and> u = n @ sign mac n \<and>
        (fmlookup (reg_entries r') n = Some e \<or> (\<exists>now \<in> times ?h. te_expires e \<le> now))"
    proof (cases "u = t")
      case True
      then show ?thesis using g len k(1,4) by auto
    next
      case False
      then have ge: "granted h u = Some e" "te_old_session e \<noteq> sc_session scope" using g by auto
      obtain n where n: "length n = NONCE_LEN" "u = n @ sign mac n"
        "fmlookup (reg_entries r) n = Some e \<or> (\<exists>now \<in> times h. te_expires e \<le> now)"
        using implementsD(3) [OF assms(1) ge(1)] by blast
      have "n \<noteq> k" using False other [OF n(1)] n(2) by simp
      then have "fmlookup (reg_entries r') n = Some e \<or> (\<exists>now \<in> times ?h. te_expires e \<le> now)"
        using n(3) ge(2) by (cases "now < te_expires e") (auto simp: k(4))
      then show ?thesis using n(1,2) by blast
    qed
  qed (rule k(3))
qed

theorem implements_step:
  assumes "implements mac h r" and "op_ok x" and "reg_step mac x r = (r', out)"
  shows "implements mac ((x, out) # h) r'"
proof (cases x)
  case (Issue scope identity now ttl rnd)
  obtain y where y: "reg_issue mac rnd scope identity now ttl r = (r', y)" "out = Issued y"
    using assms(3) Issue by (auto split: prod.splits)
  show ?thesis
  proof (cases y)
    case (Inl e)
    then have "r' = r \<or> r' = reg_prune now r" using reg_issue_Inl y(1) by simp
    then show ?thesis
      using implements_same [OF assms(1), of x out] implements_prune [OF assms(1), of x out now]
      by (auto simp: Issue y(2) Inl)
  next
    case (Inr t)
    then show ?thesis using implements_issue [OF assms(1)] y assms(2) by (simp add: Issue)
  qed
next
  case (Consume t ep key pr now)
  obtain y where y: "reg_consume mac t ep key pr now r = (r', y)" "out = Claimed y"
    using assms(3) Consume by (auto split: prod.splits)
  show ?thesis
  proof (cases y)
    case (Inl e)
    then show ?thesis
      using implements_prune [OF assms(1), of x out now] reg_consume_Inl y(1)
      by (simp add: Consume y(2))
  next
    case (Inr c)
    then show ?thesis using implements_consume [OF assms(1)] y by (simp add: Consume)
  qed
next
  case (PinnedVersion t ep key p now)
  then have "r' = reg_prune now r"
    using assms(3) reg_pinned_version_state [of mac t ep key p now r] by (auto split: prod.splits)
  then show ?thesis using implements_prune [OF assms(1), of x out now] by (simp add: PinnedVersion)
next
  case (RevokeSession s)
  then show ?thesis using assms(3) implementsD(1) [OF assms(1)]
    by (intro implements_filter [OF assms(1), of _ "\<lambda>_ e. te_old_session e \<noteq> s" "\<lambda>_. True"])
      (auto simp: reg_revoke_session_lookup)
next
  case (RevokeEndpoint ep)
  then show ?thesis using assms(3) implementsD(1) [OF assms(1)]
    by (intro implements_filter [OF assms(1), of _ "\<lambda>_ e. te_endpoint e \<noteq> ep" "\<lambda>_. True"])
      (auto simp: reg_revoke_endpoint_lookup)
next
  case (RevokeTicket t)
  then show ?thesis using assms(3) implementsD(1) [OF assms(1)]
    by (intro implements_filter [OF assms(1), of _
          "\<lambda>n e. \<not> (length t = TICKET_LEN \<and> n = take NONCE_LEN t)" "\<lambda>_. True"])
      (auto simp: reg_revoke_ticket_lookup retain_def split: option.splits)
next
  case ClearAll
  then show ?thesis using assms(3)
    by (intro implements_filter [OF assms(1), of _ "\<lambda>_ _. False" "\<lambda>_. True"])
      (auto simp: reg_clear_def retain_def wf_reg_def indexed_def split: option.splits)
qed

lemma implements_new: "reg_new m ok = Inr r \<Longrightarrow> implements mac [] r"
  by (auto simp: reg_new_def implements_def wf_reg_def indexed_def split: if_splits)

lemma implements_history:
  assumes "implements mac h0 r0" and "\<forall>x \<in> set ops. op_ok x"
    and "reg_history mac ops (r0, h0) = (r, h)"
  shows "implements mac h r"
  using assms
proof (induction ops arbitrary: r0 h0)
  case (Cons x ops)
  obtain r1 out where s: "reg_step mac x r0 = (r1, out)" by fastforce
  have "implements mac ((x, out) # h0) r1"
    using implements_step [OF Cons.prems(1) _ s] Cons.prems(2) by simp
  then show ?case using Cons.IH Cons.prems s by simp
qed simp

lemma consume_granted:
  assumes i: "implements mac h r" and "tag_ok mac" and past: "\<forall>t \<in> times h. t \<le> now"
  shows "(\<exists>r'. reg_consume mac t ep key pr now r = (r', Inr c)) \<longleftrightarrow>
    (\<exists>e. granted h t = Some e \<and> entry_matches ep key pr e \<and> now < te_expires e \<and> c = claim_of e)"
    (is "?L \<longleftrightarrow> ?R")
proof
  assume ?L
  then obtain n e where "ticket_nonce mac t = Inr n" and e: "fmlookup (reg_entries r) n = Some e"
    "entry_matches ep key pr e" "now < te_expires e" "c = claim_of e"
    using reg_consume_Inr_iff [OF implementsD(1) [OF i]] by blast
  then have "t = n @ sign mac n" unfolding ticket_nonce_Inr_iff by blast
  then show ?R using implementsD(2) [OF i e(1)] e by blast
next
  assume ?R
  then obtain e where e: "granted h t = Some e" "entry_matches ep key pr e" "now < te_expires e"
    "c = claim_of e"
    by blast
  obtain n where n: "length n = NONCE_LEN" "t = n @ sign mac n"
    "fmlookup (reg_entries r) n = Some e \<or> (\<exists>now \<in> times h. te_expires e \<le> now)"
    using implementsD(3) [OF i e(1)] by blast
  have "fmlookup (reg_entries r) n = Some e" using n(3) past e(3) by (meson leD le_trans)
  moreover have "length (n @ sign mac n) = TICKET_LEN" "take NONCE_LEN (n @ sign mac n) = n"
    using n(1) assms(2) by (simp_all add: tag_ok_def sign_def TICKET_LEN_def)
  then have "ticket_nonce mac t = Inr n" unfolding ticket_nonce_Inr_iff n(2) by simp
  ultimately show ?L using reg_consume_Inr_iff [OF implementsD(1) [OF i]] e by blast
qed

fun claims_of :: "bytes \<Rightarrow> reg_op \<times> reg_out \<Rightarrow> bool" where
  "claims_of t (Consume u ep key pr now, Claimed (Inr c)) \<longleftrightarrow> u = t"
| "claims_of t _ \<longleftrightarrow> False"

fun issues_of :: "bytes \<Rightarrow> reg_op \<times> reg_out \<Rightarrow> bool" where
  "issues_of t (Issue scope identity now ttl rnd, Issued (Inr u)) \<longleftrightarrow> u = t"
| "issues_of t _ \<longleftrightarrow> False"

definition claim_balance :: "(reg_op \<times> reg_out) list \<Rightarrow> bytes \<Rightarrow> bool" where
  "claim_balance h t \<longleftrightarrow>
     length (filter (claims_of t) h) + (if granted h t = None then 0 else 1) \<le>
       length (filter (issues_of t) h)"

lemma claim_balance_step:
  assumes i: "implements mac h r" and "reg_step mac x r = (r', out)" and b: "claim_balance h t"
  shows "claim_balance ((x, out) # h) t"
proof (cases "claims_of t (x, out)")
  case True
  then obtain ep key pr now c where x: "x = Consume t ep key pr now" "out = Claimed (Inr c)"
    by (cases "(t, x, out)" rule: claims_of.cases) auto
  then have "reg_consume mac t ep key pr now r = (r', Inr c)" using assms(2) by (auto split: prod.splits)
  then obtain n e where "ticket_nonce mac t = Inr n" "fmlookup (reg_entries r) n = Some e"
    using reg_consume_Inr_iff [OF implementsD(1) [OF i]] by blast
  then have "granted h t = Some e"
    using implementsD(2) [OF i] unfolding ticket_nonce_Inr_iff by metis
  then show ?thesis using b x by (simp add: claim_balance_def)
next
  case False
  have g: "granted h t \<noteq> None \<or> issues_of t (x, out)" if "granted ((x, out) # h) t \<noteq> None"
    using that
    by (cases x) (auto simp: retain_def split: option.splits reg_out.splits sum.splits if_splits)
  show ?thesis
    using b False g
    by (cases "granted h t = None"; cases "issues_of t (x, out)")
      (auto simp: claim_balance_def simp del: granted.simps(2))
qed

lemma claim_balance_history:
  assumes "implements mac h0 r0" and "\<forall>x \<in> set ops. op_ok x" and "claim_balance h0 t"
    and "reg_history mac ops (r0, h0) = (r, h)"
  shows "claim_balance h t"
  using assms
proof (induction ops arbitrary: r0 h0)
  case (Cons x ops)
  obtain r1 out where s: "reg_step mac x r0 = (r1, out)" by fastforce
  have "implements mac ((x, out) # h0) r1"
    using implements_step [OF Cons.prems(1) _ s] Cons.prems(2) by simp
  then show ?case
    using Cons.IH Cons.prems s claim_balance_step [OF Cons.prems(1) s Cons.prems(3)] by simp
qed simp

lemma reg_max_kept [simp]:
  "reg_max_entries (reg_prune now r) = reg_max_entries r"
  "reg_max_entries (reg_revoke_session s r) = reg_max_entries r"
  "reg_max_entries (reg_revoke_endpoint ep r) = reg_max_entries r"
  "reg_max_entries (reg_revoke_ticket t r) = reg_max_entries r"
  "reg_max_entries (reg_clear r) = reg_max_entries r"
proof -
  have "reg_max_entries (fold (\<lambda>n r. fst (reg_remove n r)) ns r) = reg_max_entries r" for ns
    by (induction ns arbitrary: r) auto
  then show "reg_max_entries (reg_revoke_endpoint ep r) = reg_max_entries r"
    by (simp add: reg_revoke_endpoint_def)
qed (auto simp: reg_prune_def prune_buckets_len reg_revoke_session_def reg_revoke_ticket_def
    reg_clear_def Let_def split: option.splits)

lemma reg_step_max: "reg_step mac x r = (r', out) \<Longrightarrow> reg_max_entries r' = reg_max_entries r"
  by (cases x) (auto simp: reg_issue_def reg_consume_def reg_pinned_version_def Let_def
      split: if_splits option.splits sum.splits prod.splits)

lemma reg_history_max:
  "reg_history mac ops (r0, h0) = (r, h) \<Longrightarrow> reg_max_entries r = reg_max_entries r0"
proof (induction ops arbitrary: r0 h0)
  case (Cons x ops)
  obtain r1 out where s: "reg_step mac x r0 = (r1, out)" by fastforce
  then show ?case using Cons reg_step_max [OF s] by simp
qed simp

section \<open>Properties\<close>

text \<open>A run used by the witnesses: a ticket is issued and then claimed.\<close>

definition demo_mac :: "bytes \<Rightarrow> bytes" where "demo_mac x = replicate 32 5"

definition demo_scope :: resume_scope where
  "demo_scope = \<lparr>sc_endpoint = 1, sc_session = 2, sc_peer_key = [7],
     sc_protocol = \<lparr>sp_protocol_id = 3, sp_version = 4\<rparr>\<rparr>"

definition demo_nonce :: bytes where "demo_nonce = replicate 16 9"

definition demo_issue :: reg_op where
  "demo_issue = Issue demo_scope [8] 100 1000 [Some demo_nonce]"

definition demo_claim :: reg_op where
  "demo_claim = Consume (demo_nonce @ demo_mac []) 1 [7] (sc_protocol demo_scope) 600"

definition demo_registry :: resume_registry where
  "demo_registry = \<lparr>reg_max_entries = 4, reg_entries = fmempty, reg_by_session = fmempty,
     reg_expiries = []\<rparr>"

lemmas demo_defs = demo_mac_def demo_scope_def demo_nonce_def demo_issue_def demo_claim_def
  demo_registry_def

lemma demo_new: "reg_new 4 True = Inr demo_registry"
  by (simp add: reg_new_def demo_registry_def)

lemma demo_issue_step:
  "reg_step demo_mac demo_issue demo_registry =
     (\<lparr>reg_max_entries = 4, reg_entries = fmupd demo_nonce (entry_of demo_scope [8] 1100) fmempty,
       reg_by_session = fmupd 2 demo_nonce fmempty, reg_expiries = [(1100, [demo_nonce])]\<rparr>,
      Issued (Inr (demo_nonce @ demo_mac [])))"
  by (simp add: demo_issue_def demo_registry_def demo_scope_def demo_mac_def reg_issue_def
      sp_is_valid_def MAX_IDENTITY_LEN_def validate_ttl_def MAX_TTL_def instant_checked_add_def
      instant_max_def reg_prune_def new_nonce_hit reg_revoke_session_def sign_def
      Let_def)

lemma demo_ok: "\<forall>x \<in> set [demo_issue, demo_claim]. op_ok x" "tag_ok demo_mac"
  by (simp_all add: demo_issue_def demo_claim_def demo_nonce_def demo_mac_def NONCE_LEN_def
      tag_ok_def TICKET_LEN_def)

lemma demo_granted:
  "granted [(demo_issue, Issued (Inr (demo_nonce @ demo_mac [])))] (demo_nonce @ demo_mac []) =
     Some (entry_of demo_scope [8] 1100)"
  by (simp add: demo_issue_def)

text \<open>
  C17. The registry implements its specification: after any sequence of calls on a new registry,
  a claim presented no earlier than those calls succeeds exactly when the history still grants
  that ticket - issued, not yet claimed, revoked or replaced - to this endpoint, client key and
  protocol version, and it has not expired; the claim then names the session and identity the
  ticket was issued for.
\<close>

theorem resume_ticket_honoured_iff_granted:
  assumes "reg_new max_entries rng_ok = Inr r0" and "tag_ok mac" and "\<forall>x \<in> set ops. op_ok x"
    and "reg_history mac ops (r0, []) = (r, h)" and "\<forall>t \<in> times h. t \<le> now"
  shows "(\<exists>r'. reg_consume mac ticket endpoint peer_key protocol now r = (r', Inr claim)) \<longleftrightarrow>
    (\<exists>e. granted h ticket = Some e \<and> entry_matches endpoint peer_key protocol e \<and>
       now < te_expires e \<and> claim = claim_of e)"
  by (rule consume_granted [OF implements_history [OF implements_new [OF assms(1)] assms(3,4)]
        assms(2,5)])

theorem resume_ticket_honoured_iff_granted_witness:
  "\<exists>r h r'. reg_history demo_mac [demo_issue] (demo_registry, []) = (r, h) \<and>
     reg_consume demo_mac (demo_nonce @ demo_mac []) 1 [7] (sc_protocol demo_scope) 600 r =
       (r', Inr \<lparr>rc_old_session = 2, rc_identity = [8]\<rparr>)"
proof -
  let ?h = "[(demo_issue, Issued (Inr (demo_nonce @ demo_mac [])))]"
  obtain r where r: "reg_history demo_mac [demo_issue] (demo_registry, []) = (r, ?h)"
    by (simp add: demo_issue_step)
  have t: "\<forall>t \<in> times ?h. t \<le> 600" by (simp add: times_def demo_issue_def)
  have "entry_matches 1 [7] (sc_protocol demo_scope) (entry_of demo_scope [8] 1100) \<and>
      600 < te_expires (entry_of demo_scope [8] 1100) \<and>
      \<lparr>rc_old_session = 2, rc_identity = [8]\<rparr> = claim_of (entry_of demo_scope [8] 1100)"
    by (simp add: entry_matches_def entry_of_def demo_scope_def claim_of_def)
  then show ?thesis
    using resume_ticket_honoured_iff_granted [OF demo_new demo_ok(2) _ r t,
        of "demo_nonce @ demo_mac []" 1 "[7]" "sc_protocol demo_scope"
          "\<lparr>rc_old_session = 2, rc_identity = [8]\<rparr>"]
      demo_ok(1) demo_granted r by auto
qed

text \<open>
  A ticket is one-use: in every history of a registry, whatever the callers present and in
  whatever order, a ticket is claimed successfully at most as often as it was issued, and one
  fewer while it is still outstanding.
\<close>

lemma resume_ticket_one_use:
  assumes "reg_new max_entries rng_ok = Inr r0" and "\<forall>x \<in> set ops. op_ok x"
    and "reg_history mac ops (r0, []) = (r, h)"
  shows "length (filter (claims_of t) h) + (if granted h t = None then 0 else 1)
    \<le> length (filter (issues_of t) h)"
  using claim_balance_history [OF implements_new [OF assms(1)] assms(2) _ assms(3), of t]
  by (simp add: claim_balance_def)

text \<open>
  The registry's tables stay consistent and bounded through every sequence of calls: the
  expiry index lists exactly the live tickets, every session owns at most one, and the number
  outstanding never exceeds the configured capacity, itself at most 65536.
\<close>

lemma resume_registry_bounded:
  assumes "reg_new max_entries rng_ok = Inr r0" and "\<forall>x \<in> set ops. op_ok x"
    and "reg_history mac ops (r0, []) = (r, h)"
  shows "indexed (reg_expiries r) r \<and> reg_outstanding r \<le> max_entries \<and> max_entries \<le> 65536"
proof -
  have "reg_max_entries r0 = max_entries" "max_entries \<le> 65536"
    using assms(1) by (auto simp: reg_new_def split: if_splits)
  then show ?thesis
    using implementsD(1) [OF implements_history [OF implements_new [OF assms(1)] assms(2,3)]]
      reg_history_max [OF assms(3)]
    by (simp add: wf_reg_def reg_outstanding_def)
qed

end
