(* ===== verification/Observe.thy ===== *)
theory Observe
  imports Step_System "HOL-Library.Sublist"
begin

text \<open>
  The observability helpers of \<^verbatim>\<open>rnet-observe/src/lib.rs\<close>: the power-of-two latency histogram
  and the bounded logger with its dispatch thread. Each atomic counter access of the histogram is
  one operation here, so a histogram is the list of its counters. The two queues of the logger
  are bounded channels; producers and the dispatch thread interleave as explicit steps.
\<close>

section \<open>The latency histogram\<close>

definition LATENCY_BUCKET_COUNT :: nat where "LATENCY_BUCKET_COUNT = 66"

record latency_histogram =
  lh_buckets :: "nat list"
  lh_max_us :: nat

record latency_snapshot =
  ls_sample_count :: nat
  ls_p50_us :: nat
  ls_p90_us :: nat
  ls_p95_us :: nat
  ls_p99_us :: nat
  ls_p999_us :: nat
  ls_max_us :: nat

definition lh_default :: latency_histogram where
  "lh_default = \<lparr>lh_buckets = replicate LATENCY_BUCKET_COUNT 0, lh_max_us = 0\<rparr>"

text \<open>\<^verbatim>\<open>u64::BITS - x.leading_zeros()\<close>\<close>

fun bit_length :: "nat \<Rightarrow> nat" where
  "bit_length n = (if n = 0 then 0 else Suc (bit_length (n div 2)))"

declare bit_length.simps [simp del]

definition latency_bucket :: "nat \<Rightarrow> nat" where
  "latency_bucket micros =
     (if micros = 0 then 0
      else if micros = u64_max then LATENCY_BUCKET_COUNT - 1
      else 1 + bit_length (micros - 1))"

definition bucket_upper_bound :: "nat \<Rightarrow> nat" where
  "bucket_upper_bound index =
     (if index = 0 then 0 else if index \<le> 64 then 2 ^ (index - 1) else u64_max)"

definition as_micros :: "duration \<Rightarrow> nat" where
  "as_micros d = d div 1000"

definition lh_record :: "duration \<Rightarrow> latency_histogram \<Rightarrow> latency_histogram" where
  "lh_record d h =
     (let micros = min (as_micros d) u64_max;
          bucket = latency_bucket micros
      in h\<lparr>lh_buckets := (lh_buckets h)[bucket := sat_add (lh_buckets h ! bucket) 1],
           lh_max_us := max (lh_max_us h) micros\<rparr>)"

text \<open>The loop of \<^verbatim>\<open>percentile\<close> from bucket \<open>index\<close> on.\<close>

fun percentile_scan :: "nat \<Rightarrow> nat \<Rightarrow> nat \<Rightarrow> nat list \<Rightarrow> nat" where
  "percentile_scan target seen index [] = u64_max"
| "percentile_scan target seen index (count # counts) =
     (let seen' = sat_add seen count
      in if target \<le> seen' then bucket_upper_bound index
         else percentile_scan target seen' (Suc index) counts)"

definition percentile_target :: "nat \<Rightarrow> nat \<Rightarrow> nat \<Rightarrow> nat" where
  "percentile_target samples numerator denominator =
     (samples * numerator + (denominator - 1)) div denominator"

definition percentile :: "nat list \<Rightarrow> nat \<Rightarrow> nat \<Rightarrow> nat \<Rightarrow> nat" where
  "percentile counts samples numerator denominator =
     (if samples = 0 then 0
      else percentile_scan (percentile_target samples numerator denominator) 0 0 counts)"

definition snapshot_from_counts :: "nat list \<Rightarrow> nat \<Rightarrow> latency_snapshot" where
  "snapshot_from_counts counts max_us =
     (let sample_count = foldl sat_add 0 counts;
          p = (\<lambda>numerator. min (percentile counts sample_count numerator 1000) max_us)
      in \<lparr>ls_sample_count = sample_count, ls_p50_us = p 500, ls_p90_us = p 900, ls_p95_us = p 950,
          ls_p99_us = p 990, ls_p999_us = p 999, ls_max_us = max_us\<rparr>)"

definition lh_snapshot :: "latency_histogram \<Rightarrow> latency_snapshot" where
  "lh_snapshot h = snapshot_from_counts (lh_buckets h) (lh_max_us h)"

definition lh_snapshot_and_reset :: "latency_histogram \<Rightarrow> latency_histogram \<times> latency_snapshot" where
  "lh_snapshot_and_reset h =
     (h\<lparr>lh_buckets := map (\<lambda>_. 0) (lh_buckets h), lh_max_us := 0\<rparr>,
      snapshot_from_counts (lh_buckets h) (lh_max_us h))"

section \<open>The bounded logger\<close>

datatype log_level = Trace | Debug | Info | Warn | Error

record log_record =
  lr_timestamp_unix_ms :: u64
  lr_level :: log_level
  lr_event_name :: string
  lr_target :: string
  lr_message :: string
  lr_runtime :: handle
  lr_endpoint :: handle
  lr_session :: handle
  lr_transport :: u32
  lr_error_code :: error_code
  lr_correlation_id :: u64

text \<open>
  The two channels with their senders, the counters, and the dispatch thread: its two local flags,
  where it is in its loop, and the records it has handed to the sink (latest last).
\<close>

datatype dispatch_pc = LoopHead | SecondReceive | Exited

record bounded_logger =
  bl_normal_capacity :: nat
  bl_error_capacity :: nat
  bl_normal_sender :: bool
  bl_error_sender :: bool
  bl_normal :: "log_record list"
  bl_errors :: "log_record list"
  bl_dropped :: u64
  bl_sink_panics :: u64
  bl_total :: latency_histogram
  bl_window :: latency_histogram
  bl_normal_open :: bool
  bl_error_open :: bool
  bl_pc :: dispatch_pc
  bl_delivered :: "log_record list"

definition logger_new :: "nat \<Rightarrow> nat \<Rightarrow> bounded_logger result" where
  "logger_new normal_capacity error_capacity =
     (if normal_capacity = 0 \<or> error_capacity = 0 then Inl InvalidArgument
      else Inr \<lparr>bl_normal_capacity = normal_capacity, bl_error_capacity = error_capacity,
        bl_normal_sender = True, bl_error_sender = True, bl_normal = [], bl_errors = [],
        bl_dropped = 0, bl_sink_panics = 0, bl_total = lh_default, bl_window = lh_default,
        bl_normal_open = True, bl_error_open = True, bl_pc = LoopHead, bl_delivered = []\<rparr>)"

definition logger_log :: "log_record \<Rightarrow> bounded_logger \<Rightarrow> bounded_logger \<times> bool" where
  "logger_log r l =
     (if lr_level r = Error then
        (if \<not> bl_error_sender l then (l\<lparr>bl_dropped := bl_dropped l + 1\<rparr>, False)
         else if length (bl_errors l) < bl_error_capacity l \<and> bl_pc l \<noteq> Exited
         then (l\<lparr>bl_errors := bl_errors l @ [r]\<rparr>, True)
         else (l\<lparr>bl_dropped := bl_dropped l + 1\<rparr>, False))
      else
        (if \<not> bl_normal_sender l then (l\<lparr>bl_dropped := bl_dropped l + 1\<rparr>, False)
         else if length (bl_normal l) < bl_normal_capacity l \<and> bl_pc l \<noteq> Exited
         then (l\<lparr>bl_normal := bl_normal l @ [r]\<rparr>, True)
         else (l\<lparr>bl_dropped := bl_dropped l + 1\<rparr>, False)))"

text \<open>The sink runs for \<open>elapsed\<close> and may panic, which is caught and counted.\<close>

definition deliver :: "bool \<Rightarrow> duration \<Rightarrow> log_record \<Rightarrow> bounded_logger \<Rightarrow> bounded_logger" where
  "deliver panics elapsed r l =
     l\<lparr>bl_delivered := bl_delivered l @ [r],
       bl_sink_panics := (if panics then bl_sink_panics l + 1 else bl_sink_panics l),
       bl_window := lh_record elapsed (bl_window l),
       bl_total := lh_record elapsed (bl_total l)\<rparr>"

definition receive_error :: "bool \<Rightarrow> duration \<Rightarrow> bounded_logger \<Rightarrow> bounded_logger" where
  "receive_error panics elapsed l =
     (case bl_errors l of
        r # rest \<Rightarrow> deliver panics elapsed r (l\<lparr>bl_errors := rest\<rparr>)
      | [] \<Rightarrow> if bl_error_sender l then l else l\<lparr>bl_error_open := False\<rparr>)"

definition receive_normal :: "bool \<Rightarrow> duration \<Rightarrow> bounded_logger \<Rightarrow> bounded_logger" where
  "receive_normal panics elapsed l =
     (case bl_normal l of
        r # rest \<Rightarrow> deliver panics elapsed r (l\<lparr>bl_normal := rest\<rparr>)
      | [] \<Rightarrow> if bl_normal_sender l then l else l\<lparr>bl_normal_open := False\<rparr>)"

text \<open>
  One receive of the dispatch loop; a timed-out wait on an open channel leaves the state as it
  is, and what producers do during the wait are steps of their own.
\<close>

definition dispatch_step :: "bool \<Rightarrow> duration \<Rightarrow> bounded_logger \<Rightarrow> bounded_logger" where
  "dispatch_step panics elapsed l =
     (case bl_pc l of
        LoopHead \<Rightarrow>
          if bl_normal_open l \<or> bl_error_open l
          then (receive_error panics elapsed l)\<lparr>bl_pc := SecondReceive\<rparr>
          else l\<lparr>bl_pc := Exited\<rparr>
      | SecondReceive \<Rightarrow>
          (if bl_normal_open l then receive_normal panics elapsed l
           else if bl_error_open l then receive_error panics elapsed l
           else l)\<lparr>bl_pc := LoopHead\<rparr>
      | Exited \<Rightarrow> l)"

datatype log_step =
  LogCall log_record
| TakeNormal
| TakeErrors
| Dispatch bool duration

fun logger_step :: "log_step \<Rightarrow> bounded_logger \<Rightarrow> bounded_logger" where
  "logger_step (LogCall r) l = fst (logger_log r l)"
| "logger_step TakeNormal l = l\<lparr>bl_normal_sender := False\<rparr>"
| "logger_step TakeErrors l = l\<lparr>bl_error_sender := False\<rparr>"
| "logger_step (Dispatch panics elapsed) l = dispatch_step panics elapsed l"

text \<open>The records a run accepts, in order.\<close>

fun accepted :: "log_step list \<Rightarrow> bounded_logger \<Rightarrow> log_record list" where
  "accepted [] l = []"
| "accepted (LogCall r # steps) l =
     (if snd (logger_log r l) then [r] else []) @ accepted steps (logger_step (LogCall r) l)"
| "accepted (x # steps) l = accepted steps (logger_step x l)"

section \<open>Buckets\<close>

lemma bit_length_le_iff: "bit_length n \<le> k \<longleftrightarrow> n < 2 ^ k"
proof (induction k arbitrary: n)
  case 0
  show ?case by (subst bit_length.simps) simp
next
  case (Suc k)
  have "bit_length n \<le> Suc k \<longleftrightarrow> n = 0 \<or> bit_length (n div 2) \<le> k"
    by (subst bit_length.simps) simp
  also have "\<dots> \<longleftrightarrow> n < 2 ^ Suc k"
    unfolding Suc.IH by (auto simp: div_less_iff_less_mult)
  finally show ?case .
qed

lemma latency_bucket_less: "m \<le> u64_max \<Longrightarrow> latency_bucket m < LATENCY_BUCKET_COUNT"
  using bit_length_le_iff [of "m - 1" 64]
  by (auto simp: latency_bucket_def LATENCY_BUCKET_COUNT_def u64_max_def)

text \<open>A sample lies below the bound of its bucket, and the bound is less than twice the sample.\<close>

lemma bucket_bounds:
  assumes "m \<le> u64_max"
  shows "m \<le> bucket_upper_bound (latency_bucket m) \<and>
    bucket_upper_bound (latency_bucket m) \<le> 2 * m"
proof -
  consider "m = 0" | "m = u64_max" | "0 < m" "m < u64_max" using assms by linarith
  then show ?thesis
  proof cases
    case 3
    let ?b = "bit_length (m - 1)"
    have lo: "m \<le> 2 ^ ?b" using bit_length_le_iff [of "m - 1" ?b] 3 by simp
    have hi: "2 ^ ?b \<le> 2 * m" if "?b \<noteq> 0"
    proof -
      have "\<not> bit_length (m - 1) \<le> ?b - 1" using that by simp
      then have "2 ^ (?b - 1) \<le> m - 1" unfolding bit_length_le_iff by simp
      then have "2 * 2 ^ (?b - 1) \<le> 2 * m" by simp
      then show ?thesis using that by (simp flip: power_Suc)
    qed
    have b: "?b \<le> 64" unfolding bit_length_le_iff using 3 by (simp add: u64_max_def)
    show ?thesis
    proof (cases "?b \<le> 63")
      case True
      then show ?thesis using 3 lo hi
        by (cases "?b = 0") (auto simp: latency_bucket_def bucket_upper_bound_def)
    next
      case False
      then have "\<not> bit_length (m - 1) \<le> 63" by simp
      then have "2 ^ 63 \<le> m - 1" unfolding bit_length_le_iff by simp
      then show ?thesis using False 3 b
        by (simp add: latency_bucket_def bucket_upper_bound_def u64_max_def)
    qed
  qed (auto simp: latency_bucket_def bucket_upper_bound_def LATENCY_BUCKET_COUNT_def u64_max_def)
qed

lemma bit_length_mono: "a \<le> b \<Longrightarrow> bit_length a \<le> bit_length b"
  using bit_length_le_iff [of b "bit_length b"] bit_length_le_iff [of a "bit_length b"] by simp

lemma latency_bucket_mono:
  assumes "a \<le> b" and "b \<le> u64_max"
  shows "latency_bucket a \<le> latency_bucket b"
proof -
  have "latency_bucket a < LATENCY_BUCKET_COUNT" using latency_bucket_less assms by simp
  moreover have "bit_length (a - 1) \<le> bit_length (b - 1)" using assms(1) by (simp add: bit_length_mono)
  ultimately show ?thesis using assms by (auto simp: latency_bucket_def)
qed

section \<open>What a histogram represents\<close>

definition micros_of :: "duration \<Rightarrow> nat" where
  "micros_of d = min (as_micros d) u64_max"

definition in_bucket_count :: "nat list \<Rightarrow> nat \<Rightarrow> nat" where
  "in_bucket_count xs i = length (filter (\<lambda>x. latency_bucket x = i) xs)"

definition below_bucket_count :: "nat list \<Rightarrow> nat \<Rightarrow> nat" where
  "below_bucket_count xs i = length (filter (\<lambda>x. latency_bucket x < i) xs)"

definition represents :: "nat list \<Rightarrow> latency_histogram \<Rightarrow> bool" where
  "represents xs h \<longleftrightarrow>
     lh_buckets h = map (in_bucket_count xs) [0..<LATENCY_BUCKET_COUNT] \<and>
     lh_max_us h = foldr max xs 0"

lemma represents_default: "represents [] lh_default"
  by (auto simp: represents_def lh_default_def in_bucket_count_def intro!: nth_equalityI)

lemma represents_record:
  assumes "represents xs h" and "length xs < u64_max"
  shows "represents (micros_of d # xs) (lh_record d h)"
proof -
  let ?m = "micros_of d"
  have l: "latency_bucket ?m < LATENCY_BUCKET_COUNT"
    by (rule latency_bucket_less) (simp add: micros_of_def)
  have "in_bucket_count xs i \<le> length xs" for i by (simp add: in_bucket_count_def)
  then have "sat_add (in_bucket_count xs i) 1 = Suc (in_bucket_count xs i)" for i
    using assms(2) by (metis sat_add_def Suc_eq_plus1 Suc_leI le_less_trans min.absorb1)
  then show ?thesis
    using assms(1) l
    by (auto simp: represents_def lh_record_def Let_def micros_of_def [symmetric] in_bucket_count_def
        max.commute nth_list_update intro!: nth_equalityI)
qed

lemma represents_fold:
  "represents xs h \<Longrightarrow> length xs + length ds \<le> u64_max \<Longrightarrow>
     represents (rev (map micros_of ds) @ xs) (fold lh_record ds h)"
proof (induction ds arbitrary: xs h)
  case (Cons d ds)
  then show ?case using represents_record [of xs h d] Cons.IH [of "micros_of d # xs"] by simp
qed simp

lemma below_bucket_Suc: "below_bucket_count xs (Suc i) = below_bucket_count xs i + in_bucket_count xs i"
  by (induction xs) (auto simp: below_bucket_count_def in_bucket_count_def less_Suc_eq)

lemma below_bucket_le: "below_bucket_count xs i \<le> length xs"
  by (simp add: below_bucket_count_def)

lemma below_bucket_mono: "i \<le> j \<Longrightarrow> below_bucket_count xs i \<le> below_bucket_count xs j"
  by (induction rule: dec_induct) (simp_all add: below_bucket_Suc)

lemma percentile_scan_finds:
  assumes "length xs \<le> u64_max" and "i \<le> j" and "j < n"
    and "target \<le> below_bucket_count xs (Suc j)" and "below_bucket_count xs j < target"
  shows "percentile_scan target (below_bucket_count xs i) i (map (in_bucket_count xs) [i..<n]) =
    bucket_upper_bound j"
  using assms(2)
proof (induction "j - i" arbitrary: i)
  case 0
  then have [simp]: "i = j" by simp
  have "sat_add (below_bucket_count xs j) (in_bucket_count xs j) = below_bucket_count xs (Suc j)"
    using assms(1) below_bucket_le [of xs "Suc j"] by (simp add: sat_add_def below_bucket_Suc)
  then show ?case using assms(3,4) by (simp add: upt_conv_Cons)
next
  case (Suc d)
  then have "i < j" by simp
  have "sat_add (below_bucket_count xs i) (in_bucket_count xs i) = below_bucket_count xs (Suc i)"
    using assms(1) below_bucket_le [of xs "Suc i"] by (simp add: sat_add_def below_bucket_Suc)
  moreover have "\<not> target \<le> below_bucket_count xs (Suc i)"
    using assms(5) below_bucket_mono [of "Suc i" j xs] \<open>i < j\<close> by simp
  ultimately show ?case
    using Suc.hyps(1) [of "Suc i"] Suc.hyps(2) \<open>i < j\<close> assms(3) by (simp add: upt_conv_Cons)
qed

text \<open>In a sorted list a downward closed predicate holds of a prefix.\<close>

lemma sorted_prefix_count:
  assumes "sorted xs" and "\<And>x y. x \<in> set xs \<Longrightarrow> y \<in> set xs \<Longrightarrow> x \<le> y \<Longrightarrow> P y \<Longrightarrow> P x"
    and "k < length xs"
  shows "k < length (filter P xs) \<longleftrightarrow> P (xs ! k)"
  using assms
proof (induction xs arbitrary: k)
  case (Cons a xs)
  have tail: "filter P xs = []" if "\<not> P a"
    using that Cons.prems(1) Cons.prems(2) [of a] by (auto simp: filter_empty_conv)
  show ?case
  proof (cases k)
    case 0
    then show ?thesis using tail by auto
  next
    case (Suc j)
    have "j < length (filter P xs) \<longleftrightarrow> P (xs ! j)"
      using Cons.prems Suc by (intro Cons.IH) auto
    moreover have "P (xs ! j) \<Longrightarrow> P a"
      using Cons.prems(1) Cons.prems(2) [of a "xs ! j"] Cons.prems(3) Suc by auto
    ultimately show ?thesis using tail Suc by auto
  qed
qed simp

definition rank_value :: "nat list \<Rightarrow> nat \<Rightarrow> nat" where
  "rank_value xs numerator = sort xs ! (percentile_target (length xs) numerator 1000 - 1)"

lemma percentile_target_bounds:
  assumes "0 < n" and "0 < numerator" and "numerator \<le> 1000"
  shows "0 < percentile_target n numerator 1000 \<and> percentile_target n numerator 1000 \<le> n"
proof -
  have "1 \<le> n * numerator" using assms by (simp add: Suc_leI)
  moreover have "n * numerator \<le> n * 1000" using assms by simp
  moreover have "(n * numerator + 999) div 1000 \<le> (n * 1000 + 999) div 1000"
    using assms by (intro div_le_mono) simp
  ultimately show ?thesis unfolding percentile_target_def by (simp add: div_greater_zero_iff)
qed

lemma percentile_rank:
  assumes "xs \<noteq> []" and "length xs \<le> u64_max" and "\<forall>x \<in> set xs. x \<le> u64_max"
    and "0 < numerator" and "numerator \<le> 1000"
  shows "percentile (map (in_bucket_count xs) [0..<LATENCY_BUCKET_COUNT]) (length xs) numerator 1000 =
    bucket_upper_bound (latency_bucket (rank_value xs numerator))"
proof -
  let ?t = "percentile_target (length xs) numerator 1000"
  let ?x = "rank_value xs numerator"
  have t: "0 < ?t" "?t \<le> length xs" using percentile_target_bounds assms by simp_all
  have x: "?x \<in> set xs"
    unfolding rank_value_def by (metis t One_nat_def diff_less length_sort less_le_trans nth_mem
        set_sort zero_less_one)
  have count: "?t \<le> below_bucket_count xs i \<longleftrightarrow> latency_bucket ?x < i" for i
  proof -
    have "?t - 1 < length (filter (\<lambda>x. latency_bucket x < i) (sort xs)) \<longleftrightarrow> latency_bucket ?x < i"
      unfolding rank_value_def
    proof (rule sorted_prefix_count)
      fix x y
      assume "y \<in> set (sort xs)" "x \<le> y" "latency_bucket y < i"
      then show "latency_bucket x < i" using latency_bucket_mono [of x y] assms(3) by simp
    qed (use t in auto)
    moreover have "length (filter (\<lambda>x. latency_bucket x < i) (sort xs)) = below_bucket_count xs i"
      by (simp add: below_bucket_count_def filter_sort)
    ultimately show ?thesis using t by linarith
  qed
  have "percentile_scan ?t (below_bucket_count xs 0) 0 (map (in_bucket_count xs)
      [0..<LATENCY_BUCKET_COUNT]) = bucket_upper_bound (latency_bucket ?x)"
    using assms(2,3) x latency_bucket_less [of ?x] count [of "Suc (latency_bucket ?x)"]
      count [of "latency_bucket ?x"]
    by (intro percentile_scan_finds) auto
  then show ?thesis using assms(1) by (simp add: percentile_def below_bucket_count_def)
qed

lemma sat_sum_counts:
  assumes "length xs \<le> u64_max" and "\<forall>x \<in> set xs. x \<le> u64_max"
  shows "foldl sat_add 0 (map (in_bucket_count xs) [0..<LATENCY_BUCKET_COUNT]) = length xs"
proof -
  have "foldl sat_add 0 (map (in_bucket_count xs) [0..<n]) = below_bucket_count xs n" for n
  proof (induction n)
    case (Suc n)
    then show ?case
      using assms(1) below_bucket_le [of xs "Suc n"] by (simp add: sat_add_def below_bucket_Suc)
  qed (simp add: below_bucket_count_def)
  moreover have "below_bucket_count xs LATENCY_BUCKET_COUNT = length xs"
    unfolding below_bucket_count_def using assms(2) latency_bucket_less by (metis filter_True)
  ultimately show ?thesis by simp
qed

lemma foldr_max_ge: "x \<in> set xs \<Longrightarrow> x \<le> foldr max xs (0 :: nat)"
  by (induction xs) auto

text \<open>An estimate of \<open>x\<close>: never below it, at most twice as large, and not above the maximum.\<close>

definition estimates :: "nat \<Rightarrow> nat \<Rightarrow> nat \<Rightarrow> bool" where
  "estimates p x m \<longleftrightarrow> x \<le> p \<and> p \<le> 2 * x \<and> p \<le> m"

lemma percentile_estimates:
  assumes "xs \<noteq> []" and "length xs \<le> u64_max" and "\<forall>x \<in> set xs. x \<le> u64_max"
    and "0 < numerator" and "numerator \<le> 1000"
  shows "estimates (min (percentile (map (in_bucket_count xs) [0..<LATENCY_BUCKET_COUNT])
    (length xs) numerator 1000) (foldr max xs 0)) (rank_value xs numerator) (foldr max xs 0)"
proof -
  let ?t = "percentile_target (length xs) numerator 1000"
  have "0 < ?t" "?t \<le> length xs" using percentile_target_bounds assms by simp_all
  then have x: "rank_value xs numerator \<in> set xs"
    unfolding rank_value_def by (metis One_nat_def diff_less length_sort less_le_trans nth_mem
        set_sort zero_less_one)
  then show ?thesis
    using bucket_bounds [of "rank_value xs numerator"] foldr_max_ge [OF x] assms(3)
    unfolding percentile_rank [OF assms] by (auto simp: estimates_def)
qed

section \<open>The logger delivers what it accepts\<close>

abbreviation errors_of :: "log_record list \<Rightarrow> log_record list" where
  "errors_of rs \<equiv> filter (\<lambda>r. lr_level r = Error) rs"

abbreviation normals_of :: "log_record list \<Rightarrow> log_record list" where
  "normals_of rs \<equiv> filter (\<lambda>r. lr_level r \<noteq> Error) rs"

definition wf_logger :: "bounded_logger \<Rightarrow> bool" where
  "wf_logger l \<longleftrightarrow>
     length (bl_normal l) \<le> bl_normal_capacity l \<and> length (bl_errors l) \<le> bl_error_capacity l \<and>
     (\<forall>r \<in> set (bl_normal l). lr_level r \<noteq> Error) \<and> (\<forall>r \<in> set (bl_errors l). lr_level r = Error) \<and>
     (\<not> bl_normal_open l \<longrightarrow> \<not> bl_normal_sender l \<and> bl_normal l = []) \<and>
     (\<not> bl_error_open l \<longrightarrow> \<not> bl_error_sender l \<and> bl_errors l = []) \<and>
     (bl_pc l = Exited \<longrightarrow> \<not> bl_normal_open l \<and> \<not> bl_error_open l)"

lemma wf_receive_error: "wf_logger l \<Longrightarrow> wf_logger (receive_error p d l)"
  by (cases "bl_errors l") (auto simp: wf_logger_def receive_error_def deliver_def)

lemma wf_receive_normal: "wf_logger l \<Longrightarrow> wf_logger (receive_normal p d l)"
  by (cases "bl_normal l") (auto simp: wf_logger_def receive_normal_def deliver_def)

lemma wf_logger_pc: "wf_logger l \<Longrightarrow> pc \<noteq> Exited \<Longrightarrow> wf_logger (l\<lparr>bl_pc := pc\<rparr>)"
  by (simp add: wf_logger_def)

lemma wf_dispatch_step: "wf_logger l \<Longrightarrow> wf_logger (dispatch_step p d l)"
  using wf_receive_error [of l p d] wf_receive_normal [of l p d]
  by (cases "bl_pc l") (simp_all add: dispatch_step_def wf_logger_pc, simp add: wf_logger_def)

lemma wf_logger_log: "wf_logger l \<Longrightarrow> wf_logger (fst (logger_log r l))"
  by (cases "lr_level r = Error"; cases "bl_error_sender l"; cases "bl_normal_sender l")
    (simp_all add: wf_logger_def logger_log_def Suc_leI, blast+)

lemma wf_logger_step: "wf_logger l \<Longrightarrow> wf_logger (logger_step x l)"
  by (cases x) (simp_all add: wf_logger_log wf_dispatch_step, simp_all add: wf_logger_def)

definition log_history :: "bounded_logger \<Rightarrow> log_record list \<Rightarrow> bool" where
  "log_history l acc \<longleftrightarrow>
     errors_of (bl_delivered l) @ bl_errors l = errors_of acc \<and>
     normals_of (bl_delivered l) @ bl_normal l = normals_of acc"

lemma log_history_receive:
  assumes "wf_logger l" and "log_history l acc"
  shows "log_history (receive_error p d l) acc" "log_history (receive_normal p d l) acc"
  using assms
  by (cases "bl_errors l"; cases "bl_normal l";
      simp add: wf_logger_def log_history_def receive_error_def receive_normal_def deliver_def)+

lemma log_history_dispatch:
  assumes "wf_logger l" and "log_history l acc"
  shows "log_history (dispatch_step p d l) acc"
  using log_history_receive [OF assms, of p d] assms(2)
  by (cases "bl_pc l") (simp_all add: dispatch_step_def log_history_def)

lemma log_history_log:
  "log_history l acc \<Longrightarrow>
     log_history (fst (logger_log r l)) (acc @ (if snd (logger_log r l) then [r] else []))"
  by (auto simp: log_history_def logger_log_def)

lemma log_history_run:
  "wf_logger l \<Longrightarrow> log_history l acc \<Longrightarrow>
     log_history (run_ops logger_step steps l) (acc @ accepted steps l)"
proof (induction steps arbitrary: l acc)
  case (Cons x steps)
  note w = wf_logger_step [OF Cons.prems(1), of x]
  show ?case
  proof (cases x)
    case (LogCall r)
    then show ?thesis
      using Cons.IH [OF w, of "acc @ (if snd (logger_log r l) then [r] else [])"]
        log_history_log [OF Cons.prems(2), of r] by simp
  next
    case (Dispatch p d)
    then show ?thesis
      using Cons.IH [OF w] log_history_dispatch [OF Cons.prems] by simp
  qed (use Cons.IH [OF w] Cons.prems(2) in \<open>simp_all add: log_history_def\<close>)
qed simp

section \<open>Shutdown\<close>

definition pending_work :: "bounded_logger \<Rightarrow> nat" where
  "pending_work l = length (bl_errors l) + length (bl_normal l) +
     (if bl_error_open l then 1 else 0) + (if bl_normal_open l then 1 else 0)"

definition drain_measure :: "bounded_logger \<Rightarrow> nat" where
  "drain_measure l =
     (case bl_pc l of
        LoopHead \<Rightarrow> if pending_work l = 0 then 1 else 2 * pending_work l + 2
      | SecondReceive \<Rightarrow> if pending_work l = 0 then 2 else 2 * pending_work l + 1
      | Exited \<Rightarrow> 0)"

definition closed :: "bounded_logger \<Rightarrow> bool" where
  "closed l \<longleftrightarrow> \<not> bl_normal_sender l \<and> \<not> bl_error_sender l"

lemma receive_pc [simp]:
  "bl_pc (receive_error p d l) = bl_pc l" "bl_pc (receive_normal p d l) = bl_pc l"
  by (simp_all add: receive_error_def receive_normal_def deliver_def split: list.split)

lemma closed_receive [simp]:
  "closed (receive_error p d l) = closed l" "closed (receive_normal p d l) = closed l"
  by (simp_all add: closed_def receive_error_def receive_normal_def deliver_def split: list.split)

lemma closed_dispatch: "closed l \<Longrightarrow> closed (dispatch_step p d l)"
  by (cases "bl_pc l") (simp_all add: dispatch_step_def, simp_all add: closed_def receive_error_def
      receive_normal_def deliver_def split: list.split)

lemma pending_work_receive:
  assumes "closed l"
  shows "pending_work (receive_error p d l) \<le> pending_work l"
    and "bl_error_open l \<Longrightarrow> pending_work (receive_error p d l) < pending_work l"
    and "bl_normal_open l \<Longrightarrow> pending_work (receive_normal p d l) < pending_work l"
  using assms
  by (auto simp: pending_work_def receive_error_def receive_normal_def deliver_def closed_def
      split: list.split)

lemma pending_work_zero: "wf_logger l \<Longrightarrow> \<not> bl_normal_open l \<Longrightarrow> \<not> bl_error_open l \<Longrightarrow> pending_work l = 0"
  by (simp add: wf_logger_def pending_work_def)

lemma drain_measure_decreases:
  assumes "wf_logger l" and "closed l" and "bl_pc l \<noteq> Exited"
  shows "drain_measure (dispatch_step p d l) < drain_measure l"
proof -
  have pc: "pending_work (l\<lparr>bl_pc := x\<rparr>) = pending_work l" for l x by (simp add: pending_work_def)
  have z: "pending_work l = 0 \<Longrightarrow> \<not> bl_normal_open l \<and> \<not> bl_error_open l"
    by (auto simp: pending_work_def)
  note w = pending_work_receive [OF assms(2), of p d] pending_work_zero [OF assms(1)]
  show ?thesis
  proof (cases "bl_pc l")
    case LoopHead
    then show ?thesis using w z by (auto simp: drain_measure_def dispatch_step_def pc)
  next
    case SecondReceive
    then show ?thesis using w z by (auto simp: drain_measure_def dispatch_step_def pc)
  qed (use assms(3) in simp)
qed

lemma drain_terminates:
  assumes "wf_logger l" and "closed l" and "drain_measure l \<le> length ds"
  shows "bl_pc (run_ops logger_step (map (\<lambda>(p, d). Dispatch p d) ds) l) = Exited"
  using assms
proof (induction ds arbitrary: l)
  case Nil
  then show ?case by (auto simp: drain_measure_def split: dispatch_pc.splits if_splits)
next
  case (Cons x ds)
  obtain p d where [simp]: "x = (p, d)" by (cases x)
  have "drain_measure (dispatch_step p d l) \<le> length ds"
  proof (cases "bl_pc l = Exited")
    case True
    then show ?thesis by (simp add: dispatch_step_def drain_measure_def)
  next
    case False
    then show ?thesis using drain_measure_decreases [OF Cons.prems(1,2) False, of p d] Cons.prems(3)
      by simp
  qed
  then show ?case
    using Cons.IH [OF wf_dispatch_step [OF Cons.prems(1)] closed_dispatch [OF Cons.prems(2)]] by simp
qed

lemma accepted_dispatch [simp]: "accepted (map (\<lambda>(p, d). Dispatch p d) ds) l = []"
  by (induction ds arbitrary: l) auto

lemma wf_logger_new: "logger_new n e = Inr l \<Longrightarrow> wf_logger l \<and> log_history l []"
  by (auto simp: logger_new_def wf_logger_def log_history_def split: if_splits)

interpretation bl: invariant_system "\<lambda>l. \<exists>n e. logger_new n e = Inr l" logger_step wf_logger
  by unfold_locales (auto dest: wf_logger_new intro: wf_logger_step)

section \<open>Properties\<close>

text \<open>
  The percentiles of a histogram are sound estimates: after recording any non-empty list of
  at most \<open>2^64 - 1\<close> durations, the sample count and the maximum are exact, and each reported
  percentile is at least the true order statistic of that rank, at most twice as large, and never
  above the maximum.
\<close>

lemma latency_percentiles_sound:
  assumes "ds \<noteq> []" and "length ds \<le> u64_max"
  defines "xs \<equiv> rev (map micros_of ds)"
    and "s \<equiv> lh_snapshot (fold lh_record ds lh_default)"
  shows "ls_sample_count s = length ds \<and> ls_max_us s = foldr max xs 0 \<and>
    estimates (ls_p50_us s) (rank_value xs 500) (ls_max_us s) \<and>
    estimates (ls_p90_us s) (rank_value xs 900) (ls_max_us s) \<and>
    estimates (ls_p95_us s) (rank_value xs 950) (ls_max_us s) \<and>
    estimates (ls_p99_us s) (rank_value xs 990) (ls_max_us s) \<and>
    estimates (ls_p999_us s) (rank_value xs 999) (ls_max_us s)"
proof -
  have r: "represents xs (fold lh_record ds lh_default)"
    using represents_fold [OF represents_default, of ds] assms(2) by (simp add: xs_def)
  have x: "xs \<noteq> []" "length xs \<le> u64_max" "\<forall>x \<in> set xs. x \<le> u64_max"
    using assms(1,2) by (auto simp: xs_def micros_of_def)
  note c = sat_sum_counts [OF x(2,3)]
  show ?thesis
    using r percentile_estimates [OF x]
    by (simp add: s_def lh_snapshot_def snapshot_from_counts_def represents_def c Let_def)
      (simp add: xs_def)
qed

text \<open>
  The logger delivers each accepted record exactly once and in order within its class,
  whatever the interleaving of producers and the dispatch thread and however often the sink
  panics: what was delivered followed by what is queued is what was accepted, and both queues
  stay within their own capacity.
\<close>

lemma logger_delivers_in_order:
  assumes "logger_new normal_capacity error_capacity = Inr l0"
    and "l = run_ops logger_step steps l0"
  shows "errors_of (bl_delivered l) @ bl_errors l = errors_of (accepted steps l0) \<and>
    normals_of (bl_delivered l) @ bl_normal l = normals_of (accepted steps l0) \<and>
    length (bl_errors l) \<le> bl_error_capacity l \<and> length (bl_normal l) \<le> bl_normal_capacity l"
  using log_history_run [of l0 "[]" steps] wf_logger_new [OF assms(1)]
    bl.reachable_inv [of l0 steps] assms
  by (auto simp: log_history_def wf_logger_def)

definition demo_record :: "log_level \<Rightarrow> log_record" where
  "demo_record level = \<lparr>lr_timestamp_unix_ms = 0, lr_level = level, lr_event_name = [],
     lr_target = [], lr_message = [], lr_runtime = 0, lr_endpoint = 0, lr_session = 0,
     lr_transport = 0, lr_error_code = Ok_Status, lr_correlation_id = 0\<rparr>"

definition demo_logger :: bounded_logger where
  "demo_logger = \<lparr>bl_normal_capacity = 1, bl_error_capacity = 1, bl_normal_sender = True,
     bl_error_sender = True, bl_normal = [], bl_errors = [], bl_dropped = 0, bl_sink_panics = 0,
     bl_total = lh_default, bl_window = lh_default, bl_normal_open = True, bl_error_open = True,
     bl_pc = LoopHead, bl_delivered = []\<rparr>"

lemma demo_logger_new: "logger_new 1 1 = Inr demo_logger"
  by (simp add: logger_new_def demo_logger_def)

text \<open>
  C19. Shutdown drains the logger and terminates: once both senders are gone, the dispatch thread
  exits after a number of receives bounded by the queued records, whatever the sink does, and by
  then every record ever accepted has been delivered.
\<close>

theorem logger_shutdown_drains:
  assumes "logger_new normal_capacity error_capacity = Inr l0"
    and "l = run_ops logger_step steps l0" and "closed l"
    and "2 * (length (bl_errors l) + length (bl_normal l)) + 6 \<le> length ds"
    and "l' = run_ops logger_step (map (\<lambda>(p, d). Dispatch p d) ds) l"
  shows "bl_pc l' = Exited \<and> errors_of (bl_delivered l') = errors_of (accepted steps l0) \<and>
    normals_of (bl_delivered l') = normals_of (accepted steps l0)"
proof -
  have w: "wf_logger l" using bl.reachable_inv [of l0 steps] assms(1,2) by blast
  have "drain_measure l \<le> length ds"
    using assms(4) by (auto simp: drain_measure_def pending_work_def split: dispatch_pc.split)
  then have e: "bl_pc l' = Exited" using drain_terminates [OF w assms(3)] assms(5) by simp
  have w': "wf_logger l'" using bl.run_inv [OF w] assms(5) by simp
  have "log_history l' (accepted steps l0)"
    using log_history_run [of l "accepted steps l0" "map (\<lambda>(p, d). Dispatch p d) ds"] w
      log_history_run [of l0 "[]" steps] wf_logger_new [OF assms(1)] assms(2,5) by simp
  then show ?thesis using e w' by (auto simp: log_history_def wf_logger_def)
qed

theorem logger_shutdown_drains_witness:
  "\<exists>l. l = run_ops logger_step [LogCall (demo_record Info), TakeNormal, TakeErrors] demo_logger \<and>
     closed l \<and> bl_pc (run_ops logger_step (replicate 8 (Dispatch False 1)) l) = Exited \<and>
     normals_of (bl_delivered (run_ops logger_step (replicate 8 (Dispatch False 1)) l)) =
       [demo_record Info]"
proof -
  let ?steps = "[LogCall (demo_record Info), TakeNormal, TakeErrors]"
  let ?l = "run_ops logger_step ?steps demo_logger"
  have c: "closed ?l" "2 * (length (bl_errors ?l) + length (bl_normal ?l)) + 6 \<le> 8"
    "normals_of (accepted ?steps demo_logger) = [demo_record Info]"
    by (simp_all add: demo_logger_def logger_log_def demo_record_def closed_def)
  have "map (\<lambda>(p, d). Dispatch p d) (replicate 8 (False, 1)) = replicate 8 (Dispatch False 1)"
    by simp
  note d = logger_shutdown_drains [OF demo_logger_new refl c(1) _ refl, of "replicate 8 (False, 1)",
      unfolded length_replicate this c(3), OF c(2)]
  show ?thesis using c(1) d by blast
qed

end
