(* ===== verification/Send_Scheduler.thy ===== *)
theory Send_Scheduler
  imports Tables Observe
begin

text \<open>
  The staging queue of ordinary game sends, \<^verbatim>\<open>rnet-game/src/scheduler.rs\<close>: four priority
  classes served in a fixed weighted order, round robin over the sessions of a class, with
  message, byte and per-session budgets. A message handed out by \<^verbatim>\<open>pop_next\<close> keeps its
  reservation until the caller forwards it, fails it, or puts it back.
\<close>

section \<open>Model\<close>

definition ENVELOPE_RESERVATION :: nat where "ENVELOPE_RESERVATION = 16"

definition WEIGHTED_ORDER :: "nat list" where
  "WEIGHTED_ORDER = [3, 3, 3, 3, 3, 3, 3, 3, 2, 2, 2, 2, 1, 1, 0]"

datatype game_priority = Low | Normal | High | Critical

fun priority_index :: "game_priority \<Rightarrow> nat" where
  "priority_index Low = 0"
| "priority_index Normal = 1"
| "priority_index High = 2"
| "priority_index Critical = 3"

record scheduled_queue_config =
  qc_max_queued_bytes :: nat
  qc_max_session_queued_bytes :: nat
  qc_max_queued_messages :: nat
  qc_flush_batch :: nat

definition scheduled_config_default :: scheduled_queue_config where
  "scheduled_config_default = \<lparr>qc_max_queued_bytes = 16 * 1024 * 1024,
     qc_max_session_queued_bytes = 256 * 1024, qc_max_queued_messages = 65536,
     qc_flush_batch = 256\<rparr>"

record scheduled_counters =
  sn_queued_messages :: nat
  sn_queued_bytes :: nat
  sn_admission_rejected :: nat
  sn_expired_dropped :: nat
  sn_closed_dropped :: nat
  sn_send_failed :: nat
  sn_forwarded :: nat
  sn_backpressure_requeued :: nat
  sn_admitted_by_priority :: "nat list"
  sn_forwarded_by_priority :: "nat list"

definition counters_default :: scheduled_counters where
  "counters_default = \<lparr>sn_queued_messages = 0, sn_queued_bytes = 0, sn_admission_rejected = 0,
     sn_expired_dropped = 0, sn_closed_dropped = 0, sn_send_failed = 0, sn_forwarded = 0,
     sn_backpressure_requeued = 0, sn_admitted_by_priority = [0, 0, 0, 0],
     sn_forwarded_by_priority = [0, 0, 0, 0]\<rparr>"

record scheduled_message =
  sm_session :: handle
  sm_payload :: bytes
  sm_sequence :: "u32 option"
  sm_tick :: "u32 option"
  sm_correlation_id :: u64
  sm_priority :: game_priority
  sm_enqueued_at :: instant
  sm_expires_at :: "instant option"

definition sm_reserved_bytes :: "scheduled_message \<Rightarrow> nat" where
  "sm_reserved_bytes m = min (length (sm_payload m) + ENVELOPE_RESERVATION) usize_max"

record fair_queue =
  fq_sessions :: "handle list"
  fq_messages :: "(handle, scheduled_message list) table"

record scheduled_queue =
  sq_queues :: "fair_queue list"
  sq_session_bytes :: "(handle, nat) table"
  sq_max_total_bytes :: nat
  sq_max_session_bytes :: nat
  sq_max_messages :: nat
  sq_cursor :: nat
  sq_counters :: scheduled_counters
  sq_queue_delay :: latency_histogram
  sq_tick_queue_delay :: latency_histogram

definition fq_default :: fair_queue where
  "fq_default = \<lparr>fq_sessions = [], fq_messages = fmempty\<rparr>"

definition fq_push :: "scheduled_message \<Rightarrow> fair_queue \<Rightarrow> fair_queue" where
  "fq_push m q =
     (let session = sm_session m;
          queue = (case fmlookup (fq_messages q) session of None \<Rightarrow> [] | Some ms \<Rightarrow> ms)
      in q\<lparr>fq_sessions := (if queue = [] then fq_sessions q @ [session] else fq_sessions q),
           fq_messages := fmupd session (queue @ [m]) (fq_messages q)\<rparr>)"

text \<open>
  \<open>None\<close> is the panic of the two \<^verbatim>\<open>expect\<close>s: the session order names a session without messages.
\<close>

definition fq_pop :: "fair_queue \<Rightarrow> (fair_queue \<times> scheduled_message option) option" where
  "fq_pop q =
     (case fq_sessions q of
        [] \<Rightarrow> Some (q, None)
      | session # rest \<Rightarrow>
          (case fmlookup (fq_messages q) session of
             Some (m # ms) \<Rightarrow>
               Some ((if ms = []
                      then q\<lparr>fq_sessions := rest, fq_messages := fmdrop session (fq_messages q)\<rparr>
                      else q\<lparr>fq_sessions := rest @ [session],
                             fq_messages := fmupd session ms (fq_messages q)\<rparr>), Some m)
           | _ \<Rightarrow> None))"

definition fq_remove_session :: "handle \<Rightarrow> fair_queue \<Rightarrow> fair_queue \<times> nat" where
  "fq_remove_session session q =
     (q\<lparr>fq_sessions := filter (\<lambda>s. s \<noteq> session) (fq_sessions q),
        fq_messages := fmdrop session (fq_messages q)\<rparr>,
      case fmlookup (fq_messages q) session of None \<Rightarrow> 0 | Some ms \<Rightarrow> length ms)"

definition sq_from_config :: "scheduled_queue_config \<Rightarrow> scheduled_queue result" where
  "sq_from_config c =
     (if qc_max_queued_bytes c = 0 \<or> qc_max_session_queued_bytes c = 0 \<or>
         qc_max_queued_bytes c < qc_max_session_queued_bytes c \<or> qc_max_queued_messages c = 0 \<or>
         qc_flush_batch c = 0
      then Inl InvalidArgument
      else Inr \<lparr>sq_queues = replicate 4 fq_default, sq_session_bytes = fmempty,
        sq_max_total_bytes = qc_max_queued_bytes c,
        sq_max_session_bytes = qc_max_session_queued_bytes c,
        sq_max_messages = qc_max_queued_messages c, sq_cursor = 0,
        sq_counters = counters_default, sq_queue_delay = lh_default,
        sq_tick_queue_delay = lh_default\<rparr>)"

definition session_bytes_of :: "handle \<Rightarrow> scheduled_queue \<Rightarrow> nat" where
  "session_bytes_of s q = (case fmlookup (sq_session_bytes q) s of None \<Rightarrow> 0 | Some n \<Rightarrow> n)"

definition bump :: "nat list \<Rightarrow> nat \<Rightarrow> nat list" where
  "bump xs i = xs[i := sat_add (xs ! i) 1]"

definition sq_fits :: "scheduled_message \<Rightarrow> scheduled_queue \<Rightarrow> bool" where
  "sq_fits m q \<longleftrightarrow>
     sn_queued_messages (sq_counters q) < sq_max_messages q \<and>
     (case checked_add (sn_queued_bytes (sq_counters q)) (sm_reserved_bytes m) of
        None \<Rightarrow> False | Some n \<Rightarrow> n \<le> sq_max_total_bytes q) \<and>
     (case checked_add (session_bytes_of (sm_session m) q) (sm_reserved_bytes m) of
        None \<Rightarrow> False | Some n \<Rightarrow> n \<le> sq_max_session_bytes q)"

definition sq_enqueue :: "scheduled_message \<Rightarrow> scheduled_queue \<Rightarrow> scheduled_queue \<times> unit result" where
  "sq_enqueue m q =
     (let b = sm_reserved_bytes m;
          c = sq_counters q;
          p = priority_index (sm_priority m)
      in if \<not> sq_fits m q
         then (q\<lparr>sq_counters := c\<lparr>sn_admission_rejected := sat_add (sn_admission_rejected c) 1\<rparr>\<rparr>,
               Inl WouldBlock)
         else (q\<lparr>sq_counters := c\<lparr>sn_queued_messages := sn_queued_messages c + 1,
                   sn_queued_bytes := sn_queued_bytes c + b,
                   sn_admitted_by_priority := bump (sn_admitted_by_priority c) p\<rparr>,
                 sq_session_bytes := fmupd (sm_session m) (session_bytes_of (sm_session m) q + b)
                   (sq_session_bytes q),
                 sq_queues := (sq_queues q)[p := fq_push m (sq_queues q ! p)]\<rparr>, Inr ()))"

definition sq_release :: "scheduled_message \<Rightarrow> scheduled_queue \<Rightarrow> scheduled_queue" where
  "sq_release m q =
     (let b = sm_reserved_bytes m;
          c = sq_counters q
      in q\<lparr>sq_counters := c\<lparr>sn_queued_messages := sn_queued_messages c - 1,
             sn_queued_bytes := sn_queued_bytes c - b\<rparr>,
           sq_session_bytes :=
             (case fmlookup (sq_session_bytes q) (sm_session m) of
                None \<Rightarrow> sq_session_bytes q
              | Some n \<Rightarrow> if n - b = 0 then fmdrop (sm_session m) (sq_session_bytes q)
                          else fmupd (sm_session m) (n - b) (sq_session_bytes q))\<rparr>)"

text \<open>The inner loop: at most \<open>k\<close> slots of the weighted order from the cursor on.\<close>

fun select_slots :: "nat \<Rightarrow> scheduled_queue \<Rightarrow> (scheduled_queue \<times> scheduled_message option) option" where
  "select_slots 0 q = Some (q, None)"
| "select_slots (Suc k) q =
     (let priority = WEIGHTED_ORDER ! sq_cursor q;
          q1 = q\<lparr>sq_cursor := (sq_cursor q + 1) mod length WEIGHTED_ORDER\<rparr>
      in case fq_pop (sq_queues q ! priority) of
           None \<Rightarrow> None
         | Some (fq, Some m) \<Rightarrow> Some (q1\<lparr>sq_queues := (sq_queues q)[priority := fq]\<rparr>, Some m)
         | Some (fq, None) \<Rightarrow> select_slots k q1)"

definition is_expired :: "instant \<Rightarrow> scheduled_message \<Rightarrow> bool" where
  "is_expired now m \<longleftrightarrow> (case sm_expires_at m of None \<Rightarrow> False | Some deadline \<Rightarrow> deadline \<le> now)"

text \<open>
  The outer loop drops expired messages. Its fuel is the number of iterations allowed; the
  theorems show that one more than the number of queued messages always suffices.
\<close>

fun pop_loop ::
    "nat \<Rightarrow> instant \<Rightarrow> scheduled_queue \<Rightarrow> (scheduled_queue \<times> scheduled_message option) option" where
  "pop_loop 0 now q = None"
| "pop_loop (Suc fuel) now q =
     (case select_slots (length WEIGHTED_ORDER) q of
        None \<Rightarrow> None
      | Some (q1, None) \<Rightarrow> Some (q1, None)
      | Some (q1, Some m) \<Rightarrow>
          if is_expired now m
          then (let q2 = sq_release m q1; c = sq_counters q2
                in pop_loop fuel now
                     (q2\<lparr>sq_counters := c\<lparr>sn_expired_dropped := sat_add (sn_expired_dropped c) 1\<rparr>\<rparr>))
          else Some (q1, Some m))"

definition sq_pop_next ::
    "instant \<Rightarrow> scheduled_queue \<Rightarrow> (scheduled_queue \<times> scheduled_message option) option" where
  "sq_pop_next now q = pop_loop (Suc (sn_queued_messages (sq_counters q))) now q"

definition sq_requeue :: "scheduled_message \<Rightarrow> scheduled_queue \<Rightarrow> scheduled_queue" where
  "sq_requeue m q =
     (let c = sq_counters q; p = priority_index (sm_priority m)
      in q\<lparr>sq_counters := c\<lparr>sn_backpressure_requeued := sat_add (sn_backpressure_requeued c) 1\<rparr>,
           sq_queues := (sq_queues q)[p := fq_push m (sq_queues q ! p)]\<rparr>)"

definition sq_forget_session :: "handle \<Rightarrow> scheduled_queue \<Rightarrow> scheduled_queue \<times> nat" where
  "sq_forget_session s q =
     (let removed = map (fq_remove_session s) (sq_queues q);
          dropped = sum_list (map snd removed);
          c = sq_counters q
      in (q\<lparr>sq_queues := map fst removed,
            sq_session_bytes := fmdrop s (sq_session_bytes q),
            sq_counters := c\<lparr>sn_queued_bytes := sn_queued_bytes c - session_bytes_of s q,
              sn_queued_messages := sn_queued_messages c - dropped,
              sn_closed_dropped := sat_add (sn_closed_dropped c) dropped\<rparr>\<rparr>, dropped))"

definition sq_record_forwarded :: "instant \<Rightarrow> scheduled_message \<Rightarrow> scheduled_queue \<Rightarrow> scheduled_queue" where
  "sq_record_forwarded now m q =
     (let delay = now - sm_enqueued_at m;
          q1 = sq_release m (q\<lparr>sq_queue_delay := lh_record delay (sq_queue_delay q),
                 sq_tick_queue_delay := (if sm_tick m \<noteq> None
                   then lh_record delay (sq_tick_queue_delay q) else sq_tick_queue_delay q)\<rparr>);
          c = sq_counters q1
      in q1\<lparr>sq_counters := c\<lparr>sn_forwarded := sat_add (sn_forwarded c) 1,
              sn_forwarded_by_priority :=
                bump (sn_forwarded_by_priority c) (priority_index (sm_priority m))\<rparr>\<rparr>)"

definition sq_record_send_failed :: "scheduled_message \<Rightarrow> scheduled_queue \<Rightarrow> scheduled_queue" where
  "sq_record_send_failed m q =
     (let q1 = sq_release m q; c = sq_counters q1
      in q1\<lparr>sq_counters := c\<lparr>sn_send_failed := sat_add (sn_send_failed c) 1\<rparr>\<rparr>)"

definition sq_clear :: "scheduled_queue \<Rightarrow> scheduled_queue" where
  "sq_clear q =
     (let c = sq_counters q
      in q\<lparr>sq_queues := map (\<lambda>fq. fq\<lparr>fq_sessions := [], fq_messages := fmempty\<rparr>) (sq_queues q),
           sq_session_bytes := fmempty,
           sq_counters := c\<lparr>sn_queued_messages := 0, sn_queued_bytes := 0,
             sn_closed_dropped := sat_add (sn_closed_dropped c) (sn_queued_messages c)\<rparr>\<rparr>)"

section \<open>One priority class\<close>

definition fq_session :: "fair_queue \<Rightarrow> handle \<Rightarrow> scheduled_message list" where
  "fq_session q s = (case fmlookup (fq_messages q) s of None \<Rightarrow> [] | Some ms \<Rightarrow> ms)"

definition wf_fq :: "fair_queue \<Rightarrow> bool" where
  "wf_fq q \<longleftrightarrow> distinct (fq_sessions q) \<and>
     (\<forall>s. case fmlookup (fq_messages q) s of
        None \<Rightarrow> s \<notin> set (fq_sessions q)
      | Some ms \<Rightarrow> s \<in> set (fq_sessions q) \<and> ms \<noteq> [] \<and> (\<forall>m \<in> set ms. sm_session m = s))"

lemma wf_fqD:
  assumes "wf_fq q"
  shows "distinct (fq_sessions q)"
    and "fmlookup (fq_messages q) s = None \<Longrightarrow> s \<notin> set (fq_sessions q)"
    and "fmlookup (fq_messages q) s = Some ms \<Longrightarrow>
      s \<in> set (fq_sessions q) \<and> ms \<noteq> [] \<and> (\<forall>m \<in> set ms. sm_session m = s)"
proof -
  have "case fmlookup (fq_messages q) s of
        None \<Rightarrow> s \<notin> set (fq_sessions q)
      | Some ms \<Rightarrow> s \<in> set (fq_sessions q) \<and> ms \<noteq> [] \<and> (\<forall>m \<in> set ms. sm_session m = s)"
    using assms unfolding wf_fq_def by blast
  then show "fmlookup (fq_messages q) s = None \<Longrightarrow> s \<notin> set (fq_sessions q)"
    and "fmlookup (fq_messages q) s = Some ms \<Longrightarrow>
      s \<in> set (fq_sessions q) \<and> ms \<noteq> [] \<and> (\<forall>m \<in> set ms. sm_session m = s)"
    by simp_all
  show "distinct (fq_sessions q)" using assms unfolding wf_fq_def by blast
qed

lemma wf_fqI:
  assumes "distinct (fq_sessions q)"
    and "\<And>s. fmlookup (fq_messages q) s = None \<Longrightarrow> s \<notin> set (fq_sessions q)"
    and "\<And>s ms. fmlookup (fq_messages q) s = Some ms \<Longrightarrow>
      s \<in> set (fq_sessions q) \<and> ms \<noteq> [] \<and> (\<forall>m \<in> set ms. sm_session m = s)"
  shows "wf_fq q"
  using assms unfolding wf_fq_def by (auto split: option.split)

definition fq_weight :: "(scheduled_message \<Rightarrow> nat) \<Rightarrow> fair_queue \<Rightarrow> nat" where
  "fq_weight f q = table_sum (\<lambda>ms. sum_list (map f ms)) (fq_messages q)"

lemma fq_session_empty_iff: "wf_fq q \<Longrightarrow> fq_session q s = [] \<longleftrightarrow> s \<notin> set (fq_sessions q)"
  using wf_fqD(2) [of q s] wf_fqD(3) [of q s] by (auto simp: fq_session_def split: option.split)

lemma fq_weight_split:
  "fq_weight f q =
     sum_list (map f (fq_session q s)) + table_sum (\<lambda>ms. sum_list (map f ms)) (fmdrop s (fq_messages q))"
  by (cases "fmlookup (fq_messages q) s")
    (simp_all add: fq_weight_def fq_session_def fmdrop_absent table_sum_remove)

lemma fq_push_wf:
  assumes "wf_fq q"
  shows "wf_fq (fq_push m q)"
proof (cases "fmlookup (fq_messages q) (sm_session m)")
  case None
  then show ?thesis
    using wf_fqD(1) [OF assms] wf_fqD(2) [OF assms] wf_fqD(3) [OF assms]
    by (intro wf_fqI) (auto simp: fq_push_def Let_def split: if_splits)
next
  case (Some ms)
  then show ?thesis
    using wf_fqD(1) [OF assms] wf_fqD(2) [OF assms] wf_fqD(3) [OF assms]
    by (intro wf_fqI) (auto simp: fq_push_def Let_def split: if_splits)
qed

lemma fq_push_weight: "fq_weight f (fq_push m q) = f m + fq_weight f q"
  unfolding fq_weight_split [of f q "sm_session m"]
  by (simp add: fq_weight_def fq_push_def fq_session_def Let_def)

lemma fq_pop_spec:
  assumes "wf_fq q"
  shows "(fq_sessions q = [] \<and> fq_pop q = Some (q, None) \<and> fq_weight f q = 0) \<or>
    (\<exists>q' m. fq_pop q = Some (q', Some m) \<and> wf_fq q' \<and> fq_weight f q = f m + fq_weight f q')"
proof (cases "fq_sessions q")
  case Nil
  have "fmlookup (fq_messages q) s = None" for s
    using wf_fqD(3) [OF assms, of s] Nil by (cases "fmlookup (fq_messages q) s") auto
  then have "fq_messages q = fmempty" by (intro fmap_ext) simp
  then show ?thesis using Nil by (simp add: fq_pop_def fq_weight_def)
next
  case (Cons s rest)
  obtain ms where ms: "fmlookup (fq_messages q) s = Some ms" "ms \<noteq> []"
    using wf_fqD(2,3) [OF assms, of s] Cons by (cases "fmlookup (fq_messages q) s") auto
  then obtain m tl where mt: "ms = m # tl" by (cases ms) auto
  define q' where "q' = (if tl = []
      then q\<lparr>fq_sessions := rest, fq_messages := fmdrop s (fq_messages q)\<rparr>
      else q\<lparr>fq_sessions := rest @ [s], fq_messages := fmupd s tl (fq_messages q)\<rparr>)"
  have "fq_pop q = Some (q', Some m)" using Cons ms mt by (simp add: fq_pop_def q'_def)
  moreover have "wf_fq q'"
  proof (rule wf_fqI)
    show "distinct (fq_sessions q')" using wf_fqD(1) [OF assms] Cons by (auto simp: q'_def)
    show "t \<notin> set (fq_sessions q')" if "fmlookup (fq_messages q') t = None" for t
      using that wf_fqD(1) [OF assms] wf_fqD(2) [OF assms, of t] Cons
      by (auto simp: q'_def split: if_splits)
    show "t \<in> set (fq_sessions q') \<and> ns \<noteq> [] \<and> (\<forall>m \<in> set ns. sm_session m = t)"
      if "fmlookup (fq_messages q') t = Some ns" for t ns
    proof (cases "t = s")
      case True
      then show ?thesis using that wf_fqD(3) [OF assms ms(1)] mt by (auto simp: q'_def split: if_splits)
    next
      case False
      then have "fmlookup (fq_messages q) t = Some ns" using that by (auto simp: q'_def split: if_splits)
      then show ?thesis using wf_fqD(3) [OF assms, of t ns] Cons False by (auto simp: q'_def)
    qed
  qed
  moreover have "fq_weight f q = f m + fq_weight f q'"
    unfolding fq_weight_split [of f q s]
    using ms mt by (simp add: fq_weight_def q'_def fq_session_def)
  ultimately show ?thesis by blast
qed

lemma fq_remove_session_wf: "wf_fq q \<Longrightarrow> wf_fq (fst (fq_remove_session s q))"
  using wf_fqD(1) [of q] wf_fqD(2) [of q] wf_fqD(3) [of q]
  by (intro wf_fqI) (auto simp: fq_remove_session_def split: if_splits)

lemma fq_remove_session_count: "snd (fq_remove_session s q) = length (fq_session q s)"
  by (simp add: fq_remove_session_def fq_session_def split: option.splits)

lemma fq_remove_session_weight:
  "fq_weight f q = sum_list (map f (fq_session q s)) + fq_weight f (fst (fq_remove_session s q))"
  unfolding fq_weight_split [of f q s] by (simp add: fq_weight_def fq_remove_session_def)

section \<open>Accounting of the whole queue\<close>

definition sq_weight :: "(scheduled_message \<Rightarrow> nat) \<Rightarrow> scheduled_queue \<Rightarrow> nat" where
  "sq_weight f q = sum_list (map (fq_weight f) (sq_queues q))"

definition session_cost :: "handle \<Rightarrow> scheduled_message \<Rightarrow> nat" where
  "session_cost s m = (if sm_session m = s then sm_reserved_bytes m else 0)"

definition queues_ok :: "scheduled_queue \<Rightarrow> bool" where
  "queues_ok q \<longleftrightarrow> length (sq_queues q) = 4 \<and> (\<forall>fq \<in> set (sq_queues q). wf_fq fq) \<and>
     sq_cursor q < length WEIGHTED_ORDER"

text \<open>
  \<open>F\<close> lists the messages handed out and not yet settled: the counters charge exactly the queued
  and the handed-out messages, in total and for each session, within the three budgets.
\<close>

definition charged :: "scheduled_queue \<Rightarrow> scheduled_message list \<Rightarrow> bool" where
  "charged q F \<longleftrightarrow>
     sn_queued_messages (sq_counters q) = sq_weight (\<lambda>_. 1) q + length F \<and>
     sn_queued_bytes (sq_counters q) =
       sq_weight sm_reserved_bytes q + sum_list (map sm_reserved_bytes F) \<and>
     (\<forall>s. session_bytes_of s q =
        sq_weight (session_cost s) q + sum_list (map (session_cost s) F))"

definition within_budget :: "scheduled_queue \<Rightarrow> bool" where
  "within_budget q \<longleftrightarrow>
     sn_queued_messages (sq_counters q) \<le> sq_max_messages q \<and>
     sn_queued_bytes (sq_counters q) \<le> sq_max_total_bytes q \<and>
     (\<forall>s. session_bytes_of s q \<le> sq_max_session_bytes q)"

definition wf_sq :: "scheduled_queue \<Rightarrow> scheduled_message list \<Rightarrow> bool" where
  "wf_sq q F \<longleftrightarrow> queues_ok q \<and> charged q F \<and> within_budget q"

lemma priority_index_less [simp]: "priority_index p < 4"
  by (cases p) simp_all

lemma weighted_order_less: "i < length WEIGHTED_ORDER \<Longrightarrow> WEIGHTED_ORDER ! i < 4"
proof -
  assume "i < length WEIGHTED_ORDER"
  then have "WEIGHTED_ORDER ! i \<in> set WEIGHTED_ORDER" by simp
  moreover have "\<forall>x \<in> set WEIGHTED_ORDER. x < 4" by (simp add: WEIGHTED_ORDER_def)
  ultimately show ?thesis by blast
qed

lemma sm_reserved_pos: "0 < sm_reserved_bytes m"
  by (simp add: sm_reserved_bytes_def ENVELOPE_RESERVATION_def usize_max_def)

lemma sum_list_set_nth:
  "p < length xs \<Longrightarrow> sum_list (map g (xs[p := x])) + g (xs ! p) = sum_list (map g xs) + (g x :: nat)"
  by (induction xs arbitrary: p) (auto split: nat.splits)

lemma sq_weight_set:
  assumes "p < length (sq_queues q)" and "sq_queues q' = (sq_queues q)[p := x]"
  shows "sq_weight f q' + fq_weight f (sq_queues q ! p) = sq_weight f q + fq_weight f x"
  unfolding sq_weight_def assms(2) by (rule sum_list_set_nth [OF assms(1)])

lemma sq_weight_push:
  assumes "p < length (sq_queues q)" and "sq_queues q' = (sq_queues q)[p := fq_push m (sq_queues q ! p)]"
  shows "sq_weight f q' = sq_weight f q + f m"
  using sq_weight_set [OF assms, of f] by (simp add: fq_push_weight)

lemma sq_weight_cong: "sq_queues q' = sq_queues q \<Longrightarrow> sq_weight f q' = sq_weight f q"
  by (simp add: sq_weight_def)

lemma queues_ok_push:
  assumes "queues_ok q" and "p < 4" and "sq_queues q' = (sq_queues q)[p := fq_push m (sq_queues q ! p)]"
    and "sq_cursor q' = sq_cursor q"
  shows "queues_ok q'"
  using assms by (auto simp: queues_ok_def dest!: set_update_subset_insert [THEN subsetD]
      intro: fq_push_wf)

lemma session_bytes_upd [simp]:
  "session_bytes_of s (q\<lparr>sq_session_bytes := fmupd t n (sq_session_bytes q)\<rparr>) =
     (if s = t then n else session_bytes_of s q)"
  by (simp add: session_bytes_of_def)

lemma sq_enqueue_wf:
  assumes "wf_sq q F"
  shows "wf_sq (fst (sq_enqueue m q)) F"
proof (cases "sq_fits m q")
  case False
  then show ?thesis using assms
    by (auto simp: sq_enqueue_def Let_def wf_sq_def queues_ok_def charged_def within_budget_def
        sq_weight_def session_bytes_of_def)
next
  case True
  let ?q = "fst (sq_enqueue m q)" and ?p = "priority_index (sm_priority m)"
  have ok: "queues_ok q" and c: "charged q F" and b: "within_budget q" using assms by (auto simp: wf_sq_def)
  have p: "?p < length (sq_queues q)" using ok by (simp add: queues_ok_def)
  have qs: "sq_queues ?q = (sq_queues q)[?p := fq_push m (sq_queues q ! ?p)]"
    "sq_cursor ?q = sq_cursor q"
    using True by (simp_all add: sq_enqueue_def Let_def)
  have sb: "session_bytes_of s ?q = session_bytes_of s q + session_cost s m" for s
    using True by (simp add: sq_enqueue_def Let_def session_bytes_of_def session_cost_def)
  have cn: "sn_queued_messages (sq_counters ?q) = sn_queued_messages (sq_counters q) + 1"
    "sn_queued_bytes (sq_counters ?q) = sn_queued_bytes (sq_counters q) + sm_reserved_bytes m"
    "sq_max_messages ?q = sq_max_messages q" "sq_max_total_bytes ?q = sq_max_total_bytes q"
    "sq_max_session_bytes ?q = sq_max_session_bytes q"
    using True by (simp_all add: sq_enqueue_def Let_def)
  have "queues_ok ?q" by (rule queues_ok_push [OF ok priority_index_less qs])
  moreover have "charged ?q F"
    using c by (simp add: charged_def cn sb sq_weight_push [OF p qs(1)])
  moreover have "within_budget ?q"
    using True b by (auto simp: within_budget_def cn sb sq_fits_def session_cost_def
        split: option.splits)
  ultimately show ?thesis by (simp add: wf_sq_def)
qed

lemma sq_release_fields [simp]:
  "sq_queues (sq_release m q) = sq_queues q" "sq_cursor (sq_release m q) = sq_cursor q"
  "sq_max_messages (sq_release m q) = sq_max_messages q"
  "sq_max_total_bytes (sq_release m q) = sq_max_total_bytes q"
  "sq_max_session_bytes (sq_release m q) = sq_max_session_bytes q"
  "sn_queued_messages (sq_counters (sq_release m q)) = sn_queued_messages (sq_counters q) - 1"
  "sn_queued_bytes (sq_counters (sq_release m q)) =
     sn_queued_bytes (sq_counters q) - sm_reserved_bytes m"
  by (simp_all add: sq_release_def Let_def)

lemma sq_release_session_bytes [simp]:
  "session_bytes_of s (sq_release m q) = session_bytes_of s q - session_cost s m"
  by (auto simp: sq_release_def Let_def session_bytes_of_def session_cost_def split: option.split)

lemma sq_release_wf: "wf_sq q (m # F) \<Longrightarrow> wf_sq (sq_release m q) F"
proof -
  assume w: "wf_sq q (m # F)"
  have "queues_ok (sq_release m q)" using w by (simp add: wf_sq_def queues_ok_def)
  moreover have "charged (sq_release m q) F"
    using w sq_weight_cong [of "sq_release m q" q] by (simp add: wf_sq_def charged_def)
  moreover have "within_budget (sq_release m q)"
    using w unfolding wf_sq_def within_budget_def by (simp add: le_diff_conv trans_le_add1)
  ultimately show ?thesis by (simp add: wf_sq_def)
qed

text \<open>Changes of the statistics alone do not matter to the accounting.\<close>

lemma wf_sq_cong:
  assumes "wf_sq q F" and "sq_queues q' = sq_queues q" and "sq_cursor q' = sq_cursor q"
    and "sq_session_bytes q' = sq_session_bytes q"
    and "sn_queued_messages (sq_counters q') = sn_queued_messages (sq_counters q)"
    and "sn_queued_bytes (sq_counters q') = sn_queued_bytes (sq_counters q)"
    and "sq_max_messages q' = sq_max_messages q" and "sq_max_total_bytes q' = sq_max_total_bytes q"
    and "sq_max_session_bytes q' = sq_max_session_bytes q"
  shows "wf_sq q' F"
proof -
  have "queues_ok q'" using assms(1,2,3) by (simp add: wf_sq_def queues_ok_def)
  moreover have "charged q' F"
    using assms(1,2,4,5,6) by (simp add: wf_sq_def charged_def sq_weight_def session_bytes_of_def)
  moreover have "within_budget q'"
    using assms(1) assms(4-9) unfolding wf_sq_def within_budget_def session_bytes_of_def by simp
  ultimately show ?thesis by (simp add: wf_sq_def)
qed

lemma sq_weight_pop:
  assumes "queues_ok q" and "p < 4" and "fq_pop (sq_queues q ! p) = Some (fq, Some m)"
    and "sq_queues q' = (sq_queues q)[p := fq]"
  shows "sq_weight f q = sq_weight f q' + f m"
proof -
  have p: "p < length (sq_queues q)" and w: "wf_fq (sq_queues q ! p)"
    using assms(1,2) by (simp_all add: queues_ok_def)
  have "fq_weight f (sq_queues q ! p) = f m + fq_weight f fq"
    using fq_pop_spec [OF w, of f] assms(3) by auto
  then show ?thesis using sq_weight_set [OF p assms(4), of f] by simp
qed

lemma queues_ok_pop:
  assumes "queues_ok q" and "p < 4" and "fq_pop (sq_queues q ! p) = Some (fq, Some m)"
    and "sq_queues q' = (sq_queues q)[p := fq]" and "sq_cursor q' < length WEIGHTED_ORDER"
  shows "queues_ok q'"
proof -
  have "wf_fq (sq_queues q ! p)" using assms(1,2) by (simp add: queues_ok_def)
  then have "wf_fq fq" using fq_pop_spec [of "sq_queues q ! p" "\<lambda>_. 0"] assms(3) by auto
  then show ?thesis
    using assms by (auto simp: queues_ok_def dest!: set_update_subset_insert [THEN subsetD])
qed

lemma wf_sq_pop:
  assumes "wf_sq q F" and "p < 4" and "fq_pop (sq_queues q ! p) = Some (fq, Some m)"
    and "i < length WEIGHTED_ORDER"
  shows "wf_sq (q\<lparr>sq_cursor := i, sq_queues := (sq_queues q)[p := fq]\<rparr>) (m # F)"
proof -
  have ok: "queues_ok q" using assms(1) by (simp add: wf_sq_def)
  let ?q = "q\<lparr>sq_cursor := i, sq_queues := (sq_queues q)[p := fq]\<rparr>"
  have "queues_ok ?q" by (rule queues_ok_pop [OF ok assms(2,3)]) (use assms(4) in simp_all)
  moreover have w: "sq_weight f q = sq_weight f ?q + f m" for f
    by (rule sq_weight_pop [OF ok assms(2,3)]) simp
  have "charged ?q (m # F)"
    using assms(1) w [of "\<lambda>_. 1"] w [of sm_reserved_bytes] w [of "session_cost s" for s]
    by (simp add: wf_sq_def charged_def session_bytes_of_def)
  moreover have "within_budget ?q"
    using assms(1) by (simp add: wf_sq_def within_budget_def session_bytes_of_def)
  ultimately show ?thesis by (simp add: wf_sq_def)
qed

lemma wf_sq_cursor:
  assumes "wf_sq q F" and "i < length WEIGHTED_ORDER"
  shows "wf_sq (q\<lparr>sq_cursor := i\<rparr>) F"
proof -
  have "queues_ok (q\<lparr>sq_cursor := i\<rparr>)" using assms by (simp add: wf_sq_def queues_ok_def)
  moreover have "charged (q\<lparr>sq_cursor := i\<rparr>) F"
    using assms(1) by (simp add: wf_sq_def charged_def sq_weight_def session_bytes_of_def)
  moreover have "within_budget (q\<lparr>sq_cursor := i\<rparr>)"
    using assms(1) unfolding wf_sq_def within_budget_def session_bytes_of_def by simp
  ultimately show ?thesis by (simp add: wf_sq_def)
qed

lemma select_slots_spec:
  assumes "wf_sq q F"
  shows "\<exists>q' r. select_slots k q = Some (q', r) \<and>
    (case r of None \<Rightarrow> wf_sq q' F \<and> sq_queues q' = sq_queues q
     | Some m \<Rightarrow> wf_sq q' (m # F))"
  using assms
proof (induction k arbitrary: q)
  case (Suc k)
  let ?p = "WEIGHTED_ORDER ! sq_cursor q"
  let ?i = "(sq_cursor q + 1) mod length WEIGHTED_ORDER"
  have p: "?p < 4" and i: "?i < length WEIGHTED_ORDER"
    using Suc.prems weighted_order_less by (auto simp: wf_sq_def queues_ok_def WEIGHTED_ORDER_def)
  have "wf_fq (sq_queues q ! ?p)" using Suc.prems p by (simp add: wf_sq_def queues_ok_def)
  then consider "fq_pop (sq_queues q ! ?p) = Some (sq_queues q ! ?p, None)"
    | fq m where "fq_pop (sq_queues q ! ?p) = Some (fq, Some m)"
    using fq_pop_spec [of "sq_queues q ! ?p" "\<lambda>_. 0"] by blast
  then show ?case
  proof cases
    case 1
    have "wf_sq (q\<lparr>sq_cursor := ?i\<rparr>) F" by (rule wf_sq_cursor [OF Suc.prems i])
    from Suc.IH [OF this] show ?thesis using 1 by (simp add: Let_def cong: option.case_cong)
  next
    case 2
    then show ?thesis using wf_sq_pop [OF Suc.prems p 2 i] by (simp add: Let_def)
  qed
qed simp

lemma select_slots_counters: "select_slots k q = Some (q', r) \<Longrightarrow> sq_counters q' = sq_counters q"
  by (induction k q rule: select_slots.induct) (auto simp: Let_def split: option.splits)

lemma charged_weight:
  "wf_sq q F \<Longrightarrow> sn_queued_messages (sq_counters q) = sq_weight (\<lambda>_. 1) q + length F"
  by (simp add: wf_sq_def charged_def)

lemma pop_loop_spec:
  assumes "wf_sq q F" and "sq_weight (\<lambda>_. 1) q < fuel"
  shows "\<exists>q' r. pop_loop fuel now q = Some (q', r) \<and>
    (case r of None \<Rightarrow> wf_sq q' F | Some m \<Rightarrow> wf_sq q' (m # F) \<and> \<not> is_expired now m)"
  using assms
proof (induction fuel arbitrary: q)
  case (Suc fuel)
  obtain q1 r where s: "select_slots (length WEIGHTED_ORDER) q = Some (q1, r)"
    and r: "case r of None \<Rightarrow> wf_sq q1 F \<and> sq_queues q1 = sq_queues q | Some m \<Rightarrow> wf_sq q1 (m # F)"
    using select_slots_spec [OF Suc.prems(1)] by blast
  show ?case
  proof (cases r)
    case None
    then show ?thesis using s r by simp
  next
    case (Some m)
    let ?c = "sq_counters (sq_release m q1)"
    let ?q = "(sq_release m q1)\<lparr>sq_counters :=
      ?c\<lparr>sn_expired_dropped := sat_add (sn_expired_dropped ?c) 1\<rparr>\<rparr>"
    have w1: "wf_sq q1 (m # F)" using Some r by simp
    have w: "wf_sq ?q F" by (rule wf_sq_cong [OF sq_release_wf [OF w1]]) simp_all
    have n: "sn_queued_messages (sq_counters q1) = sn_queued_messages (sq_counters q)"
      using select_slots_counters [OF s] by simp
    have "sq_weight (\<lambda>_. 1) ?q < fuel"
      using Suc.prems(2) charged_weight [OF Suc.prems(1)] charged_weight [OF w1] n
      by (simp add: sq_weight_def)
    from Suc.IH [OF w this] show ?thesis
      using s Some w1 by (cases "is_expired now m") (simp_all add: Let_def)
  qed
qed simp

lemma sq_pop_next_spec:
  assumes "wf_sq q []"
  shows "\<exists>q' r. sq_pop_next now q = Some (q', r) \<and>
    (case r of None \<Rightarrow> wf_sq q' [] | Some m \<Rightarrow> wf_sq q' [m] \<and> \<not> is_expired now m)"
  unfolding sq_pop_next_def
  by (rule pop_loop_spec [OF assms]) (simp add: charged_weight [OF assms])

lemma sq_requeue_wf:
  assumes "wf_sq q (m # F)"
  shows "wf_sq (sq_requeue m q) F"
proof -
  let ?q = "sq_requeue m q" and ?p = "priority_index (sm_priority m)"
  have ok: "queues_ok q" and c: "charged q (m # F)" and b: "within_budget q"
    using assms by (auto simp: wf_sq_def)
  have p: "?p < length (sq_queues q)" using ok by (simp add: queues_ok_def)
  have qs: "sq_queues ?q = (sq_queues q)[?p := fq_push m (sq_queues q ! ?p)]"
    "sq_cursor ?q = sq_cursor q"
    by (simp_all add: sq_requeue_def Let_def)
  have cn: "sn_queued_messages (sq_counters ?q) = sn_queued_messages (sq_counters q)"
    "sn_queued_bytes (sq_counters ?q) = sn_queued_bytes (sq_counters q)"
    "sq_max_messages ?q = sq_max_messages q" "sq_max_total_bytes ?q = sq_max_total_bytes q"
    "sq_max_session_bytes ?q = sq_max_session_bytes q"
    "session_bytes_of s ?q = session_bytes_of s q" for s
    by (simp_all add: sq_requeue_def Let_def session_bytes_of_def)
  have "queues_ok ?q" by (rule queues_ok_push [OF ok priority_index_less qs])
  moreover have "charged ?q F"
    using c by (simp add: charged_def cn sq_weight_push [OF p qs(1)])
  moreover have "within_budget ?q" using b by (simp add: within_budget_def cn)
  ultimately show ?thesis by (simp add: wf_sq_def)
qed

lemma sq_record_wf:
  assumes "wf_sq q (m # F)"
  shows "wf_sq (sq_record_forwarded now m q) F" "wf_sq (sq_record_send_failed m q) F"
proof -
  have w: "wf_sq (q\<lparr>sq_queue_delay := a, sq_tick_queue_delay := b\<rparr>) (m # F)" for a b
    by (rule wf_sq_cong [OF assms]) simp_all
  show "wf_sq (sq_record_forwarded now m q) F"
    unfolding sq_record_forwarded_def Let_def
    by (rule wf_sq_cong [OF sq_release_wf [OF w]]) simp_all
  show "wf_sq (sq_record_send_failed m q) F"
    unfolding sq_record_send_failed_def Let_def
    by (rule wf_sq_cong [OF sq_release_wf [OF assms]]) simp_all
qed

lemma fq_forget_cost:
  assumes "wf_fq q"
  shows "fq_weight (session_cost s) (fst (fq_remove_session s q)) = 0"
    and "t \<noteq> s \<Longrightarrow> sum_list (map (session_cost t) (fq_session q s)) = 0"
    and "sum_list (map (session_cost s) (fq_session q s)) =
      sum_list (map sm_reserved_bytes (fq_session q s))"
proof -
  have own: "sm_session m = u" if "fmlookup (fq_messages q) u = Some ms" "m \<in> set ms" for u ms m
    using wf_fqD(3) [OF assms that(1)] that(2) by blast
  show "fq_weight (session_cost s) (fst (fq_remove_session s q)) = 0"
    unfolding fq_weight_def fq_remove_session_def
    by (rule table_sum_zero) (auto simp: session_cost_def own split: if_splits)
  have mine: "sm_session m = s" if "m \<in> set (fq_session q s)" for m
    using that own by (cases "fmlookup (fq_messages q) s") (simp_all add: fq_session_def)
  show "t \<noteq> s \<Longrightarrow> sum_list (map (session_cost t) (fq_session q s)) = 0"
    using mine by (auto simp: session_cost_def)
  show "sum_list (map (session_cost s) (fq_session q s)) =
      sum_list (map sm_reserved_bytes (fq_session q s))"
    by (rule arg_cong [of _ _ sum_list], rule map_cong) (simp_all add: session_cost_def mine)
qed

lemma sum_list_add: "sum_list (map (\<lambda>x. f x + g x) xs) = sum_list (map f xs) + (sum_list (map g xs) :: nat)"
  by (induction xs) simp_all

lemma sq_forget_weight:
  "sq_weight f q = sum_list (map (\<lambda>fq. sum_list (map f (fq_session fq s))) (sq_queues q)) +
     sq_weight f (fst (sq_forget_session s q))"
proof -
  have "sq_weight f q = sum_list (map (\<lambda>fq. sum_list (map f (fq_session fq s)) +
      fq_weight f (fst (fq_remove_session s fq))) (sq_queues q))"
    unfolding sq_weight_def by (simp flip: fq_remove_session_weight)
  then show ?thesis
    unfolding sum_list_add by (simp add: sq_weight_def sq_forget_session_def Let_def comp_def)
qed

lemma sq_forget_session_wf:
  assumes "wf_sq q []"
  shows "wf_sq (fst (sq_forget_session s q)) []"
proof -
  let ?q = "fst (sq_forget_session s q)"
  let ?sum = "\<lambda>f. sum_list (map (\<lambda>fq. sum_list (map f (fq_session fq s))) (sq_queues q))"
  have ok: "queues_ok q" and c: "charged q []" and b: "within_budget q"
    using assms by (auto simp: wf_sq_def)
  have w: "\<And>fq. fq \<in> set (sq_queues q) \<Longrightarrow> wf_fq fq" using ok by (simp add: queues_ok_def)
  have own: "sq_weight (session_cost s) ?q = 0"
    using fq_forget_cost(1) [OF w] by (auto simp: sq_weight_def sq_forget_session_def Let_def)
  have others: "?sum (session_cost t) = 0" if "t \<noteq> s" for t
    using fq_forget_cost(2) [OF w that] by auto
  have mine: "?sum (session_cost s) = ?sum sm_reserved_bytes"
    using fq_forget_cost(3) [OF w] by (metis (mono_tags, lifting) map_cong)
  have cn: "sn_queued_messages (sq_counters ?q) = sn_queued_messages (sq_counters q) - ?sum (\<lambda>_. 1)"
    "sn_queued_bytes (sq_counters ?q) = sn_queued_bytes (sq_counters q) - session_bytes_of s q"
    "sq_max_messages ?q = sq_max_messages q" "sq_max_total_bytes ?q = sq_max_total_bytes q"
    "sq_max_session_bytes ?q = sq_max_session_bytes q"
    "session_bytes_of t ?q = (if t = s then 0 else session_bytes_of t q)" for t
    by (simp_all add: sq_forget_session_def Let_def session_bytes_of_def fq_remove_session_count
        comp_def sum_list_triv)
  have "queues_ok ?q"
    using ok fq_remove_session_wf by (auto simp: queues_ok_def sq_forget_session_def Let_def)
  moreover have "charged ?q []"
    using c sq_forget_weight [of "\<lambda>_. 1" q s] sq_forget_weight [of sm_reserved_bytes q s]
      sq_forget_weight [of "session_cost t" q s for t] own others mine
    by (auto simp: charged_def cn)
  moreover have "within_budget ?q" using b by (auto simp: within_budget_def cn intro: le_trans)
  ultimately show ?thesis by (simp add: wf_sq_def)
qed

lemma sq_clear_wf:
  assumes "wf_sq q []"
  shows "wf_sq (sq_clear q) []"
proof -
  have z: "fq_weight f (fq\<lparr>fq_sessions := [], fq_messages := fmempty\<rparr>) = 0" for f fq
    by (simp add: fq_weight_def)
  have "sq_weight f (sq_clear q) = 0" for f
    by (simp add: sq_weight_def sq_clear_def Let_def comp_def z)
  moreover have "queues_ok (sq_clear q)"
    using assms by (auto simp: wf_sq_def queues_ok_def sq_clear_def Let_def intro!: wf_fqI)
  ultimately show ?thesis
    by (simp add: wf_sq_def charged_def within_budget_def sq_clear_def Let_def session_bytes_of_def)
qed

section \<open>Runs\<close>

text \<open>
  The operations as the runtime interleaves them. Flushing, session cleanup and shutdown hold
  the poll lock, so a session is never forgotten and the queue never cleared while a popped
  message is unsettled; senders enqueue at any time. The second component is the popped message.
\<close>

datatype sq_op =
  Enqueue scheduled_message
| PopNext instant
| Forwarded instant
| SendFailed
| Requeue
| ForgetSession handle
| ClearQueue

fun sq_step :: "sq_op \<Rightarrow> scheduled_queue \<times> scheduled_message option \<Rightarrow>
    scheduled_queue \<times> scheduled_message option" where
  "sq_step (Enqueue m) (q, f) = (fst (sq_enqueue m q), f)"
| "sq_step (PopNext now) (q, None) = (case sq_pop_next now q of None \<Rightarrow> (q, None) | Some x \<Rightarrow> x)"
| "sq_step (Forwarded now) (q, Some m) = (sq_record_forwarded now m q, None)"
| "sq_step SendFailed (q, Some m) = (sq_record_send_failed m q, None)"
| "sq_step Requeue (q, Some m) = (sq_requeue m q, None)"
| "sq_step (ForgetSession s) (q, None) = (fst (sq_forget_session s q), None)"
| "sq_step ClearQueue (q, None) = (sq_clear q, None)"
| "sq_step _ qf = qf"

fun in_flight :: "scheduled_message option \<Rightarrow> scheduled_message list" where
  "in_flight None = []"
| "in_flight (Some m) = [m]"

definition wf_sqf :: "scheduled_queue \<times> scheduled_message option \<Rightarrow> bool" where
  "wf_sqf qf \<longleftrightarrow> wf_sq (fst qf) (in_flight (snd qf))"

lemma sq_step_wf: "wf_sqf qf \<Longrightarrow> wf_sqf (sq_step x qf)"
proof (induction x qf rule: sq_step.induct)
  case (2 now q)
  then obtain q' r where "sq_pop_next now q = Some (q', r)"
    "case r of None \<Rightarrow> wf_sq q' [] | Some m \<Rightarrow> wf_sq q' [m] \<and> \<not> is_expired now m"
    using sq_pop_next_spec [of q now] by (auto simp: wf_sqf_def)
  then show ?case by (cases r) (simp_all add: wf_sqf_def)
qed (auto simp: wf_sqf_def sq_enqueue_wf sq_record_wf sq_requeue_wf sq_forget_session_wf
    sq_clear_wf)

definition fresh_sq :: "scheduled_queue \<times> scheduled_message option \<Rightarrow> bool" where
  "fresh_sq qf \<longleftrightarrow> snd qf = None \<and> (\<exists>c. sq_from_config c = Inr (fst qf))"

lemma fresh_sq_wf: "fresh_sq qf \<Longrightarrow> wf_sqf qf"
proof -
  assume "fresh_sq qf"
  then obtain c q where qf: "qf = (q, None)" and c: "sq_from_config c = Inr q"
    by (cases qf) (auto simp: fresh_sq_def)
  have q: "sq_queues q = replicate 4 fq_default" "sq_session_bytes q = fmempty"
    "sq_counters q = counters_default" "sq_cursor q = 0"
    using c by (auto simp: sq_from_config_def split: if_splits)
  have z: "sq_weight f q = 0" for f
    by (simp add: sq_weight_def q fq_weight_def fq_default_def sum_list_replicate)
  have "queues_ok q"
    by (auto simp: queues_ok_def q WEIGHTED_ORDER_def fq_default_def intro!: wf_fqI)
  then show ?thesis
    by (simp add: qf wf_sqf_def wf_sq_def charged_def within_budget_def z session_bytes_of_def q
        counters_default_def)
qed

interpretation sq: invariant_system fresh_sq sq_step wf_sqf
  by unfold_locales (auto intro: fresh_sq_wf sq_step_wf)

section \<open>Waiting times\<close>

text \<open>
  How long the first message of a session in a class still waits, in selections: the slots to the
  next turn of the class, and fifteen for every session ahead of it in the round robin.
\<close>

definition slot_at :: "nat \<Rightarrow> nat \<Rightarrow> nat" where
  "slot_at c i = WEIGHTED_ORDER ! ((c + i) mod length WEIGHTED_ORDER)"

definition slot_distance :: "nat \<Rightarrow> nat \<Rightarrow> nat" where
  "slot_distance c p = length (takeWhile (\<lambda>i. slot_at c i \<noteq> p) [0..<length WEIGHTED_ORDER])"

definition session_rank :: "fair_queue \<Rightarrow> handle \<Rightarrow> nat" where
  "session_rank fq s = length (takeWhile (\<lambda>x. x \<noteq> s) (fq_sessions fq))"

definition waiting :: "scheduled_queue \<Rightarrow> nat \<Rightarrow> handle \<Rightarrow> nat" where
  "waiting q p s =
     length WEIGHTED_ORDER * session_rank (sq_queues q ! p) s + slot_distance (sq_cursor q) p"

lemma length_weighted_order [simp]: "length WEIGHTED_ORDER = 15"
  by (simp add: WEIGHTED_ORDER_def)

lemma class_has_slot:
  assumes "p < 4"
  shows "\<exists>i < 15. slot_at c i = p"
proof -
  have "p \<in> {0, 1, 2, 3}" using assms by auto
  then have "p \<in> set WEIGHTED_ORDER" by (auto simp: WEIGHTED_ORDER_def)
  then obtain j where j: "j < 15" "WEIGHTED_ORDER ! j = p" unfolding in_set_conv_nth by auto
  have "(c + (j + 15 - c mod 15) mod 15) mod 15 = (c + (j + 15 - c mod 15)) mod 15"
    by (rule mod_add_right_eq)
  also have "\<dots> = (c mod 15 + (j + 15 - c mod 15)) mod 15"
    by (rule mod_add_left_eq [symmetric])
  also have "c mod 15 + (j + 15 - c mod 15) = j + 15"
    using mod_less_divisor [of 15 c] by linarith
  finally have "slot_at c ((j + 15 - c mod 15) mod 15) = p" using j by (simp add: slot_at_def)
  moreover have "(j + 15 - c mod 15) mod 15 < 15" by simp
  ultimately show ?thesis by blast
qed

lemma takeWhile_upt_least:
  assumes "i < n" and "P i" and "\<And>j. j < i \<Longrightarrow> \<not> P j"
  shows "length (takeWhile (\<lambda>j. \<not> P j) [0..<n]) = i"
proof -
  have "[0..<n] = [0..<i] @ i # [Suc i..<n]"
    using assms(1) by (metis less_imp_le_nat upt_add_eq_append upt_conv_Cons zero_le le_add_diff_inverse)
  moreover have "takeWhile (\<lambda>j. \<not> P j) ([0..<i] @ i # [Suc i..<n]) = [0..<i]"
    using assms(2,3) by (subst takeWhile_append2) auto
  ultimately show ?thesis by simp
qed

lemma slot_distance_eqI:
  "i < 15 \<Longrightarrow> slot_at c i = p \<Longrightarrow> (\<And>j. j < i \<Longrightarrow> slot_at c j \<noteq> p) \<Longrightarrow> slot_distance c p = i"
  unfolding slot_distance_def length_weighted_order by (rule takeWhile_upt_least)

lemma slot_distance_spec:
  assumes "p < 4"
  shows "slot_distance c p < 15 \<and> slot_at c (slot_distance c p) = p \<and>
    (\<forall>j < slot_distance c p. slot_at c j \<noteq> p)"
proof -
  obtain i where "i < 15" "slot_at c i = p" using class_has_slot [OF assms] by blast
  define k where "k = (LEAST i. slot_at c i = p)"
  have k: "slot_at c k = p" "\<And>j. j < k \<Longrightarrow> slot_at c j \<noteq> p" "k \<le> i"
    unfolding k_def using \<open>slot_at c i = p\<close> by (auto intro: LeastI Least_le dest: not_less_Least)
  then have "slot_distance c p = k" using \<open>i < 15\<close> by (intro slot_distance_eqI) auto
  then show ?thesis using k \<open>i < 15\<close> by auto
qed

lemma slot_at_shift: "slot_at ((c + i) mod 15) j = slot_at c (i + j)"
  by (simp add: slot_at_def mod_add_left_eq add.assoc)

lemma slot_at_Suc [simp]: "slot_at (Suc c mod 15) j = slot_at c (Suc j)"
  using slot_at_shift [of c 1 j] by simp

lemma slot_at_Suc_plus: "slot_at (Suc (c + i) mod 15) j = slot_at c (Suc (i + j))"
  using slot_at_shift [of c "Suc i" j] by simp

lemma Suc_mod_15 [simp]: "Suc (Suc c mod 15 + i) mod 15 = Suc (Suc (c + i)) mod 15"
  using mod_add_left_eq [of "Suc c" 15 "Suc i"] by simp

lemma slot_distance_advance:
  assumes "p < 4" and "i < slot_distance c p"
  shows "slot_distance ((c + Suc i) mod 15) p = slot_distance c p - Suc i"
proof (rule slot_distance_eqI)
  note d = slot_distance_spec [OF assms(1), of c]
  show "slot_distance c p - Suc i < 15" using d by linarith
  show "slot_at ((c + Suc i) mod 15) (slot_distance c p - Suc i) = p"
    using d assms(2) by (simp only: slot_at_shift) simp
  show "slot_at ((c + Suc i) mod 15) j \<noteq> p" if "j < slot_distance c p - Suc i" for j
    using d that unfolding slot_at_shift by (metis add.commute less_diff_conv)
qed

lemma select_slots_total: "queues_ok q \<Longrightarrow> \<exists>q' r. select_slots k q = Some (q', r)"
proof (induction k arbitrary: q)
  case (Suc k)
  let ?p = "WEIGHTED_ORDER ! sq_cursor q"
  have "wf_fq (sq_queues q ! ?p)"
    using Suc.prems weighted_order_less [of "sq_cursor q"] by (simp add: queues_ok_def)
  moreover have "queues_ok (q\<lparr>sq_cursor := Suc (sq_cursor q) mod 15\<rparr>)"
    using Suc.prems by (simp add: queues_ok_def)
  ultimately show ?case
    using fq_pop_spec [of "sq_queues q ! ?p" "\<lambda>_. 0"] Suc.IH by (auto simp: Let_def)
qed simp

lemma select_slots_first:
  assumes "queues_ok q" and "select_slots k q = Some (q', r)"
  shows "case r of
      None \<Rightarrow> \<forall>j < k. fq_sessions (sq_queues q ! slot_at (sq_cursor q) j) = []
    | Some m \<Rightarrow> \<exists>i < k. \<exists>fq. (\<forall>j < i. fq_sessions (sq_queues q ! slot_at (sq_cursor q) j) = []) \<and>
        fq_pop (sq_queues q ! slot_at (sq_cursor q) i) = Some (fq, Some m) \<and>
        sq_queues q' = (sq_queues q)[slot_at (sq_cursor q) i := fq] \<and>
        sq_cursor q' = (sq_cursor q + Suc i) mod 15"
  using assms
proof (induction k arbitrary: q)
  case (Suc k)
  let ?c = "sq_cursor q"
  let ?p = "WEIGHTED_ORDER ! ?c" and ?q = "q\<lparr>sq_cursor := (?c + 1) mod 15\<rparr>"
  have c: "?c < 15" using Suc.prems(1) by (simp add: queues_ok_def)
  then have s0: "slot_at ?c 0 = ?p" by (simp add: slot_at_def)
  have w: "wf_fq (sq_queues q ! ?p)"
    using Suc.prems(1) weighted_order_less [of ?c] by (simp add: queues_ok_def)
  show ?case
  proof (cases "fq_sessions (sq_queues q ! ?p)")
    case Nil
    then have "fq_pop (sq_queues q ! ?p) = Some (sq_queues q ! ?p, None)" by (simp add: fq_pop_def)
    then have rec: "select_slots k ?q = Some (q', r)" using Suc.prems(2) by (simp add: Let_def)
    have "queues_ok ?q" using Suc.prems(1) by (simp add: queues_ok_def)
    note ih = Suc.IH [OF this rec]
    show ?thesis
    proof (cases r)
      case None
      then show ?thesis using ih Nil s0 by (auto simp: less_Suc_eq_0_disj)
    next
      case (Some m)
      then obtain i fq where i: "i < k" "\<forall>j < i. fq_sessions (sq_queues q ! slot_at ?c (Suc j)) = []"
        "fq_pop (sq_queues q ! slot_at ?c (Suc i)) = Some (fq, Some m)"
        "sq_queues q' = (sq_queues q)[slot_at ?c (Suc i) := fq]"
        "sq_cursor q' = (?c + Suc (Suc i)) mod 15"
        using ih by auto
      then have "\<forall>j < Suc i. fq_sessions (sq_queues q ! slot_at ?c j) = []" "Suc i < Suc k"
        using Nil s0 by (auto simp: less_Suc_eq_0_disj)
      then show ?thesis using i(3,4,5) Some by (simp only: option.case) blast
    qed
  next
    case (Cons x xs)
    then obtain fq m where pop: "fq_pop (sq_queues q ! ?p) = Some (fq, Some m)"
      using fq_pop_spec [OF w, of "\<lambda>_. 0"] by auto
    then have "r = Some m" "sq_queues q' = (sq_queues q)[?p := fq]" "sq_cursor q' = (?c + 1) mod 15"
      using Suc.prems(2) by (auto simp: Let_def)
    then show ?thesis using pop s0 by (auto intro!: exI [of _ 0])
  qed
qed simp

lemma takeWhile_neq_shorter: "x \<in> set xs \<Longrightarrow> length (takeWhile (\<lambda>y. y \<noteq> x) xs) < length xs"
  by (induction xs) auto

lemma waiting_bound:
  assumes "queues_ok q" and "p < 4" and "s \<in> set (fq_sessions (sq_queues q ! p))"
  shows "waiting q p s < 15 * length (fq_sessions (sq_queues q ! p))"
proof -
  have "session_rank (sq_queues q ! p) s < length (fq_sessions (sq_queues q ! p))"
    unfolding session_rank_def using assms(3) by (rule takeWhile_neq_shorter)
  then show ?thesis using slot_distance_spec [OF assms(2), of "sq_cursor q"]
    unfolding waiting_def length_weighted_order by linarith
qed

lemma fq_pop_rank:
  assumes "wf_fq fq" and "fq_pop fq = Some (fq', Some m)" and "s \<in> set (fq_sessions fq)"
  shows "(sm_session m = s \<and> fq_session fq s = m # fq_session fq' s) \<or>
    (s \<in> set (fq_sessions fq') \<and> fq_session fq' s = fq_session fq s \<and>
     Suc (session_rank fq' s) = session_rank fq s)"
proof -
  obtain x rest where x: "fq_sessions fq = x # rest"
    using assms(2) by (cases "fq_sessions fq") (auto simp: fq_pop_def)
  obtain ms where ms: "fmlookup (fq_messages fq) x = Some (m # ms)"
    and fq': "fq' = (if ms = [] then fq\<lparr>fq_sessions := rest, fq_messages := fmdrop x (fq_messages fq)\<rparr>
      else fq\<lparr>fq_sessions := rest @ [x], fq_messages := fmupd x ms (fq_messages fq)\<rparr>)"
    using assms(2) x by (auto simp: fq_pop_def split: option.splits list.splits)
  show ?thesis
  proof (cases "s = x")
    case True
    then show ?thesis using ms fq' wf_fqD(3) [OF assms(1) ms] by (auto simp: fq_session_def)
  next
    case False
    then show ?thesis using assms(3) x fq'
      by (auto simp: fq_session_def session_rank_def takeWhile_append1)
  qed
qed

lemma select_progress:
  assumes ok: "queues_ok q" and p: "p < 4" and s: "s \<in> set (fq_sessions (sq_queues q ! p))"
  shows "\<exists>q' m. select_slots 15 q = Some (q', Some m) \<and>
    ((sm_session m = s \<and> fq_session (sq_queues q ! p) s = m # fq_session (sq_queues q' ! p) s) \<or>
     (s \<in> set (fq_sessions (sq_queues q' ! p)) \<and>
      fq_session (sq_queues q' ! p) s = fq_session (sq_queues q ! p) s \<and>
      waiting q' p s < waiting q p s))"
proof -
  let ?c = "sq_cursor q" and ?d = "slot_distance (sq_cursor q) p"
  note d = slot_distance_spec [OF p, of ?c]
  obtain q' r where sel: "select_slots 15 q = Some (q', r)"
    using select_slots_total [OF ok] by blast
  have "r \<noteq> None" using select_slots_first [OF ok sel] d s by (cases r) auto
  then obtain m where r: "r = Some m" by blast
  then obtain i fq where i: "\<forall>j < i. fq_sessions (sq_queues q ! slot_at ?c j) = []"
    "fq_pop (sq_queues q ! slot_at ?c i) = Some (fq, Some m)"
    "sq_queues q' = (sq_queues q)[slot_at ?c i := fq]" "sq_cursor q' = (?c + Suc i) mod 15"
    using select_slots_first [OF ok sel] by auto
  have "i \<le> ?d" using i(1) d s by (metis empty_iff empty_set not_le_imp_less)
  have pl: "p < length (sq_queues q)" using ok p by (simp add: queues_ok_def)
  show ?thesis
  proof (cases "i = ?d")
    case True
    have w: "wf_fq (sq_queues q ! p)" using ok p by (simp add: queues_ok_def)
    have q'p: "sq_queues q' ! p = fq" and pop: "fq_pop (sq_queues q ! p) = Some (fq, Some m)"
      using i True d pl by simp_all
    have "waiting q' p s < waiting q p s" if "Suc (session_rank fq s) = session_rank (sq_queues q ! p) s"
      using that slot_distance_spec [OF p, of "sq_cursor q'"] unfolding waiting_def q'p by auto
    then show ?thesis using fq_pop_rank [OF w pop s] sel r q'p by auto
  next
    case False
    then have lt: "i < ?d" using \<open>i \<le> ?d\<close> by simp
    then have "slot_at ?c i \<noteq> p" using d by blast
    then have q'p: "sq_queues q' ! p = sq_queues q ! p" using i(3) by simp
    have "slot_distance (sq_cursor q') p = ?d - Suc i"
      unfolding i(4) by (rule slot_distance_advance [OF p lt])
    then have "waiting q' p s < waiting q p s" using lt unfolding waiting_def q'p by simp
    then show ?thesis using sel r s q'p by simp
  qed
qed

lemma push_rank:
  assumes "wf_fq fq" and "s \<in> set (fq_sessions fq)"
  shows "session_rank (fq_push m fq) s = session_rank fq s"
  using assms(2) by (auto simp: session_rank_def fq_push_def Let_def takeWhile_append1)

lemma waiting_enqueue:
  assumes "queues_ok q" and "p < 4" and "s \<in> set (fq_sessions (sq_queues q ! p))"
  shows "waiting (fst (sq_enqueue m q)) p s = waiting q p s"
proof -
  have "wf_fq (sq_queues q ! p)" "priority_index (sm_priority m) < length (sq_queues q)"
    using assms(1,2) by (simp_all add: queues_ok_def)
  then show ?thesis
    using push_rank [OF _ assms(3), of m] assms(2)
    by (cases "priority_index (sm_priority m) = p")
      (simp_all add: waiting_def sq_enqueue_def Let_def)
qed

section \<open>Properties\<close>

definition demo_message :: "handle \<Rightarrow> game_priority \<Rightarrow> bytes \<Rightarrow> scheduled_message" where
  "demo_message s p payload = \<lparr>sm_session = s, sm_payload = payload, sm_sequence = None,
     sm_tick = None, sm_correlation_id = 0, sm_priority = p, sm_enqueued_at = 0,
     sm_expires_at = None\<rparr>"

definition demo_queue :: scheduled_queue where
  "demo_queue = \<lparr>sq_queues = replicate 4 fq_default, sq_session_bytes = fmempty,
     sq_max_total_bytes = 16 * 1024 * 1024, sq_max_session_bytes = 256 * 1024,
     sq_max_messages = 65536, sq_cursor = 0, sq_counters = counters_default,
     sq_queue_delay = lh_default, sq_tick_queue_delay = lh_default\<rparr>"

lemma demo_queue_fresh: "fresh_sq (demo_queue, None)"
  by (auto simp: fresh_sq_def sq_from_config_def demo_queue_def scheduled_config_default_def
      intro!: exI [of _ scheduled_config_default])

text \<open>
  C20. The send scheduler's budgets are exact: through every interleaving of sends, pops, forwards,
  failures, requeues, session closes and clears, the message count, the byte count and every
  session's byte count charge precisely the messages queued plus the one being forwarded, and
  none exceeds its limit; and popping always returns, never finding its tables inconsistent.
\<close>

theorem scheduler_budgets_exact:
  assumes "fresh_sq qf0" and "(q, f) = run_ops sq_step ops qf0"
  shows "charged q (in_flight f) \<and> within_budget q \<and>
    (f = None \<longrightarrow> (\<exists>q' r. sq_pop_next now q = Some (q', r)))"
proof -
  have w: "wf_sqf (q, f)" using sq.reachable_inv [OF assms(1), of ops] assms(2) by simp
  then show ?thesis
    using sq_pop_next_spec [of q now] by (cases f) (auto simp: wf_sqf_def wf_sq_def)
qed

theorem scheduler_budgets_exact_witness:
  "\<exists>q f. (q, f) = run_ops sq_step [Enqueue (demo_message 5 High [1, 2]), PopNext 0, Requeue]
     (demo_queue, None) \<and> charged q (in_flight f) \<and> within_budget q"
  using scheduler_budgets_exact [OF demo_queue_fresh] by (metis surj_pair)

text \<open>
  C21. No session starves: while a session has a message queued in a class, every selection
  either serves the first of its messages or strictly shortens its wait, which starts below
  fifteen selections per session queued in that class and is not lengthened by any new send.
\<close>

theorem scheduler_bounded_wait:
  assumes "fresh_sq qf0" and "(q, f) = run_ops sq_step ops qf0" and "p < 4"
    and "s \<in> set (fq_sessions (sq_queues q ! p))"
  shows "waiting q p s < 15 * length (fq_sessions (sq_queues q ! p)) \<and>
    waiting (fst (sq_enqueue new q)) p s = waiting q p s \<and>
    (\<exists>q' m. select_slots (length WEIGHTED_ORDER) q = Some (q', Some m) \<and>
      ((sm_session m = s \<and> fq_session (sq_queues q ! p) s = m # fq_session (sq_queues q' ! p) s) \<or>
       (s \<in> set (fq_sessions (sq_queues q' ! p)) \<and>
        fq_session (sq_queues q' ! p) s = fq_session (sq_queues q ! p) s \<and>
        waiting q' p s < waiting q p s)))"
proof -
  have "wf_sqf (q, f)" using sq.reachable_inv [OF assms(1), of ops] assms(2) by simp
  then have ok: "queues_ok q" by (simp add: wf_sqf_def wf_sq_def)
  show ?thesis
    using waiting_bound [OF ok assms(3,4)] waiting_enqueue [OF ok assms(3,4), of new]
      select_progress [OF ok assms(3,4)] by simp
qed

lemma demo_enqueued:
  "run_ops sq_step [Enqueue (demo_message 5 Low [1])] (demo_queue, None) =
     (fst (sq_enqueue (demo_message 5 Low [1]) demo_queue), None)"
  "fq_sessions (sq_queues (fst (sq_enqueue (demo_message 5 Low [1]) demo_queue)) ! 0) = [5]"
  by (simp_all add: sq_enqueue_def sq_fits_def demo_queue_def demo_message_def counters_default_def
      sm_reserved_bytes_def ENVELOPE_RESERVATION_def usize_max_def session_bytes_of_def Let_def
      fq_push_def fq_default_def checked_add_def)

theorem scheduler_bounded_wait_witness:
  "\<exists>q. run_ops sq_step [Enqueue (demo_message 5 Low [1])] (demo_queue, None) = (q, None) \<and>
     fq_sessions (sq_queues q ! 0) = [5] \<and> waiting q 0 5 < 15"
proof -
  let ?q = "fst (sq_enqueue (demo_message 5 Low [1]) demo_queue)"
  have "waiting ?q 0 5 < 15 * length (fq_sessions (sq_queues ?q ! 0))"
    using scheduler_bounded_wait [OF demo_queue_fresh demo_enqueued(1) [symmetric], of 0 5]
      demo_enqueued(2) by simp
  then show ?thesis using demo_enqueued by auto
qed



end
