(* ===== verification/Latest_Queue.thy ===== *)
theory Latest_Queue
  imports Tables Step_System "HOL-Library.Product_Lexorder" "HOL-Library.AList"
begin

text \<open>
  The key-coalescing queue of game snapshots, \<^verbatim>\<open>rnet-game/src/realtime.rs\<close>. It is shown to
  implement an ordered association list in which sending a key again replaces its value in
  place, and to account its three budgets exactly.
\<close>

section \<open>Model\<close>

definition WORST_ENVELOPE_OVERHEAD :: nat where "WORST_ENVELOPE_OVERHEAD = 16"

record realtime_queue_config =
  rc_max_queued_bytes :: nat
  rc_max_session_queued_bytes :: nat
  rc_max_keys_per_session :: nat
  rc_flush_batch :: nat

definition realtime_config_default :: realtime_queue_config where
  "realtime_config_default = \<lparr>rc_max_queued_bytes = 16 * 1024 * 1024,
     rc_max_session_queued_bytes = 256 * 1024, rc_max_keys_per_session = 64,
     rc_flush_batch = 256\<rparr>"

datatype queue_effect = Queued | Replaced

record realtime_counters =
  rn_queued_messages :: nat
  rn_queued_bytes :: nat
  rn_admission_rejected :: nat
  rn_replaced :: nat
  rn_closed_dropped :: nat
  rn_backpressure_dropped :: nat
  rn_send_failed :: nat
  rn_forwarded :: nat

definition realtime_counters_default :: realtime_counters where
  "realtime_counters_default = \<lparr>rn_queued_messages = 0, rn_queued_bytes = 0,
     rn_admission_rejected = 0, rn_replaced = 0, rn_closed_dropped = 0,
     rn_backpressure_dropped = 0, rn_send_failed = 0, rn_forwarded = 0\<rparr>"

record pending_realtime =
  pr_session :: handle
  pr_key :: u64
  pr_payload :: bytes
  pr_tick :: "u32 option"

definition pr_reserved_bytes :: "pending_realtime \<Rightarrow> nat" where
  "pr_reserved_bytes m = length (pr_payload m) + WORST_ENVELOPE_OVERHEAD"

type_synonym slot_key = "handle \<times> u64"

record latest_queue =
  lq_max_total_bytes :: nat
  lq_max_session_bytes :: nat
  lq_max_keys_per_session :: nat
  lq_max_pending_keys :: nat
  lq_order :: "slot_key list"
  lq_pending :: "(slot_key, pending_realtime) table"
  lq_session_usage :: "(handle, nat \<times> nat) table"
  lq_counters :: realtime_counters

definition lq_new :: "nat \<Rightarrow> nat \<Rightarrow> nat \<Rightarrow> latest_queue result" where
  "lq_new max_total_bytes max_session_bytes max_keys_per_session =
     (if max_total_bytes = 0 \<or> max_session_bytes = 0 \<or> max_total_bytes < max_session_bytes \<or>
         max_keys_per_session = 0
      then Inl InvalidArgument
      else Inr \<lparr>lq_max_total_bytes = max_total_bytes, lq_max_session_bytes = max_session_bytes,
        lq_max_keys_per_session = max_keys_per_session,
        lq_max_pending_keys = min (max (max_total_bytes div WORST_ENVELOPE_OVERHEAD) 1) 65536,
        lq_order = [], lq_pending = fmempty, lq_session_usage = fmempty,
        lq_counters = realtime_counters_default\<rparr>)"

definition lq_from_config :: "realtime_queue_config \<Rightarrow> latest_queue result" where
  "lq_from_config c =
     (if rc_flush_batch c = 0 then Inl InvalidArgument
      else lq_new (rc_max_queued_bytes c) (rc_max_session_queued_bytes c)
             (rc_max_keys_per_session c))"

definition usage_of :: "handle \<Rightarrow> latest_queue \<Rightarrow> nat \<times> nat" where
  "usage_of s q = (case fmlookup (lq_session_usage q) s of None \<Rightarrow> (0, 0) | Some u \<Rightarrow> u)"

definition lq_enqueue ::
    "handle \<Rightarrow> u64 \<Rightarrow> bytes \<Rightarrow> u32 option \<Rightarrow> latest_queue \<Rightarrow> latest_queue \<times> queue_effect result" where
  "lq_enqueue session key payload tick q =
     (let candidate = \<lparr>pr_session = session, pr_key = key, pr_payload = payload, pr_tick = tick\<rparr>;
          new_bytes = pr_reserved_bytes candidate;
          old_bytes = (case fmlookup (lq_pending q) (session, key) of
                         None \<Rightarrow> 0 | Some m \<Rightarrow> pr_reserved_bytes m);
          (session_keys, session_bytes) = usage_of session q;
          c = lq_counters q;
          new_total = checked_add (rn_queued_bytes c - old_bytes) new_bytes;
          new_session = checked_add (session_bytes - old_bytes) new_bytes
      in if (case new_total of None \<Rightarrow> True | Some b \<Rightarrow> lq_max_total_bytes q < b) \<or>
            (case new_session of None \<Rightarrow> True | Some b \<Rightarrow> lq_max_session_bytes q < b) \<or>
            (old_bytes = 0 \<and> lq_max_keys_per_session q \<le> session_keys) \<or>
            (old_bytes = 0 \<and> lq_max_pending_keys q \<le> table_len (lq_pending q))
         then (q\<lparr>lq_counters := c\<lparr>rn_admission_rejected := sat_add (rn_admission_rejected c) 1\<rparr>\<rparr>,
               Inl WouldBlock)
         else
           let replaced = (fmlookup (lq_pending q) (session, key) \<noteq> None);
               effect = (if replaced then Replaced else Queued);
               c1 = (if replaced then c\<lparr>rn_replaced := sat_add (rn_replaced c) 1\<rparr>
                     else c\<lparr>rn_queued_messages := rn_queued_messages c + 1\<rparr>)
           in (q\<lparr>lq_pending := fmupd (session, key) candidate (lq_pending q),
                 lq_order := (if replaced then lq_order q else lq_order q @ [(session, key)]),
                 lq_counters := c1\<lparr>rn_queued_bytes := the new_total\<rparr>,
                 lq_session_usage := fmupd session
                   (session_keys + (if effect = Queued then 1 else 0), the new_session)
                   (lq_session_usage q)\<rparr>, Inr effect))"

definition lq_release :: "pending_realtime \<Rightarrow> latest_queue \<Rightarrow> latest_queue" where
  "lq_release m q =
     (let b = pr_reserved_bytes m;
          c = lq_counters q
      in q\<lparr>lq_counters := c\<lparr>rn_queued_messages := rn_queued_messages c - 1,
             rn_queued_bytes := rn_queued_bytes c - b\<rparr>,
           lq_session_usage :=
             (case fmlookup (lq_session_usage q) (pr_session m) of
                None \<Rightarrow> lq_session_usage q
              | Some (keys, used) \<Rightarrow>
                  if keys - 1 = 0 then fmdrop (pr_session m) (lq_session_usage q)
                  else fmupd (pr_session m) (keys - 1, used - b) (lq_session_usage q))\<rparr>)"

fun pop_order :: "slot_key list \<Rightarrow> latest_queue \<Rightarrow> latest_queue \<times> pending_realtime option" where
  "pop_order [] q = (q\<lparr>lq_order := []\<rparr>, None)"
| "pop_order (k # ks) q =
     (case fmlookup (lq_pending q) k of
        None \<Rightarrow> pop_order ks q
      | Some m \<Rightarrow>
          (lq_release m (q\<lparr>lq_order := ks, lq_pending := fmdrop k (lq_pending q)\<rparr>), Some m))"

definition lq_pop_next :: "latest_queue \<Rightarrow> latest_queue \<times> pending_realtime option" where
  "lq_pop_next q = pop_order (lq_order q) q"

definition lq_requeue :: "pending_realtime \<Rightarrow> latest_queue \<Rightarrow> latest_queue" where
  "lq_requeue m q =
     (let c = lq_counters q
      in if fmlookup (lq_pending q) (pr_session m, pr_key m) \<noteq> None
         then q\<lparr>lq_counters := c\<lparr>rn_replaced := sat_add (rn_replaced c) 1\<rparr>\<rparr>
         else case lq_enqueue (pr_session m) (pr_key m) (pr_payload m) (pr_tick m) q of
           (q1, Inr _) \<Rightarrow> q1
         | (q1, Inl _) \<Rightarrow>
             (let c1 = lq_counters q1
              in q1\<lparr>lq_counters :=
                   c1\<lparr>rn_backpressure_dropped := sat_add (rn_backpressure_dropped c1) 1\<rparr>\<rparr>))"

definition lq_drop_key :: "slot_key \<Rightarrow> latest_queue \<Rightarrow> latest_queue" where
  "lq_drop_key k q =
     (case fmlookup (lq_pending q) k of
        None \<Rightarrow> q
      | Some m \<Rightarrow> lq_release m (q\<lparr>lq_pending := fmdrop k (lq_pending q)\<rparr>))"

definition lq_forget_session :: "handle \<Rightarrow> latest_queue \<Rightarrow> latest_queue \<times> nat" where
  "lq_forget_session session q =
     (let keys = filter (\<lambda>k. fst k = session) (table_keys (lq_pending q));
          q1 = fold lq_drop_key keys q;
          c = lq_counters q1
      in (q1\<lparr>lq_order := filter (\<lambda>k. fst k \<noteq> session) (lq_order q1),
             lq_counters := c\<lparr>rn_closed_dropped := sat_add (rn_closed_dropped c) (length keys)\<rparr>\<rparr>,
          length keys))"

definition lq_clear :: "latest_queue \<Rightarrow> latest_queue" where
  "lq_clear q =
     (let c = lq_counters q
      in q\<lparr>lq_counters := c\<lparr>rn_closed_dropped :=
               sat_add (rn_closed_dropped c) (table_len (lq_pending q)),
             rn_queued_messages := 0, rn_queued_bytes := 0\<rparr>,
           lq_pending := fmempty, lq_order := [], lq_session_usage := fmempty\<rparr>)"

definition lq_record_forwarded :: "latest_queue \<Rightarrow> latest_queue" where
  "lq_record_forwarded q =
     (let c = lq_counters q in q\<lparr>lq_counters := c\<lparr>rn_forwarded := sat_add (rn_forwarded c) 1\<rparr>\<rparr>)"

definition lq_record_send_failed :: "latest_queue \<Rightarrow> latest_queue" where
  "lq_record_send_failed q =
     (let c = lq_counters q in q\<lparr>lq_counters := c\<lparr>rn_send_failed := sat_add (rn_send_failed c) 1\<rparr>\<rparr>)"

section \<open>Exact accounting\<close>

definition owned_count :: "handle \<Rightarrow> latest_queue \<Rightarrow> nat" where
  "owned_count s q = table_sum (\<lambda>m. if pr_session m = s then 1 else 0) (lq_pending q)"

definition owned_bytes :: "handle \<Rightarrow> latest_queue \<Rightarrow> nat" where
  "owned_bytes s q = table_sum (\<lambda>m. if pr_session m = s then pr_reserved_bytes m else 0) (lq_pending q)"

definition lq_keyed :: "latest_queue \<Rightarrow> bool" where
  "lq_keyed q \<longleftrightarrow> (\<forall>k m. fmlookup (lq_pending q) k = Some m \<longrightarrow> k = (pr_session m, pr_key m))"

definition lq_charged :: "latest_queue \<Rightarrow> bool" where
  "lq_charged q \<longleftrightarrow>
     rn_queued_messages (lq_counters q) = table_len (lq_pending q) \<and>
     rn_queued_bytes (lq_counters q) = table_sum pr_reserved_bytes (lq_pending q) \<and>
     (\<forall>s. usage_of s q = (owned_count s q, owned_bytes s q))"

definition lq_within :: "latest_queue \<Rightarrow> bool" where
  "lq_within q \<longleftrightarrow>
     table_sum pr_reserved_bytes (lq_pending q) \<le> lq_max_total_bytes q \<and>
     table_len (lq_pending q) \<le> lq_max_pending_keys q \<and>
     (\<forall>s. owned_bytes s q \<le> lq_max_session_bytes q \<and> owned_count s q \<le> lq_max_keys_per_session q)"

definition lq_core :: "latest_queue \<Rightarrow> bool" where
  "lq_core q \<longleftrightarrow> lq_keyed q \<and> lq_charged q \<and> lq_within q"

definition lq_ordered :: "latest_queue \<Rightarrow> bool" where
  "lq_ordered q \<longleftrightarrow> distinct (lq_order q) \<and> set (lq_order q) = fset (fmdom (lq_pending q))"

definition wf_lq :: "latest_queue \<Rightarrow> bool" where
  "wf_lq q \<longleftrightarrow> lq_core q \<and> lq_ordered q"

definition key_cost :: "(pending_realtime \<Rightarrow> nat) \<Rightarrow> slot_key \<Rightarrow> latest_queue \<Rightarrow> nat" where
  "key_cost f k q = (case fmlookup (lq_pending q) k of None \<Rightarrow> 0 | Some m \<Rightarrow> f m)"

lemma table_sum_split: "table_sum f (lq_pending q) = key_cost f k q + table_sum f (fmdrop k (lq_pending q))"
  by (simp add: key_cost_def fmdrop_absent table_sum_remove split: option.split)

lemma reserved_pos: "0 < pr_reserved_bytes m"
  by (simp add: pr_reserved_bytes_def WORST_ENVELOPE_OVERHEAD_def)

lemma table_sum_eq_0: "table_sum f m = 0 \<Longrightarrow> fmlookup m k = Some v \<Longrightarrow> f v = (0 :: nat)"
  using table_sum_ge [of m k v f] by simp

lemma owned_none: "owned_count s q = 0 \<Longrightarrow> owned_bytes s q = 0"
  unfolding owned_count_def owned_bytes_def
  by (rule table_sum_zero) (metis (mono_tags, lifting) table_sum_eq_0 zero_neq_one)

lemma keyedD: "lq_keyed q \<Longrightarrow> fmlookup (lq_pending q) k = Some m \<Longrightarrow> pr_session m = fst k \<and> pr_key m = snd k"
  unfolding lq_keyed_def by (metis fst_conv snd_conv)

lemma key_cost_other:
  "lq_keyed q \<Longrightarrow> fst k \<noteq> s \<Longrightarrow> key_cost (\<lambda>m. if pr_session m = s then f m else 0) k q = 0"
  by (auto simp: key_cost_def dest: keyedD split: option.split)

lemma key_cost_own:
  "lq_keyed q \<Longrightarrow> key_cost (\<lambda>m. if pr_session m = fst k then f m else 0) k q = key_cost f k q"
  by (auto simp: key_cost_def dest: keyedD split: option.split)

text \<open>What remains of the sums without the key being sent, popped or dropped.\<close>

definition rest_count :: "handle \<Rightarrow> slot_key \<Rightarrow> latest_queue \<Rightarrow> nat" where
  "rest_count s k q = table_sum (\<lambda>m. if pr_session m = s then 1 else 0) (fmdrop k (lq_pending q))"

definition rest_bytes :: "handle \<Rightarrow> slot_key \<Rightarrow> latest_queue \<Rightarrow> nat" where
  "rest_bytes s k q =
     table_sum (\<lambda>m. if pr_session m = s then pr_reserved_bytes m else 0) (fmdrop k (lq_pending q))"

lemma owned_count_split:
  "lq_keyed q \<Longrightarrow> owned_count s q =
     (if fst k = s then key_cost (\<lambda>_. 1) k q else 0) + rest_count s k q"
  using key_cost_own [of q k "\<lambda>_. 1"] key_cost_other [of q k s "\<lambda>_. 1"]
  unfolding owned_count_def rest_count_def table_sum_split [of _ q k] by auto

lemma owned_bytes_split:
  "lq_keyed q \<Longrightarrow> owned_bytes s q =
     (if fst k = s then key_cost pr_reserved_bytes k q else 0) + rest_bytes s k q"
  using key_cost_own [of q k pr_reserved_bytes] key_cost_other [of q k s pr_reserved_bytes]
  unfolding owned_bytes_def rest_bytes_def table_sum_split [of _ q k] by auto

lemma key_cost_pos: "key_cost pr_reserved_bytes k q = 0 \<longleftrightarrow> fmlookup (lq_pending q) k = None"
  using reserved_pos by (auto simp: key_cost_def split: option.split)

section \<open>Each operation keeps the accounts\<close>

lemma core_drop:
  assumes "lq_core q" and "fmlookup (lq_pending q) k = Some m"
  shows "lq_core (lq_release m (q\<lparr>lq_pending := fmdrop k (lq_pending q)\<rparr>))"
proof -
  let ?q = "lq_release m (q\<lparr>lq_pending := fmdrop k (lq_pending q)\<rparr>)"
  have kd: "lq_keyed q" and c: "lq_charged q" and w: "lq_within q"
    using assms(1) by (simp_all add: lq_core_def)
  have p: "lq_pending ?q = fmdrop k (lq_pending q)" by (simp add: lq_release_def Let_def)
  have s: "pr_session m = fst k" using keyedD [OF kd assms(2)] by simp
  have cost: "key_cost f k q = f m" for f using assms(2) by (simp add: key_cost_def)
  have oc: "owned_count t ?q = rest_count t k q" and ob: "owned_bytes t ?q = rest_bytes t k q" for t
    by (simp_all add: owned_count_def owned_bytes_def rest_count_def rest_bytes_def p)
  note split = owned_count_split [OF kd, of _ k] owned_bytes_split [OF kd, of _ k]
  have u: "usage_of t q = (owned_count t q, owned_bytes t q)" for t
    using c by (simp add: lq_charged_def)
  have own: "fmlookup (lq_session_usage q) (fst k) =
      Some (Suc (rest_count (fst k) k q), pr_reserved_bytes m + rest_bytes (fst k) k q)"
    using u [of "fst k"] by (simp add: split cost usage_of_def split: option.splits)
  have "usage_of t ?q = (rest_count t k q, rest_bytes t k q)" for t
  proof (cases "t = fst k")
    case True
    then show ?thesis
      using own owned_none [of t ?q] oc ob s
      by (auto simp: usage_of_def lq_release_def Let_def)
  next
    case False
    then have "usage_of t ?q = usage_of t q"
      using own s by (auto simp: usage_of_def lq_release_def Let_def)
    then show ?thesis using u [of t] False by (simp add: split)
  qed
  then have "lq_charged ?q"
    using c table_len_remove [OF assms(2)] table_sum_remove [OF assms(2), of pr_reserved_bytes]
    unfolding lq_charged_def oc ob p by (simp add: lq_release_def Let_def)
  moreover have "lq_within ?q"
    using w table_sum_drop_le [of pr_reserved_bytes k "lq_pending q"]
      table_len_drop_le [of k "lq_pending q"] split
    unfolding lq_within_def oc ob p
    by (auto simp: lq_release_def Let_def intro: order_trans le_trans) (meson le_add2 le_trans)+
  moreover have "lq_keyed ?q" using kd unfolding lq_keyed_def p by (auto split: if_splits)
  ultimately show ?thesis by (simp add: lq_core_def)
qed

text \<open>What a successful send does to the tables, apart from the order.\<close>

definition put_ok :: "slot_key \<Rightarrow> pending_realtime \<Rightarrow> latest_queue \<Rightarrow> bool" where
  "put_ok k m q \<longleftrightarrow>
     table_sum pr_reserved_bytes (fmupd k m (lq_pending q)) \<le> lq_max_total_bytes q \<and>
     pr_reserved_bytes m + rest_bytes (fst k) k q \<le> lq_max_session_bytes q \<and>
     Suc (rest_count (fst k) k q) \<le> lq_max_keys_per_session q \<and>
     table_len (fmupd k m (lq_pending q)) \<le> lq_max_pending_keys q"

lemma enqueue_accepts:
  assumes "lq_core q" and "lq_max_total_bytes q \<le> usize_max" and "lq_max_session_bytes q \<le> usize_max"
  shows "lq_enqueue s key payload tick q =
    (let m = \<lparr>pr_session = s, pr_key = key, pr_payload = payload, pr_tick = tick\<rparr>;
         k = (s, key); c = lq_counters q;
         fresh = (fmlookup (lq_pending q) k = None)
     in if put_ok k m q
        then (q\<lparr>lq_pending := fmupd k m (lq_pending q),
                lq_order := (if fresh then lq_order q @ [k] else lq_order q),
                lq_counters := (if fresh then c\<lparr>rn_queued_messages := rn_queued_messages c + 1\<rparr>
                    else c\<lparr>rn_replaced := sat_add (rn_replaced c) 1\<rparr>)
                  \<lparr>rn_queued_bytes := table_sum pr_reserved_bytes (fmupd k m (lq_pending q))\<rparr>,
                lq_session_usage := fmupd s
                  (Suc (rest_count s k q), pr_reserved_bytes m + rest_bytes s k q)
                  (lq_session_usage q)\<rparr>,
              Inr (if fresh then Queued else Replaced))
        else (q\<lparr>lq_counters := c\<lparr>rn_admission_rejected := sat_add (rn_admission_rejected c) 1\<rparr>\<rparr>,
              Inl WouldBlock))"
proof -
  let ?k = "(s, key)" and ?m = "\<lparr>pr_session = s, pr_key = key, pr_payload = payload, pr_tick = tick\<rparr>"
  have kd: "lq_keyed q" and c: "lq_charged q" and w: "lq_within q"
    using assms(1) by (simp_all add: lq_core_def)
  have u: "usage_of s q = (owned_count s q, owned_bytes s q)"
    and qb: "rn_queued_bytes (lq_counters q) = table_sum pr_reserved_bytes (lq_pending q)"
    using c by (simp_all add: lq_charged_def)
  have lim: "owned_count s q \<le> lq_max_keys_per_session q"
    "table_len (lq_pending q) \<le> lq_max_pending_keys q"
    using w by (simp_all add: lq_within_def)
  let ?new = "pr_reserved_bytes ?m" and ?old = "key_cost pr_reserved_bytes ?k q"
  have ob: "owned_bytes s q = ?old + rest_bytes s ?k q"
    and oc: "owned_count s q = key_cost (\<lambda>_. 1) ?k q + rest_count s ?k q"
    and ts: "table_sum pr_reserved_bytes (lq_pending q) =
      ?old + table_sum pr_reserved_bytes (fmdrop ?k (lq_pending q))"
    using owned_bytes_split [OF kd, of s ?k] owned_count_split [OF kd, of s ?k]
      table_sum_split [of pr_reserved_bytes q ?k] by simp_all
  have tot: "rn_queued_bytes (lq_counters q) - ?old + ?new =
      table_sum pr_reserved_bytes (fmupd ?k ?m (lq_pending q))"
    and ses: "owned_bytes s q - ?old + ?new = ?new + rest_bytes s ?k q"
    using qb ts ob by simp_all
  have len: "table_len (fmupd ?k ?m (lq_pending q)) =
      (if ?old = 0 then Suc (table_len (lq_pending q)) else table_len (lq_pending q))"
    and cnt: "Suc (rest_count s ?k q) = (if ?old = 0 then Suc (owned_count s q) else owned_count s q)"
    using oc table_len_remove [of "lq_pending q" ?k] reserved_pos
    by (auto simp: key_cost_pos fmdrop_absent) (auto simp: key_cost_def)
  have old: "(case fmlookup (lq_pending q) ?k of None \<Rightarrow> 0 | Some x \<Rightarrow> pr_reserved_bytes x) = ?old"
    by (simp add: key_cost_def)
  have none: "(case checked_add a b of None \<Rightarrow> True | Some v \<Rightarrow> l < v) \<longleftrightarrow> l < a + b"
    if "l \<le> usize_max" for a b l
    using that by (simp add: checked_add_def)
  have cond: "put_ok ?k ?m q \<longleftrightarrow> \<not> ((lq_max_total_bytes q < rn_queued_bytes (lq_counters q) - ?old + ?new) \<or>
      (lq_max_session_bytes q < owned_bytes s q - ?old + ?new) \<or>
      (?old = 0 \<and> lq_max_keys_per_session q \<le> owned_count s q) \<or>
      (?old = 0 \<and> lq_max_pending_keys q \<le> table_len (lq_pending q)))"
    unfolding put_ok_def tot ses fst_conv cnt len using lim by auto
  have fits: "put_ok ?k ?m q \<Longrightarrow> checked_add (rn_queued_bytes (lq_counters q) - ?old) ?new =
        Some (table_sum pr_reserved_bytes (fmupd ?k ?m (lq_pending q)))"
      "put_ok ?k ?m q \<Longrightarrow> checked_add (owned_bytes s q - ?old) ?new = Some (?new + rest_bytes s ?k q)"
    using assms(2,3) unfolding tot [symmetric] ses [symmetric] by (simp_all add: cond checked_add_def)
  have "?old = 0 \<longleftrightarrow> fmlookup (lq_pending q) ?k = None" by (rule key_cost_pos)
  then show ?thesis
    using cnt unfolding lq_enqueue_def u Let_def split_conv old none [OF assms(2)] none [OF assms(3)]
    by (cases "put_ok ?k ?m q") (simp_all add: fits cond [symmetric], auto simp: cond)
qed

lemma core_enqueue:
  assumes "lq_core q" and "lq_max_total_bytes q \<le> usize_max" and "lq_max_session_bytes q \<le> usize_max"
  shows "lq_core (fst (lq_enqueue s key payload tick q))"
proof -
  let ?k = "(s, key)" and ?m = "\<lparr>pr_session = s, pr_key = key, pr_payload = payload, pr_tick = tick\<rparr>"
  let ?q = "fst (lq_enqueue s key payload tick q)"
  have kd: "lq_keyed q" and c: "lq_charged q" and w: "lq_within q"
    using assms(1) by (simp_all add: lq_core_def)
  note enq = enqueue_accepts [OF assms, of s key payload tick, unfolded Let_def]
  show ?thesis
  proof (cases "put_ok ?k ?m q")
    case False
    then have "?q = q\<lparr>lq_counters := (lq_counters q)
        \<lparr>rn_admission_rejected := sat_add (rn_admission_rejected (lq_counters q)) 1\<rparr>\<rparr>"
      unfolding enq by simp
    then show ?thesis
      using assms(1) by (simp add: lq_core_def lq_keyed_def lq_charged_def lq_within_def
          usage_of_def owned_count_def owned_bytes_def)
  next
    case True
    then have p: "lq_pending ?q = fmupd ?k ?m (lq_pending q)" and lims:
      "lq_max_total_bytes ?q = lq_max_total_bytes q" "lq_max_session_bytes ?q = lq_max_session_bytes q"
      "lq_max_keys_per_session ?q = lq_max_keys_per_session q"
      "lq_max_pending_keys ?q = lq_max_pending_keys q"
      "lq_session_usage ?q = fmupd s
         (Suc (rest_count s ?k q), pr_reserved_bytes ?m + rest_bytes s ?k q) (lq_session_usage q)"
      "rn_queued_bytes (lq_counters ?q) = table_sum pr_reserved_bytes (fmupd ?k ?m (lq_pending q))"
      "rn_queued_messages (lq_counters ?q) = rn_queued_messages (lq_counters q) +
         (if fmlookup (lq_pending q) ?k = None then 1 else 0)"
      unfolding enq by simp_all
    have oc: "owned_count t ?q = (if t = s then Suc (rest_count s ?k q) else owned_count t q)"
      and ob: "owned_bytes t ?q =
        (if t = s then pr_reserved_bytes ?m + rest_bytes s ?k q else owned_bytes t q)" for t
      using owned_count_split [OF kd, of t ?k] owned_bytes_split [OF kd, of t ?k]
      by (auto simp: owned_count_def owned_bytes_def rest_count_def rest_bytes_def p)
    have "usage_of t ?q = (owned_count t ?q, owned_bytes t ?q)" for t
      using c oc ob by (auto simp: lims usage_of_def lq_charged_def)
    moreover have "rn_queued_messages (lq_counters ?q) = table_len (lq_pending ?q)"
      using c table_len_remove [of "lq_pending q" ?k]
      by (auto simp: lims p lq_charged_def fmdrop_absent)
    ultimately have "lq_charged ?q" unfolding lq_charged_def by (simp add: p lims)
    moreover have "lq_within ?q"
      using w True unfolding lq_within_def oc ob p lims put_ok_def by auto
    moreover have "lq_keyed ?q" using kd unfolding lq_keyed_def p by auto
    ultimately show ?thesis by (simp add: lq_core_def)
  qed
qed

section \<open>The ordered map the queue implements\<close>

definition lq_abs :: "latest_queue \<Rightarrow> (slot_key \<times> pending_realtime) list" where
  "lq_abs q = map (\<lambda>k. (k, the (fmlookup (lq_pending q) k))) (lq_order q)"

record lq_limits =
  ll_total :: nat
  ll_session :: nat
  ll_keys :: nat
  ll_pending :: nat

definition lq_limits_of :: "latest_queue \<Rightarrow> lq_limits" where
  "lq_limits_of q = \<lparr>ll_total = lq_max_total_bytes q, ll_session = lq_max_session_bytes q,
     ll_keys = lq_max_keys_per_session q, ll_pending = lq_max_pending_keys q\<rparr>"

definition bytes_of :: "(slot_key \<times> pending_realtime) list \<Rightarrow> nat" where
  "bytes_of xs = sum_list (map (pr_reserved_bytes \<circ> snd) xs)"

definition owned_by :: "handle \<Rightarrow> (slot_key \<times> 'v) list \<Rightarrow> (slot_key \<times> 'v) list" where
  "owned_by s xs = filter (\<lambda>x. fst (fst x) = s) xs"

text \<open>The limits a send must respect: the whole map and the part of the sending session.\<close>

definition admissible :: "lq_limits \<Rightarrow> handle \<Rightarrow> (slot_key \<times> pending_realtime) list \<Rightarrow> bool" where
  "admissible l s xs \<longleftrightarrow>
     bytes_of xs \<le> ll_total l \<and> length xs \<le> ll_pending l \<and>
     bytes_of (owned_by s xs) \<le> ll_session l \<and> length (owned_by s xs) \<le> ll_keys l"

datatype lq_op =
  Put handle u64 bytes "u32 option"
| Pop
| PutBack pending_realtime
| ForgetOwner handle
| ClearAll
| CountForwarded
| CountFailed

datatype lq_out = PutResult "queue_effect result" | Popped "pending_realtime option" | Dropped nat | Done

fun lq_step :: "lq_op \<Rightarrow> latest_queue \<Rightarrow> latest_queue \<times> lq_out" where
  "lq_step (Put s key payload tick) q = map_prod id PutResult (lq_enqueue s key payload tick q)"
| "lq_step Pop q = map_prod id Popped (lq_pop_next q)"
| "lq_step (PutBack m) q = (lq_requeue m q, Done)"
| "lq_step (ForgetOwner s) q = map_prod id Dropped (lq_forget_session s q)"
| "lq_step ClearAll q = (lq_clear q, Done)"
| "lq_step CountForwarded q = (lq_record_forwarded q, Done)"
| "lq_step CountFailed q = (lq_record_send_failed q, Done)"

text \<open>The specification: an association list in order of first sending.\<close>

fun spec_step :: "lq_limits \<Rightarrow> lq_op \<Rightarrow> (slot_key \<times> pending_realtime) list \<Rightarrow>
    (slot_key \<times> pending_realtime) list \<times> lq_out" where
  "spec_step l (Put s key payload tick) xs =
     (let ys = AList.update (s, key)
            \<lparr>pr_session = s, pr_key = key, pr_payload = payload, pr_tick = tick\<rparr> xs
      in if admissible l s ys
         then (ys, PutResult (Inr (if (s, key) \<in> fst ` set xs then Replaced else Queued)))
         else (xs, PutResult (Inl WouldBlock)))"
| "spec_step l Pop xs = (case xs of [] \<Rightarrow> ([], Popped None) | (k, m) # ys \<Rightarrow> (ys, Popped (Some m)))"
| "spec_step l (PutBack m) xs =
     (let k = (pr_session m, pr_key m)
      in (if k \<notin> fst ` set xs \<and> admissible l (pr_session m) (xs @ [(k, m)])
          then xs @ [(k, m)] else xs, Done))"
| "spec_step l (ForgetOwner s) xs =
     (filter (\<lambda>x. fst (fst x) \<noteq> s) xs, Dropped (length (owned_by s xs)))"
| "spec_step l ClearAll xs = ([], Done)"
| "spec_step l CountForwarded xs = (xs, Done)"
| "spec_step l CountFailed xs = (xs, Done)"

section \<open>Refinement\<close>

lemma abs_keys [simp]: "map fst (lq_abs q) = lq_order q"
  by (simp add: lq_abs_def comp_def)

lemma abs_key_set [simp]: "fst ` set (lq_abs q) = set (lq_order q)"
  by (metis abs_keys set_map)

lemma abs_mem:
  "lq_ordered q \<Longrightarrow> (k, m) \<in> set (lq_abs q) \<longleftrightarrow> fmlookup (lq_pending q) k = Some m"
  by (auto simp: lq_abs_def lq_ordered_def fmlookup_dom_iff intro: fmdomI)

lemma sum_abs: "lq_ordered q \<Longrightarrow> sum_list (map (f \<circ> snd) (lq_abs q)) = table_sum f (lq_pending q)"
  by (simp add: lq_abs_def comp_def lq_ordered_def table_sum_def sum_list_distinct_conv_sum_set)

lemma len_abs: "lq_ordered q \<Longrightarrow> length (lq_abs q) = table_len (lq_pending q)"
  using sum_abs [of q "\<lambda>_. 1"] by (simp add: table_len_sum comp_def sum_list_triv)

lemma sum_list_filter: "sum_list (map f (filter P xs)) = sum_list (map (\<lambda>x. if P x then f x else (0 :: nat)) xs)"
  by (induction xs) auto

lemma owned_sum_abs:
  assumes "lq_ordered q" and "lq_keyed q"
  shows "sum_list (map (f \<circ> snd) (owned_by s (lq_abs q))) =
    table_sum (\<lambda>m. if pr_session m = s then f m else 0) (lq_pending q)"
proof -
  have "map (\<lambda>x. if fst (fst x) = s then (f \<circ> snd) x else 0) (lq_abs q) =
      map ((\<lambda>m. if pr_session m = s then f m else 0) \<circ> snd) (lq_abs q)"
    using abs_mem [OF assms(1)] keyedD [OF assms(2)] by (auto intro!: map_cong)
  then show ?thesis
    unfolding owned_by_def sum_list_filter sum_abs [OF assms(1), symmetric] by (rule arg_cong)
qed

lemma owned_len_abs:
  "lq_ordered q \<Longrightarrow> lq_keyed q \<Longrightarrow> length (owned_by s (lq_abs q)) = owned_count s q"
  using owned_sum_abs [of q "\<lambda>_. 1" s] by (simp add: owned_count_def comp_def sum_list_triv)

lemma admissible_abs:
  "lq_ordered q \<Longrightarrow> lq_keyed q \<Longrightarrow> admissible (lq_limits_of q) s (lq_abs q) \<longleftrightarrow>
     table_sum pr_reserved_bytes (lq_pending q) \<le> lq_max_total_bytes q \<and>
     table_len (lq_pending q) \<le> lq_max_pending_keys q \<and>
     owned_bytes s q \<le> lq_max_session_bytes q \<and> owned_count s q \<le> lq_max_keys_per_session q"
  by (simp add: admissible_def bytes_of_def sum_abs len_abs owned_sum_abs owned_len_abs
      owned_bytes_def lq_limits_of_def)

definition put_q :: "slot_key \<Rightarrow> pending_realtime \<Rightarrow> latest_queue \<Rightarrow> latest_queue" where
  "put_q k m q = q\<lparr>lq_pending := fmupd k m (lq_pending q),
     lq_order := (if fmlookup (lq_pending q) k = None then lq_order q @ [k] else lq_order q)\<rparr>"

lemma alist_update_map:
  "distinct ks \<Longrightarrow> AList.update k m (map (\<lambda>x. (x, g x)) ks) =
     (if k \<in> set ks then map (\<lambda>x. (x, (g(k := m)) x)) ks else map (\<lambda>x. (x, g x)) ks @ [(k, m)])"
  by (induction ks) auto

lemma put_abs:
  assumes "lq_ordered q"
  shows "lq_ordered (put_q k m q)" and "lq_abs (put_q k m q) = AList.update k m (lq_abs q)"
proof -
  have o: "distinct (lq_order q)" "k \<in> set (lq_order q) \<longleftrightarrow> fmlookup (lq_pending q) k \<noteq> None"
    using assms by (auto simp: lq_ordered_def fmlookup_dom_iff)
  show "lq_ordered (put_q k m q)"
    using assms o by (auto simp: lq_ordered_def put_q_def)
  show "lq_abs (put_q k m q) = AList.update k m (lq_abs q)"
    unfolding lq_abs_def alist_update_map [OF o(1)] using o by (auto simp: put_q_def)
qed

lemma put_ok_admissible:
  assumes "lq_ordered q" and "lq_keyed q" and "k = (pr_session m, pr_key m)"
  shows "put_ok k m q \<longleftrightarrow> admissible (lq_limits_of q) (pr_session m) (AList.update k m (lq_abs q))"
proof -
  have "lq_keyed (put_q k m q)" using assms(2,3) unfolding lq_keyed_def put_q_def by auto
  note adm = admissible_abs [OF put_abs(1) [OF assms(1)] this, of "pr_session m"]
  have lim: "lq_limits_of (put_q k m q) = lq_limits_of q" by (simp add: lq_limits_of_def put_q_def)
  show ?thesis
    using adm unfolding put_abs(2) [OF assms(1)] lim
    by (auto simp: put_ok_def put_q_def owned_bytes_def owned_count_def rest_bytes_def
        rest_count_def assms(3))
qed

definition lq_sim :: "lq_limits \<Rightarrow> latest_queue \<Rightarrow> (slot_key \<times> pending_realtime) list \<Rightarrow> bool" where
  "lq_sim l q xs \<longleftrightarrow> wf_lq q \<and> lq_limits_of q = l \<and> xs = lq_abs q \<and>
     ll_total l \<le> usize_max \<and> ll_session l \<le> usize_max"

text \<open>Updates of the counters outside the accounts change nothing of the relation.\<close>

lemma sim_counters:
  assumes "lq_sim l q xs" and "rn_queued_messages c = rn_queued_messages (lq_counters q)"
    and "rn_queued_bytes c = rn_queued_bytes (lq_counters q)"
  shows "lq_sim l (q\<lparr>lq_counters := c\<rparr>) xs"
  using assms
  by (simp add: lq_sim_def wf_lq_def lq_core_def lq_keyed_def lq_charged_def lq_within_def
      lq_ordered_def usage_of_def owned_count_def owned_bytes_def lq_limits_of_def lq_abs_def)

lemma sim_put:
  assumes "lq_sim l q xs"
  shows "snd (lq_step (Put s key payload tick) q) = snd (spec_step l (Put s key payload tick) xs) \<and>
    lq_sim l (fst (lq_step (Put s key payload tick) q)) (fst (spec_step l (Put s key payload tick) xs))"
proof -
  let ?k = "(s, key)" and ?m = "\<lparr>pr_session = s, pr_key = key, pr_payload = payload, pr_tick = tick\<rparr>"
  let ?q = "fst (lq_enqueue s key payload tick q)"
  have w: "lq_core q" "lq_ordered q" "xs = lq_abs q" "lq_limits_of q = l"
    "lq_max_total_bytes q \<le> usize_max" "lq_max_session_bytes q \<le> usize_max"
    using assms by (auto simp: lq_sim_def wf_lq_def lq_limits_of_def)
  note enq = enqueue_accepts [OF w(1,5,6), of s key payload tick, unfolded Let_def]
  have ok: "put_ok ?k ?m q \<longleftrightarrow> admissible l s (AList.update ?k ?m xs)"
    using put_ok_admissible [of q ?k ?m] w by (simp add: lq_core_def)
  have mem: "?k \<in> set (lq_order q) \<longleftrightarrow> fmlookup (lq_pending q) ?k \<noteq> None"
    using w(2) by (auto simp: lq_ordered_def fmlookup_dom_iff)
  show ?thesis
  proof (cases "put_ok ?k ?m q")
    case True
    then have eq: "lq_pending ?q = lq_pending (put_q ?k ?m q)" "lq_order ?q = lq_order (put_q ?k ?m q)"
      "lq_limits_of ?q = l"
      using w(4) unfolding enq by (auto simp: put_q_def lq_limits_of_def)
    have "lq_ordered ?q" "lq_abs ?q = AList.update ?k ?m xs"
      using put_abs [OF w(2), of ?k ?m] w(3) eq by (simp_all add: lq_ordered_def lq_abs_def)
    then have "lq_sim l ?q (AList.update ?k ?m xs)"
      using core_enqueue [OF w(1,5,6)] eq assms by (simp add: lq_sim_def wf_lq_def)
    moreover have "snd (lq_enqueue s key payload tick q) =
        Inr (if ?k \<in> fst ` set xs then Replaced else Queued)"
      using True mem unfolding enq w(3) abs_key_set by simp
    ultimately show ?thesis using True ok by (simp add: Let_def)
  next
    case False
    then have e: "snd (lq_enqueue s key payload tick q) = Inl WouldBlock" "lq_sim l ?q xs"
      unfolding enq using sim_counters [OF assms] by simp_all
    then show ?thesis using False ok by (simp add: Let_def)
  qed
qed

lemma update_nonmember: "k \<notin> fst ` set xs \<Longrightarrow> AList.update k v xs = xs @ [(k, v)]"
  by (induction xs) auto

lemma sim_requeue:
  assumes "lq_sim l q xs"
  shows "lq_sim l (lq_requeue m q) (fst (spec_step l (PutBack m) xs))"
proof -
  let ?k = "(pr_session m, pr_key m)"
  let ?e = "lq_enqueue (pr_session m) (pr_key m) (pr_payload m) (pr_tick m) q"
  have mem: "?k \<in> fst ` set xs \<longleftrightarrow> fmlookup (lq_pending q) ?k \<noteq> None"
    using assms by (auto simp: lq_sim_def wf_lq_def lq_ordered_def fmlookup_dom_iff)
  show ?thesis
  proof (cases "fmlookup (lq_pending q) ?k")
    case (Some m')
    then show ?thesis
      using sim_counters [OF assms] mem by (simp add: lq_requeue_def Let_def)
  next
    case None
    have up: "AList.update ?k m xs = xs @ [(?k, m)]"
      using None mem by (simp add: update_nonmember)
    have eta: "\<lparr>pr_session = pr_session m, pr_key = pr_key m, pr_payload = pr_payload m,
      pr_tick = pr_tick m\<rparr> = m" by simp
    have "lq_sim l (fst ?e) (fst (spec_step l (PutBack m) xs)) \<and>
        snd (spec_step l (Put (pr_session m) (pr_key m) (pr_payload m) (pr_tick m)) xs) =
          PutResult (snd ?e)"
      using sim_put [OF assms, of "pr_session m" "pr_key m" "pr_payload m" "pr_tick m"] None mem
      unfolding spec_step.simps eta up by (auto simp: Let_def split: if_splits)
    then show ?thesis
      using None sim_counters [of l "fst ?e"]
      by (cases ?e; cases "snd ?e") (auto simp: lq_requeue_def Let_def)
  qed
qed

lemma sim_pop:
  assumes "lq_sim l q xs"
  shows "snd (lq_step Pop q) = snd (spec_step l Pop xs) \<and>
    lq_sim l (fst (lq_step Pop q)) (fst (spec_step l Pop xs))"
proof (cases "lq_order q")
  case Nil
  then have p: "lq_pop_next q = (q, None)" by (cases q) (simp add: lq_pop_next_def)
  have "xs = []" using assms Nil by (simp add: lq_sim_def lq_abs_def)
  then show ?thesis using assms p by simp
next
  case (Cons k ks)
  have w: "lq_core q" "lq_ordered q" using assms by (simp_all add: lq_sim_def wf_lq_def)
  have "k \<in> fset (fmdom (lq_pending q))" using w(2) Cons by (auto simp: lq_ordered_def)
  then obtain m where m: "fmlookup (lq_pending q) k = Some m" by (auto simp: fmlookup_dom_iff)
  let ?q = "lq_release m (q\<lparr>lq_order := ks, lq_pending := fmdrop k (lq_pending q)\<rparr>)"
  have p: "lq_pop_next q = (?q, Some m)" using Cons m by (simp add: lq_pop_next_def)
  have "lq_core (q\<lparr>lq_order := ks\<rparr>)"
    using w(1) by (simp add: lq_core_def lq_keyed_def lq_charged_def lq_within_def usage_of_def
        owned_count_def owned_bytes_def)
  then have "lq_core ?q" using core_drop [of "q\<lparr>lq_order := ks\<rparr>" k m] m by simp
  moreover have f: "lq_order ?q = ks" "lq_pending ?q = fmdrop k (lq_pending q)"
    "lq_limits_of ?q = lq_limits_of q"
    by (simp_all add: lq_release_def lq_limits_of_def Let_def)
  moreover have "k \<notin> set ks" "distinct ks" "set ks = fset (fmdom (lq_pending q)) - {k}"
    using w(2) Cons by (auto simp: lq_ordered_def)
  ultimately have "lq_sim l ?q (lq_abs ?q)"
    using assms by (simp add: lq_sim_def wf_lq_def lq_ordered_def)
  moreover have "xs = (k, m) # lq_abs ?q"
    using assms Cons m f \<open>k \<notin> set ks\<close> by (auto simp: lq_sim_def lq_abs_def)
  ultimately show ?thesis using p by simp
qed

lemma drop_keys:
  assumes "lq_core q"
  shows "lq_core (fold lq_drop_key ks q) \<and> lq_order (fold lq_drop_key ks q) = lq_order q \<and>
    lq_limits_of (fold lq_drop_key ks q) = lq_limits_of q \<and>
    (\<forall>k. fmlookup (lq_pending (fold lq_drop_key ks q)) k =
       (if k \<in> set ks then None else fmlookup (lq_pending q) k))"
  using assms
proof (induction ks arbitrary: q)
  case (Cons j ks)
  show ?case
  proof (cases "fmlookup (lq_pending q) j")
    case None
    then show ?thesis using Cons by (auto simp: lq_drop_key_def)
  next
    case (Some m)
    have "lq_core (lq_drop_key j q)"
      using core_drop [OF Cons.prems Some] Some by (simp add: lq_drop_key_def)
    moreover have "lq_order (lq_drop_key j q) = lq_order q"
      "lq_limits_of (lq_drop_key j q) = lq_limits_of q"
      "lq_pending (lq_drop_key j q) = fmdrop j (lq_pending q)"
      using Some by (simp_all add: lq_drop_key_def lq_release_def lq_limits_of_def Let_def)
    ultimately show ?thesis using Cons.IH [of "lq_drop_key j q"] by auto
  qed
qed simp

lemma sim_forget:
  assumes "lq_sim l q xs"
  shows "snd (lq_step (ForgetOwner s) q) = snd (spec_step l (ForgetOwner s) xs) \<and>
    lq_sim l (fst (lq_step (ForgetOwner s) q)) (fst (spec_step l (ForgetOwner s) xs))"
proof -
  have w: "lq_core q" "lq_ordered q" "xs = lq_abs q" using assms by (simp_all add: lq_sim_def wf_lq_def)
  define ks where "ks = filter (\<lambda>k. fst k = s) (table_keys (lq_pending q))"
  define q1 where "q1 = fold lq_drop_key ks q"
  have d: "lq_core q1" "lq_order q1 = lq_order q" "lq_limits_of q1 = lq_limits_of q"
    and ex: "fmlookup (lq_pending q1) k = (if k \<in> set ks then None else fmlookup (lq_pending q) k)" for k
    using drop_keys [OF w(1), of ks] unfolding q1_def by blast+
  have look: "fmlookup (lq_pending q1) k = (if fst k = s then None else fmlookup (lq_pending q) k)" for k
    unfolding ex by (cases "fmlookup (lq_pending q) k") (auto simp: ks_def fmlookup_dom_iff)
  let ?q = "q1\<lparr>lq_order := filter (\<lambda>k. fst k \<noteq> s) (lq_order q)\<rparr>"
  have "lq_ordered ?q"
    using w(2) look by (auto simp: lq_ordered_def fmlookup_dom_iff split: if_splits)
  moreover have "lq_core ?q"
    using d(1) by (simp add: lq_core_def lq_keyed_def lq_charged_def lq_within_def usage_of_def
        owned_count_def owned_bytes_def)
  moreover have abs: "lq_abs ?q = filter (\<lambda>x. fst (fst x) \<noteq> s) xs"
    by (auto simp: w(3) lq_abs_def look filter_map comp_def)
  ultimately have "lq_sim l ?q (filter (\<lambda>x. fst (fst x) \<noteq> s) xs)"
    using assms d(3) by (simp add: lq_sim_def wf_lq_def lq_limits_of_def)
  then have sim: "lq_sim l (fst (lq_forget_session s q)) (filter (\<lambda>x. fst (fst x) \<noteq> s) xs)"
    using sim_counters d(2) by (simp add: lq_forget_session_def Let_def ks_def [symmetric] q1_def [symmetric])
  have "length ks = length (filter (\<lambda>k. fst k = s) (lq_order q))"
    using w(2) unfolding ks_def lq_ordered_def
    by (intro distinct_card [symmetric, THEN trans, OF _ trans, OF _ _ distinct_card]) auto
  then show ?thesis
    using sim by (simp add: lq_forget_session_def Let_def ks_def owned_by_def w(3) lq_abs_def
        filter_map comp_def)
qed

lemma lq_step_sim:
  assumes "lq_sim l q xs"
  shows "snd (lq_step x q) = snd (spec_step l x xs) \<and>
    lq_sim l (fst (lq_step x q)) (fst (spec_step l x xs))"
proof (cases x)
  case (PutBack m)
  then show ?thesis using sim_requeue [OF assms, of m] by (simp add: Let_def)
next
  case ClearAll
  then show ?thesis
    using assms
    by (auto simp: lq_sim_def wf_lq_def lq_core_def lq_keyed_def lq_charged_def lq_within_def
        lq_ordered_def usage_of_def owned_count_def owned_bytes_def lq_limits_of_def lq_abs_def
        lq_clear_def Let_def)
next
  case CountForwarded
  then show ?thesis using sim_counters [OF assms] by (simp add: lq_record_forwarded_def Let_def)
next
  case CountFailed
  then show ?thesis using sim_counters [OF assms] by (simp add: lq_record_send_failed_def Let_def)
qed (use assms sim_put sim_pop sim_forget in blast)+

interpretation lqs: simulation lq_step "spec_step l" "lq_sim l" for l
  by unfold_locales (rule lq_step_sim)

lemma new_sim:
  assumes "lq_from_config c = Inr q0" and "rc_max_queued_bytes c \<le> usize_max"
  shows "lq_sim (lq_limits_of q0) q0 []"
proof -
  have "lq_new (rc_max_queued_bytes c) (rc_max_session_queued_bytes c) (rc_max_keys_per_session c) = Inr q0"
    using assms(1) by (simp add: lq_from_config_def split: if_splits)
  then show ?thesis
    using assms(2)
    by (auto simp: lq_new_def lq_sim_def wf_lq_def lq_core_def lq_keyed_def lq_charged_def
        lq_within_def lq_ordered_def usage_of_def owned_count_def owned_bytes_def lq_limits_of_def
        lq_abs_def realtime_counters_default_def split: if_splits)
qed

section \<open>Properties\<close>

definition demo_lq :: latest_queue where
  "demo_lq = \<lparr>lq_max_total_bytes = 64, lq_max_session_bytes = 40, lq_max_keys_per_session = 2,
     lq_max_pending_keys = 4, lq_order = [], lq_pending = fmempty, lq_session_usage = fmempty,
     lq_counters = realtime_counters_default\<rparr>"

definition demo_lq_config :: realtime_queue_config where
  "demo_lq_config = \<lparr>rc_max_queued_bytes = 64, rc_max_session_queued_bytes = 40,
     rc_max_keys_per_session = 2, rc_flush_batch = 1\<rparr>"

lemma demo_lq_new:
  "lq_from_config demo_lq_config = Inr demo_lq" "rc_max_queued_bytes demo_lq_config \<le> usize_max"
  by (simp_all add: lq_from_config_def lq_new_def demo_lq_def demo_lq_config_def
      WORST_ENVELOPE_OVERHEAD_def usize_max_def)

definition demo_lq_ops :: "lq_op list" where
  "demo_lq_ops =
     [Put 7 1 [1] None, Put 7 2 [2] None, Put 7 1 [3] None, Put 8 1 (replicate 60 0) None, Pop]"

lemma demo_spec:
  "run_out (spec_step (lq_limits_of demo_lq)) demo_lq_ops [] =
   ([((7, 2), \<lparr>pr_session = 7, pr_key = 2, pr_payload = [2], pr_tick = None\<rparr>)],
    [PutResult (Inr Queued), PutResult (Inr Queued), PutResult (Inr Replaced),
     PutResult (Inl WouldBlock),
     Popped (Some \<lparr>pr_session = 7, pr_key = 1, pr_payload = [3], pr_tick = None\<rparr>)])"
  by (simp add: demo_lq_ops_def demo_lq_def lq_limits_of_def admissible_def bytes_of_def owned_by_def
      pr_reserved_bytes_def WORST_ENVELOPE_OVERHEAD_def Let_def)

text \<open>
  C23. The realtime queue implements an ordered map from (session, key) to the latest value: after
  any sequence of sends, pops, returned messages, session closes and clears, every operation has
  answered as the map does, where sending a pending key again replaces its value in place, a
  returned message never displaces a newer value, a pop takes the oldest key, and a send is refused
  exactly when the resulting map would break one of the four limits.
\<close>

theorem latest_queue_refines_map:
  assumes "lq_from_config c = Inr q0" and "rc_max_queued_bytes c \<le> usize_max"
  shows "snd (run_out lq_step ops q0) = snd (run_out (spec_step (lq_limits_of q0)) ops []) \<and>
    lq_abs (fst (run_out lq_step ops q0)) = fst (run_out (spec_step (lq_limits_of q0)) ops [])"
  using lqs.run_sim [OF new_sim [OF assms], of ops] by (simp add: lq_sim_def)

theorem latest_queue_refines_map_witness:
  "snd (run_out lq_step demo_lq_ops demo_lq) =
   [PutResult (Inr Queued), PutResult (Inr Queued), PutResult (Inr Replaced),
    PutResult (Inl WouldBlock),
    Popped (Some \<lparr>pr_session = 7, pr_key = 1, pr_payload = [3], pr_tick = None\<rparr>)]"
  using latest_queue_refines_map [OF demo_lq_new, of demo_lq_ops] unfolding demo_spec by simp

text \<open>
  The realtime queue's accounts are exact and bounded through every sequence of operations:
  the message count, the byte count and each session's key and byte counts are those of the
  messages held, and none of the four limits is exceeded.
\<close>

lemma latest_queue_accounts_exact:
  assumes "lq_from_config c = Inr q0" and "rc_max_queued_bytes c \<le> usize_max"
    and "q = fst (run_out lq_step ops q0)" and "xs = lq_abs q"
  shows "rn_queued_messages (lq_counters q) = length xs \<and>
    rn_queued_bytes (lq_counters q) = bytes_of xs \<and>
    usage_of s q = (length (owned_by s xs), bytes_of (owned_by s xs)) \<and>
    admissible (lq_limits_of q0) s xs"
proof -
  have "lq_sim (lq_limits_of q0) q xs"
    using lqs.run_sim [OF new_sim [OF assms(1,2)], of ops] assms(3,4) by (simp add: lq_sim_def)
  then have w: "lq_charged q" "lq_within q" "lq_ordered q" "lq_keyed q" "lq_limits_of q = lq_limits_of q0"
    by (simp_all add: lq_sim_def wf_lq_def lq_core_def)
  have "admissible (lq_limits_of q0) s xs"
    unfolding w(5) [symmetric] assms(4) admissible_abs [OF w(3,4)]
    using w(2) by (simp add: lq_within_def)
  then show ?thesis
    using w(1) unfolding assms(4) lq_charged_def
    by (simp add: len_abs [OF w(3)] bytes_of_def sum_abs [OF w(3)] owned_len_abs [OF w(3,4)]
        owned_sum_abs [OF w(3,4)] owned_bytes_def)
qed

end
