(* ===== verification/Session_Quality.thy ===== *)
theory Session_Quality
  imports Game_Wire Step_System
begin

text \<open>
  Per-session network quality: the receiver's sequence-gap tracker, the grades and the change gate
  of \<^verbatim>\<open>rnet-game/src/quality.rs\<close>, and the heartbeat format and tracker of
  \<^verbatim>\<open>rnet-game/src/heartbeat.rs\<close>. The gap tracker is shown to report exactly the positions of the
  sequence space that have not arrived, by simulation with a history of unwrapped positions.
\<close>

section \<open>Sequence gaps\<close>

definition REORDER_WINDOW :: u32 where "REORDER_WINDOW = 64"
definition MAX_FORWARD_GAP :: u32 where "MAX_FORWARD_GAP = 4096"

datatype udp_observation = First | New | Reordered | Duplicate | TooOld | Discontinuity

record udp_loss_snapshot =
  us_expected :: nat
  us_received :: nat
  us_missing :: nat
  us_recent_expected :: u8
  us_recent_missing :: u8
  us_recent_loss_per_mille :: u16
  us_reordered :: nat
  us_duplicates :: nat
  us_too_old :: nat
  us_discontinuities :: nat

record udp_loss_tracker =
  ut_highest :: "u32 option"
  ut_seen :: u64
  ut_span :: nat
  ut_expected :: nat
  ut_received :: nat
  ut_reordered :: nat
  ut_duplicates :: nat
  ut_too_old :: nat
  ut_discontinuities :: nat

definition udp_tracker_default :: udp_loss_tracker where
  "udp_tracker_default = \<lparr>ut_highest = None, ut_seen = 0, ut_span = 0, ut_expected = 0,
     ut_received = 0, ut_reordered = 0, ut_duplicates = 0, ut_too_old = 0, ut_discontinuities = 0\<rparr>"

record udp_session_quality =
  uq_next_outbound_sequence :: u32
  uq_inbound :: udp_loss_tracker

definition udp_observe :: "u32 \<Rightarrow> udp_loss_tracker \<Rightarrow> udp_loss_tracker \<times> udp_observation" where
  "udp_observe sequence t =
     (case ut_highest t of
        None \<Rightarrow> (t\<lparr>ut_highest := Some sequence, ut_seen := 1, ut_span := 1, ut_expected := 1,
                  ut_received := 1\<rparr>, First)
      | Some highest \<Rightarrow>
          let forward = sequence - highest
          in if forward = 0 then (t\<lparr>ut_duplicates := sat_add (ut_duplicates t) 1\<rparr>, Duplicate)
             else if forward < 2 ^ 31 then
               (if MAX_FORWARD_GAP < forward
                then (t\<lparr>ut_highest := Some sequence, ut_seen := 1, ut_span := 1,
                        ut_expected := sat_add (ut_expected t) 1,
                        ut_received := sat_add (ut_received t) 1,
                        ut_discontinuities := sat_add (ut_discontinuities t) 1\<rparr>, Discontinuity)
                else (t\<lparr>ut_highest := Some sequence,
                        ut_seen := (if REORDER_WINDOW \<le> forward then 1
                                    else push_bit (unat forward) (ut_seen t) OR 1),
                        ut_span := sat_add (ut_span t) (unat forward),
                        ut_expected := sat_add (ut_expected t) (unat forward),
                        ut_received := sat_add (ut_received t) 1\<rparr>, New))
             else
               let behind = highest - sequence
               in if REORDER_WINDOW \<le> behind \<or> ut_span t \<le> unat behind
                  then (t\<lparr>ut_too_old := sat_add (ut_too_old t) 1\<rparr>, TooOld)
                  else if ut_seen t AND push_bit (unat behind) 1 \<noteq> 0
                  then (t\<lparr>ut_duplicates := sat_add (ut_duplicates t) 1\<rparr>, Duplicate)
                  else (t\<lparr>ut_seen := ut_seen t OR push_bit (unat behind) 1,
                          ut_received := sat_add (ut_received t) 1,
                          ut_reordered := sat_add (ut_reordered t) 1\<rparr>, Reordered))"

definition count_ones :: "u64 \<Rightarrow> nat" where
  "count_ones w = length (filter (bit w) [0 ..< 64])"

definition udp_snapshot :: "udp_loss_tracker \<Rightarrow> udp_loss_snapshot" where
  "udp_snapshot t =
     (let recent_expected = min (ut_span t) 64;
          recent_received = min (count_ones (ut_seen t)) recent_expected;
          recent_missing = recent_expected - recent_received
      in \<lparr>us_expected = ut_expected t, us_received = ut_received t,
          us_missing = ut_expected t - ut_received t,
          us_recent_expected = word_of_nat recent_expected,
          us_recent_missing = word_of_nat recent_missing,
          us_recent_loss_per_mille =
            (if recent_expected = 0 then 0
             else word_of_nat (min (recent_missing * 1000) u64_max div recent_expected)),
          us_reordered = ut_reordered t, us_duplicates = ut_duplicates t,
          us_too_old = ut_too_old t, us_discontinuities = ut_discontinuities t\<rparr>)"

section \<open>Grades\<close>

datatype quality_grade = Unknown | Excellent | Good | Fair | Poor

fun grade_rank :: "quality_grade \<Rightarrow> nat" where
  "grade_rank Unknown = 0"
| "grade_rank Excellent = 1"
| "grade_rank Good = 2"
| "grade_rank Fair = 3"
| "grade_rank Poor = 4"

lemma grade_rank_inject: "grade_rank g = grade_rank h \<Longrightarrow> g = h"
  by (cases g; cases h) simp_all

instantiation quality_grade :: linorder
begin

definition less_eq_quality_grade :: "quality_grade \<Rightarrow> quality_grade \<Rightarrow> bool" where
  "less_eq_quality_grade g h \<longleftrightarrow> grade_rank g \<le> grade_rank h"

definition less_quality_grade :: "quality_grade \<Rightarrow> quality_grade \<Rightarrow> bool" where
  "less_quality_grade g h \<longleftrightarrow> grade_rank g < grade_rank h"

instance
  by intro_classes (auto simp: less_eq_quality_grade_def less_quality_grade_def
      dest: grade_rank_inject)

end

datatype quality_basis = LatencyOnly | UdpSequenceGap | KcpRetransmission

record quality_sample =
  qs_last_rtt :: duration
  qs_smoothed_rtt :: duration
  qs_jitter :: duration
  qs_samples :: nat

record network_quality =
  nq_last_rtt :: duration
  nq_smoothed_rtt :: duration
  nq_jitter :: duration
  nq_samples :: nat
  nq_grade :: quality_grade
  nq_basis :: quality_basis
  nq_udp_loss :: "udp_loss_snapshot option"
  nq_kcp_retransmissions :: "kcp_retransmission_snapshot option"

record quality_policy =
  qp_minimum_rtt_samples :: nat
  qp_minimum_udp_packets :: u8
  qp_minimum_kcp_segments :: u16
  qp_excellent_rtt :: duration
  qp_good_rtt :: duration
  qp_fair_rtt :: duration
  qp_excellent_jitter :: duration
  qp_good_jitter :: duration
  qp_fair_jitter :: duration
  qp_excellent_udp_loss :: u16
  qp_good_udp_loss :: u16
  qp_fair_udp_loss :: u16
  qp_excellent_kcp :: u16
  qp_good_kcp :: u16
  qp_fair_kcp :: u16

definition quality_policy_default :: quality_policy where
  "quality_policy_default = \<lparr>qp_minimum_rtt_samples = 3, qp_minimum_udp_packets = 16,
     qp_minimum_kcp_segments = 16, qp_excellent_rtt = millis 80, qp_good_rtt = millis 150,
     qp_fair_rtt = millis 250, qp_excellent_jitter = millis 15, qp_good_jitter = millis 35,
     qp_fair_jitter = millis 70, qp_excellent_udp_loss = 10, qp_good_udp_loss = 30,
     qp_fair_udp_loss = 100, qp_excellent_kcp = 10, qp_good_kcp = 50, qp_fair_kcp = 150\<rparr>"

definition policy_is_valid :: "quality_policy \<Rightarrow> bool" where
  "policy_is_valid p \<longleftrightarrow>
     0 < qp_minimum_rtt_samples p \<and>
     1 \<le> qp_minimum_udp_packets p \<and> qp_minimum_udp_packets p \<le> 64 \<and>
     1 \<le> qp_minimum_kcp_segments p \<and> qp_minimum_kcp_segments p \<le> 128 \<and>
     qp_excellent_rtt p \<le> qp_good_rtt p \<and> qp_good_rtt p \<le> qp_fair_rtt p \<and>
     qp_excellent_jitter p \<le> qp_good_jitter p \<and> qp_good_jitter p \<le> qp_fair_jitter p \<and>
     qp_excellent_udp_loss p \<le> qp_good_udp_loss p \<and> qp_good_udp_loss p \<le> qp_fair_udp_loss p \<and>
     qp_fair_udp_loss p \<le> 1000 \<and>
     qp_excellent_kcp p \<le> qp_good_kcp p \<and> qp_good_kcp p \<le> qp_fair_kcp p \<and>
     qp_fair_kcp p \<le> 1000"

definition grade_for :: "'a :: linorder \<Rightarrow> 'a \<Rightarrow> 'a \<Rightarrow> 'a \<Rightarrow> quality_grade" where
  "grade_for v excellent good fair =
     (if v \<le> excellent then Excellent else if v \<le> good then Good
      else if v \<le> fair then Fair else Poor)"

definition filter_option :: "('a \<Rightarrow> bool) \<Rightarrow> 'a option \<Rightarrow> 'a option" where
  "filter_option P x = (case x of None \<Rightarrow> None | Some v \<Rightarrow> if P v then Some v else None)"

definition classify ::
    "quality_sample \<Rightarrow> udp_loss_snapshot option \<Rightarrow> kcp_retransmission_snapshot option \<Rightarrow>
     quality_policy \<Rightarrow> quality_grade \<times> quality_basis" where
  "classify sample udp_loss kcp p =
     (let usable_loss = filter_option (\<lambda>l. qp_minimum_udp_packets p \<le> us_recent_expected l) udp_loss;
          usable_kcp = filter_option (\<lambda>s. qp_minimum_kcp_segments p \<le> ks_recent_segments s) kcp;
          basis = (if usable_loss \<noteq> None then UdpSequenceGap
                   else if usable_kcp \<noteq> None then KcpRetransmission else LatencyOnly)
      in if qs_samples sample < qp_minimum_rtt_samples p then (Unknown, basis)
         else
           let grade = max
                 (grade_for (qs_smoothed_rtt sample) (qp_excellent_rtt p) (qp_good_rtt p) (qp_fair_rtt p))
                 (grade_for (qs_jitter sample) (qp_excellent_jitter p) (qp_good_jitter p) (qp_fair_jitter p));
               grade = (case usable_loss of None \<Rightarrow> grade
                 | Some l \<Rightarrow> max grade (grade_for (us_recent_loss_per_mille l)
                     (qp_excellent_udp_loss p) (qp_good_udp_loss p) (qp_fair_udp_loss p)));
               grade = (case usable_kcp of None \<Rightarrow> grade
                 | Some s \<Rightarrow> max grade (grade_for (ks_recent_retransmission_per_mille s)
                     (qp_excellent_kcp p) (qp_good_kcp p) (qp_fair_kcp p)))
           in (grade, basis))"

record quality_change_gate =
  qg_published :: "(quality_grade \<times> quality_basis) option"
  qg_candidate :: "(quality_grade \<times> quality_basis) option"

definition gate_default :: quality_change_gate where
  "gate_default = \<lparr>qg_published = None, qg_candidate = None\<rparr>"

definition gate_observe ::
    "quality_grade \<Rightarrow> quality_basis \<Rightarrow> quality_change_gate \<Rightarrow> quality_change_gate \<times> bool" where
  "gate_observe grade basis g =
     (if grade = Unknown \<or> qg_published g = Some (grade, basis)
      then (g\<lparr>qg_candidate := None\<rparr>, False)
      else if qg_candidate g = Some (grade, basis)
      then (g\<lparr>qg_published := Some (grade, basis), qg_candidate := None\<rparr>, True)
      else (g\<lparr>qg_candidate := Some (grade, basis)\<rparr>, False))"

section \<open>Heartbeats\<close>

definition HEARTBEAT_LEN :: nat where "HEARTBEAT_LEN = 9"

datatype heartbeat_kind = Probe | Ack

record heartbeat_packet =
  hp_kind :: heartbeat_kind
  hp_challenge :: u64

definition heartbeat_body :: "heartbeat_packet \<Rightarrow> bytes" where
  "heartbeat_body p = (case hp_kind p of Probe \<Rightarrow> 1 | Ack \<Rightarrow> 2) # u64_be (hp_challenge p)"

definition encode_heartbeat :: "heartbeat_packet \<Rightarrow> nat \<Rightarrow> bytes result" where
  "encode_heartbeat p maximum_len = encode_game_control Heartbeat (heartbeat_body p) maximum_len"

definition decode_heartbeat :: "bytes \<Rightarrow> heartbeat_packet result" where
  "decode_heartbeat payload =
     (if length payload \<noteq> HEARTBEAT_LEN then Inl ProtocolError
      else if payload ! 0 = 1 then Inr \<lparr>hp_kind = Probe, hp_challenge = u64_from_be (drop 1 payload)\<rparr>
      else if payload ! 0 = 2 then Inr \<lparr>hp_kind = Ack, hp_challenge = u64_from_be (drop 1 payload)\<rparr>
      else Inl ProtocolError)"

record heartbeat_tracker =
  ht_interval :: duration
  ht_timeout :: duration
  ht_last_ack :: instant
  ht_last_inbound_probe :: "instant option"
  ht_pending :: "(u64 \<times> instant) option"
  ht_sample :: "quality_sample option"
  ht_gate :: quality_change_gate

text \<open>A \<^verbatim>\<open>Duration\<close> holds 64-bit seconds plus nanoseconds.\<close>

definition duration_max :: nat where
  "duration_max = 18446744073709551615999999999"

definition duration_sat_add :: "duration \<Rightarrow> duration \<Rightarrow> duration" where
  "duration_sat_add a b = min (a + b) duration_max"

definition hb_new :: "duration \<Rightarrow> duration \<Rightarrow> instant \<Rightarrow> heartbeat_tracker result" where
  "hb_new interval timeout now =
     (if interval = 0 \<or> timeout = 0 \<or> timeout < interval then Inl InvalidArgument
      else Inr \<lparr>ht_interval = interval, ht_timeout = timeout, ht_last_ack = now,
        ht_last_inbound_probe = None, ht_pending = None, ht_sample = None, ht_gate = gate_default\<rparr>)"

definition hb_should_probe :: "instant \<Rightarrow> heartbeat_tracker \<Rightarrow> bool" where
  "hb_should_probe now t \<longleftrightarrow> ht_pending t = None \<and> ht_interval t \<le> now - ht_last_ack t"

text \<open>The rate gate of incoming probes, shared with the clock tracker.\<close>

definition probe_admitted :: "duration \<Rightarrow> instant option \<Rightarrow> instant \<Rightarrow> bool" where
  "probe_admitted interval previous received_at \<longleftrightarrow>
     (case previous of
        None \<Rightarrow> True
      | Some l \<Rightarrow> (case checked_duration_since received_at l of
                     None \<Rightarrow> False | Some age \<Rightarrow> max (interval div 4) (millis 1) \<le> age))"

definition hb_admit_probe :: "instant \<Rightarrow> heartbeat_tracker \<Rightarrow> heartbeat_tracker \<times> bool" where
  "hb_admit_probe received_at t =
     (if probe_admitted (ht_interval t) (ht_last_inbound_probe t) received_at
      then (t\<lparr>ht_last_inbound_probe := Some received_at\<rparr>, True) else (t, False))"

definition hb_mark_sent :: "u64 \<Rightarrow> instant \<Rightarrow> heartbeat_tracker \<Rightarrow> heartbeat_tracker \<times> unit result" where
  "hb_mark_sent challenge now t =
     (if \<not> hb_should_probe now t then (t, Inl InvalidState)
      else (t\<lparr>ht_pending := Some (challenge, now)\<rparr>, Inr ()))"

definition next_sample :: "duration \<Rightarrow> quality_sample option \<Rightarrow> quality_sample" where
  "next_sample rtt previous =
     (case previous of
        None \<Rightarrow> \<lparr>qs_last_rtt = rtt, qs_smoothed_rtt = rtt, qs_jitter = 0, qs_samples = 1\<rparr>
      | Some p \<Rightarrow>
          (let delta = (if qs_last_rtt p \<le> rtt then rtt - qs_last_rtt p else qs_last_rtt p - rtt)
           in \<lparr>qs_last_rtt = rtt,
               qs_smoothed_rtt =
                 duration_sat_add (qs_smoothed_rtt p - qs_smoothed_rtt p div 8) (rtt div 8),
               qs_jitter = duration_sat_add (qs_jitter p - qs_jitter p div 16) (delta div 16),
               qs_samples = sat_add (qs_samples p) 1\<rparr>))"

definition hb_accept_ack ::
    "u64 \<Rightarrow> instant \<Rightarrow> instant \<Rightarrow> heartbeat_tracker \<Rightarrow> heartbeat_tracker \<times> quality_sample option" where
  "hb_accept_ack challenge received_at processed_at t =
     (case ht_pending t of
        None \<Rightarrow> (t, None)
      | Some (expected, sent_at) \<Rightarrow>
          (case checked_duration_since received_at sent_at of
             None \<Rightarrow> (t, None)
           | Some rtt \<Rightarrow>
               if checked_duration_since processed_at received_at = None \<or>
                  expected \<noteq> challenge \<or> ht_timeout t \<le> rtt
               then (t, None)
               else (let sample = next_sample rtt (ht_sample t)
                     in (t\<lparr>ht_pending := None, ht_last_ack := processed_at,
                           ht_sample := Some sample\<rparr>, Some sample))))"

definition hb_timed_out :: "instant \<Rightarrow> heartbeat_tracker \<Rightarrow> bool" where
  "hb_timed_out now t \<longleftrightarrow>
     (case ht_pending t of
        Some (_, sent_at) \<Rightarrow> ht_timeout t \<le> now - sent_at
      | None \<Rightarrow> duration_sat_add (ht_interval t) (ht_timeout t) \<le> now - ht_last_ack t)"

definition hb_quality_changed ::
    "quality_grade \<Rightarrow> quality_basis \<Rightarrow> heartbeat_tracker \<Rightarrow> heartbeat_tracker \<times> bool" where
  "hb_quality_changed grade basis t =
     (let (g, changed) = gate_observe grade basis (ht_gate t) in (t\<lparr>ht_gate := g\<rparr>, changed))"

section \<open>The history the gap tracker represents\<close>

text \<open>
  Positions are unwrapped: the position of a sequence number is the integer nearest to the highest
  position so far that is congruent to it modulo \<open>2 ^ 32\<close>. An epoch starts with the first datagram
  and after every implausible jump; totals of the finished epochs are kept.
\<close>

record udp_history =
  uh_start :: int
  uh_pos :: int
  uh_got :: "int set"
  uh_closed_expected :: nat
  uh_closed_received :: nat

definition epoch_length :: "udp_history \<Rightarrow> nat" where
  "epoch_length h = nat (uh_pos h - uh_start h + 1)"

definition history_observe :: "u32 \<Rightarrow> udp_history option \<Rightarrow> udp_history option \<times> udp_observation" where
  "history_observe sequence x =
     (case x of
        None \<Rightarrow> (Some \<lparr>uh_start = uint sequence, uh_pos = uint sequence, uh_got = {uint sequence},
                  uh_closed_expected = 0, uh_closed_received = 0\<rparr>, First)
      | Some h \<Rightarrow>
          let p = uh_pos h + sint (sequence - word_of_int (uh_pos h))
          in if p = uh_pos h then (Some h, Duplicate)
             else if uh_pos h + 4096 < p then
               (Some \<lparr>uh_start = p, uh_pos = p, uh_got = {p},
                  uh_closed_expected = uh_closed_expected h + epoch_length h,
                  uh_closed_received = uh_closed_received h + card (uh_got h)\<rparr>, Discontinuity)
             else if uh_pos h < p then (Some (h\<lparr>uh_pos := p, uh_got := insert p (uh_got h)\<rparr>), New)
             else if p \<le> uh_pos h - 64 \<or> p < uh_start h then (Some h, TooOld)
             else if p \<in> uh_got h then (Some h, Duplicate)
             else (Some (h\<lparr>uh_got := insert p (uh_got h)\<rparr>), Reordered))"

definition expected_total :: "udp_history \<Rightarrow> nat" where
  "expected_total h = uh_closed_expected h + epoch_length h"

definition received_total :: "udp_history \<Rightarrow> nat" where
  "received_total h = uh_closed_received h + card (uh_got h)"

definition recent_window :: "udp_history \<Rightarrow> int set" where
  "recent_window h = {max (uh_start h) (uh_pos h - 63) .. uh_pos h}"

fun tracks :: "udp_loss_tracker \<Rightarrow> udp_history option \<Rightarrow> bool" where
  "tracks t None \<longleftrightarrow> t = udp_tracker_default"
| "tracks t (Some h) \<longleftrightarrow>
     ut_highest t = Some (word_of_int (uh_pos h)) \<and>
     uh_start h \<le> uh_pos h \<and> uh_got h \<subseteq> {uh_start h .. uh_pos h} \<and> uh_pos h \<in> uh_got h \<and>
     (\<forall>i < 64. bit (ut_seen t) i \<longleftrightarrow> uh_pos h - int i \<in> uh_got h) \<and>
     ut_span t = min (epoch_length h) u64_max \<and>
     ut_expected t = min (expected_total h) u64_max \<and>
     ut_received t = min (received_total h) u64_max"

lemma sint_u32: "sint (w :: u32) = (if uint w < 2 ^ 31 then uint w else uint w - 2 ^ 32)"
proof -
  have "sint w = (uint w + 2 ^ 31) mod 2 ^ 32 - 2 ^ 31"
    using int_word_sint [of "uint w", where ?'a = 32] by simp
  moreover have "0 \<le> uint w" "uint w < 2 ^ 32" using uint_lt2p [of w] by simp_all
  moreover have "(uint w + 2 ^ 31) mod 2 ^ 32 = (uint w - 2 ^ 31) mod 2 ^ 32"
    using mod_add_self2 [of "uint w - 2 ^ 31" "2 ^ 32"] by (simp add: add.commute)
  ultimately show ?thesis
    by (cases "uint w < 2 ^ 31") (simp_all add: mod_pos_pos_trivial)
qed

lemma offset_forward: "(w :: u32) < 2 ^ 31 \<longleftrightarrow> 0 \<le> sint w"
  using uint_lt2p [of w] by (simp add: sint_u32 word_less_def)

lemma offset_unat: "0 \<le> sint (w :: u32) \<Longrightarrow> unat w = nat (sint w)"
  using uint_lt2p [of w] by (auto simp: sint_u32 nat_uint_eq split: if_splits)

lemma offset_behind: "sint (w :: u32) < 0 \<Longrightarrow> unat (- w) = nat (- sint w)"
proof -
  assume neg: "sint w < 0"
  then have u: "\<not> uint w < 2 ^ 31" by (simp add: sint_u32 split: if_splits)
  moreover have "uint w mod 2 ^ 32 = uint w"
    using uint_lt2p [of w] by (intro mod_pos_pos_trivial) simp_all
  ultimately have "uint (- w) = 2 ^ 32 - uint w"
    by (auto simp: uint_word_ariths zmod_zminus1_eq_if)
  then show ?thesis using u by (simp add: sint_u32 flip: nat_uint_eq)
qed

lemma offset_zero: "sint (w :: u32) = 0 \<longleftrightarrow> w = 0"
  using uint_lt2p [of w] by (auto simp: sint_u32 uint_0_iff)

lemma position_word: "word_of_int (p + sint (s - word_of_int p)) = (s :: u32)"
  by simp

section \<open>The tracker follows the history\<close>

lemma tracksD:
  assumes "tracks t (Some h)"
  shows "ut_highest t = Some (word_of_int (uh_pos h))" "uh_start h \<le> uh_pos h"
    "uh_got h \<subseteq> {uh_start h .. uh_pos h}" "uh_pos h \<in> uh_got h" "finite (uh_got h)"
    "\<And>i. i < 64 \<Longrightarrow> bit (ut_seen t) i \<longleftrightarrow> uh_pos h - int i \<in> uh_got h"
    "ut_span t = min (epoch_length h) u64_max" "ut_expected t = min (expected_total h) u64_max"
    "ut_received t = min (received_total h) u64_max"
  using assms by (auto intro: finite_subset)

lemma sat_min: "sat_add (min a u64_max) b = min (a + b) u64_max"
  by (auto simp: sat_add_def min_def)

lemma and_push_bit_1: "i < 64 \<Longrightarrow> (w :: u64) AND push_bit i 1 \<noteq> 0 \<longleftrightarrow> bit w i"
proof -
  assume i: "i < 64"
  have "bit (w AND push_bit i 1) n \<longleftrightarrow> n = i \<and> bit w i" for n
    using i by (auto simp: bit_and_iff bit_exp_iff)
  then show ?thesis by (metis bit_eqI bit_0_eq bot_apply bot_bool_def)
qed

lemma tracks_first: "tracks (fst (udp_observe s udp_tracker_default)) (fst (history_observe s None))"
proof -
  have "bit (1 :: u64) i \<longleftrightarrow> i = 0" for i by (simp add: bit_1_iff)
  then show ?thesis
    by (simp add: udp_observe_def history_observe_def udp_tracker_default_def epoch_length_def
        expected_total_def received_total_def u64_max_def)
qed

lemma tracks_new:
  assumes t: "tracks t (Some h)" and p: "uh_pos h < p" "p \<le> uh_pos h + 4096"
    and n: "unat forward = nat (p - uh_pos h)"
  shows "tracks (t\<lparr>ut_highest := Some (word_of_int p),
      ut_seen := (if REORDER_WINDOW \<le> forward then 1 else push_bit (unat forward) (ut_seen t) OR 1),
      ut_span := sat_add (ut_span t) (unat forward),
      ut_expected := sat_add (ut_expected t) (unat forward),
      ut_received := sat_add (ut_received t) 1\<rparr>) (Some (h\<lparr>uh_pos := p, uh_got := insert p (uh_got h)\<rparr>))"
proof -
  note d = tracksD [OF t]
  have fresh: "p \<notin> uh_got h" using d(3) p(1) by auto
  have w: "REORDER_WINDOW \<le> forward \<longleftrightarrow> 64 \<le> nat (p - uh_pos h)"
    unfolding n [symmetric] by (simp add: REORDER_WINDOW_def word_le_nat_alt)
  have gone: "p - int i \<notin> uh_got h" if "i < nat (p - uh_pos h)" for i
    using subsetD [OF d(3), of "p - int i"] that p(1) by auto
  have bits: "bit (if REORDER_WINDOW \<le> forward then 1 else push_bit (unat forward) (ut_seen t) OR 1) i
      \<longleftrightarrow> p - int i \<in> insert p (uh_got h)" if i: "i < 64" for i
  proof (cases "nat (p - uh_pos h) \<le> i")
    case True
    have "uh_pos h - int (i - nat (p - uh_pos h)) = p - int i" using True p(1) by simp
    then show ?thesis
      using True i p(1) d(6) [of "i - nat (p - uh_pos h)"]
      by (auto simp: w n bit_or_iff bit_push_bit_iff bit_1_iff)
  next
    case False
    then show ?thesis
      using i gone [of i] by (auto simp: w n bit_or_iff bit_push_bit_iff bit_1_iff)
  qed
  have len: "epoch_length (h\<lparr>uh_pos := p, uh_got := insert p (uh_got h)\<rparr>) =
      epoch_length h + nat (p - uh_pos h)"
    using p(1) d(2) by (simp add: epoch_length_def)
  show ?thesis
    using d p(1) fresh len bits
    by (auto simp: n sat_min expected_total_def received_total_def add.assoc)
qed

lemma tracks_reordered:
  assumes t: "tracks t (Some h)" and p: "uh_start h \<le> p" "uh_pos h - 64 < p" "p < uh_pos h"
    and new: "p \<notin> uh_got h" and n: "n = nat (uh_pos h - p)"
  shows "tracks (t\<lparr>ut_seen := ut_seen t OR push_bit n 1, ut_received := sat_add (ut_received t) 1,
      ut_reordered := r\<rparr>) (Some (h\<lparr>uh_got := insert p (uh_got h)\<rparr>))"
proof -
  note d = tracksD [OF t]
  have bits: "bit (ut_seen t OR push_bit n 1) i \<longleftrightarrow> uh_pos h - int i \<in> insert p (uh_got h)" if "i < 64" for i
    using that d(6) [OF that] p n by (auto simp: bit_or_iff bit_exp_iff)
  show ?thesis
    using d bits p new
    by (auto simp: sat_min expected_total_def received_total_def epoch_length_def)
qed

lemma observe_tracks:
  assumes "tracks t x"
  shows "snd (udp_observe s t) = snd (history_observe s x) \<and>
    tracks (fst (udp_observe s t)) (fst (history_observe s x))"
proof (cases x)
  case None
  then show ?thesis
    using assms tracks_first
    by (simp add: udp_observe_def history_observe_def udp_tracker_default_def)
next
  case (Some h)
  have t: "tracks t (Some h)" using assms Some by simp
  note d = tracksD [OF t]
  define w where "w = s - word_of_int (uh_pos h)"
  define p where "p = uh_pos h + sint w"
  have sp: "s = word_of_int p" unfolding p_def w_def by (rule position_word [symmetric])
  have wp: "sint w = p - uh_pos h" by (simp add: p_def)
  have fwd: "w < 2 ^ 31 \<longleftrightarrow> uh_pos h \<le> p" "w = 0 \<longleftrightarrow> p = uh_pos h"
    "uh_pos h \<le> p \<Longrightarrow> unat w = nat (p - uh_pos h)" "p < uh_pos h \<Longrightarrow> unat (- w) = nat (uh_pos h - p)"
    using offset_forward [of w] offset_zero [of w] offset_unat [of w] offset_behind [of w] wp by auto
  have obs: "history_observe s x =
      (if p = uh_pos h then (Some h, Duplicate)
       else if uh_pos h + 4096 < p then
         (Some \<lparr>uh_start = p, uh_pos = p, uh_got = {p},
            uh_closed_expected = uh_closed_expected h + epoch_length h,
            uh_closed_received = uh_closed_received h + card (uh_got h)\<rparr>, Discontinuity)
       else if uh_pos h < p then (Some (h\<lparr>uh_pos := p, uh_got := insert p (uh_got h)\<rparr>), New)
       else if p \<le> uh_pos h - 64 \<or> p < uh_start h then (Some h, TooOld)
       else if p \<in> uh_got h then (Some h, Duplicate)
       else (Some (h\<lparr>uh_got := insert p (uh_got h)\<rparr>), Reordered))"
    using Some by (simp add: history_observe_def Let_def p_def w_def)
  have bh: "word_of_int (uh_pos h) - s = - w" by (simp add: w_def)
  note run = udp_observe_def [of s t, unfolded d(1) option.case Let_def bh, folded w_def]
  have gap: "MAX_FORWARD_GAP < w \<longleftrightarrow> uh_pos h + 4096 < p" if "uh_pos h < p"
    using fwd(3) that by (auto simp: MAX_FORWARD_GAP_def word_less_nat_alt)
  consider "p = uh_pos h" | "uh_pos h + 4096 < p" | "uh_pos h < p" "p \<le> uh_pos h + 4096" | "p < uh_pos h"
    by linarith
  then show ?thesis
  proof cases
    case 1
    then show ?thesis using t fwd by (simp add: run obs)
  next
    case 2
    have one: "bit (1 :: u64) i \<longleftrightarrow> i = 0" "min (Suc 0) u64_max = Suc 0" for i
      by (simp_all add: bit_1_iff u64_max_def)
    show ?thesis
      unfolding run obs using 2 fwd gap d(8,9) one
      by (simp add: sp sat_min epoch_length_def expected_total_def received_total_def)
  next
    case 3
    then have "\<not> MAX_FORWARD_GAP < w" "w \<noteq> 0" "w < 2 ^ 31" using gap fwd by auto
    then show ?thesis
      using 3 tracks_new [OF t 3 fwd(3)] by (simp add: run obs) (simp add: sp)
  next
    case 4
    then have w: "\<not> w < 2 ^ 31" "w \<noteq> 0" and n: "unat (- w) = nat (uh_pos h - p)" using fwd by auto
    have old: "REORDER_WINDOW \<le> - w \<or> ut_span t \<le> unat (- w) \<longleftrightarrow> p \<le> uh_pos h - 64 \<or> p < uh_start h"
      using 4 n d(2,7) by (auto simp: REORDER_WINDOW_def word_le_nat_alt epoch_length_def u64_max_def min_def)
    have seen: "ut_seen t AND push_bit (unat (- w)) 1 \<noteq> 0 \<longleftrightarrow> p \<in> uh_got h" if "uh_pos h - 64 < p"
      using that 4 n and_push_bit_1 [of "unat (- w)" "ut_seen t"] d(6) [of "unat (- w)"] by auto
    show ?thesis
      using 4 w old seen t tracks_reordered [OF t _ _ 4 _ n] unfolding run obs by auto
  qed
qed

interpretation udp: simulation udp_observe history_observe tracks
  by unfold_locales (rule observe_tracks)

lemma count_ones_card:
  assumes "\<And>i. i < 64 \<Longrightarrow> bit w i \<longleftrightarrow> P i"
  shows "count_ones w = card {i. i < 64 \<and> P i}"
proof -
  have "count_ones w = card (set (filter (bit w) [0 ..< 64]))"
    unfolding count_ones_def by (rule distinct_card [symmetric]) simp
  moreover have "set (filter (bit w) [0 ..< 64]) = {i. i < 64 \<and> P i}" using assms by auto
  ultimately show ?thesis by simp
qed

lemma tracks_recent:
  assumes "tracks t (Some h)"
  shows "count_ones (ut_seen t) = card (recent_window h \<inter> uh_got h)"
    and "min (ut_span t) 64 = card (recent_window h)"
proof -
  note d = tracksD [OF assms]
  let ?I = "{i :: nat. i < 64 \<and> uh_pos h - int i \<in> uh_got h}"
  have "recent_window h \<inter> uh_got h = (\<lambda>i. uh_pos h - int i) ` ?I"
  proof
    show "recent_window h \<inter> uh_got h \<subseteq> (\<lambda>i. uh_pos h - int i) ` ?I"
    proof
      fix p
      assume "p \<in> recent_window h \<inter> uh_got h"
      then show "p \<in> (\<lambda>i. uh_pos h - int i) ` ?I"
        by (intro image_eqI [of _ _ "nat (uh_pos h - p)"]) (auto simp: recent_window_def)
    qed
  qed (use d(3) in \<open>auto simp: recent_window_def\<close>)
  moreover have "inj_on (\<lambda>i. uh_pos h - int i) ?I" by (auto intro: inj_onI)
  ultimately have "card (recent_window h \<inter> uh_got h) = card ?I" by (simp add: card_image)
  then show "count_ones (ut_seen t) = card (recent_window h \<inter> uh_got h)"
    using count_ones_card [OF d(6)] by simp
  show "min (ut_span t) 64 = card (recent_window h)"
    using d(2,7) by (auto simp: recent_window_def epoch_length_def u64_max_def min_def max_def)
qed

section \<open>Properties\<close>

text \<open>
  C25. The UDP gap tracker is exact: for any sequence of received sequence numbers, wrap-around
  included, each arrival is classified by its unwrapped position, the totals are the positions spanned and
  the distinct positions received, and the recent loss counts exactly the positions among the last
  64 of the current epoch that have not arrived, as a ratio of at most 1000.
\<close>

theorem udp_loss_exact:
  assumes "fst (run_out history_observe sequences None) = Some h"
    and "t = fst (run_out udp_observe sequences udp_tracker_default)"
  shows "snd (run_out udp_observe sequences udp_tracker_default) =
      snd (run_out history_observe sequences None) \<and>
    us_expected (udp_snapshot t) = min (expected_total h) u64_max \<and>
    us_received (udp_snapshot t) = min (received_total h) u64_max \<and>
    unat (us_recent_expected (udp_snapshot t)) = card (recent_window h) \<and>
    unat (us_recent_missing (udp_snapshot t)) = card (recent_window h - uh_got h) \<and>
    unat (us_recent_loss_per_mille (udp_snapshot t)) =
      1000 * card (recent_window h - uh_got h) div card (recent_window h) \<and>
    us_recent_loss_per_mille (udp_snapshot t) \<le> 1000"
proof -
  have run: "snd (run_out udp_observe sequences udp_tracker_default) =
      snd (run_out history_observe sequences None)" and t: "tracks t (Some h)"
    using udp.run_sim [of udp_tracker_default None sequences] assms by simp_all
  note d = tracksD [OF t]
  let ?e = "card (recent_window h)" and ?m = "card (recent_window h - uh_got h)"
  have fin: "finite (recent_window h)" by (simp add: recent_window_def)
  have e: "?e \<le> 64" "0 < ?e" using d(2) by (auto simp: recent_window_def)
  have le: "card (recent_window h \<inter> uh_got h) \<le> ?e" by (rule card_mono) (use fin in auto)
  have m: "?e - min (count_ones (ut_seen t)) ?e = ?m"
    using card_Int_Diff [OF fin, of "uh_got h"] le tracks_recent(1) [OF t] by simp
  have "?m \<le> ?e" using m by simp
  then have ratio: "1000 * ?m div ?e \<le> 1000"
    using e(2) div_le_mono [of "1000 * ?m" "1000 * ?e" ?e] by simp
  have small: "min (?m * 1000) u64_max = 1000 * ?m" using \<open>?m \<le> ?e\<close> e(1) by (simp add: u64_max_def)
  have u8: "unat (word_of_nat x :: u8) = x" if "x \<le> 64" for x
    using that by (simp add: unat_of_nat)
  have u16: "unat (word_of_nat x :: u16) = x" if "x \<le> 1000" for x
    using that by (simp add: unat_of_nat)
  show ?thesis
    using run d(8,9) u8 [OF e(1)] u8 [of ?m] u16 [OF ratio] ratio \<open>?m \<le> ?e\<close> e
    unfolding udp_snapshot_def Let_def tracks_recent(2) [OF t] m small by (simp add: word_le_nat_alt)
qed

theorem udp_loss_exact_witness:
  "\<exists>h t. fst (run_out history_observe [4294967295, 1, 0] None) = Some h \<and>
     t = fst (run_out udp_observe [4294967295, 1, 0] udp_tracker_default) \<and>
     unat (us_recent_missing (udp_snapshot t)) = 0 \<and> unat (us_recent_expected (udp_snapshot t)) = 3"
proof -
  define h where "h = \<lparr>uh_start = 4294967295, uh_pos = 4294967297,
    uh_got = {4294967296, 4294967297, 4294967295}, uh_closed_expected = 0, uh_closed_received = 0\<rparr>"
  have h: "fst (run_out history_observe [4294967295, 1, 0] None) = Some h"
    by (simp add: history_observe_def Let_def sint_u32 h_def)
  have w: "recent_window h = {4294967295 .. 4294967297}" by (simp add: recent_window_def h_def)
  have "recent_window h - uh_got h = {}" unfolding w by (auto simp: h_def)
  then show ?thesis using udp_loss_exact [OF h refl] h by (simp add: w)
qed

end
