(* ===== verification/Range_State.thy ===== *)
theory Range_State
  imports Tables Session_Quality Tcp_Session
begin

text \<open>
  The state of version negotiation and the staging of public events, \<^verbatim>\<open>rnet-game/src/range_state.rs\<close>,
  with the game events of \<^verbatim>\<open>rnet-game/src/event.rs\<close>. Early business data waits in its session until
  the session is ready and is then queued behind the readiness event, still charged to the budget.
  The theorems: both budgets are exact and bounded, and a ready session's events reach the
  application as the readiness event followed by every accepted message in order of arrival.
\<close>

section \<open>Game events\<close>

record game_message =
  gm_endpoint :: handle
  gm_session :: handle
  gm_sequence :: "u32 option"
  gm_tick :: "u32 option"
  gm_correlation_id :: u64
  gm_payload :: bytes

datatype game_event =
  RuntimeStarted
| EndpointOpened handle
| EndpointError handle error_code
| AuthRequest handle handle bytes bytes u64 u64
| ResumeRequest handle handle handle bytes bytes bytes u64 u64
| ProtocolRejected handle handle error_code
| SessionReady handle handle
| SessionResumed handle handle handle
| ResumeTicket handle handle bytes
| SessionClosed handle handle error_code
| Message game_message
| Writable handle handle
| JoinFailed handle handle error_code
| SecurityChanged handle handle bool u64 security_operation
| QualityChanged handle handle network_quality
| ProtocolViolation handle handle
| RuntimeStopped

section \<open>Negotiation state\<close>

definition SELECT :: u8 where "SELECT = 1"
definition ACK :: u8 where "ACK = 2"
definition READY :: u8 where "READY = 3"
definition RANGE_CONTROL_LEN :: nat where "RANGE_CONTROL_LEN = 37"
definition RETRY_INTERVAL :: duration where "RETRY_INTERVAL = millis 100"
definition NEGOTIATION_TIMEOUT :: duration where "NEGOTIATION_TIMEOUT = secs 3"
definition MAX_BUFFERED_MESSAGES :: nat where "MAX_BUFFERED_MESSAGES = 32"
definition MAX_BUFFERED_BYTES :: nat where "MAX_BUFFERED_BYTES = 256 * 1024"

record range_buffer_snapshot =
  bs_buffered_messages :: nat
  bs_buffered_bytes :: nat
  bs_peak_buffered_messages :: nat
  bs_peak_buffered_bytes :: nat
  bs_max_buffered_messages :: nat
  bs_max_buffered_bytes :: nat
  bs_session_admission_rejected :: nat
  bs_runtime_admission_rejected :: nat

record client_pending =
  cp_protocol :: game_protocol
  cp_nonce :: bytes

datatype phase =
  ServerAwaitOpen | ServerAwaitAck | ServerReady | ClientAwaitSelect | ClientAwaitReady | ClientReady

record range_session =
  rg_endpoint :: handle
  rg_protocol :: game_protocol
  rg_nonce :: bytes
  rg_selected :: "u32 option"
  rg_server_handle :: handle
  rg_old_session :: "handle option"
  rg_server_resume :: bool
  rg_phase :: phase
  rg_deadline :: instant
  rg_next_retry :: instant
  rg_buffered :: "game_message list"
  rg_buffered_bytes :: nat

definition rg_control :: "u8 \<Rightarrow> range_session \<Rightarrow> bytes" where
  "rg_control operation st =
     [operation] @ rg_nonce st @ u64_be (protocol_id (rg_protocol st)) @
     u32_be (unwrap_or_default (rg_selected st)) @ u64_be (rg_server_handle st)"

record completed_event =
  ce_event :: game_event
  ce_reserved_bytes :: "nat option"

record range_state =
  rs_server_endpoints :: "(handle, game_protocol) table"
  rs_client_endpoints :: "(handle, client_pending) table"
  rs_sessions :: "(handle, range_session) table"
  rs_completed :: "completed_event list"
  rs_public_messages :: nat
  rs_public_bytes :: nat
  rs_max_buffered_messages :: nat
  rs_max_buffered_bytes :: nat
  rs_buffered_messages :: nat
  rs_buffered_bytes :: nat
  rs_peak_buffered_messages :: nat
  rs_peak_buffered_bytes :: nat
  rs_session_admission_rejected :: nat
  rs_runtime_admission_rejected :: nat

definition with_buffer_limits :: "nat \<Rightarrow> nat \<Rightarrow> range_state" where
  "with_buffer_limits max_messages max_bytes = \<lparr>rs_server_endpoints = fmempty,
     rs_client_endpoints = fmempty, rs_sessions = fmempty, rs_completed = [],
     rs_public_messages = 0, rs_public_bytes = 0, rs_max_buffered_messages = max_messages,
     rs_max_buffered_bytes = max_bytes, rs_buffered_messages = 0, rs_buffered_bytes = 0,
     rs_peak_buffered_messages = 0, rs_peak_buffered_bytes = 0,
     rs_session_admission_rejected = 0, rs_runtime_admission_rejected = 0\<rparr>"

definition rs_clear :: "range_state \<Rightarrow> range_state" where
  "rs_clear r = r\<lparr>rs_server_endpoints := fmempty, rs_client_endpoints := fmempty,
     rs_sessions := fmempty, rs_completed := [], rs_public_messages := 0, rs_public_bytes := 0,
     rs_buffered_messages := 0, rs_buffered_bytes := 0\<rparr>"

definition rs_forget_endpoint :: "handle \<Rightarrow> range_state \<Rightarrow> range_state" where
  "rs_forget_endpoint endpoint r =
     r\<lparr>rs_server_endpoints := fmdrop endpoint (rs_server_endpoints r),
       rs_client_endpoints := fmdrop endpoint (rs_client_endpoints r)\<rparr>"

definition rs_forget_failed_client_endpoint :: "handle \<Rightarrow> range_state \<Rightarrow> range_state" where
  "rs_forget_failed_client_endpoint endpoint r =
     r\<lparr>rs_client_endpoints := fmdrop endpoint (rs_client_endpoints r)\<rparr>"

fun public_payload_bytes :: "game_event \<Rightarrow> nat" where
  "public_payload_bytes (Message m) = length (gm_payload m)"
| "public_payload_bytes (AuthRequest _ _ _ join_ticket _ _) = length join_ticket"
| "public_payload_bytes (ResumeRequest _ _ _ identity _ join_ticket _ _) =
     length identity + length join_ticket"
| "public_payload_bytes (ResumeTicket _ _ ticket) = length ticket"
| "public_payload_bytes _ = 0"

fun event_belongs_to_session :: "game_event \<Rightarrow> handle \<Rightarrow> bool" where
  "event_belongs_to_session (Message m) s \<longleftrightarrow> gm_session m = s"
| "event_belongs_to_session (SessionReady _ r) s \<longleftrightarrow> r = s"
| "event_belongs_to_session (Writable _ r) s \<longleftrightarrow> r = s"
| "event_belongs_to_session (SecurityChanged _ r _ _ _) s \<longleftrightarrow> r = s"
| "event_belongs_to_session (QualityChanged _ r _) s \<longleftrightarrow> r = s"
| "event_belongs_to_session (ResumeTicket _ r _) s \<longleftrightarrow> r = s"
| "event_belongs_to_session (SessionResumed _ _ new) s \<longleftrightarrow> new = s"
| "event_belongs_to_session _ s \<longleftrightarrow> False"

definition rs_release_reservation :: "nat \<Rightarrow> nat \<Rightarrow> range_state \<Rightarrow> range_state" where
  "rs_release_reservation messages bytes r =
     r\<lparr>rs_buffered_messages := rs_buffered_messages r - messages,
       rs_buffered_bytes := rs_buffered_bytes r - bytes\<rparr>"

definition reserved_of :: "completed_event list \<Rightarrow> nat list" where
  "reserved_of cs = List.map_filter ce_reserved_bytes cs"

definition public_of :: "completed_event list \<Rightarrow> nat list" where
  "public_of cs = map (public_payload_bytes \<circ> ce_event) (filter (\<lambda>c. ce_reserved_bytes c = None) cs)"

definition rs_forget_session :: "handle \<Rightarrow> range_state \<Rightarrow> range_state" where
  "rs_forget_session session r =
     (let r1 = (case fmlookup (rs_sessions r) session of
                  None \<Rightarrow> r
                | Some st \<Rightarrow> rs_release_reservation (length (rg_buffered st)) (rg_buffered_bytes st)
                    (r\<lparr>rs_sessions := fmdrop session (rs_sessions r)\<rparr>));
          dropped = filter (\<lambda>c. event_belongs_to_session (ce_event c) session) (rs_completed r1);
          r2 = rs_release_reservation (length (reserved_of dropped)) (sum_list (reserved_of dropped))
            (r1\<lparr>rs_completed := filter (\<lambda>c. \<not> event_belongs_to_session (ce_event c) session)
                                     (rs_completed r1)\<rparr>)
      in r2\<lparr>rs_public_messages := rs_public_messages r2 - length (public_of dropped),
            rs_public_bytes := rs_public_bytes r2 - sum_list (public_of dropped)\<rparr>)"

definition rs_public_capacity :: "range_state \<Rightarrow> nat \<times> nat" where
  "rs_public_capacity r =
     (rs_max_buffered_messages r - rs_public_messages r, rs_max_buffered_bytes r - rs_public_bytes r)"

definition rs_release_completed :: "completed_event \<Rightarrow> range_state \<Rightarrow> range_state" where
  "rs_release_completed c r =
     (case ce_reserved_bytes c of
        Some bytes \<Rightarrow> rs_release_reservation 1 bytes r
      | None \<Rightarrow> r\<lparr>rs_public_messages := rs_public_messages r - 1,
                   rs_public_bytes := rs_public_bytes r - public_payload_bytes (ce_event c)\<rparr>)"

fun drain_loop ::
    "completed_event list \<Rightarrow> game_event list \<Rightarrow> nat \<Rightarrow> range_state \<Rightarrow> range_state \<times> game_event list" where
  "drain_loop [] output capacity r = (r\<lparr>rs_completed := []\<rparr>, output)"
| "drain_loop (c # cs) output capacity r =
     (if length output < capacity
      then drain_loop cs (output @ [ce_event c]) capacity (rs_release_completed c r)
      else (r\<lparr>rs_completed := c # cs\<rparr>, output))"

definition rs_drain_completed ::
    "game_event list \<Rightarrow> nat \<Rightarrow> range_state \<Rightarrow> range_state \<times> game_event list" where
  "rs_drain_completed output capacity r = drain_loop (rs_completed r) output capacity r"

fun ready_session :: "game_event \<Rightarrow> handle option" where
  "ready_session (SessionReady _ s) = Some s"
| "ready_session (SessionResumed _ _ new) = Some new"
| "ready_session _ = None"

fun is_message_of :: "handle \<Rightarrow> game_event \<Rightarrow> bool" where
  "is_message_of s (Message m) \<longleftrightarrow> gm_session m = s"
| "is_message_of s _ \<longleftrightarrow> False"

definition insert_at :: "nat \<Rightarrow> 'a \<Rightarrow> 'a list \<Rightarrow> 'a list" where
  "insert_at i x xs = take i xs @ x # drop i xs"

definition insertion_index :: "game_event \<Rightarrow> completed_event list \<Rightarrow> nat option" where
  "insertion_index event cs =
     (case ready_session event of
        None \<Rightarrow> None
      | Some s \<Rightarrow> position (\<lambda>c. is_message_of s (ce_event c)) cs)"

definition rs_queue_public ::
    "game_event \<Rightarrow> game_event list \<Rightarrow> nat \<Rightarrow> range_state \<Rightarrow> range_state \<times> game_event list \<times> bool" where
  "rs_queue_public event output capacity r =
     (let deferred = (capacity \<le> length output \<or> rs_completed r \<noteq> []);
          (r1, output1) =
            (if \<not> deferred then (r, output @ [event])
             else
               let completed = \<lparr>ce_event = event, ce_reserved_bytes = None\<rparr>;
                   r0 = r\<lparr>rs_public_messages := rs_public_messages r + 1,
                          rs_public_bytes := rs_public_bytes r + public_payload_bytes event\<rparr>
               in (r0\<lparr>rs_completed :=
                       (case insertion_index event (rs_completed r) of
                          Some index \<Rightarrow> insert_at index completed (rs_completed r)
                        | None \<Rightarrow> rs_completed r @ [completed])\<rparr>, output));
          (r2, output2) = rs_drain_completed output1 capacity r1
      in (r2, output2, deferred))"

definition phase_ready :: "phase \<Rightarrow> bool" where
  "phase_ready p \<longleftrightarrow> p = ServerReady \<or> p = ClientReady"

definition rs_buffer_message :: "game_message \<Rightarrow> range_state \<Rightarrow> range_state \<times> game_event option result" where
  "rs_buffer_message m r =
     (case fmlookup (rs_sessions r) (gm_session m) of
        None \<Rightarrow> (r, Inr (Some (Message m)))
      | Some st \<Rightarrow>
          if phase_ready (rg_phase st) then (r, Inr (Some (Message m)))
          else
            let message_bytes = length (gm_payload m);
                reject_session = (r\<lparr>rs_session_admission_rejected :=
                    sat_add (rs_session_admission_rejected r) 1\<rparr>, Inl ProtocolError);
                reject_runtime = (r\<lparr>rs_runtime_admission_rejected :=
                    sat_add (rs_runtime_admission_rejected r) 1\<rparr>, Inl ProtocolError)
            in case checked_add (rg_buffered_bytes st) message_bytes of
                 None \<Rightarrow> reject_session
               | Some session_bytes \<Rightarrow>
                   if MAX_BUFFERED_MESSAGES \<le> length (rg_buffered st) \<or> MAX_BUFFERED_BYTES < session_bytes
                   then reject_session
                   else case checked_add (rs_buffered_messages r) 1 of
                     None \<Rightarrow> reject_runtime
                   | Some runtime_messages \<Rightarrow>
                       (case checked_add (rs_buffered_bytes r) message_bytes of
                          None \<Rightarrow> reject_runtime
                        | Some runtime_bytes \<Rightarrow>
                            if rs_max_buffered_messages r < runtime_messages \<or>
                               rs_max_buffered_bytes r < runtime_bytes
                            then reject_runtime
                            else (r\<lparr>rs_buffered_messages := runtime_messages,
                                    rs_buffered_bytes := runtime_bytes,
                                    rs_peak_buffered_messages :=
                                      max (rs_peak_buffered_messages r) runtime_messages,
                                    rs_peak_buffered_bytes :=
                                      max (rs_peak_buffered_bytes r) runtime_bytes,
                                    rs_sessions := fmupd (gm_session m)
                                      (st\<lparr>rg_buffered_bytes := session_bytes,
                                          rg_buffered := rg_buffered st @ [m]\<rparr>) (rs_sessions r)\<rparr>,
                                  Inr None)))"

definition rs_snapshot :: "range_state \<Rightarrow> range_buffer_snapshot" where
  "rs_snapshot r = \<lparr>bs_buffered_messages = rs_buffered_messages r,
     bs_buffered_bytes = rs_buffered_bytes r,
     bs_peak_buffered_messages = rs_peak_buffered_messages r,
     bs_peak_buffered_bytes = rs_peak_buffered_bytes r,
     bs_max_buffered_messages = rs_max_buffered_messages r,
     bs_max_buffered_bytes = rs_max_buffered_bytes r,
     bs_session_admission_rejected = rs_session_admission_rejected r,
     bs_runtime_admission_rejected = rs_runtime_admission_rejected r\<rparr>"

definition rs_complete_buffered :: "handle \<Rightarrow> range_state \<Rightarrow> range_state" where
  "rs_complete_buffered session r =
     (case fmlookup (rs_sessions r) session of
        None \<Rightarrow> r
      | Some st \<Rightarrow> r\<lparr>rs_sessions := fmupd session (st\<lparr>rg_buffered_bytes := 0, rg_buffered := []\<rparr>)
                       (rs_sessions r),
                     rs_completed := rs_completed r @
                       map (\<lambda>m. \<lparr>ce_event = Message m,
                                 ce_reserved_bytes = Some (length (gm_payload m))\<rparr>) (rg_buffered st)\<rparr>)"

fun retry_operation :: "phase \<Rightarrow> u8 option" where
  "retry_operation ServerAwaitAck = Some SELECT"
| "retry_operation ClientAwaitReady = Some ACK"
| "retry_operation _ = None"

definition due_session ::
    "instant \<Rightarrow> handle \<Rightarrow> range_session \<Rightarrow>
     range_session \<times> (handle \<times> bytes) list \<times> handle list" where
  "due_session now session st =
     (case retry_operation (rg_phase st) of
        None \<Rightarrow> (st, [], if rg_phase st = ClientAwaitSelect \<and> rg_deadline st \<le> now then [session] else [])
      | Some operation \<Rightarrow>
          if rg_deadline st \<le> now then (st, [], [session])
          else if rg_next_retry st \<le> now
          then (let st' = st\<lparr>rg_next_retry := now + RETRY_INTERVAL\<rparr>
                in (st', [(session, rg_control operation st')], []))
          else (st, [], []))"

fun due_loop ::
    "instant \<Rightarrow> handle list \<Rightarrow> range_state \<Rightarrow> range_state \<times> (handle \<times> bytes) list \<times> handle list" where
  "due_loop now [] r = (r, [], [])"
| "due_loop now (s # ss) r =
     (case fmlookup (rs_sessions r) s of
        None \<Rightarrow> due_loop now ss r
      | Some st \<Rightarrow>
          let (st', retries, expired) = due_session now s st;
              (r', retries', expired') = due_loop now ss (r\<lparr>rs_sessions := fmupd s st' (rs_sessions r)\<rparr>)
          in (r', retries @ retries', expired @ expired'))"

definition rs_due_controls ::
    "instant \<Rightarrow> range_state \<Rightarrow> range_state \<times> (handle \<times> bytes) list \<times> handle list" where
  "rs_due_controls now r = due_loop now (table_keys (rs_sessions r)) r"

section \<open>Exact budgets\<close>

definition session_ok :: "range_session \<Rightarrow> bool" where
  "session_ok st \<longleftrightarrow>
     rg_buffered_bytes st = sum_list (map (length \<circ> gm_payload) (rg_buffered st)) \<and>
     length (rg_buffered st) \<le> MAX_BUFFERED_MESSAGES \<and> rg_buffered_bytes st \<le> MAX_BUFFERED_BYTES"

definition sessions_ok :: "range_state \<Rightarrow> bool" where
  "sessions_ok r \<longleftrightarrow> (\<forall>s st. fmlookup (rs_sessions r) s = Some st \<longrightarrow> session_ok st)"

definition waiting_messages :: "range_state \<Rightarrow> nat" where
  "waiting_messages r = table_sum (\<lambda>st. length (rg_buffered st)) (rs_sessions r)"

definition waiting_bytes :: "range_state \<Rightarrow> nat" where
  "waiting_bytes r = table_sum rg_buffered_bytes (rs_sessions r)"

text \<open>The counters against a completed queue \<open>cs\<close>, which the draining loop holds apart.\<close>

definition early_exact :: "completed_event list \<Rightarrow> range_state \<Rightarrow> bool" where
  "early_exact cs r \<longleftrightarrow>
     rs_buffered_messages r = waiting_messages r + length (reserved_of cs) \<and>
     rs_buffered_bytes r = waiting_bytes r + sum_list (reserved_of cs)"

definition public_exact :: "completed_event list \<Rightarrow> range_state \<Rightarrow> bool" where
  "public_exact cs r \<longleftrightarrow>
     rs_public_messages r = length (public_of cs) \<and> rs_public_bytes r = sum_list (public_of cs)"

definition rs_bounded :: "range_state \<Rightarrow> bool" where
  "rs_bounded r \<longleftrightarrow>
     rs_buffered_messages r \<le> rs_max_buffered_messages r \<and>
     rs_buffered_bytes r \<le> rs_max_buffered_bytes r \<and>
     rs_public_messages r \<le> rs_max_buffered_messages r \<and>
     rs_public_bytes r \<le> rs_max_buffered_bytes r"

definition wf_range :: "range_state \<Rightarrow> bool" where
  "wf_range r \<longleftrightarrow> early_exact (rs_completed r) r \<and> public_exact (rs_completed r) r \<and>
     rs_bounded r \<and> sessions_ok r"

lemma reserved_of_simps [simp]:
  "reserved_of [] = []"
  "reserved_of (c # cs) = (case ce_reserved_bytes c of None \<Rightarrow> [] | Some b \<Rightarrow> [b]) @ reserved_of cs"
  by (simp_all add: reserved_of_def split: option.split)

lemma reserved_of_append [simp]: "reserved_of (cs @ ds) = reserved_of cs @ reserved_of ds"
  by (induction cs) simp_all

lemma public_of_simps [simp]:
  "public_of [] = []"
  "public_of (c # cs) =
     (if ce_reserved_bytes c = None then [public_payload_bytes (ce_event c)] else []) @ public_of cs"
  "public_of (cs @ ds) = public_of cs @ public_of ds"
  by (auto simp: public_of_def)

lemma charge_split:
  "length (reserved_of cs) = length (reserved_of (filter P cs)) + length (reserved_of (filter (\<lambda>c. \<not> P c) cs))"
  "sum_list (reserved_of cs) = sum_list (reserved_of (filter P cs)) + sum_list (reserved_of (filter (\<lambda>c. \<not> P c) cs))"
  "length (public_of cs) = length (public_of (filter P cs)) + length (public_of (filter (\<lambda>c. \<not> P c) cs))"
  "sum_list (public_of cs) = sum_list (public_of (filter P cs)) + sum_list (public_of (filter (\<lambda>c. \<not> P c) cs))"
  by (induction cs) (auto split: option.split)

lemma waiting_cong:
  "rs_sessions r' = rs_sessions r \<Longrightarrow> waiting_messages r' = waiting_messages r \<and> waiting_bytes r' = waiting_bytes r"
  by (simp add: waiting_messages_def waiting_bytes_def)

lemma release_completed_sessions [simp]:
  "rs_sessions (rs_release_completed c r) = rs_sessions r"
  "rs_max_buffered_messages (rs_release_completed c r) = rs_max_buffered_messages r"
  "rs_max_buffered_bytes (rs_release_completed c r) = rs_max_buffered_bytes r"
  by (simp_all add: rs_release_completed_def rs_release_reservation_def split: option.split)

lemma release_completed_exact:
  assumes "early_exact (c # cs) r" and "public_exact (c # cs) r" and "rs_bounded r"
  shows "early_exact cs (rs_release_completed c r)" "public_exact cs (rs_release_completed c r)"
    "rs_bounded (rs_release_completed c r)"
  using assms waiting_cong [OF release_completed_sessions(1) [of c r]]
  by (auto simp: early_exact_def public_exact_def rs_bounded_def rs_release_completed_def
      rs_release_reservation_def split: option.splits)

lemma drain_loop_spec:
  assumes "drain_loop cs out capacity r = (r', out')"
    and "early_exact cs r" and "public_exact cs r" and "rs_bounded r"
  shows "early_exact (rs_completed r') r' \<and> public_exact (rs_completed r') r' \<and> rs_bounded r' \<and>
    rs_sessions r' = rs_sessions r \<and>
    rs_max_buffered_messages r' = rs_max_buffered_messages r \<and>
    rs_max_buffered_bytes r' = rs_max_buffered_bytes r \<and>
    out' @ map ce_event (rs_completed r') = out @ map ce_event cs"
  using assms
proof (induction cs out capacity r rule: drain_loop.induct)
  case (1 out capacity r)
  then show ?case
    by (auto simp: early_exact_def public_exact_def rs_bounded_def waiting_messages_def waiting_bytes_def)
next
  case (2 c cs out capacity r)
  show ?case
  proof (cases "length out < capacity")
    case True
    then show ?thesis
      using 2 release_completed_exact [of c cs r] by simp
  next
    case False
    then show ?thesis
      using 2(2-) by (auto simp: early_exact_def public_exact_def rs_bounded_def waiting_messages_def
          waiting_bytes_def)
  qed
qed

text \<open>Inserting a public event charges one slot wherever it lands.\<close>

lemma insert_at_charges:
  assumes "i \<le> length cs" and "ce_reserved_bytes c = None"
  shows "length (reserved_of (insert_at i c cs)) = length (reserved_of cs)"
    "sum_list (reserved_of (insert_at i c cs)) = sum_list (reserved_of cs)"
    "length (public_of (insert_at i c cs)) = Suc (length (public_of cs))"
    "sum_list (public_of (insert_at i c cs)) = public_payload_bytes (ce_event c) + sum_list (public_of cs)"
proof -
  have cs: "cs = take i cs @ drop i cs" by simp
  show "length (reserved_of (insert_at i c cs)) = length (reserved_of cs)"
    "sum_list (reserved_of (insert_at i c cs)) = sum_list (reserved_of cs)"
    "length (public_of (insert_at i c cs)) = Suc (length (public_of cs))"
    "sum_list (public_of (insert_at i c cs)) = public_payload_bytes (ce_event c) + sum_list (public_of cs)"
    by (subst (2) cs, simp add: insert_at_def assms(2) del: append_take_drop_id)+
qed

text \<open>Where the event goes when it cannot be handed out at once.\<close>

definition queued_at :: "game_event \<Rightarrow> completed_event list \<Rightarrow> nat" where
  "queued_at event cs = (case insertion_index event cs of None \<Rightarrow> length cs | Some i \<Rightarrow> i)"

lemma queued_at_le: "queued_at event cs \<le> length cs"
  by (auto simp: queued_at_def insertion_index_def dest: position_Some split: option.split)

lemma queued_at_insert:
  "(case insertion_index event cs of Some i \<Rightarrow> insert_at i c cs | None \<Rightarrow> cs @ [c]) =
     insert_at (queued_at event cs) c cs"
  by (simp add: queued_at_def insert_at_def split: option.split)

text \<open>What the transport was asked for before the event was taken from it.\<close>

definition public_room :: "game_event \<Rightarrow> range_state \<Rightarrow> bool" where
  "public_room event r \<longleftrightarrow>
     0 < fst (rs_public_capacity r) \<and> public_payload_bytes event \<le> snd (rs_public_capacity r)"

lemma queue_public_spec:
  assumes "rs_queue_public event out capacity r = (r', out', deferred)"
    and w: "wf_range r" and room: "public_room event r"
  shows "wf_range r' \<and> rs_sessions r' = rs_sessions r \<and>
    out' @ map ce_event (rs_completed r') =
      out @ map ce_event (take (queued_at event (rs_completed r)) (rs_completed r)) @
      event # map ce_event (drop (queued_at event (rs_completed r)) (rs_completed r)) \<and>
    rs_max_buffered_messages r' = rs_max_buffered_messages r \<and>
    rs_max_buffered_bytes r' = rs_max_buffered_bytes r"
proof (cases "capacity \<le> length out \<or> rs_completed r \<noteq> []")
  case False
  then have d: "rs_drain_completed (out @ [event]) capacity r = (r', out')" and "rs_completed r = []"
    using assms(1) by (auto simp: rs_queue_public_def Let_def split: prod.splits)
  then have "r' = r\<lparr>rs_completed := []\<rparr>" "out' = out @ [event]" by (auto simp: rs_drain_completed_def)
  then show ?thesis
    using w \<open>rs_completed r = []\<close>
    by (simp add: wf_range_def early_exact_def public_exact_def rs_bounded_def sessions_ok_def
        waiting_messages_def waiting_bytes_def)
next
  case True
  let ?i = "queued_at event (rs_completed r)"
  let ?c = "\<lparr>ce_event = event, ce_reserved_bytes = None\<rparr>"
  let ?cs = "insert_at ?i ?c (rs_completed r)"
  let ?r = "r\<lparr>rs_public_messages := rs_public_messages r + 1,
    rs_public_bytes := rs_public_bytes r + public_payload_bytes event, rs_completed := ?cs\<rparr>"
  have d: "drain_loop ?cs out capacity ?r = (r', out')"
    using assms(1) True
    by (simp add: rs_queue_public_def Let_def rs_drain_completed_def queued_at_insert split: prod.splits)
  note ch = insert_at_charges [OF queued_at_le, of ?c event "rs_completed r"]
  have pre: "early_exact ?cs ?r" "public_exact ?cs ?r" "rs_bounded ?r"
    using w room ch by (auto simp: wf_range_def early_exact_def public_exact_def rs_bounded_def
        public_room_def rs_public_capacity_def waiting_messages_def waiting_bytes_def)
  have "sessions_ok r' \<longleftrightarrow> sessions_ok r" if "rs_sessions r' = rs_sessions r"
    using that by (simp add: sessions_ok_def)
  then show ?thesis
    using drain_loop_spec [OF d pre] w by (auto simp: wf_range_def insert_at_def)
qed

lemma buffer_message_cases:
  assumes "wf_range r"
  shows "(\<exists>st st'. fmlookup (rs_sessions r) (gm_session m) = Some st \<and> \<not> phase_ready (rg_phase st) \<and>
        st' = st\<lparr>rg_buffered_bytes := rg_buffered_bytes st + length (gm_payload m),
                 rg_buffered := rg_buffered st @ [m]\<rparr> \<and>
        snd (rs_buffer_message m r) = Inr None \<and> wf_range (fst (rs_buffer_message m r)) \<and>
        rs_sessions (fst (rs_buffer_message m r)) = fmupd (gm_session m) st' (rs_sessions r) \<and>
        rs_completed (fst (rs_buffer_message m r)) = rs_completed r)
    \<or> (\<exists>st. fmlookup (rs_sessions r) (gm_session m) = Some st \<and> \<not> phase_ready (rg_phase st) \<and>
        snd (rs_buffer_message m r) = Inl ProtocolError \<and> wf_range (fst (rs_buffer_message m r)) \<and>
        rs_sessions (fst (rs_buffer_message m r)) = rs_sessions r \<and>
        rs_completed (fst (rs_buffer_message m r)) = rs_completed r \<and>
        rs_public_capacity (fst (rs_buffer_message m r)) = rs_public_capacity r)
    \<or> ((\<forall>st. fmlookup (rs_sessions r) (gm_session m) = Some st \<longrightarrow> phase_ready (rg_phase st)) \<and>
        rs_buffer_message m r = (r, Inr (Some (Message m))))"
proof (cases "fmlookup (rs_sessions r) (gm_session m)")
  case None
  then show ?thesis by (simp add: rs_buffer_message_def)
next
  case (Some st)
  show ?thesis
  proof (cases "phase_ready (rg_phase st)")
    case True
    then show ?thesis using Some by (simp add: rs_buffer_message_def)
  next
    case False
    let ?b = "length (gm_payload m)"
    let ?st = "st\<lparr>rg_buffered_bytes := rg_buffered_bytes st + ?b, rg_buffered := rg_buffered st @ [m]\<rparr>"
    have ok: "session_ok st" using assms Some by (simp add: wf_range_def sessions_ok_def)
    let ?fits = "rg_buffered_bytes st + ?b \<le> usize_max \<and> length (rg_buffered st) < MAX_BUFFERED_MESSAGES \<and>
      rg_buffered_bytes st + ?b \<le> MAX_BUFFERED_BYTES \<and> rs_buffered_messages r + 1 \<le> usize_max \<and>
      rs_buffered_bytes r + ?b \<le> usize_max \<and> rs_buffered_messages r + 1 \<le> rs_max_buffered_messages r \<and>
      rs_buffered_bytes r + ?b \<le> rs_max_buffered_bytes r"
    show ?thesis
    proof (cases ?fits)
      case True
      let ?r = "fst (rs_buffer_message m r)"
      have f: "snd (rs_buffer_message m r) = Inr None"
        "rs_sessions ?r = fmupd (gm_session m) ?st (rs_sessions r)" "rs_completed ?r = rs_completed r"
        "rs_buffered_messages ?r = rs_buffered_messages r + 1"
        "rs_buffered_bytes ?r = rs_buffered_bytes r + ?b" "rs_public_messages ?r = rs_public_messages r"
        "rs_public_bytes ?r = rs_public_bytes r" "rs_max_buffered_messages ?r = rs_max_buffered_messages r"
        "rs_max_buffered_bytes ?r = rs_max_buffered_bytes r"
        using True Some \<open>\<not> phase_ready (rg_phase st)\<close>
        by (simp_all add: rs_buffer_message_def checked_add_def Let_def)
      have "session_ok ?st" using ok True by (auto simp: session_ok_def)
      then have "sessions_ok ?r" using assms by (auto simp: sessions_ok_def wf_range_def f split: if_splits)
      moreover have "waiting_messages ?r = waiting_messages r + 1" "waiting_bytes ?r = waiting_bytes r + ?b"
        by (simp_all add: waiting_messages_def waiting_bytes_def f table_sum_remove [OF Some])
      ultimately have "wf_range ?r"
        using assms True by (auto simp: wf_range_def early_exact_def public_exact_def rs_bounded_def f)
      then show ?thesis using Some False f by blast
    next
      case nofit: False
      have "rs_buffer_message m r = (r\<lparr>rs_session_admission_rejected :=
            sat_add (rs_session_admission_rejected r) 1\<rparr>, Inl ProtocolError) \<or>
          rs_buffer_message m r = (r\<lparr>rs_runtime_admission_rejected :=
            sat_add (rs_runtime_admission_rejected r) 1\<rparr>, Inl ProtocolError)"
        using nofit Some False by (auto simp: rs_buffer_message_def checked_add_def Let_def)
      moreover have "wf_range (r\<lparr>rs_session_admission_rejected := a\<rparr>) \<and>
          wf_range (r\<lparr>rs_runtime_admission_rejected := a\<rparr>)" for a
        using assms by (simp add: wf_range_def early_exact_def public_exact_def rs_bounded_def
            sessions_ok_def waiting_messages_def waiting_bytes_def)
      ultimately show ?thesis using Some False by (auto simp: rs_public_capacity_def)
    qed
  qed
qed

lemma reserved_of_early:
  "reserved_of (map (\<lambda>m. \<lparr>ce_event = Message m, ce_reserved_bytes = Some (length (gm_payload m))\<rparr>) ms) =
     map (length \<circ> gm_payload) ms"
  by (induction ms) simp_all

lemma public_of_early:
  "public_of (map (\<lambda>m. \<lparr>ce_event = Message m, ce_reserved_bytes = Some (length (gm_payload m))\<rparr>) ms) = []"
  by (induction ms) simp_all

text \<open>Replacing a session by one with the same early data keeps the accounts.\<close>

lemma update_session_wf:
  assumes "wf_range r" and "fmlookup (rs_sessions r) s = Some st"
    and "rg_buffered st' = rg_buffered st" and "rg_buffered_bytes st' = rg_buffered_bytes st"
  shows "wf_range (r\<lparr>rs_sessions := fmupd s st' (rs_sessions r)\<rparr>)"
proof -
  have "session_ok st" using assms(1,2) by (simp add: wf_range_def sessions_ok_def)
  then have "session_ok st'" using assms(3,4) by (simp add: session_ok_def)
  then show ?thesis
    using assms
    by (auto simp: wf_range_def sessions_ok_def early_exact_def public_exact_def rs_bounded_def
        waiting_messages_def waiting_bytes_def table_sum_remove [OF assms(2)] split: if_splits)
qed

lemma add_session_wf:
  assumes "wf_range r" and "fmlookup (rs_sessions r) s = None"
    and "rg_buffered st = []" and "rg_buffered_bytes st = 0"
  shows "wf_range (r\<lparr>rs_sessions := fmupd s st (rs_sessions r)\<rparr>)"
proof -
  have "session_ok st" using assms(3,4) by (simp add: session_ok_def)
  then show ?thesis
    using assms
    by (auto simp: wf_range_def sessions_ok_def early_exact_def public_exact_def
        rs_bounded_def waiting_messages_def waiting_bytes_def fmdrop_absent split: if_splits)
qed

lemma complete_buffered_wf:
  assumes "wf_range r"
  shows "wf_range (rs_complete_buffered s r)"
proof (cases "fmlookup (rs_sessions r) s")
  case None
  then show ?thesis using assms by (simp add: rs_complete_buffered_def)
next
  case (Some st)
  let ?r = "rs_complete_buffered s r"
  have ok: "session_ok st" using assms Some by (simp add: wf_range_def sessions_ok_def)
  have f: "rs_sessions ?r = fmupd s (st\<lparr>rg_buffered_bytes := 0, rg_buffered := []\<rparr>) (rs_sessions r)"
    "rs_completed ?r = rs_completed r @ map (\<lambda>m. \<lparr>ce_event = Message m,
       ce_reserved_bytes = Some (length (gm_payload m))\<rparr>) (rg_buffered st)"
    using Some by (simp_all add: rs_complete_buffered_def)
  have "waiting_messages r = waiting_messages ?r + length (rg_buffered st)"
    "waiting_bytes r = waiting_bytes ?r + rg_buffered_bytes st"
    by (simp_all add: waiting_messages_def waiting_bytes_def f table_sum_remove [OF Some])
  moreover have "session_ok (st\<lparr>rg_buffered_bytes := 0, rg_buffered := []\<rparr>)" by (simp add: session_ok_def)
  then have "sessions_ok ?r"
    using assms by (auto simp: wf_range_def sessions_ok_def f split: if_splits)
  moreover have "rs_buffered_messages ?r = rs_buffered_messages r" "rs_buffered_bytes ?r = rs_buffered_bytes r"
    "rs_public_messages ?r = rs_public_messages r" "rs_public_bytes ?r = rs_public_bytes r"
    "rs_max_buffered_messages ?r = rs_max_buffered_messages r"
    "rs_max_buffered_bytes ?r = rs_max_buffered_bytes r"
    using Some by (simp_all add: rs_complete_buffered_def)
  ultimately show ?thesis
    using assms ok unfolding wf_range_def early_exact_def public_exact_def rs_bounded_def f(2)
    by (simp add: reserved_of_early public_of_early session_ok_def)
qed

lemma forget_session_wf:
  assumes "wf_range r"
  shows "wf_range (rs_forget_session s r)"
proof -
  define r1 where "r1 = (case fmlookup (rs_sessions r) s of
      None \<Rightarrow> r
    | Some st \<Rightarrow> rs_release_reservation (length (rg_buffered st)) (rg_buffered_bytes st)
        (r\<lparr>rs_sessions := fmdrop s (rs_sessions r)\<rparr>))"
  have w1: "wf_range r1"
  proof (cases "fmlookup (rs_sessions r) s")
    case (Some st)
    then have "rs_sessions r1 = fmdrop s (rs_sessions r)" "rs_completed r1 = rs_completed r"
      "rs_buffered_messages r1 = rs_buffered_messages r - length (rg_buffered st)"
      "rs_buffered_bytes r1 = rs_buffered_bytes r - rg_buffered_bytes st"
      "rs_public_messages r1 = rs_public_messages r" "rs_public_bytes r1 = rs_public_bytes r"
      "rs_max_buffered_messages r1 = rs_max_buffered_messages r"
      "rs_max_buffered_bytes r1 = rs_max_buffered_bytes r"
      by (simp_all add: r1_def rs_release_reservation_def)
    then show ?thesis
      using assms
      by (auto simp: wf_range_def sessions_ok_def early_exact_def public_exact_def rs_bounded_def
          waiting_messages_def waiting_bytes_def table_sum_remove [OF Some] split: if_splits)
  qed (use assms r1_def in simp)
  let ?P = "\<lambda>c. event_belongs_to_session (ce_event c) s"
  have "rs_forget_session s r = (let dropped = filter ?P (rs_completed r1);
      r2 = rs_release_reservation (length (reserved_of dropped)) (sum_list (reserved_of dropped))
        (r1\<lparr>rs_completed := filter (\<lambda>c. \<not> ?P c) (rs_completed r1)\<rparr>)
    in r2\<lparr>rs_public_messages := rs_public_messages r2 - length (public_of dropped),
          rs_public_bytes := rs_public_bytes r2 - sum_list (public_of dropped)\<rparr>)"
    by (simp add: rs_forget_session_def r1_def Let_def)
  then show ?thesis
    using w1 charge_split [of "rs_completed r1" ?P]
    by (simp add: Let_def rs_release_reservation_def wf_range_def sessions_ok_def early_exact_def
        public_exact_def rs_bounded_def waiting_messages_def waiting_bytes_def)
qed

lemma forget_session_fields:
  "rs_sessions (rs_forget_session s r) = fmdrop s (rs_sessions r)"
  "rs_completed (rs_forget_session s r) =
     filter (\<lambda>c. \<not> event_belongs_to_session (ce_event c) s) (rs_completed r)"
  by (auto simp: rs_forget_session_def rs_release_reservation_def Let_def fmdrop_absent split: option.split)

lemma due_session_fields:
  "due_session now s st = (st', retries, expired) \<Longrightarrow>
     rg_buffered st' = rg_buffered st \<and> rg_buffered_bytes st' = rg_buffered_bytes st \<and>
     rg_phase st' = rg_phase st"
  by (auto simp: due_session_def Let_def split: option.splits if_splits)

text \<open>The timer pass touches nothing but retry times.\<close>

lemma due_loop_spec:
  assumes "due_loop now ss r = (r', retries, expired)" and "wf_range r"
  shows "wf_range r' \<and> rs_completed r' = rs_completed r \<and>
    (\<forall>s. map_option (\<lambda>st. (rg_phase st, rg_buffered st)) (fmlookup (rs_sessions r') s) =
         map_option (\<lambda>st. (rg_phase st, rg_buffered st)) (fmlookup (rs_sessions r) s))"
  using assms
proof (induction now ss r arbitrary: r' retries expired rule: due_loop.induct)
  case (2 now s ss r)
  show ?case
  proof (cases "fmlookup (rs_sessions r) s")
    case (Some st)
    obtain st' re ex where d: "due_session now s st = (st', re, ex)" by (metis prod_cases3)
    let ?r = "r\<lparr>rs_sessions := fmupd s st' (rs_sessions r)\<rparr>"
    obtain re' ex' where l: "due_loop now ss ?r = (r', re', ex')"
      using 2(3) Some d by (auto simp: Let_def split: prod.splits)
    have f: "rg_buffered st' = rg_buffered st" "rg_buffered_bytes st' = rg_buffered_bytes st"
      "rg_phase st' = rg_phase st"
      using due_session_fields [OF d] by simp_all
    have w: "wf_range ?r" by (rule update_session_wf [OF 2(4) Some f(1,2)])
    show ?thesis
      using 2(2) [OF Some d [symmetric] refl refl l w] Some f by simp
  qed (use 2 in simp)
qed simp

section \<open>Staging as the poll loop uses it\<close>

text \<open>
  One runtime's staging under every sequence of calls. \<open>st_output\<close> is the vector of the poll in
  progress, \<open>st_delivered\<close> what earlier polls returned, \<open>st_received\<close> the messages accepted for each
  session and \<open>st_touched\<close> the session handles seen so far. A call that takes an event from the
  transport happens only when the transport was offered room for it.
\<close>

record staging =
  st_range :: range_state
  st_delivered :: "game_event list"
  st_output :: "game_event list"
  st_received :: "handle \<Rightarrow> game_message list"
  st_touched :: "handle set"

datatype staging_op =
  AdmitSession handle range_session
| AdjustSession handle range_session
| Arrive game_message nat
| PublishReady handle phase game_event nat
| OtherEvent game_event nat
| BeginPoll nat
| ForgetSession handle
| ForgetEndpoint handle
| ForgetFailedClient handle
| DueControls instant
| ClearRange

definition stage_public :: "game_event \<Rightarrow> nat \<Rightarrow> staging \<Rightarrow> staging" where
  "stage_public event capacity x =
     (let (r, out, deferred) = rs_queue_public event (st_output x) capacity (st_range x)
      in x\<lparr>st_range := r, st_output := out\<rparr>)"

fun staging_step :: "staging_op \<Rightarrow> staging \<Rightarrow> staging" where
  "staging_step (AdmitSession s st) x =
     (if s \<notin> st_touched x \<and> rg_buffered st = [] \<and> rg_buffered_bytes st = 0 \<and> \<not> phase_ready (rg_phase st)
      then x\<lparr>st_range := (st_range x)\<lparr>rs_sessions := fmupd s st (rs_sessions (st_range x))\<rparr>,
             st_touched := insert s (st_touched x)\<rparr>
      else x)"
| "staging_step (AdjustSession s st) x =
     (case fmlookup (rs_sessions (st_range x)) s of
        None \<Rightarrow> x
      | Some old \<Rightarrow>
          if \<not> phase_ready (rg_phase old) \<and> \<not> phase_ready (rg_phase st) then
            x\<lparr>st_range := (st_range x)\<lparr>rs_sessions := fmupd s
                (st\<lparr>rg_buffered := rg_buffered old, rg_buffered_bytes := rg_buffered_bytes old\<rparr>)
                (rs_sessions (st_range x))\<rparr>\<rparr>
          else x)"
| "staging_step (Arrive m capacity) x =
     (if public_room (Message m) (st_range x) then
        let (r, result) = rs_buffer_message m (st_range x);
            x1 = x\<lparr>st_range := r, st_touched := insert (gm_session m) (st_touched x)\<rparr>;
            x2 = x1\<lparr>st_received := (st_received x)(gm_session m := st_received x (gm_session m) @ [m])\<rparr>
        in (case result of
              Inr None \<Rightarrow> x2
            | Inr (Some event) \<Rightarrow> stage_public event capacity x2
            | Inl _ \<Rightarrow> stage_public (ProtocolViolation (gm_endpoint m) (gm_session m)) capacity x1)
      else x)"
| "staging_step (PublishReady s p event capacity) x =
     (case fmlookup (rs_sessions (st_range x)) s of
        None \<Rightarrow> x
      | Some st \<Rightarrow>
          if \<not> phase_ready (rg_phase st) \<and> phase_ready p \<and> ready_session event = Some s \<and>
             public_room event (st_range x)
          then stage_public event capacity (x\<lparr>st_range := rs_complete_buffered s
                 ((st_range x)\<lparr>rs_sessions := fmupd s (st\<lparr>rg_phase := p\<rparr>) (rs_sessions (st_range x))\<rparr>)\<rparr>)
          else x)"
| "staging_step (OtherEvent event capacity) x =
     (if ready_session event = None \<and> (\<forall>m. event \<noteq> Message m) \<and> public_room event (st_range x)
      then stage_public event capacity x else x)"
| "staging_step (BeginPoll capacity) x =
     (let (r, out) = rs_drain_completed [] capacity (st_range x)
      in x\<lparr>st_range := r, st_delivered := st_delivered x @ st_output x, st_output := out\<rparr>)"
| "staging_step (ForgetSession s) x = x\<lparr>st_range := rs_forget_session s (st_range x)\<rparr>"
| "staging_step (ForgetEndpoint e) x = x\<lparr>st_range := rs_forget_endpoint e (st_range x)\<rparr>"
| "staging_step (ForgetFailedClient e) x = x\<lparr>st_range := rs_forget_failed_client_endpoint e (st_range x)\<rparr>"
| "staging_step (DueControls now) x = x\<lparr>st_range := fst (rs_due_controls now (st_range x))\<rparr>"
| "staging_step ClearRange x = x\<lparr>st_range := rs_clear (st_range x)\<rparr>"

definition staging_new :: "nat \<Rightarrow> nat \<Rightarrow> staging" where
  "staging_new max_messages max_bytes = \<lparr>st_range = with_buffer_limits max_messages max_bytes,
     st_delivered = [], st_output = [], st_received = (\<lambda>_. []), st_touched = {}\<rparr>"

text \<open>What the application has seen and will see, and a session's part of it.\<close>

definition view :: "staging \<Rightarrow> game_event list" where
  "view x = st_delivered x @ st_output x @ map ce_event (rs_completed (st_range x))"

definition part :: "handle \<Rightarrow> game_event list \<Rightarrow> game_event list" where
  "part s es = filter (\<lambda>e. is_message_of s e \<or> ready_session e = Some s) es"

definition in_sequence :: "handle \<Rightarrow> staging \<Rightarrow> bool" where
  "in_sequence s x \<longleftrightarrow>
     (\<forall>m \<in> set (st_received x s). gm_session m = s) \<and>
     (s \<notin> st_touched x \<longrightarrow> part s (view x) = [] \<and> st_received x s = [] \<and>
        fmlookup (rs_sessions (st_range x)) s = None) \<and>
     (\<forall>st. fmlookup (rs_sessions (st_range x)) s = Some st \<longrightarrow>
        (if phase_ready (rg_phase st)
         then rg_buffered st = [] \<and> (\<exists>e. ready_session e = Some s \<and>
           part s (view x) = e # map Message (st_received x s))
         else part s (view x) = [] \<and> rg_buffered st = st_received x s))"

definition staging_ok :: "staging \<Rightarrow> bool" where
  "staging_ok x \<longleftrightarrow> wf_range (st_range x) \<and> (\<forall>s. in_sequence s x)"

lemma part_simps [simp]:
  "part s [] = []"
  "part s (e # es) = (if is_message_of s e \<or> ready_session e = Some s then [e] else []) @ part s es"
  "part s (es @ fs) = part s es @ part s fs"
  by (simp_all add: part_def)

lemma in_sequenceD:
  assumes "in_sequence s x"
  shows "\<forall>m \<in> set (st_received x s). gm_session m = s"
    "fmlookup (rs_sessions (st_range x)) s = Some st \<Longrightarrow> phase_ready (rg_phase st) \<Longrightarrow>
      rg_buffered st = [] \<and>
      (\<exists>e. ready_session e = Some s \<and> part s (view x) = e # map Message (st_received x s))"
    "fmlookup (rs_sessions (st_range x)) s = Some st \<Longrightarrow> \<not> phase_ready (rg_phase st) \<Longrightarrow>
      part s (view x) = [] \<and> rg_buffered st = st_received x s"
    "fmlookup (rs_sessions (st_range x)) s = Some st \<Longrightarrow> s \<in> st_touched x"
  using assms unfolding in_sequence_def by (simp, simp, simp, force)

lemma in_sequenceI:
  assumes "\<forall>m \<in> set (st_received x s). gm_session m = s" and "s \<in> st_touched x"
    and "\<And>st. fmlookup (rs_sessions (st_range x)) s = Some st \<Longrightarrow> phase_ready (rg_phase st) \<Longrightarrow>
      rg_buffered st = [] \<and>
      (\<exists>e. ready_session e = Some s \<and> part s (view x) = e # map Message (st_received x s))"
    and "\<And>st. fmlookup (rs_sessions (st_range x)) s = Some st \<Longrightarrow> \<not> phase_ready (rg_phase st) \<Longrightarrow>
      part s (view x) = [] \<and> rg_buffered st = st_received x s"
  shows "in_sequence s x"
  using assms unfolding in_sequence_def by simp

lemma in_sequence_cong:
  assumes "in_sequence s x" and "s \<in> st_touched x \<Longrightarrow> s \<in> st_touched x'"
    and "st_received x' s = st_received x s" and "part s (view x') = part s (view x)"
    and "map_option (\<lambda>st. (rg_phase st, rg_buffered st)) (fmlookup (rs_sessions (st_range x')) s) =
         map_option (\<lambda>st. (rg_phase st, rg_buffered st)) (fmlookup (rs_sessions (st_range x)) s)"
  shows "in_sequence s x'"
proof -
  show ?thesis
  proof (cases "fmlookup (rs_sessions (st_range x')) s")
    case None
    then have "fmlookup (rs_sessions (st_range x)) s = None" using assms(5) by simp
    then show ?thesis using assms(1-4) None unfolding in_sequence_def by auto
  next
    case (Some st)
    then obtain st0 where "fmlookup (rs_sessions (st_range x)) s = Some st0"
      "rg_phase st0 = rg_phase st" "rg_buffered st0 = rg_buffered st"
      using assms(5) by (cases "fmlookup (rs_sessions (st_range x)) s") auto
    then show ?thesis using assms(1-4) Some unfolding in_sequence_def by auto
  qed
qed

lemma stage_public_spec:
  assumes "wf_range (st_range x)" and "public_room event (st_range x)"
  shows "wf_range (st_range (stage_public event capacity x))"
    "rs_sessions (st_range (stage_public event capacity x)) = rs_sessions (st_range x)"
    "st_received (stage_public event capacity x) = st_received x"
    "st_touched (stage_public event capacity x) = st_touched x"
    "view (stage_public event capacity x) = st_delivered x @ st_output x @
       map ce_event (take (queued_at event (rs_completed (st_range x))) (rs_completed (st_range x))) @
       event # map ce_event (drop (queued_at event (rs_completed (st_range x))) (rs_completed (st_range x)))"
proof -
  obtain r out d where q: "rs_queue_public event (st_output x) capacity (st_range x) = (r, out, d)"
    by (metis prod_cases3)
  have s: "stage_public event capacity x = x\<lparr>st_range := r, st_output := out\<rparr>"
    by (simp add: stage_public_def q)
  show "wf_range (st_range (stage_public event capacity x))"
    "rs_sessions (st_range (stage_public event capacity x)) = rs_sessions (st_range x)"
    "st_received (stage_public event capacity x) = st_received x"
    "st_touched (stage_public event capacity x) = st_touched x"
    "view (stage_public event capacity x) = st_delivered x @ st_output x @
       map ce_event (take (queued_at event (rs_completed (st_range x))) (rs_completed (st_range x))) @
       event # map ce_event (drop (queued_at event (rs_completed (st_range x))) (rs_completed (st_range x)))"
    using queue_public_spec [OF q assms] by (simp_all add: s view_def)
qed

lemma view_split:
  "view x = st_delivered x @ st_output x @ map ce_event (take i (rs_completed (st_range x))) @
     map ce_event (drop i (rs_completed (st_range x)))"
  by (simp add: view_def flip: map_append)

lemma stage_public_append:
  assumes "wf_range (st_range x)" and "public_room event (st_range x)" and "ready_session event = None"
  shows "view (stage_public event capacity x) = view x @ [event]"
  using stage_public_spec(5) [OF assms(1,2), of capacity] assms(3)
  by (simp add: queued_at_def insertion_index_def view_def)

lemma stage_public_part_other:
  assumes "wf_range (st_range x)" and "public_room event (st_range x)"
    and "\<not> is_message_of s event" and "ready_session event \<noteq> Some s"
  shows "part s (view (stage_public event capacity x)) = part s (view x)"
  unfolding stage_public_spec(5) [OF assms(1,2)]
    view_split [of x "queued_at event (rs_completed (st_range x))"]
  using assms(3,4) by simp

text \<open>The readiness event lands before the early data of its session.\<close>

lemma part_empty_iff: "part s es = [] \<longleftrightarrow> (\<forall>e \<in> set es. \<not> is_message_of s e \<and> ready_session e \<noteq> Some s)"
  by (auto simp: part_def filter_empty_conv)

lemma ready_before_messages:
  assumes "wf_range (st_range x)" and "public_room event (st_range x)" and "ready_session event = Some s"
    and "\<forall>e \<in> set (view x). ready_session e \<noteq> Some s"
    and "\<forall>e \<in> set (st_delivered x @ st_output x). \<not> is_message_of s e"
  shows "part s (view (stage_public event capacity x)) = event # part s (view x)"
proof -
  let ?cs = "rs_completed (st_range x)"
  let ?i = "queued_at event ?cs"
  have "\<not> is_message_of s (ce_event c)" if c: "c \<in> set (take ?i ?cs)" for c
  proof (cases "position (\<lambda>c. is_message_of s (ce_event c)) ?cs")
    case None
    then show ?thesis using c by (auto dest: in_set_takeD)
  next
    case (Some i)
    then have "?i = i" using assms(3) by (simp add: queued_at_def insertion_index_def)
    then obtain j where "j < i" "c = ?cs ! j" using c by (auto simp: in_set_conv_nth)
    then show ?thesis using position_Some [OF Some] by blast
  qed
  then have "part s (map ce_event (take ?i ?cs)) = []"
    using assms(4) by (auto simp: part_empty_iff view_def dest: in_set_takeD)
  moreover have "part s (st_delivered x) = []" "part s (st_output x) = []"
    using assms(4,5) by (auto simp: part_empty_iff view_def)
  ultimately show ?thesis
    unfolding stage_public_spec(5) [OF assms(1,2)] view_split [of x ?i]
    using assms(3) by simp
qed

section \<open>Every call keeps accounts and order\<close>

lemma staging_okD: "staging_ok x \<Longrightarrow> wf_range (st_range x)" "staging_ok x \<Longrightarrow> in_sequence s x"
  by (simp_all add: staging_ok_def)

lemma ok_admit:
  assumes "staging_ok x"
  shows "staging_ok (staging_step (AdmitSession s st) x)"
proof (cases "s \<notin> st_touched x \<and> rg_buffered st = [] \<and> rg_buffered_bytes st = 0 \<and> \<not> phase_ready (rg_phase st)")
  case True
  let ?x = "staging_step (AdmitSession s st) x"
  have v: "view ?x = view x" using True by (simp add: view_def)
  have fresh: "fmlookup (rs_sessions (st_range x)) s = None" "part s (view x) = []" "st_received x s = []"
    using staging_okD(2) [OF assms, of s] True by (auto simp: in_sequence_def)
  have "wf_range (st_range ?x)"
    using add_session_wf [OF staging_okD(1) [OF assms] fresh(1)] True by simp
  moreover have "in_sequence t ?x" for t
  proof (cases "t = s")
    case True
    then show ?thesis using fresh v \<open>s \<notin> st_touched x \<and> _\<close> by (simp add: in_sequence_def)
  next
    case False
    show ?thesis
      by (rule in_sequence_cong [OF staging_okD(2) [OF assms]]) (use True False v in auto)
  qed
  ultimately show ?thesis by (simp add: staging_ok_def)
qed (use assms in auto)

lemma ok_adjust:
  assumes "staging_ok x"
  shows "staging_ok (staging_step (AdjustSession s st) x)"
proof (cases "fmlookup (rs_sessions (st_range x)) s")
  case (Some old)
  let ?st = "st\<lparr>rg_buffered := rg_buffered old, rg_buffered_bytes := rg_buffered_bytes old\<rparr>"
  show ?thesis
  proof (cases "\<not> phase_ready (rg_phase old) \<and> \<not> phase_ready (rg_phase st)")
    case True
    define y where "y = staging_step (AdjustSession s st) x"
    have x: "y = x\<lparr>st_range := (st_range x)\<lparr>rs_sessions := fmupd s ?st (rs_sessions (st_range x))\<rparr>\<rparr>"
      using Some True by (simp add: y_def)
    have v: "view y = view x" unfolding x by (simp add: view_def)
    have "wf_range (st_range y)"
      unfolding x using update_session_wf [OF staging_okD(1) [OF assms] Some, of ?st] by simp
    moreover have "in_sequence t y" for t
    proof (cases "t = s")
      case ts: True
      then show ?thesis
        using staging_okD(2) [OF assms, of s] True Some v unfolding in_sequence_def by (simp add: x)
    next
      case False
      show ?thesis
        by (rule in_sequence_cong [OF staging_okD(2) [OF assms]]) (use False v in \<open>auto simp: x\<close>)
    qed
    ultimately show ?thesis unfolding y_def [symmetric] by (simp add: staging_ok_def)
  qed (use assms Some in auto)
qed (use assms in auto)

lemma ok_other:
  assumes "staging_ok x"
  shows "staging_ok (staging_step (OtherEvent event capacity) x)"
proof (cases "ready_session event = None \<and> (\<forall>m. event \<noteq> Message m) \<and> public_room event (st_range x)")
  case True
  have nm: "\<not> is_message_of s event" for s using True by (cases event) auto
  note sp = stage_public_spec [OF staging_okD(1) [OF assms], of event capacity]
  have "in_sequence s (stage_public event capacity x)" for s
    by (rule in_sequence_cong [OF staging_okD(2) [OF assms]])
      (use True sp stage_public_part_other [OF staging_okD(1) [OF assms], of event s capacity] nm in auto)
  then show ?thesis using True sp by (simp add: staging_ok_def)
qed (use assms in auto)

lemma ok_poll:
  assumes "staging_ok x"
  shows "staging_ok (staging_step (BeginPoll capacity) x)"
proof -
  obtain r out where d: "drain_loop (rs_completed (st_range x)) [] capacity (st_range x) = (r, out)"
    by (metis surj_pair)
  define y where "y = staging_step (BeginPoll capacity) x"
  have x: "y = x\<lparr>st_range := r, st_delivered := st_delivered x @ st_output x, st_output := out\<rparr>"
    by (simp add: y_def rs_drain_completed_def d)
  have w: "wf_range (st_range x)" by (rule staging_okD(1) [OF assms])
  have sp: "early_exact (rs_completed r) r" "public_exact (rs_completed r) r" "rs_bounded r"
    "rs_sessions r = rs_sessions (st_range x)"
    "out @ map ce_event (rs_completed r) = map ce_event (rs_completed (st_range x))"
    using drain_loop_spec [OF d] w by (auto simp: wf_range_def)
  then have v: "view y = view x" by (simp add: x view_def)
  have "wf_range r" using sp w by (simp add: wf_range_def sessions_ok_def)
  moreover have "in_sequence s y" for s
    by (rule in_sequence_cong [OF staging_okD(2) [OF assms]]) (use v sp in \<open>auto simp: x\<close>)
  ultimately show ?thesis unfolding y_def [symmetric] by (simp add: staging_ok_def x)
qed

lemma ok_due:
  assumes "staging_ok x"
  shows "staging_ok (staging_step (DueControls now) x)"
proof -
  obtain r re ex where d: "rs_due_controls now (st_range x) = (r, re, ex)" by (metis prod_cases3)
  note sp = due_loop_spec [OF d [unfolded rs_due_controls_def] staging_okD(1) [OF assms]]
  have "in_sequence s (x\<lparr>st_range := r\<rparr>)" for s
    by (rule in_sequence_cong [OF staging_okD(2) [OF assms]]) (use sp in \<open>auto simp: view_def\<close>)
  then show ?thesis using sp d by (simp add: staging_ok_def)
qed

lemma part_filter_other:
  "(\<And>e. P e \<or> (\<not> is_message_of s e \<and> ready_session e \<noteq> Some s)) \<Longrightarrow> part s (filter P es) = part s es"
  by (induction es) auto

lemma belongs_other:
  "s \<noteq> t \<Longrightarrow> event_belongs_to_session e t \<Longrightarrow> \<not> is_message_of s e \<and> ready_session e \<noteq> Some s"
  by (cases e) auto

lemma ok_forget:
  assumes "staging_ok x"
  shows "staging_ok (staging_step (ForgetSession s) x)"
proof -
  let ?x = "staging_step (ForgetSession s) x" and ?cs = "rs_completed (st_range x)"
  have w: "wf_range (st_range ?x)" using forget_session_wf [OF staging_okD(1) [OF assms]] by simp
  have c: "map ce_event (rs_completed (st_range ?x)) =
      filter (\<lambda>e. \<not> event_belongs_to_session e s) (map ce_event ?cs)"
    by (simp add: forget_session_fields filter_map comp_def)
  have "in_sequence t ?x" for t
  proof (cases "t = s")
    case True
    have "part s (view ?x) = []" if "part s (view x) = []"
      using that unfolding view_def c by (auto simp: part_empty_iff)
    then show ?thesis
      using True staging_okD(2) [OF assms, of s] by (simp add: in_sequence_def forget_session_fields)
  next
    case False
    have "part t (view ?x) = part t (view x)"
      unfolding view_def c using False belongs_other [of t s]
      by (simp add: part_filter_other)
    then show ?thesis
      by (intro in_sequence_cong [OF staging_okD(2) [OF assms]])
        (use False in \<open>auto simp: forget_session_fields\<close>)
  qed
  then show ?thesis using w by (simp add: staging_ok_def)
qed

lemma ok_frame:
  assumes "staging_ok x"
  shows "staging_ok (staging_step (ForgetEndpoint e) x)" "staging_ok (staging_step (ForgetFailedClient e) x)"
    "staging_ok (staging_step ClearRange x)"
proof -
  have fr: "staging_ok (x\<lparr>st_range := r\<rparr>)"
    if "wf_range r" "rs_sessions r = rs_sessions (st_range x)" "rs_completed r = rs_completed (st_range x)" for r
    using that in_sequence_cong [OF staging_okD(2) [OF assms], of _ "x\<lparr>st_range := r\<rparr>"]
    by (simp add: staging_ok_def view_def)
  show "staging_ok (staging_step (ForgetEndpoint e) x)" "staging_ok (staging_step (ForgetFailedClient e) x)"
    using fr staging_okD(1) [OF assms]
    by (simp_all add: rs_forget_endpoint_def rs_forget_failed_client_endpoint_def wf_range_def
        sessions_ok_def early_exact_def public_exact_def rs_bounded_def waiting_messages_def waiting_bytes_def)
  have "wf_range (rs_clear (st_range x))"
    by (simp add: rs_clear_def wf_range_def sessions_ok_def early_exact_def public_exact_def
        rs_bounded_def waiting_messages_def waiting_bytes_def)
  moreover have "part s (view (x\<lparr>st_range := rs_clear (st_range x)\<rparr>)) = []" if "part s (view x) = []" for s
    using that by (simp add: view_def rs_clear_def)
  ultimately show "staging_ok (staging_step ClearRange x)"
    using staging_okD(2) [OF assms] by (simp add: staging_ok_def in_sequence_def rs_clear_def)
qed

lemma ok_arrive:
  assumes "staging_ok x"
  shows "staging_ok (staging_step (Arrive m capacity) x)"
proof (cases "public_room (Message m) (st_range x)")
  case room: True
  let ?s = "gm_session m"
  have w: "wf_range (st_range x)" and q: "in_sequence t x" for t by (rule staging_okD [OF assms])+
  obtain r result where b: "rs_buffer_message m (st_range x) = (r, result)" by (metis surj_pair)
  define x1 where "x1 = x\<lparr>st_range := r, st_touched := insert ?s (st_touched x)\<rparr>"
  define x2 where "x2 = x1\<lparr>st_received := (st_received x)(?s := st_received x ?s @ [m])\<rparr>"
  have step: "staging_step (Arrive m capacity) x = (case result of
      Inr None \<Rightarrow> x2 | Inr (Some event) \<Rightarrow> stage_public event capacity x2
    | Inl _ \<Rightarrow> stage_public (ProtocolViolation (gm_endpoint m) ?s) capacity x1)"
    unfolding x1_def x2_def using room by (simp add: b Let_def)
  note f = x1_def x2_def
  from buffer_message_cases [OF w, of m, unfolded b fst_conv snd_conv] show ?thesis
  proof (elim disjE exE conjE)
    fix st st'
    assume st: "fmlookup (rs_sessions (st_range x)) ?s = Some st" "\<not> phase_ready (rg_phase st)"
      and st': "st' = st\<lparr>rg_buffered_bytes := rg_buffered_bytes st + length (gm_payload m),
        rg_buffered := rg_buffered st @ [m]\<rparr>"
      and r: "result = Inr None" "wf_range r" "rs_sessions r = fmupd ?s st' (rs_sessions (st_range x))"
        "rs_completed r = rs_completed (st_range x)"
    have v: "view x2 = view x" by (simp add: view_def f r(4))
    have "in_sequence t x2" for t
    proof (cases "t = ?s")
      case True
      then show ?thesis
        using in_sequenceD(1,3) [OF q [of ?s]] st v
        by (intro in_sequenceI) (auto simp: f r(3) st')
    next
      case False
      show ?thesis by (rule in_sequence_cong [OF q]) (use False v in \<open>auto simp: f r(3)\<close>)
    qed
    moreover have "wf_range (st_range x2)" using r by (simp add: f)
    ultimately show ?thesis unfolding step r(1) staging_ok_def by simp
  next
    fix st
    let ?e = "ProtocolViolation (gm_endpoint m) ?s"
    assume st: "fmlookup (rs_sessions (st_range x)) ?s = Some st"
      and r: "result = Inl ProtocolError" "wf_range r" "rs_sessions r = rs_sessions (st_range x)"
        "rs_completed r = rs_completed (st_range x)" "rs_public_capacity r = rs_public_capacity (st_range x)"
    have pre: "wf_range (st_range x1)" "public_room ?e (st_range x1)"
      using r room by (auto simp: f public_room_def)
    note sp = stage_public_spec [OF pre, of capacity]
    have v: "view (stage_public ?e capacity x1) = view x @ [?e]"
      using stage_public_append [OF pre, of capacity] r(4) by (simp add: view_def f)
    have "in_sequence t (stage_public ?e capacity x1)" for t
      by (rule in_sequence_cong [OF q])
        (use sp(2-4) r(3) v in \<open>auto simp: f\<close>)
    then show ?thesis unfolding step r(1) staging_ok_def using sp(1) by simp
  next
    assume st: "\<forall>st. fmlookup (rs_sessions (st_range x)) ?s = Some st \<longrightarrow> phase_ready (rg_phase st)"
      and rr: "(r, result) = (st_range x, Inr (Some (Message m)))"
    have r: "r = st_range x" "result = Inr (Some (Message m))" using rr by simp_all
    have pre: "wf_range (st_range x2)" "public_room (Message m) (st_range x2)" using w room r by (auto simp: f)
    note sp = stage_public_spec [OF pre, of capacity]
    have v: "view (stage_public (Message m) capacity x2) = view x @ [Message m]"
      using stage_public_append [OF pre, of capacity] r by (simp add: view_def f)
    have "in_sequence t (stage_public (Message m) capacity x2)" for t
    proof (cases "t = ?s")
      case True
      then show ?thesis
        using in_sequenceD(1,2) [OF q [of ?s]] st
        by (intro in_sequenceI; unfold v sp(2-4)) (auto simp: f r(1))
    next
      case False
      show ?thesis by (rule in_sequence_cong [OF q]) (use False v sp(2-4) r(1) in \<open>auto simp: f\<close>)
    qed
    then show ?thesis unfolding step r(2) staging_ok_def using sp(1) by simp
  qed
qed (use assms in simp)

lemma ok_publish:
  assumes "staging_ok x"
  shows "staging_ok (staging_step (PublishReady s p event capacity) x)"
proof (cases "\<exists>st. fmlookup (rs_sessions (st_range x)) s = Some st \<and> \<not> phase_ready (rg_phase st) \<and>
    phase_ready p \<and> ready_session event = Some s \<and> public_room event (st_range x)")
  case True
  then obtain st where st: "fmlookup (rs_sessions (st_range x)) s = Some st" "\<not> phase_ready (rg_phase st)"
    "phase_ready p" and e: "ready_session event = Some s" and room: "public_room event (st_range x)"
    by blast
  have w: "wf_range (st_range x)" and q: "in_sequence t x" for t by (rule staging_okD [OF assms])+
  define r1 where "r1 = (st_range x)\<lparr>rs_sessions := fmupd s (st\<lparr>rg_phase := p\<rparr>) (rs_sessions (st_range x))\<rparr>"
  define x1 where "x1 = x\<lparr>st_range := rs_complete_buffered s r1\<rparr>"
  have step: "staging_step (PublishReady s p event capacity) x = stage_public event capacity x1"
    using st e room by (simp add: x1_def r1_def)
  have "wf_range r1" unfolding r1_def by (rule update_session_wf [OF w st(1)]) simp_all
  then have pre: "wf_range (st_range x1)" by (simp add: x1_def complete_buffered_wf)
  have f: "rs_sessions (st_range x1) =
      fmupd s (st\<lparr>rg_phase := p, rg_buffered_bytes := 0, rg_buffered := []\<rparr>) (rs_sessions (st_range x))"
    "st_delivered x1 = st_delivered x" "st_output x1 = st_output x" "st_received x1 = st_received x"
    "st_touched x1 = st_touched x" "view x1 = view x @ map Message (rg_buffered st)"
    "rs_public_capacity (st_range x1) = rs_public_capacity (st_range x)"
    by (simp_all add: x1_def r1_def rs_complete_buffered_def view_def rs_public_capacity_def comp_def)
  have room1: "public_room event (st_range x1)" using room by (simp add: public_room_def f)
  note sp = stage_public_spec [OF pre room1, of capacity]
  have none: "part s (view x) = []" and rec: "rg_buffered st = st_received x s"
    and own: "\<forall>m \<in> set (st_received x s). gm_session m = s"
    using q [of s] st by (auto simp: in_sequence_def)
  have msgs: "part s (map Message (rg_buffered st)) = map Message (rg_buffered st)"
    unfolding rec using own by (auto simp: part_def)
  have "part s (view (stage_public event capacity x1)) = event # part s (view x1)"
  proof (rule ready_before_messages [OF pre room1 e])
    show "\<forall>e \<in> set (view x1). ready_session e \<noteq> Some s"
      using none by (auto simp: f(6) part_empty_iff)
    show "\<forall>e \<in> set (st_delivered x1 @ st_output x1). \<not> is_message_of s e"
      using none by (auto simp: f(2,3) part_empty_iff view_def)
  qed
  then have mine: "part s (view (stage_public event capacity x1)) = event # map Message (st_received x s)"
    by (simp add: f(6) none msgs) (simp add: rec)
  have "in_sequence t (stage_public event capacity x1)" for t
  proof (cases "t = s")
    case True
    then show ?thesis
      using in_sequenceD(4) [OF q [of s] st(1)] mine e own st(3)
      by (intro in_sequenceI; unfold sp(2-4) f(1,4,5)) auto
  next
    case False
    have "\<not> is_message_of t event" using e by (cases event) auto
    then have "part t (view (stage_public event capacity x1)) = part t (view x1)"
      using stage_public_part_other [OF pre room1] e False by simp
    also have "\<dots> = part t (view x)"
      using own False by (auto simp: f(6) rec part_empty_iff)
    finally show ?thesis
      by (intro in_sequence_cong [OF q]) (use False sp(2-4) f(1,4,5) in auto)
  qed
  then show ?thesis unfolding step staging_ok_def using sp(1) by simp
next
  case False
  then show ?thesis using assms by (auto split: option.split)
qed

lemma staging_step_ok: "staging_ok x \<Longrightarrow> staging_ok (staging_step op x)"
  by (cases op) (simp_all only: ok_admit ok_adjust ok_arrive ok_publish ok_other ok_poll ok_forget
      ok_due ok_frame)

lemma staging_new_ok: "staging_ok (staging_new a b)"
  by (simp add: staging_ok_def staging_new_def with_buffer_limits_def wf_range_def early_exact_def
      public_exact_def rs_bounded_def sessions_ok_def waiting_messages_def waiting_bytes_def
      in_sequence_def view_def)

interpretation stg: invariant_system "\<lambda>x. \<exists>a b. x = staging_new a b" staging_step staging_ok
  by unfold_locales (auto intro: staging_new_ok staging_step_ok)

definition limits_of :: "staging \<Rightarrow> nat \<times> nat" where
  "limits_of x = (rs_max_buffered_messages (st_range x), rs_max_buffered_bytes (st_range x))"

lemma stage_public_limits:
  assumes "wf_range (st_range x)" and "public_room event (st_range x)"
  shows "limits_of (stage_public event capacity x) = limits_of x"
proof -
  obtain r out d where q: "rs_queue_public event (st_output x) capacity (st_range x) = (r, out, d)"
    by (metis prod_cases3)
  show ?thesis using queue_public_spec [OF q assms] by (simp add: limits_of_def stage_public_def q)
qed

lemma buffer_message_limits:
  "rs_max_buffered_messages (fst (rs_buffer_message m r)) = rs_max_buffered_messages r"
  "rs_max_buffered_bytes (fst (rs_buffer_message m r)) = rs_max_buffered_bytes r"
  "rs_public_capacity (fst (rs_buffer_message m r)) = rs_public_capacity r"
  by (auto simp: rs_buffer_message_def Let_def rs_public_capacity_def split: option.split)

lemma due_loop_limits:
  "due_loop now ss r = (r', re, ex) \<Longrightarrow>
     rs_max_buffered_messages r' = rs_max_buffered_messages r \<and>
     rs_max_buffered_bytes r' = rs_max_buffered_bytes r"
  by (induction now ss r arbitrary: r' re ex rule: due_loop.induct)
    (fastforce simp: Let_def split: option.splits prod.splits)+

lemma staging_step_limits:
  assumes "staging_ok x"
  shows "limits_of (staging_step op x) = limits_of x"
proof (cases op)
  case (Arrive m capacity)
  have w: "wf_range (fst (rs_buffer_message m (st_range x)))"
    using buffer_message_cases [OF staging_okD(1) [OF assms], of m] staging_okD(1) [OF assms] by auto
  obtain r result where b: "rs_buffer_message m (st_range x) = (r, result)" by (metis surj_pair)
  have r: "wf_range r" "limits_of (x\<lparr>st_range := r, st_touched := t\<rparr>) = limits_of x"
    "limits_of (x\<lparr>st_range := r, st_touched := t, st_received := g\<rparr>) = limits_of x"
    "rs_public_capacity r = rs_public_capacity (st_range x)" for t g
    using w buffer_message_limits [of m "st_range x"] by (simp_all add: b limits_of_def)
  have ev: "public_room event r" if "result = Inr (Some event)" "public_room (Message m) (st_range x)" for event
    using that b r(4) buffer_message_cases [OF staging_okD(1) [OF assms], of m]
    by (auto simp: public_room_def)
  show ?thesis
    unfolding Arrive using r ev stage_public_limits
    by (auto simp: b Let_def public_room_def split: sum.split option.split)
next
  case (PublishReady s p event capacity)
  show ?thesis
  proof (cases "fmlookup (rs_sessions (st_range x)) s")
    case (Some st)
    define r where "r = rs_complete_buffered s ((st_range x)\<lparr>rs_sessions :=
        fmupd s (st\<lparr>rg_phase := p\<rparr>) (rs_sessions (st_range x))\<rparr>)"
    have w: "wf_range r"
      unfolding r_def
      by (intro complete_buffered_wf update_session_wf [OF staging_okD(1) [OF assms] Some]) simp_all
    have "rs_public_capacity r = rs_public_capacity (st_range x)" "limits_of (x\<lparr>st_range := r\<rparr>) = limits_of x"
      by (simp_all add: r_def rs_complete_buffered_def rs_public_capacity_def limits_of_def)
    then have "limits_of (stage_public event capacity (x\<lparr>st_range := r\<rparr>)) = limits_of x"
      if "public_room event (st_range x)"
      using that w stage_public_limits [of "x\<lparr>st_range := r\<rparr>" event capacity] by (simp add: public_room_def)
    then show ?thesis unfolding PublishReady using Some by (simp add: r_def [symmetric])
  qed (simp add: PublishReady)
next
  case (OtherEvent event capacity)
  then show ?thesis using stage_public_limits [OF staging_okD(1) [OF assms]] by simp
next
  case (BeginPoll capacity)
  obtain r out where d: "drain_loop (rs_completed (st_range x)) [] capacity (st_range x) = (r, out)"
    by (metis surj_pair)
  then show ?thesis
    unfolding BeginPoll using drain_loop_spec [OF d] staging_okD(1) [OF assms]
    by (simp add: limits_of_def rs_drain_completed_def wf_range_def)
next
  case (DueControls now)
  obtain r re ex where "rs_due_controls now (st_range x) = (r, re, ex)" by (metis prod_cases3)
  then show ?thesis
    unfolding DueControls using due_loop_limits
    by (fastforce simp: limits_of_def rs_due_controls_def)
qed (auto simp: limits_of_def rs_forget_session_def rs_forget_endpoint_def rs_clear_def
    rs_forget_failed_client_endpoint_def rs_release_reservation_def Let_def split: option.split)

section \<open>Properties\<close>

definition demo_session :: range_session where
  "demo_session = \<lparr>rg_endpoint = 1, rg_protocol = game_protocol_new 9 2 7, rg_nonce = replicate 16 3,
     rg_selected = Some 6, rg_server_handle = 5, rg_old_session = None, rg_server_resume = False,
     rg_phase = ServerAwaitAck, rg_deadline = 10, rg_next_retry = 0, rg_buffered = [],
     rg_buffered_bytes = 0\<rparr>"

definition demo_early :: game_message where
  "demo_early = \<lparr>gm_endpoint = 1, gm_session = 5, gm_sequence = None, gm_tick = None,
     gm_correlation_id = 0, gm_payload = [7]\<rparr>"

definition demo_staging_ops :: "staging_op list" where
  "demo_staging_ops = [AdmitSession 5 demo_session, Arrive demo_early 0,
     PublishReady 5 ServerReady (SessionReady 1 5) 1]"

lemma demo_staging:
  "fmlookup (rs_sessions (st_range (run_ops staging_step demo_staging_ops (staging_new 4 8)))) 5 =
     Some (demo_session\<lparr>rg_phase := ServerReady\<rparr>)"
  "st_received (run_ops staging_step demo_staging_ops (staging_new 4 8)) 5 = [demo_early]"
  by (simp_all add: demo_staging_ops_def demo_session_def demo_early_def staging_new_def
      with_buffer_limits_def phase_ready_def public_room_def rs_public_capacity_def
      rs_buffer_message_def checked_add_def usize_max_def MAX_BUFFERED_MESSAGES_def
      MAX_BUFFERED_BYTES_def Let_def rs_complete_buffered_def stage_public_def rs_queue_public_def
      insertion_index_def insert_at_def rs_drain_completed_def rs_release_completed_def
      rs_release_reservation_def)

text \<open>
  C26. The staging budgets are exact and never exceeded, through every sequence of arrivals,
  readiness publications, public events, polls, timer passes, session closes and resets: early data
  is charged from its arrival until the application polls it or its session is forgotten, other public
  events from their deferral until they are polled, each session's early data stays within its own
  limits, and both runtime budgets stay within those configured at creation.
\<close>

theorem range_budgets_exact:
  assumes "x = run_ops staging_step ops (staging_new max_messages max_bytes)" and "r = st_range x"
  shows "rs_buffered_messages r = waiting_messages r + length (reserved_of (rs_completed r)) \<and>
    rs_buffered_bytes r = waiting_bytes r + sum_list (reserved_of (rs_completed r)) \<and>
    rs_public_messages r = length (public_of (rs_completed r)) \<and>
    rs_public_bytes r = sum_list (public_of (rs_completed r)) \<and>
    max (rs_buffered_messages r) (rs_public_messages r) \<le> max_messages \<and>
    max (rs_buffered_bytes r) (rs_public_bytes r) \<le> max_bytes \<and>
    (\<forall>s st. fmlookup (rs_sessions r) s = Some st \<longrightarrow> session_ok st)"
proof -
  have ok: "staging_ok x" using stg.reachable_inv [of "staging_new max_messages max_bytes" ops] assms by auto
  have "limits_of x = limits_of (staging_new max_messages max_bytes)"
    unfolding assms(1) by (rule stg.run_measure [OF staging_step_limits staging_new_ok])
  then show ?thesis
    using staging_okD(1) [OF ok] assms(2)
    by (simp add: wf_range_def early_exact_def public_exact_def rs_bounded_def sessions_ok_def
        limits_of_def staging_new_def with_buffer_limits_def)
qed

theorem range_budgets_exact_witness:
  "\<exists>x. x = run_ops staging_step demo_staging_ops (staging_new 4 8) \<and>
     rs_buffered_messages (st_range x) \<le> 4 \<and> rs_public_bytes (st_range x) \<le> 8"
  using range_budgets_exact [OF refl refl, of demo_staging_ops 4 8] by auto

text \<open>
  C27. Readiness precedes data and data is neither lost nor reordered: while a session is known, what
  the application has been given and will be given of it is nothing before the session is ready, its
  accepted messages waiting in order of arrival, and afterwards exactly one readiness event followed by
  every accepted message in order of arrival, through every interleaving with other sessions.
\<close>

theorem range_ready_then_messages:
  assumes "x = run_ops staging_step ops (staging_new max_messages max_bytes)"
    and "fmlookup (rs_sessions (st_range x)) s = Some st"
  shows "if phase_ready (rg_phase st)
    then rg_buffered st = [] \<and>
      (\<exists>e. ready_session e = Some s \<and> part s (view x) = e # map Message (st_received x s))
    else part s (view x) = [] \<and> rg_buffered st = st_received x s"
proof -
  have "staging_ok x" using stg.reachable_inv [of "staging_new max_messages max_bytes" ops] assms by auto
  then show ?thesis using staging_okD(2) [of x s] assms(2) by (auto simp: in_sequence_def)
qed

theorem range_ready_then_messages_witness:
  "\<exists>x e. x = run_ops staging_step demo_staging_ops (staging_new 4 8) \<and>
     ready_session e = Some 5 \<and> part 5 (view x) = [e, Message demo_early]"
  using range_ready_then_messages [OF refl demo_staging(1)] demo_staging(2)
  by (auto simp: phase_ready_def)

end
