(* ===== verification/Kcp_Engine.thy ===== *)
theory Kcp_Engine
  imports Wire_Codec
begin

text \<open>
  The KCP engine of \<^verbatim>\<open>vendor/rnet-kcp/src/kcp.rs\<close>: a selective-repeat ARQ protocol over
  datagrams, as one record \<open>kcp\<close> and one function per method. Sequence numbers and clocks are
  32-bit words that wrap; \<open>timediff\<close> orders them within half the space.

  The engine is generic in its output. The program instantiates it with
  \<^verbatim>\<open>KcpPacketOutput\<close> of \<^verbatim>\<open>rnet-transport/src/kcp.rs\<close>, a packet queue whose \<^verbatim>\<open>write\<close>
  takes the whole packet and never fails, so the field \<open>k_output\<close> is that queue and the
  I/O error paths of the flush methods do not arise. The default feature set is modelled:
  \<^verbatim>\<open>fastack-conserve\<close> and \<^verbatim>\<open>tokio\<close> are off. Panics are \<open>None\<close>. The capacity of the
  scratch buffer, log output and the \<^verbatim>\<open>Debug\<close> instance are not modelled.
\<close>

section \<open>Constants, clocks and little-endian fields\<close>

definition KCP_RTO_NDL :: u32 where "KCP_RTO_NDL = 30"
definition KCP_RTO_MIN :: u32 where "KCP_RTO_MIN = 100"
definition KCP_RTO_DEF :: u32 where "KCP_RTO_DEF = 200"
definition KCP_RTO_MAX :: u32 where "KCP_RTO_MAX = 60000"
definition KCP_CMD_PUSH :: u8 where "KCP_CMD_PUSH = 81"
definition KCP_CMD_ACK :: u8 where "KCP_CMD_ACK = 82"
definition KCP_CMD_WASK :: u8 where "KCP_CMD_WASK = 83"
definition KCP_CMD_WINS :: u8 where "KCP_CMD_WINS = 84"
definition KCP_ASK_SEND :: u32 where "KCP_ASK_SEND = 1"
definition KCP_ASK_TELL :: u32 where "KCP_ASK_TELL = 2"
definition KCP_WND_SND :: u16 where "KCP_WND_SND = 32"
definition KCP_WND_RCV :: u16 where "KCP_WND_RCV = 128"
definition KCP_MTU_DEF :: nat where "KCP_MTU_DEF = 1400"
definition KCP_INTERVAL :: u32 where "KCP_INTERVAL = 100"
definition KCP_OVERHEAD :: nat where "KCP_OVERHEAD = 24"
definition KCP_DEADLINK :: u32 where "KCP_DEADLINK = 20"
definition KCP_THRESH_INIT :: u16 where "KCP_THRESH_INIT = 2"
definition KCP_THRESH_MIN :: u16 where "KCP_THRESH_MIN = 2"
definition KCP_PROBE_INIT :: u32 where "KCP_PROBE_INIT = 7000"
definition KCP_PROBE_LIMIT :: u32 where "KCP_PROBE_LIMIT = 120000"
definition KCP_FASTACK_LIMIT :: u32 where "KCP_FASTACK_LIMIT = 5"

lemmas kcp_cmd_defs = KCP_CMD_PUSH_def KCP_CMD_ACK_def KCP_CMD_WASK_def KCP_CMD_WINS_def

definition u16_le :: "u16 \<Rightarrow> bytes" where "u16_le w = rev (u16_be w)"
definition u32_le :: "u32 \<Rightarrow> bytes" where "u32_le w = rev (u32_be w)"
definition u16_from_le :: "bytes \<Rightarrow> u16" where "u16_from_le bs = u16_from_be (rev bs)"
definition u32_from_le :: "bytes \<Rightarrow> u32" where "u32_from_le bs = u32_from_be (rev bs)"

lemma length_le [simp]: "length (u16_le v) = 2" "length (u32_le w) = 4"
  by (simp_all add: u16_le_def u32_le_def)

lemma from_le_le [simp]: "u16_from_le (u16_le v) = v" "u32_from_le (u32_le w) = w"
  by (simp_all add: u16_from_le_def u16_le_def u32_from_le_def u32_le_def)

definition bound :: "u32 \<Rightarrow> u32 \<Rightarrow> u32 \<Rightarrow> u32" where
  "bound lower v upper = min (max lower v) upper"

definition timediff :: "u32 \<Rightarrow> u32 \<Rightarrow> int" where
  "timediff later earlier = sint (later - earlier)"

definition u32_sat_add :: "u32 \<Rightarrow> u32 \<Rightarrow> u32" where
  "u32_sat_add a b = (if u32_max < unat a + unat b then - 1 else a + b)"

definition u32_sat_mul :: "u32 \<Rightarrow> u32 \<Rightarrow> u32" where
  "u32_sat_mul a b = (if u32_max < unat a * unat b then - 1 else a * b)"

definition sat_mul :: "nat \<Rightarrow> nat \<Rightarrow> nat" where
  "sat_mul a b = min (a * b) usize_max"

definition div_ceil :: "nat \<Rightarrow> nat \<Rightarrow> nat" where
  "div_ceil a b = (if a mod b = 0 then a div b else a div b + 1)"

section \<open>Errors, segments and the control block\<close>

datatype kcp_error =
    ConvInconsistent u32 u32
  | InvalidMtu nat
  | InvalidSegmentSize nat
  | InvalidSegmentDataSize nat nat
  | KcpIoError
  | NeedUpdate
  | RecvQueueEmpty
  | ExpectingFragment
  | UnsupportedCmd u8
  | UserBufTooBig
  | UserBufTooSmall

type_synonym 'a kcp_result = "kcp_error + 'a"

record kcp_segment =
  seg_conv :: u32
  seg_cmd :: u8
  seg_frg :: u8
  seg_wnd :: u16
  seg_ts :: u32
  seg_sn :: u32
  seg_una :: u32
  seg_resendts :: u32
  seg_rto :: u32
  seg_fastack :: u32
  seg_xmit :: u32
  seg_data :: bytes

definition new_with_data :: "bytes \<Rightarrow> kcp_segment" where
  "new_with_data data = \<lparr>seg_conv = 0, seg_cmd = 0, seg_frg = 0, seg_wnd = 0, seg_ts = 0,
     seg_sn = 0, seg_una = 0, seg_resendts = 0, seg_rto = 0, seg_fastack = 0, seg_xmit = 0,
     seg_data = data\<rparr>"

text \<open>
  \<^verbatim>\<open>buf.remaining_mut()\<close> of a growable \<^verbatim>\<open>BytesMut\<close> is the distance to \<^verbatim>\<open>usize::MAX\<close>, so the
  capacity panic of \<^verbatim>\<open>encode\<close> does not arise.
\<close>

definition seg_encode :: "kcp_segment \<Rightarrow> bytes" where
  "seg_encode s = u32_le (seg_conv s) @ [seg_cmd s] @ [seg_frg s] @ u16_le (seg_wnd s) @
     u32_le (seg_ts s) @ u32_le (seg_sn s) @ u32_le (seg_una s) @
     u32_le (word_of_nat (length (seg_data s))) @ seg_data s"

definition encoded_len :: "kcp_segment \<Rightarrow> nat" where
  "encoded_len s = KCP_OVERHEAD + length (seg_data s)"

record kcp =
  k_conv :: u32
  k_mtu :: nat
  k_mss :: nat
  k_state :: int
  k_snd_una :: u32
  k_snd_nxt :: u32
  k_rcv_nxt :: u32
  k_ssthresh :: u16
  k_rx_rttval :: u32
  k_rx_srtt :: u32
  k_rx_rto :: u32
  k_rx_minrto :: u32
  k_snd_wnd :: u16
  k_rcv_wnd :: u16
  k_rmt_wnd :: u16
  k_cwnd :: u16
  k_probe :: u32
  k_current :: u32
  k_interval :: u32
  k_ts_flush :: u32
  k_xmit :: u32
  k_nodelay :: bool
  k_updated :: bool
  k_ts_probe :: u32
  k_probe_wait :: u32
  k_dead_link :: u32
  k_incr :: nat
  k_snd_queue :: "kcp_segment list"
  k_rcv_queue :: "kcp_segment list"
  k_snd_buf :: "kcp_segment list"
  k_rcv_buf :: "kcp_segment list"
  k_acklist :: "(u32 \<times> u32) list"
  k_buf :: bytes
  k_fastresend :: u32
  k_fastlimit :: u32
  k_nocwnd :: bool
  k_stream :: bool
  k_input_conv :: bool
  k_output :: "bytes list"

definition kcp_construct :: "u32 \<Rightarrow> bool \<Rightarrow> kcp" where
  "kcp_construct conv stream = \<lparr>k_conv = conv, k_mtu = KCP_MTU_DEF,
     k_mss = KCP_MTU_DEF - KCP_OVERHEAD, k_state = 0, k_snd_una = 0, k_snd_nxt = 0,
     k_rcv_nxt = 0, k_ssthresh = KCP_THRESH_INIT, k_rx_rttval = 0, k_rx_srtt = 0,
     k_rx_rto = KCP_RTO_DEF, k_rx_minrto = KCP_RTO_MIN, k_snd_wnd = KCP_WND_SND,
     k_rcv_wnd = KCP_WND_RCV, k_rmt_wnd = KCP_WND_RCV, k_cwnd = 0, k_probe = 0,
     k_current = 0, k_interval = KCP_INTERVAL, k_ts_flush = KCP_INTERVAL, k_xmit = 0,
     k_nodelay = False, k_updated = False, k_ts_probe = 0, k_probe_wait = 0,
     k_dead_link = KCP_DEADLINK, k_incr = 0, k_snd_queue = [], k_rcv_queue = [],
     k_snd_buf = [], k_rcv_buf = [], k_acklist = [], k_buf = [], k_fastresend = 0,
     k_fastlimit = KCP_FASTACK_LIMIT, k_nocwnd = False, k_stream = stream,
     k_input_conv = False, k_output = []\<rparr>"

definition kcp_new :: "u32 \<Rightarrow> kcp" where
  "kcp_new conv = kcp_construct conv False"

definition kcp_new_stream :: "u32 \<Rightarrow> kcp" where
  "kcp_new_stream conv = kcp_construct conv True"

section \<open>Receiving side of the application\<close>

text \<open>\<^verbatim>\<open>move_buf\<close> on the fields it touches: the next number, the queue and the buffer.\<close>

fun move_avail :: "u16 \<Rightarrow> u32 \<Rightarrow> kcp_segment list \<Rightarrow> kcp_segment list \<Rightarrow>
    u32 \<times> kcp_segment list \<times> kcp_segment list" where
  "move_avail wnd nxt q [] = (nxt, q, [])"
| "move_avail wnd nxt q (s # b) =
     (if seg_sn s = nxt \<and> length q < unat wnd then move_avail wnd (nxt + 1) (q @ [s]) b
      else (nxt, q, s # b))"

definition move_buf :: "kcp \<Rightarrow> kcp" where
  "move_buf k = (let (nxt, q, b) = move_avail (k_rcv_wnd k) (k_rcv_nxt k) (k_rcv_queue k) (k_rcv_buf k)
     in k\<lparr>k_rcv_nxt := nxt, k_rcv_queue := q, k_rcv_buf := b\<rparr>)"

fun message_len :: "kcp_segment list \<Rightarrow> nat" where
  "message_len [] = 0"
| "message_len (s # q) =
     (if seg_frg s = 0 then length (seg_data s) else length (seg_data s) + message_len q)"

definition peeksize :: "kcp \<Rightarrow> nat kcp_result" where
  "peeksize k = (case k_rcv_queue k of
       [] \<Rightarrow> Inl RecvQueueEmpty
     | s # _ \<Rightarrow>
         if seg_frg s = 0 then Inr (length (seg_data s))
         else if length (k_rcv_queue k) < unat (seg_frg s) + 1 then Inl ExpectingFragment
         else Inr (message_len (k_rcv_queue k)))"

text \<open>
  The merge loop of \<^verbatim>\<open>recv\<close> with the room left in the caller's buffer; \<open>None\<close> is the
  \<^verbatim>\<open>WriteZero\<close> error of \<^verbatim>\<open>write_all\<close>, after the segment has been popped.
\<close>

fun recv_merge :: "nat \<Rightarrow> bytes \<Rightarrow> kcp_segment list \<Rightarrow> bytes option \<times> kcp_segment list" where
  "recv_merge room acc [] = (Some acc, [])"
| "recv_merge room acc (s # q) =
     (if room < length (seg_data s) then (None, q)
      else if seg_frg s = 0 then (Some (acc @ seg_data s), q)
      else recv_merge (room - length (seg_data s)) (acc @ seg_data s) q)"

definition kcp_recv :: "nat \<Rightarrow> kcp \<Rightarrow> kcp \<times> bytes kcp_result option" where
  "kcp_recv buf_len k =
     (if k_rcv_queue k = [] then (k, Some (Inl RecvQueueEmpty))
      else case peeksize k of
        Inl e \<Rightarrow> (k, Some (Inl e))
      | Inr peek \<Rightarrow>
          if buf_len < peek then (k, Some (Inl UserBufTooSmall))
          else
            let recover = unat (k_rcv_wnd k) \<le> length (k_rcv_queue k);
                (merged, q) = recv_merge buf_len [] (k_rcv_queue k);
                k1 = k\<lparr>k_rcv_queue := q\<rparr>
            in case merged of
                 None \<Rightarrow> (k1, Some (Inl KcpIoError))
               | Some msg \<Rightarrow>
                   if length msg \<noteq> peek then (k1, None)
                   else
                     let k2 = move_buf k1
                     in (if length (k_rcv_queue k2) < unat (k_rcv_wnd k2) \<and> recover
                         then k2\<lparr>k_probe := k_probe k2 OR KCP_ASK_TELL\<rparr> else k2,
                         Some (Inr msg)))"

section \<open>Sending side of the application\<close>

primrec fragments :: "nat \<Rightarrow> bool \<Rightarrow> nat \<Rightarrow> bytes \<Rightarrow> kcp_segment list" where
  "fragments mss stream 0 buf = []"
| "fragments mss stream (Suc n) buf =
     (let size = min mss (length buf)
      in (new_with_data (take size buf))\<lparr>seg_frg := if stream then 0 else word_of_nat n\<rparr>
         # fragments mss stream n (drop size buf))"

text \<open>The streaming-mode extension of the last queued segment.\<close>

definition stream_extend :: "bytes \<Rightarrow> kcp \<Rightarrow> kcp \<times> bytes \<times> nat" where
  "stream_extend buf k =
     (if k_snd_queue k = [] then (k, buf, 0)
      else
        let old = last (k_snd_queue k); l = length (seg_data old)
        in if l < k_mss k then
             let extend = min (length buf) (k_mss k - l)
             in (k\<lparr>k_snd_queue := butlast (k_snd_queue k) @
                   [old\<lparr>seg_data := seg_data old @ take extend buf, seg_frg := 0\<rparr>]\<rparr>,
                 drop extend buf, extend)
           else (k, buf, 0))"

definition kcp_send :: "bytes \<Rightarrow> kcp \<Rightarrow> (kcp \<times> nat kcp_result) option" where
  "kcp_send buf k =
     (if k_mss k = 0 then None
      else
        let (k1, buf1, sent) = (if k_stream k then stream_extend buf k else (k, buf, 0))
        in if k_stream k \<and> buf1 = [] then Some (k1, Inr sent)
           else
             let count = (if length buf1 \<le> k_mss k1 then 1 else div_ceil (length buf1) (k_mss k1))
             in if unat KCP_WND_RCV \<le> count then Some (k1, Inl UserBufTooBig)
                else
                  let segs = fragments (k_mss k1) (k_stream k1) (max 1 count) buf1
                  in Some (k1\<lparr>k_snd_queue := k_snd_queue k1 @ segs\<rparr>,
                       Inr (sent + sum_list (map (length \<circ> seg_data) segs))))"

section \<open>Acknowledgements\<close>

definition update_ack :: "u32 \<Rightarrow> kcp \<Rightarrow> kcp" where
  "update_ack rtt k =
     (let k1 = (if k_rx_srtt k = 0 then k\<lparr>k_rx_srtt := rtt, k_rx_rttval := rtt div 2\<rparr>
        else
          let delta = (if k_rx_srtt k \<le> rtt then rtt - k_rx_srtt k else k_rx_srtt k - rtt);
              rttval = word_of_nat ((3 * unat (k_rx_rttval k) + unat delta) div 4);
              srtt = word_of_nat ((7 * unat (k_rx_srtt k) + unat rtt) div 8)
          in k\<lparr>k_rx_rttval := rttval, k_rx_srtt := if srtt < 1 then 1 else srtt\<rparr>);
          rto = u32_sat_add (k_rx_srtt k1) (max (k_interval k1) (u32_sat_mul (k_rx_rttval k1) 4))
      in k1\<lparr>k_rx_rto := bound (k_rx_minrto k1) rto KCP_RTO_MAX\<rparr>)"

definition shrink_buf :: "kcp \<Rightarrow> kcp" where
  "shrink_buf k = k\<lparr>k_snd_una := case k_snd_buf k of s # _ \<Rightarrow> seg_sn s | [] \<Rightarrow> k_snd_nxt k\<rparr>"

fun remove_acked :: "u32 \<Rightarrow> kcp_segment list \<Rightarrow> kcp_segment list" where
  "remove_acked sn [] = []"
| "remove_acked sn (s # b) =
     (let d = timediff sn (seg_sn s)
      in if d = 0 then b else if d < 0 then s # b else s # remove_acked sn b)"

definition outside_window :: "u32 \<Rightarrow> kcp \<Rightarrow> bool" where
  "outside_window sn k \<longleftrightarrow> timediff sn (k_snd_una k) < 0 \<or> 0 \<le> timediff sn (k_snd_nxt k)"

definition parse_ack :: "u32 \<Rightarrow> kcp \<Rightarrow> kcp" where
  "parse_ack sn k =
     (if outside_window sn k then k else k\<lparr>k_snd_buf := remove_acked sn (k_snd_buf k)\<rparr>)"

definition parse_una :: "u32 \<Rightarrow> kcp \<Rightarrow> kcp" where
  "parse_una una k = k\<lparr>k_snd_buf := dropWhile (\<lambda>s. 0 < timediff una (seg_sn s)) (k_snd_buf k)\<rparr>"

fun mark_skipped :: "u32 \<Rightarrow> u32 \<Rightarrow> kcp_segment list \<Rightarrow> kcp_segment list" where
  "mark_skipped sn ts [] = []"
| "mark_skipped sn ts (s # b) =
     (if timediff sn (seg_sn s) < 0 then s # b
      else (if sn \<noteq> seg_sn s \<and> 0 \<le> timediff ts (seg_ts s)
            then s\<lparr>seg_fastack := u32_sat_add (seg_fastack s) 1\<rparr> else s) # mark_skipped sn ts b)"

definition parse_fastack :: "u32 \<Rightarrow> u32 \<Rightarrow> kcp \<Rightarrow> kcp" where
  "parse_fastack sn ts k =
     (if outside_window sn k then k else k\<lparr>k_snd_buf := mark_skipped sn ts (k_snd_buf k)\<rparr>)"

definition ack_push :: "u32 \<Rightarrow> u32 \<Rightarrow> kcp \<Rightarrow> kcp" where
  "ack_push sn ts k = k\<lparr>k_acklist := k_acklist k @ [(sn, ts)]\<rparr>"

text \<open>The search of \<^verbatim>\<open>parse_data\<close> runs from the back of the receive buffer.\<close>

fun insert_rev :: "kcp_segment \<Rightarrow> kcp_segment list \<Rightarrow> kcp_segment list" where
  "insert_rev new [] = [new]"
| "insert_rev new (s # b) =
     (if seg_sn s = seg_sn new then s # b
      else if 0 < timediff (seg_sn new) (seg_sn s) then new # s # b
      else s # insert_rev new b)"

definition parse_data :: "kcp_segment \<Rightarrow> kcp \<Rightarrow> kcp" where
  "parse_data new k =
     (if 0 \<le> timediff (seg_sn new) (k_rcv_nxt k + ucast (k_rcv_wnd k)) \<or>
         timediff (seg_sn new) (k_rcv_nxt k) < 0 then k
      else move_buf (k\<lparr>k_rcv_buf := rev (insert_rev new (rev (k_rcv_buf k)))\<rparr>))"

section \<open>Input of one packet\<close>

text \<open>The newest acknowledgement of the packet: \<^verbatim>\<open>flag\<close>, \<^verbatim>\<open>max_ack\<close> and \<^verbatim>\<open>latest_ts\<close>.\<close>

type_synonym ack_track = "(u32 \<times> u32) option"

definition track_ack :: "u32 \<Rightarrow> u32 \<Rightarrow> ack_track \<Rightarrow> ack_track" where
  "track_ack sn ts t = (case t of
       None \<Rightarrow> Some (sn, ts)
     | Some (max_ack, latest_ts) \<Rightarrow>
         if 0 < timediff sn max_ack \<and> 0 < timediff ts latest_ts then Some (sn, ts) else t)"

text \<open>What a segment with an accepted header does to the control block.\<close>

definition input_segment :: "kcp_segment \<Rightarrow> kcp \<times> ack_track \<Rightarrow> kcp \<times> ack_track" where
  "input_segment s = (\<lambda>(k, t).
     let k1 = shrink_buf (parse_una (seg_una s) (k\<lparr>k_rmt_wnd := seg_wnd s\<rparr>))
     in if seg_cmd s = KCP_CMD_ACK then
          let rtt = timediff (k_current k1) (seg_ts s);
              k2 = (if 0 \<le> rtt then update_ack (word_of_int rtt) k1 else k1)
          in (shrink_buf (parse_ack (seg_sn s) k2), track_ack (seg_sn s) (seg_ts s) t)
        else if seg_cmd s = KCP_CMD_PUSH then
          (if timediff (seg_sn s) (k_rcv_nxt k1 + ucast (k_rcv_wnd k1)) < 0 then
             let k2 = ack_push (seg_sn s) (seg_ts s) k1
             in if 0 \<le> timediff (seg_sn s) (k_rcv_nxt k2) then parse_data s k2 else k2
           else k1, t)
        else if seg_cmd s = KCP_CMD_WASK then (k1\<lparr>k_probe := k_probe k1 OR KCP_ASK_TELL\<rparr>, t)
        else (k1, t))"

definition known_cmd :: "u8 \<Rightarrow> bool" where
  "known_cmd c \<longleftrightarrow> c = KCP_CMD_PUSH \<or> c = KCP_CMD_ACK \<or> c = KCP_CMD_WASK \<or> c = KCP_CMD_WINS"

text \<open>The header fields at the cursor, and the payload that follows them.\<close>

definition header_len :: "bytes \<Rightarrow> nat" where
  "header_len bs = unat (u32_from_le (subslice 20 24 bs))"

definition read_segment :: "bytes \<Rightarrow> kcp_segment" where
  "read_segment bs = (new_with_data (subslice 24 (24 + header_len bs) bs))
     \<lparr>seg_conv := u32_from_le (subslice 0 4 bs), seg_cmd := bs ! 4, seg_frg := bs ! 5,
      seg_wnd := u16_from_le (subslice 6 8 bs), seg_ts := u32_from_le (subslice 8 12 bs),
      seg_sn := u32_from_le (subslice 12 16 bs), seg_una := u32_from_le (subslice 16 20 bs)\<rparr>"

text \<open>
  The loop of \<^verbatim>\<open>input\<close>. An error keeps the effects of the segments before it, and of an
  adopted conversation number.
\<close>

function input_loop :: "bytes \<Rightarrow> kcp \<times> ack_track \<Rightarrow> (kcp \<times> ack_track) \<times> nat kcp_result" where
  "input_loop bs (k, t) =
     (if length bs < KCP_OVERHEAD then ((k, t), Inr (length bs))
      else
        let s = read_segment bs; len = header_len bs; rest = length bs - KCP_OVERHEAD
        in if seg_conv s \<noteq> k_conv k \<and> \<not> k_input_conv k
           then ((k, t), Inl (ConvInconsistent (k_conv k) (seg_conv s)))
           else
             let k1 = (if seg_conv s \<noteq> k_conv k
                       then k\<lparr>k_conv := seg_conv s, k_input_conv := False\<rparr> else k)
             in if rest < len then ((k1, t), Inl (InvalidSegmentDataSize len rest))
                else if \<not> known_cmd (seg_cmd s) then ((k1, t), Inl (UnsupportedCmd (seg_cmd s)))
                else input_loop (drop (KCP_OVERHEAD + len) bs) (input_segment s (k1, t)))"
  by pat_completeness auto

termination
  by (relation "measure (\<lambda>(bs, _). length bs)") (auto simp: KCP_OVERHEAD_def)

text \<open>Congestion window growth; \<open>None\<close> is the division by a zero \<^verbatim>\<open>incr\<close>.\<close>

definition grow_cwnd :: "kcp \<Rightarrow> kcp option" where
  "grow_cwnd k =
     (let mss = k_mss k
      in if k_cwnd k < k_ssthresh k
         then Some (k\<lparr>k_cwnd := k_cwnd k + 1, k_incr := sat_add (k_incr k) mss\<rparr>)
         else
           let incr1 = (if k_incr k < mss then mss else k_incr k)
           in if incr1 = 0 then None
              else
                let incr2 = sat_add incr1 (sat_mul mss mss div incr1 + mss div 16);
                    k1 = k\<lparr>k_incr := incr2\<rparr>
                in Some (if (unat (k_cwnd k) + 1) * mss \<le> incr2
                         then k1\<lparr>k_cwnd := word_of_nat (min (div_ceil incr2 (max mss 1))
                                (unat (k_rmt_wnd k)))\<rparr>
                         else k1))"

definition clamp_cwnd :: "kcp \<Rightarrow> kcp" where
  "clamp_cwnd k = (if k_rmt_wnd k < k_cwnd k
     then k\<lparr>k_cwnd := k_rmt_wnd k, k_incr := unat (k_rmt_wnd k) * k_mss k\<rparr> else k)"

definition kcp_input :: "bytes \<Rightarrow> kcp \<Rightarrow> kcp \<times> nat kcp_result option" where
  "kcp_input buf k =
     (if length buf < KCP_OVERHEAD then (k, Some (Inl (InvalidSegmentSize (length buf))))
      else
        let old_una = k_snd_una k;
            ((k1, t), r) = input_loop buf (k, None)
        in case r of
             Inl e \<Rightarrow> (k1, Some (Inl e))
           | Inr remaining \<Rightarrow>
               let k2 = (case t of None \<Rightarrow> k1 | Some (max_ack, ts) \<Rightarrow> parse_fastack max_ack ts k1);
                   done = Some (Inr (length buf - remaining))
               in if 0 < timediff (k_snd_una k2) old_una \<and> k_cwnd k2 < k_rmt_wnd k2
                  then case grow_cwnd k2 of
                         None \<Rightarrow> (k2, None)
                       | Some k3 \<Rightarrow> (clamp_cwnd k3, done)
                  else (k2, done))"

section \<open>Output\<close>

definition wnd_unused :: "kcp \<Rightarrow> u16" where
  "wnd_unused k = (if length (k_rcv_queue k) < unat (k_rcv_wnd k)
     then k_rcv_wnd k - word_of_nat (length (k_rcv_queue k)) else 0)"

definition probe_wnd_size :: "kcp \<Rightarrow> kcp" where
  "probe_wnd_size k =
     (if k_rmt_wnd k = 0 then
        (if k_probe_wait k = 0
         then k\<lparr>k_probe_wait := KCP_PROBE_INIT, k_ts_probe := k_current k + KCP_PROBE_INIT\<rparr>
         else if 0 \<le> timediff (k_current k) (k_ts_probe k) then
           let w1 = (if k_probe_wait k < KCP_PROBE_INIT then KCP_PROBE_INIT else k_probe_wait k);
               w2 = w1 + w1 div 2;
               w3 = (if KCP_PROBE_LIMIT < w2 then KCP_PROBE_LIMIT else w2)
           in k\<lparr>k_probe_wait := w3, k_ts_probe := k_current k + w3,
                k_probe := k_probe k OR KCP_ASK_SEND\<rparr>
         else k)
      else k\<lparr>k_ts_probe := 0, k_probe_wait := 0\<rparr>)"

text \<open>
  \<^verbatim>\<open>KcpPacketOutput::write\<close> queues one packet; \<^verbatim>\<open>write_all\<close> of an empty buffer does not
  call it.
\<close>

definition output_write :: "bytes \<Rightarrow> bytes list \<Rightarrow> bytes list" where
  "output_write packet queue = queue @ [packet]"

definition write_buf :: "kcp \<Rightarrow> kcp" where
  "write_buf k = k\<lparr>k_output := (if k_buf k = [] then k_output k else output_write (k_buf k) (k_output k)),
     k_buf := []\<rparr>"

text \<open>\<^verbatim>\<open>write_all\<close> before a segment that would exceed the packet limit, then \<^verbatim>\<open>encode\<close>.\<close>

definition put_segment :: "kcp_segment \<Rightarrow> nat \<Rightarrow> kcp \<Rightarrow> kcp" where
  "put_segment s need k =
     (let k1 = (if k_mtu k < length (k_buf k) + need then write_buf k else k)
      in k1\<lparr>k_buf := k_buf k1 @ seg_encode s\<rparr>)"

primrec flush_acks :: "(u32 \<times> u32) list \<Rightarrow> kcp_segment \<times> kcp \<Rightarrow> kcp_segment \<times> kcp" where
  "flush_acks [] sk = sk"
| "flush_acks (a # as) sk =
     (let s = (fst sk)\<lparr>seg_sn := fst a, seg_ts := snd a\<rparr>
      in flush_acks as (s, put_segment s KCP_OVERHEAD (snd sk)))"

text \<open>\<^verbatim>\<open>_flush_ack\<close>; the template segment keeps the last number and time stamp it wrote.\<close>

definition flush_ack_list :: "kcp_segment \<times> kcp \<Rightarrow> kcp_segment \<times> kcp" where
  "flush_ack_list sk =
     (let (s, k) = flush_acks (k_acklist (snd sk)) sk in (s, k\<lparr>k_acklist := []\<rparr>))"

definition flush_probe_command :: "u8 \<Rightarrow> kcp_segment \<times> kcp \<Rightarrow> kcp_segment \<times> kcp" where
  "flush_probe_command cmd sk =
     (let s = (fst sk)\<lparr>seg_cmd := cmd\<rparr> in (s, put_segment s KCP_OVERHEAD (snd sk)))"

definition flush_probe_commands :: "kcp_segment \<times> kcp \<Rightarrow> kcp_segment \<times> kcp" where
  "flush_probe_commands sk =
     (let sk1 = (if k_probe (snd sk) AND KCP_ASK_SEND \<noteq> 0
                 then flush_probe_command KCP_CMD_WASK sk else sk);
          (s, k) = (if k_probe (snd sk1) AND KCP_ASK_TELL \<noteq> 0
                 then flush_probe_command KCP_CMD_WINS sk1 else sk1)
      in (s, k\<lparr>k_probe := 0\<rparr>))"

definition ack_template :: "kcp \<Rightarrow> kcp_segment" where
  "ack_template k = (new_with_data [])\<lparr>seg_conv := k_conv k, seg_cmd := KCP_CMD_ACK,
     seg_wnd := wnd_unused k, seg_una := k_rcv_nxt k\<rparr>"

definition kcp_flush_ack :: "kcp \<Rightarrow> kcp \<times> unit kcp_result" where
  "kcp_flush_ack k =
     (if \<not> k_updated k then (k, Inl NeedUpdate)
      else (snd (flush_ack_list (ack_template k, k)), Inr ()))"

text \<open>Moving segments from the send queue into the window.\<close>

definition stamp :: "kcp \<Rightarrow> u16 \<Rightarrow> u32 \<Rightarrow> kcp_segment \<Rightarrow> kcp_segment" where
  "stamp k wnd nxt s = s\<lparr>seg_conv := k_conv k, seg_cmd := KCP_CMD_PUSH, seg_wnd := wnd,
     seg_ts := k_current k, seg_sn := nxt, seg_una := k_rcv_nxt k,
     seg_resendts := k_current k, seg_rto := k_rx_rto k, seg_fastack := 0, seg_xmit := 0\<rparr>"

fun fill_window :: "kcp \<Rightarrow> u16 \<Rightarrow> u16 \<Rightarrow> u32 \<Rightarrow> kcp_segment list \<Rightarrow>
    u32 \<times> kcp_segment list \<times> kcp_segment list" where
  "fill_window k cwnd wnd nxt [] = (nxt, [], [])"
| "fill_window k cwnd wnd nxt (s # q) =
     (if timediff nxt (k_snd_una k + ucast cwnd) < 0 then
        let (nxt1, added, q1) = fill_window k cwnd wnd (nxt + 1) q
        in (nxt1, stamp k wnd nxt s # added, q1)
      else (nxt, [], s # q))"

text \<open>Why a buffered segment is transmitted in this flush.\<close>

datatype resend = Not_Due | First_Time | Timed_Out | Fast_Resend

definition resend_reason :: "kcp \<Rightarrow> u32 \<Rightarrow> kcp_segment \<Rightarrow> resend" where
  "resend_reason k resent s =
     (if seg_xmit s = 0 then First_Time
      else if 0 \<le> timediff (k_current k) (seg_resendts s) then Timed_Out
      else if resent \<le> seg_fastack s \<and> (seg_xmit s \<le> k_fastlimit k \<or> k_fastlimit k = 0)
        then Fast_Resend
      else Not_Due)"

definition reschedule :: "kcp \<Rightarrow> u32 \<Rightarrow> resend \<Rightarrow> kcp_segment \<Rightarrow> kcp_segment" where
  "reschedule k rtomin why s =
     (let x = s\<lparr>seg_xmit := u32_sat_add (seg_xmit s) 1\<rparr>
      in case why of
           Not_Due \<Rightarrow> s
         | First_Time \<Rightarrow> x\<lparr>seg_rto := k_rx_rto k,
               seg_resendts := k_current k + k_rx_rto k + rtomin\<rparr>
         | Timed_Out \<Rightarrow>
             let rto = (if \<not> k_nodelay k
                   then min (u32_sat_add (seg_rto s) (max (seg_rto s) (k_rx_rto k))) KCP_RTO_MAX
                   else min (u32_sat_add (seg_rto s) (seg_rto s div 2)) KCP_RTO_MAX)
             in x\<lparr>seg_rto := rto, seg_resendts := k_current k + rto\<rparr>
         | Fast_Resend \<Rightarrow> x\<lparr>seg_fastack := 0, seg_resendts := k_current k + seg_rto s\<rparr>)"

text \<open>The retransmission loop; the result carries \<^verbatim>\<open>lost\<close> and \<^verbatim>\<open>change\<close>.\<close>

fun flush_segments :: "u16 \<Rightarrow> u32 \<Rightarrow> u32 \<Rightarrow> kcp_segment list \<Rightarrow> kcp \<times> bool \<times> nat \<Rightarrow>
    kcp_segment list \<times> kcp \<times> bool \<times> nat" where
  "flush_segments wnd resent rtomin [] acc = ([], acc)"
| "flush_segments wnd resent rtomin (s # b) (k, lost, change) =
     (let why = resend_reason k resent s
      in if why = Not_Due then
           let (b1, acc) = flush_segments wnd resent rtomin b (k, lost, change) in (s # b1, acc)
         else
           let s1 = (reschedule k rtomin why s)
                 \<lparr>seg_ts := k_current k, seg_wnd := wnd, seg_una := k_rcv_nxt k\<rparr>;
               k1 = (if why = Timed_Out then k\<lparr>k_xmit := u32_sat_add (k_xmit k) 1\<rparr> else k);
               k2 = put_segment s1 (KCP_OVERHEAD + length (seg_data s1)) k1;
               k3 = (if k_dead_link k2 \<le> seg_xmit s1 then k2\<lparr>k_state := - 1\<rparr> else k2);
               (b1, acc) = flush_segments wnd resent rtomin b
                 (k3, lost \<or> why = Timed_Out, if why = Fast_Resend then change + 1 else change)
           in (s1 # b1, acc))"

definition after_fast_resend :: "u32 \<Rightarrow> kcp \<Rightarrow> kcp" where
  "after_fast_resend resent k =
     (let half = (ucast (k_snd_nxt k - k_snd_una k) :: u16) div 2;
          thresh = (if half < KCP_THRESH_MIN then KCP_THRESH_MIN else half);
          cwnd = ucast (min (u32_sat_add (ucast thresh) resent) 65535) :: u16
      in k\<lparr>k_ssthresh := thresh, k_cwnd := cwnd, k_incr := unat cwnd * k_mss k\<rparr>)"

definition after_loss :: "u16 \<Rightarrow> kcp \<Rightarrow> kcp" where
  "after_loss cwnd k =
     (let half = cwnd div 2
      in k\<lparr>k_ssthresh := if half < KCP_THRESH_MIN then KCP_THRESH_MIN else half,
           k_cwnd := 1, k_incr := k_mss k\<rparr>)"

definition send_window :: "kcp \<Rightarrow> u16" where
  "send_window k = (let w = min (k_snd_wnd k) (k_rmt_wnd k)
     in if k_nocwnd k then w else min (k_cwnd k) w)"

text \<open>The first half of \<^verbatim>\<open>flush\<close>: acknowledgements, probes and filling the window.\<close>

definition flush_prepare :: "kcp \<Rightarrow> kcp" where
  "flush_prepare k =
     (let (s, k1) = flush_ack_list (ack_template k, k);
          (s, k2) = flush_probe_commands (s, probe_wnd_size k1);
          (nxt, added, q) = fill_window k2 (send_window k2) (wnd_unused k) (k_snd_nxt k2) (k_snd_queue k2)
      in k2\<lparr>k_snd_nxt := nxt, k_snd_queue := q, k_snd_buf := k_snd_buf k2 @ added\<rparr>)"

definition resend_limit :: "kcp \<Rightarrow> u32" where
  "resend_limit k = (if 0 < k_fastresend k then k_fastresend k else - 1)"

definition rto_slack :: "kcp \<Rightarrow> u32" where
  "rto_slack k = (if \<not> k_nodelay k then drop_bit 3 (k_rx_rto k) else 0)"

definition kcp_flush :: "kcp \<Rightarrow> kcp \<times> unit kcp_result" where
  "kcp_flush k =
     (if \<not> k_updated k then (k, Inl NeedUpdate)
      else
        let k1 = flush_prepare k;
            cwnd = send_window k1;
            resent = resend_limit k1;
            (b, k2, lost, change) =
              flush_segments (wnd_unused k) resent (rto_slack k1) (k_snd_buf k1) (k1, False, 0);
            k3 = write_buf (k2\<lparr>k_snd_buf := b\<rparr>);
            k4 = (if 0 < change then after_fast_resend resent k3 else k3);
            k5 = (if lost then after_loss cwnd k4 else k4)
        in (if k_cwnd k5 < 1 then k5\<lparr>k_cwnd := 1, k_incr := k_mss k5\<rparr> else k5, Inr ()))"

definition kcp_update :: "u32 \<Rightarrow> kcp \<Rightarrow> kcp \<times> unit kcp_result" where
  "kcp_update current k =
     (let k1 = k\<lparr>k_current := current\<rparr>;
          k2 = (if \<not> k_updated k1 then k1\<lparr>k_updated := True, k_ts_flush := current\<rparr> else k1);
          slap = timediff current (k_ts_flush k2);
          (k3, slap) = (if \<not> (- 10000 \<le> slap \<and> slap < 10000)
                        then (k2\<lparr>k_ts_flush := current\<rparr>, 0) else (k2, slap))
      in if 0 \<le> slap then
           let next = k_ts_flush k3 + k_interval k3;
               k4 = k3\<lparr>k_ts_flush := if 0 \<le> timediff current next
                          then current + k_interval k3 else next\<rparr>
           in kcp_flush k4
         else (k3, Inr ()))"

section \<open>Timers, settings and observers\<close>

fun earliest_resend :: "u32 \<Rightarrow> kcp_segment list \<Rightarrow> u32 \<Rightarrow> u32 option" where
  "earliest_resend current [] tm = Some tm"
| "earliest_resend current (s # b) tm =
     (let diff = timediff (seg_resendts s) current
      in if diff \<le> 0 then None
         else earliest_resend current b (if word_of_int diff < tm then word_of_int diff else tm))"

definition kcp_check :: "u32 \<Rightarrow> kcp \<Rightarrow> u32" where
  "kcp_check current k =
     (if \<not> k_updated k then 0
      else
        let d = timediff current (k_ts_flush k);
            ts_flush = (if 10000 \<le> d \<or> d < - 10000 then current else k_ts_flush k)
        in if 0 \<le> timediff current ts_flush then 0
           else
             let tm_flush = word_of_int (timediff ts_flush current)
             in case earliest_resend current (k_snd_buf k) (- 1) of
                  None \<Rightarrow> 0
                | Some tm_packet \<Rightarrow>
                    let minimal = min tm_packet tm_flush
                    in if k_interval k \<le> minimal then k_interval k else minimal)"

text \<open>The size check of the scratch allocation in \<^verbatim>\<open>set_mtu\<close> cannot fail below 65536.\<close>

definition set_mtu :: "nat \<Rightarrow> kcp \<Rightarrow> kcp \<times> unit kcp_result" where
  "set_mtu mtu k =
     (if \<not> (50 \<le> mtu \<and> mtu \<le> 65535) then (k, Inl (InvalidMtu mtu))
      else if usize_max < (mtu + KCP_OVERHEAD) * 3 then (k, Inl (InvalidMtu mtu))
      else (k\<lparr>k_mtu := mtu, k_mss := mtu - KCP_OVERHEAD\<rparr>, Inr ()))"

definition set_interval :: "u32 \<Rightarrow> kcp \<Rightarrow> kcp" where
  "set_interval i k = k\<lparr>k_interval := min (max i 10) 5000\<rparr>"

definition set_nodelay :: "bool \<Rightarrow> int \<Rightarrow> int \<Rightarrow> bool \<Rightarrow> kcp \<Rightarrow> kcp" where
  "set_nodelay nodelay i resend nc k =
     (let k1 = k\<lparr>k_nodelay := nodelay, k_rx_minrto := if nodelay then KCP_RTO_NDL else KCP_RTO_MIN\<rparr>;
          k2 = k1\<lparr>k_interval := if i < 10 then 10 else if 5000 < i then 5000 else word_of_int i\<rparr>;
          k3 = (if 0 \<le> resend then k2\<lparr>k_fastresend := word_of_int resend\<rparr> else k2)
      in k3\<lparr>k_nocwnd := nc\<rparr>)"

definition set_wndsize :: "u16 \<Rightarrow> u16 \<Rightarrow> kcp \<Rightarrow> kcp" where
  "set_wndsize sndwnd rcvwnd k =
     (let k1 = (if 0 < sndwnd then k\<lparr>k_snd_wnd := sndwnd\<rparr> else k)
      in if 0 < rcvwnd then k1\<lparr>k_rcv_wnd := max rcvwnd KCP_WND_RCV\<rparr> else k1)"

definition wait_snd :: "kcp \<Rightarrow> nat" where
  "wait_snd k = length (k_snd_buf k) + length (k_snd_queue k)"

definition is_dead_link :: "kcp \<Rightarrow> bool" where
  "is_dead_link k \<longleftrightarrow> k_state k \<noteq> 0"

end
