(* ===== verification/Kcp_Adapter.thy ===== *)
theory Kcp_Adapter
  imports Kcp_Engine
begin

text \<open>
  \<^verbatim>\<open>RustKcpEngine\<close> of \<^verbatim>\<open>rnet-transport/src/kcp.rs\<close>: the adapter between the datagram driver
  and the KCP engine. It validates packets before the engine sees them, isolates an engine
  that panicked, bounds the bytes waiting for acknowledgement and counts retransmissions.
  The packet queue the adapter shares with its engine is the field \<open>k_output\<close> of the engine.
\<close>

section \<open>Retransmission telemetry\<close>

record kcp_telemetry =
  segments_sent :: nat
  retransmitted :: nat
  recent :: "bool list"
  recent_retransmitted :: nat

definition telemetry_default :: kcp_telemetry where
  "telemetry_default = \<lparr>segments_sent = 0, retransmitted = 0, recent = [], recent_retransmitted = 0\<rparr>"

definition telemetry_record :: "bool \<Rightarrow> kcp_telemetry \<Rightarrow> kcp_telemetry" where
  "telemetry_record retransmission t =
     (let t1 = t\<lparr>segments_sent := sat_add (segments_sent t) 1,
                 retransmitted := sat_add (retransmitted t) (of_bool retransmission)\<rparr>;
          t2 = (if length (recent t1) = 128
                then t1\<lparr>recent := tl (recent t1),
                        recent_retransmitted := recent_retransmitted t1 - of_bool (hd (recent t1))\<rparr>
                else t1)
      in t2\<lparr>recent := recent t2 @ [retransmission],
            recent_retransmitted := recent_retransmitted t2 + of_bool retransmission\<rparr>)"

definition telemetry_snapshot :: "kcp_telemetry \<Rightarrow> kcp_retransmission_snapshot" where
  "telemetry_snapshot t =
     (let recent_segments = length (recent t) mod 65536
      in \<lparr>ks_segments_sent = segments_sent t, ks_retransmitted = retransmitted t,
          ks_recent_segments = of_nat recent_segments,
          ks_recent_retransmitted = of_nat (recent_retransmitted t),
          ks_recent_retransmission_per_mille =
            (if recent_segments = 0 then 0
             else of_nat (min (recent_retransmitted t * 1000) u32_max div recent_segments))\<rparr>)"

section \<open>Reading packets at the boundary\<close>

text \<open>The fields the adapter reads from a segment at the head of a packet.\<close>

definition pkt_len :: "bytes \<Rightarrow> nat" where
  "pkt_len packet = unat (u32_from_le (subslice 20 24 packet))"

definition pkt_sn :: "bytes \<Rightarrow> u32" where
  "pkt_sn packet = u32_from_le (subslice 12 16 packet)"

definition pkt_una :: "bytes \<Rightarrow> u32" where
  "pkt_una packet = u32_from_le (subslice 16 20 packet)"

definition pkt_ts :: "bytes \<Rightarrow> u32" where
  "pkt_ts packet = u32_from_le (subslice 8 12 packet)"

definition pkt_wnd :: "bytes \<Rightarrow> u16" where
  "pkt_wnd packet = u16_from_le (subslice 6 8 packet)"

text \<open>
  Every loop below advances by \<open>24 + length\<close> bytes. \<^verbatim>\<open>24_usize.checked_add\<close> of a 32-bit length
  cannot overflow a 64-bit \<^verbatim>\<open>usize\<close>.
\<close>

function observe_push_segments :: "bytes \<Rightarrow> u32 set \<times> kcp_telemetry \<Rightarrow> u32 set \<times> kcp_telemetry" where
  "observe_push_segments packet (transmitted, telemetry) =
     (if length packet < 24 \<or> length packet < 24 + pkt_len packet then (transmitted, telemetry)
      else observe_push_segments (drop (24 + pkt_len packet) packet)
        (if packet ! 4 = 81
         then (insert (pkt_sn packet) transmitted,
               telemetry_record (pkt_sn packet \<in> transmitted) telemetry)
         else (transmitted, telemetry)))"
  by pat_completeness auto

termination
  by (relation "measure (length \<circ> fst)") auto

text \<open>
  \<open>retire_acked_sequences\<close> runs after the packet has passed validation, so its slices are in
  range; on other inputs it would stop at the panic of the slice, which the guard stands for.
\<close>

function retire_acked_sequences :: "bytes \<Rightarrow> u32 set \<Rightarrow> u32 set" where
  "retire_acked_sequences packet transmitted =
     (if length packet < 24 \<or> length packet < 24 + pkt_len packet then transmitted
      else
        let kept = Set.filter (\<lambda>sequence. sequence - pkt_una packet < 2147483648) transmitted
        in retire_acked_sequences (drop (24 + pkt_len packet) packet)
             (if packet ! 4 = 82 then Set.remove (pkt_sn packet) kept else kept))"
  by pat_completeness auto

termination
  by (relation "measure (length \<circ> fst)") auto

definition valid_segment :: "u32 \<Rightarrow> nat \<Rightarrow> bytes \<Rightarrow> bool" where
  "valid_segment now_ms maximum_payload packet \<longleftrightarrow>
     (let command = packet ! 4; fragment = packet ! 5;
          rtt = sint (now_ms - pkt_ts packet)
      in (command = 81 \<or> command = 82 \<or> command = 83 \<or> command = 84) \<and>
         pkt_wnd packet \<le> 128 \<and>
         pkt_len packet \<le> maximum_payload \<and>
         24 + pkt_len packet \<le> length packet \<and>
         (command = 81 \<or> pkt_len packet = 0) \<and>
         (if command = 81 then fragment < 128 else fragment = 0) \<and>
         (command = 82 \<longrightarrow> 0 \<le> rtt \<and> rtt \<le> 60000))"

function validate_segments :: "u32 \<Rightarrow> nat \<Rightarrow> bytes \<Rightarrow> unit result" where
  "validate_segments now_ms maximum_payload packet =
     (if packet = [] then Inr ()
      else if length packet < 24 then Inl ProtocolError
      else if \<not> valid_segment now_ms maximum_payload packet then Inl ProtocolError
      else validate_segments now_ms maximum_payload (drop (24 + pkt_len packet) packet))"
  by pat_completeness auto

termination
  by (relation "measure (\<lambda>(_, _, packet). length packet)") auto

definition validate_kcp_packet :: "bytes \<Rightarrow> u32 \<Rightarrow> nat \<Rightarrow> unit result" where
  "validate_kcp_packet packet now_ms maximum_payload =
     (if length packet < 24 then Inl ProtocolError
      else validate_segments now_ms maximum_payload packet)"

function ack_rtt_loop :: "u32 \<Rightarrow> bytes \<Rightarrow> u32 option \<Rightarrow> u32 option" where
  "ack_rtt_loop now_ms packet observed =
     (if length packet < 24 then observed
      else if length packet < 24 + pkt_len packet then None
      else ack_rtt_loop now_ms (drop (24 + pkt_len packet) packet)
        (if packet ! 4 = 82 then Some (now_ms - pkt_ts packet) else observed))"
  by pat_completeness auto

termination
  by (relation "measure (\<lambda>(_, packet, _). length packet)") auto

definition kcp_ack_rtt :: "bytes \<Rightarrow> u32 \<Rightarrow> u32 option" where
  "kcp_ack_rtt packet now_ms = ack_rtt_loop now_ms packet None"

definition map_kcp_error :: "kcp_error \<Rightarrow> error_code" where
  "map_kcp_error e = (case e of
       RecvQueueEmpty \<Rightarrow> WouldBlock
     | ExpectingFragment \<Rightarrow> WouldBlock
     | UserBufTooBig \<Rightarrow> MessageTooLarge
     | UserBufTooSmall \<Rightarrow> MessageTooLarge
     | KcpIoError \<Rightarrow> IoError
     | _ \<Rightarrow> ProtocolError)"

section \<open>The adapter\<close>

record rust_kcp =
  inner :: kcp
  now_ms :: nat
  observed_rtt :: "duration option"
  max_queued_bytes :: nat
  engine_failed :: bool
  transmitted_sequences :: "u32 set"
  telemetry :: kcp_telemetry

definition new_with_limits :: "u32 \<Rightarrow> nat \<Rightarrow> nat \<Rightarrow> rust_kcp result" where
  "new_with_limits conv mtu max_queued =
     (if max_queued = 0 then Inl InvalidArgument
      else
        case set_mtu mtu (set_wndsize 128 128 (set_nodelay True 10 2 True (kcp_new conv))) of
          (_, Inl e) \<Rightarrow> Inl (map_kcp_error e)
        | (k, Inr _) \<Rightarrow> Inr \<lparr>inner = k, now_ms = 0, observed_rtt = None,
            max_queued_bytes = max_queued, engine_failed = False,
            transmitted_sequences = {}, telemetry = telemetry_default\<rparr>)"

definition new_with_mtu :: "u32 \<Rightarrow> nat \<Rightarrow> rust_kcp result" where
  "new_with_mtu conv mtu = new_with_limits conv mtu (4 * 1024 * 1024)"

definition queued_bytes :: "rust_kcp \<Rightarrow> nat" where
  "queued_bytes e = sat_mul (wait_snd (inner e)) (k_mss (inner e))"

definition queued_bytes_for :: "nat \<Rightarrow> rust_kcp \<Rightarrow> nat" where
  "queued_bytes_for payload_len e =
     sat_mul (div_ceil payload_len (k_mss (inner e))) (k_mss (inner e))"

definition engine_input :: "bytes \<Rightarrow> nat \<Rightarrow> rust_kcp \<Rightarrow> rust_kcp \<times> unit result" where
  "engine_input packet now e =
     (if engine_failed e then (e, Inl ProtocolError)
      else case validate_kcp_packet packet (word_of_nat now) (k_mss (inner e)) of
        Inl err \<Rightarrow> (e, Inl err)
      | Inr _ \<Rightarrow>
          let (k, r) = kcp_input packet (inner e); e1 = e\<lparr>now_ms := now, inner := k\<rparr>
          in case r of
               None \<Rightarrow> (e1\<lparr>engine_failed := True, inner := k\<lparr>k_output := []\<rparr>\<rparr>, Inl ProtocolError)
             | Some (Inl err) \<Rightarrow> (e1, Inl (map_kcp_error err))
             | Some (Inr _) \<Rightarrow>
                 (e1\<lparr>observed_rtt := map_option (\<lambda>rtt. millis (unat rtt))
                        (kcp_ack_rtt packet (word_of_nat now)),
                     transmitted_sequences :=
                        retire_acked_sequences packet (transmitted_sequences e1)\<rparr>, Inr ()))"

text \<open>A panic of \<^verbatim>\<open>inner.send\<close> is not caught by the adapter: it is \<open>None\<close> here as well.\<close>

definition engine_send :: "bytes \<Rightarrow> rust_kcp \<Rightarrow> (rust_kcp \<times> unit result) option" where
  "engine_send payload e =
     (if engine_failed e then Some (e, Inl ProtocolError)
      else if max_queued_bytes e < sat_add (queued_bytes e) (queued_bytes_for (length payload) e)
        then Some (e, Inl WouldBlock)
      else case kcp_send payload (inner e) of
        None \<Rightarrow> None
      | Some (k, Inl err) \<Rightarrow> Some (e\<lparr>inner := k\<rparr>, Inl (map_kcp_error err))
      | Some (k, Inr _) \<Rightarrow> Some (e\<lparr>inner := k\<rparr>, Inr ()))"

definition engine_recv :: "rust_kcp \<Rightarrow> rust_kcp \<times> bytes option result" where
  "engine_recv e =
     (if engine_failed e then (e, Inl ProtocolError)
      else case peeksize (inner e) of
        Inl RecvQueueEmpty \<Rightarrow> (e, Inr None)
      | Inl ExpectingFragment \<Rightarrow> (e, Inr None)
      | Inl err \<Rightarrow> (e, Inl (map_kcp_error err))
      | Inr len \<Rightarrow>
          (case kcp_recv len (inner e) of
             (k, None) \<Rightarrow> (e\<lparr>inner := k, engine_failed := True\<rparr>, Inl ProtocolError)
           | (k, Some (Inl err)) \<Rightarrow> (e\<lparr>inner := k\<rparr>, Inl (map_kcp_error err))
           | (k, Some (Inr msg)) \<Rightarrow> (e\<lparr>inner := k\<rparr>, Inr (Some msg))))"

definition engine_update :: "nat \<Rightarrow> rust_kcp \<Rightarrow> rust_kcp \<times> bytes list" where
  "engine_update now e =
     (if engine_failed e then (e, [])
      else
        let e1 = e\<lparr>now_ms := now\<rparr>
        in case kcp_update (word_of_nat now) (inner e1) of
             (k, Inl _) \<Rightarrow> (e1\<lparr>inner := k\<rparr>, [])
           | (k, Inr _) \<Rightarrow>
               let (sent, t) = fold observe_push_segments (k_output k)
                     (transmitted_sequences e1, telemetry e1)
               in (e1\<lparr>inner := k\<lparr>k_output := []\<rparr>, transmitted_sequences := sent, telemetry := t\<rparr>,
                   k_output k))"

definition next_update_ms :: "rust_kcp \<Rightarrow> nat" where
  "next_update_ms e = sat_add (now_ms e) (unat (kcp_check (word_of_nat (now_ms e)) (inner e)))"

definition engine_new :: "u32 \<Rightarrow> rust_kcp result" where
  "engine_new conv = new_with_mtu conv 1200"

text \<open>A concrete engine, as \<^verbatim>\<open>RustKcpEngine::new(7)\<close> makes it.\<close>

definition demo_end :: rust_kcp where
  "demo_end = \<lparr>inner = fst (set_mtu 1200 (set_wndsize 128 128 (set_nodelay True 10 2 True (kcp_new 7)))),
     now_ms = 0, observed_rtt = None, max_queued_bytes = 4194304, engine_failed = False,
     transmitted_sequences = {}, telemetry = telemetry_default\<rparr>"

lemma demo_end_new: "new_with_limits 7 1200 4194304 = Inr demo_end"
  by (simp add: new_with_limits_def demo_end_def set_mtu_def KCP_OVERHEAD_def usize_max_def)

end
