(* ===== verification/Kcp_Window.thy ===== *)
theory Kcp_Window
  imports Kcp_Adapter
begin

text \<open>
  The windows of the KCP engine, with the sequence numbers unwrapped. A segment with the
  32-bit number \<open>w\<close> is the \<open>n\<close>-th segment of its direction when \<open>w = word_of_nat n\<close>; two
  numbers less than half the space apart compare by \<open>timediff\<close> as their positions do.
\<close>

section \<open>Serial numbers and the segment codec\<close>

lemma timediff_near:
  assumes "a < b + 2147483648" and "b < a + 2147483648"
  shows "timediff (word_of_nat a) (word_of_nat b) = int a - int b"
proof -
  have "(word_of_nat a - word_of_nat b :: u32) = word_of_int (int a - int b)"
    by simp
  then have "timediff (word_of_nat a) (word_of_nat b) = signed_take_bit 31 (int a - int b)"
    by (simp only: timediff_def sint_sbintrunc' ) simp
  also have "\<dots> = int a - int b"
    using assms by (intro signed_take_bit_int_eq_self) auto
  finally show ?thesis .
qed

lemma word_of_nat_near:
  assumes "(word_of_nat a :: u32) = word_of_nat b" and "a < b + 4294967296" and "b < a + 4294967296"
  shows "a = b"
proof -
  have "a mod 4294967296 = b mod 4294967296"
    using assms(1) by (simp add: word_of_nat_eq_iff take_bit_eq_mod)
  then have "int a mod 4294967296 = int b mod 4294967296"
    using of_nat_mod [of a 4294967296, where ?'a = int] of_nat_mod [of b 4294967296, where ?'a = int]
    by simp
  then have "(4294967296 :: int) dvd int a - int b"
    by (simp add: mod_eq_dvd_iff)
  then obtain c where c: "int a - int b = 4294967296 * c" by (rule dvdE)
  then have "c < 1" and "- 1 < c" using assms(2,3) by linarith+
  then show ?thesis using c by simp
qed

text \<open>What the wire keeps of a segment: the retransmission state stays behind.\<close>

definition wire_part :: "kcp_segment \<Rightarrow> kcp_segment" where
  "wire_part s = s\<lparr>seg_resendts := 0, seg_rto := 0, seg_fastack := 0, seg_xmit := 0\<rparr>"

lemma wire_part_simps [simp]:
  "seg_conv (wire_part s) = seg_conv s" "seg_cmd (wire_part s) = seg_cmd s"
  "seg_frg (wire_part s) = seg_frg s" "seg_wnd (wire_part s) = seg_wnd s"
  "seg_ts (wire_part s) = seg_ts s" "seg_sn (wire_part s) = seg_sn s"
  "seg_una (wire_part s) = seg_una s" "seg_data (wire_part s) = seg_data s"
  by (simp_all add: wire_part_def)

lemma length_seg_encode [simp]: "length (seg_encode s) = encoded_len s"
  by (simp add: seg_encode_def encoded_len_def KCP_OVERHEAD_def)

lemma header_len_encode:
  "length (seg_data s) \<le> u32_max \<Longrightarrow> header_len (seg_encode s @ rest) = length (seg_data s)"
  by (simp add: header_len_def seg_encode_def subslice_append_left unat_u32_of_nat del: of_nat_less_iff)

lemma read_segment_encode:
  "length (seg_data s) \<le> u32_max \<Longrightarrow> read_segment (seg_encode s @ rest) = wire_part s"
  by (cases s)
     (simp add: read_segment_def header_len_encode, simp add: seg_encode_def wire_part_def
        new_with_data_def encoded_len_def KCP_OVERHEAD_def)

section \<open>Numbered segment lists\<close>

text \<open>
  \<open>S\<close> is the stream of fragments of one direction: what the application handed to \<^verbatim>\<open>send\<close>,
  cut into fragment number and data. A segment list is numbered by \<open>ns\<close> when its segments are
  the fragments of the stream at those positions.
\<close>

type_synonym fragment = "u8 \<times> bytes"

definition content :: "kcp_segment \<Rightarrow> fragment" where
  "content s = (seg_frg s, seg_data s)"

definition numbered1 :: "fragment list \<Rightarrow> nat \<Rightarrow> kcp_segment \<Rightarrow> bool" where
  "numbered1 S n s \<longleftrightarrow> seg_sn s = word_of_nat n \<and> n < length S \<and> content s = S ! n"

abbreviation numbered :: "fragment list \<Rightarrow> nat list \<Rightarrow> kcp_segment list \<Rightarrow> bool" where
  "numbered S \<equiv> list_all2 (numbered1 S)"

lemma numbered1_append: "numbered1 S n s \<Longrightarrow> numbered1 (S @ T) n s"
  by (auto simp: numbered1_def nth_append)

lemma numbered_append: "numbered S ns segs \<Longrightarrow> numbered (S @ T) ns segs"
  by (erule list_all2_mono) (rule numbered1_append)

lemma numbered_same_key:
  "numbered1 S n s \<Longrightarrow> seg_sn s' = seg_sn s \<Longrightarrow> content s' = content s \<Longrightarrow> numbered1 S n s'"
  by (simp add: numbered1_def)

lemma timediff_zero_iff [simp]: "timediff a b = 0 \<longleftrightarrow> a = b"
  by (simp add: timediff_def signed_eq_0_iff)

lemma timediff_self [simp]: "timediff a a = 0"
  by simp

text \<open>Positions close enough to compare by \<open>timediff\<close>.\<close>

definition near :: "nat \<Rightarrow> nat \<Rightarrow> bool" where
  "near a b \<longleftrightarrow> a < b + 2147483648 \<and> b < a + 2147483648"

lemma near_timediff: "near a b \<Longrightarrow> timediff (word_of_nat a) (word_of_nat b) = int a - int b"
  by (simp add: near_def timediff_near)

lemma near_eq: "near a b \<Longrightarrow> (word_of_nat a :: u32) = word_of_nat b \<longleftrightarrow> a = b"
  using word_of_nat_near [of a b] by (auto simp: near_def)

lemma near_sym: "near a b \<Longrightarrow> near b a"
  by (simp add: near_def)

lemma numbered_dropWhile:
  assumes "numbered S ns segs" and "\<forall>n\<in>set ns. near u n"
  shows "numbered S (dropWhile (\<lambda>n. n < u) ns)
    (dropWhile (\<lambda>s. 0 < timediff (word_of_nat u) (seg_sn s)) segs)"
  using assms
proof (induction rule: list_all2_induct)
  case (Cons n ns s segs)
  then have "timediff (word_of_nat u) (seg_sn s) = int u - int n"
    by (simp add: numbered1_def near_timediff)
  then show ?case using Cons by auto
qed simp

lemma numbered_remove_acked:
  "numbered S ns segs \<Longrightarrow> sorted_wrt (<) ns \<Longrightarrow>
    \<exists>ns'. numbered S ns' (remove_acked w segs) \<and> sorted_wrt (<) ns' \<and> set ns' \<subseteq> set ns \<and>
      (\<forall>n\<in>set ns - set ns'. w = word_of_nat n)"
proof (induction ns segs rule: list_all2_induct)
  case (Cons n ns s segs)
  consider "w = seg_sn s" | "timediff w (seg_sn s) < 0" | "0 < timediff w (seg_sn s)"
    using timediff_zero_iff [of w "seg_sn s"] by linarith
  then show ?case
  proof cases
    case 1
    then have "w = word_of_nat n" using Cons.hyps by (simp add: numbered1_def)
    then show ?thesis using 1 Cons.hyps Cons.prems by (intro exI [of _ ns]) auto
  next
    case 2
    then show ?thesis using Cons.hyps Cons.prems by (intro exI [of _ "n # ns"]) auto
  next
    case 3
    obtain ns' where ns': "numbered S ns' (remove_acked w segs)" "sorted_wrt (<) ns'"
      "set ns' \<subseteq> set ns" "\<forall>n\<in>set ns - set ns'. w = word_of_nat n"
      using Cons.IH Cons.prems by auto
    have "remove_acked w (s # segs) = s # remove_acked w segs"
      using 3 by (auto simp: Let_def)
    then show ?thesis using ns' Cons.hyps Cons.prems by (intro exI [of _ "n # ns'"]) auto
  qed
qed simp

lemma numbered_mark_skipped: "numbered S ns segs \<Longrightarrow> numbered S ns (mark_skipped w ts segs)"
  by (induction rule: list_all2_induct) (auto simp: numbered1_def content_def)

lemma set_remove_acked: "set (remove_acked w segs) \<subseteq> set segs"
  by (induction w segs rule: remove_acked.induct) (auto simp: Let_def)

lemma map_mark_skipped [simp]:
  "map seg_sn (mark_skipped w ts segs) = map seg_sn segs"
  "map seg_cmd (mark_skipped w ts segs) = map seg_cmd segs"
  "map seg_conv (mark_skipped w ts segs) = map seg_conv segs"
  by (induction segs) auto

section \<open>The receive buffer\<close>

text \<open>The positions of the buffer, last first, after \<open>insert_rev\<close>.\<close>

fun insert_desc :: "nat \<Rightarrow> nat list \<Rightarrow> nat list" where
  "insert_desc n [] = [n]"
| "insert_desc n (m # ms) =
     (if m = n then m # ms else if m < n then n # m # ms else m # insert_desc n ms)"

lemma set_insert_desc [simp]: "set (insert_desc n ms) = insert n (set ms)"
  by (induction n ms rule: insert_desc.induct) auto

lemma sorted_insert_desc: "sorted_wrt (>) ms \<Longrightarrow> sorted_wrt (>) (insert_desc n ms)"
  by (induction n ms rule: insert_desc.induct) auto

lemma numbered_insert_rev:
  assumes "numbered S ms segs" and "\<forall>m\<in>set ms. near n m" and "numbered1 S n s"
  shows "numbered S (insert_desc n ms) (insert_rev s segs)"
  using assms(1,2)
proof (induction rule: list_all2_induct)
  case (Cons m ms t segs)
  have n: "near n m" using Cons.prems by simp
  have "seg_sn t = seg_sn s \<longleftrightarrow> m = n"
    using near_eq [OF n] Cons.hyps assms(3) by (auto simp: numbered1_def)
  moreover have "timediff (seg_sn s) (seg_sn t) = int n - int m"
    using near_timediff [OF n] Cons.hyps assms(3) by (simp add: numbered1_def)
  ultimately show ?case using Cons assms(3) by auto
qed (simp add: assms(3))

lemma numbered_insert:
  assumes "numbered S ms segs" and "sorted_wrt (<) ms" and "\<forall>m\<in>set ms. near n m"
    and "numbered1 S n s"
  shows "\<exists>ms'. numbered S ms' (rev (insert_rev s (rev segs))) \<and> sorted_wrt (<) ms' \<and>
    set ms' = insert n (set ms)"
proof (intro exI [of _ "rev (insert_desc n (rev ms))"] conjI)
  have "numbered S (rev ms) (rev segs)" using assms(1) by simp
  then show "numbered S (rev (insert_desc n (rev ms))) (rev (insert_rev s (rev segs)))"
    using numbered_insert_rev [of S "rev ms" "rev segs" n s] assms(3,4) by simp
  have "sorted_wrt (>) (rev ms)" using assms(2) by (simp add: sorted_wrt_rev)
  then show "sorted_wrt (<) (rev (insert_desc n (rev ms)))"
    using sorted_insert_desc [of "rev ms" n] by (simp add: sorted_wrt_rev)
qed simp

text \<open>
  \<open>move_avail\<close> takes a contiguous run of positions off the buffer, as far as the queue has
  room.
\<close>

lemma move_avail_numbered:
  assumes "numbered S ms b" and "sorted_wrt (<) ms" and "\<forall>m\<in>set ms. r \<le> m \<and> m < r + 65536"
    and "r \<le> length S" and "map content q = drop (r - length q) (take r S)" and "length q \<le> r"
    and "move_avail wnd (word_of_nat r) q b = (nxt, q', b')"
  shows "\<exists>r' ms'. nxt = word_of_nat r' \<and> r \<le> r' \<and> ms = [r..<r'] @ ms' \<and> numbered S ms' b' \<and>
    r' \<le> length S \<and> length q' = length q + (r' - r) \<and>
    map content q' = drop (r - length q) (take r' S)"
  using assms
proof (induction ms b arbitrary: r q rule: list_all2_induct)
  case Nil
  then show ?case by (intro exI [of _ r] exI [of _ "[]"]) auto
next
  case (Cons m ms s b)
  show ?case
  proof (cases "seg_sn s = word_of_nat r \<and> length q < unat wnd")
    case False
    then show ?thesis using Cons by (intro exI [of _ r] exI [of _ "m # ms"]) (auto split: if_splits)
  next
    case True
    have "near r m" using Cons.prems(2) by (auto simp: near_def)
    then have mr: "m = r" using True Cons.hyps near_eq by (auto simp: numbered1_def)
    have s: "content s = S ! r" "r < length S" using Cons.hyps mr by (auto simp: numbered1_def)
    have q: "map content (q @ [s]) = drop (r - length q) (take (Suc r) S)"
      using Cons.prems(4,5) s by (simp add: take_Suc_conv_app_nth)
    have b: "move_avail wnd (word_of_nat (Suc r)) (q @ [s]) b = (nxt, q', b')"
      using Cons.prems(6) True by (simp add: add.commute)
    have "\<forall>m\<in>set ms. Suc r \<le> m \<and> m < Suc r + 65536"
      using Cons.prems(1,2) mr by auto
    from Cons.IH [OF _ this _ _ _ b] obtain r' ms' where
      "nxt = word_of_nat r'" "Suc r \<le> r'" "ms = [Suc r..<r'] @ ms'" "numbered S ms' b'"
      "r' \<le> length S" "length q' = length (q @ [s]) + (r' - Suc r)"
      "map content q' = drop (Suc r - length (q @ [s])) (take r' S)"
      using Cons.prems q s by auto
    then show ?thesis using mr
      by (intro exI [of _ r'] exI [of _ ms']) (auto simp: upt_conv_Cons)
  qed
qed

section \<open>The send window\<close>

lemma content_stamp [simp]: "content (stamp k wnd nxt s) = content s"
  by (simp add: stamp_def content_def)

lemma stamp_simps [simp]:
  "seg_sn (stamp k wnd nxt s) = nxt" "seg_cmd (stamp k wnd nxt s) = KCP_CMD_PUSH"
  "seg_conv (stamp k wnd nxt s) = k_conv k"
  by (simp_all add: stamp_def)

lemma plus_window: "word_of_nat u + ucast (w :: u16) = (word_of_nat (u + unat w) :: u32)"
  by simp

text \<open>\<open>fill_window\<close> numbers the front of the queue from \<open>n\<close>, never past the window.\<close>

lemma fill_window_numbered:
  assumes "map content q = drop n S" and "n \<le> length S" and "k_snd_una k = word_of_nat u"
    and "u \<le> n" and "n \<le> u + 65535"
    and "fill_window k cwnd wnd (word_of_nat n) q = (nxt, added, q')"
  shows "\<exists>n'. n \<le> n' \<and> n' \<le> u + 65535 \<and> nxt = word_of_nat n' \<and> numbered S [n..<n'] added \<and>
    map content q' = drop n' S \<and> n' \<le> length S \<and>
    (\<forall>s\<in>set added. seg_cmd s = KCP_CMD_PUSH \<and> seg_conv s = k_conv k)"
  using assms
proof (induction q arbitrary: n nxt added q')
  case Nil
  then show ?case by (intro exI [of _ n]) auto
next
  case (Cons s q)
  define c where "c = unat cwnd"
  have cw: "c \<le> 65535" using unat_u16_le [of cwnd] by (simp add: u16_max_def c_def)
  have "near n (u + c)" using Cons.prems(4,5) cw by (simp add: near_def)
  then have td: "timediff (word_of_nat n) (k_snd_una k + ucast cwnd) = int n - int (u + c)"
    using near_timediff Cons.prems(3) unfolding c_def by (metis plus_window)
  show ?case
  proof (cases "n < u + c")
    case False
    then have "fill_window k cwnd wnd (word_of_nat n) (s # q) = (word_of_nat n, [], s # q)"
      using td by simp
    then show ?thesis using Cons.prems by (intro exI [of _ n]) auto
  next
    case True
    have l: "n < length S" using arg_cong [OF Cons.prems(1), of length] by simp
    then have S: "content s = S ! n" "map content q = drop (Suc n) S"
      using Cons.prems(1) by (simp_all flip: Cons_nth_drop_Suc [OF l])
    obtain added' where f: "fill_window k cwnd wnd (word_of_nat (Suc n)) q = (nxt, added', q')"
      and a: "added = stamp k wnd (word_of_nat n) s # added'"
      using Cons.prems(6) True td by (auto simp: add.commute split: prod.splits)
    from Cons.IH [OF S(2) _ Cons.prems(3) _ _ f] obtain n' where
      n': "Suc n \<le> n'" "n' \<le> u + 65535" "nxt = word_of_nat n'" "numbered S [Suc n..<n'] added'"
      "map content q' = drop n' S" "n' \<le> length S"
      "\<forall>s\<in>set added'. seg_cmd s = KCP_CMD_PUSH \<and> seg_conv s = k_conv k"
      using l Cons.prems(4) True cw by auto
    have "numbered1 S n (stamp k wnd (word_of_nat n) s)" using S l by (simp add: numbered1_def)
    then show ?thesis using a n'
      by (intro exI [of _ n']) (auto simp: upt_conv_Cons)
  qed
qed

section \<open>Packets\<close>

text \<open>A packet is the concatenation of encoded segments; \<open>P\<close> holds of each of them.\<close>

definition pkt_of :: "(kcp_segment \<Rightarrow> bool) \<Rightarrow> bytes \<Rightarrow> bool" where
  "pkt_of P bs \<longleftrightarrow> (\<exists>segs. bs = concat (map seg_encode segs) \<and> (\<forall>s\<in>set segs. P s))"

definition out_ok :: "(kcp_segment \<Rightarrow> bool) \<Rightarrow> kcp \<Rightarrow> bool" where
  "out_ok P k \<longleftrightarrow> pkt_of P (k_buf k) \<and> (\<forall>bs\<in>set (k_output k). pkt_of P bs)"

lemma pkt_of_Nil [simp]: "pkt_of P []"
  by (auto simp: pkt_of_def intro: exI [of _ "[]"])

lemma pkt_of_snoc: "pkt_of P bs \<Longrightarrow> P s \<Longrightarrow> pkt_of P (bs @ seg_encode s)"
proof -
  assume "pkt_of P bs" and s: "P s"
  then obtain segs where "bs = concat (map seg_encode segs)" "\<forall>s\<in>set segs. P s"
    by (auto simp: pkt_of_def)
  then show ?thesis using s unfolding pkt_of_def by (intro exI [of _ "segs @ [s]"]) auto
qed

lemma pkt_of_mono: "pkt_of P bs \<Longrightarrow> (\<And>s. P s \<Longrightarrow> Q s) \<Longrightarrow> pkt_of Q bs"
  by (auto simp: pkt_of_def)

lemma out_ok_mono: "out_ok P k \<Longrightarrow> (\<And>s. P s \<Longrightarrow> Q s) \<Longrightarrow> out_ok Q k"
  unfolding out_ok_def by (blast intro: pkt_of_mono)

lemma out_ok_write_buf [intro]: "out_ok P k \<Longrightarrow> out_ok P (write_buf k)"
  by (auto simp: out_ok_def write_buf_def output_write_def)

lemma out_ok_put_segment: "out_ok P k \<Longrightarrow> P s \<Longrightarrow> out_ok P (put_segment s need k)"
  by (auto simp: out_ok_def put_segment_def Let_def write_buf_def output_write_def pkt_of_snoc
      intro: pkt_of_snoc [of P "[]", simplified])

section \<open>The invariants of the two windows\<close>

text \<open>
  \<open>snd_inv S n ks k\<close>: of the stream \<open>S\<close> the engine has numbered the first \<open>n\<close> fragments, the
  rest is its send queue, and its send buffer holds those at the positions \<open>ks\<close>, all within the
  last 65535. \<open>rcv_inv S m r js k\<close>: of the first \<open>m\<close> fragments of \<open>S\<close> it has put \<open>r\<close> in order,
  the last of them are its receive queue, and its receive buffer holds those at \<open>js\<close>.
\<close>

definition first_no :: "nat list \<Rightarrow> nat \<Rightarrow> nat" where
  "first_no ks n = (case ks of [] \<Rightarrow> n | k # _ \<Rightarrow> k)"

definition snd_inv :: "fragment list \<Rightarrow> nat \<Rightarrow> nat list \<Rightarrow> kcp \<Rightarrow> bool" where
  "snd_inv S n ks k \<longleftrightarrow> k_snd_nxt k = word_of_nat n \<and> n \<le> length S \<and>
     map content (k_snd_queue k) = drop n S \<and> numbered S ks (k_snd_buf k) \<and> sorted_wrt (<) ks \<and>
     (\<forall>i\<in>set ks. i < n \<and> n \<le> i + 65535) \<and> k_snd_una k = word_of_nat (first_no ks n) \<and>
     (\<forall>s\<in>set (k_snd_buf k). seg_cmd s = KCP_CMD_PUSH \<and> seg_conv s = k_conv k)"

definition rcv_inv :: "fragment list \<Rightarrow> nat \<Rightarrow> nat \<Rightarrow> nat list \<Rightarrow> kcp \<Rightarrow> bool" where
  "rcv_inv S m r js k \<longleftrightarrow> k_rcv_nxt k = word_of_nat r \<and> r \<le> m \<and> m \<le> length S \<and>
     length (k_rcv_queue k) \<le> r \<and>
     map content (k_rcv_queue k) = drop (r - length (k_rcv_queue k)) (take r S) \<and>
     numbered S js (k_rcv_buf k) \<and> sorted_wrt (<) js \<and>
     (\<forall>j\<in>set js. r \<le> j \<and> j < r + 65535 \<and> j < m)"

definition received :: "nat \<Rightarrow> nat list \<Rightarrow> nat set" where
  "received r js = {..<r} \<union> set js"

definition ack_inv :: "nat set \<Rightarrow> nat \<Rightarrow> kcp \<Rightarrow> bool" where
  "ack_inv recv lo k \<longleftrightarrow>
     (\<forall>a\<in>set (k_acklist k). \<exists>n\<in>recv. fst a = word_of_nat n \<and> lo \<le> n + 1073872896)"

text \<open>A segment of the peer that is recent enough to be understood.\<close>

definition fresh_seg :: "u32 \<Rightarrow> fragment list \<Rightarrow> nat \<Rightarrow> nat set \<Rightarrow> nat \<Rightarrow> kcp_segment \<Rightarrow> bool" where
  "fresh_seg conv S m acked n s \<longleftrightarrow> seg_conv s = conv \<and> length (seg_data s) \<le> u32_max \<and>
     (\<exists>u. seg_una s = word_of_nat u \<and> {..<u} \<subseteq> acked \<and> u \<le> n \<and> n < u + 2147483648) \<and>
     (seg_cmd s = KCP_CMD_PUSH \<and> (\<exists>i<m. numbered1 S i s \<and> m \<le> i + 1073872896) \<or>
      seg_cmd s = KCP_CMD_ACK \<and>
        (\<exists>i\<in>acked. seg_sn s = word_of_nat i \<and> i < n \<and> n < i + 4294967296) \<or>
      seg_cmd s = KCP_CMD_WASK \<or> seg_cmd s = KCP_CMD_WINS)"

lemma snd_invD:
  assumes "snd_inv S n ks k"
  shows "k_snd_nxt k = word_of_nat n" and "n \<le> length S" and "map content (k_snd_queue k) = drop n S"
    and "numbered S ks (k_snd_buf k)" and "sorted_wrt (<) ks" and "\<forall>i\<in>set ks. i < n \<and> n \<le> i + 65535"
    and "k_snd_una k = word_of_nat (first_no ks n)"
    and "\<forall>s\<in>set (k_snd_buf k). seg_cmd s = KCP_CMD_PUSH \<and> seg_conv s = k_conv k"
  using assms by (simp_all add: snd_inv_def)

lemma rcv_invD:
  assumes "rcv_inv S m r js k"
  shows "k_rcv_nxt k = word_of_nat r" and "r \<le> m" and "m \<le> length S" and "length (k_rcv_queue k) \<le> r"
    and "map content (k_rcv_queue k) = drop (r - length (k_rcv_queue k)) (take r S)"
    and "numbered S js (k_rcv_buf k)" and "sorted_wrt (<) js" and "\<forall>j\<in>set js. r \<le> j \<and> j < r + 65535 \<and> j < m"
  using assms by (simp_all add: rcv_inv_def)

lemma snd_inv_near:
  assumes "snd_inv S n ks k" and "u \<le> n" and "n < u + 2147483648" and "i \<in> set ks"
  shows "near u i"
  using assms by (auto simp: snd_inv_def near_def)

lemma first_no_numbered:
  "numbered S ks b \<Longrightarrow> (case b of s # _ \<Rightarrow> seg_sn s | [] \<Rightarrow> word_of_nat n) = word_of_nat (first_no ks n)"
  by (cases ks; cases b) (auto simp: first_no_def numbered1_def)

lemma snd_inv_shrink:
  assumes "snd_inv S n ks k" and "numbered S ks' b" and "sorted_wrt (<) ks'" and "set ks' \<subseteq> set ks"
    and "set b \<subseteq> set (k_snd_buf k)"
  shows "snd_inv S n ks' (shrink_buf (k\<lparr>k_snd_buf := b\<rparr>))"
  using assms first_no_numbered [OF assms(2), of n]
  by (cases b) (auto simp: snd_inv_def shrink_buf_def)

lemma snd_inv_frame:
  assumes "snd_inv S n ks k" and "k_snd_nxt k' = k_snd_nxt k" and "k_snd_queue k' = k_snd_queue k"
    and "k_snd_buf k' = k_snd_buf k" and "k_snd_una k' = k_snd_una k" and "k_conv k' = k_conv k"
  shows "snd_inv S n ks k'"
  using assms by (simp add: snd_inv_def)

lemma rcv_inv_frame:
  assumes "rcv_inv S m r js k" and "k_rcv_nxt k' = k_rcv_nxt k" and "k_rcv_queue k' = k_rcv_queue k"
    and "k_rcv_buf k' = k_rcv_buf k"
  shows "rcv_inv S m r js k'"
  using assms by (simp add: rcv_inv_def)

lemma parse_una_snd_inv:
  assumes "snd_inv S n ks k" and "u \<le> n" and "n < u + 2147483648"
  shows "snd_inv S n (dropWhile (\<lambda>i. i < u) ks) (shrink_buf (parse_una (word_of_nat u) k))"
proof -
  have "numbered S ks (k_snd_buf k)" "sorted_wrt (<) ks" using assms(1) by (auto simp: snd_inv_def)
  then show ?thesis unfolding parse_una_def
    by (intro snd_inv_shrink [OF assms(1)] numbered_dropWhile)
       (auto simp: snd_inv_near [OF assms] sorted_wrt_dropWhile dest: set_dropWhileD)
qed

lemma dropWhile_removed: "i \<in> set ks \<Longrightarrow> i \<notin> set (dropWhile P ks) \<Longrightarrow> P i"
  by (metis Un_iff set_append set_takeWhileD takeWhile_dropWhile_id)

lemma parse_ack_snd_inv:
  assumes "snd_inv S n ks k" and "i < n" and "n < i + 4294967296"
  shows "\<exists>ks'. snd_inv S n ks' (shrink_buf (parse_ack (word_of_nat i) k)) \<and> set ks' \<subseteq> set ks \<and>
    set ks \<subseteq> insert i (set ks')"
proof (cases "outside_window (word_of_nat i) k")
  case True
  have "snd_inv S n ks (shrink_buf (k\<lparr>k_snd_buf := k_snd_buf k\<rparr>))"
    using assms(1) by (intro snd_inv_shrink [OF assms(1)]) (auto simp: snd_inv_def)
  then show ?thesis using True by (auto simp: parse_ack_def)
next
  case False
  have ks: "numbered S ks (k_snd_buf k)" "sorted_wrt (<) ks" using assms(1) by (auto simp: snd_inv_def)
  then obtain ks' where ks': "numbered S ks' (remove_acked (word_of_nat i) (k_snd_buf k))"
    "sorted_wrt (<) ks'" "set ks' \<subseteq> set ks" and rem: "\<forall>j\<in>set ks - set ks'. word_of_nat i = (word_of_nat j :: u32)"
    using numbered_remove_acked [OF ks, of "word_of_nat i"] by blast
  have "j = i" if "j \<in> set ks - set ks'" for j
    using rem that assms by (intro word_of_nat_near) (auto simp: snd_inv_def)
  moreover have "snd_inv S n ks' (shrink_buf (parse_ack (word_of_nat i) k))"
    using False ks' by (auto simp: parse_ack_def dest: subsetD [OF set_remove_acked]
        intro!: snd_inv_shrink [OF assms(1)])
  ultimately show ?thesis using ks'(3) by auto
qed

lemma parse_fastack_snd_inv: "snd_inv S n ks k \<Longrightarrow> snd_inv S n ks (parse_fastack w ts k)"
proof -
  assume i: "snd_inv S n ks k"
  have "seg_cmd s = KCP_CMD_PUSH \<and> seg_conv s = k_conv k" if "s \<in> set (mark_skipped w ts (k_snd_buf k))" for s
  proof -
    have "seg_cmd s \<in> set (map seg_cmd (mark_skipped w ts (k_snd_buf k)))"
      and "seg_conv s \<in> set (map seg_conv (mark_skipped w ts (k_snd_buf k)))"
      using that by (simp_all only: set_map imageI)
    then show ?thesis using i unfolding map_mark_skipped by (auto simp: snd_inv_def)
  qed
  then show ?thesis using i
    by (auto simp: snd_inv_def parse_fastack_def numbered_mark_skipped)
qed

text \<open>Storing a fragment and moving what is in order to the queue.\<close>

lemma move_buf_rcv_inv:
  assumes "rcv_inv S m r js k"
  shows "\<exists>r' js'. rcv_inv S m r' js' (move_buf k) \<and> r \<le> r' \<and> received r js \<subseteq> received r' js' \<and>
    length (k_rcv_queue (move_buf k)) = length (k_rcv_queue k) + (r' - r)"
proof -
  obtain nxt q b where mv: "move_avail (k_rcv_wnd k) (k_rcv_nxt k) (k_rcv_queue k) (k_rcv_buf k) = (nxt, q, b)"
    by (cases "move_avail (k_rcv_wnd k) (k_rcv_nxt k) (k_rcv_queue k) (k_rcv_buf k)")
  from assms have i: "numbered S js (k_rcv_buf k)" "sorted_wrt (<) js"
    "\<forall>j\<in>set js. r \<le> j \<and> j < r + 65536" "r \<le> length S"
    "map content (k_rcv_queue k) = drop (r - length (k_rcv_queue k)) (take r S)"
    "length (k_rcv_queue k) \<le> r" "\<forall>j\<in>set js. r \<le> j \<and> j < r + 65535 \<and> j < m" "r \<le> m" "m \<le> length S"
    and nxt: "k_rcv_nxt k = word_of_nat r"
    by (auto simp: rcv_inv_def)
  obtain r' js' where r': "nxt = word_of_nat r'" "r \<le> r'" "js = [r..<r'] @ js'" "numbered S js' b"
    "r' \<le> length S" "length q = length (k_rcv_queue k) + (r' - r)"
    "map content q = drop (r - length (k_rcv_queue k)) (take r' S)"
    using move_avail_numbered [OF i(1-6) mv [unfolded nxt]] by blast
  have run: "i \<in> set js" "i \<notin> set js'" if "r \<le> i" "i < r'" for i
    using that i(2) by (auto simp: r'(3) sorted_wrt_append)
  have m: "r' \<le> m" using run(1) [of m] i(7,8) by force
  have "r' \<le> j \<and> j < r' + 65535 \<and> j < m" if "j \<in> set js'" for j
  proof -
    have "r \<le> j" "j < r + 65535" "j < m" using that i(7) r'(3) by auto
    then show ?thesis using run(2) [of j] that r'(2) by linarith
  qed
  moreover have "sorted_wrt (<) js'" using i(2) r'(3) by (simp add: sorted_wrt_append)
  moreover have "length q \<le> r'" "r' - length q = r - length (k_rcv_queue k)"
    using i(6) r'(2,6) by auto
  ultimately have "rcv_inv S m r' js' (move_buf k)"
    using r'(1,4,7) m i(9) by (simp add: rcv_inv_def move_buf_def mv)
  moreover have "received r js \<subseteq> received r' js'" using r'(2,3) by (auto simp: received_def)
  moreover have "length (k_rcv_queue (move_buf k)) = length (k_rcv_queue k) + (r' - r)"
    using r'(6) by (simp add: move_buf_def mv)
  ultimately show ?thesis using r'(2) by blast
qed

lemma wnd_le: "unat (w :: u16) \<le> 65535"
  using unat_u16_le [of w] by (simp add: u16_max_def)

lemma near_order:
  assumes "near a b"
  shows "timediff (word_of_nat a) (word_of_nat b) < 0 \<longleftrightarrow> a < b"
    and "0 \<le> timediff (word_of_nat a) (word_of_nat b) \<longleftrightarrow> b \<le> a"
  using near_timediff [OF assms] by auto

lemma rcv_inv_window:
  assumes "rcv_inv S m r js k" and "m \<le> r + 131072" and "i < m" and "m \<le> i + 1073872896"
  shows "timediff (word_of_nat i) (k_rcv_nxt k) < 0 \<longleftrightarrow> i < r"
    and "0 \<le> timediff (word_of_nat i) (k_rcv_nxt k) \<longleftrightarrow> r \<le> i"
    and "timediff (word_of_nat i) (k_rcv_nxt k + ucast (k_rcv_wnd k)) < 0 \<longleftrightarrow> i < r + unat (k_rcv_wnd k)"
    and "0 \<le> timediff (word_of_nat i) (k_rcv_nxt k + ucast (k_rcv_wnd k)) \<longleftrightarrow> r + unat (k_rcv_wnd k) \<le> i"
proof -
  have r: "k_rcv_nxt k = word_of_nat r" "r \<le> m" using assms(1) by (auto simp: rcv_inv_def)
  have n: "near i r" "near i (r + unat (k_rcv_wnd k))"
    using assms(2-4) r(2) wnd_le [of "k_rcv_wnd k"] by (auto simp: near_def)
  show "timediff (word_of_nat i) (k_rcv_nxt k) < 0 \<longleftrightarrow> i < r"
    and "0 \<le> timediff (word_of_nat i) (k_rcv_nxt k) \<longleftrightarrow> r \<le> i"
    and "timediff (word_of_nat i) (k_rcv_nxt k + ucast (k_rcv_wnd k)) < 0 \<longleftrightarrow> i < r + unat (k_rcv_wnd k)"
    and "0 \<le> timediff (word_of_nat i) (k_rcv_nxt k + ucast (k_rcv_wnd k)) \<longleftrightarrow> r + unat (k_rcv_wnd k) \<le> i"
    unfolding r(1) plus_window by (rule near_order [OF n(1)] near_order [OF n(2)])+
qed

lemma parse_data_rcv_inv:
  assumes i: "rcv_inv S m r js k" and m: "m \<le> r + 131072" and s: "numbered1 S i s"
    and lim: "i < m" "m \<le> i + 1073872896" and w: "r \<le> i" "i < r + unat (k_rcv_wnd k)"
  shows "\<exists>r' js'. rcv_inv S m r' js' (parse_data s k) \<and> r \<le> r' \<and>
    insert i (received r js) \<subseteq> received r' js' \<and>
    length (k_rcv_queue (parse_data s k)) = length (k_rcv_queue k) + (r' - r)"
proof -
  define k1 where "k1 = k\<lparr>k_rcv_buf := rev (insert_rev s (rev (k_rcv_buf k)))\<rparr>"
  have sn: "seg_sn s = word_of_nat i" using s by (simp add: numbered1_def)
  have pd: "parse_data s k = move_buf k1"
    using rcv_inv_window [OF i m lim] w by (simp add: parse_data_def sn k1_def)
  have "near i j" if "j \<in> set js" for j
    using that i w wnd_le [of "k_rcv_wnd k"] by (auto simp: rcv_inv_def near_def)
  then obtain js1 where js1: "numbered S js1 (k_rcv_buf k1)" "sorted_wrt (<) js1"
    "set js1 = insert i (set js)"
    using numbered_insert [of S js "k_rcv_buf k" i s] i s unfolding k1_def by (auto simp: rcv_inv_def)
  have "i < r + 65535" using w(2) wnd_le [of "k_rcv_wnd k"] by linarith
  then have "rcv_inv S m r js1 k1" using i js1 lim(1) w(1) by (auto simp: rcv_inv_def k1_def)
  moreover have "length (k_rcv_queue k1) = length (k_rcv_queue k)" by (simp add: k1_def)
  ultimately show ?thesis
    using move_buf_rcv_inv [of S m r js1 k1] js1(3) unfolding pd by (auto simp: received_def)
qed

section \<open>One segment of input\<close>

text \<open>
  What one fresh segment does: fragments leave the send buffer only when the peer has them, and
  whatever is put on the acknowledgement list has been received.
\<close>

definition input_inv :: "fragment list \<Rightarrow> nat \<Rightarrow> nat list \<Rightarrow> fragment list \<Rightarrow> nat \<Rightarrow> nat \<Rightarrow> nat \<Rightarrow>
    nat list \<Rightarrow> nat \<Rightarrow> kcp \<Rightarrow> bool" where
  "input_inv S n ks S' m b r js lo k \<longleftrightarrow> snd_inv S n ks k \<and> rcv_inv S' m r js k \<and>
     ack_inv (received r js) lo k \<and> lo \<le> r \<and> m \<le> r + 131072 \<and> b + length (k_rcv_queue k) = r"

definition input_step :: "nat set \<Rightarrow> nat list \<Rightarrow> nat list \<Rightarrow> nat \<Rightarrow> nat list \<Rightarrow> nat \<Rightarrow> nat list \<Rightarrow> bool" where
  "input_step acked ks ks' r js r' js' \<longleftrightarrow> set ks' \<subseteq> set ks \<and> set ks - set ks' \<subseteq> acked \<and>
     r \<le> r' \<and> received r js \<subseteq> received r' js'"

lemma ack_inv_mono:
  "ack_inv A lo k \<Longrightarrow> A \<subseteq> B \<Longrightarrow> k_acklist k' = k_acklist k \<Longrightarrow> ack_inv B lo k'"
  unfolding ack_inv_def by (metis subsetD)

lemma input_step_refl: "input_step acked ks ks r js r js"
  by (simp add: input_step_def)

lemma input_step_trans:
  "input_step acked ks ks1 r js r1 js1 \<Longrightarrow> input_step acked ks1 ks2 r1 js1 r2 js2 \<Longrightarrow>
    input_step acked ks ks2 r js r2 js2"
  by (auto simp: input_step_def)

lemma parse_data_frame [simp]:
  "k_snd_nxt (parse_data s k) = k_snd_nxt k" "k_snd_queue (parse_data s k) = k_snd_queue k"
  "k_snd_buf (parse_data s k) = k_snd_buf k" "k_snd_una (parse_data s k) = k_snd_una k"
  "k_conv (parse_data s k) = k_conv k" "k_acklist (parse_data s k) = k_acklist k"
  "k_mss (parse_data s k) = k_mss k" "k_mtu (parse_data s k) = k_mtu k"
  "k_buf (parse_data s k) = k_buf k" "k_output (parse_data s k) = k_output k"
  "k_stream (parse_data s k) = k_stream k" "k_input_conv (parse_data s k) = k_input_conv k"
  by (auto simp: parse_data_def move_buf_def split: prod.splits)

lemma update_ack_frame [simp]:
  "k_snd_nxt (update_ack w k) = k_snd_nxt k" "k_snd_queue (update_ack w k) = k_snd_queue k"
  "k_snd_buf (update_ack w k) = k_snd_buf k" "k_snd_una (update_ack w k) = k_snd_una k"
  "k_conv (update_ack w k) = k_conv k" "k_acklist (update_ack w k) = k_acklist k"
  "k_rcv_nxt (update_ack w k) = k_rcv_nxt k" "k_rcv_queue (update_ack w k) = k_rcv_queue k"
  "k_rcv_buf (update_ack w k) = k_rcv_buf k" "k_rcv_wnd (update_ack w k) = k_rcv_wnd k"
  "k_mss (update_ack w k) = k_mss k" "k_mtu (update_ack w k) = k_mtu k"
  "k_buf (update_ack w k) = k_buf k" "k_output (update_ack w k) = k_output k"
  "k_stream (update_ack w k) = k_stream k" "k_input_conv (update_ack w k) = k_input_conv k"
  by (auto simp: update_ack_def Let_def)

lemma ack_parts_frame [simp]:
  "k_rcv_nxt (shrink_buf k) = k_rcv_nxt k" "k_rcv_queue (shrink_buf k) = k_rcv_queue k"
  "k_rcv_buf (shrink_buf k) = k_rcv_buf k" "k_rcv_wnd (shrink_buf k) = k_rcv_wnd k"
  "k_acklist (shrink_buf k) = k_acklist k" "k_conv (shrink_buf k) = k_conv k"
  "k_rcv_nxt (parse_ack w k) = k_rcv_nxt k" "k_rcv_queue (parse_ack w k) = k_rcv_queue k"
  "k_rcv_buf (parse_ack w k) = k_rcv_buf k" "k_acklist (parse_ack w k) = k_acklist k"
  "k_conv (parse_ack w k) = k_conv k"
  "k_rcv_nxt (parse_una w k) = k_rcv_nxt k" "k_rcv_queue (parse_una w k) = k_rcv_queue k"
  "k_rcv_buf (parse_una w k) = k_rcv_buf k" "k_acklist (parse_una w k) = k_acklist k"
  "k_conv (parse_una w k) = k_conv k" "k_rcv_wnd (parse_una w k) = k_rcv_wnd k"
  by (simp_all add: shrink_buf_def parse_ack_def parse_una_def)

definition windows :: "kcp \<Rightarrow> (u32 \<times> u32 \<times> u32 \<times> u32) \<times> (kcp_segment list \<times> kcp_segment list) \<times>
    (kcp_segment list \<times> kcp_segment list) \<times> (u32 \<times> u32) list" where
  "windows k = ((k_snd_nxt k, k_snd_una k, k_rcv_nxt k, k_conv k), (k_snd_queue k, k_snd_buf k),
     (k_rcv_queue k, k_rcv_buf k), k_acklist k)"

lemma input_inv_frame:
  "input_inv S n ks S' m b r js lo k \<Longrightarrow> windows k' = windows k \<Longrightarrow> input_inv S n ks S' m b r js lo k'"
  by (simp add: input_inv_def snd_inv_def rcv_inv_def ack_inv_def windows_def)

text \<open>The cumulative acknowledgement every segment carries.\<close>

lemma input_una:
  assumes "input_inv S n ks S' m b r js lo k" and "fresh_seg (k_conv k) S' m acked n s"
  shows "\<exists>ks'. input_inv S n ks' S' m b r js lo (shrink_buf (parse_una (seg_una s) (k\<lparr>k_rmt_wnd := w\<rparr>))) \<and>
    input_step acked ks ks' r js r js"
proof -
  obtain u where u: "seg_una s = word_of_nat u" "{..<u} \<subseteq> acked" "u \<le> n" "n < u + 2147483648"
    using assms(2) by (auto simp: fresh_seg_def)
  define k1 where "k1 = k\<lparr>k_rmt_wnd := w\<rparr>"
  have i: "snd_inv S n ks k1" using assms(1) by (auto simp: input_inv_def snd_inv_def k1_def)
  have "input_inv S n (dropWhile (\<lambda>i. i < u) ks) S' m b r js lo (shrink_buf (parse_una (seg_una s) k1))"
    using assms(1) parse_una_snd_inv [OF i u(3,4)] unfolding u(1)
    by (auto simp: input_inv_def k1_def ack_inv_def intro: rcv_inv_frame)
  moreover have "input_step acked ks (dropWhile (\<lambda>i. i < u) ks) r js r js"
    using u(2) by (auto simp: input_step_def dest: set_dropWhileD dropWhile_removed)
  ultimately show ?thesis unfolding k1_def by blast
qed

lemma input_ack:
  assumes "input_inv S n ks S' m b r js lo k" and "i \<in> acked" and "i < n" and "n < i + 4294967296"
  shows "\<exists>ks'. input_inv S n ks' S' m b r js lo (shrink_buf (parse_ack (word_of_nat i) k)) \<and>
    input_step acked ks ks' r js r js"
proof -
  have "snd_inv S n ks k" using assms(1) by (simp add: input_inv_def)
  from parse_ack_snd_inv [OF this assms(3,4)] obtain ks' where
    "snd_inv S n ks' (shrink_buf (parse_ack (word_of_nat i) k))" "set ks' \<subseteq> set ks"
    "set ks \<subseteq> insert i (set ks')"
    by blast
  then show ?thesis using assms(1,2)
    by (intro exI [of _ ks']) (auto simp: input_inv_def input_step_def ack_inv_def intro: rcv_inv_frame)
qed

lemma input_push:
  assumes inv: "input_inv S n ks S' m b r js lo k" and s: "numbered1 S' i s"
    and lim: "i < m" "m \<le> i + 1073872896" and w: "i < r + unat (k_rcv_wnd k)"
  shows "\<exists>r' js'. input_inv S n ks S' m b r' js' lo
      (if 0 \<le> timediff (seg_sn s) (k_rcv_nxt k) then parse_data s (ack_push (seg_sn s) ts k)
       else ack_push (seg_sn s) ts k) \<and> input_step acked ks ks r js r' js'"
proof -
  define k1 where "k1 = ack_push (seg_sn s) ts k"
  have sn: "seg_sn s = word_of_nat i" using s by (simp add: numbered1_def)
  have i: "snd_inv S n ks k" "rcv_inv S' m r js k" "m \<le> r + 131072" "lo \<le> r" "b + length (k_rcv_queue k1) = r"
    using inv by (auto simp: input_inv_def k1_def ack_push_def)
  have k1: "rcv_inv S' m r js k1" "snd_inv S n ks k1" "k_rcv_wnd k1 = k_rcv_wnd k"
    using i by (auto simp: k1_def ack_push_def snd_inv_def intro: rcv_inv_frame)
  have lo: "lo \<le> i + 1073872896" using i lim by (auto simp: rcv_inv_def)
  have ack: "ack_inv A lo k'" if "insert i (received r js) \<subseteq> A" "k_acklist k' = k_acklist k1" for A k'
    using inv that lo unfolding input_inv_def ack_inv_def k1_def ack_push_def sn
    by (auto, metis fst_conv subsetD)
  show ?thesis
  proof (cases "r \<le> i")
    case True
    obtain r' js' where p: "rcv_inv S' m r' js' (parse_data s k1)" "r \<le> r'"
      "insert i (received r js) \<subseteq> received r' js'"
      "length (k_rcv_queue (parse_data s k1)) = length (k_rcv_queue k1) + (r' - r)"
      using parse_data_rcv_inv [OF k1(1) i(3) s lim True] w k1(3) by auto
    then have "input_inv S n ks S' m b r' js' lo (parse_data s k1)"
      using i k1 ack [OF p(3)] by (auto simp: input_inv_def intro: snd_inv_frame [OF k1(2)])
    moreover have "input_step acked ks ks r js r' js'" using p by (auto simp: input_step_def)
    ultimately show ?thesis
      using rcv_inv_window(2) [OF i(2,3) lim] True unfolding sn k1_def by auto
  next
    case False
    then have "insert i (received r js) \<subseteq> received r js" by (auto simp: received_def)
    then have "input_inv S n ks S' m b r js lo k1" using i k1 ack by (auto simp: input_inv_def)
    then show ?thesis using rcv_inv_window(2) [OF i(2,3) lim] False input_step_refl
      unfolding sn k1_def by (intro exI [of _ r] exI [of _ js]) auto
  qed
qed

lemma ack_push_nxt [simp]: "k_rcv_nxt (ack_push w ts k) = k_rcv_nxt k"
  by (simp add: ack_push_def)

lemma input_segment_inv:
  assumes inv: "input_inv S n ks S' m b r js lo k" and s: "fresh_seg (k_conv k) S' m acked n s"
  shows "\<exists>ks' r' js'. input_inv S n ks' S' m b r' js' lo (fst (input_segment s (k, t))) \<and>
    input_step acked ks ks' r js r' js'"
proof -
  define k1 where "k1 = shrink_buf (parse_una (seg_una s) (k\<lparr>k_rmt_wnd := seg_wnd s\<rparr>))"
  from input_una [OF inv s] obtain ks1 where k1: "input_inv S n ks1 S' m b r js lo k1"
    "input_step acked ks ks1 r js r js"
    unfolding k1_def by blast
  note st = input_step_trans [OF k1(2)]
  have nx: "k_rcv_nxt k = k_rcv_nxt k1" "k_rcv_wnd k = k_rcv_wnd k1" by (simp_all add: k1_def)
  from s consider (push) i where "seg_cmd s = KCP_CMD_PUSH" "i < m" "numbered1 S' i s" "m \<le> i + 1073872896"
    | (ack) i where "seg_cmd s = KCP_CMD_ACK" "i \<in> acked" "seg_sn s = word_of_nat i" "i < n" "n < i + 4294967296"
    | (wask) "seg_cmd s = KCP_CMD_WASK" | (wins) "seg_cmd s = KCP_CMD_WINS"
    by (auto simp: fresh_seg_def)
  then show ?thesis
  proof cases
    case push
    have i1: "rcv_inv S' m r js k1" "m \<le> r + 131072" using k1(1) by (auto simp: input_inv_def)
    have sn: "seg_sn s = word_of_nat i" using push(3) by (simp add: numbered1_def)
    show ?thesis
    proof (cases "i < r + unat (k_rcv_wnd k1)")
      case True
      then have "fst (input_segment s (k, t)) = (if 0 \<le> timediff (seg_sn s) (k_rcv_nxt k1)
          then parse_data s (ack_push (seg_sn s) (seg_ts s) k1) else ack_push (seg_sn s) (seg_ts s) k1)"
        using push(1) rcv_inv_window(3) [OF i1 push(2,4)]
        unfolding input_segment_def sn [symmetric] by (simp add: nx k1_def [symmetric] kcp_cmd_defs)
      then show ?thesis using input_push [OF k1(1) push(3,2,4) True] st by metis
    next
      case False
      then have "fst (input_segment s (k, t)) = k1"
        using push(1) rcv_inv_window(3) [OF i1 push(2,4)]
        unfolding input_segment_def sn [symmetric] by (simp add: nx k1_def [symmetric] kcp_cmd_defs)
      then show ?thesis using k1 by metis
    qed
  next
    case ack
    define k2 where "k2 = (let rtt = timediff (k_current k1) (seg_ts s)
      in if 0 \<le> rtt then update_ack (word_of_int rtt) k1 else k1)"
    have "input_inv S n ks1 S' m b r js lo k2"
      using k1(1) by (auto simp: k2_def Let_def input_inv_def ack_inv_def
          intro: rcv_inv_frame snd_inv_frame)
    from input_ack [OF this ack(2,4,5)] obtain ks2 where
      "input_inv S n ks2 S' m b r js lo (shrink_buf (parse_ack (word_of_nat i) k2))"
      "input_step acked ks1 ks2 r js r js" by blast
    moreover have "fst (input_segment s (k, t)) = shrink_buf (parse_ack (word_of_nat i) k2)"
      using ack(1,3) by (simp add: input_segment_def k1_def [symmetric] k2_def Let_def)
    ultimately show ?thesis using st by metis
  next
    case wask
    then have "fst (input_segment s (k, t)) = k1\<lparr>k_probe := k_probe k1 OR KCP_ASK_TELL\<rparr>"
      by (simp add: input_segment_def k1_def [symmetric] Let_def kcp_cmd_defs)
    moreover have "input_inv S n ks1 S' m b r js lo (k1\<lparr>k_probe := k_probe k1 OR KCP_ASK_TELL\<rparr>)"
      using k1(1) by (auto simp: input_inv_def ack_inv_def intro: rcv_inv_frame snd_inv_frame)
    ultimately show ?thesis using k1(2) by metis
  next
    case wins
    then have "fst (input_segment s (k, t)) = k1"
      by (simp add: input_segment_def k1_def [symmetric] Let_def kcp_cmd_defs)
    then show ?thesis using k1 by metis
  qed
qed

section \<open>One packet of input\<close>

declare input_loop.simps [simp del]

text \<open>What input leaves alone.\<close>

definition settings :: "kcp \<Rightarrow> u32 \<times> nat \<times> nat \<times> bool \<times> bool \<times> bytes \<times> bytes list" where
  "settings k = (k_conv k, k_mtu k, k_mss k, k_stream k, k_input_conv k, k_buf k, k_output k)"

lemma settings_simps:
  "settings k = settings k' \<Longrightarrow> k_conv k = k_conv k'" "settings k = settings k' \<Longrightarrow> k_mtu k = k_mtu k'"
  "settings k = settings k' \<Longrightarrow> k_mss k = k_mss k'" "settings k = settings k' \<Longrightarrow> k_stream k = k_stream k'"
  "settings k = settings k' \<Longrightarrow> k_buf k = k_buf k'" "settings k = settings k' \<Longrightarrow> k_output k = k_output k'"
  by (simp_all add: settings_def)

lemma settings_shrink [simp]: "settings (shrink_buf k) = settings k"
  by (simp add: settings_def shrink_buf_def)

lemma settings_parse [simp]:
  "settings (parse_ack w k) = settings k" "settings (parse_una w k) = settings k"
  "settings (parse_fastack w ts k) = settings k" "settings (ack_push w ts k) = settings k"
  "settings (parse_data s k) = settings k" "settings (update_ack w k) = settings k"
  by (simp_all add: settings_def parse_ack_def parse_una_def parse_fastack_def ack_push_def)

lemma settings_input_segment: "settings (fst (input_segment s (k, t))) = settings k"
proof -
  define k1 where "k1 = shrink_buf (parse_una (seg_una s) (k\<lparr>k_rmt_wnd := seg_wnd s\<rparr>))"
  have "settings k1 = settings k" unfolding k1_def by (simp, simp add: settings_def)
  moreover have "settings (k1\<lparr>k_probe := p\<rparr>) = settings k1" for p by (simp add: settings_def)
  ultimately show ?thesis by (simp add: input_segment_def k1_def [symmetric] Let_def)
qed

lemma settings_cwnd:
  "grow_cwnd k = Some k' \<Longrightarrow> settings k' = settings k" "settings (clamp_cwnd k) = settings k"
  by (auto simp: grow_cwnd_def clamp_cwnd_def settings_def Let_def split: if_splits)

lemma grow_cwnd_defined: "k_mss k \<noteq> 0 \<Longrightarrow> \<exists>k'. grow_cwnd k = Some k'"
  by (cases "k_incr k < k_mss k") (simp_all add: grow_cwnd_def Let_def)

lemma windows_cwnd: "grow_cwnd k = Some k' \<Longrightarrow> windows (clamp_cwnd k') = windows k"
  by (auto simp: grow_cwnd_def clamp_cwnd_def windows_def Let_def split: if_splits)

lemma parse_fastack_input_inv:
  "input_inv S n ks S' m b r js lo k \<Longrightarrow> input_inv S n ks S' m b r js lo (parse_fastack w ts k)"
proof -
  assume i: "input_inv S n ks S' m b r js lo k"
  have "snd_inv S n ks (parse_fastack w ts k)"
    using i parse_fastack_snd_inv by (simp add: input_inv_def)
  moreover have "rcv_inv S' m r js (parse_fastack w ts k)"
    using i by (simp add: input_inv_def rcv_inv_def parse_fastack_def)
  moreover have "ack_inv A lo (parse_fastack w ts k) = ack_inv A lo k" for A
    by (simp add: ack_inv_def parse_fastack_def)
  moreover have "k_rcv_queue (parse_fastack w ts k) = k_rcv_queue k" by (simp add: parse_fastack_def)
  ultimately show ?thesis using i by (simp add: input_inv_def)
qed

lemma fresh_wire_part [simp]: "fresh_seg conv S m acked n (wire_part s) = fresh_seg conv S m acked n s"
  by (simp add: fresh_seg_def numbered1_def content_def)

lemma input_loop_encode:
  assumes "seg_conv s = k_conv k" and "known_cmd (seg_cmd s)" and "length (seg_data s) \<le> u32_max"
  shows "input_loop (seg_encode s @ rest) (k, t) = input_loop rest (input_segment (wire_part s) (k, t))"
  using assms read_segment_encode [OF assms(3), of rest] header_len_encode [OF assms(3), of rest]
  by (subst input_loop.simps) (simp add: encoded_len_def)

lemma fresh_known: "fresh_seg conv S m acked n s \<Longrightarrow> known_cmd (seg_cmd s)"
  by (auto simp: fresh_seg_def known_cmd_def)

lemma input_loop_inv:
  assumes "input_inv S n ks S' m b r js lo k" and "\<forall>s\<in>set segs. fresh_seg (k_conv k) S' m acked n s"
  shows "\<exists>k' t' ks' r' js'. input_loop (concat (map seg_encode segs)) (k, t) = ((k', t'), Inr 0) \<and>
    input_inv S n ks' S' m b r' js' lo k' \<and> input_step acked ks ks' r js r' js' \<and> settings k' = settings k"
  using assms
proof (induction segs arbitrary: k t ks r js)
  case Nil
  then show ?case
    by (subst input_loop.simps) (auto simp: KCP_OVERHEAD_def intro: input_step_refl)
next
  case (Cons s segs)
  have s: "fresh_seg (k_conv k) S' m acked n (wire_part s)" using Cons.prems(2) by simp
  obtain k1 t1 where k1: "input_segment (wire_part s) (k, t) = (k1, t1)"
    by (cases "input_segment (wire_part s) (k, t)")
  have cfg: "settings k1 = settings k" using settings_input_segment [of "wire_part s" k t] k1 by simp
  obtain ks1 r1 js1 where i1: "input_inv S n ks1 S' m b r1 js1 lo k1" "input_step acked ks ks1 r js r1 js1"
    using input_segment_inv [OF Cons.prems(1) s, of t] k1 by auto
  have "\<forall>s\<in>set segs. fresh_seg (k_conv k1) S' m acked n s"
    using Cons.prems(2) settings_simps(1) [OF cfg] by simp
  from Cons.IH [OF i1(1) this, of t1] obtain k' t' ks' r' js' where
    "input_loop (concat (map seg_encode segs)) (k1, t1) = ((k', t'), Inr 0)"
    "input_inv S n ks' S' m b r' js' lo k'" "input_step acked ks1 ks' r1 js1 r' js'" "settings k' = settings k1"
    by blast
  moreover have "input_loop (concat (map seg_encode (s # segs))) (k, t) =
      input_loop (concat (map seg_encode segs)) (k1, t1)"
    using input_loop_encode [of s k "concat (map seg_encode segs)" t] s fresh_known [OF s] k1
    by (simp add: fresh_seg_def)
  ultimately show ?case using input_step_trans [OF i1(2)] cfg by metis
qed

lemma kcp_input_inv:
  assumes "input_inv S n ks S' m b r js lo k" and "pkt_of (fresh_seg (k_conv k) S' m acked n) bs"
    and "k_mss k \<noteq> 0"
  shows "\<exists>k' res ks' r' js'. kcp_input bs k = (k', Some res) \<and> input_inv S n ks' S' m b r' js' lo k' \<and>
    input_step acked ks ks' r js r' js' \<and> settings k' = settings k"
proof (cases "length bs < KCP_OVERHEAD")
  case True
  then have "kcp_input bs k = (k, Some (Inl (InvalidSegmentSize (length bs))))"
    by (simp add: kcp_input_def)
  then show ?thesis using assms(1) input_step_refl by blast
next
  case False
  obtain segs where segs: "bs = concat (map seg_encode segs)"
    "\<forall>s\<in>set segs. fresh_seg (k_conv k) S' m acked n s"
    using assms(2) by (auto simp: pkt_of_def)
  obtain k1 t1 ks' r' js' where l: "input_loop bs (k, None) = ((k1, t1), Inr 0)"
    and i: "input_inv S n ks' S' m b r' js' lo k1" "input_step acked ks ks' r js r' js'" "settings k1 = settings k"
    using input_loop_inv [OF assms(1) segs(2), of None] unfolding segs(1) by blast
  define k2 where "k2 = (case t1 of None \<Rightarrow> k1 | Some (max_ack, ts) \<Rightarrow> parse_fastack max_ack ts k1)"
  have k2: "input_inv S n ks' S' m b r' js' lo k2" "settings k2 = settings k"
    using i parse_fastack_input_inv [OF i(1)] by (auto simp: k2_def split: option.splits)
  have mss: "k_mss k2 \<noteq> 0" using assms(3) settings_simps(3) [OF k2(2)] by simp
  obtain k3 where g: "grow_cwnd k2 = Some k3"
    using grow_cwnd_defined [OF mss] by blast
  have "input_inv S n ks' S' m b r' js' lo (clamp_cwnd k3)"
    using windows_cwnd [OF g] by (intro input_inv_frame [OF k2(1)]) simp
  moreover have "settings (clamp_cwnd k3) = settings k" using k2(2) settings_cwnd g by metis
  moreover define k' where "k' = (if 0 < timediff (k_snd_una k2) (k_snd_una k) \<and> k_cwnd k2 < k_rmt_wnd k2
      then clamp_cwnd k3 else k2)"
  ultimately have "input_inv S n ks' S' m b r' js' lo k'" "settings k' = settings k"
    using k2 by auto
  moreover have "kcp_input bs k = (k', Some (Inr (length bs)))"
    using False l g by (simp add: kcp_input_def k2_def [symmetric] k'_def Let_def)
  ultimately show ?thesis using i(2) by blast
qed

end
