(* ===== verification/Kcp_Flush.thy ===== *)
theory Kcp_Flush
  imports Kcp_Window
begin

text \<open>
  What the KCP engine emits. A flush keeps both window invariants, numbers fragments from the
  send queue, and writes only packets whose segments are acknowledgements of received positions,
  window probes, or fragments of the stream under their own number.
\<close>

section \<open>The scratch buffer and the packet queue\<close>

text \<open>Writing a segment touches nothing but the scratch buffer and the packet queue.\<close>

definition wrote :: "kcp \<Rightarrow> kcp \<Rightarrow> bool" where
  "wrote k k' \<longleftrightarrow> (\<exists>b out. k' = k\<lparr>k_output := out, k_buf := b\<rparr>)"

lemma wrote_refl [simp]: "wrote k k"
proof -
  have "k = k\<lparr>k_output := k_output k, k_buf := k_buf k\<rparr>" by simp
  then show ?thesis unfolding wrote_def by metis
qed

lemma wrote_trans: "wrote k k' \<Longrightarrow> wrote k' k'' \<Longrightarrow> wrote k k''"
proof -
  assume "wrote k k'" and "wrote k' k''"
  then obtain b out b' out' where "k' = k\<lparr>k_output := out, k_buf := b\<rparr>"
    and k'': "k'' = k'\<lparr>k_output := out', k_buf := b'\<rparr>"
    by (auto simp: wrote_def)
  then have "k'' = k\<lparr>k_output := out', k_buf := b'\<rparr>" by simp
  then show ?thesis unfolding wrote_def by blast
qed

lemma wrote_put [simp]: "wrote k (put_segment s need k)"
proof -
  have "put_segment s need k =
      k\<lparr>k_output := k_output (put_segment s need k), k_buf := k_buf (put_segment s need k)\<rparr>"
    by (simp add: put_segment_def write_buf_def Let_def)
  then show ?thesis unfolding wrote_def by blast
qed

lemma wrote_write_buf [simp]: "wrote k (write_buf k)"
  unfolding wrote_def write_buf_def by blast

lemma wrote_frame:
  assumes "wrote k k'"
  shows "k_current k' = k_current k" and "k_rcv_nxt k' = k_rcv_nxt k" and "k_dead_link k' = k_dead_link k"
    and "k_acklist k' = k_acklist k" and "k_probe k' = k_probe k" and "windows k' = windows k"
    and "k_mss k' = k_mss k" and "k_mtu k' = k_mtu k" and "k_stream k' = k_stream k"
    and "k_input_conv k' = k_input_conv k" and "k_rcv_wnd k' = k_rcv_wnd k" and "k_updated k' = k_updated k"
    and "k_conv k' = k_conv k" and "k_rcv_queue k' = k_rcv_queue k"
  using assms by (auto simp: wrote_def windows_def)

definition template_of :: "kcp_segment \<Rightarrow> kcp_segment \<Rightarrow> bool" where
  "template_of s s' \<longleftrightarrow> seg_conv s' = seg_conv s \<and> seg_una s' = seg_una s \<and>
     seg_data s' = seg_data s \<and> seg_frg s' = seg_frg s \<and> seg_wnd s' = seg_wnd s"

lemma flush_acks_props:
  assumes "out_ok P k" and "\<And>a. a \<in> set as \<Longrightarrow> P (s\<lparr>seg_sn := fst a, seg_ts := snd a\<rparr>)"
  shows "template_of s (fst (flush_acks as (s, k)))" and "wrote k (snd (flush_acks as (s, k)))"
    and "out_ok P (snd (flush_acks as (s, k)))"
proof -
  have "template_of s (fst (flush_acks as (s, k))) \<and> wrote k (snd (flush_acks as (s, k))) \<and>
      out_ok P (snd (flush_acks as (s, k)))"
    using assms
  proof (induction as arbitrary: s k)
    case (Cons a as)
    define s1 where "s1 = s\<lparr>seg_sn := fst a, seg_ts := snd a\<rparr>"
    define k1 where "k1 = put_segment s1 KCP_OVERHEAD k"
    have "out_ok P k1"
      using Cons.prems unfolding k1_def by (intro out_ok_put_segment) (auto simp: s1_def)
    moreover have "P (s1\<lparr>seg_sn := fst a', seg_ts := snd a'\<rparr>)" if "a' \<in> set as" for a'
      using Cons.prems(2) [of a'] that by (simp add: s1_def)
    ultimately have "template_of s1 (fst (flush_acks as (s1, k1))) \<and> wrote k1 (snd (flush_acks as (s1, k1))) \<and>
        out_ok P (snd (flush_acks as (s1, k1)))"
      by (rule Cons.IH)
    moreover have "wrote k k1" by (simp add: k1_def)
    moreover have "template_of s s' \<longleftrightarrow> template_of s1 s'" for s' by (simp add: template_of_def s1_def)
    ultimately show ?case by (auto simp: s1_def [symmetric] k1_def [symmetric] intro: wrote_trans)
  qed (simp add: template_of_def)
  then show "template_of s (fst (flush_acks as (s, k)))" and "wrote k (snd (flush_acks as (s, k)))"
    and "out_ok P (snd (flush_acks as (s, k)))" by blast+
qed

lemma flush_probe_command_props:
  assumes "out_ok P k" and "P (s\<lparr>seg_cmd := cmd\<rparr>)"
  shows "fst (flush_probe_command cmd (s, k)) = s\<lparr>seg_cmd := cmd\<rparr>"
    and "wrote k (snd (flush_probe_command cmd (s, k)))" and "out_ok P (snd (flush_probe_command cmd (s, k)))"
  using out_ok_put_segment [OF assms, of KCP_OVERHEAD] by (simp_all add: flush_probe_command_def Let_def)

lemma flush_probe_commands_props:
  assumes "out_ok P k" and "P (s\<lparr>seg_cmd := KCP_CMD_WASK\<rparr>)" and "P (s\<lparr>seg_cmd := KCP_CMD_WINS\<rparr>)"
  shows "\<exists>k1. snd (flush_probe_commands (s, k)) = k1\<lparr>k_probe := 0\<rparr> \<and> wrote k k1 \<and> out_ok P k1"
proof -
  define sk1 where "sk1 = (if k_probe k AND KCP_ASK_SEND \<noteq> 0
    then flush_probe_command KCP_CMD_WASK (s, k) else (s, k))"
  have sk1: "wrote k (snd sk1)" "out_ok P (snd sk1)" "P ((fst sk1)\<lparr>seg_cmd := KCP_CMD_WINS\<rparr>)"
    using flush_probe_command_props [OF assms(1,2)] assms(1,3) by (auto simp: sk1_def)
  define sk2 where "sk2 = (if k_probe (snd sk1) AND KCP_ASK_TELL \<noteq> 0
    then flush_probe_command KCP_CMD_WINS sk1 else sk1)"
  have "wrote k (snd sk2)" "out_ok P (snd sk2)"
    using flush_probe_command_props [OF sk1(2,3)] sk1
    by (auto simp: sk2_def intro: wrote_trans)
  moreover have "snd (flush_probe_commands (s, k)) = (snd sk2)\<lparr>k_probe := 0\<rparr>"
    by (simp add: flush_probe_commands_def Let_def sk1_def [symmetric] sk2_def [symmetric]
        case_prod_unfold)
  ultimately show ?thesis by blast
qed

section \<open>Transmission of the send buffer\<close>

text \<open>The transmitted form of a buffered segment keeps its identity and carries \<^verbatim>\<open>rcv_nxt\<close>.\<close>

definition same_segment :: "kcp_segment \<Rightarrow> kcp_segment \<Rightarrow> bool" where
  "same_segment s s' \<longleftrightarrow> seg_sn s' = seg_sn s \<and> seg_cmd s' = seg_cmd s \<and> seg_conv s' = seg_conv s \<and>
     content s' = content s"

lemma same_segment_refl [simp]: "same_segment s s"
  by (simp add: same_segment_def)

lemma same_reschedule [simp]:
  "same_segment s ((reschedule k rtomin why s)\<lparr>seg_ts := ts, seg_wnd := wnd, seg_una := una\<rparr>)"
  by (cases why) (simp_all add: same_segment_def reschedule_def content_def Let_def)

definition sending :: "kcp \<Rightarrow> kcp \<Rightarrow> bool" where
  "sending k k' \<longleftrightarrow> (\<exists>b out x st. k' = k\<lparr>k_output := out, k_buf := b, k_xmit := x, k_state := st\<rparr>)"

lemma sending_refl [simp]: "sending k k"
proof -
  have "k = k\<lparr>k_output := k_output k, k_buf := k_buf k, k_xmit := k_xmit k, k_state := k_state k\<rparr>" by simp
  then show ?thesis unfolding sending_def by metis
qed

lemma sending_trans: "sending k k' \<Longrightarrow> sending k' k'' \<Longrightarrow> sending k k''"
proof -
  assume "sending k k'" and "sending k' k''"
  then obtain b out x st b' out' x' st' where
    "k' = k\<lparr>k_output := out, k_buf := b, k_xmit := x, k_state := st\<rparr>"
    and k'': "k'' = k'\<lparr>k_output := out', k_buf := b', k_xmit := x', k_state := st'\<rparr>"
    by (auto simp: sending_def)
  then have "k'' = k\<lparr>k_output := out', k_buf := b', k_xmit := x', k_state := st'\<rparr>" by simp
  then show ?thesis unfolding sending_def by blast
qed

lemma sending_frame:
  assumes "sending k k'"
  shows "k_rcv_nxt k' = k_rcv_nxt k" and "windows k' = windows k" and "k_mss k' = k_mss k"
    and "k_mtu k' = k_mtu k" and "k_stream k' = k_stream k" and "k_input_conv k' = k_input_conv k"
    and "k_rcv_wnd k' = k_rcv_wnd k" and "k_updated k' = k_updated k" and "k_current k' = k_current k"
  using assms by (auto simp: sending_def windows_def)

lemma sending_parts: "wrote k k' \<Longrightarrow> sending k k'" "sending k (k\<lparr>k_xmit := x\<rparr>)" "sending k (k\<lparr>k_state := st\<rparr>)"
proof -
  show "sending k (k\<lparr>k_xmit := x\<rparr>)" for x
    unfolding sending_def
    by (rule exI [of _ "k_buf k"], rule exI [of _ "k_output k"], rule exI [of _ x],
        rule exI [of _ "k_state k"]) simp
  show "sending k (k\<lparr>k_state := st\<rparr>)" for st
    unfolding sending_def
    by (rule exI [of _ "k_buf k"], rule exI [of _ "k_output k"], rule exI [of _ "k_xmit k"],
        rule exI [of _ st]) simp
  assume "wrote k k'"
  then obtain b out where "k' = k\<lparr>k_output := out, k_buf := b\<rparr>" by (auto simp: wrote_def)
  then have "k' = k\<lparr>k_output := out, k_buf := b, k_xmit := k_xmit k, k_state := k_state k\<rparr>" by simp
  then show "sending k k'" unfolding sending_def by blast
qed

lemma flush_segments_props:
  assumes "flush_segments wnd resent rtomin segs (k, lost, change) = (segs', k', lost', change')"
    and "out_ok P k"
    and "\<And>s s'. s \<in> set segs \<Longrightarrow> same_segment s s' \<Longrightarrow> seg_una s' = k_rcv_nxt k \<Longrightarrow> P s'"
  shows "list_all2 same_segment segs segs' \<and> sending k k' \<and> out_ok P k'"
  using assms
proof (induction segs arbitrary: k lost change segs' k' lost' change')
  case (Cons s segs)
  define why where "why = resend_reason k resent s"
  show ?case
  proof (cases "why = Not_Due")
    case True
    obtain segs1 where f: "flush_segments wnd resent rtomin segs (k, lost, change) = (segs1, k', lost', change')"
      and s: "segs' = s # segs1"
      using Cons.prems(1) True by (auto simp: why_def Let_def split: prod.splits)
    from Cons.IH [OF f Cons.prems(2)] Cons.prems(3) show ?thesis unfolding s by auto
  next
    case False
    define s1 where "s1 = (reschedule k rtomin why s)
      \<lparr>seg_ts := k_current k, seg_wnd := wnd, seg_una := k_rcv_nxt k\<rparr>"
    define k1 where "k1 = (if why = Timed_Out then k\<lparr>k_xmit := u32_sat_add (k_xmit k) 1\<rparr> else k)"
    define k2 where "k2 = put_segment s1 (KCP_OVERHEAD + length (seg_data s1)) k1"
    define k3 where "k3 = (if k_dead_link k2 \<le> seg_xmit s1 then k2\<lparr>k_state := - 1\<rparr> else k2)"
    define acc where "acc = (k3, lost \<or> why = Timed_Out, if why = Fast_Resend then change + 1 else change)"
    have "flush_segments wnd resent rtomin (s # segs) (k, lost, change) =
        (let (b1, r) = flush_segments wnd resent rtomin segs acc in (s1 # b1, r))"
      using False unfolding acc_def k3_def k2_def k1_def s1_def why_def
      by (simp only: flush_segments.simps Let_def if_False)
    then obtain segs1 where f: "flush_segments wnd resent rtomin segs acc = (segs1, k', lost', change')"
      and s: "segs' = s1 # segs1"
      using Cons.prems(1) by (auto simp: Let_def split: prod.splits)
    note f = f [unfolded acc_def]
    have ss: "same_segment s s1" "seg_una s1 = k_rcv_nxt k" by (simp_all add: s1_def)
    have "sending k k1" by (simp add: k1_def sending_parts)
    moreover have "sending k1 k2" unfolding k2_def by (rule sending_parts(1) [OF wrote_put])
    moreover have "sending k2 k3" by (simp add: k3_def sending_parts)
    ultimately have k3: "sending k k3" using sending_trans by blast
    have "out_ok P k1" using Cons.prems(2) by (simp add: k1_def out_ok_def)
    then have "out_ok P k2" unfolding k2_def using Cons.prems(3) [OF _ ss] by (intro out_ok_put_segment) auto
    then have "out_ok P k3" by (simp add: k3_def out_ok_def)
    with Cons.IH [OF f this] Cons.prems(3) sending_frame(1) [OF k3]
    have "list_all2 same_segment segs segs1 \<and> sending k3 k' \<and> out_ok P k'" by auto
    then show ?thesis using ss sending_trans [OF k3] unfolding s by auto
  qed
qed auto

section \<open>A whole flush\<close>

text \<open>
  A segment as the engine emits it when it has numbered \<open>n\<close> fragments of its own stream \<open>S\<close> and
  put \<open>r\<close> of the other one in order.
\<close>

definition emit_seg :: "u32 \<Rightarrow> fragment list \<Rightarrow> nat \<Rightarrow> nat \<Rightarrow> nat set \<Rightarrow> kcp_segment \<Rightarrow> bool" where
  "emit_seg conv S n r recv s \<longleftrightarrow> seg_conv s = conv \<and> length (seg_data s) \<le> u32_max \<and>
     seg_una s = word_of_nat r \<and>
     (seg_cmd s = KCP_CMD_PUSH \<and> (\<exists>i<n. numbered1 S i s \<and> n \<le> i + 65535) \<or>
      seg_cmd s = KCP_CMD_ACK \<and> (\<exists>i\<in>recv. seg_sn s = word_of_nat i \<and> r \<le> i + 1074003968) \<or>
      seg_cmd s = KCP_CMD_WASK \<or> seg_cmd s = KCP_CMD_WINS)"

definition small_fragments :: "fragment list \<Rightarrow> bool" where
  "small_fragments S \<longleftrightarrow> (\<forall>f\<in>set S. length (snd f) \<le> u32_max)"

lemma emit_seg_mono: "emit_seg conv S n r recv s \<Longrightarrow> recv \<subseteq> recv' \<Longrightarrow> emit_seg conv (S @ T) n r recv' s"
  unfolding emit_seg_def using numbered1_append by blast

lemma numbered1_small: "small_fragments S \<Longrightarrow> numbered1 S i s \<Longrightarrow> length (seg_data s) \<le> u32_max"
  by (auto simp: small_fragments_def numbered1_def content_def) (metis nth_mem snd_conv)

lemma ack_template_simps [simp]:
  "seg_conv (ack_template k) = k_conv k" "seg_una (ack_template k) = k_rcv_nxt k"
  "seg_data (ack_template k) = []" "seg_cmd (ack_template k) = KCP_CMD_ACK"
  by (simp_all add: ack_template_def new_with_data_def)

lemma windows_simps:
  assumes "windows k = windows k'"
  shows "k_snd_nxt k = k_snd_nxt k'" and "k_snd_una k = k_snd_una k'" and "k_rcv_nxt k = k_rcv_nxt k'"
    and "k_conv k = k_conv k'" and "k_snd_queue k = k_snd_queue k'" and "k_snd_buf k = k_snd_buf k'"
    and "k_rcv_queue k = k_rcv_queue k'" and "k_rcv_buf k = k_rcv_buf k'" and "k_acklist k = k_acklist k'"
  using assms by (auto simp: windows_def)

text \<open>Acknowledgements and probes.\<close>

definition flush_control :: "kcp \<Rightarrow> kcp" where
  "flush_control k = (let (s, k1) = flush_ack_list (ack_template k, k)
     in snd (flush_probe_commands (s, probe_wnd_size k1)))"

lemma probe_wnd_size_frame [simp]:
  "windows (probe_wnd_size k) = windows k" "out_ok P (probe_wnd_size k) = out_ok P k"
  "k_mss (probe_wnd_size k) = k_mss k" "k_mtu (probe_wnd_size k) = k_mtu k"
  "k_stream (probe_wnd_size k) = k_stream k" "k_input_conv (probe_wnd_size k) = k_input_conv k"
  "k_rcv_wnd (probe_wnd_size k) = k_rcv_wnd k" "k_updated (probe_wnd_size k) = k_updated k"
  by (simp_all add: probe_wnd_size_def windows_def out_ok_def Let_def)

definition kept :: "kcp \<Rightarrow> kcp \<Rightarrow> bool" where
  "kept k k' \<longleftrightarrow> k_mss k' = k_mss k \<and> k_mtu k' = k_mtu k \<and> k_stream k' = k_stream k \<and>
     k_input_conv k' = k_input_conv k \<and> k_conv k' = k_conv k \<and> k_rcv_queue k' = k_rcv_queue k \<and>
     k_rcv_wnd k' = k_rcv_wnd k"

lemma flush_control_props:
  assumes "out_ok P k" and "\<And>a. a \<in> set (k_acklist k) \<Longrightarrow> P ((ack_template k)\<lparr>seg_sn := fst a, seg_ts := snd a\<rparr>)"
    and "\<And>s c. template_of (ack_template k) s \<Longrightarrow> c = KCP_CMD_WASK \<or> c = KCP_CMD_WINS \<Longrightarrow>
      P (s\<lparr>seg_cmd := c\<rparr>)"
  shows "windows (flush_control k) = windows (k\<lparr>k_acklist := []\<rparr>)" and "out_ok P (flush_control k)"
    and "kept k (flush_control k)"
proof -
  define sk where "sk = flush_acks (k_acklist k) (ack_template k, k)"
  have sk: "template_of (ack_template k) (fst sk)" "wrote k (snd sk)" "out_ok P (snd sk)"
    unfolding sk_def by (rule flush_acks_props [where P = P, OF assms(1)], erule assms(2))+
  define k1 where "k1 = probe_wnd_size ((snd sk)\<lparr>k_acklist := []\<rparr>)"
  have "out_ok P ((snd sk)\<lparr>k_acklist := []\<rparr>)" using sk(3) by (simp add: out_ok_def)
  then have "out_ok P k1" by (simp add: k1_def)
  then obtain k2 where k2: "snd (flush_probe_commands (fst sk, k1)) = k2\<lparr>k_probe := 0\<rparr>" "wrote k1 k2" "out_ok P k2"
    using flush_probe_commands_props [of P k1 "fst sk"] assms(3) [OF sk(1)] by blast
  have c: "flush_control k = k2\<lparr>k_probe := 0\<rparr>"
    by (simp add: flush_control_def flush_ack_list_def sk_def [symmetric] k1_def [symmetric]
        case_prod_unfold k2(1))
  have w1: "windows k1 = windows ((snd sk)\<lparr>k_acklist := []\<rparr>)" by (simp add: k1_def)
  show "windows (flush_control k) = windows (k\<lparr>k_acklist := []\<rparr>)"
    using wrote_frame(6) [OF k2(2)] wrote_frame(6) [OF sk(2)] w1 by (simp add: c windows_def)
  show "out_ok P (flush_control k)" using k2(3) by (simp add: c out_ok_def)
  show "kept k (flush_control k)"
    using wrote_frame [OF k2(2)] wrote_frame [OF sk(2)] windows_simps(4,7) [OF w1]
    by (simp add: c kept_def k1_def)
qed

lemma flush_prepare_control:
  "flush_prepare k = (let k2 = flush_control k;
     (nxt, added, q) = fill_window k2 (send_window k2) (wnd_unused k) (k_snd_nxt k2) (k_snd_queue k2)
   in k2\<lparr>k_snd_nxt := nxt, k_snd_queue := q, k_snd_buf := k_snd_buf k2 @ added\<rparr>)"
  by (simp add: flush_prepare_def flush_control_def Let_def case_prod_unfold)

lemma first_no_append: "first_no (ks @ [n..<n']) n' = first_no ks n" if "n \<le> n'"
  using that by (cases ks) (auto simp: first_no_def upt_rec split: list.splits)

lemma flush_prepare_inv:
  assumes s: "snd_inv S n ks k" and r: "rcv_inv S' m r js k" and a: "ack_inv (received r js) lo k"
    and lo: "r \<le> lo + 131072" and out: "k_buf k = []" "k_output k = []"
  shows "\<exists>n'. snd_inv S n' (ks @ [n..<n']) (flush_prepare k) \<and> rcv_inv S' m r js (flush_prepare k) \<and>
    n \<le> n' \<and> k_acklist (flush_prepare k) = [] \<and> kept k (flush_prepare k) \<and>
    out_ok (emit_seg (k_conv k) S n' r (received r js)) (flush_prepare k)"
proof -
  define P where "P = emit_seg (k_conv k) S 0 r (received r js)"
  define k2 where "k2 = flush_control k"
  have rn: "k_rcv_nxt k = word_of_nat r" using r by (simp add: rcv_inv_def)
  have acks: "P ((ack_template k)\<lparr>seg_sn := fst e, seg_ts := snd e\<rparr>)" if e: "e \<in> set (k_acklist k)" for e
  proof -
    from a e obtain i where "i \<in> received r js" "fst e = word_of_nat i" "lo \<le> i + 1073872896"
      by (auto simp: ack_inv_def)
    then show ?thesis using lo rn by (auto simp: P_def emit_seg_def intro: bexI [of _ i])
  qed
  have probes: "P (s\<lparr>seg_cmd := c\<rparr>)"
    if "template_of (ack_template k) s" "c = KCP_CMD_WASK \<or> c = KCP_CMD_WINS" for s c
    using that rn by (auto simp: P_def emit_seg_def template_of_def)
  have "out_ok P k" using out by (simp add: out_ok_def)
  note c = flush_control_props [where P = P, OF this acks probes, folded k2_def]
  note w = windows_simps [OF c(1)]
  obtain nxt added q where f: "fill_window k2 (send_window k2) (wnd_unused k) (k_snd_nxt k2) (k_snd_queue k2) = (nxt, added, q)"
    by (cases "fill_window k2 (send_window k2) (wnd_unused k) (k_snd_nxt k2) (k_snd_queue k2)")
  have fp: "flush_prepare k = k2\<lparr>k_snd_nxt := nxt, k_snd_queue := q, k_snd_buf := k_snd_buf k2 @ added\<rparr>"
    by (simp add: flush_prepare_control k2_def [symmetric] f)
  have first: "first_no ks n \<le> n" "n \<le> first_no ks n + 65535"
    using s by (auto simp: snd_inv_def first_no_def split: list.splits)
  have "map content (k_snd_queue k2) = drop n S" "n \<le> length S" "k_snd_una k2 = word_of_nat (first_no ks n)"
    using s w by (simp_all add: snd_inv_def)
  from fill_window_numbered [OF this first, of "send_window k2" "wnd_unused k" nxt added q] obtain n' where
    n': "n \<le> n'" "n' \<le> first_no ks n + 65535" "nxt = word_of_nat n'" "numbered S [n..<n'] added"
    "map content q = drop n' S" "n' \<le> length S"
    "\<forall>s\<in>set added. seg_cmd s = KCP_CMD_PUSH \<and> seg_conv s = k_conv k2"
    using f s w by (auto simp: snd_inv_def)
  have ks: "first_no ks n \<le> i \<and> i < n" if "i \<in> set ks" for i
    using s that by (cases ks) (auto simp: snd_inv_def first_no_def)
  have "sorted_wrt (<) (ks @ [n..<n'])"
    using s ks less_le_trans by (fastforce simp: snd_inv_def sorted_wrt_append)
  moreover have "\<forall>i\<in>set (ks @ [n..<n']). i < n' \<and> n' \<le> i + 65535"
    using ks n' first by fastforce
  ultimately have "snd_inv S n' (ks @ [n..<n']) (flush_prepare k)"
    using s w n' by (auto simp: snd_inv_def fp first_no_append intro: list_all2_appendI)
  moreover have "rcv_inv S' m r js (flush_prepare k)" using r w by (auto simp: rcv_inv_def fp)
  moreover have "out_ok (emit_seg (k_conv k) S n' r (received r js)) (flush_prepare k)"
    using c(2) by (auto simp: fp out_ok_def P_def emit_seg_def elim!: pkt_of_mono)
  moreover have "k_acklist (flush_prepare k) = []" "kept k (flush_prepare k)"
    using w c(3) by (simp_all add: fp kept_def)
  ultimately show ?thesis using n'(1) by blast
qed

lemma same_numbered: "numbered S ks segs \<Longrightarrow> list_all2 same_segment segs segs' \<Longrightarrow> numbered S ks segs'"
  by (auto simp: list_all2_conv_all_nth same_segment_def numbered1_def)

lemma same_cmds:
  "list_all2 same_segment segs segs' \<Longrightarrow> \<forall>s\<in>set segs. seg_cmd s = c \<and> seg_conv s = v \<Longrightarrow>
    \<forall>s\<in>set segs'. seg_cmd s = c \<and> seg_conv s = v"
  by (simp add: list_all2_conv_all_nth same_segment_def all_set_conv_all_nth)

lemma numbered_member: "numbered S ks segs \<Longrightarrow> s \<in> set segs \<Longrightarrow> \<exists>i\<in>set ks. numbered1 S i s"
  by (induction rule: list_all2_induct) auto

lemma snd_inv_segs:
  assumes "snd_inv S n ks k" and "list_all2 same_segment (k_snd_buf k) b"
  shows "snd_inv S n ks (k\<lparr>k_snd_buf := b\<rparr>)"
proof -
  have i: "numbered S ks (k_snd_buf k)"
    "\<forall>s\<in>set (k_snd_buf k). seg_cmd s = KCP_CMD_PUSH \<and> seg_conv s = k_conv k"
    using assms(1) by (auto simp: snd_inv_def)
  show ?thesis
    using assms(1) same_numbered [OF i(1) assms(2)] same_cmds [OF assms(2) i(2)]
    by (simp add: snd_inv_def)
qed

text \<open>The congestion bookkeeping at the end of a flush.\<close>

definition adjust_cwnd :: "u16 \<Rightarrow> u32 \<Rightarrow> bool \<Rightarrow> nat \<Rightarrow> kcp \<Rightarrow> kcp" where
  "adjust_cwnd cwnd resent lost change k =
     (let k4 = (if 0 < change then after_fast_resend resent k else k);
          k5 = (if lost then after_loss cwnd k4 else k4)
      in if k_cwnd k5 < 1 then k5\<lparr>k_cwnd := 1, k_incr := k_mss k5\<rparr> else k5)"

lemma adjust_cwnd_frame [simp]:
  "windows (adjust_cwnd cwnd resent lost change k) = windows k"
  "k_output (adjust_cwnd cwnd resent lost change k) = k_output k"
  "k_buf (adjust_cwnd cwnd resent lost change k) = k_buf k"
  "kept k (adjust_cwnd cwnd resent lost change k)"
  "k_updated (adjust_cwnd cwnd resent lost change k) = k_updated k"
  by (simp_all add: adjust_cwnd_def after_fast_resend_def after_loss_def windows_def kept_def Let_def)

lemma kcp_flush_adjust:
  assumes "k_updated k"
    and "flush_segments (wnd_unused k) (resend_limit (flush_prepare k)) (rto_slack (flush_prepare k))
      (k_snd_buf (flush_prepare k)) (flush_prepare k, False, 0) = (b, k2, lost, change)"
  shows "kcp_flush k = (adjust_cwnd (send_window (flush_prepare k)) (resend_limit (flush_prepare k))
    lost change (write_buf (k2\<lparr>k_snd_buf := b\<rparr>)), Inr ())"
  using assms by (simp add: kcp_flush_def adjust_cwnd_def Let_def)

lemma kept_trans: "kept k k' \<Longrightarrow> kept k' k'' \<Longrightarrow> kept k k''"
  by (simp add: kept_def)

lemma window_inv_frame:
  "snd_inv S n ks k \<Longrightarrow> windows k' = windows k \<Longrightarrow> snd_inv S n ks k'"
  "rcv_inv S' m r js k \<Longrightarrow> windows k' = windows k \<Longrightarrow> rcv_inv S' m r js k'"
  by (simp_all add: snd_inv_def rcv_inv_def windows_def)

lemma kcp_flush_inv:
  assumes "snd_inv S n ks k" and "rcv_inv S' m r js k" and "ack_inv (received r js) lo k"
    and "r \<le> lo + 131072" and "k_buf k = []" and "k_output k = []" and "k_updated k"
    and small: "small_fragments S"
  shows "\<exists>k' n'. kcp_flush k = (k', Inr ()) \<and> snd_inv S n' (ks @ [n..<n']) k' \<and> rcv_inv S' m r js k' \<and>
    n \<le> n' \<and> k_acklist k' = [] \<and> k_buf k' = [] \<and> kept k k' \<and>
    (\<forall>p\<in>set (k_output k'). pkt_of (emit_seg (k_conv k) S n' r (received r js)) p)"
proof -
  obtain n' where p: "snd_inv S n' (ks @ [n..<n']) (flush_prepare k)" "rcv_inv S' m r js (flush_prepare k)"
    "n \<le> n'" "k_acklist (flush_prepare k) = []" "kept k (flush_prepare k)"
    "out_ok (emit_seg (k_conv k) S n' r (received r js)) (flush_prepare k)"
    using flush_prepare_inv [OF assms(1-6)] by blast
  define k1 where "k1 = flush_prepare k"
  define P where "P = emit_seg (k_conv k) S n' r (received r js)"
  obtain b k2 lost change where f: "flush_segments (wnd_unused k) (resend_limit k1) (rto_slack k1)
      (k_snd_buf k1) (k1, False, 0) = (b, k2, lost, change)"
    by (rule prod_cases4)
  have nb: "numbered S (ks @ [n..<n']) (k_snd_buf k1)"
    and rng: "\<forall>i\<in>set (ks @ [n..<n']). i < n' \<and> n' \<le> i + 65535"
    unfolding k1_def by (rule snd_invD [OF p(1)])+
  have emit: "P s'" if mem: "s \<in> set (k_snd_buf k1)" "same_segment s s'" "seg_una s' = k_rcv_nxt k1" for s s'
  proof -
    have c: "seg_cmd s = KCP_CMD_PUSH" "seg_conv s = k_conv k"
      using p(1,5) mem(1) by (auto simp: snd_inv_def k1_def kept_def)
    obtain i where i: "i \<in> set (ks @ [n..<n'])" "numbered1 S i s"
      using numbered_member [OF nb mem(1)] by blast
    then have "numbered1 S i s'" using mem(2) by (simp add: numbered1_def same_segment_def)
    moreover have "i < n'" "n' \<le> i + 65535" using rng i(1) by blast+
    moreover have "k_rcv_nxt k1 = word_of_nat r" using p(2) by (simp add: rcv_inv_def k1_def)
    ultimately show ?thesis using c mem(2,3) numbered1_small [OF small]
      by (auto simp: P_def emit_seg_def same_segment_def)
  qed
  have fs: "list_all2 same_segment (k_snd_buf k1) b" "sending k1 k2" "out_ok P k2"
    using flush_segments_props [where P = P, OF f p(6) [folded k1_def P_def] emit] by auto
  define k3 where "k3 = write_buf (k2\<lparr>k_snd_buf := b\<rparr>)"
  define k' where "k' = adjust_cwnd (send_window k1) (resend_limit k1) lost change k3"
  have w2: "windows (k2\<lparr>k_snd_buf := b\<rparr>) = windows (k1\<lparr>k_snd_buf := b\<rparr>)"
    using sending_frame(2) [OF fs(2)] by (simp add: windows_def)
  have w: "windows k' = windows (k1\<lparr>k_snd_buf := b\<rparr>)"
    using wrote_frame(6) [OF wrote_write_buf] w2 by (simp add: k'_def k3_def)
  have "kcp_flush k = (k', Inr ())"
    using kcp_flush_adjust [OF assms(7) f [unfolded k1_def]] by (simp add: k'_def k3_def k1_def)
  moreover have "snd_inv S n' (ks @ [n..<n']) k'"
    by (rule window_inv_frame(1) [OF snd_inv_segs [OF p(1) [folded k1_def] fs(1)] w])
  moreover have "rcv_inv S' m r js k'"
    by (rule window_inv_frame(2) [OF _ w]) (use p(2) in \<open>simp add: k1_def rcv_inv_def\<close>)
  moreover have "k_acklist k' = []" using windows_simps(9) [OF w] p(4) by (simp add: k1_def)
  moreover have "k_buf k' = []" by (simp add: k'_def k3_def write_buf_def)
  moreover have "kept k k'"
  proof -
    have "kept k1 k3"
      using sending_frame [OF fs(2)] windows_simps(4,7) [OF w2] by (simp add: kept_def k3_def write_buf_def)
    then show ?thesis using p(5) kept_trans adjust_cwnd_frame(4) unfolding k'_def k1_def by blast
  qed
  moreover have "\<forall>p\<in>set (k_output k'). pkt_of P p"
    using fs(3) out_ok_write_buf [of P "k2\<lparr>k_snd_buf := b\<rparr>"] by (simp add: k'_def k3_def out_ok_def)
  ultimately show ?thesis using p(3) unfolding P_def by blast
qed

text \<open>An update either flushes or only moves the clock.\<close>

definition ticked :: "u32 \<Rightarrow> u32 \<Rightarrow> kcp \<Rightarrow> kcp" where
  "ticked now t k = k\<lparr>k_current := now, k_updated := True, k_ts_flush := t\<rparr>"

lemma kcp_update_cases:
  "\<exists>t. kcp_update now k = kcp_flush (ticked now t k) \<or> kcp_update now k = (ticked now t k, Inr ())"
proof -
  define t2 where "t2 = (if k_updated k then k_ts_flush k else now)"
  have k2: "(if \<not> k_updated (k\<lparr>k_current := now\<rparr>)
      then k\<lparr>k_current := now\<rparr>\<lparr>k_updated := True, k_ts_flush := now\<rparr> else k\<lparr>k_current := now\<rparr>) =
      ticked now t2 k"
    by (cases k) (simp add: t2_def ticked_def)
  have up: "(ticked now t k)\<lparr>k_ts_flush := t'\<rparr> = ticked now t' k" for t t' by (simp add: ticked_def)
  show ?thesis
    unfolding kcp_update_def Let_def k2 by (auto simp: up split: if_splits)
qed

lemma kcp_update_inv:
  assumes "snd_inv S n ks k" and "rcv_inv S' m r js k" and "ack_inv (received r js) lo k"
    and "r \<le> lo + 131072" and "k_buf k = []" and "k_output k = []" and "small_fragments S"
  shows "\<exists>k' n'. kcp_update now k = (k', Inr ()) \<and> snd_inv S n' (ks @ [n..<n']) k' \<and> rcv_inv S' m r js k' \<and>
    n \<le> n' \<and> (k_acklist k' = [] \<or> k_acklist k' = k_acklist k \<and> n' = n \<and> k_output k' = []) \<and>
    k_buf k' = [] \<and> kept k k' \<and>
    (\<forall>p\<in>set (k_output k'). pkt_of (emit_seg (k_conv k) S n' r (received r js)) p)"
proof -
  obtain t where up: "kcp_update now k = kcp_flush (ticked now t k) \<or> kcp_update now k = (ticked now t k, Inr ())"
    using kcp_update_cases [of now k] by (elim exE)
  define k1 where "k1 = ticked now t k"
  have f: "snd_inv S n ks k1" "rcv_inv S' m r js k1" "ack_inv (received r js) lo k1" "kept k k1"
    using assms(1-3) by (simp_all add: k1_def ticked_def snd_inv_def rcv_inv_def ack_inv_def kept_def)
  have k1: "k_buf k1 = []" "k_output k1 = []" "k_updated k1" "k_conv k1 = k_conv k" "k_acklist k1 = k_acklist k"
    using assms(5,6) by (simp_all add: k1_def ticked_def)
  show ?thesis
  proof (cases "kcp_update now k = (k1, Inr ())")
    case False
    then have u: "kcp_update now k = kcp_flush k1" using up unfolding k1_def by simp
    obtain k' n' where o: "kcp_flush k1 = (k', Inr ())" "snd_inv S n' (ks @ [n..<n']) k'"
      "rcv_inv S' m r js k'" "n \<le> n'" "k_acklist k' = []" "k_buf k' = []" "kept k1 k'"
      "\<forall>p\<in>set (k_output k'). pkt_of (emit_seg (k_conv k) S n' r (received r js)) p"
      using kcp_flush_inv [OF f(1-3) assms(4) k1(1-3) assms(7), unfolded k1(4)] by blast
    show ?thesis
      by (rule exI [of _ k'], rule exI [of _ n'])
         (use u o kept_trans [OF f(4) o(7)] in \<open>simp only: simp_thms\<close>)
  next
    case True
    show ?thesis
      by (rule exI [of _ k1], rule exI [of _ n]) (use True f k1 in simp)
  qed
qed

end
