(* ===== verification/Kcp_Messages.thy ===== *)
theory Kcp_Messages
  imports Kcp_Flush
begin

text \<open>
  Messages over the KCP stream: \<^verbatim>\<open>send\<close> appends the fragments of one message to the stream,
  and \<^verbatim>\<open>recv\<close> returns the next message exactly when all its fragments are in the receive
  queue.
\<close>

section \<open>Fragmentation\<close>

definition fragment_count :: "nat \<Rightarrow> bytes \<Rightarrow> nat" where
  "fragment_count mss buf = (if length buf \<le> mss then 1 else div_ceil (length buf) mss)"

definition message_fragments :: "nat \<Rightarrow> bytes \<Rightarrow> fragment list" where
  "message_fragments mss buf = map content (fragments mss False (fragment_count mss buf) buf)"

definition stream_of :: "nat \<Rightarrow> bytes list \<Rightarrow> fragment list" where
  "stream_of mss msgs = concat (map (message_fragments mss) msgs)"

lemma div_ceil_bounds: "0 < b \<Longrightarrow> a \<le> div_ceil a b * b \<and> div_ceil a b * b < a + b"
proof -
  assume b: "0 < b"
  have ab: "a = a div b * b + a mod b" "a mod b < b" using b by simp_all
  show ?thesis
  proof (cases "a mod b = 0")
    case True
    then have "div_ceil a b * b = a" using ab(1) by (simp add: div_ceil_def)
    then show ?thesis using b by simp
  next
    case False
    then have "div_ceil a b * b = a div b * b + b" by (simp add: div_ceil_def)
    then show ?thesis using ab False by linarith
  qed
qed

lemma fragment_count_bounds:
  assumes "0 < mss"
  shows "0 < fragment_count mss buf" and "length buf \<le> fragment_count mss buf * mss"
proof -
  have "0 < div_ceil (length buf) mss" if "mss < length buf"
    using div_ceil_bounds [OF assms, of "length buf"] that by (cases "div_ceil (length buf) mss") auto
  then show "0 < fragment_count mss buf" by (simp add: fragment_count_def)
  show "length buf \<le> fragment_count mss buf * mss"
    using div_ceil_bounds [OF assms, of "length buf"] by (simp add: fragment_count_def)
qed

lemma length_fragments [simp]: "length (fragments mss stream n buf) = n"
  by (induction n arbitrary: buf) (auto simp: Let_def)

lemma concat_fragments: "length buf \<le> n * mss \<Longrightarrow> concat (map seg_data (fragments mss stream n buf)) = buf"
proof (induction n arbitrary: buf)
  case (Suc n)
  have "length (drop (min mss (length buf)) buf) \<le> n * mss" using Suc.prems by auto
  then show ?case using Suc.IH [of "drop (min mss (length buf)) buf"]
    by (simp add: Let_def new_with_data_def)
qed simp

lemma fragments_size: "s \<in> set (fragments mss stream n buf) \<Longrightarrow> length (seg_data s) \<le> mss"
  by (induction n arbitrary: buf) (auto simp: Let_def new_with_data_def)

lemma fragments_frg: "i < n \<Longrightarrow> seg_frg (fragments mss False n buf ! i) = word_of_nat (n - i - 1)"
  by (induction n arbitrary: buf i) (auto simp: Let_def nth_Cons new_with_data_def split: nat.splits)

text \<open>A message on the wire: the last fragment, and only it, has number 0.\<close>

definition whole_message :: "kcp_segment list \<Rightarrow> bool" where
  "whole_message segs \<longleftrightarrow> segs \<noteq> [] \<and> seg_frg (last segs) = 0 \<and> (\<forall>s\<in>set (butlast segs). seg_frg s \<noteq> 0)"

lemma whole_message_Cons:
  "whole_message (s # segs) \<longleftrightarrow> (if segs = [] then seg_frg s = 0 else seg_frg s \<noteq> 0 \<and> whole_message segs)"
  by (auto simp: whole_message_def)

lemma recv_merge_message:
  "whole_message segs \<Longrightarrow> length (concat (map seg_data segs)) \<le> room \<Longrightarrow>
    recv_merge room acc (segs @ rest) = (Some (acc @ concat (map seg_data segs)), rest)"
proof (induction segs arbitrary: room acc)
  case (Cons s segs)
  then show ?case by (cases "segs = []") (auto simp: whole_message_Cons)
qed (simp add: whole_message_def)

lemma message_len_message:
  "whole_message segs \<Longrightarrow> message_len (segs @ rest) = length (concat (map seg_data segs))"
proof (induction segs)
  case (Cons s segs)
  then show ?case by (cases "segs = []") (auto simp: whole_message_Cons)
qed (simp add: whole_message_def)

lemma u8_nonzero: "0 < k \<Longrightarrow> k < 256 \<Longrightarrow> (word_of_nat k :: u8) \<noteq> 0"
  by (simp add: word_of_nat_eq_0_iff nat_dvd_not_less)

lemma whole_fragments:
  assumes "0 < n" and "n < 256"
  shows "whole_message (fragments mss False n buf)"
proof -
  let ?f = "fragments mss False n buf"
  have "seg_frg (?f ! i) \<noteq> 0" if "i < n - 1" for i
  proof -
    have "i < n" "0 < n - i - 1" "n - i - 1 < 256" using that assms(2) by linarith+
    then show ?thesis by (metis fragments_frg u8_nonzero)
  qed
  moreover have "last ?f = ?f ! (n - 1)" "seg_frg (?f ! (n - 1)) = 0"
    using assms fragments_frg [of "n - 1" n mss buf] by (simp_all add: last_conv_nth flip: length_0_conv)
  ultimately show ?thesis using assms
    by (auto simp: whole_message_def in_set_conv_nth nth_butlast simp flip: length_0_conv)
qed

lemma whole_message_content:
  "map content segs = map content segs' \<Longrightarrow> whole_message segs \<longleftrightarrow> whole_message segs'"
proof (induction segs arbitrary: segs')
  case (Cons s segs)
  then obtain t segs1 where "segs' = t # segs1" "content s = content t" "map content segs = map content segs1"
    by (cases segs') auto
  moreover from this have "seg_frg s = seg_frg t" by (simp add: content_def)
  moreover have "segs = [] \<longleftrightarrow> segs1 = []" using calculation(3) by auto
  ultimately show ?case using Cons.IH [of segs1] by (simp add: whole_message_Cons)
qed simp

lemma data_content: "map content segs = map content segs' \<Longrightarrow> map seg_data segs = map seg_data segs'"
  by (metis (no_types, lifting) content_def list.map_comp map_eq_conv comp_def snd_conv)

section \<open>Sending\<close>

lemma snd_inv_append: "snd_inv S n ks k \<Longrightarrow> snd_inv (S @ map content segs) n ks (k\<lparr>k_snd_queue := k_snd_queue k @ segs\<rparr>)"
  by (auto simp: snd_inv_def numbered_append)

lemma kcp_send_inv:
  assumes "snd_inv S n ks k" and "\<not> k_stream k" and "0 < k_mss k"
  shows "kcp_send buf k = Some (k, Inl UserBufTooBig) \<and> 128 \<le> fragment_count (k_mss k) buf \<or>
    fragment_count (k_mss k) buf < 128 \<and> (\<exists>segs. kcp_send buf k =
      Some (k\<lparr>k_snd_queue := k_snd_queue k @ segs\<rparr>, Inr (length buf)) \<and>
      snd_inv (S @ message_fragments (k_mss k) buf) n ks (k\<lparr>k_snd_queue := k_snd_queue k @ segs\<rparr>))"
proof -
  define c where "c = fragment_count (k_mss k) buf"
  define segs where "segs = fragments (k_mss k) False c buf"
  have c: "0 < c" "length buf \<le> c * k_mss k" unfolding c_def by (rule fragment_count_bounds [OF assms(3)])+
  have "length buf = sum_list (map (length \<circ> seg_data) segs)"
    using arg_cong [OF concat_fragments [OF c(2), of False], of length]
    by (simp add: segs_def length_concat)
  moreover have "kcp_send buf k = (let segs = fragments (k_mss k) False (max 1 c) buf
      in if unat KCP_WND_RCV \<le> c then Some (k, Inl UserBufTooBig)
         else Some (k\<lparr>k_snd_queue := k_snd_queue k @ segs\<rparr>, Inr (sum_list (map (length \<circ> seg_data) segs))))"
    unfolding kcp_send_def c_def fragment_count_def using assms(2,3) by (simp only: Let_def) simp
  moreover have "max 1 c = c" "unat KCP_WND_RCV = 128" using c(1) by (simp_all add: KCP_WND_RCV_def)
  ultimately have "kcp_send buf k = (if 128 \<le> c then Some (k, Inl UserBufTooBig)
      else Some (k\<lparr>k_snd_queue := k_snd_queue k @ segs\<rparr>, Inr (length buf)))"
    by (simp only: Let_def segs_def)
  then show ?thesis using snd_inv_append [OF assms(1), of segs]
    by (auto simp: c_def segs_def message_fragments_def)
qed

section \<open>Receiving\<close>

definition sendable :: "nat \<Rightarrow> bytes list \<Rightarrow> bool" where
  "sendable mss msgs \<longleftrightarrow> (\<forall>m\<in>set msgs. fragment_count mss m < 128)"

lemma stream_of_split:
  assumes "g < length msgs"
  shows "stream_of mss msgs = stream_of mss (take g msgs) @ message_fragments mss (msgs ! g) @
    stream_of mss (drop (Suc g) msgs)"
  using arg_cong [OF id_take_nth_drop [OF assms], of "\<lambda>x. stream_of mss x"]
  by (simp only: stream_of_def map_append concat_append list.map concat.simps)

lemma stream_of_take_Suc:
  "g < length msgs \<Longrightarrow> stream_of mss (take (Suc g) msgs) = stream_of mss (take g msgs) @ message_fragments mss (msgs ! g)"
  by (simp add: stream_of_def take_Suc_conv_app_nth)

lemma message_fragments_props:
  assumes "0 < mss" and "fragment_count mss m < 128" and "map content segs = message_fragments mss m"
  shows "whole_message segs" and "concat (map seg_data segs) = m" and "length segs = fragment_count mss m"
proof -
  let ?f = "fragments mss False (fragment_count mss m) m"
  note c = fragment_count_bounds [OF assms(1), of m]
  have e: "map content segs = map content ?f" using assms(3) by (simp add: message_fragments_def)
  show "whole_message segs" using whole_message_content [OF e] whole_fragments [OF c(1)] assms(2) by simp
  show "concat (map seg_data segs) = m" using data_content [OF e] concat_fragments [OF c(2)] by simp
  show "length segs = fragment_count mss m" using arg_cong [OF e, of length] by simp
qed

lemma queue_head_message:
  assumes "map content q = take l (message_fragments mss m @ rest)" and "0 < mss" and "fragment_count mss m < 128"
    and "q \<noteq> []"
  shows "unat (seg_frg (hd q)) = fragment_count mss m - 1"
    and "fragment_count mss m \<le> length q \<Longrightarrow> map content (take (fragment_count mss m) q) = message_fragments mss m"
proof -
  define c where "c = fragment_count mss m"
  define F where "F = fragments mss False c m"
  have c: "0 < c" "c < 128" using fragment_count_bounds(1) [OF assms(2)] assms(3) by (simp_all add: c_def)
  have mf: "message_fragments mss m = map content F" by (simp add: message_fragments_def F_def c_def)
  have F: "length F = c" "F \<noteq> []" using c(1) by (simp_all add: F_def flip: length_0_conv)
  have "l \<noteq> 0" using assms(1,4) by (metis map_is_Nil_conv take_0)
  then have "content (hd q) = content (hd F)"
    using arg_cong [OF assms(1), of hd] assms(4) F(2) by (simp add: hd_map mf hd_append take_eq_Nil)
  then have "seg_frg (hd q) = seg_frg (F ! 0)" using F(2) by (simp add: content_def hd_conv_nth)
  then have "seg_frg (hd q) = word_of_nat (c - 1)"
    using fragments_frg [OF c(1), of mss m] unfolding F_def by (simp only: diff_zero)
  then show "unat (seg_frg (hd q)) = fragment_count mss m - 1"
    using c by (simp only: c_def [symmetric] unat_of_nat take_bit_eq_mod) simp
  assume "fragment_count mss m \<le> length q"
  moreover have "length q \<le> l" using arg_cong [OF assms(1), of length] by simp
  ultimately have "c \<le> l" by (simp add: c_def)
  then have "take c (map content q) = map content F" unfolding assms(1) mf using F(1) by simp
  then show "map content (take (fragment_count mss m) q) = message_fragments mss m"
    by (simp add: mf c_def take_map)
qed

lemma peeksize_cases:
  assumes "k_rcv_queue k \<noteq> []"
  shows "peeksize k = (if length (k_rcv_queue k) < unat (seg_frg (hd (k_rcv_queue k))) + 1
    then Inl ExpectingFragment else Inr (message_len (k_rcv_queue k)))"
  using assms by (cases "k_rcv_queue k") (auto simp: peeksize_def)

text \<open>What \<^verbatim>\<open>recv\<close> leaves alone.\<close>

definition only_received :: "kcp \<Rightarrow> kcp \<Rightarrow> bool" where
  "only_received k k' \<longleftrightarrow> settings k' = settings k \<and> k_snd_nxt k' = k_snd_nxt k \<and>
     k_snd_queue k' = k_snd_queue k \<and> k_snd_buf k' = k_snd_buf k \<and> k_snd_una k' = k_snd_una k \<and>
     k_acklist k' = k_acklist k"

lemma move_buf_only_received: "only_received k (move_buf k)"
  by (simp add: only_received_def move_buf_def settings_def split: prod.splits)

lemma rcv_inv_pop:
  assumes "rcv_inv S m r js k" and "c \<le> length (k_rcv_queue k)"
  shows "rcv_inv S m r js (k\<lparr>k_rcv_queue := drop c (k_rcv_queue k)\<rparr>)"
proof -
  let ?q = "k_rcv_queue k"
  have "map content (drop c ?q) = drop c (drop (r - length ?q) (take r S))"
    using rcv_invD(5) [OF assms(1)] by (simp flip: drop_map)
  also have "\<dots> = drop (r - length (drop c ?q)) (take r S)"
    using rcv_invD(4) [OF assms(1)] assms(2) by (simp add: add.commute)
  finally show ?thesis using assms by (auto simp: rcv_inv_def)
qed

lemma kcp_recv_inv:
  assumes inv: "rcv_inv S m r js k" and S: "S = stream_of mss sent" and ok: "sendable mss sent" "0 < mss"
    and g: "g \<le> length sent"
    and base: "r - length (k_rcv_queue k) = length (stream_of mss (take g sent))"
  shows "peeksize k = Inl RecvQueueEmpty \<or> peeksize k = Inl ExpectingFragment \<or>
    g < length sent \<and> peeksize k = Inr (length (sent ! g)) \<and>
    (\<exists>k' r' js'. kcp_recv (length (sent ! g)) k = (k', Some (Inr (sent ! g))) \<and> rcv_inv S m r' js' k' \<and>
      r \<le> r' \<and> received r js \<subseteq> received r' js' \<and> only_received k k' \<and>
      r' - length (k_rcv_queue k') = length (stream_of mss (take (Suc g) sent)))"
proof (cases "k_rcv_queue k = []")
  case False
  define q where "q = k_rcv_queue k"
  have q: "map content q = drop (length (stream_of mss (take g sent))) (take r S)" "q \<noteq> []" "length q \<le> r"
    using rcv_invD(4,5) [OF inv] base False by (simp_all add: q_def)
  have gl: "g < length sent"
  proof (rule ccontr)
    assume "\<not> g < length sent"
    then have "take g sent = sent" using g by simp
    then show False using q(1,2) S by simp
  qed
  define c where "c = fragment_count mss (sent ! g)"
  have cb: "0 < c" "c < 128" using fragment_count_bounds(1) ok gl by (simp_all add: c_def sendable_def)
  have mq: "map content q = take (r - length (stream_of mss (take g sent)))
      (message_fragments mss (sent ! g) @ stream_of mss (drop (Suc g) sent))"
    using q(1) unfolding S drop_take stream_of_split [OF gl, of mss] by simp
  note hd = queue_head_message [OF mq ok(2) cb(2) [unfolded c_def] q(2), folded c_def]
  show ?thesis
  proof (cases "c \<le> length q")
    case False
    then have "peeksize k = Inl ExpectingFragment"
      using peeksize_cases [OF q(2) [unfolded q_def]] hd(1) cb(1) by (simp add: q_def)
    then show ?thesis by simp
  next
    case True
    note mp = message_fragments_props [OF ok(2) cb(2) [unfolded c_def] hd(2) [OF True]]
    have split: "q = take c q @ drop c q" by simp
    have ml: "message_len q = length (sent ! g)"
      using message_len_message [OF mp(1), of "drop c q"] mp(2) by simp
    have peek: "peeksize k = Inr (length (sent ! g))"
      using peeksize_cases [OF q(2) [unfolded q_def]] hd(1) cb(1) True ml by (simp add: q_def)
    have mg: "recv_merge (length (sent ! g)) [] q = (Some (sent ! g), drop c q)"
      using recv_merge_message [OF mp(1), of "length (sent ! g)" "[]" "drop c q"] mp(2) by simp
    define k1 where "k1 = k\<lparr>k_rcv_queue := drop c q\<rparr>"
    have k1: "rcv_inv S m r js k1" using rcv_inv_pop [OF inv] True by (simp add: k1_def q_def)
    from move_buf_rcv_inv [OF k1] obtain r' js' where mv: "rcv_inv S m r' js' (move_buf k1)" "r \<le> r'"
      "received r js \<subseteq> received r' js'" "length (k_rcv_queue (move_buf k1)) = length (drop c q) + (r' - r)"
      by (auto simp: k1_def)
    define k' where "k' = (if length (k_rcv_queue (move_buf k1)) < unat (k_rcv_wnd (move_buf k1)) \<and>
        unat (k_rcv_wnd k) \<le> length q
      then (move_buf k1)\<lparr>k_probe := k_probe (move_buf k1) OR KCP_ASK_TELL\<rparr> else move_buf k1)"
    have "kcp_recv (length (sent ! g)) k = (k', Some (Inr (sent ! g)))"
      using peek mg False by (simp add: kcp_recv_def q_def [symmetric] k1_def [symmetric] k'_def Let_def)
    moreover have "rcv_inv S m r' js' k'" using mv(1) by (auto simp: k'_def rcv_inv_def)
    moreover have "only_received k k'"
      using move_buf_only_received [of k1] by (simp add: only_received_def k'_def settings_def k1_def)
    moreover have "r' - length (k_rcv_queue k') = length (stream_of mss (take (Suc g) sent))"
    proof -
      have "length (message_fragments mss (sent ! g)) = c"
        using arg_cong [OF hd(2) [OF True], of length] True by simp
      then have "length (stream_of mss (take (Suc g) sent)) = r - length q + c"
        using base by (simp add: stream_of_take_Suc [OF gl] q_def)
      moreover have "length (k_rcv_queue k') = length q - c + (r' - r)" using mv(4) by (simp add: k'_def)
      ultimately show ?thesis using mv(2) True q(3) by linarith
    qed
    ultimately show ?thesis using gl peek mv(2,3) by blast
  qed
qed (simp add: peeksize_def)

end
