(* ===== verification/Kcp_Pair.thy ===== *)
theory Kcp_Pair
  imports Kcp_Messages Step_System "HOL-Library.Sublist"
begin

text \<open>
  Two KCP engines joined by a network that may lose, duplicate, delay and reorder packets. The
  applications send and receive messages at both ends, the drivers call \<^verbatim>\<open>update\<close> with any
  clock readings, and any packet emitted so far may be delivered at any time, any number of
  times.

  Sequence numbers wrap at \<open>2 ^ 32\<close>, so a packet can only be understood while it is recent. Each
  packet is stored with how many segments its sender had numbered and put in order when it was
  emitted; the network drops a packet once either count has grown by \<open>2 ^ 30\<close>.
\<close>

datatype kcp_end = Near | Far

fun other :: "kcp_end \<Rightarrow> kcp_end" where
  "other Near = Far"
| "other Far = Near"

lemma other_other [simp]: "other (other x) = x"
  by (cases x) auto

lemma other_neq [simp]: "other x \<noteq> x" "x \<noteq> other x"
  by (cases x; simp)+

record kcp_link =
  ends :: "kcp_end \<Rightarrow> rust_kcp"
  emitted :: "kcp_end \<Rightarrow> (bytes \<times> nat \<times> nat) list"
  accepted :: "kcp_end \<Rightarrow> bytes list"
  delivered :: "kcp_end \<Rightarrow> bytes list"

definition link_mss :: "kcp_link \<Rightarrow> kcp_end \<Rightarrow> nat" where
  "link_mss p x = k_mss (inner (ends p x))"

text \<open>The stream of one end, and the counts of its segments numbered and put in order so far.\<close>

definition link_stream :: "kcp_link \<Rightarrow> kcp_end \<Rightarrow> fragment list" where
  "link_stream p x = stream_of (link_mss p x) (accepted p x)"

definition numbered_count :: "kcp_link \<Rightarrow> kcp_end \<Rightarrow> nat" where
  "numbered_count p x = length (link_stream p x) - length (k_snd_queue (inner (ends p x)))"

definition ordered_count :: "kcp_link \<Rightarrow> kcp_end \<Rightarrow> nat" where
  "ordered_count p x = length (stream_of (link_mss p (other x)) (delivered p x)) +
     length (k_rcv_queue (inner (ends p x)))"

datatype link_op =
    LinkSend kcp_end bytes
  | LinkUpdate kcp_end nat
  | LinkRecv kcp_end
  | LinkDeliver kcp_end nat nat

definition recent_packet :: "kcp_link \<Rightarrow> kcp_end \<Rightarrow> nat \<times> nat \<Rightarrow> bool" where
  "recent_packet p y = (\<lambda>(c, r). numbered_count p y < c + 1073741824 \<and> ordered_count p y < r + 1073741824)"

definition link_send :: "kcp_end \<Rightarrow> bytes \<Rightarrow> kcp_link \<Rightarrow> kcp_link" where
  "link_send x msg p = (case engine_send msg (ends p x) of
       Some (e, Inr _) \<Rightarrow> p\<lparr>ends := (ends p)(x := e), accepted := (accepted p)(x := accepted p x @ [msg])\<rparr>
     | Some (e, Inl _) \<Rightarrow> p\<lparr>ends := (ends p)(x := e)\<rparr>
     | None \<Rightarrow> p)"

definition link_update :: "kcp_end \<Rightarrow> nat \<Rightarrow> kcp_link \<Rightarrow> kcp_link" where
  "link_update x now p =
     (let (e, packets) = engine_update now (ends p x);
          p1 = p\<lparr>ends := (ends p)(x := e)\<rparr>;
          tag = (numbered_count p1 x, ordered_count p1 x)
      in p1\<lparr>emitted := (emitted p)(x := emitted p x @ map (\<lambda>b. (b, tag)) packets)\<rparr>)"

definition link_recv :: "kcp_end \<Rightarrow> kcp_link \<Rightarrow> kcp_link" where
  "link_recv x p = (case engine_recv (ends p x) of
       (e, Inr (Some msg)) \<Rightarrow>
         p\<lparr>ends := (ends p)(x := e), delivered := (delivered p)(x := delivered p x @ [msg])\<rparr>
     | (e, _) \<Rightarrow> p\<lparr>ends := (ends p)(x := e)\<rparr>)"

definition link_deliver :: "kcp_end \<Rightarrow> nat \<Rightarrow> nat \<Rightarrow> kcp_link \<Rightarrow> kcp_link" where
  "link_deliver x i now p =
     (if i < length (emitted p (other x)) \<and> recent_packet p (other x) (snd (emitted p (other x) ! i))
      then p\<lparr>ends := (ends p)(x := fst (engine_input (fst (emitted p (other x) ! i)) now (ends p x)))\<rparr>
      else p)"

fun link_step :: "link_op \<Rightarrow> kcp_link \<Rightarrow> kcp_link" where
  "link_step (LinkSend x msg) p = link_send x msg p"
| "link_step (LinkUpdate x now) p = link_update x now p"
| "link_step (LinkRecv x) p = link_recv x p"
| "link_step (LinkDeliver x i now) p = link_deliver x i now p"

text \<open>A fresh connection: both ends created for one conversation, each with its own limits.\<close>

definition link_start :: "kcp_link \<Rightarrow> bool" where
  "link_start p \<longleftrightarrow> (\<exists>conv mtu lim. \<forall>x. new_with_limits conv (mtu x) (lim x) = Inr (ends p x)) \<and>
     (\<forall>x. emitted p x = [] \<and> accepted p x = [] \<and> delivered p x = [])"

section \<open>The invariant of the connection\<close>

text \<open>
  \<open>ks x\<close> are the positions in the send buffer of \<open>x\<close>, \<open>js x\<close> those in its receive buffer,
  \<open>adv x\<close> the positions it had received when it last flushed and \<open>lo x\<close> how many were in order
  then. Everything numbered is still buffered by the sender or has been advertised by the
  receiver.
\<close>

definition end_inv :: "(kcp_end \<Rightarrow> nat list) \<Rightarrow> (kcp_end \<Rightarrow> nat list) \<Rightarrow> (kcp_end \<Rightarrow> nat) \<Rightarrow>
    (kcp_end \<Rightarrow> nat set) \<Rightarrow> kcp_link \<Rightarrow> kcp_end \<Rightarrow> bool" where
  "end_inv ks js lo adv p x \<longleftrightarrow>
     snd_inv (link_stream p x) (numbered_count p x) (ks x) (inner (ends p x)) \<and>
     rcv_inv (link_stream p (other x)) (numbered_count p (other x)) (ordered_count p x) (js x) (inner (ends p x)) \<and>
     ack_inv (received (ordered_count p x) (js x)) (lo x) (inner (ends p x)) \<and>
     lo x \<le> ordered_count p x \<and> adv x \<subseteq> received (ordered_count p x) (js x) \<and> adv x \<subseteq> {..<lo x + 65535} \<and>
     (\<forall>i<numbered_count p x. i \<in> set (ks x) \<or> i \<in> adv (other x))"

definition plain_inv :: "u32 \<Rightarrow> kcp_link \<Rightarrow> kcp_end \<Rightarrow> bool" where
  "plain_inv conv p x \<longleftrightarrow>
     prefix (delivered p x) (accepted p (other x)) \<and>
     sendable (link_mss p x) (accepted p x) \<and> 0 < link_mss p x \<and> link_mss p x \<le> 65535 \<and>
     \<not> k_stream (inner (ends p x)) \<and> k_conv (inner (ends p x)) = conv \<and>
     k_buf (inner (ends p x)) = [] \<and> k_output (inner (ends p x)) = [] \<and> \<not> engine_failed (ends p x)"

definition packets_inv :: "u32 \<Rightarrow> (kcp_end \<Rightarrow> nat) \<Rightarrow> (kcp_end \<Rightarrow> nat set) \<Rightarrow> kcp_link \<Rightarrow> kcp_end \<Rightarrow> bool" where
  "packets_inv conv lo adv p x \<longleftrightarrow> (\<forall>(bs, c, r)\<in>set (emitted p x).
     c \<le> numbered_count p x \<and> r \<le> lo x \<and> {..<r} \<subseteq> adv x \<and>
     pkt_of (emit_seg conv (link_stream p x) c r (adv x)) bs)"

definition link_inv :: "u32 \<Rightarrow> (kcp_end \<Rightarrow> nat list) \<Rightarrow> (kcp_end \<Rightarrow> nat list) \<Rightarrow> (kcp_end \<Rightarrow> nat) \<Rightarrow>
    (kcp_end \<Rightarrow> nat set) \<Rightarrow> kcp_link \<Rightarrow> bool" where
  "link_inv conv ks js lo adv p \<longleftrightarrow>
     (\<forall>x. end_inv ks js lo adv p x \<and> plain_inv conv p x \<and> packets_inv conv lo adv p x)"

lemma all_ends: "(\<forall>z. P z) \<longleftrightarrow> P x \<and> P (other x)"
  by (cases x) (metis kcp_end.exhaust other.simps)+

lemma link_invI:
  assumes "end_inv ks js lo adv p x" and "plain_inv conv p x" and "packets_inv conv lo adv p x"
    and "end_inv ks js lo adv p (other x)" and "plain_inv conv p (other x)" and "packets_inv conv lo adv p (other x)"
  shows "link_inv conv ks js lo adv p"
  unfolding link_inv_def using assms by (subst all_ends [of _ x]) blast

lemma snd_inv_count: "snd_inv S n ks k \<Longrightarrow> length S - length (k_snd_queue k) = n"
  using arg_cong [OF snd_invD(3), of S n ks k length] snd_invD(2) [of S n ks k] by simp

lemma rcv_inv_append: "rcv_inv S m r js k \<Longrightarrow> rcv_inv (S @ T) m r js k"
  by (auto simp: rcv_inv_def numbered_append)

lemma rcv_inv_more: "rcv_inv S m r js k \<Longrightarrow> m \<le> m' \<Longrightarrow> m' \<le> length S \<Longrightarrow> rcv_inv S m' r js k"
  by (fastforce simp: rcv_inv_def)

text \<open>How far the numbering can be ahead of what the receiver last advertised.\<close>

lemma numbered_bound:
  assumes "link_inv conv ks js lo adv p"
  shows "numbered_count p x \<le> lo (other x) + 131072" and "lo (other x) \<le> ordered_count p (other x)"
    and "ordered_count p (other x) \<le> numbered_count p x"
proof -
  have e: "end_inv ks js lo adv p x" "end_inv ks js lo adv p (other x)" using assms by (auto simp: link_inv_def)
  let ?i = "lo (other x) + 65535"
  have "numbered_count p x \<le> ?i + 65535" if "?i < numbered_count p x"
  proof -
    have "?i \<notin> adv (other x)" using e(2) by (auto simp: end_inv_def)
    then have "?i \<in> set (ks x)" using e(1) that by (auto simp: end_inv_def)
    then show ?thesis using snd_invD(6) e(1) unfolding end_inv_def by blast
  qed
  then show "numbered_count p x \<le> lo (other x) + 131072" by linarith
  show "lo (other x) \<le> ordered_count p (other x)" using e(2) by (simp add: end_inv_def)
  show "ordered_count p (other x) \<le> numbered_count p x"
    using rcv_invD(2) e(2) unfolding end_inv_def by fastforce
qed

text \<open>Packets already emitted stay what they are.\<close>

lemma packets_inv_mono:
  assumes "packets_inv conv lo adv p x" and "adv x \<subseteq> A" and "lo x \<le> l" and "numbered_count p x \<le> n"
  shows "\<forall>(bs, c, r)\<in>set (emitted p x). c \<le> n \<and> r \<le> l \<and> {..<r} \<subseteq> A \<and>
    pkt_of (emit_seg conv (link_stream p x @ T) c r (A)) bs"
proof (clarify)
  fix bs c r assume "(bs, c, r) \<in> set (emitted p x)"
  then have b: "c \<le> numbered_count p x" "r \<le> lo x" "{..<r} \<subseteq> adv x"
    "pkt_of (emit_seg conv (link_stream p x) c r (adv x)) bs"
    using assms(1) by (auto simp: packets_inv_def)
  have "pkt_of (emit_seg conv (link_stream p x @ T) c r (A)) bs"
    by (rule pkt_of_mono [OF b(4)], erule emit_seg_mono [OF _ assms(2)])
  then show "c \<le> n \<and> r \<le> l \<and> {..<r} \<subseteq> A \<and> pkt_of (emit_seg conv (link_stream p x @ T) c r (A)) bs"
    using b assms(2-4) by auto
qed

section \<open>Sending\<close>

lemma engine_send_cases:
  assumes "snd_inv S n ks (inner e)" and "\<not> k_stream (inner e)" and "0 < k_mss (inner e)"
    and "\<not> engine_failed e"
  obtains err where "engine_send msg e = Some (e, Inl err)"
  | segs where "engine_send msg e =
      Some (e\<lparr>inner := (inner e)\<lparr>k_snd_queue := k_snd_queue (inner e) @ segs\<rparr>\<rparr>, Inr ())"
    and "fragment_count (k_mss (inner e)) msg < 128"
    and "snd_inv (S @ message_fragments (k_mss (inner e)) msg) n ks
      ((inner e)\<lparr>k_snd_queue := k_snd_queue (inner e) @ segs\<rparr>)"
proof (cases "max_queued_bytes e < sat_add (queued_bytes e) (queued_bytes_for (length msg) e)")
  case True
  then show ?thesis using that(1) [of WouldBlock] assms(4) by (simp add: engine_send_def)
next
  case False
  note send = kcp_send_inv [OF assms(1-3), of msg]
  show ?thesis
  proof (cases "kcp_send msg (inner e) = Some (inner e, Inl UserBufTooBig)")
    case True
    have "engine_send msg e = Some (e, Inl (map_kcp_error UserBufTooBig))"
      using False assms(4) True by (simp add: engine_send_def)
    then show ?thesis by (rule that(1))
  next
    case fits: False
    then obtain segs where segs: "fragment_count (k_mss (inner e)) msg < 128"
      "kcp_send msg (inner e) = Some ((inner e)\<lparr>k_snd_queue := k_snd_queue (inner e) @ segs\<rparr>, Inr (length msg))"
      "snd_inv (S @ message_fragments (k_mss (inner e)) msg) n ks ((inner e)\<lparr>k_snd_queue := k_snd_queue (inner e) @ segs\<rparr>)"
      using send by blast
    have "engine_send msg e = Some (e\<lparr>inner := (inner e)\<lparr>k_snd_queue := k_snd_queue (inner e) @ segs\<rparr>\<rparr>, Inr ())"
      using False assms(4) segs(2) by (simp add: engine_send_def)
    then show ?thesis by (rule that(2) [OF _ segs(1,3)])
  qed
qed

lemma link_send_inv:
  assumes inv: "link_inv conv ks js lo adv p"
  shows "link_inv conv ks js lo adv (link_send x msg p)"
proof -
  have i: "end_inv ks js lo adv p x" "plain_inv conv p x" "packets_inv conv lo adv p x"
    "end_inv ks js lo adv p (other x)" "plain_inv conv p (other x)" "packets_inv conv lo adv p (other x)"
    using inv by (auto simp: link_inv_def)
  have s: "snd_inv (link_stream p x) (numbered_count p x) (ks x) (inner (ends p x))"
    "\<not> k_stream (inner (ends p x))" "0 < k_mss (inner (ends p x))" "\<not> engine_failed (ends p x)"
    using i(1,2) by (auto simp: end_inv_def plain_inv_def link_mss_def)
  show ?thesis
  proof (rule engine_send_cases [OF s, of msg])
    fix err assume "engine_send msg (ends p x) = Some (ends p x, Inl err)"
    then show ?thesis using inv by (simp add: link_send_def)
  next
    fix segs
    define k where "k = (inner (ends p x))\<lparr>k_snd_queue := k_snd_queue (inner (ends p x)) @ segs\<rparr>"
    define F where "F = message_fragments (k_mss (inner (ends p x))) msg"
    define q where "q = p\<lparr>ends := (ends p)(x := (ends p x)\<lparr>inner := k\<rparr>), accepted := (accepted p)(x := accepted p x @ [msg])\<rparr>"
    assume "engine_send msg (ends p x) = Some ((ends p x)\<lparr>inner := (inner (ends p x))\<lparr>k_snd_queue := k_snd_queue (inner (ends p x)) @ segs\<rparr>\<rparr>, Inr ())"
      and c: "fragment_count (k_mss (inner (ends p x))) msg < 128"
      and sk: "snd_inv (link_stream p x @ message_fragments (k_mss (inner (ends p x))) msg) (numbered_count p x) (ks x)
        ((inner (ends p x))\<lparr>k_snd_queue := k_snd_queue (inner (ends p x)) @ segs\<rparr>)"
    then have q: "link_send x msg p = q" by (simp add: link_send_def k_def q_def)
    note sk = sk [folded k_def F_def]
    have mss: "link_mss q z = link_mss p z" for z by (simp add: q_def link_mss_def k_def)
    have str: "link_stream q x = link_stream p x @ F" "link_stream q (other x) = link_stream p (other x)"
      by (simp_all add: link_stream_def mss, simp_all add: q_def stream_of_def F_def link_mss_def)
    have n: "numbered_count q x = numbered_count p x" "numbered_count q (other x) = numbered_count p (other x)"
      using snd_inv_count [OF sk] by (simp_all add: numbered_count_def str, simp_all add: q_def)
    have r: "ordered_count q z = ordered_count p z" for z
      by (simp add: ordered_count_def mss, simp add: q_def k_def)
    have eq: "ends q (other x) = ends p (other x)" "inner (ends q x) = k" "delivered q = delivered p"
      "emitted q = emitted p" by (simp_all add: q_def)
    have "end_inv ks js lo adv q x"
      using i(1) sk unfolding end_inv_def n r str eq
      by (simp add: ack_inv_def k_def rcv_inv_def)
    moreover have "end_inv ks js lo adv q (other x)"
      using i(4) rcv_inv_append unfolding end_inv_def n r eq other_other str by blast
    moreover have "plain_inv conv q x" "plain_inv conv q (other x)"
      using i(2,5) c by (auto simp: plain_inv_def mss eq) (auto simp: q_def k_def sendable_def link_mss_def)
    moreover have "packets_inv conv lo adv q x"
      using packets_inv_mono [OF i(3), of "adv x" "lo x" "numbered_count p x" F] n(1) str(1) eq(4)
      by (simp add: packets_inv_def)
    moreover have "packets_inv conv lo adv q (other x)"
      using i(6) unfolding packets_inv_def n str eq by simp
    ultimately show ?thesis unfolding q by (intro link_invI [of ks js lo adv q x])
  qed
qed

section \<open>Receiving\<close>

lemma engine_recv_same:
  assumes "peeksize (inner e) = Inl RecvQueueEmpty \<or> peeksize (inner e) = Inl ExpectingFragment" and "\<not> engine_failed e"
  shows "engine_recv e = (e, Inr None)"
  using assms by (auto simp: engine_recv_def)

lemma engine_recv_message:
  assumes "peeksize (inner e) = Inr len" and "kcp_recv len (inner e) = (k, Some (Inr msg))" and "\<not> engine_failed e"
  shows "engine_recv e = (e\<lparr>inner := k\<rparr>, Inr (Some msg))"
  using assms by (simp add: engine_recv_def)

lemma prefix_take: "prefix xs ys \<Longrightarrow> take (length xs) ys = xs"
  by (auto simp: prefix_def)

lemma link_recv_inv:
  assumes inv: "link_inv conv ks js lo adv p"
  shows "\<exists>js'. link_inv conv ks js' lo adv (link_recv x p)"
proof -
  have i: "end_inv ks js lo adv p x" "plain_inv conv p x" "packets_inv conv lo adv p x"
    "end_inv ks js lo adv p (other x)" "plain_inv conv p (other x)" "packets_inv conv lo adv p (other x)"
    using inv by (auto simp: link_inv_def)
  let ?k = "inner (ends p x)" and ?r = "ordered_count p x" and ?g = "length (delivered p x)"
  have nf: "\<not> engine_failed (ends p x)" and pre: "prefix (delivered p x) (accepted p (other x))"
    using i(2) by (auto simp: plain_inv_def)
  have rcv: "rcv_inv (link_stream p (other x)) (numbered_count p (other x)) ?r (js x) ?k"
    using i(1) by (simp add: end_inv_def)
  have ok: "sendable (link_mss p (other x)) (accepted p (other x))" "0 < link_mss p (other x)"
    using i(5) by (auto simp: plain_inv_def)
  have base: "?r - length (k_rcv_queue ?k) = length (stream_of (link_mss p (other x)) (take ?g (accepted p (other x))))"
    using prefix_take [OF pre] by (simp add: ordered_count_def)
  have "?g \<le> length (accepted p (other x))" using prefix_length_le [OF pre] .
  from kcp_recv_inv [OF rcv link_stream_def ok this base]
  consider "peeksize ?k = Inl RecvQueueEmpty \<or> peeksize ?k = Inl ExpectingFragment"
    | k r' js1 where "?g < length (accepted p (other x))" "peeksize ?k = Inr (length (accepted p (other x) ! ?g))"
      "kcp_recv (length (accepted p (other x) ! ?g)) ?k = (k, Some (Inr (accepted p (other x) ! ?g)))"
      "rcv_inv (link_stream p (other x)) (numbered_count p (other x)) r' js1 k" "?r \<le> r'"
      "received ?r (js x) \<subseteq> received r' js1" "only_received ?k k"
      "r' - length (k_rcv_queue k) = length (stream_of (link_mss p (other x)) (take (Suc ?g) (accepted p (other x))))"
    by blast
  then show ?thesis
  proof cases
    case 1
    then have "link_recv x p = p" using engine_recv_same [OF 1 nf] by (simp add: link_recv_def)
    then show ?thesis using inv by metis
  next
    case 2
    define msg where "msg = accepted p (other x) ! ?g"
    define q where "q = p\<lparr>ends := (ends p)(x := (ends p x)\<lparr>inner := k\<rparr>), delivered := (delivered p)(x := delivered p x @ [msg])\<rparr>"
    have q: "link_recv x p = q"
      using engine_recv_message [OF 2(2,3) nf] by (simp add: link_recv_def q_def msg_def)
    have fr: "k_mss k = k_mss ?k" "k_conv k = k_conv ?k" "k_buf k = k_buf ?k" "k_output k = k_output ?k"
      "k_stream k = k_stream ?k" "k_acklist k = k_acklist ?k" "k_snd_queue k = k_snd_queue ?k"
      using 2(7) settings_simps [of k ?k] by (auto simp: only_received_def)
    have mss: "link_mss q z = link_mss p z" for z by (simp add: q_def link_mss_def fr)
    have str: "link_stream q z = link_stream p z" for z by (simp add: link_stream_def mss, simp add: q_def)
    have n: "numbered_count q z = numbered_count p z" for z
      by (simp add: numbered_count_def str, simp add: q_def fr)
    have dm: "delivered p x @ [msg] = take (Suc ?g) (accepted p (other x))"
      using 2(1) prefix_take [OF pre] by (simp add: take_Suc_conv_app_nth msg_def)
    have r: "ordered_count q x = r'" "ordered_count q (other x) = ordered_count p (other x)"
      using 2(8) rcv_invD(4) [OF 2(4)] dm by (simp_all add: ordered_count_def mss, simp_all add: q_def)
    have eq: "ends q (other x) = ends p (other x)" "inner (ends q x) = k" "emitted q = emitted p"
      "accepted q = accepted p" by (simp_all add: q_def)
    have snd: "snd_inv (link_stream p x) (numbered_count p x) (ks x) k"
      using i(1) 2(7) fr(2) by (auto simp: end_inv_def only_received_def intro: snd_inv_frame)
    have "end_inv ks (js(x := js1)) lo adv q x"
      using i(1) snd 2(4,5,6) ack_inv_mono [OF _ 2(6) fr(6)] unfolding end_inv_def n r str eq by auto
    moreover have "end_inv ks (js(x := js1)) lo adv q (other x)"
      using i(4) unfolding end_inv_def n r str eq by simp
    moreover have "plain_inv conv q x" "plain_inv conv q (other x)"
      using i(2,5) fr dm take_is_prefix [of "Suc ?g" "accepted p (other x)"]
      by (simp_all add: plain_inv_def mss eq, simp_all add: q_def)
    moreover have "packets_inv conv lo adv q x" "packets_inv conv lo adv q (other x)"
      using i(3,6) unfolding packets_inv_def n str eq by simp_all
    ultimately have "link_inv conv ks (js(x := js1)) lo adv q" by (intro link_invI [of _ _ _ _ q x])
    then show ?thesis unfolding q by blast
  qed
qed

section \<open>Delivery of a packet\<close>

lemma engine_input_cases:
  assumes "\<not> engine_failed e" and "kcp_input bs (inner e) = (k, Some res)"
  shows "fst (engine_input bs now e) = e \<or>
    inner (fst (engine_input bs now e)) = k \<and> \<not> engine_failed (fst (engine_input bs now e))"
  using assms by (auto simp: engine_input_def Let_def split: sum.splits unit.splits)

lemma emitted_fresh:
  assumes inv: "link_inv conv ks js lo adv p" and b: "(bs, c, r) \<in> set (emitted p (other x))"
    and rec: "recent_packet p (other x) (c, r)"
  shows "pkt_of (fresh_seg conv (link_stream p (other x)) (numbered_count p (other x)) (adv (other x)) (numbered_count p x)) bs"
proof -
  have "packets_inv conv lo adv p (other x)" "end_inv ks js lo adv p (other x)" using inv by (auto simp: link_inv_def)
  then have w: "c \<le> numbered_count p (other x)" "r \<le> lo (other x)" "{..<r} \<subseteq> adv (other x)"
    "pkt_of (emit_seg conv (link_stream p (other x)) c r (adv (other x))) bs"
    and adv: "adv (other x) \<subseteq> received (ordered_count p (other x)) (js (other x))"
    and rcv: "rcv_inv (link_stream p x) (numbered_count p x) (ordered_count p (other x)) (js (other x)) (inner (ends p (other x)))"
    using b by (auto simp: packets_inv_def end_inv_def)
  note nb = numbered_bound [OF inv, of x]
  have age: "numbered_count p (other x) < c + 1073741824" "ordered_count p (other x) < r + 1073741824"
    using rec by (auto simp: recent_packet_def)
  have lt: "i < numbered_count p x" if "i \<in> adv (other x)" for i
    using adv that rcv_invD(2,8) [OF rcv] by (force simp: received_def)
  show ?thesis
  proof (rule pkt_of_mono [OF w(4)])
    fix s assume s: "emit_seg conv (link_stream p (other x)) c r (adv (other x)) s"
    have "r \<le> numbered_count p x" "numbered_count p x < r + 2147483648" using w(2) nb age(2) by linarith+
    moreover have "numbered_count p (other x) \<le> i + 1073872896" if "c \<le> i + 65535" for i using that age(1) by linarith
    moreover have "numbered_count p x < i + 4294967296" if "r \<le> i + 1074003968" for i using that nb age(2) by linarith
    ultimately show "fresh_seg conv (link_stream p (other x)) (numbered_count p (other x)) (adv (other x)) (numbered_count p x) s"
      using s w(1,3) lt less_le_trans [OF _ w(1)] unfolding emit_seg_def fresh_seg_def by blast
  qed
qed

text \<open>The counts and streams when only the engine at \<open>x\<close> changes, and its queues keep their places.\<close>

lemma link_frame:
  assumes "q = p\<lparr>ends := (ends p)(x := e)\<rparr>" and "k_mss (inner e) = k_mss (inner (ends p x))"
  shows "link_mss q z = link_mss p z" and "link_stream q z = link_stream p z"
    and "numbered_count q (other x) = numbered_count p (other x)"
    and "ordered_count q (other x) = ordered_count p (other x)"
    and "ends q (other x) = ends p (other x)" and "ends q x = e" and "accepted q = accepted p"
    and "delivered q = delivered p" and "emitted q = emitted p"
proof -
  show m: "link_mss q z = link_mss p z" for z using assms by (simp add: link_mss_def)
  show s: "link_stream q z = link_stream p z" for z by (simp add: link_stream_def m, simp add: assms(1))
  show "numbered_count q (other x) = numbered_count p (other x)"
    "ordered_count q (other x) = ordered_count p (other x)"
    by (simp_all add: numbered_count_def ordered_count_def m s, simp_all add: assms(1))
qed (simp_all add: assms(1))

lemma link_deliver_inv:
  assumes inv: "link_inv conv ks js lo adv p"
  shows "\<exists>ks' js'. link_inv conv ks' js' lo adv (link_deliver x i now p)"
proof (cases "i < length (emitted p (other x)) \<and> recent_packet p (other x) (snd (emitted p (other x) ! i))")
  case True
  obtain bs c r where b: "emitted p (other x) ! i = (bs, c, r)" by (rule prod_cases3)
  then have mem: "(bs, c, r) \<in> set (emitted p (other x))" "recent_packet p (other x) (c, r)"
    using True nth_mem [of i "emitted p (other x)"] by auto
  have iv: "end_inv ks js lo adv p x" "plain_inv conv p x" "packets_inv conv lo adv p x"
    "end_inv ks js lo adv p (other x)" "plain_inv conv p (other x)" "packets_inv conv lo adv p (other x)"
    using inv by (auto simp: link_inv_def)
  let ?k = "inner (ends p x)"
  note nb = numbered_bound [OF inv, of "other x", simplified]
  have k: "k_conv ?k = conv" "k_mss ?k \<noteq> 0" "\<not> engine_failed (ends p x)"
    using iv(2) by (auto simp: plain_inv_def link_mss_def)
  have "input_inv (link_stream p x) (numbered_count p x) (ks x) (link_stream p (other x)) (numbered_count p (other x))
      (length (stream_of (link_mss p (other x)) (delivered p x))) (ordered_count p x) (js x) (lo x) ?k"
    using iv(1) nb by (simp add: input_inv_def end_inv_def, simp add: ordered_count_def)
  from kcp_input_inv [OF this emitted_fresh [OF inv mem, folded k(1)] k(2)]
  obtain k' res ks1 r1 js1 where kin: "kcp_input bs ?k = (k', Some res)"
    and ii: "input_inv (link_stream p x) (numbered_count p x) ks1 (link_stream p (other x)) (numbered_count p (other x))
      (length (stream_of (link_mss p (other x)) (delivered p x))) r1 js1 (lo x) k'"
    and st: "input_step (adv (other x)) (ks x) ks1 (ordered_count p x) (js x) r1 js1"
    and cfg: "settings k' = settings ?k"
    by blast
  define e where "e = fst (engine_input bs now (ends p x))"
  define q where "q = p\<lparr>ends := (ends p)(x := e)\<rparr>"
  have q: "link_deliver x i now p = q" using True b by (simp add: link_deliver_def q_def e_def)
  show ?thesis
  proof (cases "e = ends p x")
    case True
    then have "q = p" by (simp add: q_def)
    then show ?thesis using inv q by metis
  next
    case False
    then have e: "inner e = k'" "\<not> engine_failed e"
      using engine_input_cases [OF k(3) kin, of now] by (auto simp: e_def)
    note fr = settings_simps [OF cfg]
    note lf = link_frame [OF q_def, unfolded e(1), OF fr(3)]
    have n: "numbered_count q x = numbered_count p x"
      using ii snd_inv_count [of "link_stream p x" _ ks1 k'] by (simp add: numbered_count_def lf e input_inv_def)
    have r: "ordered_count q x = r1" using ii by (simp add: ordered_count_def lf e input_inv_def)
    have "end_inv (ks(x := ks1)) (js(x := js1)) lo adv q x"
      using iv(1) ii st nb unfolding end_inv_def n r lf e input_inv_def input_step_def by auto
    moreover have "end_inv (ks(x := ks1)) (js(x := js1)) lo adv q (other x)"
      using iv(4) unfolding end_inv_def n lf other_other by simp
    moreover have "plain_inv conv q x" "plain_inv conv q (other x)"
      using iv(2,5) fr e by (simp_all add: plain_inv_def lf)
    moreover have "packets_inv conv lo adv q x" "packets_inv conv lo adv q (other x)"
      using iv(3,6) unfolding packets_inv_def n lf by simp_all
    ultimately have "link_inv conv (ks(x := ks1)) (js(x := js1)) lo adv q" by (intro link_invI [of _ _ _ _ q x])
    then show ?thesis unfolding q by blast
  qed
next
  case False
  then have "link_deliver x i now p = p" by (auto simp: link_deliver_def)
  then show ?thesis using inv by metis
qed

section \<open>Updates\<close>

lemma engine_update_result:
  assumes "\<not> engine_failed e" and "kcp_update (word_of_nat now) (inner e) = (k, Inr ())"
  shows "inner (fst (engine_update now e)) = k\<lparr>k_output := []\<rparr>" and "snd (engine_update now e) = k_output k"
    and "\<not> engine_failed (fst (engine_update now e))"
  using assms by (simp_all add: engine_update_def Let_def case_prod_unfold)

lemma small_stream: "mss \<le> 65535 \<Longrightarrow> small_fragments (stream_of mss msgs)"
proof -
  assume m: "mss \<le> 65535"
  have "length (snd f) \<le> mss" if "f \<in> set (message_fragments mss msg)" for f msg
    using that fragments_size by (auto simp: message_fragments_def content_def)
  then show ?thesis using m by (fastforce simp: small_fragments_def stream_of_def u32_max_def)
qed

lemma link_update_inv:
  assumes inv: "link_inv conv ks js lo adv p"
  shows "\<exists>ks' lo' adv'. link_inv conv ks' js lo' adv' (link_update x now p)"
proof -
  have iv: "end_inv ks js lo adv p x" "plain_inv conv p x" "packets_inv conv lo adv p x"
    "end_inv ks js lo adv p (other x)" "plain_inv conv p (other x)" "packets_inv conv lo adv p (other x)"
    using inv by (auto simp: link_inv_def)
  let ?k = "inner (ends p x)" and ?S = "link_stream p x" and ?n = "numbered_count p x" and ?r = "ordered_count p x"
  note nb = numbered_bound [OF inv, of "other x", simplified]
  have k: "k_conv ?k = conv" "\<not> engine_failed (ends p x)" "k_buf ?k = []" "k_output ?k = []" "link_mss p x \<le> 65535"
    using iv(2) by (auto simp: plain_inv_def)
  have i: "snd_inv ?S ?n (ks x) ?k"
    "rcv_inv (link_stream p (other x)) (numbered_count p (other x)) ?r (js x) ?k"
    "ack_inv (received ?r (js x)) (lo x) ?k"
    using iv(1) by (simp_all add: end_inv_def)
  have "?r \<le> lo x + 131072" using nb by linarith
  from kcp_update_inv [OF i this k(3,4) small_stream [OF k(5), of "accepted p x", folded link_stream_def], of "word_of_nat now"]
  obtain k' n' where up: "kcp_update (word_of_nat now) ?k = (k', Inr ())"
    and s': "snd_inv ?S n' (ks x @ [?n..<n']) k'"
    and r': "rcv_inv (link_stream p (other x)) (numbered_count p (other x)) ?r (js x) k'" and nn: "?n \<le> n'"
    and ack: "k_acklist k' = [] \<or> k_acklist k' = k_acklist ?k \<and> n' = ?n \<and> k_output k' = []"
    and kb: "k_buf k' = []" and kp: "kept ?k k'"
    and out: "\<forall>b\<in>set (k_output k'). pkt_of (emit_seg conv ?S n' ?r (received ?r (js x))) b"
    unfolding k(1) by blast
  define e where "e = fst (engine_update now (ends p x))"
  define p1 where "p1 = p\<lparr>ends := (ends p)(x := e)\<rparr>"
  define q where "q = p1\<lparr>emitted := (emitted p)(x := emitted p x @ map (\<lambda>b. (b, n', ?r)) (k_output k'))\<rparr>"
  note er = engine_update_result [OF k(2) up, folded e_def]
  have kf: "k_mss (inner e) = k_mss ?k" using kp by (simp add: er(1) kept_def)
  note lf = link_frame [OF p1_def kf]
  have n1: "numbered_count p1 x = n'"
    using snd_inv_count [OF s'] by (simp add: numbered_count_def lf er(1))
  have r1: "ordered_count p1 x = ?r"
    using kp by (simp add: ordered_count_def lf er(1) kept_def)
  have q: "link_update x now p = q"
    using er(2) n1 r1 by (simp add: link_update_def q_def e_def [symmetric] p1_def [symmetric] Let_def case_prod_unfold)
  have qs: "link_mss q z = link_mss p z" "link_stream q z = link_stream p z" for z
    by (simp_all add: lf flip: lf(1,2)) (simp_all add: q_def link_mss_def link_stream_def)
  have qc: "numbered_count q z = numbered_count p1 z" "ordered_count q z = ordered_count p1 z" for z
    by (simp_all add: numbered_count_def ordered_count_def qs lf) (simp_all add: q_def p1_def)
  have c: "numbered_count q x = n'" "numbered_count q (other x) = numbered_count p (other x)"
    "ordered_count q x = ?r" "ordered_count q (other x) = ordered_count p (other x)"
    by (simp_all add: qc n1 r1 lf)
  have eq: "ends q (other x) = ends p (other x)" "inner (ends q x) = k'\<lparr>k_output := []\<rparr>"
    "accepted q = accepted p" "delivered q = delivered p" "\<not> engine_failed (ends q x)"
    "emitted q (other x) = emitted p (other x)"
    "emitted q x = emitted p x @ map (\<lambda>b. (b, n', ?r)) (k_output k')"
    using er by (simp_all add: q_def p1_def)
  have plain: "plain_inv conv q x" "plain_inv conv q (other x)"
    using iv(2,5) kp kb eq(5) by (simp_all add: plain_inv_def qs eq kept_def)
  have snd': "snd_inv ?S n' (ks x @ [?n..<n']) (k'\<lparr>k_output := []\<rparr>)"
    and rcv': "rcv_inv (link_stream p (other x)) (numbered_count p (other x)) ?r (js x) (k'\<lparr>k_output := []\<rparr>)"
    by (rule window_inv_frame(1) [OF s'], simp add: windows_def)
       (rule window_inv_frame(2) [OF r'], simp add: windows_def)
  have "rcv_inv ?S ?n (ordered_count p (other x)) (js (other x)) (inner (ends p (other x)))"
    using iv(4) by (simp add: end_inv_def)
  then have oth: "rcv_inv ?S n' (ordered_count p (other x)) (js (other x)) (inner (ends p (other x)))"
    by (rule rcv_inv_more [OF _ nn snd_invD(2) [OF s']])
  define ks' where "ks' = ks(x := ks x @ [?n..<n'])"
  show ?thesis
  proof (cases "k_acklist k' = []")
    case True
    define lo' where "lo' = lo(x := ?r)"
    define adv' where "adv' = adv(x := received ?r (js x))"
    have adv: "adv z \<subseteq> adv' z" for z using iv(1) by (simp add: adv'_def end_inv_def)
    have lo: "lo z \<le> lo' z" for z using iv(1) by (simp add: lo'_def end_inv_def)
    have at_x: "adv' x = received ?r (js x)" "lo' x = ?r" "ks' x = ks x @ [?n..<n']"
      "adv' (other x) = adv (other x)" "lo' (other x) = lo (other x)" "ks' (other x) = ks (other x)"
      by (simp_all add: adv'_def lo'_def ks'_def)
    have "received ?r (js x) \<subseteq> {..<?r + 65535}" using rcv_invD(8) [OF r'] by (auto simp: received_def)
    moreover have "ack_inv A l (k'\<lparr>k_output := []\<rparr>)" for A l using True by (simp add: ack_inv_def)
    moreover have "\<forall>i<n'. i \<in> set (ks x @ [?n..<n']) \<or> i \<in> adv (other x)"
      using iv(1) by (auto simp: end_inv_def) (meson not_le)
    ultimately have "end_inv ks' js lo' adv' q x"
      using snd' rcv' unfolding end_inv_def c qs eq at_x by blast
    moreover have "end_inv ks' js lo' adv' q (other x)"
      using iv(4) oth adv [of x] unfolding end_inv_def c qs eq at_x other_other by auto
    moreover have "packets_inv conv lo' adv' q x"
      using packets_inv_mono [OF iv(3) adv [of x] lo [of x] nn, of "[]"] out
      unfolding packets_inv_def c qs eq at_x by (auto simp: received_def)
    moreover have "packets_inv conv lo' adv' q (other x)"
      using iv(6) unfolding packets_inv_def c qs eq at_x by blast
    ultimately have "link_inv conv ks' js lo' adv' q" using plain by (intro link_invI [of _ _ _ _ q x])
    then show ?thesis unfolding q by blast
  next
    case False
    then have idle: "k_acklist k' = k_acklist ?k" "n' = ?n" "k_output k' = []" using ack by auto
    have ksx: "ks x @ [?n..<n'] = ks x" using idle(2) by simp
    have "end_inv ks js lo adv q x"
      using iv(1) snd' rcv' unfolding end_inv_def c qs eq ksx by (simp add: ack_inv_def idle)
    moreover have "end_inv ks js lo adv q (other x)"
      using iv(4) unfolding end_inv_def other_other c qs eq idle(2) by simp
    moreover have "packets_inv conv lo adv q x" "packets_inv conv lo adv q (other x)"
      using iv(3,6) unfolding packets_inv_def c qs eq idle by simp_all
    ultimately have "link_inv conv ks js lo adv q" using plain by (intro link_invI [of _ _ _ _ q x])
    then show ?thesis unfolding q by blast
  qed
qed

section \<open>Every run of the connection\<close>

definition link_ok :: "kcp_link \<Rightarrow> bool" where
  "link_ok p \<longleftrightarrow> (\<exists>conv ks js lo adv. link_inv conv ks js lo adv p)"

lemma link_okI: "link_inv conv ks js lo adv p \<Longrightarrow> link_ok p"
  unfolding link_ok_def by blast

lemma new_with_limits_fields:
  assumes "new_with_limits conv mtu lim = Inr e"
  shows "k_conv (inner e) = conv" and "k_mss (inner e) = mtu - 24" and "50 \<le> mtu" and "mtu \<le> 65535"
    and "\<not> k_stream (inner e)" and "k_buf (inner e) = []" and "k_output (inner e) = []"
    and "\<not> engine_failed e" and "k_snd_queue (inner e) = []" and "k_rcv_queue (inner e) = []"
    and "k_snd_buf (inner e) = []" and "k_rcv_buf (inner e) = []" and "k_acklist (inner e) = []"
    and "k_snd_nxt (inner e) = 0" and "k_snd_una (inner e) = 0" and "k_rcv_nxt (inner e) = 0"
  using assms
  by (auto simp: new_with_limits_def set_mtu_def set_wndsize_def set_nodelay_def kcp_new_def
      kcp_construct_def Let_def KCP_OVERHEAD_def split: if_splits)

lemma link_start_ok:
  assumes "link_start p"
  shows "link_ok p"
proof -
  obtain conv mtu lim where new: "\<And>x. new_with_limits conv (mtu x) (lim x) = Inr (ends p x)"
    and e: "\<And>x. emitted p x = []" "\<And>x. accepted p x = []" "\<And>x. delivered p x = []"
    using assms by (auto simp: link_start_def)
  note f = new_with_limits_fields [OF new]
  have c: "numbered_count p x = 0" "ordered_count p x = 0" "link_stream p x = []" for x
    by (simp_all add: numbered_count_def ordered_count_def link_stream_def stream_of_def e f)
  have "0 < link_mss p x" "link_mss p x \<le> 65535" for x
    using f(2-4) [of x] by (simp_all add: link_mss_def)
  then have "link_inv conv (\<lambda>_. []) (\<lambda>_. []) (\<lambda>_. 0) (\<lambda>_. {}) p"
    by (simp add: link_inv_def end_inv_def plain_inv_def packets_inv_def c e f snd_inv_def rcv_inv_def
        ack_inv_def first_no_def sendable_def)
  then show ?thesis unfolding link_ok_def by blast
qed

lemma link_step_ok:
  assumes "link_ok p"
  shows "link_ok (link_step op p)"
proof -
  obtain conv ks js lo adv where inv: "link_inv conv ks js lo adv p" using assms by (auto simp: link_ok_def)
  show ?thesis
  proof (cases op)
    case (LinkSend x msg)
    then show ?thesis using link_send_inv [OF inv, of x msg] by (auto intro: link_okI)
  next
    case (LinkUpdate x now)
    then show ?thesis using link_update_inv [OF inv, of x now] by (auto intro: link_okI)
  next
    case (LinkRecv x)
    then show ?thesis using link_recv_inv [OF inv, of x] by (auto intro: link_okI)
  next
    case (LinkDeliver x i now)
    then show ?thesis using link_deliver_inv [OF inv, of x i now] by (auto intro: link_okI)
  qed
qed

interpretation klink: invariant_system link_start link_step link_ok
  by unfold_locales (fact link_start_ok, fact link_step_ok)

text \<open>Where a fragment of the stream of \<open>x\<close> is kept, until the other end has it in order.\<close>

definition holds :: "fragment list \<Rightarrow> nat \<Rightarrow> kcp_segment list \<Rightarrow> bool" where
  "holds S i segs \<longleftrightarrow> (\<exists>s\<in>set segs. seg_sn s = word_of_nat i \<and> content s = S ! i)"

lemma numbered_holds: "numbered S ns segs \<Longrightarrow> i \<in> set ns \<Longrightarrow> holds S i segs"
  by (induction rule: list_all2_induct) (auto simp: holds_def numbered1_def)

lemma link_ok_held:
  assumes "link_ok p" and "i < length (link_stream p x)"
  shows "i < ordered_count p (other x) \<or> holds (link_stream p x) i (k_rcv_buf (inner (ends p (other x)))) \<or>
    holds (link_stream p x) i (k_snd_buf (inner (ends p x))) \<or>
    numbered_count p x \<le> i \<and>
      content (k_snd_queue (inner (ends p x)) ! (i - numbered_count p x)) = link_stream p x ! i"
proof -
  obtain conv ks js lo adv where inv: "link_inv conv ks js lo adv p" using assms(1) by (auto simp: link_ok_def)
  then have e: "end_inv ks js lo adv p x" "end_inv ks js lo adv p (other x)" by (auto simp: link_inv_def)
  then have s: "snd_inv (link_stream p x) (numbered_count p x) (ks x) (inner (ends p x))"
    and r: "rcv_inv (link_stream p x) (numbered_count p x) (ordered_count p (other x)) (js (other x)) (inner (ends p (other x)))"
    and k: "\<forall>i<numbered_count p x. i \<in> set (ks x) \<or> i \<in> adv (other x)"
    and a: "adv (other x) \<subseteq> received (ordered_count p (other x)) (js (other x))"
    by (simp_all add: end_inv_def)
  show ?thesis
  proof (cases "numbered_count p x \<le> i")
    case True
    have "i - numbered_count p x < length (k_snd_queue (inner (ends p x)))"
      using arg_cong [OF snd_invD(3) [OF s], of length] assms(2) True by simp
    then have "content (k_snd_queue (inner (ends p x)) ! (i - numbered_count p x)) =
        drop (numbered_count p x) (link_stream p x) ! (i - numbered_count p x)"
      by (simp only: nth_map flip: snd_invD(3) [OF s])
    then show ?thesis using True assms(2) by simp
  next
    case False
    then have "i \<in> set (ks x) \<or> i \<in> received (ordered_count p (other x)) (js (other x))"
      using k a by (meson not_le subsetD)
    then consider "i \<in> set (ks x)" | "i < ordered_count p (other x)" | "i \<in> set (js (other x))"
      by (auto simp: received_def)
    then show ?thesis
      using numbered_holds [OF snd_invD(4) [OF s]] numbered_holds [OF rcv_invD(6) [OF r]] by cases auto
  qed
qed

text \<open>A connection to try the theorems on.\<close>

definition demo_link :: kcp_link where
  "demo_link = \<lparr>ends = (\<lambda>_. demo_end), emitted = (\<lambda>_. []), accepted = (\<lambda>_. []), delivered = (\<lambda>_. [])\<rparr>"

lemma demo_link_start: "link_start demo_link"
  unfolding link_start_def demo_link_def using demo_end_new
  by (simp, intro exI [of _ 7] exI [of _ "\<lambda>_. 1200"] exI [of _ "\<lambda>_. 4194304"]) simp

text \<open>
  C28. Two KCP engines over a network that loses, duplicates, delays and reorders packets: what
  each application receives is, at every moment, a prefix of the messages the other application
  sent, each once, in order and complete, across any number of sequence number wraps.
\<close>

theorem kcp_exactly_once_in_order:
  assumes "link_start p"
  shows "prefix (delivered (run_ops link_step ops p) x) (accepted (run_ops link_step ops p) (other x))"
proof -
  obtain conv ks js lo adv where "link_inv conv ks js lo adv (run_ops link_step ops p)"
    using klink.reachable_inv [OF assms, of ops] by (auto simp: link_ok_def)
  then show ?thesis by (simp add: link_inv_def plain_inv_def)
qed

theorem kcp_exactly_once_in_order_witness:
  "link_start demo_link \<and>
   prefix (delivered (run_ops link_step [LinkSend Near [1, 2, 3], LinkUpdate Near 5, LinkDeliver Far 0 9, LinkRecv Far] demo_link) Far)
     (accepted (run_ops link_step [LinkSend Near [1, 2, 3], LinkUpdate Near 5, LinkDeliver Far 0 9, LinkRecv Far] demo_link) Near)"
  using kcp_exactly_once_in_order [OF demo_link_start,
      of "[LinkSend Near [1, 2, 3], LinkUpdate Near 5, LinkDeliver Far 0 9, LinkRecv Far]" Far]
    demo_link_start by (simp only: other.simps simp_thms)

text \<open>
  C29. No fragment is lost: every fragment of every accepted message is, at every moment, either
  in order at the other end, or in its receive buffer, or still in the sender's send buffer for
  retransmission, or waiting in the sender's queue. In particular an acknowledgement only ever
  removes what has arrived.
\<close>

theorem kcp_nothing_lost:
  assumes "link_start p" and "i < length (link_stream (run_ops link_step ops p) x)"
  shows "i < ordered_count (run_ops link_step ops p) (other x) \<or>
    holds (link_stream (run_ops link_step ops p) x) i (k_rcv_buf (inner (ends (run_ops link_step ops p) (other x)))) \<or>
    holds (link_stream (run_ops link_step ops p) x) i (k_snd_buf (inner (ends (run_ops link_step ops p) x))) \<or>
    numbered_count (run_ops link_step ops p) x \<le> i \<and>
      content (k_snd_queue (inner (ends (run_ops link_step ops p) x)) ! (i - numbered_count (run_ops link_step ops p) x)) =
        link_stream (run_ops link_step ops p) x ! i"
  by (rule link_ok_held [OF klink.reachable_inv [OF assms(1)] assms(2)])

lemma demo_send: "engine_send [1, 2, 3] demo_end =
   Some (demo_end\<lparr>inner := (inner demo_end)\<lparr>k_snd_queue := [new_with_data [1, 2, 3]]\<rparr>\<rparr>, Inr ())"
  by (simp add: engine_send_def demo_end_def queued_bytes_def queued_bytes_for_def wait_snd_def
      set_mtu_def set_wndsize_def set_nodelay_def kcp_new_def kcp_construct_def KCP_OVERHEAD_def
      usize_max_def kcp_send_def sat_mul_def sat_add_def div_ceil_def u64_max_def KCP_WND_RCV_def
      new_with_data_def)

theorem kcp_nothing_lost_witness:
  "0 < length (link_stream (run_ops link_step [LinkSend Near [1, 2, 3]] demo_link) Near) \<and>
   (0 < ordered_count (run_ops link_step [LinkSend Near [1, 2, 3]] demo_link) Far \<or>
    holds (link_stream (run_ops link_step [LinkSend Near [1, 2, 3]] demo_link) Near) 0
      (k_rcv_buf (inner (ends (run_ops link_step [LinkSend Near [1, 2, 3]] demo_link) Far))) \<or>
    holds (link_stream (run_ops link_step [LinkSend Near [1, 2, 3]] demo_link) Near) 0
      (k_snd_buf (inner (ends (run_ops link_step [LinkSend Near [1, 2, 3]] demo_link) Near))) \<or>
    numbered_count (run_ops link_step [LinkSend Near [1, 2, 3]] demo_link) Near \<le> 0 \<and>
      content (k_snd_queue (inner (ends (run_ops link_step [LinkSend Near [1, 2, 3]] demo_link) Near)) ! 0) =
        link_stream (run_ops link_step [LinkSend Near [1, 2, 3]] demo_link) Near ! 0)"
proof -
  have "k_mss (inner demo_end) = 1176" by (simp add: demo_end_def set_mtu_def KCP_OVERHEAD_def usize_max_def)
  then have "0 < length (link_stream (run_ops link_step [LinkSend Near [1, 2, 3]] demo_link) Near)"
    by (simp add: link_send_def demo_link_def demo_send link_stream_def stream_of_def
        message_fragments_def fragment_count_def link_mss_def flip: length_greater_0_conv)
  then show ?thesis
    using kcp_nothing_lost [OF demo_link_start, of 0 "[LinkSend Near [1, 2, 3]]" Near]
    by (simp only: other.simps simp_thms diff_0_eq_0)
qed

end
