(* ===== verification/Kcp_Adapter_Safety.thy ===== *)
theory Kcp_Adapter_Safety
  imports Kcp_Adapter Kcp_Messages Step_System
begin

text \<open>
  The KCP adapter against an arbitrary peer. Whatever packets arrive, in whatever order they are
  interleaved with sends, receives and ticks, the engine is never isolated by a panic, its buffers
  stay within their windows and budgets, and what it emits fits the MTU.
\<close>

section \<open>The receive window\<close>

text \<open>How far a segment number is ahead of the next expected one.\<close>

definition ahead :: "u32 \<Rightarrow> kcp_segment \<Rightarrow> nat" where
  "ahead nxt s = unat (seg_sn s - nxt)"

definition in_window :: "u32 \<Rightarrow> kcp_segment list \<Rightarrow> bool" where
  "in_window nxt segs \<longleftrightarrow> sorted_wrt (<) (map (ahead nxt) segs) \<and> (\<forall>s\<in>set segs. ahead nxt s < 128)"

lemma in_window_length:
  assumes "in_window nxt segs"
  shows "length segs \<le> 128"
proof -
  have "distinct (map (ahead nxt) segs)" using assms by (simp add: in_window_def strict_sorted_iff)
  moreover have "set (map (ahead nxt) segs) \<subseteq> {..<128}" using assms by (auto simp: in_window_def)
  ultimately show ?thesis
    using card_mono [of "{..<128::nat}" "set (map (ahead nxt) segs)"] distinct_card [of "map (ahead nxt) segs"]
    by simp
qed

lemma ahead_timediff:
  assumes "ahead nxt s < 128" and "ahead nxt s' < 128"
  shows "timediff (seg_sn s) (seg_sn s') = int (ahead nxt s) - int (ahead nxt s')"
proof -
  have "seg_sn s - seg_sn s' = word_of_nat (ahead nxt s) - word_of_nat (ahead nxt s')"
    by (simp add: ahead_def)
  then have "timediff (seg_sn s) (seg_sn s') = timediff (word_of_nat (ahead nxt s)) (word_of_nat (ahead nxt s'))"
    by (simp add: timediff_def)
  also have "\<dots> = int (ahead nxt s) - int (ahead nxt s')"
    using assms by (intro near_timediff) (simp add: near_def)
  finally show ?thesis .
qed

lemma insert_rev_ahead:
  assumes "\<forall>s\<in>set b. ahead nxt s < 128" and "ahead nxt new < 128"
  shows "map (ahead nxt) (insert_rev new b) = insert_desc (ahead nxt new) (map (ahead nxt) b)"
  using assms(1)
proof (induction b)
  case (Cons s b)
  have d: "timediff (seg_sn new) (seg_sn s) = int (ahead nxt new) - int (ahead nxt s)"
    using Cons.prems assms(2) by (simp add: ahead_timediff)
  have "seg_sn s = seg_sn new \<longleftrightarrow> ahead nxt s = ahead nxt new"
    using timediff_zero_iff [of "seg_sn new" "seg_sn s"] unfolding d by auto
  then show ?case using Cons.IH Cons.prems d by simp
qed simp

lemma set_insert_rev: "set (insert_rev new b) \<subseteq> insert new (set b)"
  by (induction b) auto

lemma window_edge:
  assumes "timediff (seg_sn s) (nxt + 128) < 0" and "0 \<le> timediff (seg_sn s) nxt"
  shows "ahead nxt s < 128"
proof -
  define w where "w = seg_sn s - nxt"
  have w: "0 \<le> sint w" "sint (w - 128) < 0" using assms by (simp_all add: timediff_def w_def algebra_simps)
  have int: "sint (word_of_int x :: u32) = x" if "- 2147483648 \<le> x" "x < 2147483648" for x
    using that by (simp add: sint_sbintrunc' signed_take_bit_int_eq_self)
  have "sint (word_of_int (sint w - 128) :: u32) = sint w - 128"
    using w(1) sint_lt [of w] by (intro int) auto
  then have small: "sint w < 128" using w(2) by simp
  have "uint (word_of_int x :: u32) = x" if "0 \<le> x" "x < 128" for x
    using that by (simp add: uint_word_of_int)
  from this [OF w(1) small] have "uint w = sint w" by simp
  then have "unat w < 128" using small by (simp add: unat_eq_nat_uint)
  then show ?thesis by (simp add: ahead_def w_def)
qed

text \<open>What may wait in the receive buffers.\<close>

definition held_seg :: "nat \<Rightarrow> kcp_segment \<Rightarrow> bool" where
  "held_seg mss s \<longleftrightarrow> length (seg_data s) \<le> mss \<and> seg_frg s < 128"

lemma move_avail_window:
  assumes "in_window nxt b" and "length q \<le> 128" and "move_avail 128 nxt q b = (nxt', q', b')"
  shows "in_window nxt' b' \<and> length q' \<le> 128 \<and> set q' \<union> set b' = set q \<union> set b"
  using assms
proof (induction b arbitrary: nxt q)
  case (Cons s b)
  show ?case
  proof (cases "seg_sn s = nxt \<and> length q < 128")
    case True
    have pos: "0 < ahead nxt t" if "t \<in> set b" for t
      using Cons.prems(1) that True by (auto simp: in_window_def)
    have step: "ahead (nxt + 1) t = ahead nxt t - 1" if "t \<in> set b" for t
    proof -
      have "seg_sn t - nxt \<noteq> 0" using pos [OF that] by (auto simp: ahead_def)
      then have "unat (seg_sn t - nxt - 1) = unat (seg_sn t - nxt) - 1" by (rule unat_minus_one)
      then show ?thesis by (simp only: ahead_def diff_diff_eq)
    qed
    have "sorted_wrt (\<lambda>s t. ahead nxt s < ahead nxt t) b"
      using Cons.prems(1) by (simp add: in_window_def sorted_wrt_map)
    then have "sorted_wrt (\<lambda>s t. ahead (nxt + 1) s < ahead (nxt + 1) t) b"
      by (rule sorted_wrt_mono_rel [rotated]) (simp add: step pos diff_less_mono Suc_leI)
    moreover have "ahead (nxt + 1) t < 128" if "t \<in> set b" for t
      using Cons.prems(1) step [OF that] that by (simp add: in_window_def less_imp_diff_less)
    ultimately have "in_window (nxt + 1) b" by (simp add: in_window_def sorted_wrt_map)
    then show ?thesis using Cons.IH [of "nxt + 1" "q @ [s]"] Cons.prems True by auto
  next
    case False
    then show ?thesis using Cons.prems by auto
  qed
qed (auto simp: in_window_def)

definition rcv_ok :: "kcp \<Rightarrow> bool" where
  "rcv_ok k \<longleftrightarrow> k_rcv_wnd k = 128 \<and> length (k_rcv_queue k) \<le> 128 \<and> in_window (k_rcv_nxt k) (k_rcv_buf k) \<and>
     (\<forall>s\<in>set (k_rcv_queue k) \<union> set (k_rcv_buf k). held_seg (k_mss k) s)"

lemma move_buf_ok: "rcv_ok k \<Longrightarrow> rcv_ok (move_buf k)"
proof -
  assume k: "rcv_ok k"
  obtain n q b where m: "move_avail (k_rcv_wnd k) (k_rcv_nxt k) (k_rcv_queue k) (k_rcv_buf k) = (n, q, b)"
    by (rule prod_cases3)
  then show ?thesis
    using move_avail_window [of "k_rcv_nxt k" "k_rcv_buf k" "k_rcv_queue k" n q b] k
    by (simp add: rcv_ok_def move_buf_def)
qed

lemma parse_data_ok:
  assumes k: "rcv_ok k" and s: "held_seg (k_mss k) s"
  shows "rcv_ok (parse_data s k)"
proof (cases "0 \<le> timediff (seg_sn s) (k_rcv_nxt k + ucast (k_rcv_wnd k)) \<or> timediff (seg_sn s) (k_rcv_nxt k) < 0")
  case False
  let ?b = "rev (insert_rev s (rev (k_rcv_buf k)))"
  have a: "ahead (k_rcv_nxt k) s < 128"
    using False k by (intro window_edge) (auto simp: rcv_ok_def)
  have b: "\<forall>s\<in>set (rev (k_rcv_buf k)). ahead (k_rcv_nxt k) s < 128" using k by (simp add: rcv_ok_def in_window_def)
  have "sorted_wrt (>) (map (ahead (k_rcv_nxt k)) (rev (k_rcv_buf k)))"
    using k by (simp add: rcv_ok_def in_window_def rev_map [symmetric] sorted_wrt_rev)
  then have "sorted_wrt (>) (map (ahead (k_rcv_nxt k)) (insert_rev s (rev (k_rcv_buf k))))"
    by (simp add: insert_rev_ahead [OF b a] sorted_insert_desc)
  then have "in_window (k_rcv_nxt k) ?b"
    using a b set_insert_rev [of s "rev (k_rcv_buf k)"]
    by (auto simp: in_window_def rev_map [symmetric] sorted_wrt_rev)
  then have "rcv_ok (k\<lparr>k_rcv_buf := ?b\<rparr>)"
    using k s set_insert_rev [of s "rev (k_rcv_buf k)"] by (auto simp: rcv_ok_def)
  then show ?thesis using False by (auto simp: parse_data_def intro: move_buf_ok)
qed (use k in \<open>simp add: parse_data_def\<close>)

section \<open>Input of a validated packet\<close>

definition snd_ok :: "kcp \<Rightarrow> bool" where
  "snd_ok k \<longleftrightarrow> (\<forall>s\<in>set (k_snd_buf k) \<union> set (k_snd_queue k). length (seg_data s) \<le> k_mss k)"

definition engine_ok :: "kcp \<Rightarrow> bool" where
  "engine_ok k \<longleftrightarrow> rcv_ok k \<and> snd_ok k"

text \<open>Processing input keeps the engine sound and never grows the amount of unacknowledged data.\<close>

definition drains :: "kcp \<Rightarrow> kcp \<Rightarrow> bool" where
  "drains k k' \<longleftrightarrow> (engine_ok k \<longrightarrow> engine_ok k') \<and> wait_snd k' \<le> wait_snd k"

lemma drains_refl [simp]: "drains k k"
  by (simp add: drains_def)

lemma drains_trans: "drains k k' \<Longrightarrow> drains k' k'' \<Longrightarrow> drains k k''"
  by (auto simp: drains_def)

lemma drains_snd_buf:
  "set segs \<subseteq> set (k_snd_buf k) \<Longrightarrow> length segs \<le> length (k_snd_buf k) \<Longrightarrow> drains k (k\<lparr>k_snd_buf := segs\<rparr>)"
  by (auto simp: drains_def engine_ok_def rcv_ok_def snd_ok_def wait_snd_def)

text \<open>The part of the control block all of this is about.\<close>

definition held :: "kcp \<Rightarrow> (nat \<times> u16 \<times> u32) \<times> (kcp_segment list \<times> kcp_segment list) \<times>
    (kcp_segment list \<times> kcp_segment list)" where
  "held k = ((k_mss k, k_rcv_wnd k, k_rcv_nxt k), (k_rcv_queue k, k_rcv_buf k), (k_snd_buf k, k_snd_queue k))"

lemma drains_frame: "held k' = held k \<Longrightarrow> drains k k'"
  by (simp add: held_def drains_def engine_ok_def rcv_ok_def snd_ok_def wait_snd_def)

lemma drains_parts [simp]:
  "drains k (k\<lparr>k_rmt_wnd := w\<rparr>)" "drains k (k\<lparr>k_probe := p\<rparr>)" "drains k (shrink_buf k)"
  "drains k (ack_push sn ts k)" "drains k (update_ack rtt k)" "drains k (clamp_cwnd k)"
  by (rule drains_frame, simp add: held_def shrink_buf_def ack_push_def clamp_cwnd_def)+

lemma drains_parse_una [simp]: "drains k (parse_una u k)"
  unfolding parse_una_def by (rule drains_snd_buf) (auto dest: set_dropWhileD intro: length_dropWhile_le)

lemma length_remove_acked: "length (remove_acked w segs) \<le> length segs"
  by (induction segs) (auto simp: Let_def)

lemma drains_parse_ack [simp]: "drains k (parse_ack w k)"
  unfolding parse_ack_def
  using drains_snd_buf [OF set_remove_acked length_remove_acked] by simp

lemma drains_same_data:
  assumes "map seg_data segs = map seg_data (k_snd_buf k)"
  shows "drains k (k\<lparr>k_snd_buf := segs\<rparr>)"
proof -
  have all: "(\<forall>s\<in>set b. length (seg_data s) \<le> m) \<longleftrightarrow> (\<forall>d\<in>set (map seg_data b). length d \<le> m)" for b m
    by simp
  have "length segs = length (k_snd_buf k)" using assms by (rule map_eq_imp_length_eq)
  moreover have "snd_ok k \<Longrightarrow> snd_ok (k\<lparr>k_snd_buf := segs\<rparr>)"
    by (simp add: snd_ok_def ball_Un all assms del: set_map)
  ultimately show ?thesis by (simp add: drains_def engine_ok_def rcv_ok_def wait_snd_def)
qed

lemma drains_parse_fastack [simp]: "drains k (parse_fastack w ts k)"
proof -
  have "map seg_data (mark_skipped w ts b) = map seg_data b" for b by (induction b) auto
  then show ?thesis by (simp add: parse_fastack_def drains_same_data)
qed

lemma drains_grow: "grow_cwnd k = Some k' \<Longrightarrow> drains k k'"
  by (rule drains_frame) (auto simp: grow_cwnd_def held_def Let_def split: if_splits)

lemma drains_parse_data: "held_seg (k_mss k) s \<Longrightarrow> drains k (parse_data s k)"
  using parse_data_ok [of k s] by (auto simp: drains_def engine_ok_def snd_ok_def wait_snd_def)

lemma input_segment_drains:
  assumes "seg_cmd s = KCP_CMD_PUSH \<Longrightarrow> held_seg (k_mss k) s"
  shows "drains k (fst (input_segment s (k, t)))"
proof -
  define k1 where "k1 = shrink_buf (parse_una (seg_una s) (k\<lparr>k_rmt_wnd := seg_wnd s\<rparr>))"
  have k1: "drains k k1"
    unfolding k1_def by (rule drains_trans [OF drains_parts(1) drains_trans [OF drains_parse_una drains_parts(3)]])
  have mss: "k_mss k1 = k_mss k" by (simp add: k1_def shrink_buf_def parse_una_def)
  consider "seg_cmd s = KCP_CMD_ACK" | "seg_cmd s = KCP_CMD_PUSH" | "seg_cmd s \<noteq> KCP_CMD_ACK" "seg_cmd s \<noteq> KCP_CMD_PUSH"
    by blast
  then show ?thesis
  proof cases
    case 1
    define k2 where "k2 = (if 0 \<le> timediff (k_current k1) (seg_ts s)
      then update_ack (word_of_int (timediff (k_current k1) (seg_ts s))) k1 else k1)"
    have "drains k1 k2" by (simp add: k2_def)
    moreover have "drains k2 (shrink_buf (parse_ack (seg_sn s) k2))"
      by (rule drains_trans [OF drains_parse_ack drains_parts(3)])
    moreover have "fst (input_segment s (k, t)) = shrink_buf (parse_ack (seg_sn s) k2)"
      using 1 by (simp add: input_segment_def Let_def k1_def k2_def)
    ultimately show ?thesis using k1 by (metis drains_trans)
  next
    case 2
    let ?k2 = "ack_push (seg_sn s) (seg_ts s) k1"
    have "drains ?k2 (parse_data s ?k2)"
      using assms 2 mss by (intro drains_parse_data) (simp add: ack_push_def)
    then have "drains k1 (parse_data s ?k2)" by (rule drains_trans [rotated]) simp
    then show ?thesis using 2 drains_trans [OF k1]
      by (simp add: input_segment_def Let_def k1_def [symmetric] kcp_cmd_defs)
  next
    case 3
    then show ?thesis using k1 drains_trans [OF k1]
      by (simp add: input_segment_def Let_def k1_def [symmetric])
  qed
qed

lemma pkt_len_header [simp]: "pkt_len bs = header_len bs"
  by (simp add: pkt_len_def header_len_def)

lemma read_segment_simps [simp]:
  "seg_data (read_segment bs) = subslice 24 (24 + header_len bs) bs"
  "seg_cmd (read_segment bs) = bs ! 4" "seg_frg (read_segment bs) = bs ! 5"
  by (simp_all add: read_segment_def new_with_data_def)

declare validate_segments.simps [simp del]

lemma validated_head:
  assumes "validate_segments now mss bs = Inr u" and "24 \<le> length bs"
  shows "header_len bs \<le> mss" "24 + header_len bs \<le> length bs" "known_cmd (bs ! 4)"
    "bs ! 4 = KCP_CMD_PUSH \<Longrightarrow> held_seg mss (read_segment bs)"
    "validate_segments now mss (drop (24 + header_len bs) bs) = Inr u"
proof -
  have ne: "bs \<noteq> []" using assms(2) by auto
  then have v: "valid_segment now mss bs" "validate_segments now mss (drop (24 + header_len bs) bs) = Inr u"
    using assms by (subst (asm) validate_segments.simps, simp split: if_splits)+
  then show "validate_segments now mss (drop (24 + header_len bs) bs) = Inr u"
    "header_len bs \<le> mss" "24 + header_len bs \<le> length bs" "known_cmd (bs ! 4)"
    by (simp_all add: valid_segment_def Let_def known_cmd_def kcp_cmd_defs)
  show "held_seg mss (read_segment bs)" if "bs ! 4 = KCP_CMD_PUSH"
    using v(1) that by (auto simp: valid_segment_def Let_def held_seg_def kcp_cmd_defs)
qed

lemma input_loop_drains:
  assumes "validate_segments now (k_mss k) bs = Inr u" and "\<not> k_input_conv k"
    and "input_loop bs (k, t) = ((k', t'), r)"
  shows "drains k k' \<and> settings k' = settings k"
  using assms
proof (induction "length bs" arbitrary: bs k t rule: less_induct)
  case less
  show ?case
  proof (cases "length bs < 24 \<or> seg_conv (read_segment bs) \<noteq> k_conv k")
    case True
    then show ?thesis using less.prems(2,3) by (subst (asm) input_loop.simps) (auto simp: KCP_OVERHEAD_def Let_def split: if_splits)
  next
    case False
    then have len: "24 \<le> length bs" and conv: "seg_conv (read_segment bs) = k_conv k" by auto
    note v = validated_head [OF less.prems(1) len]
    obtain k1 t1 where s: "input_segment (read_segment bs) (k, t) = (k1, t1)"
      by (cases "input_segment (read_segment bs) (k, t)")
    have d: "drains k k1" "settings k1 = settings k"
      using input_segment_drains [of "read_segment bs" k t] settings_input_segment [of "read_segment bs" k t] v(4) s
      by simp_all
    have same: "k_mss k1 = k_mss k" "k_input_conv k1 = k_input_conv k" using d(2) by (simp_all add: settings_def)
    have "\<not> length bs - 24 < header_len bs" using v(2) by linarith
    then have "input_loop (drop (24 + header_len bs) bs) (k1, t1) = ((k', t'), r)"
      using less.prems(3) len conv v(2,3) s
      by (subst (asm) input_loop.simps) (simp add: KCP_OVERHEAD_def Let_def)
    then have "drains k1 k' \<and> settings k' = settings k1"
      using less.hyps [of "drop (24 + header_len bs) bs" k1 t1] v(5) less.prems(2) same len by simp
    then show ?thesis using d drains_trans by metis
  qed
qed

lemma kcp_input_drains:
  assumes "validate_kcp_packet packet now (k_mss k) = Inr u" and "\<not> k_input_conv k" and "k_mss k \<noteq> 0"
    and "kcp_input packet k = (k', r)"
  shows "drains k k' \<and> settings k' = settings k \<and> r \<noteq> None"
proof -
  have v: "validate_segments now (k_mss k) packet = Inr u" "24 \<le> length packet"
    using assms(1) by (auto simp: validate_kcp_packet_def split: if_splits)
  obtain k1 t r1 where l: "input_loop packet (k, None) = ((k1, t), r1)" by (metis prod.exhaust)
  note d = input_loop_drains [OF v(1) assms(2) l]
  define k2 where "k2 = (case t of None \<Rightarrow> k1 | Some (m, ts) \<Rightarrow> parse_fastack m ts k1)"
  have d2: "drains k k2" "settings k2 = settings k"
    using d drains_trans [OF conjunct1 [OF d]] by (auto simp: k2_def split: option.splits)
  have mss: "k_mss k2 \<noteq> 0" using d2(2) assms(3) by (simp add: settings_def)
  obtain k3 where g: "grow_cwnd k2 = Some k3" using grow_cwnd_defined [OF mss] by blast
  have d3: "drains k (clamp_cwnd k3)" "settings (clamp_cwnd k3) = settings k"
    using drains_trans [OF d2(1) drains_trans [OF drains_grow [OF g]]] settings_cwnd(1) [OF g] settings_cwnd(2) [of k3] d2(2)
    by simp_all
  show ?thesis
    using assms(4) v(2) d d2 d3 l g
    by (auto simp: kcp_input_def KCP_OVERHEAD_def Let_def k2_def [symmetric] split: sum.splits if_splits)
qed

section \<open>Packets fit the MTU\<close>

definition fits :: "kcp \<Rightarrow> bool" where
  "fits k \<longleftrightarrow> length (k_buf k) \<le> k_mtu k \<and> (\<forall>p\<in>set (k_output k). p \<noteq> [] \<and> length p \<le> k_mtu k)"

lemma put_segment_mtu [simp]: "k_mtu (put_segment s need k) = k_mtu k"
  by (simp add: put_segment_def write_buf_def Let_def)

lemma fits_put:
  assumes "fits k" and "encoded_len s \<le> need" and "need \<le> k_mtu k"
  shows "fits (put_segment s need k)"
  using assms by (auto simp: fits_def put_segment_def write_buf_def output_write_def Let_def)

lemma fits_write_buf: "fits k \<Longrightarrow> fits (write_buf k)"
  by (auto simp: fits_def write_buf_def output_write_def)

lemma fits_frame: "fits k \<Longrightarrow> k_buf k' = k_buf k \<Longrightarrow> k_output k' = k_output k \<Longrightarrow> k_mtu k' = k_mtu k \<Longrightarrow> fits k'"
  by (simp add: fits_def)

lemma fits_acks:
  assumes "fits k" and "seg_data s = []" and "24 \<le> k_mtu k"
  shows "fits (snd (flush_acks as (s, k))) \<and> seg_data (fst (flush_acks as (s, k))) = [] \<and>
    k_mtu (snd (flush_acks as (s, k))) = k_mtu k"
  using assms
proof (induction as arbitrary: s k)
  case (Cons a as)
  have "fits (put_segment (s\<lparr>seg_sn := fst a, seg_ts := snd a\<rparr>) KCP_OVERHEAD k)"
    using Cons.prems by (intro fits_put) (simp_all add: encoded_len_def KCP_OVERHEAD_def)
  then show ?case using Cons.IH [of _ "s\<lparr>seg_sn := fst a, seg_ts := snd a\<rparr>"] Cons.prems by (simp add: Let_def)
qed simp

lemma fits_probe_command:
  assumes "fits (snd sk)" and "seg_data (fst sk) = []" and "24 \<le> k_mtu (snd sk)"
  shows "fits (snd (flush_probe_command c sk)) \<and> seg_data (fst (flush_probe_command c sk)) = [] \<and>
    k_mtu (snd (flush_probe_command c sk)) = k_mtu (snd sk)"
  using assms fits_put [of "snd sk" "(fst sk)\<lparr>seg_cmd := c\<rparr>" KCP_OVERHEAD]
  by (simp add: flush_probe_command_def Let_def encoded_len_def KCP_OVERHEAD_def)

lemma fits_control:
  assumes "fits k" and "24 \<le> k_mtu k"
  shows "fits (flush_control k)"
proof -
  define sk where "sk = flush_acks (k_acklist k) (ack_template k, k)"
  have sk: "fits (snd sk)" "seg_data (fst sk) = []" "k_mtu (snd sk) = k_mtu k"
    using fits_acks [OF assms(1), of "ack_template k" "k_acklist k"] assms(2) by (simp_all add: sk_def)
  define k1 where "k1 = probe_wnd_size ((snd sk)\<lparr>k_acklist := []\<rparr>)"
  have k1: "fits k1" "k_mtu k1 = k_mtu k"
    using sk by (simp_all add: k1_def probe_wnd_size_def Let_def fits_def)
  define a where "a = (if k_probe k1 AND KCP_ASK_SEND \<noteq> 0
    then flush_probe_command KCP_CMD_WASK (fst sk, k1) else (fst sk, k1))"
  have a: "fits (snd a)" "seg_data (fst a) = []" "k_mtu (snd a) = k_mtu k"
    using fits_probe_command [of "(fst sk, k1)"] k1 sk(2) assms(2) by (simp_all add: a_def)
  define b where "b = (if k_probe (snd a) AND KCP_ASK_TELL \<noteq> 0 then flush_probe_command KCP_CMD_WINS a else a)"
  have "fits (snd b)" using fits_probe_command [of a] a assms(2) by (simp add: b_def)
  moreover have "flush_control k = (snd b)\<lparr>k_probe := 0\<rparr>"
    unfolding b_def a_def k1_def sk_def
    by (simp add: flush_control_def flush_ack_list_def flush_probe_commands_def Let_def case_prod_unfold)
  ultimately show ?thesis by (simp add: fits_def)
qed

lemma fits_segments:
  assumes "flush_segments wnd resent rtomin segs (k, lost, change) = (segs', k', lost', change')"
    and "fits k" and "\<forall>s\<in>set segs. 24 + length (seg_data s) \<le> k_mtu k"
  shows "fits k'"
  using assms
proof (induction segs arbitrary: k lost change segs' k' lost' change')
  case (Cons s segs)
  define why where "why = resend_reason k resent s"
  define s1 where "s1 = (reschedule k rtomin why s)
    \<lparr>seg_ts := k_current k, seg_wnd := wnd, seg_una := k_rcv_nxt k\<rparr>"
  define k1 where "k1 = (if why = Timed_Out then k\<lparr>k_xmit := u32_sat_add (k_xmit k) 1\<rparr> else k)"
  define k2 where "k2 = put_segment s1 (KCP_OVERHEAD + length (seg_data s1)) k1"
  define k3 where "k3 = (if k_dead_link k2 \<le> seg_xmit s1 then k2\<lparr>k_state := - 1\<rparr> else k2)"
  have d: "seg_data s1 = seg_data s" by (cases why) (simp_all add: s1_def reschedule_def Let_def)
  have "fits k1" using Cons.prems(2) by (simp add: k1_def fits_def)
  then have "fits k2"
    using Cons.prems(3) unfolding k2_def by (intro fits_put) (simp_all add: encoded_len_def d KCP_OVERHEAD_def k1_def)
  then have "fits k3" and "k_mtu k3 = k_mtu k" by (simp_all add: k3_def fits_def k2_def k1_def)
  note k3 = this
  define acc where "acc = (if why = Not_Due then (k, lost, change)
    else (k3, lost \<or> why = Timed_Out, if why = Fast_Resend then change + 1 else change))"
  have "flush_segments wnd resent rtomin (s # segs) (k, lost, change) =
      (let (b1, r) = flush_segments wnd resent rtomin segs acc in (if why = Not_Due then s # b1 else s1 # b1, r))"
    unfolding acc_def k3_def k2_def k1_def s1_def why_def by (simp add: Let_def)
  then obtain segs1 where f: "flush_segments wnd resent rtomin segs acc = (segs1, k', lost', change')"
    using Cons.prems(1) by (auto simp: Let_def split: prod.splits)
  have "fst acc = (if why = Not_Due then k else k3)" by (simp add: acc_def)
  then have "fits (fst acc)" "k_mtu (fst acc) = k_mtu k" using k3 Cons.prems(2) by simp_all
  moreover obtain l c where "acc = (fst acc, l, c)" by (metis prod.exhaust_sel)
  ultimately show ?case using Cons.IH [of "fst acc" l c segs1 k' lost' change'] f Cons.prems(3) by simp
qed simp

section \<open>A whole flush\<close>

lemma fill_window_data:
  "fill_window k cwnd wnd nxt q = (nxt', added, q') \<Longrightarrow> map seg_data added @ map seg_data q' = map seg_data q"
proof (induction q arbitrary: nxt nxt' added q')
  case (Cons s q)
  then show ?case by (auto simp: Let_def stamp_def split: if_splits prod.splits)
qed auto

lemma snd_ok_data:
  "snd_ok k \<longleftrightarrow> (\<forall>d\<in>set (map seg_data (k_snd_buf k) @ map seg_data (k_snd_queue k)). length d \<le> k_mss k)"
  by (auto simp: snd_ok_def)

lemma wait_snd_data: "wait_snd k = length (map seg_data (k_snd_buf k) @ map seg_data (k_snd_queue k))"
  by (simp add: wait_snd_def)

text \<open>A flush renumbers and retransmits; the payloads waiting stay what they are.\<close>

definition same_waiting :: "kcp \<Rightarrow> kcp \<Rightarrow> bool" where
  "same_waiting k k' \<longleftrightarrow> kept k k' \<and> k_rcv_nxt k' = k_rcv_nxt k \<and> k_rcv_buf k' = k_rcv_buf k \<and>
     map seg_data (k_snd_buf k') @ map seg_data (k_snd_queue k') =
     map seg_data (k_snd_buf k) @ map seg_data (k_snd_queue k)"

lemma same_waiting_ok:
  assumes "same_waiting k k'"
  shows "engine_ok k' \<longleftrightarrow> engine_ok k" and "wait_snd k' = wait_snd k"
proof -
  have d: "map seg_data (k_snd_buf k') @ map seg_data (k_snd_queue k') =
      map seg_data (k_snd_buf k) @ map seg_data (k_snd_queue k)" and m: "k_mss k' = k_mss k"
    using assms by (simp_all add: same_waiting_def kept_def)
  show "wait_snd k' = wait_snd k" unfolding wait_snd_data d ..
  have "snd_ok k' = snd_ok k" unfolding snd_ok_data d m ..
  then show "engine_ok k' \<longleftrightarrow> engine_ok k"
    using assms by (simp add: engine_ok_def rcv_ok_def same_waiting_def kept_def)
qed

lemma flush_prepare_waiting:
  assumes "k_buf k = []" and "k_output k = []" and "24 \<le> k_mtu k"
  shows "same_waiting k (flush_prepare k)" and "fits (flush_prepare k)" and "out_ok (\<lambda>_. True) (flush_prepare k)"
proof -
  define k2 where "k2 = flush_control k"
  have t: "out_ok (\<lambda>_. True) k" using assms(1,2) by (simp add: out_ok_def)
  note c = flush_control_props [where P = "\<lambda>_. True", OF t, simplified, folded k2_def]
  have "fits k" using assms by (simp add: fits_def)
  then have f: "fits k2" unfolding k2_def using fits_control assms(3) by blast
  obtain nxt added q where w: "fill_window k2 (send_window k2) (wnd_unused k) (k_snd_nxt k2) (k_snd_queue k2) = (nxt, added, q)"
    by (rule prod_cases3)
  have p: "flush_prepare k = k2\<lparr>k_snd_nxt := nxt, k_snd_queue := q, k_snd_buf := k_snd_buf k2 @ added\<rparr>"
    by (simp add: flush_prepare_control k2_def [symmetric] Let_def w)
  show "fits (flush_prepare k)" unfolding p using f by (simp add: fits_def)
  show "out_ok (\<lambda>_. True) (flush_prepare k)" unfolding p using c(2) by (simp add: out_ok_def)
  show "same_waiting k (flush_prepare k)"
    unfolding p using c(3) windows_simps(3,5,6,8) [OF c(1)] fill_window_data [OF w]
    by (simp add: same_waiting_def kept_def)
qed

lemma same_segments_data: "list_all2 same_segment segs segs' \<Longrightarrow> map seg_data segs' = map seg_data segs"
  by (induction rule: list_all2_induct) (auto simp: same_segment_def content_def)

lemma kcp_flush_waiting:
  assumes "k_buf k = []" and "k_output k = []" and "k_updated k" and "snd_ok k" and "k_mtu k = k_mss k + 24"
  shows "\<exists>k'. kcp_flush k = (k', Inr ()) \<and> same_waiting k k' \<and> fits k' \<and> k_buf k' = []"
proof -
  define k1 where "k1 = flush_prepare k"
  have p: "same_waiting k k1" "fits k1" "out_ok (\<lambda>_. True) k1"
    using flush_prepare_waiting [OF assms(1,2)] assms(5) by (simp_all add: k1_def)
  obtain b k2 lost change where f: "flush_segments (wnd_unused k) (resend_limit k1) (rto_slack k1)
      (k_snd_buf k1) (k1, False, 0) = (b, k2, lost, change)"
    by (rule prod_cases4)
  have m1: "k_mtu k1 = k_mss k1 + 24" using p(1) assms(5) by (simp add: same_waiting_def kept_def)
  have "snd_ok k1 = snd_ok k"
    using p(1) unfolding snd_ok_data by (simp only: same_waiting_def kept_def)
  then have fb: "fits k2"
    using fits_segments [OF f p(2)] m1 assms(4) by (simp add: snd_ok_def)
  have "list_all2 same_segment (k_snd_buf k1) b \<and> sending k1 k2 \<and> out_ok (\<lambda>_. True) k2"
    by (rule flush_segments_props [OF f p(3)]) simp
  then have fs: "list_all2 same_segment (k_snd_buf k1) b" "sending k1 k2" by blast+
  define k3 where "k3 = write_buf (k2\<lparr>k_snd_buf := b\<rparr>)"
  define k' where "k' = adjust_cwnd (send_window k1) (resend_limit k1) lost change k3"
  have "kcp_flush k = (k', Inr ())"
    using kcp_flush_adjust [OF assms(3) f [unfolded k1_def]] by (simp add: k'_def k3_def k1_def)
  moreover have "k_buf k' = []" by (simp add: k'_def k3_def write_buf_def)
  moreover have "fits k'"
    using fits_write_buf [of "k2\<lparr>k_snd_buf := b\<rparr>"] fb adjust_cwnd_frame(4) [of k3]
    by (simp add: k'_def k3_def [symmetric] fits_def kept_def)
  moreover have "same_waiting k1 k3"
    using sending_frame [OF fs(2)] windows_simps [OF sending_frame(2) [OF fs(2)]] same_segments_data [OF fs(1)]
    by (simp add: same_waiting_def kept_def k3_def write_buf_def)
  moreover have "same_waiting k3 k'"
    using adjust_cwnd_frame(4) [of k3] windows_simps [OF adjust_cwnd_frame(1) [of _ _ lost change k3]]
    by (simp add: same_waiting_def k'_def)
  ultimately show ?thesis
    using p(1) by (auto simp: same_waiting_def intro: kept_trans)
qed

section \<open>Receiving\<close>

lemma recv_merge_room:
  "message_len q \<le> room \<Longrightarrow>
   \<exists>msg pre q'. recv_merge room acc q = (Some (acc @ msg), q') \<and> length msg = message_len q \<and> q = pre @ q'"
proof (induction q arbitrary: room acc)
  case (Cons s q)
  show ?case
  proof (cases "seg_frg s = 0")
    case True
    then show ?thesis using Cons.prems by (auto intro: exI [of _ "[s]"])
  next
    case False
    then have "message_len q \<le> room - length (seg_data s)" using Cons.prems by simp
    from Cons.IH [OF this, of "acc @ seg_data s"] obtain msg pre q' where
      "recv_merge (room - length (seg_data s)) (acc @ seg_data s) q = (Some ((acc @ seg_data s) @ msg), q')"
      "length msg = message_len q" "q = pre @ q'"
      by blast
    then show ?thesis using False Cons.prems
      by (intro exI [of _ "seg_data s @ msg"] exI [of _ "s # pre"] exI [of _ q']) auto
  qed
qed simp

lemma peeksize_message_len: "peeksize k = Inr n \<Longrightarrow> k_rcv_queue k \<noteq> [] \<and> n = message_len (k_rcv_queue k)"
  by (auto simp: peeksize_def split: list.splits if_splits)

lemma kcp_recv_ok:
  assumes "peeksize k = Inr n"
  shows "\<exists>k' msg. kcp_recv n k = (k', Some (Inr msg)) \<and> drains k k' \<and> settings k' = settings k"
proof -
  obtain msg pre q where m: "recv_merge n [] (k_rcv_queue k) = (Some msg, q)" "length msg = n" "k_rcv_queue k = pre @ q"
    using recv_merge_room [of "k_rcv_queue k" n "[]"] peeksize_message_len [OF assms] by auto
  define k2 where "k2 = move_buf (k\<lparr>k_rcv_queue := q\<rparr>)"
  have "rcv_ok k2" if "rcv_ok k"
    unfolding k2_def using that m(3) by (intro move_buf_ok) (auto simp: rcv_ok_def)
  then have "drains k k2" "settings k2 = settings k"
    by (auto simp: drains_def engine_ok_def snd_ok_def wait_snd_def k2_def move_buf_def settings_def split: prod.splits)
  moreover have "drains k2 (k2\<lparr>k_probe := p\<rparr>)" "settings (k2\<lparr>k_probe := p\<rparr>) = settings k2" for p
    by (simp_all add: settings_def)
  ultimately show ?thesis
    using assms m peeksize_message_len [OF assms] drains_trans [of k k2]
    by (auto simp: kcp_recv_def Let_def k2_def [symmetric])
qed

text \<open>A full receive queue always holds a whole message, so a peer cannot wedge it.\<close>

lemma full_queue_peeks:
  assumes "rcv_ok k" and "length (k_rcv_queue k) = 128"
  shows "\<exists>n. peeksize k = Inr n"
proof -
  obtain s q where q: "k_rcv_queue k = s # q" using assms(2) by (cases "k_rcv_queue k") auto
  then have "seg_frg s < 128" using assms(1) by (simp add: rcv_ok_def held_seg_def)
  then have "unat (seg_frg s) < 128" by (simp add: word_less_nat_alt)
  then show ?thesis using assms(2) q by (auto simp: peeksize_def)
qed

section \<open>Every sequence of calls\<close>

datatype adapter_op =
    AdInput bytes nat
  | AdSend bytes
  | AdRecv
  | AdUpdate nat

datatype adapter_out =
    Status "unit result"
  | Received "bytes option result"
  | Packets "bytes list"
  | Panic

fun adapter_step :: "adapter_op \<Rightarrow> rust_kcp \<Rightarrow> rust_kcp \<times> adapter_out" where
  "adapter_step (AdInput packet now) e = map_prod id Status (engine_input packet now e)"
| "adapter_step (AdSend payload) e = (case engine_send payload e of
     None \<Rightarrow> (e, Panic) | Some (e', r) \<Rightarrow> (e', Status r))"
| "adapter_step AdRecv e = map_prod id Received (engine_recv e)"
| "adapter_step (AdUpdate now) e = map_prod id Packets (engine_update now e)"

definition adapter_ok :: "nat \<Rightarrow> nat \<Rightarrow> rust_kcp \<Rightarrow> bool" where
  "adapter_ok mss lim e \<longleftrightarrow> \<not> engine_failed e \<and> max_queued_bytes e = lim \<and> engine_ok (inner e) \<and>
     k_mtu (inner e) = mss + 24 \<and> k_mss (inner e) = mss \<and> 0 < mss \<and>
     \<not> k_stream (inner e) \<and> \<not> k_input_conv (inner e) \<and> k_buf (inner e) = [] \<and> k_output (inner e) = [] \<and>
     wait_snd (inner e) * mss \<le> lim + mss"

text \<open>The answers a caller can see.\<close>

fun sound_answer :: "nat \<Rightarrow> adapter_op \<Rightarrow> adapter_out \<Rightarrow> bool" where
  "sound_answer mtu (AdInput _ _) (Status r) = (r = Inr () \<or> r = Inl ProtocolError)"
| "sound_answer mtu (AdSend _) (Status r) = (r = Inr () \<or> r = Inl WouldBlock \<or> r = Inl MessageTooLarge)"
| "sound_answer mtu AdRecv (Received r) = (\<not> isl r)"
| "sound_answer mtu (AdUpdate _) (Packets ps) = (\<forall>p\<in>set ps. p \<noteq> [] \<and> length p \<le> mtu)"
| "sound_answer mtu _ _ = False"

text \<open>A smaller backlog and the same configuration keep the invariant.\<close>

lemma adapter_ok_drains:
  assumes e: "adapter_ok mss lim e" and "drains (inner e) (inner e')" and "settings (inner e') = settings (inner e)"
    and "engine_failed e' = engine_failed e" and "max_queued_bytes e' = max_queued_bytes e"
  shows "adapter_ok mss lim e'"
proof -
  have "wait_snd (inner e') * mss \<le> wait_snd (inner e) * mss"
    using assms(2) by (intro mult_le_mono1) (simp add: drains_def)
  moreover have "wait_snd (inner e) * mss \<le> lim + mss" using e by (simp add: adapter_ok_def)
  ultimately have "wait_snd (inner e') * mss \<le> lim + mss" by linarith
  moreover have "engine_ok (inner e')" using e assms(2) by (simp add: adapter_ok_def drains_def)
  ultimately show ?thesis using assms by (simp add: adapter_ok_def settings_def)
qed

lemma input_loop_errors: "snd (input_loop bs kt) = Inl err \<longrightarrow> map_kcp_error err = ProtocolError"
proof (induction bs kt rule: input_loop.induct)
  case (1 bs k t)
  show ?case using 1 by (subst input_loop.simps) (auto simp: Let_def map_kcp_error_def)
qed

lemma kcp_input_errors: "kcp_input packet k = (k', Some (Inl err)) \<Longrightarrow> map_kcp_error err = ProtocolError"
  using input_loop_errors [of packet "(k, None)"]
  by (auto simp: kcp_input_def Let_def map_kcp_error_def split: if_splits prod.splits sum.splits option.splits)

lemma validate_errors: "validate_segments now m bs = Inl err \<longrightarrow> err = ProtocolError"
proof (induction now m bs rule: validate_segments.induct)
  case (1 now m bs)
  then show ?case by (subst validate_segments.simps) auto
qed

lemma adapter_input_ok:
  assumes "adapter_ok mss lim e"
  shows "adapter_ok mss lim (fst (engine_input packet now e)) \<and>
    (snd (engine_input packet now e) = Inr () \<or> snd (engine_input packet now e) = Inl ProtocolError) \<and>
    wait_snd (inner (fst (engine_input packet now e))) \<le> wait_snd (inner e)"
proof (cases "validate_kcp_packet packet (word_of_nat now) (k_mss (inner e))")
  case (Inl err)
  then have "err = ProtocolError" using validate_errors by (auto simp: validate_kcp_packet_def split: if_splits)
  then show ?thesis using assms Inl by (simp add: engine_input_def)
next
  case (Inr u)
  obtain k r where k: "kcp_input packet (inner e) = (k, r)" by (cases "kcp_input packet (inner e)")
  have d: "drains (inner e) k" "settings k = settings (inner e)" "r \<noteq> None"
    using kcp_input_drains [OF Inr _ _ k] assms by (auto simp: adapter_ok_def)
  have f: "\<not> engine_failed e" "wait_snd k \<le> wait_snd (inner e)"
    using assms d(1) by (simp_all add: adapter_ok_def drains_def)
  from d(3) obtain x where x: "r = Some x" by blast
  show ?thesis
  proof (cases x)
    case (Inl err)
    have "adapter_ok mss lim (e\<lparr>now_ms := now, inner := k\<rparr>)" by (rule adapter_ok_drains [OF assms]) (simp_all add: d)
    then show ?thesis using Inl Inr k x f kcp_input_errors [of packet "inner e" k err]
      by (simp add: engine_input_def Let_def)
  next
    case (Inr v)
    let ?e = "e\<lparr>now_ms := now, inner := k,
      observed_rtt := map_option (\<lambda>rtt. millis (unat rtt)) (kcp_ack_rtt packet (word_of_nat now)),
      transmitted_sequences := retire_acked_sequences packet (transmitted_sequences e)\<rparr>"
    have "adapter_ok mss lim ?e" by (rule adapter_ok_drains [OF assms]) (simp_all add: d)
    then show ?thesis using \<open>validate_kcp_packet _ _ _ = Inr u\<close> Inr k x f
      by (simp add: engine_input_def Let_def)
  qed
qed

lemma adapter_recv_ok:
  assumes "adapter_ok mss lim e"
  shows "adapter_ok mss lim (fst (engine_recv e)) \<and> \<not> isl (snd (engine_recv e)) \<and>
    wait_snd (inner (fst (engine_recv e))) \<le> wait_snd (inner e) \<and>
    (\<forall>n. peeksize (inner e) = Inr n \<longrightarrow> (\<exists>msg. snd (engine_recv e) = Inr (Some msg)))"
proof (cases "peeksize (inner e)")
  case (Inl err)
  then have "err = RecvQueueEmpty \<or> err = ExpectingFragment"
    by (auto simp: peeksize_def split: list.splits if_splits)
  moreover have "\<not> engine_failed e" using assms by (simp add: adapter_ok_def)
  ultimately show ?thesis using assms Inl by (auto simp: engine_recv_def)
next
  case (Inr n)
  obtain k msg where k: "kcp_recv n (inner e) = (k, Some (Inr msg))" "drains (inner e) k" "settings k = settings (inner e)"
    using kcp_recv_ok [OF Inr] by blast
  have "adapter_ok mss lim (e\<lparr>inner := k\<rparr>)"
    by (rule adapter_ok_drains [OF assms]) (simp_all add: k)
  moreover have "\<not> engine_failed e" "wait_snd k \<le> wait_snd (inner e)"
    using assms k(2) by (simp_all add: adapter_ok_def drains_def)
  ultimately show ?thesis using assms Inr k(1) by (simp add: engine_recv_def)
qed

lemma kcp_send_grows:
  assumes "\<not> k_stream k" and "0 < k_mss k" and "kcp_send payload k = Some (k', r)"
  shows "r = Inl UserBufTooBig \<and> k' = k \<or>
    (\<exists>n segs. r = Inr n \<and> k' = k\<lparr>k_snd_queue := k_snd_queue k @ segs\<rparr> \<and>
      length segs \<le> div_ceil (length payload) (k_mss k) + 1 \<and>
      (payload \<noteq> [] \<longrightarrow> length segs = div_ceil (length payload) (k_mss k)) \<and>
      (\<forall>s\<in>set segs. length (seg_data s) \<le> k_mss k))"
proof -
  define count where "count = (if length payload \<le> k_mss k then 1 else div_ceil (length payload) (k_mss k))"
  define segs where "segs = fragments (k_mss k) False (max 1 count) payload"
  have "div_ceil n m = 1" if "0 < n" "n \<le> m" for n m :: nat
    using that by (cases "n = m") (simp_all add: div_ceil_def)
  moreover have "0 < div_ceil (length payload) (k_mss k)" if "payload \<noteq> []"
    using that assms(2) by (auto simp: div_ceil_def div_greater_zero_iff dvd_imp_le)
  ultimately have n: "payload \<noteq> [] \<longrightarrow> max 1 count = div_ceil (length payload) (k_mss k)"
    "max 1 count \<le> div_ceil (length payload) (k_mss k) + 1"
    using assms(2) by (auto simp: count_def)
  have "kcp_send payload k = Some (if unat KCP_WND_RCV \<le> count then (k, Inl UserBufTooBig)
      else (k\<lparr>k_snd_queue := k_snd_queue k @ segs\<rparr>, Inr (0 + sum_list (map (length \<circ> seg_data) segs))))"
    using assms(1,2) by (simp add: kcp_send_def Let_def count_def segs_def)
  moreover have "length segs = max 1 count" "\<forall>s\<in>set segs. length (seg_data s) \<le> k_mss k"
    using fragments_size unfolding segs_def by (simp, blast)
  ultimately show ?thesis using assms(3) n by (auto split: if_splits)
qed

lemma adapter_send_ok:
  assumes e: "adapter_ok mss lim e" and lim: "lim < usize_max"
  shows "\<exists>e' r. engine_send payload e = Some (e', r) \<and> adapter_ok mss lim e' \<and>
    (r = Inr () \<or> r = Inl WouldBlock \<or> r = Inl MessageTooLarge)"
proof (cases "lim < sat_add (queued_bytes e) (queued_bytes_for (length payload) e)")
  case True
  then show ?thesis using e by (auto simp: engine_send_def adapter_ok_def)
next
  case False
  let ?k = "inner e" and ?need = "div_ceil (length payload) mss"
  have k: "\<not> k_stream ?k" "0 < k_mss ?k" "k_mss ?k = mss" "\<not> engine_failed e" "max_queued_bytes e = lim"
    using e by (simp_all add: adapter_ok_def)
  have room: "wait_snd ?k * mss + ?need * mss \<le> lim"
    using False lim k(3) by (auto simp: queued_bytes_def queued_bytes_for_def sat_add_def sat_mul_def usize_max_def u64_max_def min_def split: if_splits)
  obtain k' r where s: "kcp_send payload ?k = Some (k', r)"
    using k(1,2) unfolding kcp_send_def Let_def by fastforce
  from kcp_send_grows [OF k(1,2) s] consider "r = Inl UserBufTooBig" "k' = ?k" |
    n segs where "r = Inr n" "k' = ?k\<lparr>k_snd_queue := k_snd_queue ?k @ segs\<rparr>" "length segs \<le> ?need + 1"
      "\<forall>s\<in>set segs. length (seg_data s) \<le> mss"
    unfolding k(3) by blast
  then show ?thesis
  proof cases
    case 1
    then show ?thesis using e False k s by (simp add: engine_send_def map_kcp_error_def)
  next
    case 2
    have "(wait_snd ?k + length segs) * mss \<le> (wait_snd ?k + (?need + 1)) * mss"
      using 2(3) by (intro mult_le_mono1) simp
    then have "(wait_snd ?k + length segs) * mss \<le> lim + mss" using room by (simp add: algebra_simps)
    then have "wait_snd k' * mss \<le> lim + mss" using 2(2) by (simp add: wait_snd_def add.assoc)
    moreover have "engine_ok k'"
      using e 2(2,4) by (auto simp: adapter_ok_def engine_ok_def rcv_ok_def snd_ok_def)
    ultimately have "adapter_ok mss lim (e\<lparr>inner := k'\<rparr>)" using e 2(2) by (simp add: adapter_ok_def)
    then show ?thesis using False k s 2(1) by (simp add: engine_send_def)
  qed
qed

lemma adapter_update_ok:
  assumes e: "adapter_ok mss lim e"
  shows "adapter_ok mss lim (fst (engine_update now e)) \<and>
    wait_snd (inner (fst (engine_update now e))) = wait_snd (inner e) \<and>
    (\<forall>p\<in>set (snd (engine_update now e)). p \<noteq> [] \<and> length p \<le> mss + 24)"
proof -
  obtain t where up: "kcp_update (word_of_nat now) (inner e) = kcp_flush (ticked (word_of_nat now) t (inner e)) \<or>
      kcp_update (word_of_nat now) (inner e) = (ticked (word_of_nat now) t (inner e), Inr ())"
    using kcp_update_cases by blast
  define k1 where "k1 = ticked (word_of_nat now) t (inner e)"
  have k1: "same_waiting (inner e) k1" "k_buf k1 = []" "k_output k1 = []" "k_updated k1"
    using e by (simp_all add: k1_def ticked_def same_waiting_def kept_def adapter_ok_def)
  have m: "k_mtu k1 = k_mss k1 + 24" "snd_ok k1"
    using e k1(1) same_waiting_ok(1) [OF k1(1)]
    by (auto simp: adapter_ok_def same_waiting_def kept_def engine_ok_def)
  obtain k' where f: "kcp_flush k1 = (k', Inr ())" "same_waiting k1 k'" "fits k'" "k_buf k' = []"
    using kcp_flush_waiting [OF k1(2-4) m(2,1)] by blast
  have "fits k1" using k1 by (simp add: fits_def)
  then obtain k where k: "kcp_update (word_of_nat now) (inner e) = (k, Inr ())" "same_waiting k1 k" "fits k" "k_buf k = []"
    using up f k1 unfolding k1_def [symmetric] by (auto simp: same_waiting_def kept_def)
  have w: "same_waiting (inner e) k"
    using k1(1) k(2) by (auto simp: same_waiting_def intro: kept_trans)
  define sent where "sent = fold observe_push_segments (k_output k) (transmitted_sequences e, telemetry e)"
  have u: "engine_update now e = (e\<lparr>now_ms := now, inner := k\<lparr>k_output := []\<rparr>,
      transmitted_sequences := fst sent, telemetry := snd sent\<rparr>, k_output k)"
    using e k(1) by (simp add: engine_update_def adapter_ok_def Let_def sent_def case_prod_unfold)
  have "same_waiting (inner e) (k\<lparr>k_output := []\<rparr>)" using w by (simp add: same_waiting_def kept_def)
  then have "engine_ok (k\<lparr>k_output := []\<rparr>)" "wait_snd (k\<lparr>k_output := []\<rparr>) = wait_snd (inner e)"
    using same_waiting_ok e by (auto simp: adapter_ok_def)
  then have "adapter_ok mss lim (fst (engine_update now e)) \<and>
      wait_snd (inner (fst (engine_update now e))) = wait_snd (inner e)"
    unfolding u using e w k(4) by (simp add: adapter_ok_def same_waiting_def kept_def)
  moreover have "\<forall>p\<in>set (k_output k). p \<noteq> [] \<and> length p \<le> mss + 24"
    using k(3) w e by (simp add: fits_def adapter_ok_def same_waiting_def kept_def)
  ultimately show ?thesis unfolding u by simp
qed

lemma adapter_step_ok:
  assumes "adapter_ok mss lim e" and "lim < usize_max"
  shows "adapter_ok mss lim (fst (adapter_step x e)) \<and> sound_answer (mss + 24) x (snd (adapter_step x e))"
proof (cases x)
  case (AdSend payload)
  then show ?thesis using adapter_send_ok [OF assms, of payload] by auto
qed (use adapter_input_ok [OF assms(1)] adapter_recv_ok [OF assms(1)] adapter_update_ok [OF assms(1)] in
    \<open>simp_all add: map_prod_def case_prod_unfold\<close>)

lemma adapter_start_ok:
  assumes "new_with_limits conv mtu lim = Inr e"
  shows "adapter_ok (mtu - 24) lim e \<and> 50 \<le> mtu"
proof -
  have "adapter_ok (mtu - 24) lim e \<and> 50 \<le> mtu \<and> mtu \<le> 65535"
    using assms
    by (auto simp: new_with_limits_def set_mtu_def set_wndsize_def set_nodelay_def kcp_new_def kcp_construct_def
        KCP_OVERHEAD_def KCP_WND_RCV_def adapter_ok_def engine_ok_def rcv_ok_def snd_ok_def in_window_def
        wait_snd_def split: if_splits)
  then show ?thesis by blast
qed

interpretation kadapter: answering_system adapter_step "\<lambda>e. adapter_ok mss lim e \<and> lim < usize_max"
    "sound_answer (mss + 24)"
  for mss lim
  by unfold_locales (use adapter_step_ok in auto)

lemma adapter_run_ok:
  assumes "new_with_limits conv mtu lim = Inr e0" and "lim < usize_max" and "run_out adapter_step ops e0 = (e, outs)"
  shows "adapter_ok (mtu - 24) lim e \<and> list_all2 (sound_answer mtu) ops outs"
  using kadapter.run_answers [of "mtu - 24" lim e0 ops] adapter_start_ok [OF assms(1)] assms(2,3) by simp

lemma payload_sum: "\<forall>s\<in>set segs. length (seg_data s) \<le> m \<Longrightarrow> sum_list (map (length \<circ> seg_data) segs) \<le> length segs * m"
  by (induction segs) auto

lemma adapter_ok_bounds:
  assumes "adapter_ok mss lim e"
  shows "sum_list (map (length \<circ> seg_data) (k_rcv_queue (inner e) @ k_rcv_buf (inner e))) \<le> 256 * mss"
    and "wait_snd (inner e) * mss \<le> lim + mss"
proof -
  let ?q = "k_rcv_queue (inner e)" and ?b = "k_rcv_buf (inner e)"
  have "length ?q \<le> 128" "length ?b \<le> 128" "\<forall>s\<in>set (?q @ ?b). length (seg_data s) \<le> mss"
    using assms in_window_length [of "k_rcv_nxt (inner e)" ?b]
    by (auto simp: adapter_ok_def engine_ok_def rcv_ok_def held_seg_def)
  then have "sum_list (map (length \<circ> seg_data) (?q @ ?b)) \<le> length (?q @ ?b) * mss" "length (?q @ ?b) * mss \<le> 256 * mss"
    using payload_sum by (blast, intro mult_le_mono1, simp)
  then show "sum_list (map (length \<circ> seg_data) (?q @ ?b)) \<le> 256 * mss" by linarith
  show "wait_snd (inner e) * mss \<le> lim + mss" using assms by (simp add: adapter_ok_def)
qed

text \<open>
  C4. Against any peer the adapter survives: over every sequence of calls, with arbitrary bytes as
  packets and arbitrary clock readings, no call panics and the engine is never isolated; input answers success
  or a protocol error, sending answers success, backpressure or too large, receiving never fails,
  and every emitted packet is non-empty and within the MTU. When the receive queue is full, the next receive
  returns a message, so a peer cannot wedge it.
\<close>

theorem kcp_adapter_survives:
  assumes "new_with_limits conv mtu lim = Inr e0" and "lim < usize_max" and "run_out adapter_step ops e0 = (e, outs)"
  shows "\<not> engine_failed e \<and> list_all2 (sound_answer mtu) ops outs \<and>
    (length (k_rcv_queue (inner e)) = 128 \<longrightarrow> (\<exists>msg. snd (engine_recv e) = Inr (Some msg)))"
proof -
  have r: "adapter_ok (mtu - 24) lim e" "list_all2 (sound_answer mtu) ops outs"
    using adapter_run_ok [OF assms] by blast+
  then have "rcv_ok (inner e)" "\<not> engine_failed e" by (simp_all add: adapter_ok_def engine_ok_def)
  then show ?thesis using r full_queue_peeks adapter_recv_ok [OF r(1)] by blast
qed

lemma demo_adapter_run:
  "run_out adapter_step [AdInput [1, 2, 3] 5, AdRecv] demo_end =
     (demo_end, [Status (Inl ProtocolError), Received (Inr None)])"
  by (simp add: engine_input_def engine_recv_def validate_kcp_packet_def peeksize_def demo_end_def
      set_mtu_def set_wndsize_def set_nodelay_def kcp_new_def kcp_construct_def KCP_OVERHEAD_def usize_max_def)

theorem kcp_adapter_survives_witness:
  "new_with_limits 7 1200 4194304 = Inr demo_end \<and> 4194304 < usize_max \<and>
   run_out adapter_step [AdInput [1, 2, 3] 5, AdRecv] demo_end = (demo_end, [Status (Inl ProtocolError), Received (Inr None)]) \<and>
   list_all2 (sound_answer 1200) [AdInput [1, 2, 3] 5, AdRecv] [Status (Inl ProtocolError), Received (Inr None)]"
  using kcp_adapter_survives [OF demo_end_new _ demo_adapter_run] demo_end_new demo_adapter_run
  by (simp add: usize_max_def)

text \<open>
  C16. Memory held for a peer is bounded whatever it sends: received and not yet delivered
  payload is at most 256 segments of the maximal segment size, and unacknowledged data, counted in whole segments,
  exceeds the send budget by at most one segment. That one segment is an empty message, which is
  charged nothing and still occupies a segment.
\<close>

theorem kcp_adapter_bounded:
  assumes "new_with_limits conv mtu lim = Inr e0" and "lim < usize_max" and "run_out adapter_step ops e0 = (e, outs)"
  shows "sum_list (map (length \<circ> seg_data) (k_rcv_queue (inner e) @ k_rcv_buf (inner e))) \<le> 256 * (mtu - 24) \<and>
    wait_snd (inner e) * (mtu - 24) \<le> lim + (mtu - 24)"
proof -
  have "adapter_ok (mtu - 24) lim e"
    using adapter_run_ok [OF assms] by blast
  then show ?thesis using adapter_ok_bounds by blast
qed

theorem kcp_adapter_bounded_witness:
  "new_with_limits 7 1200 4194304 = Inr demo_end \<and> 4194304 < usize_max \<and>
   run_out adapter_step [AdInput [1, 2, 3] 5, AdRecv] demo_end = (demo_end, [Status (Inl ProtocolError), Received (Inr None)]) \<and>
   wait_snd (inner demo_end) * 1176 \<le> 4194304 + 1176"
  using kcp_adapter_bounded [OF demo_end_new _ demo_adapter_run] demo_end_new demo_adapter_run
  by (simp add: usize_max_def)

end
