(* ===== verification/Net_Address.thy ===== *)
theory Net_Address
  imports Tables
begin

text \<open>
  Socket addresses with their order, the address octets, the candidate list and the resolver permit of
  \<^verbatim>\<open>rnet-transport/src/address.rs\<close>. An IPv6 address is its two 64-bit halves.
\<close>

datatype ip_addr =
    IpV4 u32
  | IpV6 u64 u64

datatype socket_addr =
    SockV4 u32 u16
  | SockV6 u64 u64 u16 u32 u32

fun sock_ip :: "socket_addr \<Rightarrow> ip_addr" where
  "sock_ip (SockV4 ip _) = IpV4 ip"
| "sock_ip (SockV6 hi lo _ _ _) = IpV6 hi lo"

fun sock_port :: "socket_addr \<Rightarrow> u16" where
  "sock_port (SockV4 _ port) = port"
| "sock_port (SockV6 _ _ port _ _) = port"

fun is_ipv6 :: "socket_addr \<Rightarrow> bool" where
  "is_ipv6 (SockV4 _ _) = False"
| "is_ipv6 (SockV6 _ _ _ _ _) = True"

fun ip_octets :: "ip_addr \<Rightarrow> bytes" where
  "ip_octets (IpV4 ip) = u32_be ip"
| "ip_octets (IpV6 hi lo) = u64_be hi @ u64_be lo"

lemma u32_be_inject [simp]: "u32_be a = u32_be b \<longleftrightarrow> a = b"
  by (metis u32_from_be_be)

lemma u64_be_inject [simp]: "u64_be a = u64_be b \<longleftrightarrow> a = b"
  by (metis u64_from_be_be)

lemma u16_be_inject [simp]: "u16_be a = u16_be b \<longleftrightarrow> a = b"
  by (metis u16_from_be_be)

lemma ip_octets_inject: "ip_octets a = ip_octets b \<Longrightarrow> a = b"
proof -
  assume eq: "ip_octets a = ip_octets b"
  then have "length (ip_octets a) = length (ip_octets b)" by simp
  then have "(\<exists>x. a = IpV4 x) = (\<exists>x. b = IpV4 x)" by (cases a; cases b) auto
  with eq show ?thesis by (cases a; cases b) auto
qed

text \<open>The order of \<^verbatim>\<open>SocketAddr\<close>: version 4 first, then address, port, flow and scope.\<close>

fun addr_rank :: "socket_addr \<Rightarrow> nat list" where
  "addr_rank (SockV4 ip port) = [0, unat ip, unat port]"
| "addr_rank (SockV6 hi lo port flow scope) = [1, unat hi, unat lo, unat port, unat flow, unat scope]"

lemma addr_rank_inject: "addr_rank a = addr_rank b \<longleftrightarrow> a = b"
  by (cases a; cases b) (auto simp: word_unat_eq_iff)

instantiation socket_addr :: linorder
begin

definition less_eq_socket_addr :: "socket_addr \<Rightarrow> socket_addr \<Rightarrow> bool" where
  "less_eq_socket_addr a b \<longleftrightarrow> addr_rank a \<le> addr_rank b"

definition less_socket_addr :: "socket_addr \<Rightarrow> socket_addr \<Rightarrow> bool" where
  "less_socket_addr a b \<longleftrightarrow> addr_rank a < addr_rank b"

instance
  by intro_classes
    (auto simp: less_eq_socket_addr_def less_socket_addr_def addr_rank_inject less_le)

end

section \<open>Connection candidates\<close>

definition MAX_CONCURRENT_RESOLVERS :: nat where "MAX_CONCURRENT_RESOLVERS = 64"
definition MAX_ADDRESS_CANDIDATES :: nat where "MAX_ADDRESS_CANDIDATES = 32"

text \<open>\<^verbatim>\<open>Vec::dedup\<close> drops repetitions of the element before.\<close>

definition normalize_candidates :: "socket_addr list \<Rightarrow> socket_addr list" where
  "normalize_candidates addresses =
     take MAX_ADDRESS_CANDIDATES (remdups_adj (sort_key (\<lambda>a. of_bool (is_ipv6 a) :: nat) addresses))"

definition resolver_acquire :: "nat \<Rightarrow> nat \<times> unit result" where
  "resolver_acquire active =
     (if active < MAX_CONCURRENT_RESOLVERS then (active + 1, Inr ()) else (active, Inl WouldBlock))"

definition resolver_drop :: "nat \<Rightarrow> nat" where
  "resolver_drop active = active - 1"

datatype resolver_answer = Resolved "socket_addr list" | Resolve_Failed | Resolve_Timeout | Resolver_Gone

text \<open>\<^verbatim>\<open>resolve_host\<close> on what the resolver thread answered within the timeout.\<close>

definition resolve_host :: "resolver_answer \<Rightarrow> socket_addr list result" where
  "resolve_host answer = (case answer of
       Resolve_Timeout \<Rightarrow> Inl Timeout
     | Resolver_Gone \<Rightarrow> Inl IoError
     | Resolve_Failed \<Rightarrow> Inl IoError
     | Resolved raw \<Rightarrow>
         (case normalize_candidates raw of [] \<Rightarrow> Inl IoError | addresses \<Rightarrow> Inr addresses))"

lemma normalize_candidates_bounded: "length (normalize_candidates xs) \<le> 32"
  by (simp add: normalize_candidates_def MAX_ADDRESS_CANDIDATES_def)

lemma normalize_candidates_subset: "set (normalize_candidates xs) \<subseteq> set xs"
  unfolding normalize_candidates_def by (rule order_trans [OF set_take_subset]) simp

end
