(* ===== verification/Float64.thy ===== *)
theory Float64
  imports Complex_Main "HOL-Library.Log_Nat" Prelude
begin

text \<open>
  The arithmetic of \<^verbatim>\<open>f64\<close> on the values the sources compute with: non-negative numbers far from
  overflow and from the subnormal range. A number is the rational it stands for, and every operation
  rounds its exact result to the nearest multiple of the unit in the last place, ties to even.
\<close>

definition pow2 :: "int \<Rightarrow> rat" where
  "pow2 e = (if 0 \<le> e then 2 ^ nat e else 1 / 2 ^ nat (- e))"

definition log2_floor :: "rat \<Rightarrow> int" where
  "log2_floor x = (let (p, q) = quotient_of x; e = int (floorlog 2 (nat p)) - int (floorlog 2 (nat q))
     in if pow2 e \<le> x then e else e - 1)"

definition round_even :: "rat \<Rightarrow> int" where
  "round_even y = (let f = \<lfloor>y\<rfloor>; d = y - of_int f
     in if d < 1 / 2 then f else if 1 / 2 < d then f + 1 else if even f then f else f + 1)"

definition f64 :: "rat \<Rightarrow> rat" where
  "f64 x = (if x = 0 then 0
     else let u = pow2 (log2_floor \<bar>x\<bar> - 52) in of_int (round_even (x / u)) * u)"

definition f64_eps :: rat where
  "f64_eps = 1 / 9007199254740992"

text \<open>\<^verbatim>\<open>Duration::as_secs_f64\<close>.\<close>

definition as_secs_f64 :: "duration \<Rightarrow> rat" where
  "as_secs_f64 d = f64 (f64 (of_nat (d div 1000000000)) + f64 (of_nat (d mod 1000000000) / 1000000000))"

section \<open>The rounding error\<close>

lemma pow2_pos [simp]: "0 < pow2 e"
  by (simp add: pow2_def)

lemma pow2_add: "pow2 (a + b) = pow2 a * pow2 b"
proof -
  have "pow2 e = 2 powi e" for e
    by (simp add: pow2_def power_int_def field_simps)
  then show ?thesis by (simp add: power_int_add)
qed

lemma pow2_of_nat: "pow2 (int n) = 2 ^ n"
  by (simp add: pow2_def)

lemma log2_floor_le:
  assumes "0 < x"
  shows "pow2 (log2_floor x) \<le> x"
proof -
  obtain p q where pq: "quotient_of x = (p, q)" by (cases "quotient_of x")
  then have x: "x = of_int p / of_int q" and q: "0 < q" by (simp_all add: quotient_of_div quotient_of_denom_pos)
  have p: "0 < p" using assms q unfolding x by (simp add: zero_less_divide_iff)
  define a b where "a = floorlog 2 (nat p)" and "b = floorlog 2 (nat q)"
  have a: "0 < a" "2 ^ (a - 1) \<le> nat p" and b: "nat q < 2 ^ b"
    using floorlog_bounds [of "nat p" 2] floorlog_bounds [of "nat q" 2] p q
    by (simp_all add: a_def b_def floorlog_eq_zero_iff zero_less_iff_neq_zero del: nat_less_eq_zless)
  have "pow2 (int a - int b - 1) \<le> x"
  proof -
    have "int a - int b - 1 = int (a - 1) + (- int b)" using a(1) by simp
    then have "pow2 (int a - int b - 1) = 2 ^ (a - 1) * pow2 (- int b)"
      by (simp only: pow2_add pow2_of_nat)
    also have "pow2 (- int b) = 1 / 2 ^ b" by (simp add: pow2_def)
    finally have "pow2 (int a - int b - 1) = of_int (2 ^ (a - 1)) / of_int (2 ^ b)" by simp
    also have "\<dots> \<le> of_int p / of_int q"
    proof (rule frac_le)
      have "int (2 ^ (a - 1)) \<le> p" using a(2) p by linarith
      then show "of_int (2 ^ (a - 1)) \<le> (of_int p :: rat)" by (simp only: of_int_le_iff of_nat_power of_nat_numeral)
      have "q \<le> int (2 ^ b)" using b q by linarith
      then show "of_int q \<le> (of_int (2 ^ b) :: rat)" by (simp only: of_int_le_iff of_nat_power of_nat_numeral)
    qed (use p q in auto)
    finally show ?thesis by (simp add: x)
  qed
  then show ?thesis by (simp add: log2_floor_def pq Let_def a_def b_def)
qed

lemma round_even_error: "\<bar>of_int (round_even y) - y\<bar> \<le> 1 / 2"
proof -
  define d where "d = y - of_int \<lfloor>y\<rfloor>"
  have "0 \<le> d" "d < 1" unfolding d_def by linarith+
  moreover have "of_int (round_even y) - y = - d \<and> d \<le> 1 / 2 \<or> of_int (round_even y) - y = 1 - d \<and> 1 / 2 \<le> d"
    by (auto simp: round_even_def Let_def d_def)
  ultimately show ?thesis by linarith
qed

lemma round_even_nonneg: "0 \<le> y \<Longrightarrow> 0 \<le> round_even y"
  by (simp add: round_even_def Let_def)

lemma f64_nonneg: "0 \<le> x \<Longrightarrow> 0 \<le> f64 x"
  by (simp add: f64_def Let_def round_even_nonneg less_imp_le)

theorem f64_error:
  assumes "0 \<le> x"
  shows "\<bar>f64 x - x\<bar> \<le> x * f64_eps"
proof (cases "x = 0")
  case False
  then have x: "0 < x" using assms by simp
  define u where "u = pow2 (log2_floor x - 52)"
  have u: "0 < u" by (simp add: u_def)
  have "u * pow2 52 = pow2 (log2_floor x)" unfolding u_def by (simp flip: pow2_add)
  then have "u * pow2 52 \<le> x" using log2_floor_le [OF x] by simp
  moreover have "pow2 52 = 4503599627370496" by (simp add: pow2_def)
  ultimately have le: "u \<le> x / 4503599627370496" by simp
  have "f64 x - x = (of_int (round_even (x / u)) - x / u) * u"
    using x u by (simp add: f64_def u_def [symmetric] algebra_simps)
  then have "\<bar>f64 x - x\<bar> = \<bar>of_int (round_even (x / u)) - x / u\<bar> * u" using u by (simp add: abs_mult)
  also have "\<dots> \<le> 1 / 2 * u" using round_even_error u by (intro mult_right_mono) auto
  also have "\<dots> \<le> x * f64_eps" using le by (simp add: f64_eps_def)
  finally show ?thesis .
qed (simp add: f64_def)

lemma f64_le: "0 \<le> x \<Longrightarrow> f64 x \<le> x * (1 + f64_eps)"
  using f64_error [of x] by (simp add: algebra_simps)

text \<open>Integers below \<open>2 ^ 53\<close> are exact.\<close>

lemma round_even_of_int: "round_even (of_int i) = i"
  by (simp add: round_even_def)

lemma f64_of_nat:
  assumes "n < 9007199254740992"
  shows "f64 (of_nat n) = of_nat n"
proof (cases "n = 0")
  case False
  define l where "l = log2_floor (of_nat n)"
  have "pow2 l \<le> of_nat n" unfolding l_def using False by (intro log2_floor_le) simp
  also have "of_nat n < (of_nat 9007199254740992 :: rat)" using assms by (simp only: of_nat_less_iff)
  finally have "pow2 l < pow2 53" by (simp add: pow2_def)
  moreover have "pow2 53 \<le> pow2 l" if "53 \<le> l"
    using that pow2_add [of 53 "l - 53"] by (simp add: pow2_def)
  ultimately have l: "l \<le> 52" by linarith
  define k where "k = nat (52 - l)"
  have u: "pow2 (l - 52) = 1 / 2 ^ k"
  proof (cases "l = 52")
    case False
    then show ?thesis using l by (simp add: pow2_def k_def)
  qed (simp add: pow2_def k_def)
  have "of_nat n / pow2 (l - 52) = (of_int (int n * 2 ^ k) :: rat)" by (simp add: u)
  then have "round_even (of_nat n / pow2 (l - 52)) = int n * 2 ^ k" by (simp only: round_even_of_int)
  then show ?thesis using False by (simp add: f64_def l_def [symmetric] u)
qed (simp add: f64_def)

lemma f64_eps_pos [simp]: "0 < f64_eps" "0 \<le> f64_eps"
  by (simp_all add: f64_eps_def)

lemma as_secs_f64_nonneg: "0 \<le> as_secs_f64 d"
  by (simp add: as_secs_f64_def f64_nonneg)

lemma as_secs_f64_le: "as_secs_f64 d \<le> of_nat d / 1000000000 * (1 + f64_eps) ^ 2"
proof -
  define s n :: rat where "s = of_nat (d div 1000000000)" and "n = of_nat (d mod 1000000000) / 1000000000"
  have "of_nat d = (of_nat (d div 1000000000) * of_nat 1000000000 + of_nat (d mod 1000000000) :: rat)"
    by (simp only: of_nat_mult [symmetric] of_nat_add [symmetric] div_mult_mod_eq)
  then have "of_nat d = s * 1000000000 + n * 1000000000" by (simp add: s_def n_def)
  then have sum: "s + n = of_nat d / 1000000000" by simp
  have nn: "0 \<le> s" "0 \<le> n" by (simp_all add: s_def n_def)
  have "f64 (f64 s + f64 n) \<le> (f64 s + f64 n) * (1 + f64_eps)" using nn by (intro f64_le) (simp add: f64_nonneg)
  also have "\<dots> \<le> (s * (1 + f64_eps) + n * (1 + f64_eps)) * (1 + f64_eps)"
    using f64_le nn by (intro mult_right_mono add_mono) auto
  also have "\<dots> = (s + n) * (1 + f64_eps) ^ 2" by (simp add: power2_eq_square algebra_simps)
  finally show ?thesis by (simp add: as_secs_f64_def s_def n_def sum [unfolded s_def n_def])
qed

end
