(* ===== verification/Admission.thy ===== *)
theory Admission
  imports Net_Address Float64 Step_System
begin

unbundle bit_operations_syntax

text \<open>
  Per-source admission of \<^verbatim>\<open>rnet-transport/src/admission.rs\<close>: a table of token buckets keyed by IPv4
  address or IPv6 prefix, with a limit on concurrent permits. The limit on permits is exact, the rate is
  bounded including the rounding of \<^verbatim>\<open>f64\<close>, and a full table of idle sources never makes room again.
\<close>

datatype ip_key = KeyV4 bytes | KeyV6 bytes

datatype admission_reject = RejectActive | RejectRate | RejectTable

record admission_entry =
  ent_active :: nat
  ent_tokens :: rat
  ent_updated :: instant

record admission =
  adm_entries :: "(ip_key, admission_entry) table"
  adm_max_active :: nat
  adm_refill :: nat
  adm_burst :: nat
  adm_max_entries :: nat
  adm_prefix_bits :: nat

definition adm_new :: "nat \<Rightarrow> nat \<Rightarrow> nat \<Rightarrow> nat \<Rightarrow> nat \<Rightarrow> admission" where
  "adm_new max_active refill burst max_entries prefix_bits =
     \<lparr>adm_entries = fmempty, adm_max_active = max_active, adm_refill = refill, adm_burst = burst,
      adm_max_entries = max_entries, adm_prefix_bits = prefix_bits\<rparr>"

definition ip_key_of :: "ip_addr \<Rightarrow> nat \<Rightarrow> ip_key" where
  "ip_key_of ip prefix_bits = (case ip of
       IpV4 _ \<Rightarrow> KeyV4 (ip_octets ip)
     | IpV6 _ _ \<Rightarrow>
         let octets = ip_octets ip;
             prefix = min prefix_bits 128;
             whole = prefix div 8;
             remainder = prefix mod 8;
             masked = (if remainder \<noteq> 0 \<and> whole < length octets
                       then octets[whole := octets ! whole AND push_bit (8 - remainder) 255] else octets);
             clear_from = whole + of_bool (remainder \<noteq> 0)
         in KeyV6 (take clear_from masked @ replicate (length masked - clear_from) 0))"

text \<open>The refilled bucket of an entry.\<close>

definition refilled :: "admission \<Rightarrow> instant \<Rightarrow> admission_entry \<Rightarrow> rat" where
  "refilled a now e =
     min (f64 (ent_tokens e + f64 (as_secs_f64 (now - ent_updated e) * of_nat (adm_refill a))))
       (of_nat (adm_burst a))"

definition keeps_entry :: "admission \<Rightarrow> admission_entry \<Rightarrow> bool" where
  "keeps_entry a e \<longleftrightarrow> ent_active e \<noteq> 0 \<or> ent_tokens e < of_nat (adm_burst a)"

text \<open>\<^verbatim>\<open>entries.retain\<close> in front of an insertion into a full table.\<close>

definition make_room :: "ip_key \<Rightarrow> admission \<Rightarrow> admission" where
  "make_room key a =
     (if fmlookup (adm_entries a) key = None \<and> adm_max_entries a \<le> table_len (adm_entries a)
      then a\<lparr>adm_entries := fmfilter (\<lambda>k. keeps_entry a (the (fmlookup (adm_entries a) k))) (adm_entries a)\<rparr>
      else a)"

definition try_acquire_at :: "ip_addr \<Rightarrow> instant \<Rightarrow> admission \<Rightarrow> admission \<times> (admission_reject + ip_key)" where
  "try_acquire_at ip now a =
     (let key = ip_key_of ip (adm_prefix_bits a);
          a1 = make_room key a
      in if fmlookup (adm_entries a) key = None \<and> adm_max_entries a \<le> table_len (adm_entries a1)
         then (a1, Inl RejectTable)
         else
           let e = (case fmlookup (adm_entries a1) key of
                      Some e \<Rightarrow> e
                    | None \<Rightarrow> \<lparr>ent_active = 0, ent_tokens = of_nat (adm_burst a), ent_updated = now\<rparr>);
               e1 = e\<lparr>ent_tokens := refilled a now e, ent_updated := now\<rparr>
           in if adm_max_active a \<le> ent_active e1
              then (a1\<lparr>adm_entries := fmupd key e1 (adm_entries a1)\<rparr>, Inl RejectActive)
              else if ent_tokens e1 < 1
              then (a1\<lparr>adm_entries := fmupd key e1 (adm_entries a1)\<rparr>, Inl RejectRate)
              else
                let e2 = e1\<lparr>ent_tokens := f64 (ent_tokens e1 - 1), ent_active := ent_active e1 + 1\<rparr>
                in (a1\<lparr>adm_entries := fmupd key e2 (adm_entries a1)\<rparr>, Inr key))"

text \<open>Dropping a permit, identified by its key.\<close>

definition permit_drop :: "ip_key \<Rightarrow> admission \<Rightarrow> admission" where
  "permit_drop key a = (case fmlookup (adm_entries a) key of
       None \<Rightarrow> a
     | Some e \<Rightarrow> a\<lparr>adm_entries := fmupd key (e\<lparr>ent_active := ent_active e - 1\<rparr>) (adm_entries a)\<rparr>)"

section \<open>Permits\<close>

text \<open>The controller together with the permits its callers hold.\<close>

record admission_world =
  wld_adm :: admission
  wld_permits :: "ip_key list"

datatype admission_op = Acquire ip_addr instant | Release nat

fun adm_step :: "admission_op \<Rightarrow> admission_world \<Rightarrow> admission_world \<times> ip_key option" where
  "adm_step (Acquire ip now) w = (case try_acquire_at ip now (wld_adm w) of
     (a, Inl _) \<Rightarrow> (\<lparr>wld_adm = a, wld_permits = wld_permits w\<rparr>, None)
   | (a, Inr key) \<Rightarrow> (\<lparr>wld_adm = a, wld_permits = key # wld_permits w\<rparr>, Some key))"
| "adm_step (Release i) w =
     (if i < length (wld_permits w)
      then (\<lparr>wld_adm = permit_drop (wld_permits w ! i) (wld_adm w),
             wld_permits = take i (wld_permits w) @ drop (Suc i) (wld_permits w)\<rparr>, None)
      else (w, None))"

definition adm_world :: "nat \<Rightarrow> nat \<Rightarrow> nat \<Rightarrow> nat \<Rightarrow> nat \<Rightarrow> admission_world" where
  "adm_world max_active refill burst max_entries prefix_bits =
     \<lparr>wld_adm = adm_new max_active refill burst max_entries prefix_bits, wld_permits = []\<rparr>"

definition active_of :: "admission \<Rightarrow> ip_key \<Rightarrow> nat" where
  "active_of a key = (case fmlookup (adm_entries a) key of None \<Rightarrow> 0 | Some e \<Rightarrow> ent_active e)"

definition adm_config :: "admission \<Rightarrow> nat \<times> nat \<times> nat \<times> nat \<times> nat" where
  "adm_config a = (adm_max_active a, adm_refill a, adm_burst a, adm_max_entries a, adm_prefix_bits a)"

definition adm_ok :: "nat \<times> nat \<times> nat \<times> nat \<times> nat \<Rightarrow> admission_world \<Rightarrow> bool" where
  "adm_ok cfg w \<longleftrightarrow> adm_config (wld_adm w) = cfg \<and>
     (\<forall>key. active_of (wld_adm w) key = count_list (wld_permits w) key \<and>
       count_list (wld_permits w) key \<le> adm_max_active (wld_adm w)) \<and>
     table_len (adm_entries (wld_adm w)) \<le> adm_max_entries (wld_adm w)"

lemma make_room_config [simp]:
  "adm_max_active (make_room key a) = adm_max_active a" "adm_refill (make_room key a) = adm_refill a"
  "adm_burst (make_room key a) = adm_burst a" "adm_max_entries (make_room key a) = adm_max_entries a"
  "adm_prefix_bits (make_room key a) = adm_prefix_bits a"
  by (simp_all add: make_room_def)

lemma make_room_lookup:
  "fmlookup (adm_entries (make_room key a)) k = fmlookup (adm_entries a) k \<or>
   fmlookup (adm_entries (make_room key a)) k = None \<and>
     (\<exists>e. fmlookup (adm_entries a) k = Some e \<and> \<not> keeps_entry a e)"
  by (cases "fmlookup (adm_entries a) k") (auto simp: make_room_def)

lemma make_room_same [simp]:
  "fmlookup (adm_entries (make_room key a)) key = fmlookup (adm_entries a) key"
  by (auto simp: make_room_def)

lemma make_room_active [simp]: "active_of (make_room key a) k = active_of a k"
  using make_room_lookup [of key a k] by (auto simp: active_of_def keeps_entry_def)

lemma make_room_len: "table_len (adm_entries (make_room key a)) \<le> table_len (adm_entries a)"
  by (simp add: make_room_def table_len_filter_le)

text \<open>What an attempt does, in one equation per outcome.\<close>

definition fresh_entry :: "ip_key \<Rightarrow> instant \<Rightarrow> admission \<Rightarrow> admission_entry" where
  "fresh_entry key now a =
     (let e = (case fmlookup (adm_entries a) key of
                 Some e \<Rightarrow> e
               | None \<Rightarrow> \<lparr>ent_active = 0, ent_tokens = of_nat (adm_burst a), ent_updated = now\<rparr>)
      in e\<lparr>ent_tokens := refilled a now e, ent_updated := now\<rparr>)"

lemma try_acquire_eq:
  assumes "key = ip_key_of ip (adm_prefix_bits a)" and "a1 = make_room key a" and "e = fresh_entry key now a"
  shows "try_acquire_at ip now a =
     (if fmlookup (adm_entries a) key = None \<and> adm_max_entries a \<le> table_len (adm_entries a1)
      then (a1, Inl RejectTable)
      else if adm_max_active a \<le> ent_active e
      then (a1\<lparr>adm_entries := fmupd key e (adm_entries a1)\<rparr>, Inl RejectActive)
      else if ent_tokens e < 1
      then (a1\<lparr>adm_entries := fmupd key e (adm_entries a1)\<rparr>, Inl RejectRate)
      else (a1\<lparr>adm_entries := fmupd key
          (e\<lparr>ent_tokens := f64 (ent_tokens e - 1), ent_active := ent_active e + 1\<rparr>) (adm_entries a1)\<rparr>, Inr key))"
proof -
  have "fmlookup (adm_entries a1) key = fmlookup (adm_entries a) key" by (simp add: assms(2))
  then show ?thesis
    unfolding try_acquire_at_def assms(1) [symmetric] Let_def assms(2) [symmetric] assms(3) fresh_entry_def
    by simp
qed

lemma try_acquire_cases:
  assumes "key = ip_key_of ip (adm_prefix_bits a)" and "a1 = make_room key a" and "e = fresh_entry key now a"
  obtains (full) "try_acquire_at ip now a = (a1, Inl RejectTable)" "fmlookup (adm_entries a) key = None"
      "adm_max_entries a \<le> table_len (adm_entries a1)"
    | (refused) r where "try_acquire_at ip now a = (a1\<lparr>adm_entries := fmupd key e (adm_entries a1)\<rparr>, Inl r)"
      "fmlookup (adm_entries a) key = None \<longrightarrow> table_len (adm_entries a1) < adm_max_entries a"
    | (admitted) "try_acquire_at ip now a = (a1\<lparr>adm_entries := fmupd key
          (e\<lparr>ent_tokens := f64 (ent_tokens e - 1), ent_active := ent_active e + 1\<rparr>) (adm_entries a1)\<rparr>, Inr key)"
      "fmlookup (adm_entries a) key = None \<longrightarrow> table_len (adm_entries a1) < adm_max_entries a"
      "ent_active e < adm_max_active a" "1 \<le> ent_tokens e"
  using that try_acquire_eq [OF assms] by (auto simp: not_le not_less split: if_splits)

lemma fresh_entry_active: "ent_active (fresh_entry key now a) = active_of a key"
  by (simp add: fresh_entry_def active_of_def Let_def split: option.splits)

lemma active_of_upd:
  "active_of (a\<lparr>adm_entries := fmupd key e m\<rparr>) k = (if k = key then ent_active e else active_of (a\<lparr>adm_entries := m\<rparr>) k)"
  by (simp add: active_of_def)

lemma adm_ok_put:
  assumes w: "adm_ok cfg w" and a: "a = wld_adm w" and key: "key = ip_key_of ip (adm_prefix_bits a)"
    and room: "fmlookup (adm_entries a) key = None \<longrightarrow> table_len (adm_entries (make_room key a)) < adm_max_entries a"
    and count: "count_list ps key = ent_active e" "\<And>k. k \<noteq> key \<Longrightarrow> count_list ps k = count_list (wld_permits w) k"
    and lim: "ent_active e \<le> adm_max_active a"
  shows "adm_ok cfg \<lparr>wld_adm = (make_room key a)\<lparr>adm_entries := fmupd key e (adm_entries (make_room key a))\<rparr>,
    wld_permits = ps\<rparr>"
proof -
  let ?m = "adm_entries (make_room key a)"
  have "table_len (fmupd key e ?m) \<le> adm_max_entries a"
    using w room make_room_len [of key a] by (intro table_len_put) (auto simp: adm_ok_def a)
  moreover have "active_of ((make_room key a)\<lparr>adm_entries := fmupd key e ?m\<rparr>) k =
      (if k = key then ent_active e else active_of a k)" for k
    by (simp add: active_of_upd)
  ultimately show ?thesis using w count lim by (simp add: adm_ok_def adm_config_def a)
qed

lemma acquire_ok:
  assumes w: "adm_ok cfg w"
  shows "adm_ok cfg (fst (adm_step (Acquire ip now) w))"
proof -
  define a where "a = wld_adm w"
  define key where "key = ip_key_of ip (adm_prefix_bits a)"
  have act: "ent_active (fresh_entry key now a) = count_list (wld_permits w) key"
    "ent_active (fresh_entry key now a) \<le> adm_max_active a"
    using w by (simp_all add: fresh_entry_active adm_ok_def a_def)
  note put = adm_ok_put [OF w a_def key_def]
  show ?thesis
  proof (cases rule: try_acquire_cases [OF key_def refl refl, of now])
    case 1
    have "adm_ok cfg \<lparr>wld_adm = make_room key a, wld_permits = wld_permits w\<rparr>"
      using w make_room_len [of key a] by (auto simp: adm_ok_def adm_config_def a_def)
    then show ?thesis using 1(1) by (simp add: a_def [symmetric])
  next
    case (2 r)
    then show ?thesis using put [OF 2(2) act(1) [symmetric] _ act(2)] 2(1) by (simp add: a_def [symmetric])
  next
    case 3
    let ?e = "fresh_entry key now a"
    have "adm_ok cfg \<lparr>wld_adm = (make_room key a)\<lparr>adm_entries := fmupd key
        (?e\<lparr>ent_tokens := f64 (ent_tokens ?e - 1), ent_active := ent_active ?e + 1\<rparr>) (adm_entries (make_room key a))\<rparr>,
      wld_permits = key # wld_permits w\<rparr>"
      by (rule put [OF 3(2)]) (use act 3(3) in simp_all)
    then show ?thesis using 3(1) by (simp add: a_def [symmetric])
  qed
qed

lemma count_list_remove:
  "i < length ps \<Longrightarrow> count_list (take i ps @ drop (Suc i) ps) k = count_list ps k - of_bool (ps ! i = k)"
proof -
  assume i: "i < length ps"
  have "count_list ps k = count_list (take i ps @ ps ! i # drop (Suc i) ps) k"
    using id_take_nth_drop [OF i] by simp
  then show ?thesis by simp
qed

lemma release_ok:
  assumes w: "adm_ok cfg w"
  shows "adm_ok cfg (fst (adm_step (Release i) w))"
proof (cases "i < length (wld_permits w)")
  case True
  define key where "key = wld_permits w ! i"
  have "0 < count_list (wld_permits w) key" using True by (auto simp: key_def count_list_0_iff intro: gr0I)
  then have "active_of (wld_adm w) key \<noteq> 0" using w by (simp add: adm_ok_def)
  then obtain e where e: "fmlookup (adm_entries (wld_adm w)) key = Some e"
    by (cases "fmlookup (adm_entries (wld_adm w)) key") (simp_all add: active_of_def)
  have drop: "permit_drop key (wld_adm w) =
      (wld_adm w)\<lparr>adm_entries := fmupd key (e\<lparr>ent_active := ent_active e - 1\<rparr>) (adm_entries (wld_adm w))\<rparr>"
    by (simp add: permit_drop_def e)
  define ps where "ps = take i (wld_permits w) @ drop (Suc i) (wld_permits w)"
  have ps: "count_list ps k = count_list (wld_permits w) k - of_bool (key = k)" for k
    using count_list_remove [OF True, of k] by (simp only: ps_def key_def)
  have "active_of (permit_drop key (wld_adm w)) k = active_of (wld_adm w) k - of_bool (key = k)" for k
    unfolding drop active_of_upd using e by (auto simp: active_of_def)
  moreover have "table_len (adm_entries (permit_drop key (wld_adm w))) = table_len (adm_entries (wld_adm w))"
    unfolding drop using table_len_remove [OF e] by simp
  moreover have "adm_config (permit_drop key (wld_adm w)) = adm_config (wld_adm w)"
    "adm_max_active (permit_drop key (wld_adm w)) = adm_max_active (wld_adm w)"
    "adm_max_entries (permit_drop key (wld_adm w)) = adm_max_entries (wld_adm w)"
    by (simp_all add: drop adm_config_def)
  ultimately have "adm_ok cfg \<lparr>wld_adm = permit_drop key (wld_adm w), wld_permits = ps\<rparr>"
    using w by (simp add: adm_ok_def ps le_diff_conv trans_le_add1)
  then show ?thesis using True by (simp add: ps_def key_def)
qed (use w in simp)

lemma adm_step_ok: "adm_ok cfg w \<Longrightarrow> adm_ok cfg (fst (adm_step x w))"
  by (cases x) (use acquire_ok release_ok in blast)+

section \<open>The rate\<close>

text \<open>The level of a bucket; an absent bucket is full.\<close>

definition level :: "admission \<Rightarrow> ip_key \<Rightarrow> rat" where
  "level a key = (case fmlookup (adm_entries a) key of None \<Rightarrow> of_nat (adm_burst a) | Some e \<Rightarrow> ent_tokens e)"

definition filled_at :: "admission \<Rightarrow> ip_key \<Rightarrow> instant \<Rightarrow> instant" where
  "filled_at a key now = (case fmlookup (adm_entries a) key of None \<Rightarrow> now | Some e \<Rightarrow> ent_updated e)"

text \<open>What rounding may add to a bucket in one attempt.\<close>

definition slack :: "nat \<Rightarrow> rat" where
  "slack burst = of_nat burst / 562949953421312"

definition earned :: "nat \<Rightarrow> instant \<Rightarrow> instant \<Rightarrow> rat" where
  "earned refill from to = of_nat refill * (of_nat (to - from) / 1000000000)"

lemma earned_add: "a \<le> b \<Longrightarrow> b \<le> c \<Longrightarrow> earned r a b + earned r b c = earned r a c"
  by (simp add: earned_def of_nat_diff field_simps)

lemma earned_nonneg [simp]: "0 \<le> earned r a b"
  by (simp add: earned_def)

lemma earned_mono: "a \<le> b \<Longrightarrow> b \<le> c \<Longrightarrow> earned r a b \<le> earned r a c"
  using earned_add [of a b c r] earned_nonneg [of r b c] by linarith

lemma rounding_growth:
  assumes "0 \<le> z" and "z \<le> of_nat burst"
  shows "z * (1 + f64_eps) ^ 4 \<le> z + of_nat burst / 1125899906842624"
proof -
  have "(1 + f64_eps) ^ 4 \<le> 1 + 1 / 1125899906842624" by (simp add: f64_eps_def power4_eq_xxxx)
  then have "z * (1 + f64_eps) ^ 4 \<le> z * (1 + 1 / 1125899906842624)" using assms(1) by (rule mult_left_mono)
  also have "\<dots> = z + z / 1125899906842624" by (simp add: algebra_simps)
  also have "\<dots> \<le> z + of_nat burst / 1125899906842624" using assms(2) by (simp add: divide_right_mono)
  finally show ?thesis .
qed

lemma refilled_le:
  assumes t: "0 \<le> ent_tokens e"
  shows "refilled a now e \<le> ent_tokens e + earned (adm_refill a) (ent_updated e) now + of_nat (adm_burst a) / 1125899906842624"
proof -
  let ?x = "earned (adm_refill a) (ent_updated e) now" and ?s = "as_secs_f64 (now - ent_updated e)"
  let ?y = "?s * of_nat (adm_refill a)" and ?h = "1 + f64_eps"
  have y: "0 \<le> ?y" "?y \<le> ?x * ?h ^ 2"
    using as_secs_f64_le [of "now - ent_updated e"] as_secs_f64_nonneg
    by (simp_all add: earned_def mult.commute [of _ "of_nat (adm_refill a)"] mult.assoc mult_left_mono)
  have "f64 ?y \<le> ?y * ?h" using y(1) by (rule f64_le)
  also have "\<dots> \<le> ?x * ?h ^ 2 * ?h" using y(2) by (intro mult_right_mono) auto
  also have "\<dots> = ?x * ?h ^ 3" by (simp add: power3_eq_cube power2_eq_square)
  finally have fy: "f64 ?y \<le> ?x * ?h ^ 3" .
  have "1 \<le> ?h ^ 3" by simp
  then have "ent_tokens e + f64 ?y \<le> (ent_tokens e + ?x) * ?h ^ 3"
    using fy t mult_left_mono [of 1 "?h ^ 3" "ent_tokens e"] by (simp add: distrib_right)
  moreover have "f64 (ent_tokens e + f64 ?y) \<le> (ent_tokens e + f64 ?y) * ?h"
    using t y(1) by (intro f64_le) (simp add: f64_nonneg)
  ultimately have "f64 (ent_tokens e + f64 ?y) \<le> (ent_tokens e + ?x) * ?h ^ 3 * ?h"
    by (meson f64_eps_pos(2) add_increasing2 mult_right_mono order_trans zero_le_one)
  then have up: "f64 (ent_tokens e + f64 ?y) \<le> (ent_tokens e + ?x) * ?h ^ 4"
    by (simp add: power4_eq_xxxx power3_eq_cube)
  show ?thesis
  proof (cases "ent_tokens e + ?x \<le> of_nat (adm_burst a)")
    case True
    have "0 \<le> ent_tokens e + ?x" using t earned_nonneg by (simp add: add_nonneg_nonneg)
    from rounding_growth [OF this True] up show ?thesis by (simp add: refilled_def min_le_iff_disj)
  next
    case False
    moreover have "0 \<le> (of_nat (adm_burst a) / 1125899906842624 :: rat)" by simp
    ultimately show ?thesis unfolding refilled_def by linarith
  qed
qed

text \<open>Admissions so far plus the tokens left never exceed what the bucket has been given.\<close>

definition rate_ok :: "instant \<Rightarrow> ip_key \<Rightarrow> instant \<Rightarrow> nat \<Rightarrow> nat \<Rightarrow> admission \<Rightarrow> bool" where
  "rate_ok t0 key now n s a \<longleftrightarrow> 0 \<le> level a key \<and> t0 \<le> filled_at a key now \<and> filled_at a key now \<le> now \<and>
     of_nat s + level a key \<le>
       of_nat (adm_burst a) + earned (adm_refill a) t0 (filled_at a key now) + of_nat n * slack (adm_burst a)"

lemma slack_nonneg [simp]: "0 \<le> slack b"
  by (simp add: slack_def)

lemma rate_ok_frame:
  assumes "rate_ok t0 key now n s a" and "now \<le> now'" and "adm_burst a' = adm_burst a" and "adm_refill a' = adm_refill a"
    and "fmlookup (adm_entries a') key = fmlookup (adm_entries a) key \<or>
      fmlookup (adm_entries a') key = None \<and> of_nat (adm_burst a) \<le> level a key"
    and "n \<le> n'"
  shows "rate_ok t0 key now' n' s a'"
proof -
  have f: "filled_at a key now \<le> filled_at a' key now'" "filled_at a' key now' \<le> now'"
    using assms(1,2,5) by (auto simp: rate_ok_def filled_at_def split: option.splits)
  have l: "0 \<le> level a' key" "level a' key \<le> level a key"
    using assms(1,3,5) by (auto simp: rate_ok_def level_def split: option.splits)
  have "earned (adm_refill a) t0 (filled_at a key now) \<le> earned (adm_refill a) t0 (filled_at a' key now')"
    using assms(1) f(1) by (intro earned_mono) (auto simp: rate_ok_def)
  moreover have "of_nat n * slack (adm_burst a) \<le> of_nat n' * slack (adm_burst a)"
    using assms(6) by (intro mult_right_mono) auto
  ultimately have "of_nat s + level a' key \<le>
      of_nat (adm_burst a) + earned (adm_refill a) t0 (filled_at a' key now') + of_nat n' * slack (adm_burst a)"
    using assms(1) l(2) by (simp add: rate_ok_def)
  then show ?thesis using assms(1,3,4) f l(1) by (simp add: rate_ok_def)
qed

lemma rate_ok_put:
  assumes "rate_ok t0 key now n s a" and "now \<le> now'" and a': "adm_burst a' = adm_burst a" "adm_refill a' = adm_refill a"
    and e': "fmlookup (adm_entries a') key = Some e'" "ent_updated e' = now'" "0 \<le> ent_tokens e'"
    and gain: "of_nat s' + ent_tokens e' \<le> of_nat s + ent_tokens (fresh_entry key now' a) + of_nat (adm_burst a) * f64_eps"
  shows "rate_ok t0 key now' (Suc n) s' a'"
proof -
  let ?e = "fresh_entry key now' a" and ?f = "filled_at a key now'"
  have ok: "rate_ok t0 key now' n s a" using assms(1,2) by (rule rate_ok_frame) simp_all
  have "ent_tokens ?e \<le> level a key + earned (adm_refill a) ?f now' + of_nat (adm_burst a) / 1125899906842624"
    using ok refilled_le [of "\<lparr>ent_active = 0, ent_tokens = of_nat (adm_burst a), ent_updated = now'\<rparr>" a now']
      refilled_le [of _ a now']
    by (auto simp: fresh_entry_def level_def filled_at_def Let_def rate_ok_def split: option.splits)
  moreover have "earned (adm_refill a) t0 ?f + earned (adm_refill a) ?f now' = earned (adm_refill a) t0 now'"
    using ok by (intro earned_add) (auto simp: rate_ok_def)
  moreover have "of_nat s + level a key \<le> of_nat (adm_burst a) + earned (adm_refill a) t0 ?f + of_nat n * slack (adm_burst a)"
    using ok by (simp add: rate_ok_def)
  moreover have "of_nat (adm_burst a) / 1125899906842624 + of_nat (adm_burst a) * f64_eps \<le> slack (adm_burst a)"
    by (simp add: slack_def f64_eps_def)
  ultimately have "of_nat s' + ent_tokens e' \<le>
      of_nat (adm_burst a) + earned (adm_refill a) t0 now' + (of_nat n * slack (adm_burst a) + slack (adm_burst a))"
    using gain by linarith
  then have "of_nat s' + ent_tokens e' \<le>
      of_nat (adm_burst a) + earned (adm_refill a) t0 now' + of_nat (Suc n) * slack (adm_burst a)"
    by (simp add: algebra_simps)
  then show ?thesis using ok e' a' by (auto simp: rate_ok_def level_def filled_at_def split: option.splits)
qed

lemma refilled_nonneg: "0 \<le> ent_tokens e \<Longrightarrow> 0 \<le> refilled a now e"
  by (simp add: refilled_def f64_nonneg as_secs_f64_nonneg)

lemma fresh_entry_nonneg: "0 \<le> level a key \<Longrightarrow> 0 \<le> ent_tokens (fresh_entry key now a)"
  by (auto simp: fresh_entry_def level_def Let_def refilled_nonneg split: option.splits)

lemma fresh_entry_le_burst: "ent_tokens (fresh_entry key now a) \<le> of_nat (adm_burst a)"
  by (simp add: fresh_entry_def Let_def refilled_def)

lemma fresh_entry_updated [simp]: "ent_updated (fresh_entry key now a) = now"
  by (simp add: fresh_entry_def Let_def)

lemma rate_ok_acquire:
  assumes ok: "rate_ok t0 key now n s a" and t: "now \<le> now'" and r: "try_acquire_at ip now' a = (a', r)"
  shows "rate_ok t0 key now' (Suc n) (s + of_bool (r = Inr key)) a'"
proof -
  define K where "K = ip_key_of ip (adm_prefix_bits a)"
  let ?e = "fresh_entry K now' a" and ?a = "make_room K a"
  have evict: "fmlookup (adm_entries ?a) key = fmlookup (adm_entries a) key \<or>
      fmlookup (adm_entries ?a) key = None \<and> of_nat (adm_burst a) \<le> level a key"
    using make_room_lookup [of K a key] by (auto simp: keeps_entry_def level_def)
  have other: "rate_ok t0 key now' (Suc n) s (?a\<lparr>adm_entries := fmupd K x (adm_entries ?a)\<rparr>)" if "K \<noteq> key" for x
    using that evict by (intro rate_ok_frame [OF ok t]) auto
  have e: "0 \<le> ent_tokens ?e" if "K = key" using that ok fresh_entry_nonneg by (auto simp: rate_ok_def)
  show ?thesis
  proof (cases rule: try_acquire_cases [OF K_def refl refl, of now'])
    case 1
    have "rate_ok t0 key now' (Suc n) s ?a" using evict by (intro rate_ok_frame [OF ok t]) auto
    then show ?thesis using 1(1) r by auto
  next
    case (2 x)
    then show ?thesis using r other [of ?e] e
      by (cases "K = key") (auto intro!: rate_ok_put [OF ok t])
  next
    case 3
    let ?e' = "?e\<lparr>ent_tokens := f64 (ent_tokens ?e - 1), ent_active := ent_active ?e + 1\<rparr>"
    have "f64 (ent_tokens ?e - 1) \<le> (ent_tokens ?e - 1) * (1 + f64_eps)" using 3(4) by (intro f64_le) simp
    also have "\<dots> = (ent_tokens ?e - 1) + (ent_tokens ?e - 1) * f64_eps" by (simp add: algebra_simps)
    also have "\<dots> \<le> (ent_tokens ?e - 1) + of_nat (adm_burst a) * f64_eps"
      using fresh_entry_le_burst [of K now' a] by (intro add_left_mono mult_right_mono) auto
    finally have gain: "1 + f64 (ent_tokens ?e - 1) \<le> ent_tokens ?e + of_nat (adm_burst a) * f64_eps" by simp
    show ?thesis
    proof (cases "K = key")
      case True
      have "rate_ok t0 key now' (Suc n) (s + 1) (?a\<lparr>adm_entries := fmupd key ?e' (adm_entries ?a)\<rparr>)"
        by (rule rate_ok_put [OF ok t, where e' = ?e']) (use gain True 3(4) in \<open>auto simp: f64_nonneg\<close>)
      then show ?thesis using 3(1) r True by auto
    next
      case False
      then show ?thesis using other [OF False, of ?e'] 3(1) r by auto
    qed
  qed
qed

lemma rate_ok_release: "rate_ok t0 key now n s (permit_drop k a) \<longleftrightarrow> rate_ok t0 key now n s a"
proof -
  have "level (permit_drop k a) key = level a key" "filled_at (permit_drop k a) key now = filled_at a key now"
    by (auto simp: permit_drop_def level_def filled_at_def split: option.splits)
  moreover have "adm_burst (permit_drop k a) = adm_burst a" "adm_refill (permit_drop k a) = adm_refill a"
    by (auto simp: permit_drop_def split: option.splits)
  ultimately show ?thesis by (simp add: rate_ok_def)
qed

fun acquire_times :: "admission_op list \<Rightarrow> instant list" where
  "acquire_times [] = []"
| "acquire_times (Acquire _ t # ops) = t # acquire_times ops"
| "acquire_times (Release _ # ops) = acquire_times ops"

lemma rate_run:
  assumes "rate_ok t0 key now n s (wld_adm w)" and "sorted (now # acquire_times ops)"
  shows "rate_ok t0 key (last (now # acquire_times ops)) (n + length (acquire_times ops))
    (s + count_list (snd (run_out adm_step ops w)) (Some key)) (wld_adm (fst (run_out adm_step ops w)))"
  using assms
proof (induction ops arbitrary: now n s w)
  case (Cons x ops)
  show ?case
  proof (cases x)
    case (Acquire ip t)
    obtain a' r where r: "try_acquire_at ip t (wld_adm w) = (a', r)" by (cases "try_acquire_at ip t (wld_adm w)")
    have "rate_ok t0 key t (Suc n) (s + of_bool (r = Inr key)) a'"
      using rate_ok_acquire [OF Cons.prems(1) _ r] Cons.prems(2) Acquire by simp
    moreover obtain w1 out where st: "adm_step x w = (w1, out)" "wld_adm w1 = a'" "out = Some key \<longleftrightarrow> r = Inr key"
      using r Acquire by (cases r) simp_all
    moreover have at: "acquire_times (x # ops) = t # acquire_times ops" by (simp add: Acquire)
    ultimately show ?thesis
      using Cons.IH [of t "Suc n" "s + of_bool (r = Inr key)" w1] Cons.prems(2)
      by (cases "r = Inr key") (auto simp: Let_def case_prod_unfold)
  next
    case (Release i)
    have "rate_ok t0 key now n s (wld_adm (fst (adm_step x w)))" "snd (adm_step x w) = None"
      using Cons.prems(1) Release by (simp_all add: rate_ok_release)
    then show ?thesis
      using Cons.IH [of now n s "fst (adm_step x w)"] Cons.prems(2) Release
      by (simp add: Let_def case_prod_unfold)
  qed
qed simp

lemma adm_config_step: "adm_config (wld_adm (fst (adm_step x w))) = adm_config (wld_adm w)"
proof (cases x)
  case (Acquire ip now)
  show ?thesis
    unfolding Acquire
    by (cases rule: try_acquire_cases [OF refl refl refl, where ip = ip and a = "wld_adm w" and now = now]) (simp_all add: adm_config_def)
next
  case (Release i)
  then show ?thesis by (simp add: permit_drop_def adm_config_def split: option.splits)
qed

lemma adm_config_run: "adm_config (wld_adm (fst (run_out adm_step ops w))) = adm_config (wld_adm w)"
  by (induction ops arbitrary: w) (simp_all add: Let_def case_prod_unfold adm_config_step)

interpretation admit: answering_system adm_step "adm_ok cfg" "\<lambda>_ _. True"
  for cfg
  by unfold_locales (simp add: adm_step_ok)

text \<open>
  C18. Over every sequence of attempts and releases the controller counts, for every source, exactly
  the permits that are outstanding; no source ever holds more than \<open>max_active\<close> permits; and the table never
  has more than \<open>max_entries\<close> sources.
\<close>

theorem admission_permits_exact:
  "let w = fst (run_out adm_step ops (adm_world max_active refill burst max_entries bits))
   in (\<forall>key. active_of (wld_adm w) key = count_list (wld_permits w) key \<and>
         count_list (wld_permits w) key \<le> max_active) \<and>
      table_len (adm_entries (wld_adm w)) \<le> max_entries"
proof -
  let ?cfg = "(max_active, refill, burst, max_entries, bits)"
  have "adm_ok ?cfg (adm_world max_active refill burst max_entries bits)"
    by (simp add: adm_ok_def adm_world_def adm_new_def adm_config_def active_of_def)
  then have "adm_ok ?cfg (fst (run_out adm_step ops (adm_world max_active refill burst max_entries bits)))"
    using admit.run_answers by blast
  then show ?thesis by (auto simp: adm_ok_def adm_config_def Let_def)
qed



section \<open>A table full of idle sources\<close>

text \<open>
  Eviction looks at the tokens as last written, not at what they would have grown to by now. A
  source that has been admitted has given up a token, so its entry stays below the burst until that source comes back.
\<close>

definition spent :: "admission \<Rightarrow> ip_key list \<Rightarrow> bool" where
  "spent a keys \<longleftrightarrow> fset (fmdom (adm_entries a)) = set keys \<and>
     (\<forall>key\<in>set keys. \<exists>e. fmlookup (adm_entries a) key = Some e \<and> ent_tokens e < of_nat (adm_burst a))"

lemma spent_len: "spent a keys \<Longrightarrow> distinct keys \<Longrightarrow> table_len (adm_entries a) = length keys"
  by (simp add: spent_def table_len_def fcard.rep_eq distinct_card)

lemma spent_room: "spent a keys \<Longrightarrow> make_room key a = a"
proof -
  assume a: "spent a keys"
  have "fmfilter (\<lambda>k. keeps_entry a (the (fmlookup (adm_entries a) k))) (adm_entries a) = adm_entries a"
  proof (rule fmap_ext)
    fix k
    show "fmlookup (fmfilter (\<lambda>k. keeps_entry a (the (fmlookup (adm_entries a) k))) (adm_entries a)) k =
        fmlookup (adm_entries a) k"
    proof (cases "fmlookup (adm_entries a) k")
      case (Some e)
      then have "k \<in> set keys" using a fmdomI [OF Some] by (simp add: spent_def)
      then show ?thesis using a Some by (auto simp: spent_def keeps_entry_def)
    qed simp
  qed
  then show ?thesis by (simp add: make_room_def)
qed

lemma spent_acquire:
  assumes a: "spent a keys" "distinct keys" and room: "length keys < adm_max_entries a"
    and ip: "ip_key_of ip (adm_prefix_bits a) \<notin> set keys" and cfg: "0 < adm_max_active a" "0 < adm_burst a" "adm_burst a \<le> 4294967295"
  shows "\<exists>a'. try_acquire_at ip now a = (a', Inr (ip_key_of ip (adm_prefix_bits a))) \<and>
    spent a' (ip_key_of ip (adm_prefix_bits a) # keys) \<and> adm_config a' = adm_config a"
proof -
  define key where "key = ip_key_of ip (adm_prefix_bits a)"
  have none: "fmlookup (adm_entries a) key = None"
    using a(1) ip unfolding spent_def key_def by (metis fmdomI not_None_eq)
  have same: "make_room key a = a" by (rule spent_room [OF a(1)])
  have len: "\<not> adm_max_entries a \<le> table_len (adm_entries a)" using room spent_len [OF a] by simp
  define e where "e = fresh_entry key now a"
  have e: "ent_active e = 0" "ent_tokens e = of_nat (adm_burst a)"
    using cfg(3) f64_of_nat [of "adm_burst a"]
    by (simp_all add: e_def fresh_entry_def none refilled_def as_secs_f64_def f64_of_nat [of 0, simplified])
  define e' where "e' = e\<lparr>ent_tokens := f64 (ent_tokens e - 1), ent_active := ent_active e + 1\<rparr>"
  have "ent_tokens e' = f64 (of_nat (adm_burst a) - 1)" by (simp add: e'_def e)
  also have "of_nat (adm_burst a) - 1 = (of_nat (adm_burst a - 1) :: rat)" using cfg(2) by (simp add: of_nat_diff)
  also have "f64 (of_nat (adm_burst a - 1)) = of_nat (adm_burst a - 1)" using cfg(3) by (intro f64_of_nat) linarith
  finally have e': "ent_tokens e' < of_nat (adm_burst a)" using cfg(2) by (simp only: of_nat_less_iff diff_less)
  have "try_acquire_at ip now a = (a\<lparr>adm_entries := fmupd key e' (adm_entries a)\<rparr>, Inr key)"
    using none len cfg(1,2) e by (simp add: try_acquire_eq [OF key_def same [symmetric] e_def] e'_def)
  moreover have "spent (a\<lparr>adm_entries := fmupd key e' (adm_entries a)\<rparr>) (key # keys)"
    using a(1) e' cfg(2) by (auto simp: spent_def)
  ultimately show ?thesis by (simp add: key_def adm_config_def)
qed

lemma spent_release: "spent a keys \<Longrightarrow> spent (permit_drop k a) keys"
  by (auto simp: spent_def permit_drop_def dest: fmdomI split: option.splits)

lemma adm_config_permit_drop: "adm_config (permit_drop k a) = adm_config a"
  by (simp add: permit_drop_def adm_config_def split: option.splits)

lemma spent_rejects:
  assumes "spent a keys" and "distinct keys" and "adm_max_entries a \<le> length keys"
    and "ip_key_of ip (adm_prefix_bits a) \<notin> set keys"
  shows "try_acquire_at ip now a = (a, Inl RejectTable)"
proof -
  let ?key = "ip_key_of ip (adm_prefix_bits a)"
  have "fmlookup (adm_entries a) ?key = None" using assms(1,4) unfolding spent_def by (metis fmdomI not_None_eq)
  then show ?thesis
    using assms(3) spent_len [OF assms(1,2)] spent_room [OF assms(1), of ?key]
    by (simp add: try_acquire_eq [OF refl refl refl])
qed

text \<open>Sources admitted one after the other, each releasing its permit at once.\<close>

definition visit :: "ip_addr list \<Rightarrow> instant \<Rightarrow> admission_op list" where
  "visit ips now = concat (map (\<lambda>ip. [Acquire ip now, Release 0]) ips)"

lemma visit_spent:
  assumes "spent (wld_adm w) keys" and "wld_permits w = []" and "distinct (rev (map (\<lambda>ip. ip_key_of ip bits) ips) @ keys)"
    and "length ips + length keys \<le> max_entries" and "0 < max_active" and "0 < burst" and "burst \<le> 4294967295"
    and "adm_config (wld_adm w) = (max_active, refill, burst, max_entries, bits)"
  shows "spent (wld_adm (fst (run_out adm_step (visit ips now) w))) (rev (map (\<lambda>ip. ip_key_of ip bits) ips) @ keys) \<and>
    wld_permits (fst (run_out adm_step (visit ips now) w)) = []"
  using assms
proof (induction ips arbitrary: w keys)
  case (Cons ip ips)
  let ?key = "ip_key_of ip bits" and ?a = "wld_adm w"
  have cfg: "adm_prefix_bits ?a = bits" "adm_max_active ?a = max_active" "adm_burst ?a = burst" "adm_max_entries ?a = max_entries"
    using Cons.prems(8) by (simp_all add: adm_config_def)
  obtain a' where a': "try_acquire_at ip now ?a = (a', Inr ?key)" "spent a' (?key # keys)" "adm_config a' = adm_config ?a"
    using spent_acquire [OF Cons.prems(1), of ip now] Cons.prems(3-7) by (auto simp: cfg)
  define w' where "w' = \<lparr>wld_adm = permit_drop ?key a', wld_permits = []\<rparr>"
  have st: "fst (run_out adm_step (visit (ip # ips) now) w) = fst (run_out adm_step (visit ips now) w')"
    using a'(1) Cons.prems(2) by (simp add: visit_def w'_def Let_def case_prod_unfold)
  have "spent (wld_adm w') (?key # keys)" "adm_config (wld_adm w') = (max_active, refill, burst, max_entries, bits)"
    using spent_release [OF a'(2)] a'(3) Cons.prems(8) by (simp_all add: w'_def adm_config_permit_drop)
  then show ?case
    unfolding st using Cons.IH [of w' "?key # keys"] Cons.prems(3-7) by (simp add: w'_def)
qed (simp add: visit_def)

text \<open>
  C9. Once \<open>max_entries\<close> distinct sources have each been admitted once and have released their
  permits, every other source is refused with a full table at every later time, however long the table has been idle:
  no entry is ever evicted.
\<close>

theorem admission_table_starves:
  assumes "distinct (map (\<lambda>ip. ip_key_of ip bits) ips)" and "length ips = max_entries" and "0 < max_active"
    and "0 < burst" and "burst \<le> 4294967295" and "ip_key_of ip bits \<notin> (\<lambda>ip. ip_key_of ip bits) ` set ips"
  shows "let w = fst (run_out adm_step (visit ips now) (adm_world max_active refill burst max_entries bits))
    in wld_permits w = [] \<and> try_acquire_at ip later (wld_adm w) = (wld_adm w, Inl RejectTable)"
proof -
  let ?w = "adm_world max_active refill burst max_entries bits" and ?keys = "rev (map (\<lambda>ip. ip_key_of ip bits) ips)"
  define w where "w = fst (run_out adm_step (visit ips now) ?w)"
  have "spent (wld_adm ?w) []" by (simp add: spent_def adm_world_def adm_new_def)
  then have "spent (wld_adm w) (?keys @ []) \<and> wld_permits w = []"
    unfolding w_def by (rule visit_spent) (use assms in \<open>simp_all add: adm_world_def adm_new_def adm_config_def\<close>)
  then have s: "spent (wld_adm w) ?keys" "wld_permits w = []" by simp_all
  have "adm_config (wld_adm w) = (max_active, refill, burst, max_entries, bits)"
    unfolding w_def adm_config_run by (simp add: adm_world_def adm_new_def adm_config_def)
  then have "try_acquire_at ip later (wld_adm w) = (wld_adm w, Inl RejectTable)"
    using assms by (intro spent_rejects [OF s(1)]) (auto simp: adm_config_def)
  then show ?thesis using s(2) by (simp add: w_def Let_def)
qed

theorem admission_table_starves_witness:
  "ip_key_of (IpV4 2) 64 \<notin> (\<lambda>ip. ip_key_of ip 64) ` set [IpV4 1] \<and>
   snd (try_acquire_at (IpV4 2) 1000000000000000000
     (wld_adm (fst (run_out adm_step (visit [IpV4 1] 5) (adm_world 4 4 8 1 64))))) = Inl RejectTable"
proof -
  have k: "ip_key_of (IpV4 2) 64 \<notin> (\<lambda>ip. ip_key_of ip 64) ` set [IpV4 1]"
    by (simp add: ip_key_of_def)
  show ?thesis
    using admission_table_starves [of 64 "[IpV4 1]" 1 4 8 "IpV4 2" 5 4 1000000000000000000] k
    by (simp add: Let_def del: run_out.simps)
qed

end
