(* ===== verification/Preflight.thy ===== *)
theory Preflight
  imports Net_Address Wire_Codec
begin

text \<open>
  Address validation before any state is kept for a peer: \<^verbatim>\<open>cookie.rs\<close> and \<^verbatim>\<open>kcp_preflight.rs\<close> of
  \<^verbatim>\<open>rnet-transport\<close>. The keyed hash of a guard is the parameter \<open>hmac\<close>; \<^verbatim>\<open>hmac::verify\<close> compares
  with the tag that \<^verbatim>\<open>hmac::sign\<close> computes.
\<close>

section \<open>Cookies\<close>

definition COOKIE_LEN :: nat where "COOKIE_LEN = 40"

text \<open>\<open>now_secs\<close> is the time since the epoch, zero for a clock before it.\<close>

definition cookie_time_bucket :: "nat \<Rightarrow> u64" where
  "cookie_time_bucket now_secs = word_of_nat (now_secs div 60)"

definition cookie_input :: "socket_addr \<Rightarrow> u64 \<Rightarrow> bytes" where
  "cookie_input peer bucket = ip_octets (sock_ip peer) @ u16_be (sock_port peer) @ u64_be bucket"

definition cookie_sign :: "(bytes \<Rightarrow> bytes) \<Rightarrow> socket_addr \<Rightarrow> u64 \<Rightarrow> bytes" where
  "cookie_sign hmac peer bucket = hmac (cookie_input peer bucket)"

definition cookie_issue :: "(bytes \<Rightarrow> bytes) \<Rightarrow> nat \<Rightarrow> socket_addr \<Rightarrow> bytes" where
  "cookie_issue hmac now_secs peer =
     (let bucket = cookie_time_bucket now_secs in u64_be bucket @ cookie_sign hmac peer bucket)"

definition cookie_validate :: "(bytes \<Rightarrow> bytes) \<Rightarrow> nat \<Rightarrow> socket_addr \<Rightarrow> bytes \<Rightarrow> bool" where
  "cookie_validate hmac now_secs peer cookie =
     (if length cookie \<noteq> COOKIE_LEN then False
      else
        let bucket = u64_from_be (take 8 cookie); current = cookie_time_bucket now_secs
        in if bucket \<noteq> current \<and> sat_add (unat bucket) 1 \<noteq> unat current then False
           else hmac (cookie_input peer bucket) = drop 8 cookie)"

section \<open>Preflight messages\<close>

definition PF_MAGIC :: bytes where "PF_MAGIC = [82, 78, 75, 50]"
definition PF_HELLO :: u8 where "PF_HELLO = 1"
definition PF_CHALLENGE :: u8 where "PF_CHALLENGE = 2"
definition PF_HEADER_LEN :: nat where "PF_HEADER_LEN = 9"

datatype preflight = Hello u32 bytes | Challenge u32 bytes

text \<open>\<open>drawn\<close> is what the system random source filled in, or \<open>None\<close> when it failed.\<close>

definition random_conv :: "bytes option \<Rightarrow> u32 result" where
  "random_conv drawn = (case drawn of
       None \<Rightarrow> Inl CryptoError
     | Some bs \<Rightarrow> let conv = u32_from_be bs in Inr (if conv = 0 then 1 else conv))"

definition pf_encode :: "u8 \<Rightarrow> u32 \<Rightarrow> bytes \<Rightarrow> bytes" where
  "pf_encode kind conv cookie = PF_MAGIC @ [kind] @ u32_be conv @ cookie"

definition encode_hello :: "u32 \<Rightarrow> bytes \<Rightarrow> bytes" where
  "encode_hello conv cookie = pf_encode PF_HELLO conv cookie"

definition encode_challenge :: "u32 \<Rightarrow> bytes \<Rightarrow> bytes" where
  "encode_challenge conv cookie = pf_encode PF_CHALLENGE conv cookie"

definition pf_decode :: "bytes \<Rightarrow> preflight option" where
  "pf_decode packet =
     (if take 4 packet \<noteq> PF_MAGIC then None
      else
        let payload = drop 4 packet
        in if length payload < 5 then None
           else
             let kind = payload ! 0; conv = u32_from_be (subslice 1 5 payload); cookie = drop 5 payload
             in if conv = 0 then None
                else if kind = PF_HELLO \<and> (length cookie = 0 \<or> length cookie = COOKIE_LEN)
                  then Some (Hello conv cookie)
                else if kind = PF_CHALLENGE \<and> length cookie = COOKIE_LEN then Some (Challenge conv cookie)
                else None)"

section \<open>The codec contract\<close>

fun pf_valid :: "preflight \<Rightarrow> bool" where
  "pf_valid (Hello conv cookie) \<longleftrightarrow> conv \<noteq> 0 \<and> (cookie = [] \<or> length cookie = COOKIE_LEN)"
| "pf_valid (Challenge conv cookie) \<longleftrightarrow> conv \<noteq> 0 \<and> length cookie = COOKIE_LEN"

fun pf_message :: "preflight \<Rightarrow> bytes" where
  "pf_message (Hello conv cookie) = encode_hello conv cookie"
| "pf_message (Challenge conv cookie) = encode_challenge conv cookie"

lemmas pf_defs = encode_hello_def encode_challenge_def pf_encode_def PF_MAGIC_def PF_HELLO_def
  PF_CHALLENGE_def COOKIE_LEN_def

lemma pf_decode_message: "pf_valid p \<Longrightarrow> pf_decode (pf_message p) = Some p"
  by (cases p) (auto simp: pf_decode_def pf_defs)

lemma pf_message_decode:
  assumes "pf_decode packet = Some p"
  shows "pf_message p = packet \<and> pf_valid p"
proof -
  have parts: "5 \<le> length bs \<Longrightarrow> bs = [bs ! 0] @ subslice 1 5 bs @ drop 5 bs" for bs :: bytes
    by (cases bs) (simp_all add: subslice_def)
  have m: "take 4 packet = PF_MAGIC" and n: "9 \<le> length packet"
    using assms by (auto simp: pf_decode_def Let_def split: if_splits)
  have "packet = PF_MAGIC @ drop 4 packet" using m append_take_drop_id [of 4 packet] by simp
  also have "drop 4 packet = [drop 4 packet ! 0] @ subslice 1 5 (drop 4 packet) @ drop 5 (drop 4 packet)"
    using n parts [of "drop 4 packet"] by simp
  finally have "packet = PF_MAGIC @ [drop 4 packet ! 0] @ u32_be (u32_from_be (subslice 1 5 (drop 4 packet))) @
      drop 5 (drop 4 packet)"
    using n by simp
  then show ?thesis
    using assms by (auto simp: pf_decode_def pf_encode_def encode_hello_def encode_challenge_def Let_def
        split: if_splits)
qed

interpretation preflight_msg:
  wire_codec "\<lambda>_ p. Inr (pf_message p)" "\<lambda>_ bs. case pf_decode bs of None \<Rightarrow> Inl ProtocolError | Some p \<Rightarrow> Inr p"
    "\<lambda>_. True" pf_valid
  by unfold_locales (auto simp: pf_decode_message dest: pf_message_decode split: option.splits)

section \<open>What a cookie proves\<close>

definition same_endpoint :: "socket_addr \<Rightarrow> socket_addr \<Rightarrow> bool" where
  "same_endpoint p q \<longleftrightarrow> sock_ip p = sock_ip q \<and> sock_port p = sock_port q"

lemma length_ip_octets: "length (ip_octets ip) = (case ip of IpV4 _ \<Rightarrow> 4 | IpV6 _ _ \<Rightarrow> 16)"
  by (cases ip) simp_all

lemma cookie_input_inject:
  "cookie_input p b = cookie_input q c \<longleftrightarrow> same_endpoint p q \<and> b = c"
proof
  assume eq: "cookie_input p b = cookie_input q c"
  then have "length (cookie_input p b) = length (cookie_input q c)" by simp
  then have "length (ip_octets (sock_ip p)) = length (ip_octets (sock_ip q))" by (simp add: cookie_input_def)
  with eq show "same_endpoint p q \<and> b = c"
    by (auto simp: cookie_input_def same_endpoint_def intro: ip_octets_inject)
qed (simp add: cookie_input_def same_endpoint_def)

text \<open>What the hash has to provide: tags of 32 bytes, and no collision between cookie inputs.\<close>

definition sound_hmac :: "(bytes \<Rightarrow> bytes) \<Rightarrow> bool" where
  "sound_hmac hmac \<longleftrightarrow> (\<forall>m. length (hmac m) = 32) \<and> inj_on hmac {m. length m \<le> 26}"

lemma length_cookie_input: "length (cookie_input p b) \<le> 26"
  by (cases p) (simp_all add: cookie_input_def)

lemma sound_hmac_inject:
  "sound_hmac hmac \<Longrightarrow> hmac (cookie_input p b) = hmac (cookie_input q c) \<longleftrightarrow> same_endpoint p q \<and> b = c"
  unfolding cookie_input_inject [symmetric]
  by (rule inj_on_eq_iff [of _ "{m. length m \<le> 26}"]) (simp_all add: sound_hmac_def length_cookie_input)

lemma unat_bucket: "t < 2 ^ 64 \<Longrightarrow> unat (cookie_time_bucket t) = t div 60"
  by (simp add: cookie_time_bucket_def unat_of_nat take_bit_nat_eq_self_iff flip: take_bit_eq_mod)

lemma cookie_validate_issued:
  assumes "sound_hmac hmac" and "t < 2 ^ 64" and "now < 2 ^ 64"
  shows "cookie_validate hmac now peer (cookie_issue hmac t p) \<longleftrightarrow>
    same_endpoint p peer \<and> (now div 60 = t div 60 \<or> now div 60 = t div 60 + 1)"
proof -
  let ?b = "cookie_time_bucket t"
  have len: "length (hmac m) = 32" for m using assms(1) by (simp add: sound_hmac_def)
  have "?b = cookie_time_bucket now \<longleftrightarrow> t div 60 = now div 60"
    unfolding word_unat_eq_iff unat_bucket [OF assms(2)] unat_bucket [OF assms(3)] ..
  moreover have "sat_add (unat ?b) 1 = unat (cookie_time_bucket now) \<longleftrightarrow> t div 60 + 1 = now div 60"
    unfolding unat_bucket [OF assms(2)] unat_bucket [OF assms(3)]
    using assms(2) by (simp add: sat_add_def u64_max_def usize_max_def)
  moreover have "hmac (cookie_input peer ?b) = hmac (cookie_input p ?b) \<longleftrightarrow> same_endpoint p peer"
    using sound_hmac_inject [OF assms(1)] by (auto simp: same_endpoint_def)
  ultimately show ?thesis
    by (auto simp: cookie_validate_def cookie_issue_def cookie_sign_def Let_def len COOKIE_LEN_def)
qed

text \<open>A hash that satisfies the contract.\<close>

definition padded_tag :: "bytes \<Rightarrow> bytes" where
  "padded_tag m = take 32 (word_of_nat (length m) # m @ replicate 31 0)"

lemma padded_tag_sound: "sound_hmac padded_tag"
proof -
  have "m = m'" if "length m \<le> 26" "length m' \<le> 26" "padded_tag m = padded_tag m'" for m m' :: bytes
  proof -
    have "(word_of_nat (length m) :: u8) = word_of_nat (length m')"
      using that(3) by (simp add: padded_tag_def)
    then have "length m = length m'"
      using that(1,2) by (simp add: word_unat_eq_iff unat_of_nat)
    then show "m = m'" using that by (simp add: padded_tag_def)
  qed
  then show ?thesis by (auto simp: sound_hmac_def padded_tag_def intro: inj_onI)
qed

end
