(* ===== verification/Datagram_Wire.thy ===== *)
theory Datagram_Wire
  imports Kcp_Adapter_Safety Security_Records Event_Queue Net_Address "HOL-Library.Product_Lexorder"
begin

text \<open>
  \<^verbatim>\<open>adaptive_wire.rs\<close> of \<^verbatim>\<open>rnet-transport\<close>: records over raw UDP with stop-and-wait control records and
  a response cache, or over one KCP engine per peer with a shared byte budget. A call of the socket is an entry of
  the output; whether it succeeded is an argument. The binary heap of deadlines is a sorted
  list, the telemetry registry and the metrics are not modelled.
\<close>

definition DW_RETRY_INTERVAL :: duration where "DW_RETRY_INTERVAL = millis 100"
definition MAX_RETRY_ATTEMPTS :: nat where "MAX_RETRY_ATTEMPTS = 50"
definition MAX_KCP_UPDATES_PER_FLUSH :: nat where "MAX_KCP_UPDATES_PER_FLUSH = 256"

record pending_record =
  pr_bytes :: bytes
  pr_last_sent :: instant
  pr_attempts :: nat

record seen_record =
  sr_request :: bytes
  sr_response :: "bytes option"

record dgram_wire =
  dw_kind :: transport
  dw_mtu :: nat
  dw_max_peers :: nat
  dw_max_session :: nat
  dw_max_runtime :: nat
  dw_kcp_queued :: nat
  dw_engines :: "(socket_addr, rust_kcp) table"
  dw_authorized :: "(socket_addr, u32) table"
  dw_deadlines :: "(nat \<times> socket_addr) list"
  dw_scheduled :: "(socket_addr, nat) table"
  dw_pending :: "(socket_addr, pending_record) table"
  dw_seen :: "(socket_addr, seen_record) table"
  dw_active_input :: "(socket_addr \<times> bytes) option"
  dw_active_pending :: "(socket_addr \<times> bytes) option"

type_synonym packets = "(socket_addr \<times> bytes) list"

definition dw_new :: "transport \<Rightarrow> nat \<Rightarrow> nat \<Rightarrow> nat \<Rightarrow> nat \<Rightarrow> dgram_wire" where
  "dw_new kind mtu max_peers max_session max_runtime =
     \<lparr>dw_kind = kind, dw_mtu = mtu, dw_max_peers = max_peers, dw_max_session = max_session,
      dw_max_runtime = max_runtime, dw_kcp_queued = 0, dw_engines = fmempty, dw_authorized = fmempty,
      dw_deadlines = [], dw_scheduled = fmempty, dw_pending = fmempty, dw_seen = fmempty,
      dw_active_input = None, dw_active_pending = None\<rparr>"

definition clear_of :: "socket_addr \<Rightarrow> (socket_addr \<times> bytes) option \<Rightarrow> (socket_addr \<times> bytes) option" where
  "clear_of peer value = (case value of Some (p, bs) \<Rightarrow> if p = peer then None else Some (p, bs) | None \<Rightarrow> None)"

definition remove_peer :: "socket_addr \<Rightarrow> dgram_wire \<Rightarrow> dgram_wire" where
  "remove_peer peer w =
     (let w1 = (case fmlookup (dw_engines w) peer of
                  Some e \<Rightarrow> w\<lparr>dw_engines := fmdrop peer (dw_engines w), dw_kcp_queued := dw_kcp_queued w - queued_bytes e\<rparr>
                | None \<Rightarrow> w)
      in w1\<lparr>dw_authorized := fmdrop peer (dw_authorized w1), dw_scheduled := fmdrop peer (dw_scheduled w1),
            dw_pending := fmdrop peer (dw_pending w1), dw_seen := fmdrop peer (dw_seen w1),
            dw_active_input := clear_of peer (dw_active_input w1),
            dw_active_pending := clear_of peer (dw_active_pending w1)\<rparr>)"

definition authorize_peer :: "socket_addr \<Rightarrow> u32 \<Rightarrow> dgram_wire \<Rightarrow> dgram_wire \<times> unit result" where
  "authorize_peer peer conv w =
     (if conv = 0 then (w, Inl InvalidArgument)
      else if fmlookup (dw_engines w) peer \<noteq> None then (w, Inr ())
      else case fmlookup (dw_authorized w) peer of
        Some current \<Rightarrow> (w, if current = conv then Inr () else Inl ProtocolError)
      | None \<Rightarrow>
          if dw_max_peers w \<le> sat_add (table_len (dw_engines w)) (table_len (dw_authorized w))
          then (w, Inl RateLimited)
          else (w\<lparr>dw_authorized := fmupd peer conv (dw_authorized w)\<rparr>, Inr ()))"

definition has_peer :: "socket_addr \<Rightarrow> dgram_wire \<Rightarrow> bool" where
  "has_peer peer w \<longleftrightarrow> fmlookup (dw_engines w) peer \<noteq> None"

definition revoke_authorization :: "socket_addr \<Rightarrow> dgram_wire \<Rightarrow> dgram_wire" where
  "revoke_authorization peer w = w\<lparr>dw_authorized := fmdrop peer (dw_authorized w)\<rparr>"

definition reconcile_kcp_bytes :: "nat \<Rightarrow> nat \<Rightarrow> dgram_wire \<Rightarrow> dgram_wire" where
  "reconcile_kcp_bytes before after w = w\<lparr>dw_kcp_queued := sat_add (dw_kcp_queued w - before) after\<rparr>"

definition schedule_update :: "socket_addr \<Rightarrow> nat \<Rightarrow> dgram_wire \<Rightarrow> dgram_wire" where
  "schedule_update peer deadline w =
     w\<lparr>dw_scheduled := fmupd peer deadline (dw_scheduled w),
       dw_deadlines := insort (deadline, peer) (dw_deadlines w)\<rparr>"

section \<open>Receiving\<close>

lemma recv_merge_shorter: "q \<noteq> [] \<Longrightarrow> length (snd (recv_merge room acc q)) < length q"
proof (induction room acc q rule: recv_merge.induct)
  case (2 room acc s q)
  then show ?case by (cases "q = []") (auto intro: less_SucI)
qed simp

lemma move_avail_length:
  "length (fst (snd (move_avail wnd nxt q b))) + length (snd (snd (move_avail wnd nxt q b))) = length q + length b"
  by (induction wnd nxt q b rule: move_avail.induct) auto

lemma engine_recv_shorter:
  assumes "engine_recv e = (e', Inr (Some msg))"
  shows "length (k_rcv_queue (inner e')) + length (k_rcv_buf (inner e')) <
    length (k_rcv_queue (inner e)) + length (k_rcv_buf (inner e))"
proof -
  have "length (k_rcv_queue (move_buf k)) + length (k_rcv_buf (move_buf k)) =
      length (k_rcv_queue k) + length (k_rcv_buf k)" for k
    using move_avail_length [of "k_rcv_wnd k" "k_rcv_nxt k" "k_rcv_queue k" "k_rcv_buf k"]
    by (simp add: move_buf_def case_prod_unfold Let_def)
  then show ?thesis
    using assms recv_merge_shorter [of "k_rcv_queue (inner e)"]
    by (auto simp: engine_recv_def kcp_recv_def Let_def case_prod_unfold split: if_splits option.splits sum.splits
        kcp_error.splits prod.splits)
qed

text \<open>The loop that takes every complete record out of the engine.\<close>

function recv_all :: "rust_kcp \<Rightarrow> rust_kcp \<times> bytes list result" where
  "recv_all e = (case engine_recv e of
       (e', Inl err) \<Rightarrow> (e', Inl err)
     | (e', Inr None) \<Rightarrow> (e', Inr [])
     | (e', Inr (Some record)) \<Rightarrow>
         (case recv_all e' of
            (e'', Inl err) \<Rightarrow> (e'', Inl err)
          | (e'', Inr records) \<Rightarrow> (e'', Inr (record # records))))"
  by auto
termination
  by (relation "measure (\<lambda>e. length (k_rcv_queue (inner e)) + length (k_rcv_buf (inner e)))")
    (auto dest: engine_recv_shorter [OF sym])

declare recv_all.simps [simp del]

definition receive_finish :: "socket_addr \<Rightarrow> rust_kcp \<Rightarrow> nat \<Rightarrow> dgram_wire \<Rightarrow> dgram_wire \<times> bytes list result" where
  "receive_finish peer e before w =
     (let (e', r) = recv_all e; w1 = w\<lparr>dw_engines := fmupd peer e' (dw_engines w)\<rparr>
      in case r of
           Inl err \<Rightarrow> (w1, Inl err)
         | Inr records \<Rightarrow>
             (schedule_update peer (next_update_ms e') (reconcile_kcp_bytes before (queued_bytes e') w1),
              Inr records))"

definition dw_receive :: "socket_addr \<Rightarrow> bytes \<Rightarrow> nat \<Rightarrow> dgram_wire \<Rightarrow> dgram_wire \<times> bytes list result" where
  "dw_receive peer packet now w =
     (if dw_kind w \<noteq> Kcp then (w, Inr [packet])
      else case fmlookup (dw_engines w) peer of
        Some e \<Rightarrow>
          (case engine_input packet now e of
             (e1, Inl err) \<Rightarrow> (w\<lparr>dw_engines := fmupd peer e1 (dw_engines w)\<rparr>, Inl err)
           | (e1, Inr _) \<Rightarrow> receive_finish peer e1 (queued_bytes e) w)
      | None \<Rightarrow>
          (case fmlookup (dw_authorized w) peer of
             None \<Rightarrow> (w, Inl AuthRejected)
           | Some conv \<Rightarrow>
               let w1 = w\<lparr>dw_authorized := fmdrop peer (dw_authorized w)\<rparr>
               in if dw_max_peers w \<le> table_len (dw_engines w) then (w1, Inl RateLimited)
                  else case new_with_limits conv (dw_mtu w) (dw_max_session w) of
                    Inl err \<Rightarrow> (w1, Inl err)
                  | Inr e \<Rightarrow>
                      (case engine_input packet now e of
                         (_, Inl err) \<Rightarrow> (w1, Inl err)
                       | (e1, Inr _) \<Rightarrow> receive_finish peer e1 (queued_bytes e1) w1)))"

section \<open>Sending\<close>

definition wire_engine :: "socket_addr \<Rightarrow> dgram_wire \<Rightarrow> dgram_wire \<times> rust_kcp result" where
  "wire_engine peer w = (case fmlookup (dw_engines w) peer of
       Some e \<Rightarrow> (w, Inr e)
     | None \<Rightarrow>
         (case fmlookup (dw_authorized w) peer of
            None \<Rightarrow> (w, Inl AuthRejected)
          | Some conv \<Rightarrow>
              let w1 = w\<lparr>dw_authorized := fmdrop peer (dw_authorized w)\<rparr>
              in if dw_max_peers w \<le> table_len (dw_engines w) then (w1, Inl RateLimited)
                 else case new_with_limits conv (dw_mtu w) (dw_max_session w) of
                   Inl err \<Rightarrow> (w1, Inl err)
                 | Inr e \<Rightarrow> (w1\<lparr>dw_engines := fmupd peer e (dw_engines w1)\<rparr>, Inr e)))"

text \<open>\<open>None\<close> is a panic of the engine.\<close>

definition queue_kcp :: "socket_addr \<Rightarrow> bytes \<Rightarrow> bool \<Rightarrow> dgram_wire \<Rightarrow> (dgram_wire \<times> unit result) option" where
  "queue_kcp peer bs control w =
     (let current_total = dw_kcp_queued w;
          data_runtime_limit = dw_max_runtime w - min (dw_max_runtime w div 16) (64 * 1024);
          data_session_limit = dw_max_session w - min (dw_max_session w div 16) (4 * 1024);
          (w1, r) = wire_engine peer w
      in case r of
           Inl err \<Rightarrow> Some (w1, Inl err)
         | Inr e \<Rightarrow>
             let before = queued_bytes e;
                 added = queued_bytes_for (length bs) e;
                 runtime_limit = (if control then dw_max_runtime w else data_runtime_limit);
                 session_limit = (if control then dw_max_session w else data_session_limit)
             in if runtime_limit < sat_add current_total added \<or> session_limit < sat_add before added
                then Some (w1, Inl WouldBlock)
                else case engine_send bs e of
                  None \<Rightarrow> None
                | Some (e1, Inl err) \<Rightarrow> Some (w1\<lparr>dw_engines := fmupd peer e1 (dw_engines w1)\<rparr>, Inl err)
                | Some (e1, Inr _) \<Rightarrow>
                    Some (reconcile_kcp_bytes before (queued_bytes e1)
                            (w1\<lparr>dw_engines := fmupd peer e1 (dw_engines w1)\<rparr>), Inr ()))"

definition kcp_send_record :: "socket_addr \<Rightarrow> bytes \<Rightarrow> bool \<Rightarrow> nat \<Rightarrow> dgram_wire \<Rightarrow>
    (dgram_wire \<times> packets \<times> unit result) option" where
  "kcp_send_record peer bs control now w = (case queue_kcp peer bs control w of
       None \<Rightarrow> None
     | Some (w1, Inl err) \<Rightarrow> Some (w1, [], Inl err)
     | Some (w1, Inr _) \<Rightarrow> Some (schedule_update peer now w1, [], Inr ()))"

text \<open>\<^verbatim>\<open>send\<close>: \<open>ok\<close> says whether the socket accepted the packet.\<close>

definition dw_send :: "socket_addr \<Rightarrow> sec_record \<Rightarrow> nat \<Rightarrow> bool \<Rightarrow> nat \<Rightarrow> dgram_wire \<Rightarrow>
    (dgram_wire \<times> packets \<times> unit result) option" where
  "dw_send peer rec max_len ok now w =
     (case encode_record rec (if dw_kind w = Kcp then u32_max else max_len) of
        Inl err \<Rightarrow> Some (w, [], Inl err)
      | Inr bs \<Rightarrow>
          if dw_kind w = Kcp then kcp_send_record peer bs False now w
          else Some (w, [(peer, bs)], if ok then Inr () else Inl IoError))"

definition remember_response :: "socket_addr \<Rightarrow> bytes \<Rightarrow> dgram_wire \<Rightarrow> dgram_wire" where
  "remember_response peer bs w = (case dw_active_input w of
       None \<Rightarrow> w
     | Some (input_peer, request) \<Rightarrow>
         if input_peer = peer \<and> (table_len (dw_seen w) < dw_max_peers w \<or> fmlookup (dw_seen w) peer \<noteq> None)
         then w\<lparr>dw_seen := fmupd peer \<lparr>sr_request = request, sr_response = Some bs\<rparr> (dw_seen w)\<rparr>
         else w)"

definition send_reliable :: "socket_addr \<Rightarrow> sec_record \<Rightarrow> nat \<Rightarrow> bool \<Rightarrow> nat \<Rightarrow> instant \<Rightarrow> dgram_wire \<Rightarrow>
    (dgram_wire \<times> packets \<times> unit result) option" where
  "send_reliable peer rec max_len ok ms now w = (case encode_record rec max_len of
       Inl err \<Rightarrow> Some (w, [], Inl err)
     | Inr bs \<Rightarrow>
         if dw_kind w = Kcp then kcp_send_record peer bs True ms w
         else if dw_max_peers w \<le> table_len (dw_pending w) \<and> fmlookup (dw_pending w) peer = None
           then Some (w, [], Inl RateLimited)
         else if \<not> ok then Some (w, [(peer, bs)], Inl IoError)
         else
           Some (remember_response peer bs
             (w\<lparr>dw_pending := fmupd peer \<lparr>pr_bytes = bs, pr_last_sent = now, pr_attempts = 1\<rparr> (dw_pending w)\<rparr>),
             [(peer, bs)], Inr ()))"

definition send_response :: "socket_addr \<Rightarrow> sec_record \<Rightarrow> nat \<Rightarrow> bool \<Rightarrow> nat \<Rightarrow> dgram_wire \<Rightarrow>
    (dgram_wire \<times> packets \<times> unit result) option" where
  "send_response peer rec max_len ok ms w = (case encode_record rec max_len of
       Inl err \<Rightarrow> Some (w, [], Inl err)
     | Inr bs \<Rightarrow>
         if dw_kind w = Kcp then kcp_send_record peer bs True ms w
         else if \<not> ok then Some (w, [(peer, bs)], Inl IoError)
         else Some (remember_response peer bs w, [(peer, bs)], Inr ()))"

section \<open>Duplicates and retransmission\<close>

definition begin_input :: "socket_addr \<Rightarrow> bytes \<Rightarrow> dgram_wire \<Rightarrow> dgram_wire \<times> bool \<times> bytes option" where
  "begin_input peer bs w =
     (if dw_kind w = Kcp then (w, False, None)
      else case fmlookup (dw_seen w) peer of
        Some seen \<Rightarrow>
          if sr_request seen = bs then (w, True, sr_response seen)
          else (w\<lparr>dw_seen := fmupd peer \<lparr>sr_request = bs, sr_response = None\<rparr> (dw_seen w),
                 dw_active_input := Some (peer, bs),
                 dw_active_pending := map_option (\<lambda>p. (peer, pr_bytes p)) (fmlookup (dw_pending w) peer)\<rparr>, False, None)
      | None \<Rightarrow>
          (w\<lparr>dw_seen := (if table_len (dw_seen w) < dw_max_peers w
                         then fmupd peer \<lparr>sr_request = bs, sr_response = None\<rparr> (dw_seen w) else dw_seen w),
             dw_active_input := Some (peer, bs),
             dw_active_pending := map_option (\<lambda>p. (peer, pr_bytes p)) (fmlookup (dw_pending w) peer)\<rparr>, False, None))"

definition end_input :: "bool \<Rightarrow> dgram_wire \<Rightarrow> dgram_wire" where
  "end_input success w =
     (let pending = (case (success, dw_active_pending w) of
            (True, Some (peer, old_bytes)) \<Rightarrow>
              (case fmlookup (dw_pending w) peer of
                 Some p \<Rightarrow> if pr_bytes p = old_bytes then fmdrop peer (dw_pending w) else dw_pending w
               | None \<Rightarrow> dw_pending w)
          | _ \<Rightarrow> dw_pending w)
      in w\<lparr>dw_pending := pending, dw_active_input := None, dw_active_pending := None\<rparr>)"

definition retry_one :: "instant \<Rightarrow> socket_addr \<Rightarrow> dgram_wire \<times> packets \<times> socket_addr list \<Rightarrow>
    dgram_wire \<times> packets \<times> socket_addr list" where
  "retry_one now peer = (\<lambda>(w, out, expired).
     case fmlookup (dw_pending w) peer of
       None \<Rightarrow> (w, out, expired)
     | Some p \<Rightarrow>
         if now - pr_last_sent p < DW_RETRY_INTERVAL then (w, out, expired)
         else if MAX_RETRY_ATTEMPTS \<le> pr_attempts p
           then (w\<lparr>dw_pending := fmdrop peer (dw_pending w)\<rparr>, out, expired @ [peer])
         else (w\<lparr>dw_pending := fmupd peer (p\<lparr>pr_last_sent := now, pr_attempts := pr_attempts p + 1\<rparr>) (dw_pending w)\<rparr>,
               out @ [(peer, pr_bytes p)], expired))"

definition dw_retry :: "instant \<Rightarrow> dgram_wire \<Rightarrow> dgram_wire \<times> packets \<times> socket_addr list" where
  "dw_retry now w =
     (if dw_kind w = Kcp then (w, [], [])
      else fold (retry_one now) (table_keys (dw_pending w)) (w, [], []))"

section \<open>Flushing\<close>

text \<open>One iteration either drops a heap entry or uses up one of the \<open>left\<close> updates.\<close>

function flush_loop :: "nat \<Rightarrow> nat \<Rightarrow> dgram_wire \<Rightarrow> packets \<Rightarrow> dgram_wire \<times> packets" where
  "flush_loop left now w out =
     (if left = 0 then (w, out)
      else case dw_deadlines w of
        [] \<Rightarrow> (w, out)
      | (deadline, peer) # rest \<Rightarrow>
          if now < deadline then (w, out)
          else
            let w1 = w\<lparr>dw_deadlines := rest\<rparr>
            in if fmlookup (dw_scheduled w1) peer \<noteq> Some deadline then flush_loop left now w1 out
               else case fmlookup (dw_engines w1) peer of
                 None \<Rightarrow> flush_loop left now (w1\<lparr>dw_scheduled := fmdrop peer (dw_scheduled w1)\<rparr>) out
               | Some e \<Rightarrow>
                   let (e1, packets) = engine_update now e
                   in flush_loop (left - 1) now
                        (schedule_update peer (next_update_ms e1)
                           (w1\<lparr>dw_engines := fmupd peer e1 (dw_engines w1)\<rparr>))
                        (out @ map (Pair peer) packets))"
  by pat_completeness auto
termination
  by (relation "measure (\<lambda>(left, now, w, out). left + length (dw_deadlines w))")
    (auto simp: schedule_update_def)

declare flush_loop.simps [simp del]

definition dw_flush :: "nat \<Rightarrow> dgram_wire \<Rightarrow> dgram_wire \<times> packets" where
  "dw_flush now w = (if dw_kind w \<noteq> Kcp then (w, []) else flush_loop MAX_KCP_UPDATES_PER_FLUSH now w [])"

end
