(* ===== verification/Datagram_Budget.thy ===== *)
theory Datagram_Budget
  imports Datagram_Wire
begin

text \<open>
  The KCP side of \<^verbatim>\<open>adaptive_wire.rs\<close> over arbitrary sequences of its operations: the byte budget covers
  what the engines hold, the peer limit holds, no call panics, and no engine with unacknowledged data
  is forgotten by the update schedule. The budget counter can only be too high: bytes that a failing input has
  already released are never given back.
\<close>

section \<open>One engine\<close>

definition engine_fits :: "nat \<Rightarrow> nat \<Rightarrow> rust_kcp \<Rightarrow> bool" where
  "engine_fits mss lim e \<longleftrightarrow> adapter_ok mss lim e \<and> wait_snd (inner e) * mss \<le> lim"

lemma engine_fits_queued:
  "engine_fits mss lim e \<Longrightarrow> lim < usize_max \<Longrightarrow> queued_bytes e = wait_snd (inner e) * mss"
  by (simp add: engine_fits_def adapter_ok_def queued_bytes_def sat_mul_def usize_max_def u64_max_def)

lemma engine_fits_shrink:
  assumes "engine_fits mss lim e" and "adapter_ok mss lim e'" and "wait_snd (inner e') \<le> wait_snd (inner e)"
  shows "engine_fits mss lim e'"
proof -
  have "wait_snd (inner e') * mss \<le> wait_snd (inner e) * mss" using assms(3) by (rule mult_le_mono1)
  also have "\<dots> \<le> lim" using assms(1) by (simp add: engine_fits_def)
  finally show ?thesis using assms(2) by (simp add: engine_fits_def)
qed

lemma queued_bytes_mono:
  assumes "engine_fits mss lim e" and "engine_fits mss lim e'" and "lim < usize_max"
    and "wait_snd (inner e') \<le> wait_snd (inner e)"
  shows "queued_bytes e' \<le> queued_bytes e"
  using assms by (simp add: engine_fits_queued)

lemma engine_fits_input:
  assumes "engine_fits mss lim e" and "engine_input packet now e = (e', r)"
  shows "engine_fits mss lim e' \<and> wait_snd (inner e') \<le> wait_snd (inner e) \<and> (r = Inr () \<or> r = Inl ProtocolError)"
  using adapter_input_ok [of mss lim e packet now] engine_fits_shrink [OF assms(1), of e'] assms
  by (auto simp: engine_fits_def)

lemma engine_fits_update:
  assumes "engine_fits mss lim e"
  shows "engine_fits mss lim (fst (engine_update now e)) \<and>
    wait_snd (inner (fst (engine_update now e))) = wait_snd (inner e)"
  using adapter_update_ok [of mss lim e now] assms by (simp add: engine_fits_def)

lemma engine_fits_recv_all:
  assumes "engine_fits mss lim e"
  shows "\<exists>e' records. recv_all e = (e', Inr records) \<and> engine_fits mss lim e' \<and>
    wait_snd (inner e') \<le> wait_snd (inner e)"
  using assms
proof (induction e rule: recv_all.induct)
  case (1 e)
  obtain e1 r where r: "engine_recv e = (e1, r)" by (cases "engine_recv e")
  have ok: "adapter_ok mss lim e1" "\<not> isl r" "wait_snd (inner e1) \<le> wait_snd (inner e)"
    using adapter_recv_ok [of mss lim e] 1(2) r by (auto simp: engine_fits_def)
  have fits: "engine_fits mss lim e1" by (rule engine_fits_shrink [OF 1(2) ok(1,3)])
  from ok(2) obtain m where m: "r = Inr m" by (cases r) auto
  show ?case
  proof (cases m)
    case None
    then show ?thesis using fits ok(3) r m by (subst recv_all.simps) simp
  next
    case (Some msg)
    obtain e2 records where "recv_all e1 = (e2, Inr records)" "engine_fits mss lim e2"
        "wait_snd (inner e2) \<le> wait_snd (inner e1)"
      using 1(1) [OF r [symmetric] m Some fits] by blast
    then show ?thesis using r m Some ok(3) by (subst recv_all.simps) simp
  qed
qed

lemma engine_fits_new:
  "new_with_limits conv mtu lim = Inr e \<Longrightarrow> engine_fits (mtu - 24) lim e \<and> wait_snd (inner e) = 0"
  using adapter_start_ok [of conv mtu lim e]
  by (auto simp: engine_fits_def new_with_limits_def set_mtu_def set_wndsize_def set_nodelay_def kcp_new_def
      kcp_construct_def wait_snd_def split: if_splits)

lemma engine_fits_send:
  assumes e: "engine_fits mss lim e" and lim: "lim < usize_max" and "payload \<noteq> []"
    and room: "queued_bytes e + queued_bytes_for (length payload) e \<le> lim"
  shows "\<exists>e' r. engine_send payload e = Some (e', r) \<and> engine_fits mss lim e' \<and>
    (isl r \<and> e' = e \<or> r = Inr () \<and> queued_bytes e' = queued_bytes e + queued_bytes_for (length payload) e \<and>
       wait_snd (inner e) \<le> wait_snd (inner e'))"
proof -
  let ?need = "div_ceil (length payload) mss"
  have a: "adapter_ok mss lim e" "\<not> k_stream (inner e)" "k_mss (inner e) = mss" "0 < k_mss (inner e)"
    using e by (simp_all add: engine_fits_def adapter_ok_def)
  obtain e' r where s: "engine_send payload e = Some (e', r)" "adapter_ok mss lim e'"
    using adapter_send_ok [OF a(1) lim] by blast
  have f: "\<not> engine_failed e" "max_queued_bytes e = lim" using a(1) by (simp_all add: adapter_ok_def)
  have nb: "\<not> lim < sat_add (queued_bytes e) (queued_bytes_for (length payload) e)"
    using room by (simp add: sat_add_def min_def usize_max_def u64_max_def)
  obtain k' x where k: "kcp_send payload (inner e) = Some (k', x)"
    using s(1) f nb by (auto simp: engine_send_def split: option.splits)
  have e': "e' = e\<lparr>inner := k'\<rparr>" "isl r = isl x" "\<not> isl r \<longrightarrow> r = Inr ()"
    using s(1) k f nb by (auto simp: engine_send_def split: sum.splits)
  from kcp_send_grows [OF a(2,4) k] show ?thesis
  proof (elim disjE exE conjE)
    assume "x = Inl UserBufTooBig" "k' = inner e"
    then show ?thesis using s(1) e e' by auto
  next
    fix n segs
    assume x: "x = Inr n" and k': "k' = inner e\<lparr>k_snd_queue := k_snd_queue (inner e) @ segs\<rparr>"
      and n: "payload \<noteq> [] \<longrightarrow> length segs = div_ceil (length payload) (k_mss (inner e))"
    have w: "wait_snd (inner e') = wait_snd (inner e) + ?need" using n e' k' a(3) assms(3) by (simp add: wait_snd_def)
    have q: "queued_bytes e = wait_snd (inner e) * mss" by (rule engine_fits_queued [OF e lim])
    have qf: "queued_bytes_for (length payload) e = ?need * mss"
      using room lim unfolding queued_bytes_for_def a(3) by (auto simp: sat_mul_def usize_max_def u64_max_def min_def split: if_splits)
    have "wait_snd (inner e') * mss \<le> lim" using room unfolding q qf w by (simp add: algebra_simps)
    then have fits: "engine_fits mss lim e'" using s(2) by (simp add: engine_fits_def)
    have "queued_bytes e' = queued_bytes e + queued_bytes_for (length payload) e"
      unfolding engine_fits_queued [OF fits lim] q qf w by (simp add: algebra_simps)
    then show ?thesis using s(1) fits e'(2,3) x w by auto
  qed
qed

section \<open>The invariant\<close>

definition held_bytes :: "dgram_wire \<Rightarrow> nat" where
  "held_bytes w = table_sum queued_bytes (dw_engines w)"

definition engines_ok :: "dgram_wire \<Rightarrow> bool" where
  "engines_ok w \<longleftrightarrow> dw_max_session w < usize_max \<and> dw_max_runtime w < usize_max \<and>
     (\<forall>p e. fmlookup (dw_engines w) p = Some e \<longrightarrow> engine_fits (dw_mtu w - 24) (dw_max_session w) e)"

text \<open>\<open>gap\<close> bytes are charged although no engine holds them.\<close>

definition charged_ok :: "nat \<Rightarrow> dgram_wire \<Rightarrow> bool" where
  "charged_ok gap w \<longleftrightarrow> held_bytes w + gap \<le> dw_kcp_queued w \<and> dw_kcp_queued w \<le> dw_max_runtime w"

definition peers_ok :: "dgram_wire \<Rightarrow> bool" where
  "peers_ok w \<longleftrightarrow> dw_max_peers w \<le> usize_max \<and> table_len (dw_engines w) + table_len (dw_authorized w) \<le> dw_max_peers w \<and>
     (\<forall>p. fmlookup (dw_engines w) p \<noteq> None \<longrightarrow> fmlookup (dw_authorized w) p = None)"

definition sched_ok :: "dgram_wire \<Rightarrow> bool" where
  "sched_ok w \<longleftrightarrow> sorted (dw_deadlines w) \<and>
     (\<forall>p d. fmlookup (dw_scheduled w) p = Some d \<longrightarrow> (d, p) \<in> set (dw_deadlines w)) \<and>
     (\<forall>p e. fmlookup (dw_engines w) p = Some e \<longrightarrow> 0 < wait_snd (inner e) \<longrightarrow> fmlookup (dw_scheduled w) p \<noteq> None)"

definition wire_ok :: "nat \<Rightarrow> dgram_wire \<Rightarrow> bool" where
  "wire_ok gap w \<longleftrightarrow> engines_ok w \<and> charged_ok gap w \<and> peers_ok w \<and> sched_ok w"

lemmas wire_defs = wire_ok_def engines_ok_def charged_ok_def peers_ok_def sched_ok_def held_bytes_def

text \<open>The UDP tables do not matter.\<close>

definition kcp_part :: "dgram_wire \<Rightarrow> dgram_wire" where
  "kcp_part w = w\<lparr>dw_pending := fmempty, dw_seen := fmempty, dw_active_input := None, dw_active_pending := None\<rparr>"

lemma wire_ok_kcp_part: "wire_ok gap (kcp_part w) = wire_ok gap w"
  by (simp add: wire_defs kcp_part_def)

lemma wire_ok_frame: "kcp_part w' = kcp_part w \<Longrightarrow> wire_ok gap w \<Longrightarrow> wire_ok gap w'"
  by (metis wire_ok_kcp_part)

lemma wire_ok_new:
  "max_session < usize_max \<Longrightarrow> max_runtime < usize_max \<Longrightarrow> peers \<le> usize_max \<Longrightarrow> wire_ok 0 (dw_new kind mtu peers max_session max_runtime)"
  by (simp add: wire_defs dw_new_def)

section \<open>Building blocks\<close>

lemma wire_ok_fits:
  "wire_ok gap w \<Longrightarrow> fmlookup (dw_engines w) p = Some e \<Longrightarrow>
    engine_fits (dw_mtu w - 24) (dw_max_session w) e \<and> dw_max_session w < usize_max"
  by (simp add: wire_ok_def engines_ok_def)

lemma wire_ok_unauthorize:
  assumes "wire_ok gap w"
  shows "wire_ok gap (w\<lparr>dw_authorized := fmdrop p (dw_authorized w)\<rparr>)"
  using assms table_len_drop_le [of p "dw_authorized w"] by (auto simp: wire_defs)

lemma wire_ok_authorize:
  assumes w: "wire_ok gap w" and "fmlookup (dw_engines w) p = None" and "fmlookup (dw_authorized w) p = None"
    and room: "table_len (dw_engines w) + table_len (dw_authorized w) < dw_max_peers w"
  shows "wire_ok gap (w\<lparr>dw_authorized := fmupd p conv (dw_authorized w)\<rparr>)"
  using assms by (auto simp: wire_defs fmdrop_absent)

text \<open>An engine that has lost unacknowledged data while the counter stayed.\<close>

lemma wire_ok_put_smaller:
  assumes w: "wire_ok gap w" and p: "fmlookup (dw_engines w) p = Some e"
    and fits: "engine_fits (dw_mtu w - 24) (dw_max_session w) e'" and le: "wait_snd (inner e') \<le> wait_snd (inner e)"
  shows "wire_ok (gap + (queued_bytes e - queued_bytes e')) (w\<lparr>dw_engines := fmupd p e' (dw_engines w)\<rparr>)"
proof -
  have q: "queued_bytes e' \<le> queued_bytes e"
    using queued_bytes_mono [OF _ fits _ le] wire_ok_fits [OF w p] by blast
  have "engines_ok w" "charged_ok gap w" "peers_ok w" "sched_ok w" using w by (simp_all add: wire_ok_def)
  note parts = this
  have "table_sum queued_bytes (dw_engines w) = queued_bytes e + table_sum queued_bytes (fmdrop p (dw_engines w))"
    by (rule table_sum_remove [OF p])
  then have "charged_ok (gap + (queued_bytes e - queued_bytes e')) (w\<lparr>dw_engines := fmupd p e' (dw_engines w)\<rparr>)"
    using parts(2) q by (simp add: charged_ok_def held_bytes_def)
  moreover have "engines_ok (w\<lparr>dw_engines := fmupd p e' (dw_engines w)\<rparr>)"
    using parts(1) fits by (simp add: engines_ok_def)
  moreover have "peers_ok (w\<lparr>dw_engines := fmupd p e' (dw_engines w)\<rparr>)"
    using parts(3) p table_len_remove [OF p] by (auto simp: peers_ok_def)
  moreover have "sched_ok (w\<lparr>dw_engines := fmupd p e' (dw_engines w)\<rparr>)"
    using parts(4) p le by (auto simp: sched_ok_def)
  ultimately show ?thesis by (simp add: wire_ok_def)
qed

text \<open>An engine whose change has been charged and whose update has been scheduled.\<close>

lemma wire_ok_put_charged:
  assumes w: "wire_ok gap w" and p: "fmlookup (dw_engines w) p = Some e"
    and fits: "engine_fits (dw_mtu w - 24) (dw_max_session w) e'"
    and room: "dw_kcp_queued w + queued_bytes e' \<le> dw_max_runtime w + queued_bytes e"
  shows "wire_ok gap (schedule_update p d (reconcile_kcp_bytes (queued_bytes e) (queued_bytes e')
    (w\<lparr>dw_engines := fmupd p e' (dw_engines w)\<rparr>)))"
proof -
  let ?w = "schedule_update p d (reconcile_kcp_bytes (queued_bytes e) (queued_bytes e')
    (w\<lparr>dw_engines := fmupd p e' (dw_engines w)\<rparr>))"
  have parts: "engines_ok w" "charged_ok gap w" "peers_ok w" "sched_ok w" using w by (simp_all add: wire_ok_def)
  have sum: "table_sum queued_bytes (dw_engines w) = queued_bytes e + table_sum queued_bytes (fmdrop p (dw_engines w))"
    by (rule table_sum_remove [OF p])
  have c: "queued_bytes e + table_sum queued_bytes (fmdrop p (dw_engines w)) + gap \<le> dw_kcp_queued w"
      "dw_kcp_queued w \<le> dw_max_runtime w" "dw_max_runtime w < usize_max"
    using parts(1,2) sum by (simp_all add: charged_ok_def held_bytes_def engines_ok_def)
  define n where "n = dw_kcp_queued w - queued_bytes e + queued_bytes e'"
  have n: "n \<le> dw_max_runtime w" "queued_bytes e' + table_sum queued_bytes (fmdrop p (dw_engines w)) + gap \<le> n"
    unfolding n_def using room c by linarith+
  have "n \<le> u64_max" using n(1) c(3) by (simp add: usize_max_def u64_max_def)
  then have "sat_add (dw_kcp_queued w - queued_bytes e) (queued_bytes e') = n"
    unfolding sat_add_def n_def by (rule min_absorb1)
  then have "charged_ok gap ?w"
    using n by (simp add: charged_ok_def held_bytes_def schedule_update_def reconcile_kcp_bytes_def)
  moreover have "engines_ok ?w"
    using parts(1) fits by (simp add: engines_ok_def schedule_update_def reconcile_kcp_bytes_def)
  moreover have "peers_ok ?w"
    using parts(3) p table_len_remove [OF p] by (auto simp: peers_ok_def schedule_update_def reconcile_kcp_bytes_def)
  moreover have "sched_ok ?w"
    using parts(4) by (auto simp: sched_ok_def schedule_update_def reconcile_kcp_bytes_def sorted_insort set_insort_key)
  ultimately show ?thesis by (simp add: wire_ok_def)
qed

text \<open>A new engine takes over the place of its authorization.\<close>

lemma wire_ok_new_engine:
  assumes w: "wire_ok gap w" and p: "fmlookup (dw_engines w) p = None" "fmlookup (dw_authorized w) p = Some conv"
    and fits: "engine_fits (dw_mtu w - 24) (dw_max_session w) e" and zero: "wait_snd (inner e) = 0"
  shows "wire_ok gap (w\<lparr>dw_authorized := fmdrop p (dw_authorized w), dw_engines := fmupd p e (dw_engines w)\<rparr>)"
proof -
  have "queued_bytes e = 0" using zero by (simp add: queued_bytes_def sat_mul_def)
  then show ?thesis
    using w p fits zero table_len_remove [OF p(2)] by (auto simp: wire_defs fmdrop_absent)
qed

section \<open>The operations\<close>

lemma wire_ok_less_gap: "wire_ok gap w \<Longrightarrow> gap' \<le> gap \<Longrightarrow> wire_ok gap' w"
  by (auto simp: wire_ok_def charged_ok_def)

lemma wire_ok_remove:
  assumes w: "wire_ok gap w"
  shows "wire_ok gap (remove_peer p w)"
proof (cases "fmlookup (dw_engines w) p")
  case None
  then have "wire_ok gap (w\<lparr>dw_authorized := fmdrop p (dw_authorized w), dw_scheduled := fmdrop p (dw_scheduled w)\<rparr>)"
    using wire_ok_unauthorize [OF w, of p] by (auto simp: wire_defs)
  then show ?thesis by (rule wire_ok_frame [rotated]) (simp add: remove_peer_def None kcp_part_def)
next
  case (Some e)
  let ?w = "w\<lparr>dw_engines := fmdrop p (dw_engines w), dw_kcp_queued := dw_kcp_queued w - queued_bytes e,
    dw_authorized := fmdrop p (dw_authorized w), dw_scheduled := fmdrop p (dw_scheduled w)\<rparr>"
  have parts: "engines_ok w" "charged_ok gap w" "peers_ok w" "sched_ok w" using w by (simp_all add: wire_ok_def)
  have "engines_ok ?w" "sched_ok ?w" using parts(1,4) by (auto simp: engines_ok_def sched_ok_def)
  moreover have "charged_ok gap ?w"
    using parts(2) table_sum_remove [OF Some, of queued_bytes] by (auto simp: charged_ok_def held_bytes_def)
  moreover have "peers_ok ?w"
    using parts(3) table_len_drop_le [of p "dw_authorized w"] table_len_drop_le [of p "dw_engines w"]
    by (auto simp: peers_ok_def)
  ultimately have "wire_ok gap ?w" by (simp add: wire_ok_def)
  then show ?thesis by (rule wire_ok_frame [rotated]) (simp add: remove_peer_def Some kcp_part_def Let_def)
qed

lemma wire_ok_authorize_peer:
  assumes w: "wire_ok gap w"
  shows "wire_ok gap (fst (authorize_peer p conv w))"
proof -
  have "table_len (dw_engines w) + table_len (dw_authorized w) < dw_max_peers w"
    if "\<not> dw_max_peers w \<le> sat_add (table_len (dw_engines w)) (table_len (dw_authorized w))"
    using that w by (auto simp: sat_add_def wire_ok_def peers_ok_def usize_max_def u64_max_def)
  then show ?thesis
    using w wire_ok_authorize [OF w, of p conv] by (simp add: authorize_peer_def split: option.splits)
qed

lemma receive_finish_ok:
  assumes w: "wire_ok gap w" and p: "fmlookup (dw_engines w) p = Some e0"
    and fits: "engine_fits (dw_mtu w - 24) (dw_max_session w) e" and le: "wait_snd (inner e) \<le> wait_snd (inner e0)"
  shows "\<exists>w' records. receive_finish p e (queued_bytes e0) w = (w', Inr records) \<and> wire_ok gap w'"
proof -
  obtain e' records where r: "recv_all e = (e', Inr records)" "engine_fits (dw_mtu w - 24) (dw_max_session w) e'"
      "wait_snd (inner e') \<le> wait_snd (inner e)"
    using engine_fits_recv_all [OF fits] by blast
  have "queued_bytes e' \<le> queued_bytes e0"
    using queued_bytes_mono [OF _ r(2)] wire_ok_fits [OF w p] order_trans [OF r(3) le] by blast
  then have "dw_kcp_queued w + queued_bytes e' \<le> dw_max_runtime w + queued_bytes e0"
    using w by (auto simp: wire_ok_def charged_ok_def)
  from wire_ok_put_charged [OF w p r(2) this] show ?thesis using r(1) by (simp add: receive_finish_def)
qed

lemma wire_receive_ok:
  assumes w: "wire_ok gap w"
  shows "wire_ok gap (fst (dw_receive p packet now w))"
proof (cases "fmlookup (dw_engines w) p")
  case (Some e)
  obtain e1 r where i: "engine_input packet now e = (e1, r)" by (cases "engine_input packet now e")
  have f: "engine_fits (dw_mtu w - 24) (dw_max_session w) e1" "wait_snd (inner e1) \<le> wait_snd (inner e)"
    using engine_fits_input [OF _ i] wire_ok_fits [OF w Some] by blast+
  show ?thesis
    using Some i w wire_ok_less_gap [OF wire_ok_put_smaller [OF w Some f]] receive_finish_ok [OF w Some f]
    by (auto simp: dw_receive_def split: sum.splits)
next
  case none: None
  show ?thesis
  proof (cases "fmlookup (dw_authorized w) p")
    case None
    then show ?thesis using none w by (simp add: dw_receive_def)
  next
    case conv: (Some conv)
    let ?w = "w\<lparr>dw_authorized := fmdrop p (dw_authorized w)\<rparr>"
    have u: "wire_ok gap ?w" by (rule wire_ok_unauthorize [OF w])
    have "wire_ok gap (fst (receive_finish p e1 (queued_bytes e1) ?w))"
      if "new_with_limits conv (dw_mtu w) (dw_max_session w) = Inr e" "engine_input packet now e = (e1, Inr v)" for e e1 v
    proof -
      have f: "engine_fits (dw_mtu w - 24) (dw_max_session w) e1" "wait_snd (inner e1) = 0"
        using engine_fits_input [OF _ that(2)] engine_fits_new [OF that(1)] by fastforce+
      have "wire_ok gap (?w\<lparr>dw_engines := fmupd p e1 (dw_engines w)\<rparr>)"
        using wire_ok_new_engine [OF w none conv f] by simp
      from receive_finish_ok [OF this, of p e1 e1] show ?thesis
        using f(1) by (fastforce simp: receive_finish_def case_prod_unfold Let_def)
    qed
    then show ?thesis using none conv w u by (simp add: dw_receive_def Let_def split: prod.split sum.split)
  qed
qed

lemma wire_engine_ok:
  assumes w: "wire_ok gap w" and r: "wire_engine p w = (w1, r)"
  shows "wire_ok gap w1 \<and> dw_max_session w1 = dw_max_session w \<and> dw_max_runtime w1 = dw_max_runtime w \<and>
    dw_kcp_queued w1 = dw_kcp_queued w \<and> dw_mtu w1 = dw_mtu w \<and> (\<forall>e. r = Inr e \<longrightarrow> fmlookup (dw_engines w1) p = Some e)"
proof (cases "fmlookup (dw_engines w) p")
  case (Some e)
  then show ?thesis using assms by (auto simp: wire_engine_def)
next
  case None
  have "wire_ok gap (w\<lparr>dw_authorized := fmdrop p (dw_authorized w), dw_engines := fmupd p e (dw_engines w)\<rparr>)"
    if "fmlookup (dw_authorized w) p = Some conv" "new_with_limits conv (dw_mtu w) (dw_max_session w) = Inr e" for conv e
    using wire_ok_new_engine [OF w None that(1)] engine_fits_new [OF that(2)] by blast
  then show ?thesis
    using r w wire_ok_unauthorize [OF w, of p] None
    by (auto simp: wire_engine_def Let_def split: option.splits if_splits sum.splits)
qed

lemma sat_add_within: "sat_add a b \<le> l \<Longrightarrow> l < usize_max \<Longrightarrow> a + b \<le> l"
  by (simp add: sat_add_def min_def usize_max_def u64_max_def split: if_splits)

lemma queue_kcp_ok:
  assumes w: "wire_ok gap w" and "bs \<noteq> []"
  shows "\<exists>w' r. queue_kcp p bs control w = Some (w', r) \<and>
    (if isl r then wire_ok gap w' else \<forall>d. wire_ok gap (schedule_update p d w'))"
proof -
  obtain w1 r1 where e1: "wire_engine p w = (w1, r1)" by (cases "wire_engine p w")
  note k = wire_engine_ok [OF w e1]
  let ?rt = "if control then dw_max_runtime w else dw_max_runtime w - min (dw_max_runtime w div 16) (64 * 1024)"
  let ?st = "if control then dw_max_session w else dw_max_session w - min (dw_max_session w div 16) (4 * 1024)"
  show ?thesis
  proof (cases r1)
    case (Inl err)
    then show ?thesis using k e1 by (simp add: queue_kcp_def Let_def)
  next
    case (Inr e)
    let ?added = "queued_bytes_for (length bs) e"
    have p1: "fmlookup (dw_engines w1) p = Some e" and w1: "wire_ok gap w1" using k Inr by blast+
    have f: "engine_fits (dw_mtu w1 - 24) (dw_max_session w) e" "dw_max_session w < usize_max" "dw_max_runtime w < usize_max"
      using wire_ok_fits [OF w1 p1] k w by (auto simp: wire_ok_def engines_ok_def)
    show ?thesis
    proof (cases "?rt < sat_add (dw_kcp_queued w) ?added \<or> ?st < sat_add (queued_bytes e) ?added")
      case True
      then have "queue_kcp p bs control w = Some (w1, Inl WouldBlock)"
        using e1 Inr by (simp only: queue_kcp_def Let_def split_conv sum.case if_True)
      then show ?thesis using w1 by simp
    next
      case False
      have le: "?rt \<le> dw_max_runtime w" "?st \<le> dw_max_session w" by simp_all
      have "sat_add (dw_kcp_queued w) ?added \<le> dw_max_runtime w" "sat_add (queued_bytes e) ?added \<le> dw_max_session w"
        using False le by linarith+
      then have room: "dw_kcp_queued w + ?added \<le> dw_max_runtime w" "queued_bytes e + ?added \<le> dw_max_session w"
        using sat_add_within f(2,3) by blast+
      obtain e2 r where s: "engine_send bs e = Some (e2, r)" "engine_fits (dw_mtu w1 - 24) (dw_max_session w) e2"
          "isl r \<and> e2 = e \<or> r = Inr () \<and> queued_bytes e2 = queued_bytes e + ?added"
        using engine_fits_send [OF f(1,2) assms(2) room(2)] by blast
      let ?w2 = "w1\<lparr>dw_engines := fmupd p e2 (dw_engines w1)\<rparr>"
      have q: "queue_kcp p bs control w = Some (case r of Inl err \<Rightarrow> (?w2, Inl err)
          | Inr _ \<Rightarrow> (reconcile_kcp_bytes (queued_bytes e) (queued_bytes e2) ?w2, Inr ()))"
        using e1 Inr False s(1)
        by (simp only: queue_kcp_def Let_def split_conv sum.case if_False option.case) (cases r; simp)
      from s(3) show ?thesis
      proof (elim disjE conjE)
        assume "isl r" "e2 = e"
        then show ?thesis using q w1 fmupd_self [OF p1] by (cases r) auto
      next
        assume r: "r = Inr ()" and e2: "queued_bytes e2 = queued_bytes e + ?added"
        have "dw_kcp_queued w1 + queued_bytes e2 \<le> dw_max_runtime w1 + queued_bytes e" using room(1) e2 k by simp
        then show ?thesis using q r wire_ok_put_charged [OF w1 p1] s(2) k by simp
      qed
    qed
  qed
qed

lemma encode_record_nonempty: "encode_record rec m = Inr bs \<Longrightarrow> bs \<noteq> []"
  by (auto simp: encode_record_def split: sum.splits)

lemma kcp_send_record_ok:
  assumes "wire_ok gap w" and "bs \<noteq> []"
  shows "\<exists>w' out r. kcp_send_record p bs control now w = Some (w', out, r) \<and> wire_ok gap w'"
proof -
  obtain w' r where q: "queue_kcp p bs control w = Some (w', r)"
      "if isl r then wire_ok gap w' else \<forall>d. wire_ok gap (schedule_update p d w')"
    using queue_kcp_ok [OF assms] by blast
  show ?thesis
  proof (cases r)
    case (Inl err)
    then show ?thesis using q by (simp add: kcp_send_record_def)
  next
    case (Inr u)
    then have "wire_ok gap (schedule_update p now w')" using q(2) by simp
    then show ?thesis using Inr q(1) by (simp add: kcp_send_record_def)
  qed
qed

lemma kcp_part_remember [simp]: "kcp_part (remember_response p bs w) = kcp_part w"
  by (auto simp: remember_response_def kcp_part_def split: option.splits)

lemma wire_sends_ok:
  assumes "wire_ok gap w"
  shows "\<exists>w' out r. dw_send p rec m ok now w = Some (w', out, r) \<and> wire_ok gap w'"
    and "\<exists>w' out r. send_reliable p rec m ok ms t w = Some (w', out, r) \<and> wire_ok gap w'"
    and "\<exists>w' out r. send_response p rec m ok ms w = Some (w', out, r) \<and> wire_ok gap w'"
proof -
  have k: "\<exists>w' out r. kcp_send_record p bs c now w = Some (w', out, r) \<and> wire_ok gap w'"
    if "encode_record rec m' = Inr bs" for m' bs c now
    using kcp_send_record_ok [OF assms encode_record_nonempty [OF that]] .
  have u: "wire_ok gap (remember_response p bs w)" for bs
    by (rule wire_ok_frame [OF _ assms]) simp
  have v: "wire_ok gap (remember_response p bs (w\<lparr>dw_pending := pend\<rparr>))" for bs pend
    by (rule wire_ok_frame [OF _ assms]) (simp, simp add: kcp_part_def)
  show "\<exists>w' out r. dw_send p rec m ok now w = Some (w', out, r) \<and> wire_ok gap w'"
    using assms k by (cases "encode_record rec (if dw_kind w = Kcp then u32_max else m)") (simp_all add: dw_send_def)
  show "\<exists>w' out r. send_reliable p rec m ok ms t w = Some (w', out, r) \<and> wire_ok gap w'"
    using assms k v by (cases "encode_record rec m") (simp_all add: send_reliable_def)
  show "\<exists>w' out r. send_response p rec m ok ms w = Some (w', out, r) \<and> wire_ok gap w'"
    using assms k u by (cases "encode_record rec m") (simp_all add: send_response_def)
qed

lemma wire_ok_pop:
  assumes w: "wire_ok gap w" and h: "dw_deadlines w = (d, p) # rest" and "fmlookup (dw_scheduled w) p \<noteq> Some d"
  shows "wire_ok gap (w\<lparr>dw_deadlines := rest\<rparr>)"
proof -
  have "sched_ok (w\<lparr>dw_deadlines := rest\<rparr>)" using assms by (auto simp: wire_ok_def sched_ok_def)
  then show ?thesis using w by (simp add: wire_defs)
qed

lemma wire_ok_pop_stale:
  assumes w: "wire_ok gap w" and h: "dw_deadlines w = (d, p) # rest" and p: "fmlookup (dw_engines w) p = None"
  shows "wire_ok gap (w\<lparr>dw_deadlines := rest, dw_scheduled := fmdrop p (dw_scheduled w)\<rparr>)"
proof -
  have "sched_ok (w\<lparr>dw_deadlines := rest, dw_scheduled := fmdrop p (dw_scheduled w)\<rparr>)"
    using assms by (auto simp: wire_ok_def sched_ok_def)
  then show ?thesis using w by (simp add: wire_defs)
qed

lemma wire_ok_pop_update:
  assumes w: "wire_ok gap w" and h: "dw_deadlines w = (d, p) # rest" and p: "fmlookup (dw_engines w) p = Some e"
    and u: "engine_update now e = (e1, packets)"
  shows "wire_ok gap (schedule_update p n (w\<lparr>dw_deadlines := rest, dw_engines := fmupd p e1 (dw_engines w)\<rparr>))"
    (is "wire_ok gap ?w")
proof -
  have f: "engine_fits (dw_mtu w - 24) (dw_max_session w) e1" "queued_bytes e1 = queued_bytes e"
    using engine_fits_update [of "dw_mtu w - 24" "dw_max_session w" e now] wire_ok_fits [OF w p] u
    by (auto simp: engine_fits_queued)
  have parts: "engines_ok w" "charged_ok gap w" "peers_ok w" "sched_ok w" using w by (simp_all add: wire_ok_def)
  have "engines_ok ?w" using parts(1) f(1) by (simp add: engines_ok_def schedule_update_def)
  moreover have "charged_ok gap ?w"
    using parts(2) f(2) table_sum_remove [OF p, of queued_bytes] by (simp add: charged_ok_def held_bytes_def schedule_update_def)
  moreover have "peers_ok ?w"
    using parts(3) p table_len_remove [OF p] by (auto simp: peers_ok_def schedule_update_def)
  moreover have "sched_ok ?w"
    using parts(4) h by (auto simp: sched_ok_def schedule_update_def sorted_insort set_insort_key)
  ultimately show ?thesis by (simp add: wire_ok_def)
qed

lemma flush_loop_ok: "wire_ok gap w \<Longrightarrow> wire_ok gap (fst (flush_loop left now w out))"
proof (induction left now w out rule: flush_loop.induct)
  case (1 left now w out)
  show ?case
  proof (cases "left = 0 \<or> dw_deadlines w = [] \<or> now < fst (hd (dw_deadlines w))")
    case True
    then show ?thesis using 1(4) by (subst flush_loop.simps) (auto split: list.splits)
  next
    case False
    then obtain d p rest where h: "dw_deadlines w = (d, p) # rest" "\<not> now < d" "left \<noteq> 0"
      by (cases "dw_deadlines w") auto
    let ?w = "w\<lparr>dw_deadlines := rest\<rparr>"
    show ?thesis
    proof (cases "fmlookup (dw_scheduled w) p = Some d")
      case False
      from 1(1) [OF h(3,1) refl h(2) refl _ wire_ok_pop [OF 1(4) h(1) False]] show ?thesis
        using h False by (subst flush_loop.simps) simp
    next
      case sch: True
      show ?thesis
      proof (cases "fmlookup (dw_engines w) p")
        case None
        have "wire_ok gap (?w\<lparr>dw_scheduled := fmdrop p (dw_scheduled ?w)\<rparr>)"
          using wire_ok_pop_stale [OF 1(4) h(1) None] by simp
        from 1(2) [OF h(3,1) refl h(2) refl _ _ this] show ?thesis
          using h sch None by (subst flush_loop.simps) simp
      next
        case (Some e)
        obtain e1 packets where u: "engine_update now e = (e1, packets)" by (cases "engine_update now e")
        have "wire_ok gap (schedule_update p (next_update_ms e1) (?w\<lparr>dw_engines := fmupd p e1 (dw_engines ?w)\<rparr>))"
          using wire_ok_pop_update [OF 1(4) h(1) Some u] by simp
        from 1(3) [OF h(3,1) refl h(2) refl _ _ u [symmetric] refl this] show ?thesis
          using h sch Some u by (subst flush_loop.simps) simp
      qed
    qed
  qed
qed

end
