(* ===== verification/Datagram_Safety.thy ===== *)
theory Datagram_Safety
  imports Datagram_Budget
begin

text \<open>
  All operations of \<^verbatim>\<open>DatagramWire\<close> as one system: what holds after every sequence of calls, and the
  bytes that a failing input leaves charged.
\<close>

section \<open>Every sequence of calls\<close>

datatype wire_op =
    WRemove socket_addr
  | WAuthorize socket_addr u32
  | WRevoke socket_addr
  | WReceive socket_addr bytes nat
  | WSend socket_addr sec_record nat bool nat
  | WReliable socket_addr sec_record nat bool nat instant
  | WResponse socket_addr sec_record nat bool nat
  | WBegin socket_addr bytes
  | WEnd bool
  | WRetry instant
  | WFlush nat

datatype wire_out =
    WDone
  | WStatus "unit result" packets
  | WRecords "bytes list result"
  | WDuplicate bool "bytes option"
  | WSent packets "socket_addr list"
  | WPanic

definition sent_step :: "dgram_wire \<Rightarrow> (dgram_wire \<times> packets \<times> unit result) option \<Rightarrow> dgram_wire \<times> wire_out" where
  "sent_step w answer = (case answer of None \<Rightarrow> (w, WPanic) | Some (w', out, r) \<Rightarrow> (w', WStatus r out))"

fun wire_step :: "wire_op \<Rightarrow> dgram_wire \<Rightarrow> dgram_wire \<times> wire_out" where
  "wire_step (WRemove p) w = (remove_peer p w, WDone)"
| "wire_step (WAuthorize p conv) w = (let (w', r) = authorize_peer p conv w in (w', WStatus r []))"
| "wire_step (WRevoke p) w = (revoke_authorization p w, WDone)"
| "wire_step (WReceive p packet now) w = (let (w', r) = dw_receive p packet now w in (w', WRecords r))"
| "wire_step (WSend p rec m ok now) w = sent_step w (dw_send p rec m ok now w)"
| "wire_step (WReliable p rec m ok ms now) w = sent_step w (send_reliable p rec m ok ms now w)"
| "wire_step (WResponse p rec m ok ms) w = sent_step w (send_response p rec m ok ms w)"
| "wire_step (WBegin p bs) w = (let (w', dup, r) = begin_input p bs w in (w', WDuplicate dup r))"
| "wire_step (WEnd success) w = (end_input success w, WDone)"
| "wire_step (WRetry now) w = (let (w', out, expired) = dw_retry now w in (w', WSent out expired))"
| "wire_step (WFlush now) w = (let (w', out) = dw_flush now w in (w', WSent out []))"

section \<open>The configuration is fixed\<close>

definition dw_config :: "dgram_wire \<Rightarrow> (transport \<times> nat) \<times> nat \<times> nat \<times> nat" where
  "dw_config w = ((dw_kind w, dw_mtu w), dw_max_peers w, dw_max_session w, dw_max_runtime w)"

lemma config_kcp_part: "dw_config (kcp_part w) = dw_config w"
  by (simp add: kcp_part_def dw_config_def)

lemma kcp_part_config: "kcp_part w' = kcp_part w \<Longrightarrow> dw_config w' = dw_config w"
  by (metis config_kcp_part)

lemma config_helpers [simp]:
  "dw_config (schedule_update p d w) = dw_config w"
  "dw_config (reconcile_kcp_bytes a b w) = dw_config w"
  "dw_config (remember_response p bs w) = dw_config w"
  "dw_config (w\<lparr>dw_engines := es\<rparr>) = dw_config w"
  "dw_config (w\<lparr>dw_authorized := au\<rparr>) = dw_config w"
  "dw_config (w\<lparr>dw_scheduled := sc\<rparr>) = dw_config w"
  "dw_config (w\<lparr>dw_deadlines := ds\<rparr>) = dw_config w"
  "dw_config (w\<lparr>dw_pending := pe\<rparr>) = dw_config w"
  by (simp_all add: dw_config_def schedule_update_def reconcile_kcp_bytes_def remember_response_def split: option.splits)

lemma config_receive: "dw_config (fst (dw_receive p packet now w)) = dw_config w"
  by (simp add: dw_receive_def receive_finish_def Let_def split: option.split prod.split sum.split)

lemma config_wire_engine: "dw_config (fst (wire_engine p w)) = dw_config w"
  by (simp add: wire_engine_def Let_def split: option.split sum.split)

lemma config_queue_kcp:
  assumes "queue_kcp p bs control w = Some (w', r)"
  shows "dw_config w' = dw_config w"
proof -
  obtain w1 r1 where e: "wire_engine p w = (w1, r1)" by (cases "wire_engine p w")
  then have "dw_config w1 = dw_config w" using config_wire_engine [of p w] by simp
  then show ?thesis
    using assms unfolding queue_kcp_def Let_def e split_conv
    by (auto split: sum.splits if_splits option.splits prod.splits)
qed

lemma config_kcp_send: "kcp_send_record p bs c now w = Some (w', out, r) \<Longrightarrow> dw_config w' = dw_config w"
  using config_queue_kcp [of p bs c w] by (auto simp: kcp_send_record_def split: option.splits sum.splits prod.splits)

lemma config_flush_loop: "dw_config (fst (flush_loop left now w out)) = dw_config w"
proof (induction left now w out rule: flush_loop.induct)
  case (1 left now w out)
  then show ?case
    by (subst flush_loop.simps) (simp add: Let_def split: list.split prod.split option.split)
qed

lemma kcp_part_retry: "kcp_part (fst (fold (retry_one now) ps (w, out, ex))) = kcp_part w"
proof (induction ps arbitrary: w out ex)
  case (Cons p ps)
  have "kcp_part (fst (retry_one now p (w, out, ex))) = kcp_part w"
    by (simp add: retry_one_def kcp_part_def split: option.split)
  then show ?case using Cons by (cases "retry_one now p (w, out, ex)") simp
qed simp

lemma kcp_part_udp:
  "kcp_part (fst (begin_input p bs w)) = kcp_part w"
  "kcp_part (end_input success w) = kcp_part w"
  "kcp_part (fst (dw_retry now w)) = kcp_part w"
  using kcp_part_retry
  by (simp_all add: begin_input_def end_input_def dw_retry_def kcp_part_def Let_def split: option.split)

lemma config_remove: "dw_config (remove_peer p w) = dw_config w"
  by (simp add: remove_peer_def dw_config_def Let_def split: option.split)

lemma config_sends:
  "dw_send p rec m ok now w = Some (w', out, r) \<Longrightarrow> dw_config w' = dw_config w"
  "send_reliable p rec m ok ms t w = Some (w', out, r) \<Longrightarrow> dw_config w' = dw_config w"
  "send_response p rec m ok ms w = Some (w', out, r) \<Longrightarrow> dw_config w' = dw_config w"
  using config_kcp_send
  by (auto simp: dw_send_def send_reliable_def send_response_def split: sum.splits if_splits)

lemma sent_step_ok:
  assumes "\<exists>w' out r. a = Some (w', out, r) \<and> wire_ok gap w'" and "\<And>w' out r. a = Some (w', out, r) \<Longrightarrow> dw_config w' = dw_config w"
  shows "wire_ok gap (fst (sent_step w a)) \<and> dw_config (fst (sent_step w a)) = dw_config w \<and> snd (sent_step w a) \<noteq> WPanic"
  using assms by (auto simp: sent_step_def)

lemma udp_step_ok: "wire_ok gap w \<Longrightarrow> kcp_part w' = kcp_part w \<Longrightarrow> wire_ok gap w' \<and> dw_config w' = dw_config w"
  using wire_ok_frame kcp_part_config by blast

lemma wire_step_ok:
  assumes w: "wire_ok gap w"
  shows "wire_ok gap (fst (wire_step x w)) \<and> dw_config (fst (wire_step x w)) = dw_config w \<and> snd (wire_step x w) \<noteq> WPanic"
proof (cases x)
  case (WRemove p)
  then show ?thesis using wire_ok_remove [OF w] config_remove by simp
next
  case (WAuthorize p conv)
  have "dw_config (fst (authorize_peer p conv w)) = dw_config w"
    by (simp add: authorize_peer_def split: option.split)
  then show ?thesis using WAuthorize wire_ok_authorize_peer [OF w] by (simp add: case_prod_unfold Let_def)
next
  case (WRevoke p)
  then show ?thesis using wire_ok_unauthorize [OF w, of p] by (simp add: revoke_authorization_def)
next
  case (WReceive p packet now)
  then show ?thesis using wire_receive_ok [OF w] config_receive by (simp add: case_prod_unfold Let_def)
next
  case (WFlush now)
  then show ?thesis using w flush_loop_ok [OF w] config_flush_loop by (simp add: dw_flush_def case_prod_unfold Let_def)
next
  case (WSend p rec m ok now)
  then show ?thesis using sent_step_ok [OF wire_sends_ok(1) [OF w] config_sends(1)] by simp
next
  case (WReliable p rec m ok ms now)
  then show ?thesis using sent_step_ok [OF wire_sends_ok(2) [OF w] config_sends(2)] by simp
next
  case (WResponse p rec m ok ms)
  then show ?thesis using sent_step_ok [OF wire_sends_ok(3) [OF w] config_sends(3)] by simp
next
  case (WBegin p bs)
  then show ?thesis using udp_step_ok [OF w kcp_part_udp(1) [of p bs]] by (simp add: case_prod_unfold Let_def)
next
  case (WEnd success)
  then show ?thesis using udp_step_ok [OF w kcp_part_udp(2) [of success]] by simp
next
  case (WRetry now)
  then show ?thesis using udp_step_ok [OF w kcp_part_udp(3) [of now]] by (simp add: case_prod_unfold Let_def)
qed

interpretation dgram: answering_system wire_step "\<lambda>w. wire_ok gap w \<and> dw_config w = cfg" "\<lambda>_ out. out \<noteq> WPanic"
  for gap cfg
  by unfold_locales (use wire_step_ok in auto)

section \<open>A concrete run\<close>

text \<open>
  One peer is authorized, a record is sent to it and flushed; then it acknowledges the record in the
  first segment of a packet whose second segment names another conversation.
\<close>

lemmas demo_setup = set_mtu_def set_wndsize_def set_nodelay_def kcp_new_def kcp_construct_def usize_max_def
  u64_max_def u32_max_def

lemmas kcp_constants =
  KCP_RTO_NDL_def KCP_RTO_MIN_def KCP_RTO_DEF_def KCP_RTO_MAX_def KCP_CMD_PUSH_def KCP_CMD_ACK_def 
  KCP_CMD_WASK_def KCP_CMD_WINS_def KCP_ASK_SEND_def KCP_ASK_TELL_def KCP_WND_SND_def KCP_WND_RCV_def 
  KCP_MTU_DEF_def KCP_INTERVAL_def KCP_OVERHEAD_def KCP_DEADLINK_def KCP_THRESH_INIT_def 
  KCP_THRESH_MIN_def KCP_PROBE_INIT_def KCP_PROBE_LIMIT_def KCP_FASTACK_LIMIT_def 

lemmas demo_flush = kcp_update_def timediff_def kcp_flush_def flush_prepare_def flush_ack_list_def
  flush_probe_commands_def flush_probe_command_def probe_wnd_size_def send_window_def wnd_unused_def
  ack_template_def stamp_def resend_reason_def reschedule_def put_segment_def write_buf_def
  resend_limit_def rto_slack_def u32_sat_add_def

definition demo_peer :: socket_addr where "demo_peer = SockV4 16909060 4000"

definition demo_rec :: sec_record where
  "demo_rec = \<lparr>rec_kind = PlainData, rec_epoch = 0, rec_payload = []\<rparr>"

definition demo_seg :: kcp_segment where
  "demo_seg = \<lparr>seg_conv = 0, seg_cmd = 0, seg_frg = 0, seg_wnd = 0, seg_ts = 0, seg_sn = 0, seg_una = 0,
     seg_resendts = 0, seg_rto = 0, seg_fastack = 0, seg_xmit = 0,
     seg_data = [82, 78, 83, 50, 0, 1, 5, 0, 0, 0, 0, 0, 0, 0, 0, 0, 0, 0, 0, 0]\<rparr>"

definition demo_queued :: rust_kcp where
  "demo_queued = demo_end\<lparr>inner := (inner demo_end)\<lparr>k_snd_queue := [demo_seg]\<rparr>\<rparr>"

definition demo_sent :: kcp where
  "demo_sent = (inner demo_end)\<lparr>k_snd_nxt := 1, k_updated := True, k_ts_flush := 10, k_cwnd := 1, k_incr := 1176,
     k_snd_buf := [demo_seg\<lparr>seg_conv := 7, seg_cmd := 81, seg_wnd := 128, seg_resendts := 200, seg_rto := 200, seg_xmit := 1\<rparr>]\<rparr>"

definition demo_flushed :: rust_kcp where
  "demo_flushed = fst (engine_update 0 demo_queued)"

definition demo_bad :: bytes where
  "demo_bad = [7, 0, 0, 0, 84, 0, 128, 0, 0, 0, 0, 0, 0, 0, 0, 0, 1, 0, 0, 0, 0, 0, 0, 0,
               8, 0, 0, 0, 84, 0, 128, 0, 0, 0, 0, 0, 0, 0, 0, 0, 1, 0, 0, 0, 0, 0, 0, 0]"

lemma demo_encode: "encode_record demo_rec u32_max = Inr (seg_data demo_seg)"
  by (simp add: encode_record_def demo_rec_def demo_seg_def validate_payload_len_def REC_MAGIC_def REC_VERSION_def
      u32_max_def u32_be_def u16_be_def u64_be_def be_bytes_numeral)

lemma demo_engine_send: "engine_send (seg_data demo_seg) demo_end = Some (demo_queued, Inr ())"
  by (simp add: demo_setup kcp_constants engine_send_def queued_bytes_def queued_bytes_for_def wait_snd_def
      kcp_send_def new_with_data_def div_ceil_def sat_add_def sat_mul_def demo_queued_def demo_end_def demo_seg_def)

lemma seg_encode_nonempty [simp]: "seg_encode s \<noteq> []"
  by (simp add: seg_encode_def)

lemma demo_update:
  "kcp_update 0 (inner demo_queued) = (demo_sent\<lparr>k_output := [seg_encode (hd (k_snd_buf demo_sent))]\<rparr>, Inr ())"
  by (simp add: demo_flush demo_setup demo_queued_def demo_end_def demo_seg_def demo_sent_def kcp_constants Let_def
      word_le_nat_alt output_write_def)

lemma demo_flushed_parts:
  "inner demo_flushed = demo_sent" "engine_failed demo_flushed = False" "now_ms demo_flushed = 0"
  "max_queued_bytes demo_flushed = 4194304"
proof -
  have "engine_failed demo_queued = False" "max_queued_bytes demo_queued = 4194304" "k_output demo_sent = []"
    by (simp_all add: demo_queued_def demo_sent_def demo_end_def demo_setup kcp_constants)
  then show "inner demo_flushed = demo_sent" "engine_failed demo_flushed = False" "now_ms demo_flushed = 0"
      "max_queued_bytes demo_flushed = 4194304"
    by (simp_all add: demo_flushed_def engine_update_def demo_update Let_def case_prod_unfold)
qed

lemmas demo_read = demo_bad_def read_segment_def header_len_def new_with_data_def subslice_def u32_from_le_def
  u16_from_le_def u32_from_be_def u16_from_be_def from_be_def

lemma demo_input:
  "kcp_input demo_bad demo_sent = (demo_sent\<lparr>k_snd_buf := [], k_snd_una := 1\<rparr>, Some (Inl (ConvInconsistent 7 8)))"
  by (simp add: kcp_input_def input_loop.simps demo_read kcp_constants known_cmd_def input_segment_def shrink_buf_def
      parse_una_def timediff_def demo_sent_def demo_end_def demo_setup demo_seg_def Let_def)

lemma demo_valid: "validate_kcp_packet demo_bad 5 1176 = Inr ()"
  by (simp add: validate_kcp_packet_def validate_segments.simps valid_segment_def demo_read kcp_constants pkt_wnd_def pkt_ts_def)

lemma demo_next: "next_update_ms demo_flushed = 10"
  by (simp add: next_update_ms_def demo_flushed_parts kcp_check_def demo_sent_def demo_end_def demo_setup demo_seg_def
      kcp_constants timediff_def sat_add_def Let_def)

lemma demo_error:
  "engine_input demo_bad 5 demo_flushed =
     (demo_flushed\<lparr>now_ms := 5, inner := demo_sent\<lparr>k_snd_buf := [], k_snd_una := 1\<rparr>\<rparr>, Inl ProtocolError)"
proof -
  have "k_mss demo_sent = 1176" by (simp add: demo_sent_def demo_end_def demo_setup kcp_constants)
  then show ?thesis
    by (simp add: engine_input_def demo_flushed_parts demo_valid demo_input map_kcp_error_def)
qed

lemma demo_queued_bytes:
  "queued_bytes demo_end = 0" "queued_bytes demo_queued = 1176" "queued_bytes demo_flushed = 1176"
  "queued_bytes (demo_flushed\<lparr>now_ms := 5, inner := demo_sent\<lparr>k_snd_buf := [], k_snd_una := 1\<rparr>\<rparr>) = 0"
  "queued_bytes_for 20 demo_end = 1176"
  by (simp_all add: queued_bytes_def queued_bytes_for_def wait_snd_def demo_flushed_parts demo_queued_def demo_sent_def
      demo_end_def demo_setup kcp_constants sat_mul_def div_ceil_def)

definition demo_wire :: dgram_wire where
  "demo_wire = dw_new Kcp 1200 4 4194304 268435456"

definition demo_busy :: dgram_wire where
  "demo_busy = demo_wire\<lparr>dw_engines := fmupd demo_peer demo_flushed fmempty, dw_kcp_queued := 1176,
     dw_scheduled := fmupd demo_peer 10 fmempty, dw_deadlines := [(10, demo_peer)]\<rparr>"

definition demo_ops :: "wire_op list" where
  "demo_ops = [WAuthorize demo_peer 7, WSend demo_peer demo_rec 64 True 0, WFlush 0]"

lemma demo_authorized:
  "authorize_peer demo_peer 7 demo_wire = (demo_wire\<lparr>dw_authorized := fmupd demo_peer 7 fmempty\<rparr>, Inr ())"
  by (simp add: authorize_peer_def demo_wire_def dw_new_def sat_add_def)

lemma demo_wire_send:
  "dw_send demo_peer demo_rec 64 True 0 (demo_wire\<lparr>dw_authorized := fmupd demo_peer 7 fmempty\<rparr>) =
     Some (demo_wire\<lparr>dw_engines := fmupd demo_peer demo_queued fmempty, dw_kcp_queued := 1176,
       dw_scheduled := fmupd demo_peer 0 fmempty, dw_deadlines := [(0, demo_peer)]\<rparr>, [], Inr ())"
proof -
  have "length (seg_data demo_seg) = 20" by (simp add: demo_seg_def)
  then show ?thesis
    by (simp add: dw_send_def demo_wire_def dw_new_def demo_encode kcp_send_record_def queue_kcp_def wire_engine_def
        demo_end_new demo_engine_send demo_queued_bytes sat_add_def u64_max_def reconcile_kcp_bytes_def schedule_update_def)
qed

lemma demo_wire_flush:
  "dw_flush 0 (demo_wire\<lparr>dw_engines := fmupd demo_peer demo_queued fmempty, dw_kcp_queued := 1176,
       dw_scheduled := fmupd demo_peer 0 fmempty, dw_deadlines := [(0, demo_peer)]\<rparr>) =
     (demo_busy, map (Pair demo_peer) (snd (engine_update 0 demo_queued)))"
proof -
  obtain out where u: "engine_update 0 demo_queued = (demo_flushed, out)"
    by (cases "engine_update 0 demo_queued") (simp add: demo_flushed_def)
  show ?thesis
    by (simp add: dw_flush_def demo_wire_def dw_new_def MAX_KCP_UPDATES_PER_FLUSH_def flush_loop.simps u demo_next
        schedule_update_def demo_busy_def)
qed

lemma demo_run:
  "run_out wire_step demo_ops demo_wire =
     (demo_busy, [WStatus (Inr ()) [], WStatus (Inr ()) [], WSent (map (Pair demo_peer) (snd (engine_update 0 demo_queued))) []])"
  by (simp add: demo_ops_def demo_authorized demo_wire_send sent_step_def demo_wire_flush)

section \<open>What the budget promises\<close>

lemma wire_run_ok:
  assumes "max_session < usize_max" and "max_runtime < usize_max" and "peers \<le> usize_max"
    and "run_out wire_step ops (dw_new kind mtu peers max_session max_runtime) = (w, outs)"
  shows "wire_ok 0 w \<and> dw_config w = ((kind, mtu), peers, max_session, max_runtime) \<and> WPanic \<notin> set outs"
proof -
  let ?w = "dw_new kind mtu peers max_session max_runtime"
  have "dw_config ?w = ((kind, mtu), peers, max_session, max_runtime)" by (simp add: dw_config_def dw_new_def)
  then have "wire_ok 0 w \<and> dw_config w = ((kind, mtu), peers, max_session, max_runtime) \<and> list_all2 (\<lambda>_ out. out \<noteq> WPanic) ops outs"
    using dgram.run_answers [of 0 ?w "dw_config ?w" ops] wire_ok_new [OF assms(1-3), of kind mtu] assms(4) by simp
  then show ?thesis by (auto simp: list_all2_conv_all_nth in_set_conv_nth)
qed

text \<open>
  C30. The shared KCP budget holds over every sequence of calls, with arbitrary packets, clocks and
  socket results: no call panics; the unacknowledged bytes of all engines together are covered by the counter, which stays
  within the runtime limit; each engine stays within the session limit; engines and pending authorizations together
  stay within the peer limit; and every engine with unacknowledged data has an update deadline in the heap.
\<close>

theorem wire_budget_holds:
  assumes "max_session < usize_max" and "max_runtime < usize_max" and "peers \<le> usize_max"
    and "run_out wire_step ops (dw_new kind mtu peers max_session max_runtime) = (w, outs)"
  shows "WPanic \<notin> set outs \<and> held_bytes w \<le> dw_kcp_queued w \<and> dw_kcp_queued w \<le> max_runtime \<and>
    table_len (dw_engines w) + table_len (dw_authorized w) \<le> peers \<and>
    (\<forall>p e. fmlookup (dw_engines w) p = Some e \<longrightarrow> queued_bytes e \<le> max_session \<and>
      (0 < queued_bytes e \<longrightarrow> (\<exists>d. fmlookup (dw_scheduled w) p = Some d \<and> (d, p) \<in> set (dw_deadlines w))))"
proof -
  have ok: "wire_ok 0 w" and cfg: "dw_max_peers w = peers" "dw_max_session w = max_session" "dw_max_runtime w = max_runtime"
    and np: "WPanic \<notin> set outs"
    using wire_run_ok [OF assms] by (auto simp: dw_config_def)
  have "queued_bytes e \<le> max_session \<and>
      (0 < queued_bytes e \<longrightarrow> (\<exists>d. fmlookup (dw_scheduled w) p = Some d \<and> (d, p) \<in> set (dw_deadlines w)))"
    if p: "fmlookup (dw_engines w) p = Some e" for p e
  proof -
    have f: "engine_fits (dw_mtu w - 24) max_session e"
      using wire_ok_fits [OF ok p] cfg by simp
    have q: "queued_bytes e = wait_snd (inner e) * (dw_mtu w - 24)"
      by (rule engine_fits_queued [OF f assms(1)])
    then have "queued_bytes e \<le> max_session" using f by (simp add: engine_fits_def)
    moreover have "0 < wait_snd (inner e)" if "0 < queued_bytes e" using that q by simp
    moreover have "\<exists>d. fmlookup (dw_scheduled w) p = Some d \<and> (d, p) \<in> set (dw_deadlines w)" if "0 < wait_snd (inner e)"
      using ok p that unfolding wire_ok_def sched_ok_def by blast
    ultimately show ?thesis by blast
  qed
  then show ?thesis
    using ok cfg np by (simp add: wire_ok_def charged_ok_def peers_ok_def)
qed

theorem wire_budget_holds_witness:
  "(4194304 :: nat) < usize_max \<and> (268435456 :: nat) < usize_max \<and>
   run_out wire_step demo_ops (dw_new Kcp 1200 4 4194304 268435456) =
     (demo_busy, [WStatus (Inr ()) [], WStatus (Inr ()) [], WSent (map (Pair demo_peer) (snd (engine_update 0 demo_queued))) []]) \<and>
   held_bytes demo_busy \<le> dw_kcp_queued demo_busy"
  using wire_budget_holds [OF _ _ _ demo_run [unfolded demo_wire_def]] demo_run [unfolded demo_wire_def]
  by (simp add: usize_max_def)

text \<open>
  C31. The counter is never corrected after a failing input. When a packet releases bytes of an engine and is
  then refused, the released bytes stay charged: after any further calls, the removal of the peer
  included, the counter exceeds what the engines hold by at least that amount. A peer can repeat this until
  the budget of the endpoint is used up.
\<close>

theorem wire_error_keeps_charge:
  assumes "max_session < usize_max" and "max_runtime < usize_max" and "peers \<le> usize_max"
    and "run_out wire_step ops (dw_new Kcp mtu peers max_session max_runtime) = (w, outs)"
    and "fmlookup (dw_engines w) p = Some e" and "engine_input packet now e = (e1, Inl err)"
    and "run_out wire_step (WReceive p packet now # later) w = (w', outs')"
  shows "held_bytes w' + (queued_bytes e - queued_bytes e1) \<le> dw_kcp_queued w'"
proof -
  have ok: "wire_ok 0 w" and kind: "dw_kind w = Kcp"
    using wire_run_ok [OF assms(1-4)] by (auto simp: dw_config_def)
  let ?w = "w\<lparr>dw_engines := fmupd p e1 (dw_engines w)\<rparr>"
  have r: "dw_receive p packet now w = (?w, Inl err)" using kind assms(5,6) by (simp add: dw_receive_def)
  have "engine_fits (dw_mtu w - 24) (dw_max_session w) e1" "wait_snd (inner e1) \<le> wait_snd (inner e)"
    using engine_fits_input [OF _ assms(6)] wire_ok_fits [OF ok assms(5)] by blast+
  then have "wire_ok (0 + (queued_bytes e - queued_bytes e1)) ?w"
    by (rule wire_ok_put_smaller [OF ok assms(5)])
  then have "wire_ok (queued_bytes e - queued_bytes e1) (fst (run_out wire_step later ?w))"
    using dgram.run_answers [of "queued_bytes e - queued_bytes e1" ?w "dw_config ?w" later] by simp
  moreover have "fst (run_out wire_step later ?w) = w'"
    using assms(7) r by (simp add: Let_def case_prod_unfold)
  ultimately show ?thesis by (simp add: wire_ok_def charged_ok_def)
qed

definition demo_leaked :: dgram_wire where
  "demo_leaked = remove_peer demo_peer (demo_busy\<lparr>dw_engines := fmupd demo_peer
     (demo_flushed\<lparr>now_ms := 5, inner := demo_sent\<lparr>k_snd_buf := [], k_snd_una := 1\<rparr>\<rparr>) fmempty\<rparr>)"

lemma demo_leak_run:
  "run_out wire_step [WReceive demo_peer demo_bad 5, WRemove demo_peer] demo_busy =
     (demo_leaked, [WRecords (Inl ProtocolError), WDone])"
  by (simp add: dw_receive_def demo_busy_def demo_wire_def dw_new_def demo_error demo_leaked_def)

theorem wire_error_keeps_charge_witness:
  "(4194304 :: nat) < usize_max \<and> (268435456 :: nat) < usize_max \<and>
   fst (run_out wire_step demo_ops (dw_new Kcp 1200 4 4194304 268435456)) = demo_busy \<and>
   fmlookup (dw_engines demo_busy) demo_peer = Some demo_flushed \<and>
   engine_input demo_bad 5 demo_flushed =
     (demo_flushed\<lparr>now_ms := 5, inner := demo_sent\<lparr>k_snd_buf := [], k_snd_una := 1\<rparr>\<rparr>, Inl ProtocolError) \<and>
   run_out wire_step [WReceive demo_peer demo_bad 5, WRemove demo_peer] demo_busy =
     (demo_leaked, [WRecords (Inl ProtocolError), WDone]) \<and>
   dw_engines demo_leaked = fmempty \<and> held_bytes demo_leaked + 1176 \<le> dw_kcp_queued demo_leaked"
proof -
  have e: "fmlookup (dw_engines demo_busy) demo_peer = Some demo_flushed" by (simp add: demo_busy_def)
  have "held_bytes demo_leaked + (queued_bytes demo_flushed -
      queued_bytes (demo_flushed\<lparr>now_ms := 5, inner := demo_sent\<lparr>k_snd_buf := [], k_snd_una := 1\<rparr>\<rparr>)) \<le> dw_kcp_queued demo_leaked"
    by (rule wire_error_keeps_charge [OF _ _ _ demo_run [unfolded demo_wire_def] e demo_error demo_leak_run])
      (simp_all add: usize_max_def)
  then show ?thesis
    using demo_run [unfolded demo_wire_def] e demo_error demo_leak_run
    by (simp add: demo_queued_bytes usize_max_def) (simp add: demo_leaked_def remove_peer_def demo_busy_def)
qed

end
