(* ===== verification/Datagram_Udp.thy ===== *)
theory Datagram_Udp
  imports Datagram_Safety
begin

text \<open>
  The raw UDP side of \<^verbatim>\<open>adaptive_wire.rs\<close>: the response cache answers exact duplicates, control records
  are retransmitted a bounded number of times, and the cache, once full of sources that never
  completed a handshake, recognizes no further peer.
\<close>

section \<open>The cache entry of one peer\<close>

text \<open>The calls that can change what is cached for \<open>p\<close>.\<close>

fun touches :: "socket_addr \<Rightarrow> wire_op \<Rightarrow> bool" where
  "touches p (WRemove q) \<longleftrightarrow> q = p"
| "touches p (WBegin q _) \<longleftrightarrow> q = p"
| "touches p (WReliable q _ _ _ _ _) \<longleftrightarrow> q = p"
| "touches p (WResponse q _ _ _ _) \<longleftrightarrow> q = p"
| "touches p _ \<longleftrightarrow> False"

definition udp_part :: "dgram_wire \<Rightarrow> (socket_addr, seen_record) table \<times> (socket_addr, pending_record) table" where
  "udp_part w = (dw_seen w, dw_pending w)"

lemma udp_part_helpers [simp]:
  "udp_part (schedule_update p d w) = udp_part w"
  "udp_part (reconcile_kcp_bytes a b w) = udp_part w"
  "udp_part (w\<lparr>dw_engines := es\<rparr>) = udp_part w"
  "udp_part (w\<lparr>dw_authorized := au\<rparr>) = udp_part w"
  by (simp_all add: udp_part_def schedule_update_def reconcile_kcp_bytes_def)

lemma seen_retry: "dw_seen (fst (fold (retry_one now) ps (w, out, ex))) = dw_seen w"
proof (induction ps arbitrary: w out ex)
  case (Cons p ps)
  have "dw_seen (fst (retry_one now p (w, out, ex))) = dw_seen w"
    by (simp add: retry_one_def split: option.split)
  then show ?case using Cons by (cases "retry_one now p (w, out, ex)") simp
qed simp

lemma seen_remember:
  "fmlookup (dw_seen (remember_response q bs w)) p =
     (if p \<noteq> q then fmlookup (dw_seen w) p else fmlookup (dw_seen (remember_response q bs w)) p)"
  by (simp add: remember_response_def split: option.split)

text \<open>On a UDP wire the sends are functions of the tables alone.\<close>

lemma sent_step_udp:
  assumes "dw_kind w \<noteq> Kcp"
  shows "p \<noteq> q \<Longrightarrow> fmlookup (dw_seen (fst (sent_step w (send_reliable q rec m ok ms t w)))) p = fmlookup (dw_seen w) p"
    and "p \<noteq> q \<Longrightarrow> fmlookup (dw_seen (fst (sent_step w (send_response q rec m ok ms w)))) p = fmlookup (dw_seen w) p"
    and "fst (sent_step w (dw_send q rec m ok ms w)) = w"
  using assms
  by (simp_all add: sent_step_def send_reliable_def send_response_def dw_send_def remember_response_def
      split: sum.split option.split)

lemma seen_receive: "dw_kind w \<noteq> Kcp \<Longrightarrow> fst (dw_receive q packet now w) = w"
  by (simp add: dw_receive_def)

lemma seen_untouched:
  assumes "dw_kind w \<noteq> Kcp" and "\<not> touches p x"
  shows "fmlookup (dw_seen (fst (wire_step x w))) p = fmlookup (dw_seen w) p"
proof (cases x)
  case (WRemove q)
  then show ?thesis using assms by (simp add: remove_peer_def Let_def split: option.split)
next
  case (WAuthorize q conv)
  then show ?thesis by (simp add: authorize_peer_def split: option.split)
next
  case (WReceive q packet now)
  then show ?thesis using assms seen_receive by (simp add: case_prod_unfold Let_def)
next
  case (WBegin q bs)
  then show ?thesis using assms by (simp add: begin_input_def split: option.split)
next
  case (WEnd success)
  then show ?thesis by (simp add: end_input_def Let_def)
next
  case (WRetry now)
  then show ?thesis by (simp add: dw_retry_def seen_retry case_prod_unfold Let_def)
next
  case (WFlush now)
  then show ?thesis using assms by (simp add: dw_flush_def)
qed (use assms sent_step_udp in \<open>simp_all add: revoke_authorization_def\<close>)

lemma config_sent: "(\<And>w' out r. a = Some (w', out, r) \<Longrightarrow> dw_config w' = dw_config w) \<Longrightarrow> dw_config (fst (sent_step w a)) = dw_config w"
  by (auto simp: sent_step_def split: option.split)

lemma config_step: "dw_config (fst (wire_step x w)) = dw_config w"
proof (cases x)
  case (WAuthorize p conv)
  then show ?thesis by (simp add: authorize_peer_def split: option.split)
next
  case (WSend p rec m ok now)
  then show ?thesis using config_sent [OF config_sends(1)] by simp
next
  case (WReliable p rec m ok ms now)
  then show ?thesis using config_sent [OF config_sends(2)] by simp
next
  case (WResponse p rec m ok ms)
  then show ?thesis using config_sent [OF config_sends(3)] by simp
qed (simp_all add: config_remove config_receive config_flush_loop revoke_authorization_def dw_flush_def
    kcp_part_config [OF kcp_part_udp(1)] kcp_part_config [OF kcp_part_udp(2)] kcp_part_config [OF kcp_part_udp(3)]
    case_prod_unfold Let_def)

lemma kind_step: "dw_kind (fst (wire_step x w)) = dw_kind w"
  using config_step [of x w] by (simp add: dw_config_def)

lemma run_config: "dw_config (fst (run_out wire_step ops w)) = dw_config w"
  by (induction ops arbitrary: w) (simp_all add: config_step case_prod_unfold Let_def)

lemma run_untouched:
  assumes "dw_kind w \<noteq> Kcp" and "\<not> (\<exists>x\<in>set ops. touches p x)"
  shows "fmlookup (dw_seen (fst (run_out wire_step ops w))) p = fmlookup (dw_seen w) p \<and>
    dw_kind (fst (run_out wire_step ops w)) = dw_kind w"
  using assms
proof (induction ops arbitrary: w)
  case (Cons x ops)
  then show ?case using kind_step [of x w] seen_untouched [of w p x] by (simp add: case_prod_unfold Let_def)
qed simp

section \<open>Duplicates\<close>

lemma response_cached:
  assumes "dw_kind w = Udp" and "begin_input p req w = (w1, False, None)"
    and "table_len (dw_seen w) < dw_max_peers w \<or> fmlookup (dw_seen w) p \<noteq> None"
    and "send_response p rec m ok ms w1 = Some (w2, out, Inr ())"
  shows "\<exists>bs. out = [(p, bs)] \<and> fmlookup (dw_seen w2) p = Some \<lparr>sr_request = req, sr_response = Some bs\<rparr> \<and> dw_kind w2 = Udp"
proof -
  have w1: "dw_active_input w1 = Some (p, req)" "fmlookup (dw_seen w1) p \<noteq> None" "dw_kind w1 = Udp"
    using assms(1-3) by (auto simp: begin_input_def split: option.splits if_splits)
  show ?thesis
    using assms(4) w1 by (auto simp: send_response_def remember_response_def split: sum.splits if_splits)
qed

text \<open>
  An exact duplicate is answered from the cache. When a datagram has been taken in and answered on a UDP
  wire with room in the cache, then after any calls for other peers, in any number, the same
  bytes from the same address are recognized as a duplicate and answered with the very
  bytes of the first answer, without being decrypted again.
\<close>

lemma udp_duplicate_answered:
  assumes "dw_kind w = Udp" and "begin_input p req w = (w1, False, None)"
    and "table_len (dw_seen w) < dw_max_peers w \<or> fmlookup (dw_seen w) p \<noteq> None"
    and "send_response p rec m ok ms w1 = Some (w2, out, Inr ())"
    and "\<not> (\<exists>x\<in>set ops. touches p x)" and "run_out wire_step ops w2 = (w3, outs)"
  shows "\<exists>bs. out = [(p, bs)] \<and> begin_input p req w3 = (w3, True, Some bs)"
proof -
  obtain bs where bs: "out = [(p, bs)]" "fmlookup (dw_seen w2) p = Some \<lparr>sr_request = req, sr_response = Some bs\<rparr>"
      "dw_kind w2 = Udp"
    using response_cached [OF assms(1-4)] by blast
  then have "fmlookup (dw_seen w3) p = Some \<lparr>sr_request = req, sr_response = Some bs\<rparr>" "dw_kind w3 = Udp"
    using run_untouched [OF _ assms(5), of w2] assms(6) by simp_all
  then show ?thesis using bs(1) by (simp add: begin_input_def)
qed

lemma table_keys_empty [simp]: "table_keys (fmempty :: ('k :: linorder, 'v) table) = []"
  using set_table_keys [of "fmempty :: ('k, 'v) table"] by (simp del: set_table_keys)

definition other_peer :: socket_addr where "other_peer = SockV4 84281096 5000"

lemma demo_encode_64: "encode_record demo_rec 64 = Inr (seg_data demo_seg)"
  using demo_encode by (simp add: encode_record_def validate_payload_len_def demo_rec_def u32_max_def)

section \<open>Retransmission\<close>

definition sent_to :: "socket_addr \<Rightarrow> packets \<Rightarrow> bytes list" where
  "sent_to p out = map snd (filter (\<lambda>x. fst x = p) out)"

lemma sent_to_simps [simp]:
  "sent_to p [] = []" "sent_to p (out @ out') = sent_to p out @ sent_to p out'"
  "sent_to p [(q, bs)] = (if q = p then [bs] else [])"
  by (simp_all add: sent_to_def)

text \<open>What one retry round does to one pending record.\<close>

definition retried :: "instant \<Rightarrow> pending_record \<Rightarrow> pending_record option \<times> bytes list \<times> bool" where
  "retried now r =
     (if now - pr_last_sent r < DW_RETRY_INTERVAL then (Some r, [], False)
      else if MAX_RETRY_ATTEMPTS \<le> pr_attempts r then (None, [], True)
      else (Some (r\<lparr>pr_last_sent := now, pr_attempts := pr_attempts r + 1\<rparr>), [pr_bytes r], False))"

lemma retry_one_other:
  assumes "retry_one now q (w, out, ex) = (w', out', ex')" and "p \<noteq> q"
  shows "fmlookup (dw_pending w') p = fmlookup (dw_pending w) p \<and> sent_to p out' = sent_to p out \<and>
    (p \<in> set ex' \<longleftrightarrow> p \<in> set ex)"
  using assms by (auto simp: retry_one_def split: option.splits if_splits)

lemma retry_one_self:
  assumes "retry_one now p (w, out, ex) = (w', out', ex')" and "fmlookup (dw_pending w) p = Some r"
  shows "fmlookup (dw_pending w') p = fst (retried now r) \<and> sent_to p out' = sent_to p out @ fst (snd (retried now r)) \<and>
    (p \<in> set ex' \<longleftrightarrow> p \<in> set ex \<or> snd (snd (retried now r)))"
  using assms by (auto simp: retry_one_def retried_def split: if_splits)

lemma fold_retry_other:
  assumes "fold (retry_one now) ps (w, out, ex) = (w', out', ex')" and "p \<notin> set ps"
  shows "fmlookup (dw_pending w') p = fmlookup (dw_pending w) p \<and> sent_to p out' = sent_to p out \<and>
    (p \<in> set ex' \<longleftrightarrow> p \<in> set ex)"
  using assms
proof (induction ps arbitrary: w out ex)
  case (Cons q ps)
  obtain w1 out1 ex1 where o: "retry_one now q (w, out, ex) = (w1, out1, ex1)" by (metis prod.exhaust)
  show ?case using Cons retry_one_other [OF o, of p] o by simp
qed simp

lemma fold_retry_self:
  assumes "fold (retry_one now) ps (w, out, ex) = (w', out', ex')" and "p \<in> set ps" and "distinct ps"
    and "fmlookup (dw_pending w) p = Some r"
  shows "fmlookup (dw_pending w') p = fst (retried now r) \<and> sent_to p out' = sent_to p out @ fst (snd (retried now r)) \<and>
    (p \<in> set ex' \<longleftrightarrow> p \<in> set ex \<or> snd (snd (retried now r)))"
  using assms
proof (induction ps arbitrary: w out ex)
  case (Cons q ps)
  obtain w1 out1 ex1 where o: "retry_one now q (w, out, ex) = (w1, out1, ex1)" by (metis prod.exhaust)
  show ?case
  proof (cases "q = p")
    case True
    then show ?thesis
      using Cons.prems retry_one_self [OF o [unfolded True]] fold_retry_other [of now ps w1 out1 ex1 w' out' ex' p] o by simp
  next
    case False
    then show ?thesis using Cons retry_one_other [OF o, of p] o by simp
  qed
qed simp

lemma retry_pointwise:
  assumes "dw_kind w \<noteq> Kcp" and "fmlookup (dw_pending w) p = Some r" and "dw_retry now w = (w', out, ex)"
  shows "fmlookup (dw_pending w') p = fst (retried now r) \<and> sent_to p out = fst (snd (retried now r)) \<and>
    (p \<in> set ex \<longleftrightarrow> snd (snd (retried now r)))"
proof -
  have "fold (retry_one now) (table_keys (dw_pending w)) (w, [], []) = (w', out, ex)"
    using assms(1,3) by (simp add: dw_retry_def)
  moreover have "p \<in> set (table_keys (dw_pending w))" using assms(2) by (auto intro: fmdomI)
  ultimately show ?thesis using fold_retry_self [OF _ _ _ assms(2)] by fastforce
qed

text \<open>Retry rounds at least one interval apart.\<close>

fun spaced :: "instant \<Rightarrow> instant list \<Rightarrow> bool" where
  "spaced t [] \<longleftrightarrow> True"
| "spaced t (u # us) \<longleftrightarrow> t + DW_RETRY_INTERVAL \<le> u \<and> spaced u us"

fun sent_in :: "socket_addr \<Rightarrow> wire_out \<Rightarrow> bytes list" where
  "sent_in p (WSent out _) = sent_to p out"
| "sent_in p (WStatus _ out) = sent_to p out"
| "sent_in p _ = []"

fun expired_in :: "socket_addr \<Rightarrow> wire_out \<Rightarrow> bool" where
  "expired_in p (WSent _ ex) \<longleftrightarrow> p \<in> set ex"
| "expired_in p _ \<longleftrightarrow> False"

lemma retry_rounds:
  assumes "dw_kind w \<noteq> Kcp" and "fmlookup (dw_pending w) p = Some r" and "spaced (pr_last_sent r) ts"
    and "pr_attempts r + length ts = MAX_RETRY_ATTEMPTS + 1" and "pr_attempts r \<le> MAX_RETRY_ATTEMPTS"
  shows "map (sent_in p) (snd (run_out wire_step (map WRetry ts) w)) =
      replicate (MAX_RETRY_ATTEMPTS - pr_attempts r) [pr_bytes r] @ [[]] \<and>
    map (expired_in p) (snd (run_out wire_step (map WRetry ts) w)) =
      replicate (MAX_RETRY_ATTEMPTS - pr_attempts r) False @ [True] \<and>
    fmlookup (dw_pending (fst (run_out wire_step (map WRetry ts) w))) p = None"
  using assms
proof (induction ts arbitrary: w r)
  case (Cons t ts)
  obtain w1 out ex where o: "dw_retry t w = (w1, out, ex)" by (metis prod.exhaust)
  have due: "\<not> t - pr_last_sent r < DW_RETRY_INTERVAL" using Cons.prems(3) by auto
  have kind: "dw_kind w1 \<noteq> Kcp" using kind_step [of "WRetry t" w] o Cons.prems(1) by simp
  note one = retry_pointwise [OF Cons.prems(1,2) o]
  show ?case
  proof (cases "MAX_RETRY_ATTEMPTS \<le> pr_attempts r")
    case True
    then have "ts = []" "MAX_RETRY_ATTEMPTS = pr_attempts r" using Cons.prems(4) by (cases ts; simp)+
    then show ?thesis using one due o by (simp add: retried_def)
  next
    case False
    let ?r = "r\<lparr>pr_last_sent := t, pr_attempts := pr_attempts r + 1\<rparr>"
    have r: "fmlookup (dw_pending w1) p = Some ?r" "sent_to p out = [pr_bytes r]" "p \<notin> set ex"
      using one due False by (simp_all add: retried_def)
    have "MAX_RETRY_ATTEMPTS - pr_attempts r = Suc (MAX_RETRY_ATTEMPTS - pr_attempts ?r)" using False by simp
    moreover have "spaced (pr_last_sent ?r) ts" "pr_attempts ?r + length ts = MAX_RETRY_ATTEMPTS + 1"
        "pr_attempts ?r \<le> MAX_RETRY_ATTEMPTS"
      using Cons.prems(3,4) False by simp_all
    note Cons.IH [OF kind r(1) this]
    ultimately show ?thesis using r o by (simp add: case_prod_unfold Let_def)
  qed
qed simp

text \<open>
  C32. Control records are retransmitted a bounded number of times. After a control record has been sent on a UDP
  wire and no answer arrives, the retry rounds, at least one interval apart, send exactly its bytes
  49 more times; the next round sends nothing, gives the record up and reports the peer as expired,
  which happens once.
\<close>

theorem udp_control_retransmitted:
  assumes "dw_kind w = Udp" and "send_reliable p rec m True ms t0 w = Some (w1, out, Inr ())"
    and "spaced t0 ts" and "length ts = 50" and "run_out wire_step (map WRetry ts) w1 = (w2, outs)"
  shows "\<exists>bs. out = [(p, bs)] \<and> map (sent_in p) outs = replicate 49 [bs] @ [[]] \<and>
    map (expired_in p) outs = replicate 49 False @ [True] \<and> fmlookup (dw_pending w2) p = None"
proof -
  obtain bs where bs: "encode_record rec m = Inr bs" "out = [(p, bs)]" "w1 = remember_response p bs
      (w\<lparr>dw_pending := fmupd p \<lparr>pr_bytes = bs, pr_last_sent = t0, pr_attempts = 1\<rparr> (dw_pending w)\<rparr>)"
    using assms(1,2) by (auto simp: send_reliable_def split: sum.splits if_splits)
  have "fmlookup (dw_pending w1) p = Some \<lparr>pr_bytes = bs, pr_last_sent = t0, pr_attempts = 1\<rparr>" "dw_kind w1 \<noteq> Kcp"
    using bs(3) assms(1) by (simp_all add: remember_response_def split: option.split)
  then show ?thesis
    using retry_rounds [of w1 p _ ts] assms(3-5) bs(2) by (simp add: MAX_RETRY_ATTEMPTS_def)
qed

definition demo_rounds :: "instant list" where
  "demo_rounds = map (\<lambda>i. millis (100 * (i + 1))) [0..<50]"

lemma demo_rounds_spaced: "spaced 0 demo_rounds"
proof -
  have "spaced (millis (100 * i)) (map (\<lambda>i. millis (100 * (i + 1))) [i..<j])" for i j
  proof (induction "j - i" arbitrary: i)
    case (Suc n)
    then have "[i..<j] = i # [Suc i..<j]" by (intro upt_conv_Cons) simp
    moreover have "millis (100 * i) + DW_RETRY_INTERVAL \<le> millis (100 * Suc i)"
      by (simp add: DW_RETRY_INTERVAL_def algebra_simps)
    ultimately show ?case using Suc(1) [of "Suc i"] Suc(2) by simp
  qed simp
  from this [of 0 50] show ?thesis by (simp add: demo_rounds_def)
qed

definition demo_pending :: dgram_wire where
  "demo_pending = (dw_new Udp 1200 4 4096 65536)\<lparr>dw_pending := fmupd demo_peer
     \<lparr>pr_bytes = seg_data demo_seg, pr_last_sent = 0, pr_attempts = 1\<rparr> fmempty\<rparr>"

lemma demo_reliable:
  "send_reliable demo_peer demo_rec 64 True 0 0 (dw_new Udp 1200 4 4096 65536) =
     Some (demo_pending, [(demo_peer, seg_data demo_seg)], Inr ())"
  by (simp add: send_reliable_def demo_encode_64 remember_response_def demo_pending_def dw_new_def)

theorem udp_control_retransmitted_witness:
  "send_reliable demo_peer demo_rec 64 True 0 0 (dw_new Udp 1200 4 4096 65536) =
     Some (demo_pending, [(demo_peer, seg_data demo_seg)], Inr ()) \<and> spaced 0 demo_rounds \<and> length demo_rounds = 50 \<and>
   map (sent_in demo_peer) (snd (run_out wire_step (map WRetry demo_rounds) demo_pending)) =
     replicate 49 [seg_data demo_seg] @ [[]]"
proof -
  have n: "length demo_rounds = 50" by (simp add: demo_rounds_def)
  show ?thesis
    using udp_control_retransmitted [OF _ demo_reliable demo_rounds_spaced n prod.collapse [symmetric]]
      demo_reliable demo_rounds_spaced n by (simp add: dw_new_def)
qed

section \<open>A full cache\<close>

lemma seen_full_stays:
  assumes "dw_kind w = Udp" and "dw_max_peers w \<le> table_len (dw_seen w)"
    and "\<And>q. x = WRemove q \<Longrightarrow> fmlookup (dw_seen w) q = None"
  shows "fmdom (dw_seen (fst (wire_step x w))) = fmdom (dw_seen w)"
proof (cases x)
  case (WRemove q)
  then show ?thesis using assms(3) [OF WRemove] by (simp add: remove_peer_def Let_def fmdrop_absent split: option.split)
next
  case (WBegin q bs)
  then show ?thesis using assms(1,2) by (auto simp: begin_input_def fmdom_notD split: option.split intro: fmdomI)
next
  case (WReliable q rec m ok ms t)
  then show ?thesis using assms(1,2)
    by (auto simp: sent_step_def send_reliable_def remember_response_def split: sum.split option.split intro: fmdomI)
next
  case (WResponse q rec m ok ms)
  then show ?thesis using assms(1,2)
    by (auto simp: sent_step_def send_response_def remember_response_def split: sum.split option.split intro: fmdomI)
next
  case (WAuthorize q conv)
  then show ?thesis by (simp add: authorize_peer_def split: option.split)
qed (use assms(1) in \<open>simp_all add: seen_retry dw_retry_def sent_step_def dw_send_def dw_receive_def dw_flush_def
    end_input_def revoke_authorization_def case_prod_unfold Let_def split: sum.split\<close>)

lemma seen_full_run:
  assumes "dw_kind w = Udp" and "dw_max_peers w \<le> table_len (dw_seen w)" and "p |\<notin>| fmdom (dw_seen w)"
    and "\<And>q. WRemove q \<in> set ops \<Longrightarrow> q |\<notin>| fmdom (dw_seen w)" and "i < length ops" and "ops ! i = WBegin p bs"
  shows "snd (run_out wire_step ops w) ! i = WDuplicate False None"
  using assms
proof (induction ops arbitrary: w i)
  case (Cons x ops)
  have dom: "fmdom (dw_seen (fst (wire_step x w))) = fmdom (dw_seen w)"
    by (rule seen_full_stays [OF Cons.prems(1,2)]) (use Cons.prems(4) in \<open>auto simp: fmdom_notD\<close>)
  then have len: "table_len (dw_seen (fst (wire_step x w))) = table_len (dw_seen w)" by (simp add: table_len_def)
  have cfg: "dw_kind (fst (wire_step x w)) = Udp" "dw_max_peers (fst (wire_step x w)) = dw_max_peers w"
    using config_step [of x w] Cons.prems(1) by (simp_all add: dw_config_def)
  show ?case
  proof (cases i)
    case 0
    then show ?thesis
      using Cons.prems(1,3,6) by (simp add: begin_input_def fmdom_notD case_prod_unfold Let_def)
  next
    case (Suc j)
    then show ?thesis
      using Cons.IH [of "fst (wire_step x w)" j] Cons.prems cfg dom len by (simp add: case_prod_unfold Let_def)
  qed
qed simp

lemma seen_visits:
  assumes "dw_kind w = Udp" and "distinct (map fst visits)" and "\<forall>v\<in>set visits. fst v |\<notin>| fmdom (dw_seen w)"
    and "table_len (dw_seen w) + length visits \<le> dw_max_peers w"
  shows "fmdom (dw_seen (fst (run_out wire_step (map (\<lambda>(q, bs). WBegin q bs) visits) w))) =
      fmdom (dw_seen w) |\<union>| fset_of_list (map fst visits) \<and>
    table_len (dw_seen (fst (run_out wire_step (map (\<lambda>(q, bs). WBegin q bs) visits) w))) =
      table_len (dw_seen w) + length visits"
  using assms
proof (induction visits arbitrary: w)
  case (Cons v visits)
  obtain q bs where v: "v = (q, bs)" by (cases v)
  let ?w = "fst (wire_step (WBegin q bs) w)"
  have none: "fmlookup (dw_seen w) q = None" using Cons.prems(3) v by (simp add: fmdom_notD)
  then have seen: "dw_seen ?w = fmupd q \<lparr>sr_request = bs, sr_response = None\<rparr> (dw_seen w)" "dw_kind ?w = Udp"
      "dw_max_peers ?w = dw_max_peers w"
    using Cons.prems(1,4) by (simp_all add: begin_input_def)
  have len: "table_len (dw_seen ?w) = table_len (dw_seen w) + 1" unfolding seen(1) using none by (simp add: fmdrop_absent)
  show ?case
    using Cons.IH [OF seen(2)] Cons.prems(2-4) v seen len by (auto simp: case_prod_unfold Let_def)
qed simp

text \<open>
  C33. The cache can be filled for good by sources that prove nothing. Once as many addresses as there may be peers have
  each sent one control record over UDP, which the wire records before any cookie is checked, no datagram of
  another peer is ever recognized as a duplicate again, whatever happens afterwards, as long as those
  addresses are not removed; nothing removes an address that never became a peer.
\<close>

theorem udp_cache_exhausted:
  assumes "distinct (map fst visits)" and "length visits = peers" and "p \<notin> fst ` set visits"
    and "\<not> (\<exists>q\<in>fst ` set visits. WRemove q \<in> set later)" and "i < length later" and "later ! i = WBegin p bs"
    and "run_out wire_step (map (\<lambda>(q, bs). WBegin q bs) visits) (dw_new Udp mtu peers max_session max_runtime) = (w, outs)"
    and "run_out wire_step later w = (w', outs')"
  shows "outs' ! i = WDuplicate False None"
proof -
  let ?w = "dw_new Udp mtu peers max_session max_runtime"
  have d: "fmdom (dw_seen w) = fset_of_list (map fst visits)" "table_len (dw_seen w) = peers"
    using seen_visits [of ?w visits] assms(1,2,7) by (simp_all add: dw_new_def)
  have c: "dw_kind w = Udp \<and> dw_max_peers w = peers"
    using run_config [of "map (\<lambda>(q, bs). WBegin q bs) visits" ?w] assms(7) by (simp add: dw_config_def dw_new_def)
  have "snd (run_out wire_step later w) ! i = WDuplicate False None"
    by (rule seen_full_run [OF _ _ _ _ assms(5,6)]) (use c d assms(3,4) in \<open>auto simp: fset_of_list_elem\<close>)
  then show ?thesis using assms(8) by simp
qed

definition demo_full :: dgram_wire where
  "demo_full = (dw_new Udp 1200 1 4096 65536)\<lparr>dw_seen := fmupd other_peer \<lparr>sr_request = [9], sr_response = None\<rparr> fmempty,
     dw_active_input := Some (other_peer, [9])\<rparr>"

lemma demo_fill:
  "run_out wire_step (map (\<lambda>(q, bs). WBegin q bs) [(other_peer, [9])]) (dw_new Udp 1200 1 4096 65536) =
     (demo_full, [WDuplicate False None])"
  by (simp add: begin_input_def demo_full_def dw_new_def)

theorem udp_cache_exhausted_witness:
  "run_out wire_step (map (\<lambda>(q, bs). WBegin q bs) [(other_peer, [9])]) (dw_new Udp 1200 1 4096 65536) =
     (demo_full, [WDuplicate False None]) \<and>
   snd (run_out wire_step [WBegin demo_peer [1], WEnd True, WBegin demo_peer [1]] demo_full) ! 2 = WDuplicate False None"
proof -
  have "snd (run_out wire_step [WBegin demo_peer [1], WEnd True, WBegin demo_peer [1]] demo_full) ! 2 = WDuplicate False None"
    by (rule udp_cache_exhausted [OF _ _ _ _ _ _ demo_fill prod.collapse [symmetric], of demo_peer _ _ "[1]"])
      (simp_all add: demo_peer_def other_peer_def)
  then show ?thesis using demo_fill by blast
qed

end
