(* ===== verification/Transport_State.thy ===== *)
theory Transport_State
  imports Handles Tcp_Session Net_Address Runtime_Lifecycle Step_System
begin

text \<open>
  The registry of the transport runtime: \<^verbatim>\<open>state.rs\<close>, \<^verbatim>\<open>session_close.rs\<close>, \<^verbatim>\<open>endpoint_failure.rs\<close>,
  \<^verbatim>\<open>lifecycle.rs\<close>, \<^verbatim>\<open>runtime_registry.rs\<close> and the session checks of \<^verbatim>\<open>session.rs\<close> in \<^verbatim>\<open>rnet-transport\<close>. It composes
  the handle tables, the event queue and the lifecycle flag. The cleanup channel of the datagram
  drivers is the list of requests sent on it; byte budgets, the latest-value registry and
  counters without influence on control flow are not part of this state.
\<close>

section \<open>State\<close>

datatype session_target =
    TargetTcp
  | TargetUdp socket_addr nat bool
  | TargetKcp socket_addr bool

record session_route =
  rt_endpoint :: handle
  rt_target :: session_target
  rt_established :: bool
  rt_auth_decision :: bool
  rt_security_commands :: bool
  rt_game_controls :: bool

record endpoint_record =
  er_local_addr :: socket_addr
  er_transport :: transport
  er_abort :: bool

record transport_config =
  tc_max_pending :: nat
  tc_max_endpoints :: nat
  tc_max_body :: nat

record shared =
  sh_config :: transport_config
  sh_state :: nat
  sh_events :: event_queue
  sh_endpoints :: "endpoint_record handle_table"
  sh_sessions :: "session_route handle_table"
  sh_pending :: nat
  sh_closed :: nat
  sh_cleanups :: "(socket_addr \<times> handle) list"
  sh_stopped_emitted :: bool

text \<open>
  \<^verbatim>\<open>RuntimeConfig::validate\<close> and the worker pool are outside; the flag has been moved to running.
\<close>

definition shared_new :: "transport_config \<Rightarrow> event_queue \<Rightarrow> instant \<Rightarrow> shared" where
  "shared_new cfg events now =
     \<lparr>sh_config = cfg, sh_state = fst (lc_start lc_created),
      sh_events = fst (eq_try_push (event_simple RuntimeStarted now) now events),
      sh_endpoints = ht_new, sh_sessions = ht_new, sh_pending = 0, sh_closed = 0, sh_cleanups = [],
      sh_stopped_emitted = False\<rparr>"

section \<open>Sessions\<close>

definition try_reserve_pending_handshake :: "shared \<Rightarrow> shared \<times> bool" where
  "try_reserve_pending_handshake s =
     (if sh_pending s < tc_max_pending (sh_config s) then (s\<lparr>sh_pending := sh_pending s + 1\<rparr>, True) else (s, False))"

definition release_pending_handshake :: "shared \<Rightarrow> shared" where
  "release_pending_handshake s = s\<lparr>sh_pending := sh_pending s - 1\<rparr>"

text \<open>\<open>None\<close> is the panic of a table without a free handle.\<close>

definition insert_session_route :: "session_route \<Rightarrow> shared \<Rightarrow> (shared \<times> handle result) option" where
  "insert_session_route route s =
     (let (s1, reserved) = (if \<not> rt_established route then try_reserve_pending_handshake s else (s, True))
      in if \<not> reserved then Some (s1, Inl WouldBlock)
         else case ht_insert route (sh_sessions s1) of
           None \<Rightarrow> None
         | Some (t, h) \<Rightarrow> Some (s1\<lparr>sh_sessions := t\<rparr>, Inr h))"

definition release_pending_session :: "session_route \<Rightarrow> shared \<Rightarrow> shared" where
  "release_pending_session route s = (if \<not> rt_established route then release_pending_handshake s else s)"

definition mark_session_established :: "handle \<Rightarrow> shared \<Rightarrow> shared \<times> unit result" where
  "mark_session_established session s = (case ht_get (sh_sessions s) session of
       None \<Rightarrow> (s, Inl InvalidHandle)
     | Some route \<Rightarrow>
         let s1 = (if \<not> rt_established route then release_pending_handshake s else s)
         in case ht_get_mut (\<lambda>r. r\<lparr>rt_established := True, rt_auth_decision := False\<rparr>) (sh_sessions s1) session of
              None \<Rightarrow> (s1, Inl InvalidHandle)
            | Some t \<Rightarrow> (s1\<lparr>sh_sessions := t\<rparr>, Inr ()))"

definition session_active :: "handle \<Rightarrow> shared \<Rightarrow> bool" where
  "session_active session s \<longleftrightarrow> ht_get (sh_sessions s) session \<noteq> None"

definition retarget :: "socket_addr \<Rightarrow> session_target \<Rightarrow> session_target option" where
  "retarget peer target = (case target of
       TargetTcp \<Rightarrow> None
     | TargetUdp _ limit cleanup \<Rightarrow> Some (TargetUdp peer limit cleanup)
     | TargetKcp _ cleanup \<Rightarrow> Some (TargetKcp peer cleanup))"

definition retarget_datagram_session :: "handle \<Rightarrow> socket_addr \<Rightarrow> shared \<Rightarrow> shared \<times> unit result" where
  "retarget_datagram_session session peer s = (case ht_get (sh_sessions s) session of
       None \<Rightarrow> (s, Inl InvalidHandle)
     | Some route \<Rightarrow>
         (case retarget peer (rt_target route) of
            None \<Rightarrow> (s, Inl InvalidState)
          | Some target \<Rightarrow>
              (case ht_get_mut (\<lambda>r. r\<lparr>rt_target := target\<rparr>) (sh_sessions s) session of
                 None \<Rightarrow> (s, Inl InvalidHandle)
               | Some t \<Rightarrow> (s\<lparr>sh_sessions := t\<rparr>, Inr ()))))"

definition retarget_datagram_endpoint :: "handle \<Rightarrow> socket_addr \<Rightarrow> shared \<Rightarrow> shared \<times> unit result" where
  "retarget_datagram_endpoint endpoint addr s =
     (case ht_get_mut (\<lambda>r. r\<lparr>er_local_addr := addr\<rparr>) (sh_endpoints s) endpoint of
        None \<Rightarrow> (s, Inl InvalidHandle)
      | Some t \<Rightarrow> (s\<lparr>sh_endpoints := t\<rparr>, Inr ()))"

definition auth_decide :: "handle \<Rightarrow> bool \<Rightarrow> shared \<Rightarrow> shared \<times> unit result" where
  "auth_decide session listening s = (case ht_get (sh_sessions s) session of
       None \<Rightarrow> (s, Inl InvalidHandle)
     | Some route \<Rightarrow>
         if \<not> rt_auth_decision route then (s, Inl InvalidState)
         else case ht_get_mut (\<lambda>r. r\<lparr>rt_auth_decision := False\<rparr>) (sh_sessions s) session of
           None \<Rightarrow> (s, Inl InvalidHandle)
         | Some t \<Rightarrow> (s\<lparr>sh_sessions := t\<rparr>, if listening then Inr () else Inl InvalidState))"

definition validate_send_len :: "handle \<Rightarrow> nat \<Rightarrow> shared \<Rightarrow> unit result" where
  "validate_send_len session payload_len s =
     (if lc_load (sh_state s) \<noteq> Running then Inl InvalidState
      else if tc_max_body (sh_config s) < payload_len then Inl MessageTooLarge
      else case ht_get (sh_sessions s) session of
        None \<Rightarrow> Inl InvalidHandle
      | Some route \<Rightarrow>
          if \<not> rt_established route then Inl HandshakeRequired
          else (case rt_target route of
                  TargetUdp _ max_frame_len _ \<Rightarrow>
                    (case checked_add payload_len HEADER_LEN of
                       None \<Rightarrow> Inl MessageTooLarge
                     | Some frame_len \<Rightarrow> if max_frame_len < frame_len then Inl MessageTooLarge else Inr ())
                | _ \<Rightarrow> Inr ()))"

section \<open>Closing\<close>

definition publish_lifecycle :: "event \<Rightarrow> instant \<Rightarrow> shared \<Rightarrow> shared" where
  "publish_lifecycle ev now s = s\<lparr>sh_events := fst (eq_push_priority ev now (sh_events s))\<rparr>"

definition request_cleanup :: "session_target \<Rightarrow> handle \<Rightarrow> shared \<Rightarrow> shared" where
  "request_cleanup target session s = (case target of
       TargetTcp \<Rightarrow> s
     | TargetUdp peer _ cleanup \<Rightarrow> if cleanup then s\<lparr>sh_cleanups := sh_cleanups s @ [(peer, session)]\<rparr> else s
     | TargetKcp peer cleanup \<Rightarrow> if cleanup then s\<lparr>sh_cleanups := sh_cleanups s @ [(peer, session)]\<rparr> else s)"

definition status_event :: "event_type \<Rightarrow> handle \<Rightarrow> handle \<Rightarrow> error_code \<Rightarrow> bytes \<Rightarrow> instant \<Rightarrow> event" where
  "status_event kind endpoint session reason detail now =
     (session_event kind endpoint session now)\<lparr>ev_status := reason, ev_data := detail\<rparr>"

text \<open>\<open>detail\<close> is the text of \<^verbatim>\<open>diagnostic_bytes\<close>, empty when the caller passes none.\<close>

definition close_session_inner :: "handle \<Rightarrow> error_code \<Rightarrow> bytes \<Rightarrow> bool \<Rightarrow> instant \<Rightarrow> shared \<Rightarrow> shared" where
  "close_session_inner session reason detail joining now s =
     (case ht_remove (sh_sessions s) session of
        (t, None) \<Rightarrow> s\<lparr>sh_sessions := t\<rparr>
      | (t, Some route) \<Rightarrow>
          let s1 = release_pending_session route (s\<lparr>sh_sessions := t\<rparr>);
              s2 = request_cleanup (rt_target route) session (s1\<lparr>sh_closed := sh_closed s1 + 1\<rparr>);
              s3 = (if joining \<and> \<not> rt_established route
                    then publish_lifecycle (status_event JoinFailed (rt_endpoint route) session reason detail now) now s2
                    else s2)
          in publish_lifecycle (status_event SessionClosed (rt_endpoint route) session reason detail now) now s3)"

definition remove_session :: "handle \<Rightarrow> instant \<Rightarrow> shared \<Rightarrow> shared" where
  "remove_session session now s = close_session_inner session Ok_Status [] False now s"

definition remove_session_with_error :: "handle \<Rightarrow> error_code \<Rightarrow> bytes \<Rightarrow> instant \<Rightarrow> shared \<Rightarrow> shared" where
  "remove_session_with_error session code detail now s = close_session_inner session code detail False now s"

definition try_push_session_event :: "event \<Rightarrow> instant \<Rightarrow> shared \<Rightarrow> shared \<times> unit result" where
  "try_push_session_event ev now s = (case eq_try_push ev now (sh_events s) of
       (q, Inr _) \<Rightarrow> (s\<lparr>sh_events := q\<rparr>, Inr ())
     | (q, Inl _) \<Rightarrow>
         let s1 = s\<lparr>sh_events := q\<rparr>
         in (if ev_session ev \<noteq> 0 then remove_session (ev_session ev) now s1 else s1, Inl WouldBlock))"

definition close_session :: "handle \<Rightarrow> error_code \<Rightarrow> instant \<Rightarrow> shared \<Rightarrow> shared \<times> unit result" where
  "close_session session reason now s = (case ht_remove (sh_sessions s) session of
       (t, None) \<Rightarrow> (s\<lparr>sh_sessions := t\<rparr>, Inl InvalidHandle)
     | (t, Some route) \<Rightarrow>
         let s1 = release_pending_session route (s\<lparr>sh_sessions := t\<rparr>);
             s2 = request_cleanup (rt_target route) session (s1\<lparr>sh_closed := sh_closed s1 + 1\<rparr>)
         in (publish_lifecycle (status_event SessionClosed (rt_endpoint route) session reason [] now) now s2, Inr ()))"

definition discard_session :: "handle \<Rightarrow> shared \<Rightarrow> shared" where
  "discard_session session s = (case ht_remove (sh_sessions s) session of
       (t, None) \<Rightarrow> s\<lparr>sh_sessions := t\<rparr>
     | (t, Some route) \<Rightarrow> release_pending_session route (s\<lparr>sh_sessions := t\<rparr>))"

section \<open>Endpoints\<close>

definition insert_endpoint :: "socket_addr \<Rightarrow> transport \<Rightarrow> shared \<Rightarrow> (shared \<times> handle result) option" where
  "insert_endpoint addr kind s =
     (if tc_max_endpoints (sh_config s) \<le> ht_len (sh_endpoints s) then Some (s, Inl WouldBlock)
      else case ht_insert \<lparr>er_local_addr = addr, er_transport = kind, er_abort = False\<rparr> (sh_endpoints s) of
        None \<Rightarrow> None
      | Some (t, h) \<Rightarrow> Some (s\<lparr>sh_endpoints := t\<rparr>, Inr h))"

definition set_endpoint_abort :: "handle \<Rightarrow> shared \<Rightarrow> shared \<times> unit result" where
  "set_endpoint_abort endpoint s =
     (case ht_get_mut (\<lambda>r. r\<lparr>er_abort := True\<rparr>) (sh_endpoints s) endpoint of
        None \<Rightarrow> (s, Inl InvalidHandle)
      | Some t \<Rightarrow> (s\<lparr>sh_endpoints := t\<rparr>, Inr ()))"

definition discard_endpoint :: "handle \<Rightarrow> shared \<Rightarrow> shared" where
  "discard_endpoint endpoint s = s\<lparr>sh_endpoints := fst (ht_remove (sh_endpoints s) endpoint)\<rparr>"

definition sessions_of :: "handle \<Rightarrow> shared \<Rightarrow> handle list" where
  "sessions_of endpoint s =
     filter (\<lambda>h. case ht_get (sh_sessions s) h of None \<Rightarrow> False | Some route \<Rightarrow> rt_endpoint route = endpoint)
       (ht_handles (sh_sessions s))"

definition close_for_endpoint :: "handle \<Rightarrow> instant \<Rightarrow> handle \<Rightarrow> shared \<Rightarrow> shared" where
  "close_for_endpoint endpoint now session s = (case ht_remove (sh_sessions s) session of
       (t, None) \<Rightarrow> s\<lparr>sh_sessions := t\<rparr>
     | (t, Some route) \<Rightarrow>
         let s1 = release_pending_session route (s\<lparr>sh_sessions := t\<rparr>)
         in publish_lifecycle (session_event SessionClosed endpoint session now) now (s1\<lparr>sh_closed := sh_closed s1 + 1\<rparr>))"

definition close_endpoint_sessions :: "handle \<Rightarrow> instant \<Rightarrow> shared \<Rightarrow> shared" where
  "close_endpoint_sessions endpoint now s = fold (close_for_endpoint endpoint now) (sessions_of endpoint s) s"

definition close_endpoint :: "handle \<Rightarrow> instant \<Rightarrow> shared \<Rightarrow> shared \<times> unit result" where
  "close_endpoint endpoint now s = (case ht_remove (sh_endpoints s) endpoint of
       (t, None) \<Rightarrow> (s\<lparr>sh_endpoints := t\<rparr>, Inl InvalidHandle)
     | (t, Some _) \<Rightarrow> (close_endpoint_sessions endpoint now (s\<lparr>sh_endpoints := t\<rparr>), Inr ()))"

definition fail_endpoint :: "handle \<Rightarrow> handle option \<Rightarrow> error_code \<Rightarrow> bytes \<Rightarrow> instant \<Rightarrow> shared \<Rightarrow> shared" where
  "fail_endpoint endpoint initial_client code detail now s = (case ht_remove (sh_endpoints s) endpoint of
       (t, None) \<Rightarrow> s\<lparr>sh_endpoints := t\<rparr>
     | (t, Some _) \<Rightarrow>
         let s1 = s\<lparr>sh_endpoints := t\<rparr>;
             s2 = publish_lifecycle (status_event EndpointError endpoint 0 code detail now) now s1
         in fold (\<lambda>session. close_session_inner session code detail (initial_client = Some session) now)
              (sessions_of endpoint s1) s2)"

definition emit_runtime_stopped :: "instant \<Rightarrow> shared \<Rightarrow> shared" where
  "emit_runtime_stopped now s =
     (if sh_stopped_emitted s then s
      else (publish_lifecycle (event_simple RuntimeStopped now) now s)\<lparr>sh_stopped_emitted := True\<rparr>)"

text \<open>
  \<^verbatim>\<open>stop\<close> in two parts, between which it waits for sessions to disappear: the first answers, or goes on
  to the second.
\<close>

definition stop_begin :: "instant \<Rightarrow> shared \<Rightarrow> shared \<times> unit result option" where
  "stop_begin now s = (case lc_load (sh_state s) of
       Stopped \<Rightarrow> (emit_runtime_stopped now s, Some (Inr ()))
     | Running \<Rightarrow>
         (case lc_begin_draining (sh_state s) of
            (n, Inl e) \<Rightarrow> (s\<lparr>sh_state := n\<rparr>, Some (Inl e))
          | (n, Inr _) \<Rightarrow> (s\<lparr>sh_state := n\<rparr>, None))
     | Draining \<Rightarrow> (s, None)
     | Created \<Rightarrow> (s, Some (Inl InvalidState)))"

definition stop_finish :: "instant \<Rightarrow> shared \<Rightarrow> shared \<times> unit result" where
  "stop_finish now s =
     (let s1 = fold (\<lambda>endpoint s. fst (close_endpoint endpoint now s)) (ht_handles (sh_endpoints s)) s
      in case lc_mark_stopped (sh_state s1) of
           (n, Inl e) \<Rightarrow> (s1\<lparr>sh_state := n\<rparr>, Inl e)
         | (n, Inr _) \<Rightarrow> (emit_runtime_stopped now (s1\<lparr>sh_state := n\<rparr>), Inr ()))"

end
