(* ===== verification/Transport_Registry.thy ===== *)
theory Transport_Registry
  imports Transport_State
begin

text \<open>
  What the registry of \<open>Transport_State\<close> promises over every interleaving of its operations: handshake
  slots are counted exactly, every session ends once, and closing an endpoint ends its sessions and no others.
\<close>

section \<open>Counting routes\<close>

definition routes :: "shared \<Rightarrow> handle \<rightharpoonup> session_route" where
  "routes s = ht_get (sh_sessions s)"

definition unready :: "(handle \<rightharpoonup> session_route) \<Rightarrow> handle set" where
  "unready m = {h. \<exists>r. m h = Some r \<and> \<not> rt_established r}"

lemma unready_dom: "unready m \<subseteq> dom m"
  by (auto simp: unready_def)

lemma unready_upd:
  "unready (m(h \<mapsto> r)) = (if rt_established r then unready m - {h} else insert h (unready m))"
  "unready (m(h := None)) = unready m - {h}"
  by (auto simp: unready_def)

lemma finite_routes: "wf_ht (sh_sessions s) \<Longrightarrow> finite (dom (routes s))"
  unfolding routes_def using ht_handles_live(1) [of "sh_sessions s"] by (metis List.finite_set)

text \<open>\<open>spare\<close> handles are still free in each table.\<close>

definition tables_ok :: "nat \<Rightarrow> shared \<Rightarrow> bool" where
  "tables_ok spare s \<longleftrightarrow> wf_ht (sh_sessions s) \<and> wf_ht (sh_endpoints s) \<and>
     length (slots (sh_sessions s)) + spare \<le> slot_limit \<and> length (slots (sh_endpoints s)) + spare \<le> slot_limit"

definition shared_ok :: "nat \<Rightarrow> shared \<Rightarrow> bool" where
  "shared_ok spare s \<longleftrightarrow> tables_ok spare s \<and> sh_pending s = card (unready (routes s)) \<and>
     sh_pending s \<le> tc_max_pending (sh_config s)"

definition ended :: "shared \<Rightarrow> nat" where
  "ended s = card (dom (routes s)) + sh_closed s"

text \<open>What an operation keeps that neither opens nor discards a session.\<close>

definition keeps :: "nat \<Rightarrow> shared \<Rightarrow> shared \<Rightarrow> bool" where
  "keeps spare s s' \<longleftrightarrow> (shared_ok spare s \<longrightarrow> shared_ok spare s' \<and> ended s' = ended s \<and> sh_config s' = sh_config s)"

lemma keeps_refl [simp]: "keeps n s s"
  by (simp add: keeps_def)

lemma keeps_trans: "keeps n s s' \<Longrightarrow> keeps n s' s'' \<Longrightarrow> keeps n s s''"
  by (auto simp: keeps_def)

lemma keeps_fold: "(\<And>x s. keeps n s (f x s)) \<Longrightarrow> keeps n s (fold f xs s)"
  by (induction xs arbitrary: s) (auto intro: keeps_trans)

lemma keeps_frame:
  "sh_sessions s' = sh_sessions s \<Longrightarrow> sh_endpoints s' = sh_endpoints s \<Longrightarrow> sh_pending s' = sh_pending s \<Longrightarrow>
   sh_closed s' = sh_closed s \<Longrightarrow> sh_config s' = sh_config s \<Longrightarrow> keeps n s s'"
  by (simp add: keeps_def shared_ok_def tables_ok_def ended_def routes_def)

lemma ht_remove_length: "length (slots (fst (ht_remove t h))) = length (slots t)"
  by (simp add: ht_remove_def split: option.split prod.split)

lemma ht_get_mut_length: "ht_get_mut f t h = Some t' \<Longrightarrow> length (slots t') = length (slots t)"
  by (auto simp: ht_get_mut_def split: option.splits if_splits)

lemma ht_insert_length: "ht_insert v t = Some (t', h) \<Longrightarrow> length (slots t') \<le> Suc (length (slots t))"
  by (auto simp: ht_insert_def Let_def split: if_splits prod.splits)

section \<open>Closing one session\<close>

lemma remove_route:
  assumes ok: "shared_ok n s" and r: "ht_remove (sh_sessions s) h = (t, Some route)"
  shows "shared_ok n (release_pending_session route (s\<lparr>sh_sessions := t\<rparr>)) \<and>
    routes (release_pending_session route (s\<lparr>sh_sessions := t\<rparr>)) = (routes s)(h := None) \<and>
    card (dom (routes s)) = Suc (card (dom ((routes s)(h := None)))) \<and> routes s h = Some route"
proof -
  have wf: "wf_ht (sh_sessions s)" using ok by (simp add: shared_ok_def tables_ok_def)
  have m: "wf_ht t" "ht_get (sh_sessions s) h = Some route" "ht_get t = (ht_get (sh_sessions s))(h := None)"
    using ht.rem_map [OF wf r] by auto
  have fin: "finite (dom (routes s))" by (rule finite_routes [OF wf])
  have "h \<in> dom (routes s)" using m(2) by (auto simp: routes_def)
  then have d: "card (dom (routes s)) = Suc (card (dom (routes s) - {h}))" by (rule card.remove [OF fin])
  have u: "card (unready (routes s) - {h}) = card (unready (routes s)) - (if rt_established route then 0 else 1)"
    using m(2) by (auto simp: routes_def unready_def card_Diff_singleton_if)
  have len: "length (slots t) = length (slots (sh_sessions s))" using ht_remove_length [of "sh_sessions s" h] r by simp
  have routes': "routes (release_pending_session route (s\<lparr>sh_sessions := t\<rparr>)) = (routes s)(h := None)"
    using m(3) by (simp add: routes_def release_pending_session_def release_pending_handshake_def)
  have "shared_ok n (release_pending_session route (s\<lparr>sh_sessions := t\<rparr>))"
    using ok m(1) len u routes'
    by (auto simp: shared_ok_def tables_ok_def unready_upd release_pending_session_def release_pending_handshake_def)
  then show ?thesis using routes' d m(2) by (simp add: routes_def)
qed

lemma publish_parts [simp]:
  "sh_sessions (publish_lifecycle ev now s) = sh_sessions s" "sh_endpoints (publish_lifecycle ev now s) = sh_endpoints s"
  "sh_pending (publish_lifecycle ev now s) = sh_pending s" "sh_closed (publish_lifecycle ev now s) = sh_closed s"
  "sh_config (publish_lifecycle ev now s) = sh_config s"
  by (simp_all add: publish_lifecycle_def)

lemma cleanup_parts [simp]:
  "sh_sessions (request_cleanup tg h s) = sh_sessions s" "sh_endpoints (request_cleanup tg h s) = sh_endpoints s"
  "sh_pending (request_cleanup tg h s) = sh_pending s" "sh_closed (request_cleanup tg h s) = sh_closed s"
  "sh_config (request_cleanup tg h s) = sh_config s"
  by (simp_all add: request_cleanup_def split: session_target.split)

lemma release_parts [simp]:
  "sh_sessions (release_pending_session r s) = sh_sessions s" "sh_endpoints (release_pending_session r s) = sh_endpoints s"
  "sh_closed (release_pending_session r s) = sh_closed s" "sh_config (release_pending_session r s) = sh_config s"
  by (simp_all add: release_pending_session_def release_pending_handshake_def)

text \<open>A closed route: the part of the state that the accounting is about.\<close>

lemma keeps_closed:
  assumes r: "ht_remove (sh_sessions s) h = (t, Some route)" and "sh_sessions s' = t" and "sh_endpoints s' = sh_endpoints s"
    and "sh_pending s' = sh_pending (release_pending_session route (s\<lparr>sh_sessions := t\<rparr>))"
    and "sh_closed s' = sh_closed s + 1" and "sh_config s' = sh_config s"
  shows "keeps n s s'"
proof -
  have "shared_ok n s' \<and> ended s' = ended s" if ok: "shared_ok n s"
    using remove_route [OF ok r] assms(2-) by (auto simp: shared_ok_def tables_ok_def ended_def routes_def)
  then show ?thesis using assms(6) by (simp add: keeps_def)
qed

lemma keeps_missed: "ht_remove (sh_sessions s) h = (t, None) \<Longrightarrow> keeps n s (s\<lparr>sh_sessions := t\<rparr>)"
  unfolding keeps_def shared_ok_def tables_ok_def ended_def routes_def
  using ht.rem_map [of "sh_sessions s" h t None] ht_remove_length [of "sh_sessions s" h] by (auto simp: fun_upd_idem)

lemma keeps_close_inner: "keeps n s (close_session_inner h reason detail joining now s)"
proof -
  obtain t r where r: "ht_remove (sh_sessions s) h = (t, r)" by (cases "ht_remove (sh_sessions s) h")
  show ?thesis
  proof (cases r)
    case None
    then show ?thesis using keeps_missed r by (simp add: close_session_inner_def)
  next
    case (Some route)
    show ?thesis by (rule keeps_closed [of s h t route]) (use r Some in \<open>simp_all add: close_session_inner_def Let_def\<close>)
  qed
qed

lemma keeps_close_for: "keeps n s (close_for_endpoint ep now h s)"
proof -
  obtain t r where r: "ht_remove (sh_sessions s) h = (t, r)" by (cases "ht_remove (sh_sessions s) h")
  show ?thesis
  proof (cases r)
    case None
    then show ?thesis using keeps_missed r by (simp add: close_for_endpoint_def)
  next
    case (Some route)
    show ?thesis by (rule keeps_closed [of s h t route]) (use r Some in \<open>simp_all add: close_for_endpoint_def Let_def\<close>)
  qed
qed

lemma keeps_close_session: "keeps n s (fst (close_session h reason now s))"
proof -
  obtain t r where r: "ht_remove (sh_sessions s) h = (t, r)" by (cases "ht_remove (sh_sessions s) h")
  show ?thesis
  proof (cases r)
    case None
    then show ?thesis using keeps_missed r by (simp add: close_session_def)
  next
    case (Some route)
    show ?thesis by (rule keeps_closed [of s h t route]) (use r Some in \<open>simp_all add: close_session_def Let_def\<close>)
  qed
qed

section \<open>The other operations\<close>

lemma keeps_try_push: "keeps n s (fst (try_push_session_event ev now s))"
proof -
  obtain q r where q: "eq_try_push ev now (sh_events s) = (q, r)" by (cases "eq_try_push ev now (sh_events s)")
  have f: "keeps n s (s\<lparr>sh_events := q\<rparr>)" by (rule keeps_frame) simp_all
  show ?thesis
    using f q keeps_trans [OF f keeps_close_inner]
    by (cases r) (simp_all add: try_push_session_event_def remove_session_def Let_def)
qed

text \<open>Rewriting a route in place.\<close>

lemma keeps_rewrite:
  assumes mut: "ht_get_mut f (sh_sessions s) h = Some t" and "\<And>r. rt_established (f r) = rt_established r"
  shows "keeps n s (s\<lparr>sh_sessions := t\<rparr>)"
proof -
  have "shared_ok n (s\<lparr>sh_sessions := t\<rparr>) \<and> ended (s\<lparr>sh_sessions := t\<rparr>) = ended s" if ok: "shared_ok n s"
  proof -
    have wf: "wf_ht (sh_sessions s)" using ok by (simp add: shared_ok_def tables_ok_def)
    obtain v where v: "wf_ht t" "ht_get (sh_sessions s) h = Some v" "ht_get t = (ht_get (sh_sessions s))(h \<mapsto> f v)"
      using ht_get_mut_map [OF mut wf] by blast
    have "rt_established (f v) = rt_established v" by (rule assms(2))
    then have "unready (ht_get t) = unready (ht_get (sh_sessions s))"
      unfolding v(3) unready_upd using v(2) by (auto simp: unready_def)
    moreover have "dom (ht_get t) = dom (ht_get (sh_sessions s))" unfolding v(3) using v(2) by auto
    ultimately show ?thesis
      using ok v(1) ht_get_mut_length [OF mut] by (simp add: shared_ok_def tables_ok_def ended_def routes_def)
  qed
  then show ?thesis by (simp add: keeps_def)
qed

lemma keeps_mark: "keeps n s (fst (mark_session_established h s))"
proof (cases "ht_get (sh_sessions s) h")
  case None
  then show ?thesis by (simp add: mark_session_established_def)
next
  case (Some route)
  let ?f = "\<lambda>r. r\<lparr>rt_established := True, rt_auth_decision := False\<rparr>"
  let ?s = "if \<not> rt_established route then release_pending_handshake s else s"
  have "shared_ok n (?s\<lparr>sh_sessions := t\<rparr>) \<and> ended (?s\<lparr>sh_sessions := t\<rparr>) = ended s"
    if ok: "shared_ok n s" and mut: "ht_get_mut ?f (sh_sessions s) h = Some t" for t
  proof -
    have wf: "wf_ht (sh_sessions s)" using ok by (simp add: shared_ok_def tables_ok_def)
    have v: "wf_ht t" "ht_get t = (ht_get (sh_sessions s))(h \<mapsto> ?f route)" using ht_get_mut_map [OF mut wf] Some by auto
    have fin: "finite (unready (routes s))" using finite_subset [OF unready_dom finite_routes [OF wf]] .
    have "card (unready (ht_get t)) = card (unready (routes s)) - (if rt_established route then 0 else 1)"
      unfolding v(2) unready_upd using Some fin
      by (auto simp: routes_def unready_def card_Diff_singleton_if)
    moreover have "dom (ht_get t) = dom (routes s)" using v(2) Some by (auto simp: routes_def)
    ultimately show ?thesis
      using ok v(1) ht_get_mut_length [OF mut]
      by (auto simp: shared_ok_def tables_ok_def ended_def routes_def release_pending_handshake_def)
  qed
  moreover have "ht_get_mut ?f (sh_sessions s) h \<noteq> None"
    using Some by (auto simp: ht_get_mut_def ht_get_def split: option.splits if_splits)
  ultimately show ?thesis
    using Some by (auto simp: mark_session_established_def Let_def keeps_def release_pending_handshake_def)
qed

lemma keeps_auth: "keeps n s (fst (auth_decide h listening s))"
  using keeps_rewrite [of "\<lambda>r. r\<lparr>rt_auth_decision := False\<rparr>" s h]
  by (simp add: auth_decide_def split: option.split)

lemma keeps_retarget: "keeps n s (fst (retarget_datagram_session h p s))"
  using keeps_rewrite [of "\<lambda>r. r\<lparr>rt_target := _\<rparr>" s h]
  by (simp add: retarget_datagram_session_def split: option.split)

lemma keeps_endpoints:
  assumes "wf_ht (sh_endpoints s) \<Longrightarrow> wf_ht t" and "length (slots t) = length (slots (sh_endpoints s))"
  shows "keeps n s (s\<lparr>sh_endpoints := t\<rparr>)"
  using assms by (simp add: keeps_def shared_ok_def tables_ok_def ended_def routes_def)

lemma keeps_endpoint_remove: "keeps n s (s\<lparr>sh_endpoints := fst (ht_remove (sh_endpoints s) h)\<rparr>)"
  using ht.rem_map [of "sh_endpoints s" h] ht_remove_length
  by (intro keeps_endpoints) (auto simp: prod_eq_iff)

lemma keeps_endpoint_mut: "ht_get_mut f (sh_endpoints s) h = Some t \<Longrightarrow> keeps n s (s\<lparr>sh_endpoints := t\<rparr>)"
  using ht_get_mut_map ht_get_mut_length by (intro keeps_endpoints) blast+

lemma keeps_retarget_endpoint: "keeps n s (fst (retarget_datagram_endpoint h a s))"
  using keeps_endpoint_mut [of _ s h] by (simp add: retarget_datagram_endpoint_def split: option.split)

lemma keeps_abort: "keeps n s (fst (set_endpoint_abort h s))"
  using keeps_endpoint_mut [of _ s h] by (simp add: set_endpoint_abort_def split: option.split)

lemma keeps_discard_endpoint: "keeps n s (discard_endpoint h s)"
  unfolding discard_endpoint_def by (rule keeps_endpoint_remove)

lemma keeps_close_endpoint: "keeps n s (fst (close_endpoint h now s))"
proof -
  obtain t r where r: "ht_remove (sh_endpoints s) h = (t, r)" by (cases "ht_remove (sh_endpoints s) h")
  have e: "keeps n s (s\<lparr>sh_endpoints := t\<rparr>)" using keeps_endpoint_remove [of n s h] r by simp
  have "keeps n s (close_endpoint_sessions h now (s\<lparr>sh_endpoints := t\<rparr>))"
    unfolding close_endpoint_sessions_def by (rule keeps_trans [OF e keeps_fold]) (rule keeps_close_for)
  then show ?thesis using e r by (cases r) (simp_all add: close_endpoint_def)
qed

lemma keeps_fail_endpoint: "keeps n s (fail_endpoint h init code detail now s)"
proof -
  obtain t r where r: "ht_remove (sh_endpoints s) h = (t, r)" by (cases "ht_remove (sh_endpoints s) h")
  have e: "keeps n s (s\<lparr>sh_endpoints := t\<rparr>)" using keeps_endpoint_remove [of n s h] r by simp
  let ?s = "publish_lifecycle (status_event EndpointError h 0 code detail now) now (s\<lparr>sh_endpoints := t\<rparr>)"
  have p: "keeps n s ?s" by (rule keeps_trans [OF e]) (rule keeps_frame; simp)
  have "keeps n s (fold (\<lambda>session. close_session_inner session code detail (init = Some session) now) xs ?s)" for xs
    by (rule keeps_trans [OF p keeps_fold]) (rule keeps_close_inner)
  then show ?thesis using e r by (cases r) (simp_all add: fail_endpoint_def Let_def)
qed

lemma keeps_emit: "keeps n s (emit_runtime_stopped now s)"
  by (rule keeps_frame) (simp_all add: emit_runtime_stopped_def)

lemma keeps_state: "keeps n s (s\<lparr>sh_state := x\<rparr>)"
  by (rule keeps_frame) simp_all

lemma keeps_stop_begin: "keeps n s (fst (stop_begin now s))"
  using keeps_emit keeps_state by (simp add: stop_begin_def split: lifecycle.split prod.split sum.split)

lemma keeps_stop_finish: "keeps n s (fst (stop_finish now s))"
proof -
  let ?s = "fold (\<lambda>endpoint s. fst (close_endpoint endpoint now s)) (ht_handles (sh_endpoints s)) s"
  have "keeps n s ?s" by (rule keeps_fold) (rule keeps_close_endpoint)
  then show ?thesis
    using keeps_trans [OF _ keeps_trans [OF keeps_state keeps_emit]] keeps_trans [OF _ keeps_state]
    by (simp add: stop_finish_def Let_def split: prod.split sum.split)
qed

section \<open>Every interleaving\<close>

datatype sreg_op =
    RegInsert session_route
  | RegEstablish handle
  | RegAuth handle bool
  | RegRetarget handle socket_addr
  | RegPush event instant
  | RegClose handle error_code instant
  | RegFail handle error_code bytes bool instant
  | RegDiscard handle
  | RegOpenEndpoint socket_addr transport
  | RegAbort handle
  | RegMoveEndpoint handle socket_addr
  | RegCloseEndpoint handle instant
  | RegFailEndpoint handle "handle option" error_code bytes instant
  | RegDiscardEndpoint handle
  | RegStopBegin instant
  | RegStopFinish instant

datatype sreg_out = RDone | ROpened handle | RRefused error_code | RDiscarded | RPanic

definition opened_step :: "(handle \<Rightarrow> sreg_out) \<Rightarrow> shared \<Rightarrow> (shared \<times> handle result) option \<Rightarrow> shared \<times> sreg_out" where
  "opened_step out s r = (case r of
       None \<Rightarrow> (s, RPanic)
     | Some (s', Inl e) \<Rightarrow> (s', RRefused e)
     | Some (s', Inr h) \<Rightarrow> (s', out h))"

fun sreg_step :: "sreg_op \<Rightarrow> shared \<Rightarrow> shared \<times> sreg_out" where
  "sreg_step (RegInsert route) s = opened_step ROpened s (insert_session_route route s)"
| "sreg_step (RegEstablish h) s = (fst (mark_session_established h s), RDone)"
| "sreg_step (RegAuth h listening) s = (fst (auth_decide h listening s), RDone)"
| "sreg_step (RegRetarget h p) s = (fst (retarget_datagram_session h p s), RDone)"
| "sreg_step (RegPush ev now) s = (fst (try_push_session_event ev now s), RDone)"
| "sreg_step (RegClose h reason now) s = (fst (close_session h reason now s), RDone)"
| "sreg_step (RegFail h code detail joining now) s = (close_session_inner h code detail joining now s, RDone)"
| "sreg_step (RegDiscard h) s = (discard_session h s, if session_active h s then RDiscarded else RDone)"
| "sreg_step (RegOpenEndpoint a k) s = opened_step (\<lambda>_. RDone) s (insert_endpoint a k s)"
| "sreg_step (RegAbort h) s = (fst (set_endpoint_abort h s), RDone)"
| "sreg_step (RegMoveEndpoint h a) s = (fst (retarget_datagram_endpoint h a s), RDone)"
| "sreg_step (RegCloseEndpoint h now) s = (fst (close_endpoint h now s), RDone)"
| "sreg_step (RegFailEndpoint h init code detail now) s = (fail_endpoint h init code detail now s, RDone)"
| "sreg_step (RegDiscardEndpoint h) s = (discard_endpoint h s, RDone)"
| "sreg_step (RegStopBegin now) s = (fst (stop_begin now s), RDone)"
| "sreg_step (RegStopFinish now) s = (fst (stop_finish now s), RDone)"

fun opened_by :: "sreg_out \<Rightarrow> nat" where
  "opened_by (ROpened _) = 1"
| "opened_by _ = 0"

fun discarded_by :: "sreg_out \<Rightarrow> nat" where
  "discarded_by RDiscarded = 1"
| "discarded_by _ = 0"

text \<open>One step accounts for the sessions it opens, ends and discards.\<close>

definition accounts :: "nat \<Rightarrow> shared \<Rightarrow> shared \<times> sreg_out \<Rightarrow> bool" where
  "accounts n s r \<longleftrightarrow> (shared_ok (Suc n) s \<longrightarrow> shared_ok n (fst r) \<and> sh_config (fst r) = sh_config s \<and> snd r \<noteq> RPanic \<and>
     ended s + opened_by (snd r) = ended (fst r) + discarded_by (snd r))"

lemma shared_ok_mono: "shared_ok (Suc n) s \<Longrightarrow> shared_ok n s"
  by (simp add: shared_ok_def tables_ok_def)

lemma accounts_keeps: "keeps n s s' \<Longrightarrow> accounts n s (s', RDone)"
  using shared_ok_mono by (auto simp: keeps_def accounts_def)

lemma accounts_insert: "accounts n s (opened_step ROpened s (insert_session_route route s))"
proof -
  have "shared_ok n s' \<and> sh_config s' = sh_config s \<and> ended s' = ended s + 1"
    if ok: "shared_ok (Suc n) s" and i: "ht_insert route (sh_sessions s) = Some (t, h)"
      and s': "s' = s\<lparr>sh_sessions := t, sh_pending := sh_pending s + (if rt_established route then 0 else 1)\<rparr>"
      and lim: "\<not> rt_established route \<longrightarrow> sh_pending s < tc_max_pending (sh_config s)" for s' t h
  proof -
    have wf: "wf_ht (sh_sessions s)" and room: "ht_room (sh_sessions s)"
      using ok by (auto simp: shared_ok_def tables_ok_def ht_room_def)
    have m: "wf_ht t" "routes s h = None" "ht_get t = (routes s)(h \<mapsto> route)"
      using ht.ins_map [OF wf room i] by (auto simp: routes_def)
    have fin: "finite (dom (routes s))" by (rule finite_routes [OF wf])
    then have "finite (unready (routes s))" using finite_subset [OF unready_dom] by blast
    moreover have h: "h \<notin> unready (routes s)" "h \<notin> dom (routes s)" using m(2) by (auto simp: unready_def)
    ultimately have "card (unready (ht_get t)) = card (unready (routes s)) + (if rt_established route then 0 else 1)"
      unfolding m(3) unready_upd by simp
    moreover have "card (dom (ht_get t)) = Suc (card (dom (routes s)))" unfolding m(3) using fin h(2) by simp
    ultimately show ?thesis
      using ok m(1) lim ht_insert_length [OF i] s'
      by (auto simp: shared_ok_def tables_ok_def ended_def routes_def)
  qed
  moreover have "ht_insert route (sh_sessions s) \<noteq> None" if "shared_ok (Suc n) s"
    using that by (intro ht.ins_total) (simp add: shared_ok_def tables_ok_def)
  moreover have "insert_session_route route s =
      (if \<not> rt_established route \<and> \<not> sh_pending s < tc_max_pending (sh_config s) then Some (s, Inl WouldBlock)
       else case ht_insert route (sh_sessions s) of None \<Rightarrow> None
        | Some (t, h) \<Rightarrow> Some (s\<lparr>sh_sessions := t, sh_pending := sh_pending s + (if rt_established route then 0 else 1)\<rparr>, Inr h))"
    by (simp add: insert_session_route_def try_reserve_pending_handshake_def split: option.split)
  ultimately show ?thesis
    using shared_ok_mono [of n s] by (auto simp: accounts_def opened_step_def split: option.split)
qed

lemma accounts_discard: "accounts n s (discard_session h s, if session_active h s then RDiscarded else RDone)"
proof -
  obtain t r where r: "ht_remove (sh_sessions s) h = (t, r)" by (cases "ht_remove (sh_sessions s) h")
  have a: "session_active h s \<longleftrightarrow> r \<noteq> None" if "shared_ok (Suc n) s"
    using that ht.rem_map [OF _ r] by (simp add: session_active_def shared_ok_def tables_ok_def)
  show ?thesis
  proof (cases r)
    case None
    then have "keeps n s (discard_session h s)" using keeps_missed r by (simp add: discard_session_def)
    then show ?thesis using a None accounts_keeps by (auto simp: accounts_def)
  next
    case (Some route)
    then show ?thesis
      using a r remove_route [of n s h t route] shared_ok_mono [of n s]
      by (auto simp: accounts_def discard_session_def ended_def)
  qed
qed

lemma accounts_open_endpoint: "accounts n s (opened_step (\<lambda>_. RDone) s (insert_endpoint a k s))"
proof -
  let ?r = "\<lparr>er_local_addr = a, er_transport = k, er_abort = False\<rparr>"
  have "shared_ok n (s\<lparr>sh_endpoints := t\<rparr>)"
    if ok: "shared_ok (Suc n) s" and i: "ht_insert ?r (sh_endpoints s) = Some (t, h)" for t h
  proof -
    have wf: "wf_ht (sh_endpoints s)" "ht_room (sh_endpoints s)"
      using ok by (auto simp: shared_ok_def tables_ok_def ht_room_def)
    then show ?thesis
      using ok ht.ins_map [OF wf i] ht_insert_length [OF i] by (simp add: shared_ok_def tables_ok_def routes_def)
  qed
  moreover have "ht_insert ?r (sh_endpoints s) \<noteq> None" if "shared_ok (Suc n) s"
    using that by (intro ht.ins_total) (simp add: shared_ok_def tables_ok_def)
  ultimately show ?thesis
    using shared_ok_mono [of n s]
    by (auto simp: accounts_def opened_step_def insert_endpoint_def ended_def routes_def split: option.split)
qed

lemma reg_step_accounts: "accounts n s (sreg_step x s)"
proof (cases x)
  case (RegInsert route)
  then show ?thesis using accounts_insert by simp
next
  case (RegDiscard h)
  then show ?thesis using accounts_discard by simp
next
  case (RegOpenEndpoint a k)
  then show ?thesis using accounts_open_endpoint by simp
qed (simp_all add: accounts_keeps keeps_mark keeps_auth keeps_retarget keeps_try_push keeps_close_session keeps_close_inner
    keeps_abort keeps_retarget_endpoint keeps_close_endpoint keeps_fail_endpoint keeps_discard_endpoint keeps_stop_begin
    keeps_stop_finish)

lemma reg_run_ok:
  assumes "shared_ok (length ops) s" and "run_out sreg_step ops s = (s', outs)"
  shows "shared_ok 0 s' \<and> sh_config s' = sh_config s \<and> RPanic \<notin> set outs \<and>
    ended s + sum_list (map opened_by outs) = ended s' + sum_list (map discarded_by outs)"
  using assms
proof (induction ops arbitrary: s outs)
  case (Cons x ops)
  obtain s1 out where o: "sreg_step x s = (s1, out)" by (cases "sreg_step x s")
  obtain outs1 where r: "run_out sreg_step ops s1 = (s', outs1)" "outs = out # outs1"
    using Cons.prems(2) o by (auto simp: Let_def split: prod.splits)
  have "shared_ok (length ops) s1 \<and> sh_config s1 = sh_config s \<and> out \<noteq> RPanic \<and> ended s + opened_by out = ended s1 + discarded_by out"
    using reg_step_accounts [of "length ops" s x] Cons.prems(1) o by (simp add: accounts_def)
  then show ?case using Cons.IH [OF _ r(1)] r(2) by auto
qed simp

lemma ht_new_parts [simp]: "ht_get ht_new = Map.empty" "slots ht_new = []"
  by (auto simp: ht_get_def ht_new_def split: option.split)

lemma shared_new_ok: "n \<le> slot_limit \<Longrightarrow> shared_ok n (shared_new cfg q now) \<and> ended (shared_new cfg q now) = 0"
  by (simp add: shared_ok_def tables_ok_def ended_def routes_def shared_new_def unready_def ht_new_wf)

lemma new_run_ok:
  assumes "length ops \<le> slot_limit" and "run_out sreg_step ops (shared_new cfg q now) = (s, outs)"
  shows "shared_ok 0 s \<and> sh_config s = cfg \<and> RPanic \<notin> set outs \<and>
    sum_list (map opened_by outs) = ended s + sum_list (map discarded_by outs)"
  using reg_run_ok [OF _ assms(2)] shared_new_ok [OF assms(1), of cfg q now] by (simp add: shared_new_def)

lemma reg_run_spare:
  assumes "shared_ok (n + length ops) s" and "run_out sreg_step ops s = (s', outs)"
  shows "shared_ok n s'"
  using assms
proof (induction ops arbitrary: s outs)
  case (Cons x ops)
  obtain s1 out where o: "sreg_step x s = (s1, out)" by (cases "sreg_step x s")
  obtain outs1 where r: "run_out sreg_step ops s1 = (s', outs1)"
    using Cons.prems(2) o by (auto simp: Let_def split: prod.splits)
  have "shared_ok (n + length ops) s1"
    using reg_step_accounts [of "n + length ops" s x] Cons.prems(1) o by (simp add: accounts_def)
  then show ?case by (rule Cons.IH [OF _ r])
qed simp

lemma new_run_spare:
  "n + length ops \<le> slot_limit \<Longrightarrow> run_out sreg_step ops (shared_new cfg q now) = (s, outs) \<Longrightarrow> shared_ok n s"
  using reg_run_spare shared_new_ok by blast

section \<open>Sweeping an endpoint\<close>

definition without :: "handle \<Rightarrow> (handle \<rightharpoonup> session_route) \<Rightarrow> handle \<rightharpoonup> session_route" where
  "without endpoint m h = (case m h of None \<Rightarrow> None | Some r \<Rightarrow> if rt_endpoint r = endpoint then None else Some r)"

lemma routes_close_inner:
  assumes "wf_ht (sh_sessions s)"
  shows "wf_ht (sh_sessions (close_session_inner h reason detail joining now s)) \<and>
    routes (close_session_inner h reason detail joining now s) = (routes s)(h := None)"
proof -
  obtain t r where r: "ht_remove (sh_sessions s) h = (t, r)" by (cases "ht_remove (sh_sessions s) h")
  have "wf_ht t" "ht_get t = (ht_get (sh_sessions s))(h := None)" using ht.rem_map [OF assms r] by blast+
  then show ?thesis using r by (cases r) (simp_all add: close_session_inner_def routes_def Let_def)
qed

lemma routes_close_for:
  assumes "wf_ht (sh_sessions s)"
  shows "wf_ht (sh_sessions (close_for_endpoint ep now h s)) \<and>
    routes (close_for_endpoint ep now h s) = (routes s)(h := None)"
proof -
  obtain t r where r: "ht_remove (sh_sessions s) h = (t, r)" by (cases "ht_remove (sh_sessions s) h")
  have "wf_ht t" "ht_get t = (ht_get (sh_sessions s))(h := None)" using ht.rem_map [OF assms r] by blast+
  then show ?thesis using r by (cases r) (simp_all add: close_for_endpoint_def routes_def Let_def)
qed

lemma routes_fold:
  assumes "\<And>h s. wf_ht (sh_sessions s) \<Longrightarrow> wf_ht (sh_sessions (f h s)) \<and> routes (f h s) = (routes s)(h := None)"
    and "wf_ht (sh_sessions s)"
  shows "routes (fold f hs s) = (\<lambda>h. if h \<in> set hs then None else routes s h)"
  using assms(2)
proof (induction hs arbitrary: s)
  case (Cons h hs)
  then show ?case using assms(1) [OF Cons.prems, of h] by (auto simp: fun_eq_iff)
qed simp

lemma sessions_of_without:
  assumes "wf_ht (sh_sessions s)"
  shows "(\<lambda>h. if h \<in> set (sessions_of ep s) then None else routes s h) = without ep (routes s)"
proof
  fix h
  have "set (ht_handles (sh_sessions s)) = dom (routes s)"
    using ht_handles_live(1) [OF assms] by (simp add: routes_def)
  then show "(if h \<in> set (sessions_of ep s) then None else routes s h) = without ep (routes s) h"
    by (auto simp: sessions_of_def without_def routes_def split: option.splits)
qed

text \<open>
  C34. Handshake slots are counted exactly. Over every interleaving of the registry operations (sessions opened, authorized,
  established, closed by either side, dropped on overload or discarded; endpoints opened, closed and failed; shutdown)
  the number of pending handshakes is the number of registered sessions that are not established, never above
  the limit, so that no slot leaks or underflows; no operation panics.
\<close>

theorem handshake_slots_exact:
  assumes "length ops \<le> slot_limit" and "run_out sreg_step ops (shared_new cfg q now) = (s, outs)"
  shows "sh_pending s = card {h. \<exists>r. ht_get (sh_sessions s) h = Some r \<and> \<not> rt_established r} \<and>
    sh_pending s \<le> tc_max_pending cfg \<and> RPanic \<notin> set outs"
  using new_run_ok [OF assms] by (auto simp: shared_ok_def routes_def unready_def)


text \<open>
  Closing or failing an endpoint removes exactly its sessions: afterwards no registered session belongs to it and
  every session of another endpoint is as before.
\<close>

lemma endpoint_sweep_exact:
  assumes "length ops \<le> slot_limit" and "run_out sreg_step ops (shared_new cfg q now) = (s, outs)"
    and "ht_get (sh_endpoints s) ep \<noteq> None"
  shows "ht_get (sh_sessions (fst (close_endpoint ep t s))) = without ep (ht_get (sh_sessions s)) \<and>
    ht_get (sh_sessions (fail_endpoint ep init code detail t s)) = without ep (ht_get (sh_sessions s))"
proof -
  have wf: "wf_ht (sh_sessions s)" "wf_ht (sh_endpoints s)"
    using new_run_ok [OF assms(1,2)] by (simp_all add: shared_ok_def tables_ok_def)
  obtain es r where r: "ht_remove (sh_endpoints s) ep = (es, Some r)"
    using ht.rem_map [OF wf(2)] assms(3) by (cases "ht_remove (sh_endpoints s) ep") fastforce
  let ?s = "s\<lparr>sh_endpoints := es\<rparr>"
  have w: "without ep (routes ?s) = without ep (routes s)" by (simp add: routes_def)
  have same: "sessions_of ep ?s = sessions_of ep s" by (simp add: sessions_of_def)
  have "routes (fold (close_for_endpoint ep t) (sessions_of ep s) ?s) = without ep (routes s)"
    using routes_fold [OF routes_close_for, of ?s] sessions_of_without [of ?s ep] wf(1) same w by simp
  moreover have "routes (fold (\<lambda>h. close_session_inner h code detail (init = Some h) t) (sessions_of ep s)
      (publish_lifecycle ev t ?s)) = without ep (routes s)" for ev
  proof -
    have p: "routes (publish_lifecycle ev t ?s) = routes s" by (simp add: routes_def)
    have "routes (fold (\<lambda>h. close_session_inner h code detail (init = Some h) t) (sessions_of ep s) (publish_lifecycle ev t ?s)) =
        (\<lambda>h. if h \<in> set (sessions_of ep s) then None else routes (publish_lifecycle ev t ?s) h)"
      by (rule routes_fold) (use routes_close_inner wf(1) in auto)
    then show ?thesis unfolding p sessions_of_without [OF wf(1)] .
  qed
  ultimately show ?thesis
    using r by (simp add: close_endpoint_def close_endpoint_sessions_def fail_endpoint_def same routes_def Let_def)
qed

section \<open>Concrete runs\<close>

definition demo_config :: transport_config where
  "demo_config = \<lparr>tc_max_pending = 2, tc_max_endpoints = 2, tc_max_body = 1024\<rparr>"

definition demo_events :: event_queue where
  "demo_events = \<lparr>eq_capacity = 8, eq_byte_capacity = 1024, eq_queued_bytes = 0, eq_queue = []\<rparr>"

definition demo_addr :: socket_addr where "demo_addr = SockV4 2130706433 7000"

definition demo_route :: session_route where
  "demo_route = \<lparr>rt_endpoint = encode_handle 0 1, rt_target = TargetKcp demo_addr True, rt_established = False,
     rt_auth_decision = True, rt_security_commands = True, rt_game_controls = True\<rparr>"

definition demo_start :: shared where "demo_start = shared_new demo_config demo_events 0"

definition demo_open :: shared where
  "demo_open = demo_start\<lparr>
     sh_endpoints := \<lparr>slots = [\<lparr>generation = 1,
       slot_value = Some \<lparr>er_local_addr = demo_addr, er_transport = Kcp, er_abort = False\<rparr>\<rparr>], free_slots = []\<rparr>,
     sh_sessions := \<lparr>slots = [\<lparr>generation = 1, slot_value = Some demo_route\<rparr>], free_slots = []\<rparr>, sh_pending := 1\<rparr>"

definition demo_reg :: "sreg_op list" where
  "demo_reg = [RegOpenEndpoint demo_addr Kcp, RegInsert demo_route]"

lemma demo_registry_run: "run_out sreg_step demo_reg demo_start = (demo_open, [RDone, ROpened (encode_handle 0 1)])"
  by (simp add: demo_reg_def demo_start_def shared_new_def opened_step_def insert_endpoint_def ht_len_def ht_insert_def
      ht_new_def insert_session_route_def try_reserve_pending_handshake_def demo_route_def demo_config_def demo_open_def)

lemma demo_reg_length: "length demo_reg \<le> slot_limit"
  by (simp add: demo_reg_def slot_limit_def)

theorem handshake_slots_exact_witness:
  "length demo_reg \<le> slot_limit \<and>
   run_out sreg_step demo_reg (shared_new demo_config demo_events 0) = (demo_open, [RDone, ROpened (encode_handle 0 1)]) \<and>
   card {h. \<exists>r. ht_get (sh_sessions demo_open) h = Some r \<and> \<not> rt_established r} = 1"
  using handshake_slots_exact [OF demo_reg_length demo_registry_run [unfolded demo_start_def]]
    demo_registry_run [unfolded demo_start_def] demo_reg_length
  by (simp add: demo_open_def)


section \<open>A session registered too late\<close>

lemma close_endpoint_effect:
  assumes ok: "shared_ok n s"
  shows "ht_get (sh_endpoints (fst (close_endpoint ep t s))) = (ht_get (sh_endpoints s))(ep := None) \<and>
    (routes (fst (close_endpoint ep t s)) = routes s \<or> routes (fst (close_endpoint ep t s)) = without ep (routes s))"
proof -
  have wf: "wf_ht (sh_sessions s)" "wf_ht (sh_endpoints s)" using ok by (simp_all add: shared_ok_def tables_ok_def)
  obtain es r where r: "ht_remove (sh_endpoints s) ep = (es, r)" by (cases "ht_remove (sh_endpoints s) ep")
  have es: "ht_get es = (ht_get (sh_endpoints s))(ep := None)" using ht.rem_map [OF wf(2) r] by blast
  let ?s = "s\<lparr>sh_endpoints := es\<rparr>"
  have close_ep: "sh_endpoints (close_for_endpoint ep t h x) = sh_endpoints x" for h x
    by (simp add: close_for_endpoint_def Let_def split: prod.split option.split)
  have "sh_endpoints (fold (close_for_endpoint ep t) hs x) = sh_endpoints x" for hs x
    by (induction hs arbitrary: x) (simp_all add: close_ep)
  moreover have "routes (fold (close_for_endpoint ep t) (sessions_of ep ?s) ?s) = without ep (routes s)"
    using routes_fold [OF routes_close_for, of ?s] sessions_of_without [of ?s ep] wf(1) by (simp add: routes_def)
  ultimately show ?thesis
    using r es by (cases r) (simp_all add: close_endpoint_def close_endpoint_sessions_def routes_def)
qed

lemma close_all_effect:
  assumes "shared_ok n s" and "routes s h = Some route" and "rt_endpoint route \<notin> set eps"
  shows "routes (fold (\<lambda>ep s. fst (close_endpoint ep t s)) eps s) h = Some route \<and>
    ht_get (sh_endpoints (fold (\<lambda>ep s. fst (close_endpoint ep t s)) eps s)) =
      (\<lambda>e. if e \<in> set eps then None else ht_get (sh_endpoints s) e)"
  using assms
proof (induction eps arbitrary: s)
  case (Cons ep eps)
  let ?s = "fst (close_endpoint ep t s)"
  have "shared_ok n ?s" using keeps_close_endpoint [of n s ep t] Cons.prems(1) by (simp add: keeps_def)
  moreover have "routes ?s h = Some route"
    using close_endpoint_effect [OF Cons.prems(1), of ep t] Cons.prems(2,3) by (auto simp: without_def)
  ultimately show ?case
    using Cons.IH [of ?s] Cons.prems(3) close_endpoint_effect [OF Cons.prems(1), of ep t] by auto
qed simp


definition demo_listening :: shared where
  "demo_listening = demo_start\<lparr>sh_endpoints := \<lparr>slots = [\<lparr>generation = 1,
     slot_value = Some \<lparr>er_local_addr = demo_addr, er_transport = Kcp, er_abort = False\<rparr>\<rparr>], free_slots = []\<rparr>\<rparr>"

lemma demo_listen_run: "run_out sreg_step [RegOpenEndpoint demo_addr Kcp] demo_start = (demo_listening, [RDone])"
  by (simp add: demo_start_def shared_new_def opened_step_def insert_endpoint_def ht_len_def ht_insert_def
      ht_new_def demo_config_def demo_listening_def)

definition demo_late :: shared where
  "demo_late = demo_start\<lparr>
     sh_endpoints := \<lparr>slots = [\<lparr>generation = next_generation 1, slot_value = None\<rparr>], free_slots = [0]\<rparr>,
     sh_sessions := \<lparr>slots = [\<lparr>generation = 1, slot_value = Some demo_route\<rparr>], free_slots = []\<rparr>, sh_pending := 1\<rparr>"

lemma demo_late_insert:
  "insert_session_route demo_route (fst (close_endpoint (rt_endpoint demo_route) 5 demo_listening)) =
     Some (demo_late, Inr (encode_handle 0 1))"
proof -
  have d: "decode_handle (encode_handle 0 1) = Some (0, 1)" using decode_encode_handle [of 0 1] by (simp add: slot_limit_def)
  show ?thesis
    by (simp add: demo_listening_def close_endpoint_def ht_remove_def d demo_route_def close_endpoint_sessions_def
        sessions_of_def ht_handles_def demo_start_def shared_new_def ht_new_def insert_session_route_def
        try_reserve_pending_handshake_def demo_config_def ht_insert_def demo_late_def)
qed


end
