(* ===== verification/Datagram_Session.thy ===== *)
theory Datagram_Session
  imports Datagram_Wire Transport_State Secure_Channel Security_Transition Preflight
begin

text \<open>
  The session layer of the datagram endpoints: \<^verbatim>\<open>adaptive_codec.rs\<close>, \<^verbatim>\<open>adaptive_peer.rs\<close>,
  \<^verbatim>\<open>adaptive_datagram_session.rs\<close> and \<^verbatim>\<open>adaptive_datagram_process.rs\<close> of \<^verbatim>\<open>rnet-transport\<close>. A handler works on the
  registry, the wire and the peer table; it answers with the packets given to the socket and its
  result, or \<open>None\<close> for a panic. Ciphers and handshakes are the parameters of \<open>Secure_Channel\<close>. All clock
  readings of one call are the same, and \<open>ok\<close> says whether the socket accepts a packet.
\<close>

section \<open>Parameters\<close>

record 'st cipher =
  cy_write :: "'st \<Rightarrow> u64 \<Rightarrow> bytes \<Rightarrow> bytes option"
  cy_read :: "'st \<Rightarrow> u64 \<Rightarrow> bytes \<Rightarrow> bytes option"
  cy_rekey_out :: "'st \<Rightarrow> 'st"
  cy_rekey_in :: "'st \<Rightarrow> 'st"

record ('h, 'st) noise =
  ny_initiator :: "bytes \<Rightarrow> 'h option"
  ny_responder :: "bytes \<Rightarrow> 'h option"
  ny_write :: "'h \<Rightarrow> bytes \<Rightarrow> 'h \<times> bytes option"
  ny_read :: "'h \<Rightarrow> bytes \<Rightarrow> 'h \<times> bytes option"
  ny_remote :: "'h \<Rightarrow> bytes option"
  ny_into :: "'h \<Rightarrow> 'st option"

record clock =
  ck_now :: instant
  ck_ms :: nat
  ck_secs :: nat
  ck_ok :: bool

datatype endpoint_security =
    AdaptiveServer bytes bytes security_mode
  | AdaptiveClient bytes

record ('h, 'st) dg_env =
  dg_endpoint :: handle
  dg_transport :: transport
  dg_security :: endpoint_security
  dg_client :: "(bytes \<times> (bytes \<Rightarrow> bool)) option"
  dg_max_body :: nat
  dg_max_datagram :: nat
  dg_max_sessions :: nat
  dg_handshake_timeout :: duration
  dg_hmac :: "bytes \<Rightarrow> bytes"
  dg_cipher :: "'st cipher"
  dg_noise :: "('h, 'st) noise"

section \<open>Records\<close>

definition ENCRYPTED_UDP_WIRE_OVERHEAD :: nat where
  "ENCRYPTED_UDP_WIRE_OVERHEAD = 5 + 8 + 16 + 20"

definition INITIAL_EPOCH :: u64 where "INITIAL_EPOCH = 1"

definition protected_record :: "'st cipher \<Rightarrow> u64 \<Rightarrow> protected_kind \<Rightarrow> bytes \<Rightarrow> nat \<Rightarrow> 'st datagram_transport \<Rightarrow>
    'st datagram_transport \<times> sec_record result" where
  "protected_record cy epoch kind data max_len tr =
     (case encode_protected \<lparr>pm_kind = kind, pm_payload = data\<rparr> max_len of
        Inl e \<Rightarrow> (tr, Inl e)
      | Inr body \<Rightarrow>
          (case dt_encrypt (cy_write cy) body tr of
             (tr1, Inl e) \<Rightarrow> (tr1, Inl (map_security_error e))
           | (tr1, Inr c) \<Rightarrow> (tr1, Inr \<lparr>rec_kind = Protected, rec_epoch = epoch, rec_payload = c\<rparr>)))"

definition data_record :: "'st cipher \<Rightarrow> controller \<Rightarrow> bytes \<Rightarrow> nat \<Rightarrow> 'st datagram_transport \<Rightarrow>
    'st datagram_transport \<times> sec_record result" where
  "data_record cy c data max_len tr = (case sc_mode c of
       Plaintext \<Rightarrow> (tr, Inr \<lparr>rec_kind = PlainData, rec_epoch = sc_epoch c, rec_payload = data\<rparr>)
     | Encrypted \<Rightarrow> protected_record cy (sc_epoch c) Data data max_len tr)"

definition dg_decrypt :: "'st cipher \<Rightarrow> sec_record \<Rightarrow> nat \<Rightarrow> 'st datagram_transport \<Rightarrow>
    'st datagram_transport \<times> protected_message result" where
  "dg_decrypt cy r max_len tr = (case dt_decrypt (cy_read cy) (rec_payload r) tr of
       (tr1, Inl e) \<Rightarrow> (tr1, Inl (map_security_error e))
     | (tr1, Inr plain) \<Rightarrow> (tr1, decode_protected plain max_len))"

definition dg_apply :: "'st cipher \<Rightarrow> effect \<Rightarrow> 'st datagram_transport \<Rightarrow> 'st datagram_transport" where
  "dg_apply cy eff tr =
     (if eff = Rekey then dt_rekey_outgoing (cy_rekey_out cy) (dt_rekey_incoming (cy_rekey_in cy) tr) else tr)"

section \<open>Established sessions\<close>

record 'st est =
  es_shared :: shared
  es_wire :: dgram_wire
  es_transport :: "'st datagram_transport"
  es_controller :: controller

type_synonym 'st est_out = "('st est \<times> packets \<times> unit result) option"

definition send_protected_response :: "'st cipher \<Rightarrow> clock \<Rightarrow> socket_addr \<Rightarrow> u64 \<Rightarrow> protected_kind \<Rightarrow> bytes \<Rightarrow> nat \<Rightarrow>
    'st est \<Rightarrow> 'st est_out" where
  "send_protected_response cy ck peer epoch kind data max_len es =
     (case protected_record cy epoch kind data max_len (es_transport es) of
        (tr, Inl e) \<Rightarrow> Some (es\<lparr>es_transport := tr\<rparr>, [], Inl e)
      | (tr, Inr r) \<Rightarrow>
          (case send_response peer r (max_len + 64) (ck_ok ck) (ck_ms ck) (es_wire es) of
             None \<Rightarrow> None
           | Some (w, out, result) \<Rightarrow> Some (es\<lparr>es_transport := tr, es_wire := w\<rparr>, out, result)))"

definition send_protected :: "'st cipher \<Rightarrow> clock \<Rightarrow> socket_addr \<Rightarrow> u64 \<Rightarrow> protected_kind \<Rightarrow> bytes \<Rightarrow> nat \<Rightarrow>
    'st est \<Rightarrow> 'st est_out" where
  "send_protected cy ck peer epoch kind data max_len es =
     (case protected_record cy epoch kind data max_len (es_transport es) of
        (tr, Inl e) \<Rightarrow> Some (es\<lparr>es_transport := tr\<rparr>, [], Inl e)
      | (tr, Inr r) \<Rightarrow>
          (case send_reliable peer r (max_len + 64) (ck_ok ck) (ck_ms ck) (ck_now ck) (es_wire es) of
             None \<Rightarrow> None
           | Some (w, out, result) \<Rightarrow> Some (es\<lparr>es_transport := tr, es_wire := w\<rparr>, out, result)))"

definition push_event :: "event \<Rightarrow> instant \<Rightarrow> packets \<Rightarrow> 'st est \<Rightarrow> 'st est_out" where
  "push_event ev now out es =
     (case try_push_session_event ev now (es_shared es) of (sh, r) \<Rightarrow> Some (es\<lparr>es_shared := sh\<rparr>, out, r))"

definition established_control :: "('h, 'st) dg_env \<Rightarrow> clock \<Rightarrow> socket_addr \<Rightarrow> handle \<Rightarrow> sec_record \<Rightarrow> bytes \<Rightarrow>
    'st est \<Rightarrow> 'st est_out" where
  "established_control env ck peer session r payload es =
     (case decode_control payload of
        Inl e \<Rightarrow> Some (es, [], Inl e)
      | Inr ctl \<Rightarrow>
          (case handle ctl (es_controller es) of
             Inl e \<Rightarrow> Some (es, [], Inl e)
           | Inr (c, t) \<Rightarrow>
               let cy = dg_cipher env;
                   es1 = es\<lparr>es_controller := c, es_transport := dg_apply cy (before_response t) (es_transport es)\<rparr>;
                   sent = (case response t of
                       None \<Rightarrow> Some (es1, [], Inr ())
                     | Some resp \<Rightarrow>
                         (if ctl_kind resp = SwitchAck \<or> ctl_kind resp = RekeyAck
                          then send_protected_response cy ck peer (rec_epoch r) ControlMsg (encode_control resp) 64 es1
                          else send_protected cy ck peer (rec_epoch r) ControlMsg (encode_control resp) 64 es1))
               in case sent of
                    None \<Rightarrow> None
                  | Some (es2, out, Inl e) \<Rightarrow> Some (es2, out, Inl e)
                  | Some (es2, out, Inr _) \<Rightarrow>
                      let es3 = es2\<lparr>es_transport := dg_apply cy (after_response t) (es_transport es2)\<rparr>
                      in if is_transitioning c then Some (es3, out, Inr ())
                         else case completed_operation (ctl_kind ctl) of
                           None \<Rightarrow> Some (es3, out, Inr ())
                         | Some op \<Rightarrow>
                             push_event (security_changed_event (dg_endpoint env) session op (sc_mode c) (sc_epoch c) (ck_now ck))
                               (ck_now ck) out es3))"

definition handle_established :: "('h, 'st) dg_env \<Rightarrow> clock \<Rightarrow> socket_addr \<Rightarrow> handle \<Rightarrow> sec_record \<Rightarrow>
    'st est \<Rightarrow> 'st est_out" where
  "handle_established env ck peer session r es =
     (let c = es_controller es
      in if \<not> session_active session (es_shared es) \<or> rec_epoch r \<noteq> sc_epoch c then Some (es, [], Inl ProtocolError)
         else
           let (tr, message) =
                 (if rec_kind r = PlainData \<and> sc_mode c = Plaintext
                  then (es_transport es, Inr \<lparr>pm_kind = Data, pm_payload = rec_payload r\<rparr>)
                  else if rec_kind r = Protected
                  then dg_decrypt (dg_cipher env) r (dg_max_body env + 64) (es_transport es)
                  else (es_transport es, Inl ProtocolError));
               es1 = es\<lparr>es_transport := tr\<rparr>
           in case message of
                Inl e \<Rightarrow> Some (es1, [], Inl e)
              | Inr msg \<Rightarrow>
                  (case pm_kind msg of
                     Data \<Rightarrow>
                       if rec_kind r = Protected \<and> sc_mode c \<noteq> Encrypted then Some (es1, [], Inl ProtocolError)
                       else (case decode_datagram (pm_payload msg) (dg_max_body env) of
                               Inl e \<Rightarrow> Some (es1, [], Inl e)
                             | Inr fr \<Rightarrow>
                                 push_event (message_event_with_integrity (dg_endpoint env) session fr
                                     (rec_kind r = Protected) (ck_now ck)) (ck_now ck) [] es1)
                   | GameControl \<Rightarrow>
                       if rec_kind r = Protected then
                         (if dg_max_body env < length (pm_payload msg) then Some (es1, [], Inl ProtocolError)
                          else push_event (game_control_event (dg_endpoint env) session (pm_payload msg) (ck_now ck))
                                 (ck_now ck) [] es1)
                       else Some (es1, [], Inl ProtocolError)
                   | ControlMsg \<Rightarrow> established_control env ck peer session r (pm_payload msg) es1
                   | AuthAck \<Rightarrow>
                       if pm_payload msg = [] then Some (es1, [], Inr ()) else Some (es1, [], Inl ProtocolError)
                   | AuthDecision \<Rightarrow> Some (es1, [], Inl ProtocolError)))"

end
