(* ===== verification/Datagram_Process.thy ===== *)
theory Datagram_Process
  imports Datagram_Session
begin

text \<open>
  The peers of a datagram endpoint (\<^verbatim>\<open>adaptive_peer.rs\<close>) and the handler of one decoded record
  (\<^verbatim>\<open>adaptive_datagram_process.rs\<close>): cookies, the Noise handshake, authorization and established sessions.
  The handler takes the peer out of the table and puts its next state back; an error return before that drops the peer.
  The receiving halves of the authorization and command channels hold what has been sent and not yet taken.
\<close>

section \<open>Peers\<close>

datatype ('h, 'st) peer =
    PCookie instant
  | PServerFirst "'h responder" instant
  | PServerFinish "'h responder" instant
  | PServerAuth handle "'st datagram_transport" "bool option" "security_command list" security_mode instant
  | PServerReject instant
  | PClientHello handle instant
  | PClientResponse handle "'h initiator" bytes security_mode instant
  | PClientAuth handle "'st datagram_transport" security_mode instant instant
  | PEstablished handle "'st datagram_transport" controller "security_command list option" instant "instant option"

fun peer_session :: "('h, 'st) peer \<Rightarrow> handle option" where
  "peer_session (PServerAuth session _ _ _ _ _) = Some session"
| "peer_session (PClientHello session _) = Some session"
| "peer_session (PClientResponse session _ _ _ _) = Some session"
| "peer_session (PClientAuth session _ _ _ _) = Some session"
| "peer_session (PEstablished session _ _ _ _ _) = Some session"
| "peer_session _ = None"

fun is_established :: "('h, 'st) peer \<Rightarrow> bool" where
  "is_established (PEstablished _ _ _ _ _ _) = True"
| "is_established _ = False"

record ('h, 'st) dg =
  dg_shared :: shared
  dg_wire :: dgram_wire
  dg_peers :: "(socket_addr, ('h, 'st) peer) table"

type_synonym ('h, 'st) dg_out = "(('h, 'st) dg \<times> packets \<times> unit result) option"

definition put_peer :: "socket_addr \<Rightarrow> ('h, 'st) peer \<Rightarrow> ('h, 'st) dg \<Rightarrow> ('h, 'st) dg" where
  "put_peer peer state d = d\<lparr>dg_peers := fmupd peer state (dg_peers d)\<rparr>"

definition put_back :: "socket_addr \<Rightarrow> ('h, 'st) peer option \<Rightarrow> ('h, 'st) dg \<Rightarrow> ('h, 'st) dg" where
  "put_back peer state d = (case state of None \<Rightarrow> d | Some s \<Rightarrow> put_peer peer s d)"

definition with_sent :: "(dgram_wire \<times> packets \<times> unit result) option \<Rightarrow> ('h, 'st) dg \<Rightarrow>
    (('h, 'st) dg \<Rightarrow> ('h, 'st) dg \<times> unit result) \<Rightarrow> ('h, 'st) dg_out" where
  "with_sent sent d k = (case sent of
       None \<Rightarrow> None
     | Some (w, out, Inl e) \<Rightarrow> Some (d\<lparr>dg_wire := w\<rparr>, out, Inl e)
     | Some (w, out, Inr _) \<Rightarrow> (case k (d\<lparr>dg_wire := w\<rparr>) of (d1, r) \<Rightarrow> Some (d1, out, r)))"

section \<open>The handshake\<close>

definition challenge_peer :: "('h, 'st) dg_env \<Rightarrow> clock \<Rightarrow> socket_addr \<Rightarrow> ('h, 'st) peer option \<Rightarrow> ('h, 'st) dg \<Rightarrow>
    ('h, 'st) dg_out" where
  "challenge_peer env ck peer previous d =
     with_sent (send_response peer
         \<lparr>rec_kind = CookieChallenge, rec_epoch = 0, rec_payload = cookie_issue (dg_hmac env) (ck_secs ck) peer\<rparr>
         128 (ck_ok ck) (ck_ms ck) (dg_wire d)) d
       (\<lambda>d. (put_back peer
          (if dg_transport env = Kcp
           then Some (case previous of None \<Rightarrow> PCookie (ck_now ck + dg_handshake_timeout env) | Some s \<Rightarrow> s)
           else previous) d, Inr ()))"

definition server_hello :: "('h, 'st) dg_env \<Rightarrow> clock \<Rightarrow> bytes \<Rightarrow> bytes \<Rightarrow> security_mode \<Rightarrow> socket_addr \<Rightarrow> ('h, 'st) dg \<Rightarrow>
    ('h, 'st) dg_out" where
  "server_hello env ck private public mode peer d =
     (if dg_max_sessions env \<le> table_len (dg_peers d) \<and> fmlookup (dg_peers d) peer = None
      then Some (d, [], Inl RateLimited)
      else with_sent (send_reliable peer
             \<lparr>rec_kind = ServerHello, rec_epoch = 0, rec_payload = mode_tag mode # public\<rparr>
             128 (ck_ok ck) (ck_ms ck) (ck_now ck) (dg_wire d)) d
           (\<lambda>d. case rh_new (ny_responder (dg_noise env)) private of
              Inl e \<Rightarrow> (d, Inl (map_security_error e))
            | Inr h \<Rightarrow> (put_peer peer (PServerFirst h (ck_now ck)) d, Inr ())))"

definition client_cookie :: "clock \<Rightarrow> socket_addr \<Rightarrow> handle \<Rightarrow> instant \<Rightarrow> bytes \<Rightarrow> ('h, 'st) dg \<Rightarrow> ('h, 'st) dg_out" where
  "client_cookie ck peer session started payload d =
     with_sent (send_reliable peer \<lparr>rec_kind = ClientHello, rec_epoch = 0, rec_payload = payload\<rparr>
         128 (ck_ok ck) (ck_ms ck) (ck_now ck) (dg_wire d)) d
       (\<lambda>d. (put_peer peer (PClientHello session started) d, Inr ()))"

definition client_first :: "('h, 'st) dg_env \<Rightarrow> bytes \<Rightarrow> ('h initiator \<times> security_mode \<times> bytes) result" where
  "client_first env payload =
     (if length payload \<noteq> 33 then Inl ProtocolError
      else case mode_try_from (hd payload) of
        Inl e \<Rightarrow> Inl e
      | Inr mode \<Rightarrow>
          (case dg_client env of
             None \<Rightarrow> Inl InvalidState
           | Some (private, verifier) \<Rightarrow>
               if \<not> verifier (tl payload) then Inl PeerKeyMismatch
               else case ih_new (ny_initiator (dg_noise env)) private (tl payload) of
                 Inl e \<Rightarrow> Inl (map_security_error e)
               | Inr i \<Rightarrow>
                   (case ih_write_first (ny_write (dg_noise env)) i of
                      (_, Inl e) \<Rightarrow> Inl (map_security_error e)
                    | (i1, Inr first) \<Rightarrow> Inr (i1, mode, first))))"

definition client_server_hello :: "('h, 'st) dg_env \<Rightarrow> clock \<Rightarrow> bytes \<Rightarrow> socket_addr \<Rightarrow> handle \<Rightarrow> instant \<Rightarrow> bytes \<Rightarrow>
    ('h, 'st) dg \<Rightarrow> ('h, 'st) dg_out" where
  "client_server_hello env ck join peer session started payload d =
     (case client_first env payload of
        Inl e \<Rightarrow> Some (d, [], Inl e)
      | Inr (i, mode, first) \<Rightarrow>
          with_sent (send_reliable peer \<lparr>rec_kind = Handshake, rec_epoch = 0, rec_payload = first\<rparr>
              (dg_max_datagram env) (ck_ok ck) (ck_ms ck) (ck_now ck) (dg_wire d)) d
            (\<lambda>d. (put_peer peer (PClientResponse session i join mode started) d, Inr ())))"

definition server_first :: "('h, 'st) dg_env \<Rightarrow> clock \<Rightarrow> socket_addr \<Rightarrow> 'h responder \<Rightarrow> instant \<Rightarrow> bytes \<Rightarrow>
    ('h, 'st) dg \<Rightarrow> ('h, 'st) dg_out" where
  "server_first env ck peer h started payload d =
     (case rh_read_first (ny_read (dg_noise env)) payload h of
        (_, Inl e) \<Rightarrow> Some (d, [], Inl (map_security_error e))
      | (h1, Inr _) \<Rightarrow>
          (case rh_write_response (ny_write (dg_noise env)) h1 of
             (_, Inl e) \<Rightarrow> Some (d, [], Inl (map_security_error e))
           | (h2, Inr resp) \<Rightarrow>
               with_sent (send_reliable peer \<lparr>rec_kind = Handshake, rec_epoch = 0, rec_payload = resp\<rparr>
                   (dg_max_datagram env) (ck_ok ck) (ck_ms ck) (ck_now ck) (dg_wire d)) d
                 (\<lambda>d. (put_peer peer (PServerFinish h2 started) d, Inr ()))))"

definition client_response :: "('h, 'st) dg_env \<Rightarrow> clock \<Rightarrow> socket_addr \<Rightarrow> handle \<Rightarrow> 'h initiator \<Rightarrow> bytes \<Rightarrow> security_mode \<Rightarrow>
    instant \<Rightarrow> bytes \<Rightarrow> ('h, 'st) dg \<Rightarrow> ('h, 'st) dg_out" where
  "client_response env ck peer session i join mode started payload d =
     (case ih_read_response (ny_read (dg_noise env)) (ny_remote (dg_noise env)) payload i of
        (_, Inl e) \<Rightarrow> Some (d, [], Inl (map_security_error e))
      | (i1, Inr _) \<Rightarrow>
          (case ih_finish_datagram (ny_write (dg_noise env)) (ny_into (dg_noise env)) join i1 of
             Inl e \<Rightarrow> Some (d, [], Inl (map_security_error e))
           | Inr (fin, tr) \<Rightarrow>
               with_sent (send_reliable peer \<lparr>rec_kind = Handshake, rec_epoch = 0, rec_payload = fin\<rparr>
                   (dg_max_datagram env) (ck_ok ck) (ck_ms ck) (ck_now ck) (dg_wire d)) d
                 (\<lambda>d. (put_peer peer (PClientAuth session tr mode (ck_now ck) started) d, Inr ()))))"

section \<open>Authorization\<close>

definition session_target_of :: "('h, 'st) dg_env \<Rightarrow> socket_addr \<Rightarrow> session_target" where
  "session_target_of env peer =
     (if dg_transport env = Kcp then TargetKcp peer True
      else TargetUdp peer (dg_max_datagram env - ENCRYPTED_UDP_WIRE_OVERHEAD) True)"

definition pending_route :: "('h, 'st) dg_env \<Rightarrow> socket_addr \<Rightarrow> session_route" where
  "pending_route env peer =
     \<lparr>rt_endpoint = dg_endpoint env, rt_target = session_target_of env peer, rt_established = False,
      rt_auth_decision = True, rt_security_commands = True, rt_game_controls = True\<rparr>"

definition server_finish :: "('h, 'st) dg_env \<Rightarrow> clock \<Rightarrow> security_mode \<Rightarrow> socket_addr \<Rightarrow> 'h responder \<Rightarrow> bytes \<Rightarrow>
    ('h, 'st) dg \<Rightarrow> ('h, 'st) dg_out" where
  "server_finish env ck mode peer h payload d =
     (case rh_finish (ny_read (dg_noise env)) (ny_remote (dg_noise env))
             (\<lambda>h. map_option dt_new (ny_into (dg_noise env) h)) payload h of
        Inl e \<Rightarrow> Some (d, [], Inl (map_security_error e))
      | Inr (join, peer_key, tr) \<Rightarrow>
          (case insert_session_route (pending_route env peer) (dg_shared d) of
             None \<Rightarrow> None
           | Some (sh, Inl e) \<Rightarrow> Some (d\<lparr>dg_shared := sh\<rparr>, [], Inl e)
           | Some (sh, Inr session) \<Rightarrow>
               (case try_push_session_event
                       ((session_event AuthRequest (dg_endpoint env) session (ck_now ck))\<lparr>ev_data := peer_key @ join\<rparr>)
                       (ck_now ck) sh of
                  (sh1, Inl e) \<Rightarrow> Some (d\<lparr>dg_shared := sh1\<rparr>, [], Inl e)
                | (sh1, Inr _) \<Rightarrow>
                    Some (put_peer peer (PServerAuth session tr None [] mode (ck_now ck)) (d\<lparr>dg_shared := sh1\<rparr>), [], Inr ()))))"

definition auth_answer :: "security_mode \<Rightarrow> protected_message \<Rightarrow> unit result" where
  "auth_answer mode msg =
     (if pm_kind msg \<noteq> AuthDecision then Inl AuthRejected
      else case pm_payload msg of
        [a, b] \<Rightarrow> if a \<noteq> 1 then Inl AuthRejected else if b = mode_tag mode then Inr () else Inl ProtocolError
      | _ \<Rightarrow> Inl AuthRejected)"

definition client_auth :: "('h, 'st) dg_env \<Rightarrow> clock \<Rightarrow> socket_addr \<Rightarrow> handle \<Rightarrow> 'st datagram_transport \<Rightarrow> security_mode \<Rightarrow>
    sec_record \<Rightarrow> ('h, 'st) dg \<Rightarrow> ('h, 'st) dg_out" where
  "client_auth env ck peer session tr mode r d =
     (case dg_decrypt (dg_cipher env) r (dg_max_body env) tr of
        (_, Inl e) \<Rightarrow> Some (d, [], Inl e)
      | (tr1, Inr msg) \<Rightarrow>
          (case auth_answer mode msg of
             Inl e \<Rightarrow> Some (d, [], Inl e)
           | Inr _ \<Rightarrow>
               (case send_protected_response (dg_cipher env) ck peer INITIAL_EPOCH AuthAck [] 32
                       \<lparr>es_shared = dg_shared d, es_wire = dg_wire d, es_transport = tr1,
                        es_controller = sc_new Client mode INITIAL_EPOCH\<rparr> of
                  None \<Rightarrow> None
                | Some (es, out, Inl e) \<Rightarrow> Some (d\<lparr>dg_wire := es_wire es\<rparr>, out, Inl e)
                | Some (es, out, Inr _) \<Rightarrow>
                    (case mark_session_established session (dg_shared d) of
                       (sh, Inl e) \<Rightarrow> Some (d\<lparr>dg_shared := sh, dg_wire := es_wire es\<rparr>, out, Inl e)
                     | (sh, Inr _) \<Rightarrow>
                         (case try_push_session_event (session_event SessionOpened (dg_endpoint env) session (ck_now ck))
                                 (ck_now ck) sh of
                            (sh1, Inl e) \<Rightarrow> Some (d\<lparr>dg_shared := sh1, dg_wire := es_wire es\<rparr>, out, Inl e)
                          | (sh1, Inr _) \<Rightarrow>
                              Some (put_peer peer
                                      (PEstablished session (es_transport es) (es_controller es) None (ck_now ck) None)
                                      (d\<lparr>dg_shared := sh1, dg_wire := es_wire es\<rparr>), out, Inr ()))))))"

section \<open>One record\<close>

definition process_established :: "('h, 'st) dg_env \<Rightarrow> clock \<Rightarrow> socket_addr \<Rightarrow> handle \<Rightarrow> 'st datagram_transport \<Rightarrow> controller \<Rightarrow>
    security_command list option \<Rightarrow> instant \<Rightarrow> instant option \<Rightarrow> sec_record \<Rightarrow> ('h, 'st) dg \<Rightarrow> ('h, 'st) dg_out" where
  "process_established env ck peer session tr c commands activity deadline r d =
     (case handle_established env ck peer session r
             \<lparr>es_shared = dg_shared d, es_wire = dg_wire d, es_transport = tr, es_controller = c\<rparr> of
        None \<Rightarrow> None
      | Some (es, out, result) \<Rightarrow>
          let d1 = d\<lparr>dg_shared := es_shared es, dg_wire := es_wire es\<rparr>
          in case result of
               Inl e \<Rightarrow>
                 Some (put_peer peer (PEstablished session (es_transport es) (es_controller es) commands activity deadline) d1,
                   out, Inl e)
             | Inr _ \<Rightarrow>
                 Some (put_peer peer (PEstablished session (es_transport es) (es_controller es) commands (ck_now ck)
                         (if is_transitioning (es_controller es) then deadline else None)) d1, out, Inr ()))"

definition process_common :: "('h, 'st) dg_env \<Rightarrow> clock \<Rightarrow> socket_addr \<Rightarrow> sec_record \<Rightarrow> ('h, 'st) peer option \<Rightarrow> ('h, 'st) dg \<Rightarrow>
    ('h, 'st) dg_out" where
  "process_common env ck peer r previous d =
     (case previous of
        Some (PServerFirst h started) \<Rightarrow>
          if rec_kind r = Handshake then server_first env ck peer h started (rec_payload r) d
          else Some (put_back peer previous d, [], Inr ())
      | Some (PClientResponse session i join mode started) \<Rightarrow>
          if rec_kind r = Handshake then client_response env ck peer session i join mode started (rec_payload r) d
          else Some (put_back peer previous d, [], Inr ())
      | Some (PServerFinish h started) \<Rightarrow>
          (case dg_security env of
             AdaptiveServer _ _ mode \<Rightarrow>
               if rec_kind r = Handshake then server_finish env ck mode peer h (rec_payload r) d
               else Some (put_back peer previous d, [], Inr ())
           | AdaptiveClient _ \<Rightarrow> Some (put_back peer previous d, [], Inr ()))
      | Some (PClientAuth session tr mode auth_started connect_started) \<Rightarrow>
          if rec_kind r = Protected then client_auth env ck peer session tr mode r d
          else Some (put_back peer previous d, [], Inr ())
      | Some (PEstablished session tr c commands activity deadline) \<Rightarrow>
          process_established env ck peer session tr c commands activity deadline r d
      | _ \<Rightarrow> Some (put_back peer previous d, [], Inr ()))"

fun is_reject :: "('h, 'st) peer option \<Rightarrow> bool" where
  "is_reject (Some (PServerReject _)) = True"
| "is_reject _ = False"

definition cookie_ok :: "('h, 'st) dg_env \<Rightarrow> clock \<Rightarrow> socket_addr \<Rightarrow> bytes \<Rightarrow> bool" where
  "cookie_ok env ck peer payload \<longleftrightarrow> length payload = COOKIE_LEN \<and> cookie_validate (dg_hmac env) (ck_secs ck) peer payload"

definition process :: "('h, 'st) dg_env \<Rightarrow> clock \<Rightarrow> socket_addr \<Rightarrow> sec_record \<Rightarrow> ('h, 'st) dg \<Rightarrow> ('h, 'st) dg_out" where
  "process env ck peer r d0 =
     (let previous = fmlookup (dg_peers d0) peer;
          d = d0\<lparr>dg_peers := fmdrop peer (dg_peers d0)\<rparr>
      in case dg_security env of
           AdaptiveServer private public mode \<Rightarrow>
             if is_reject previous then Some (put_back peer previous d, [], Inr ())
             else if rec_kind r = ClientHello then
               (if \<not> cookie_ok env ck peer (rec_payload r) then challenge_peer env ck peer previous d
                else if Option.bind previous peer_session \<noteq> None then Some (put_back peer previous d, [], Inr ())
                else server_hello env ck private public mode peer d)
             else process_common env ck peer r previous d
         | AdaptiveClient join \<Rightarrow>
             (case previous of
                Some (PClientHello session started) \<Rightarrow>
                  if rec_kind r = CookieChallenge then client_cookie ck peer session started (rec_payload r) d
                  else if rec_kind r = ServerHello
                  then client_server_hello env ck join peer session started (rec_payload r) d
                  else process_common env ck peer r previous d
              | _ \<Rightarrow> process_common env ck peer r previous d))"

end
