(* ===== verification/Datagram_Endpoint.thy ===== *)
theory Datagram_Endpoint
  imports Datagram_Process Admission
begin

text \<open>
  The loop of a UDP or KCP endpoint: \<^verbatim>\<open>adaptive_datagram.rs\<close>, \<^verbatim>\<open>adaptive_kcp_preflight.rs\<close>,
  \<^verbatim>\<open>adaptive_datagram_maintenance.rs\<close>, \<^verbatim>\<open>adaptive_datagram_send.rs\<close> and \<^verbatim>\<open>auto_rekey.rs\<close> of \<^verbatim>\<open>rnet-transport\<close>. Each branch
  of the loop is one step. A step answers with the packets given to the socket and whether the
  loop goes on, or \<open>None\<close> for a panic. Metrics and latencies are left out.
\<close>

section \<open>Automatic rekeys\<close>

record auto_rekey =
  ar_after :: "duration option"
  ar_after_bytes :: "nat option"
  ar_last_started :: instant
  ar_encrypted_bytes :: nat

definition ar_new :: "duration option \<Rightarrow> nat option \<Rightarrow> instant \<Rightarrow> auto_rekey" where
  "ar_new after after_bytes now =
     \<lparr>ar_after = after, ar_after_bytes = after_bytes, ar_last_started = now, ar_encrypted_bytes = 0\<rparr>"

definition record_encrypted_bytes :: "nat \<Rightarrow> auto_rekey \<Rightarrow> auto_rekey" where
  "record_encrypted_bytes n a = a\<lparr>ar_encrypted_bytes := sat_add (ar_encrypted_bytes a) n\<rparr>"

definition is_due :: "instant \<Rightarrow> auto_rekey \<Rightarrow> bool" where
  "is_due now a \<longleftrightarrow>
     (case ar_after a of None \<Rightarrow> False | Some threshold \<Rightarrow> threshold \<le> now - ar_last_started a) \<or>
     (case ar_after_bytes a of None \<Rightarrow> False | Some threshold \<Rightarrow> threshold \<le> ar_encrypted_bytes a)"

definition mark_started :: "instant \<Rightarrow> auto_rekey \<Rightarrow> auto_rekey" where
  "mark_started now a = a\<lparr>ar_last_started := now, ar_encrypted_bytes := 0\<rparr>"

section \<open>State\<close>

text \<open>
  A message of the application is its bytes, or a slot whose bytes may be replaced until the
  worker takes them (\<^verbatim>\<open>Outbound\<close> and \<^verbatim>\<open>LatestSlot\<close>).
\<close>

datatype outbound = Ready outbound_kind bytes | Slot nat

record ('h, 'st) ep =
  ep_dg :: "('h, 'st) dg"
  ep_deferred :: "(socket_addr, outbound list) table"
  ep_deferred_count :: nat
  ep_authorized :: "(socket_addr, instant) table"
  ep_admission :: admission
  ep_permits :: "(socket_addr, ip_key) table"
  ep_rekeys :: "(socket_addr, auto_rekey) table"
  ep_remote :: "socket_addr option"
  ep_candidates :: "socket_addr list"
  ep_slots :: "(nat, bytes) table"

text \<open>\<open>en_detail\<close> is the text of \<^verbatim>\<open>diagnostic_bytes\<close> for a phase and an error.\<close>

record ('h, 'st) ep_env =
  en_dg :: "('h, 'st) dg_env"
  en_initial_session :: "handle option"
  en_connect_deadline :: "instant option"
  en_write_capacity :: nat
  en_rekey_after :: "duration option"
  en_rekey_after_bytes :: "nat option"
  en_idle_timeout :: duration
  en_detail :: "string \<Rightarrow> error_code \<Rightarrow> bytes"

type_synonym ('h, 'st) ep_out = "(('h, 'st) ep \<times> packets \<times> bool) option"

definition ep_then :: "('h, 'st) ep_out \<Rightarrow> (('h, 'st) ep \<Rightarrow> ('h, 'st) ep_out) \<Rightarrow> ('h, 'st) ep_out" where
  "ep_then m f = (case m of
       None \<Rightarrow> None
     | Some (s, out, go) \<Rightarrow>
         if \<not> go then Some (s, out, False)
         else (case f s of None \<Rightarrow> None | Some (s1, out1, go1) \<Rightarrow> Some (s1, out @ out1, go1)))"

definition set_shared :: "shared \<Rightarrow> ('h, 'st) ep \<Rightarrow> ('h, 'st) ep" where
  "set_shared sh s = s\<lparr>ep_dg := (ep_dg s)\<lparr>dg_shared := sh\<rparr>\<rparr>"

definition set_wire :: "dgram_wire \<Rightarrow> ('h, 'st) ep \<Rightarrow> ('h, 'st) ep" where
  "set_wire w s = s\<lparr>ep_dg := (ep_dg s)\<lparr>dg_wire := w\<rparr>\<rparr>"

definition set_peers :: "(socket_addr, ('h, 'st) peer) table \<Rightarrow> ('h, 'st) ep \<Rightarrow> ('h, 'st) ep" where
  "set_peers ps s = s\<lparr>ep_dg := (ep_dg s)\<lparr>dg_peers := ps\<rparr>\<rparr>"

abbreviation ep_shared :: "('h, 'st) ep \<Rightarrow> shared" where
  "ep_shared s \<equiv> dg_shared (ep_dg s)"

abbreviation ep_wire :: "('h, 'st) ep \<Rightarrow> dgram_wire" where
  "ep_wire s \<equiv> dg_wire (ep_dg s)"

abbreviation ep_peers :: "('h, 'st) ep \<Rightarrow> (socket_addr, ('h, 'st) peer) table" where
  "ep_peers s \<equiv> dg_peers (ep_dg s)"

text \<open>Removing a permit from its map drops it, which releases it in the controller.\<close>

definition drop_permit :: "socket_addr \<Rightarrow> ('h, 'st) ep \<Rightarrow> ('h, 'st) ep" where
  "drop_permit peer s = (case fmlookup (ep_permits s) peer of
       None \<Rightarrow> s
     | Some key \<Rightarrow> s\<lparr>ep_permits := fmdrop peer (ep_permits s), ep_admission := permit_drop key (ep_admission s)\<rparr>)"

definition drop_rekey :: "socket_addr \<Rightarrow> ('h, 'st) ep \<Rightarrow> ('h, 'st) ep" where
  "drop_rekey peer s = s\<lparr>ep_rekeys := fmdrop peer (ep_rekeys s)\<rparr>"

definition drop_deferred :: "socket_addr \<Rightarrow> ('h, 'st) ep \<Rightarrow> ('h, 'st) ep" where
  "drop_deferred peer s = (case fmlookup (ep_deferred s) peer of
       None \<Rightarrow> s
     | Some queued \<Rightarrow>
         s\<lparr>ep_deferred := fmdrop peer (ep_deferred s), ep_deferred_count := ep_deferred_count s - length queued\<rparr>)"

definition fail_ep :: "('h, 'st) ep_env \<Rightarrow> clock \<Rightarrow> handle option \<Rightarrow> string \<Rightarrow> error_code \<Rightarrow> ('h, 'st) ep \<Rightarrow> ('h, 'st) ep" where
  "fail_ep en ck session phase e s =
     set_shared (fail_endpoint (dg_endpoint (en_dg en)) session e (en_detail en phase e) (ck_now ck) (ep_shared s)) s"

definition end_session :: "('h, 'st) ep_env \<Rightarrow> clock \<Rightarrow> handle \<Rightarrow> string \<Rightarrow> error_code \<Rightarrow> ('h, 'st) ep \<Rightarrow> ('h, 'st) ep" where
  "end_session en ck session phase e s =
     set_shared (remove_session_with_error session e (en_detail en phase e) (ck_now ck) (ep_shared s)) s"

section \<open>Preflight\<close>

definition acquire_permit :: "clock \<Rightarrow> socket_addr \<Rightarrow> ('h, 'st) ep \<Rightarrow> ('h, 'st) ep \<times> bool" where
  "acquire_permit ck peer s = (case try_acquire_at (sock_ip peer) (ck_now ck) (ep_admission s) of
       (a, Inl _) \<Rightarrow> (s\<lparr>ep_admission := a\<rparr>, False)
     | (a, Inr key) \<Rightarrow> (s\<lparr>ep_admission := a, ep_permits := fmupd peer key (ep_permits s)\<rparr>, True))"

definition preflight_hello :: "('h, 'st) dg_env \<Rightarrow> clock \<Rightarrow> socket_addr \<Rightarrow> u32 \<Rightarrow> ('h, 'st) ep \<Rightarrow> ('h, 'st) ep" where
  "preflight_hello env ck peer conv s =
     (let (s1, held) = (if fmlookup (ep_permits s) peer \<noteq> None then (s, True) else acquire_permit ck peer s)
      in if \<not> held then s1
         else case authorize_peer peer conv (ep_wire s1) of
           (w, Inr _) \<Rightarrow>
             (set_wire w s1)\<lparr>ep_authorized := fmupd peer (ck_now ck + dg_handshake_timeout env) (ep_authorized s1)\<rparr>
         | (w, Inl _) \<Rightarrow> drop_permit peer (set_wire w s1))"

definition preflight_challenge :: "clock \<Rightarrow> socket_addr \<Rightarrow> u32 \<Rightarrow> bytes \<Rightarrow> ('h, 'st) ep \<Rightarrow>
    (('h, 'st) ep \<times> packets \<times> bool result) option" where
  "preflight_challenge ck peer conv cookie s =
     (let out = [(peer, encode_hello conv cookie)]
      in if \<not> ck_ok ck then Some (s, out, Inl IoError)
         else case authorize_peer peer conv (ep_wire s) of
           (w, Inl e) \<Rightarrow> Some (set_wire w s, out, Inl e)
         | (w, Inr _) \<Rightarrow>
             (case send_reliable peer \<lparr>rec_kind = ClientHello, rec_epoch = 0, rec_payload = cookie\<rparr> 128
                     (ck_ok ck) (ck_ms ck) (ck_now ck) w of
                None \<Rightarrow> None
              | Some (w1, out1, Inl e) \<Rightarrow> Some (set_wire w1 s, out @ out1, Inl e)
              | Some (w1, out1, Inr _) \<Rightarrow> Some (set_wire w1 s, out @ out1, Inr True)))"

definition handle_preflight :: "('h, 'st) dg_env \<Rightarrow> clock \<Rightarrow> socket_addr \<Rightarrow> bytes \<Rightarrow> ('h, 'st) ep \<Rightarrow>
    (('h, 'st) ep \<times> packets \<times> bool result) option" where
  "handle_preflight env ck peer packet s =
     (if dg_transport env \<noteq> Kcp \<or> has_peer peer (ep_wire s) then Some (s, [], Inr False)
      else case pf_decode packet of
        Some (Hello conv cookie) \<Rightarrow>
          (case dg_security env of
             AdaptiveServer _ _ _ \<Rightarrow>
               if cookie_ok env ck peer cookie then Some (preflight_hello env ck peer conv s, [], Inr True)
               else Some (s, [(peer, encode_challenge conv (cookie_issue (dg_hmac env) (ck_secs ck) peer))], Inr True)
           | AdaptiveClient _ \<Rightarrow> Some (s, [], Inr True))
      | Some (Challenge conv cookie) \<Rightarrow>
          (case dg_security env of
             AdaptiveServer _ _ _ \<Rightarrow> Some (s, [], Inr True)
           | AdaptiveClient _ \<Rightarrow>
               if ep_remote s = Some peer then preflight_challenge ck peer conv cookie s
               else Some (s, [], Inr True))
      | None \<Rightarrow> Some (s, [], Inr (fmlookup (ep_authorized s) peer = None)))"

section \<open>Inbound\<close>

definition ensure_rekey :: "('h, 'st) ep_env \<Rightarrow> clock \<Rightarrow> socket_addr \<Rightarrow> ('h, 'st) ep \<Rightarrow> ('h, 'st) ep" where
  "ensure_rekey en ck peer s =
     (if fmlookup (ep_rekeys s) peer \<noteq> None then s
      else s\<lparr>ep_rekeys := fmupd peer (ar_new (en_rekey_after en) (en_rekey_after_bytes en) (ck_now ck)) (ep_rekeys s)\<rparr>)"

fun takes_commands :: "('h, 'st) peer option \<Rightarrow> bool" where
  "takes_commands (Some (PEstablished _ _ _ commands _ _)) \<longleftrightarrow> commands \<noteq> None"
| "takes_commands _ \<longleftrightarrow> False"

definition record_limit :: "('h, 'st) dg_env \<Rightarrow> nat" where
  "record_limit env = (if dg_transport env = Kcp then sat_add (dg_max_body env) (HEADER_LEN + 64) else dg_max_datagram env)"

definition admitted :: "('h, 'st) dg_env \<Rightarrow> clock \<Rightarrow> socket_addr \<Rightarrow> sec_record \<Rightarrow> ('h, 'st) ep \<Rightarrow> ('h, 'st) ep \<times> bool" where
  "admitted env ck peer r s =
     (if (case dg_security env of AdaptiveServer _ _ _ \<Rightarrow> True | _ \<Rightarrow> False) \<and> rec_kind r = ClientHello \<and>
         fmlookup (ep_peers s) peer = None \<and> fmlookup (ep_permits s) peer = None \<and> cookie_ok env ck peer (rec_payload r)
      then acquire_permit ck peer s else (s, True))"

definition process_failed :: "('h, 'st) ep_env \<Rightarrow> clock \<Rightarrow> socket_addr \<Rightarrow> handle option \<Rightarrow> bool \<Rightarrow> error_code \<Rightarrow> ('h, 'st) ep \<Rightarrow>
    ('h, 'st) ep \<times> bool" where
  "process_failed en ck peer prior joining e s =
     (if fmlookup (ep_peers s) peer \<noteq> None then (s, True)
      else
        let session = (case prior of Some h \<Rightarrow> Some h
                       | None \<Rightarrow> if ep_remote s = Some peer then en_initial_session en else None)
        in if ep_remote s = Some peer \<and> joining then (fail_ep en ck session ''datagram_handshake'' e s, False)
           else
             let s1 = (case session of
                   None \<Rightarrow> s
                 | Some h \<Rightarrow> if session_active h (ep_shared s) then end_session en ck h ''datagram_handshake'' e s else s);
                 s2 = drop_deferred peer s1;
                 s3 = set_wire (remove_peer peer (ep_wire s2)) s2
             in (drop_rekey peer (drop_permit peer s3), True))"

definition process_record :: "('h, 'st) ep_env \<Rightarrow> clock \<Rightarrow> socket_addr \<Rightarrow> sec_record \<Rightarrow> ('h, 'st) ep \<Rightarrow> ('h, 'st) ep_out" where
  "process_record en ck peer r s =
     (let previous = fmlookup (ep_peers s) peer;
          prior = Option.bind previous peer_session;
          joining = (case previous of None \<Rightarrow> False | Some p \<Rightarrow> \<not> is_established p)
      in case process (en_dg en) ck peer r (ep_dg s) of
           None \<Rightarrow> None
         | Some (d, out, Inr _) \<Rightarrow>
             let s1 = s\<lparr>ep_dg := d\<rparr>;
                 s2 = (if takes_commands (fmlookup (dg_peers d) peer) then ensure_rekey en ck peer s1 else s1)
             in Some (set_wire (end_input True (ep_wire s2)) s2, out, True)
         | Some (d, out, Inl e) \<Rightarrow>
             (case process_failed en ck peer prior joining e (s\<lparr>ep_dg := d\<rparr>) of
                (s1, False) \<Rightarrow> Some (s1, out, False)
              | (s1, True) \<Rightarrow> Some (set_wire (end_input False (ep_wire s1)) s1, out, True)))"

definition inbound_record :: "('h, 'st) ep_env \<Rightarrow> clock \<Rightarrow> socket_addr \<Rightarrow> bytes \<Rightarrow> ('h, 'st) ep \<Rightarrow> ('h, 'st) ep_out" where
  "inbound_record en ck peer bs s = (case decode_record bs (record_limit (en_dg en)) of
       Inl _ \<Rightarrow> Some (s, [], True)
     | Inr r \<Rightarrow>
         (case admitted (en_dg en) ck peer r s of
            (s1, False) \<Rightarrow> Some (s1, [], True)
          | (s1, True) \<Rightarrow>
              if rec_kind r = PlainData then process_record en ck peer r s1
              else (case begin_input peer bs (ep_wire s1) of
                      (w, True, resp) \<Rightarrow>
                        Some (set_wire w s1, case resp of None \<Rightarrow> [] | Some b \<Rightarrow> [(peer, b)], True)
                    | (w, False, _) \<Rightarrow> process_record en ck peer r (set_wire w s1))))"

fun inbound_records :: "('h, 'st) ep_env \<Rightarrow> clock \<Rightarrow> socket_addr \<Rightarrow> bytes list \<Rightarrow> ('h, 'st) ep \<Rightarrow> ('h, 'st) ep_out" where
  "inbound_records en ck peer [] s = Some (s, [], True)"
| "inbound_records en ck peer (bs # rest) s =
     ep_then (inbound_record en ck peer bs s) (inbound_records en ck peer rest)"

definition inbound :: "('h, 'st) ep_env \<Rightarrow> clock \<Rightarrow> socket_addr \<Rightarrow> bytes \<Rightarrow> ('h, 'st) ep \<Rightarrow> ('h, 'st) ep_out" where
  "inbound en ck peer packet s = (case handle_preflight (en_dg en) ck peer packet s of
       None \<Rightarrow> None
     | Some (s1, out, Inl e) \<Rightarrow> Some (fail_ep en ck (en_initial_session en) ''datagram_preflight'' e s1, out, False)
     | Some (s1, out, Inr True) \<Rightarrow> Some (s1, out, True)
     | Some (s1, out, Inr False) \<Rightarrow>
         (case dw_receive peer packet (ck_ms ck) (ep_wire s1) of
            (w, Inl _) \<Rightarrow> Some (set_wire w s1, out, True)
          | (w, Inr delivered) \<Rightarrow>
              let s2 = set_wire w s1;
                  s3 = (if has_peer peer w then s2\<lparr>ep_authorized := fmdrop peer (ep_authorized s2)\<rparr> else s2)
              in ep_then (Some (s3, out, True)) (inbound_records en ck peer delivered)))"

text \<open>The error branch of the receive.\<close>

definition receive_failed :: "('h, 'st) ep_env \<Rightarrow> clock \<Rightarrow> error_code \<Rightarrow> ('h, 'st) ep \<Rightarrow> ('h, 'st) ep_out" where
  "receive_failed en ck e s = Some (fail_ep en ck (en_initial_session en) ''datagram_receive'' e s, [], False)"

section \<open>Outbound\<close>

definition resolve_latest :: "outbound \<Rightarrow> ('h, 'st) ep \<Rightarrow> ('h, 'st) ep \<times> (outbound_kind \<times> bytes) option" where
  "resolve_latest ob s = (case ob of
       Ready kind bs \<Rightarrow> (s, Some (kind, bs))
     | Slot i \<Rightarrow> (s\<lparr>ep_slots := fmdrop i (ep_slots s)\<rparr>, map_option (Pair OutData) (fmlookup (ep_slots s) i)))"

definition outbound_record :: "('h, 'st) dg_env \<Rightarrow> controller \<Rightarrow> outbound_kind \<Rightarrow> bytes \<Rightarrow> 'st datagram_transport \<Rightarrow>
    'st datagram_transport \<times> sec_record result" where
  "outbound_record env c kind bs tr = (case kind of
       OutData \<Rightarrow> data_record (dg_cipher env) c bs (dg_max_body env) tr
     | OutGameControl \<Rightarrow> protected_record (dg_cipher env) (sc_epoch c) GameControl bs (dg_max_body env) tr)"

definition count_encrypted :: "socket_addr \<Rightarrow> controller \<Rightarrow> outbound_kind \<Rightarrow> bytes \<Rightarrow> ('h, 'st) ep \<Rightarrow> ('h, 'st) ep" where
  "count_encrypted peer c kind bs s =
     (if sc_mode c = Encrypted \<or> kind = OutGameControl
      then (case fmlookup (ep_rekeys s) peer of
              None \<Rightarrow> s
            | Some a \<Rightarrow> s\<lparr>ep_rekeys := fmupd peer (record_encrypted_bytes (length bs) a) (ep_rekeys s)\<rparr>)
      else s)"

definition deferred_of :: "socket_addr \<Rightarrow> ('h, 'st) ep \<Rightarrow> outbound list" where
  "deferred_of peer s = (case fmlookup (ep_deferred s) peer of None \<Rightarrow> [] | Some q \<Rightarrow> q)"

definition defer_back :: "socket_addr \<Rightarrow> outbound \<Rightarrow> ('h, 'st) ep \<Rightarrow> ('h, 'st) ep" where
  "defer_back peer ob s = s\<lparr>ep_deferred := fmupd peer (deferred_of peer s @ [ob]) (ep_deferred s),
     ep_deferred_count := ep_deferred_count s + 1\<rparr>"

definition defer_front :: "socket_addr \<Rightarrow> outbound \<Rightarrow> ('h, 'st) ep \<Rightarrow> ('h, 'st) ep" where
  "defer_front peer ob s = s\<lparr>ep_deferred := fmupd peer (ob # deferred_of peer s) (ep_deferred s),
     ep_deferred_count := ep_deferred_count s + 1\<rparr>"

definition set_peer :: "socket_addr \<Rightarrow> ('h, 'st) peer \<Rightarrow> ('h, 'st) ep \<Rightarrow> ('h, 'st) ep" where
  "set_peer peer state s = set_peers (fmupd peer state (ep_peers s)) s"

definition drop_peer :: "socket_addr \<Rightarrow> ('h, 'st) ep \<Rightarrow> ('h, 'st) ep" where
  "drop_peer peer s = set_peers (fmdrop peer (ep_peers s)) s"

text \<open>The branch is enabled while \<open>deferred_count\<close> is below the write capacity.\<close>

definition send_now :: "('h, 'st) ep_env \<Rightarrow> clock \<Rightarrow> socket_addr \<Rightarrow> handle \<Rightarrow> 'st datagram_transport \<Rightarrow> controller \<Rightarrow>
    security_command list option \<Rightarrow> instant \<Rightarrow> instant option \<Rightarrow> outbound_kind \<Rightarrow> bytes \<Rightarrow> ('h, 'st) ep \<Rightarrow> ('h, 'st) ep_out" where
  "send_now en ck peer session tr c commands activity deadline kind bs s =
     (case outbound_record (en_dg en) c kind bs tr of
        (_, Inl e) \<Rightarrow> Some (end_session en ck session ''datagram_encode'' e (drop_peer peer s), [], True)
      | (tr1, Inr r) \<Rightarrow>
          (case dw_send peer r (dg_max_datagram (en_dg en)) (ck_ok ck) (ck_ms ck) (ep_wire s) of
             None \<Rightarrow> None
           | Some (w, out, Inr _) \<Rightarrow>
               Some (set_peer peer (PEstablished session tr1 c commands (ck_now ck) deadline)
                       (count_encrypted peer c kind bs (set_wire w s)), out, True)
           | Some (w, out, Inl e) \<Rightarrow>
               if e = WouldBlock
               then Some (set_peer peer (PEstablished session tr1 c commands activity deadline)
                            (defer_back peer (Ready kind bs) (set_wire w s)), out, True)
               else Some (end_session en ck session ''datagram_write'' e (drop_peer peer (set_wire w s)), out, True)))"

definition outbound_step :: "('h, 'st) ep_env \<Rightarrow> clock \<Rightarrow> socket_addr \<Rightarrow> outbound \<Rightarrow> ('h, 'st) ep \<Rightarrow> ('h, 'st) ep_out" where
  "outbound_step en ck peer ob s =
     (if en_write_capacity en \<le> ep_deferred_count s then Some (s, [], True)
      else case fmlookup (ep_peers s) peer of
        Some (PEstablished session tr c commands activity deadline) \<Rightarrow>
          if \<not> session_active session (ep_shared s) then Some (s, [], True)
          else if is_transitioning c then Some (defer_back peer ob s, [], True)
          else (case resolve_latest ob s of
                  (s1, None) \<Rightarrow> Some (s1, [], True)
                | (s1, Some (kind, bs)) \<Rightarrow> send_now en ck peer session tr c commands activity deadline kind bs s1)
      | _ \<Rightarrow> Some (s, [], True))"

section \<open>Cleanup\<close>

definition cleanup_peer :: "socket_addr \<Rightarrow> handle \<Rightarrow> ('h, 'st) ep \<Rightarrow> ('h, 'st) ep" where
  "cleanup_peer peer session s =
     (case fmlookup (ep_peers s) peer of
        Some p \<Rightarrow>
          if is_reject (Some p) \<or> peer_session p \<noteq> Some session then s
          else let s1 = drop_deferred peer (drop_peer peer s) in set_wire (remove_peer peer (ep_wire s1)) s1
      | None \<Rightarrow> let s1 = drop_deferred peer s in set_wire (remove_peer peer (ep_wire s1)) s1)"

definition cleanup_step :: "socket_addr \<Rightarrow> handle \<Rightarrow> ('h, 'st) ep \<Rightarrow> ('h, 'st) ep_out" where
  "cleanup_step peer session s = Some (drop_rekey peer (drop_permit peer (cleanup_peer peer session s)), [], True)"

end
