(* ===== verification/Datagram_Tick.thy ===== *)
theory Datagram_Tick
  imports Datagram_Endpoint
begin

text \<open>
  The timer branch of the datagram loop: the next address candidate of a client, expired preflight
  authorizations, the timers, decisions and commands of every peer (\<^verbatim>\<open>drive_server\<close>), one deferred message of each peer
  (\<^verbatim>\<open>flush_deferred\<close>), the KCP flush and the retransmissions. All steps of the endpoint are collected in
  \<open>ep_step\<close> at the end.
\<close>

section \<open>Address candidates\<close>

text \<open>What the operating system answers: the family of the socket, the result of binding another one, random bytes.\<close>

record tick_in =
  tk_local_v4 :: "bool option"
  tk_rebind :: "(string \<times> error_code) + socket_addr"
  tk_random :: "bytes option"

definition send_client_hello :: "('h, 'st) dg_env \<Rightarrow> clock \<Rightarrow> bytes option \<Rightarrow> socket_addr \<Rightarrow> dgram_wire \<Rightarrow>
    (dgram_wire \<times> packets \<times> unit result) option" where
  "send_client_hello env ck drawn peer w =
     (if dg_transport env = Kcp
      then (case random_conv drawn of
              Inl e \<Rightarrow> Some (w, [], Inl e)
            | Inr conv \<Rightarrow> Some (w, [(peer, encode_hello conv [])], if ck_ok ck then Inr () else Inl IoError))
      else send_reliable peer \<lparr>rec_kind = ClientHello, rec_epoch = 0, rec_payload = []\<rparr> 128
             (ck_ok ck) (ck_ms ck) (ck_now ck) w)"

definition pending_client_timeout :: "duration \<Rightarrow> instant \<Rightarrow> ('h, 'st) peer \<Rightarrow> handle option" where
  "pending_client_timeout timeout now state = (case state of
       PClientHello session started \<Rightarrow> if timeout \<le> now - started then Some session else None
     | PClientResponse session _ _ _ started \<Rightarrow> if timeout \<le> now - started then Some session else None
     | PClientAuth session _ _ _ connect_started \<Rightarrow> if timeout \<le> now - connect_started then Some session else None
     | _ \<Rightarrow> None)"

definition final_client_timeout :: "duration \<Rightarrow> instant \<Rightarrow> ('h, 'st) peer \<Rightarrow> bool" where
  "final_client_timeout timeout now state = (case state of
       PClientAuth _ _ _ auth_started _ \<Rightarrow> timeout \<le> now - auth_started
     | _ \<Rightarrow> pending_client_timeout timeout now state \<noteq> None)"

definition take_retry_candidate :: "duration \<Rightarrow> instant \<Rightarrow> ('h, 'st) peer option \<Rightarrow> socket_addr list \<Rightarrow>
    (handle \<times> socket_addr \<times> socket_addr list) option" where
  "take_retry_candidate timeout now state candidates =
     (case Option.bind state (pending_client_timeout timeout now) of
        None \<Rightarrow> None
      | Some session \<Rightarrow> (case candidates of [] \<Rightarrow> None | next_addr # rest \<Rightarrow> Some (session, next_addr, rest)))"

definition push_endpoint_error :: "handle \<Rightarrow> error_code \<Rightarrow> bytes \<Rightarrow> instant \<Rightarrow> shared \<Rightarrow> shared" where
  "push_endpoint_error endpoint status txt now sh =
     sh\<lparr>sh_events := fst (eq_try_push ((event_simple EndpointError now)\<lparr>ev_endpoint := endpoint, ev_status := status,
        ev_data := txt\<rparr>) now (sh_events sh))\<rparr>"

definition forget_candidate :: "('h, 'st) ep_env \<Rightarrow> clock \<Rightarrow> socket_addr \<Rightarrow> ('h, 'st) ep \<Rightarrow> ('h, 'st) ep" where
  "forget_candidate en ck current s =
     (let s1 = set_shared (push_endpoint_error (dg_endpoint (en_dg en)) Timeout
                 (en_detail en ''datagram candidate timed out'' Timeout) (ck_now ck) (ep_shared s)) s;
          s2 = drop_peer current s1;
          s3 = (set_wire (remove_peer current (ep_wire s2)) s2)\<lparr>ep_authorized := fmdrop current (ep_authorized s2)\<rparr>
      in drop_rekey current (drop_permit current s3))"

text \<open>A socket of the other family is bound when the next candidate needs it.\<close>

definition rebind :: "('h, 'st) ep_env \<Rightarrow> clock \<Rightarrow> tick_in \<Rightarrow> handle \<Rightarrow> socket_addr \<Rightarrow> ('h, 'st) ep \<Rightarrow> ('h, 'st) ep_out" where
  "rebind en ck tk session next_addr s =
     (if (case tk_local_v4 tk of None \<Rightarrow> True | Some v4 \<Rightarrow> v4 = (\<not> is_ipv6 next_addr)) then Some (s, [], True)
      else case tk_rebind tk of
        Inl (phase, e) \<Rightarrow> Some (fail_ep en ck (Some session) phase e s, [], False)
      | Inr local_addr \<Rightarrow>
          (case retarget_datagram_endpoint (dg_endpoint (en_dg en)) local_addr (ep_shared s) of
             (sh, Inl e) \<Rightarrow> Some (fail_ep en ck (Some session) ''datagram_retarget_endpoint'' e (set_shared sh s), [], False)
           | (sh, Inr _) \<Rightarrow> Some (set_shared sh s, [], True)))"

definition start_candidate :: "('h, 'st) ep_env \<Rightarrow> clock \<Rightarrow> tick_in \<Rightarrow> handle \<Rightarrow> socket_addr \<Rightarrow> ('h, 'st) ep \<Rightarrow> ('h, 'st) ep_out" where
  "start_candidate en ck tk session next_addr s =
     (case retarget_datagram_session session next_addr (ep_shared s) of
        (sh, Inl e) \<Rightarrow> Some (fail_ep en ck (Some session) ''datagram_retarget_session'' e (set_shared sh s), [], False)
      | (sh, Inr _) \<Rightarrow>
          (case send_client_hello (en_dg en) ck (tk_random tk) next_addr (ep_wire s) of
             None \<Rightarrow> None
           | Some (w, out, Inl e) \<Rightarrow>
               Some (fail_ep en ck (Some session) ''datagram_hello'' e (set_wire w (set_shared sh s)), out, False)
           | Some (w, out, Inr _) \<Rightarrow>
               Some ((set_peer next_addr (PClientHello session (ck_now ck)) (set_wire w (set_shared sh s)))
                       \<lparr>ep_remote := Some next_addr\<rparr>, out, True)))"

definition tick_connect :: "('h, 'st) ep_env \<Rightarrow> clock \<Rightarrow> tick_in \<Rightarrow> ('h, 'st) ep \<Rightarrow> ('h, 'st) ep_out" where
  "tick_connect en ck tk s =
     (case ep_remote s of
        None \<Rightarrow> Some (s, [], True)
      | Some current \<Rightarrow>
          let timeout = dg_handshake_timeout (en_dg en); now = ck_now ck;
              state = fmlookup (ep_peers s) current;
              final_timeout = (ep_candidates s = [] \<and>
                (case state of None \<Rightarrow> False | Some p \<Rightarrow> final_client_timeout timeout now p));
              expired = (case en_connect_deadline en of None \<Rightarrow> False | Some deadline \<Rightarrow> deadline \<le> now)
          in if (expired \<or> final_timeout) \<and> (case state of None \<Rightarrow> False | Some p \<Rightarrow> \<not> is_established p)
             then Some (case Option.bind state peer_session of
                          None \<Rightarrow> s
                        | Some session \<Rightarrow> fail_ep en ck (Some session) ''datagram_connect'' Timeout s, [], False)
             else case take_retry_candidate timeout now state (ep_candidates s) of
               None \<Rightarrow> Some (s, [], True)
             | Some (session, next_addr, rest) \<Rightarrow>
                 ep_then (rebind en ck tk session next_addr (forget_candidate en ck current (s\<lparr>ep_candidates := rest\<rparr>)))
                   (start_candidate en ck tk session next_addr))"

section \<open>Peers\<close>

definition expire_preflight :: "instant \<Rightarrow> socket_addr \<Rightarrow> ('h, 'st) ep \<Rightarrow> ('h, 'st) ep" where
  "expire_preflight now peer s = (case fmlookup (ep_authorized s) peer of
       None \<Rightarrow> s
     | Some deadline \<Rightarrow>
         if now < deadline then s
         else drop_permit peer ((set_wire (revoke_authorization peer (ep_wire s)) s)
                \<lparr>ep_authorized := fmdrop peer (ep_authorized s)\<rparr>))"

definition tick_preflight :: "instant \<Rightarrow> ('h, 'st) ep \<Rightarrow> ('h, 'st) ep" where
  "tick_preflight now s = fold (expire_preflight now) (table_keys (ep_authorized s)) s"

definition remove_peer_state :: "socket_addr \<Rightarrow> ('h, 'st) ep \<Rightarrow> ('h, 'st) ep" where
  "remove_peer_state peer s = (let s1 = drop_peer peer s in set_wire (remove_peer peer (ep_wire s1)) s1)"

definition drive_auth :: "('h, 'st) ep_env \<Rightarrow> clock \<Rightarrow> socket_addr \<Rightarrow> handle \<Rightarrow> 'st datagram_transport \<Rightarrow> bool \<Rightarrow>
    security_command list \<Rightarrow> security_mode \<Rightarrow> ('h, 'st) ep \<Rightarrow> ('h, 'st) ep_out" where
  "drive_auth en ck peer session tr accepted commands mode s =
     (case send_protected (dg_cipher (en_dg en)) ck peer INITIAL_EPOCH AuthDecision
             [of_bool accepted, mode_tag mode] 64
             \<lparr>es_shared = ep_shared s, es_wire = ep_wire s, es_transport = tr,
              es_controller = sc_new Server mode INITIAL_EPOCH\<rparr> of
        None \<Rightarrow> None
      | Some (es, out, Inl e) \<Rightarrow>
          Some (end_session en ck session ''datagram_auth_write'' e (drop_peer peer (set_wire (es_wire es) s)), out, True)
      | Some (es, out, Inr _) \<Rightarrow>
          let s1 = set_wire (es_wire es) s;
              (sh, marked) = (if accepted then mark_session_established session (ep_shared s1)
                              else (ep_shared s1, Inl AuthRejected))
          in case marked of
               Inl _ \<Rightarrow>
                 Some (set_peer peer (PServerReject (ck_now ck + dg_handshake_timeout (en_dg en)))
                         (set_shared (close_session_inner session AuthRejected [] False (ck_now ck) sh) s1), out, True)
             | Inr _ \<Rightarrow>
                 (case try_push_session_event (session_event SessionOpened (dg_endpoint (en_dg en)) session (ck_now ck))
                         (ck_now ck) sh of
                    (sh1, Inl _) \<Rightarrow> Some (drop_peer peer (set_shared sh1 s1), out, True)
                  | (sh1, Inr _) \<Rightarrow>
                      Some (set_peer peer
                              (PEstablished session (es_transport es) (es_controller es) (Some commands) (ck_now ck) None)
                              (ensure_rekey en ck peer (set_shared sh1 s1)), out, True)))"

definition restart_rekey :: "instant \<Rightarrow> socket_addr \<Rightarrow> ('h, 'st) ep \<Rightarrow> ('h, 'st) ep" where
  "restart_rekey now peer s = (case fmlookup (ep_rekeys s) peer of
       None \<Rightarrow> s
     | Some a \<Rightarrow> s\<lparr>ep_rekeys := fmupd peer (mark_started now a) (ep_rekeys s)\<rparr>)"

text \<open>The command that is taken, if any, and the control it starts.\<close>

definition take_command :: "instant \<Rightarrow> socket_addr \<Rightarrow> controller \<Rightarrow> security_command list option \<Rightarrow> ('h, 'st) ep \<Rightarrow>
    ('h, 'st) ep \<times> controller \<times> security_command list option \<times> control option" where
  "take_command now peer c commands s =
     (case commands of
        Some (cmd # rest) \<Rightarrow>
          if is_transitioning c then (s, c, commands, None)
          else (case cmd of
              SetModeCmd mode \<Rightarrow>
                (case begin_switch mode c of
                   Inl _ \<Rightarrow> (s, c, Some rest, None) | Inr (c1, ctl) \<Rightarrow> (s, c1, Some rest, Some ctl))
            | RekeyCmd \<Rightarrow>
                (case begin_rekey c of
                   Inl _ \<Rightarrow> (restart_rekey now peer s, c, Some rest, None)
                 | Inr (c1, ctl) \<Rightarrow> (restart_rekey now peer s, c1, Some rest, Some ctl)))
      | _ \<Rightarrow> (s, c, commands, None))"

definition automatic_rekey :: "instant \<Rightarrow> socket_addr \<Rightarrow> controller \<Rightarrow> ('h, 'st) ep \<Rightarrow> ('h, 'st) ep \<times> controller \<times> control option" where
  "automatic_rekey now peer c s =
     (if sc_mode c = Encrypted \<and> \<not> is_transitioning c \<and>
         (case fmlookup (ep_rekeys s) peer of None \<Rightarrow> False | Some a \<Rightarrow> is_due now a)
      then (case begin_rekey c of
              Inl _ \<Rightarrow> (s, c, None) | Inr (c1, ctl) \<Rightarrow> (restart_rekey now peer s, c1, Some ctl))
      else (s, c, None))"

definition drive_established :: "('h, 'st) ep_env \<Rightarrow> clock \<Rightarrow> socket_addr \<Rightarrow> handle \<Rightarrow> 'st datagram_transport \<Rightarrow> controller \<Rightarrow>
    security_command list option \<Rightarrow> instant \<Rightarrow> instant option \<Rightarrow> ('h, 'st) ep \<Rightarrow> ('h, 'st) ep_out" where
  "drive_established en ck peer session tr c commands activity deadline s =
     (case take_command (ck_now ck) peer c commands s of
        (s1, c1, commands1, ctl1) \<Rightarrow>
          (case (if ctl1 = None \<and> commands \<noteq> None then automatic_rekey (ck_now ck) peer c1 s1 else (s1, c1, ctl1)) of
             (s2, c2, None) \<Rightarrow> Some (set_peer peer (PEstablished session tr c2 commands1 activity deadline) s2, [], True)
           | (s2, c2, Some ctl) \<Rightarrow>
               (case send_protected (dg_cipher (en_dg en)) ck peer (sc_epoch c2) ControlMsg (encode_control ctl) 64
                       \<lparr>es_shared = ep_shared s2, es_wire = ep_wire s2, es_transport = tr, es_controller = c2\<rparr> of
                  None \<Rightarrow> None
                | Some (es, out, Inl e) \<Rightarrow>
                    Some (end_session en ck session ''datagram_security_write'' e
                            (drop_peer peer (set_wire (es_wire es) s2)), out, True)
                | Some (es, out, Inr _) \<Rightarrow>
                    Some (set_peer peer (PEstablished session (es_transport es) c2 commands1 activity
                              (Some (ck_now ck + dg_handshake_timeout (en_dg en)))) (set_wire (es_wire es) s2), out, True))))"

definition drive_peer :: "('h, 'st) ep_env \<Rightarrow> clock \<Rightarrow> socket_addr \<Rightarrow> ('h, 'st) ep \<Rightarrow> ('h, 'st) ep_out" where
  "drive_peer en ck peer s =
     (let now = ck_now ck; timeout = dg_handshake_timeout (en_dg en)
      in case fmlookup (ep_peers s) peer of
           Some (PCookie expires_at) \<Rightarrow> Some (if expires_at \<le> now then remove_peer_state peer s else s, [], True)
         | Some (PServerReject expires_at) \<Rightarrow> Some (if expires_at \<le> now then remove_peer_state peer s else s, [], True)
         | Some (PServerFirst _ started) \<Rightarrow> Some (if timeout \<le> now - started then remove_peer_state peer s else s, [], True)
         | Some (PServerFinish _ started) \<Rightarrow> Some (if timeout \<le> now - started then remove_peer_state peer s else s, [], True)
         | Some (PServerAuth session tr auth commands mode auth_started) \<Rightarrow>
             if timeout \<le> now - auth_started
             then Some (remove_peer_state peer (end_session en ck session ''datagram_auth_wait'' Timeout s), [], True)
             else (case auth of
                     None \<Rightarrow> Some (s, [], True)
                   | Some accepted \<Rightarrow> drive_auth en ck peer session tr accepted commands mode s)
         | Some (PEstablished session tr c commands activity deadline) \<Rightarrow>
             if en_idle_timeout en \<le> now - activity
             then Some (remove_peer_state peer (end_session en ck session ''datagram_idle'' Timeout s), [], True)
             else if (case deadline of None \<Rightarrow> False | Some t \<Rightarrow> t \<le> now)
             then Some (remove_peer_state peer (end_session en ck session ''datagram_security_transition'' Timeout s), [], True)
             else drive_established en ck peer session tr c commands activity deadline s
         | _ \<Rightarrow> Some (s, [], True))"

fun ep_fold :: "('k \<Rightarrow> ('h, 'st) ep \<Rightarrow> ('h, 'st) ep_out) \<Rightarrow> 'k list \<Rightarrow> ('h, 'st) ep \<Rightarrow> ('h, 'st) ep_out" where
  "ep_fold f [] s = Some (s, [], True)"
| "ep_fold f (k # ks) s = ep_then (f k s) (ep_fold f ks)"

definition drive_server :: "('h, 'st) ep_env \<Rightarrow> clock \<Rightarrow> ('h, 'st) ep \<Rightarrow> ('h, 'st) ep_out" where
  "drive_server en ck s = ep_fold (drive_peer en ck) (table_keys (ep_peers s)) s"

definition retain_permit :: "socket_addr \<Rightarrow> ('h, 'st) ep \<Rightarrow> ('h, 'st) ep" where
  "retain_permit peer s =
     (if fmlookup (ep_peers s) peer \<noteq> None \<or> fmlookup (ep_authorized s) peer \<noteq> None then s else drop_permit peer s)"

definition tick_retain :: "('h, 'st) ep \<Rightarrow> ('h, 'st) ep" where
  "tick_retain s =
     (let s1 = fold retain_permit (table_keys (ep_permits s)) s
      in s1\<lparr>ep_rekeys := fmfilter (\<lambda>peer. fmlookup (ep_peers s1) peer \<noteq> None) (ep_rekeys s1)\<rparr>)"

section \<open>Deferred messages\<close>

definition trim_deferred :: "socket_addr \<Rightarrow> ('h, 'st) ep \<Rightarrow> ('h, 'st) ep" where
  "trim_deferred peer s =
     (if fmlookup (ep_deferred s) peer = Some [] then s\<lparr>ep_deferred := fmdrop peer (ep_deferred s)\<rparr> else s)"

definition flush_failed :: "('h, 'st) ep_env \<Rightarrow> clock \<Rightarrow> socket_addr \<Rightarrow> handle \<Rightarrow> string \<Rightarrow> error_code \<Rightarrow> ('h, 'st) ep \<Rightarrow> ('h, 'st) ep" where
  "flush_failed en ck peer session phase e s =
     drop_deferred peer (remove_peer_state peer (end_session en ck session phase e s))"

definition flush_message :: "('h, 'st) ep_env \<Rightarrow> clock \<Rightarrow> socket_addr \<Rightarrow> handle \<Rightarrow> 'st datagram_transport \<Rightarrow> controller \<Rightarrow>
    security_command list option \<Rightarrow> instant \<Rightarrow> instant option \<Rightarrow> outbound_kind \<Rightarrow> bytes \<Rightarrow> ('h, 'st) ep \<Rightarrow> ('h, 'st) ep_out" where
  "flush_message en ck peer session tr c commands activity deadline kind bs s =
     (case outbound_record (en_dg en) c kind bs tr of
        (tr1, Inl e) \<Rightarrow>
          if e = WouldBlock
          then Some (defer_front peer (Ready kind bs)
                       (set_peer peer (PEstablished session tr1 c commands activity deadline) s), [], True)
          else Some (flush_failed en ck peer session ''datagram_deferred_encode'' e s, [], True)
      | (tr1, Inr r) \<Rightarrow>
          (case dw_send peer r (dg_max_datagram (en_dg en)) (ck_ok ck) (ck_ms ck) (ep_wire s) of
             None \<Rightarrow> None
           | Some (w, out, Inr _) \<Rightarrow>
               Some (trim_deferred peer (set_peer peer (PEstablished session tr1 c commands (ck_now ck) deadline)
                       (count_encrypted peer c kind bs (set_wire w s))), out, True)
           | Some (w, out, Inl e) \<Rightarrow>
               if e = WouldBlock
               then Some (defer_front peer (Ready kind bs)
                            (set_peer peer (PEstablished session tr1 c commands activity deadline) (set_wire w s)), out, True)
               else Some (flush_failed en ck peer session ''datagram_deferred_write'' e (set_wire w s), out, True)))"

definition flush_peer :: "('h, 'st) ep_env \<Rightarrow> clock \<Rightarrow> socket_addr \<Rightarrow> ('h, 'st) ep \<Rightarrow> ('h, 'st) ep_out" where
  "flush_peer en ck peer s =
     (case fmlookup (ep_peers s) peer of
        Some (PEstablished session tr c commands activity deadline) \<Rightarrow>
          if \<not> session_active session (ep_shared s) \<or> is_transitioning c then Some (s, [], True)
          else (case deferred_of peer s of
                  [] \<Rightarrow> Some (s, [], True)
                | ob # rest \<Rightarrow>
                    let s1 = s\<lparr>ep_deferred := fmupd peer rest (ep_deferred s), ep_deferred_count := ep_deferred_count s - 1\<rparr>
                    in case resolve_latest ob s1 of
                         (s2, None) \<Rightarrow> Some (trim_deferred peer s2, [], True)
                       | (s2, Some (kind, bs)) \<Rightarrow>
                           flush_message en ck peer session tr c commands activity deadline kind bs s2)
      | _ \<Rightarrow> Some (s, [], True))"

definition flush_deferred :: "('h, 'st) ep_env \<Rightarrow> clock \<Rightarrow> ('h, 'st) ep \<Rightarrow> ('h, 'st) ep_out" where
  "flush_deferred en ck s = ep_fold (flush_peer en ck) (table_keys (ep_deferred s)) s"

section \<open>Retransmission\<close>

definition retry_expired :: "('h, 'st) ep_env \<Rightarrow> clock \<Rightarrow> socket_addr \<Rightarrow> ('h, 'st) ep \<Rightarrow> ('h, 'st) ep_out" where
  "retry_expired en ck peer s =
     (case fmlookup (ep_peers s) peer of
        None \<Rightarrow> Some (s, [], True)
      | Some state \<Rightarrow>
          let s1 = drop_deferred peer (drop_peer peer s)
          in case peer_session state of
               None \<Rightarrow> Some (s1, [], True)
             | Some session \<Rightarrow>
                 if ep_remote s1 = Some peer \<and> \<not> is_established state
                 then Some (fail_ep en ck (Some session) ''datagram_control_retry'' Timeout s1, [], False)
                 else Some (end_session en ck session ''datagram_control_retry'' Timeout s1, [], True))"

definition tick_wire :: "('h, 'st) ep_env \<Rightarrow> clock \<Rightarrow> ('h, 'st) ep \<Rightarrow> ('h, 'st) ep_out" where
  "tick_wire en ck s =
     (case dw_flush (ck_ms ck) (ep_wire s) of (w, out) \<Rightarrow>
        (case dw_retry (ck_now ck) w of (w1, out1, expired) \<Rightarrow>
           ep_then (Some (set_wire w1 s, out @ out1, True)) (ep_fold (retry_expired en ck) expired)))"

definition tick_step :: "('h, 'st) ep_env \<Rightarrow> clock \<Rightarrow> tick_in \<Rightarrow> ('h, 'st) ep \<Rightarrow> ('h, 'st) ep_out" where
  "tick_step en ck tk s =
     ep_then (tick_connect en ck tk s) (\<lambda>s.
     ep_then (drive_server en ck (tick_preflight (ck_now ck) s)) (\<lambda>s.
     ep_then (flush_deferred en ck (tick_retain s)) (tick_wire en ck)))"

end
