(* ===== verification/Datagram_Runs.thy ===== *)
theory Datagram_Runs
  imports Datagram_Tick Transport_Registry
begin

text \<open>
  A datagram endpoint together with its application. The application decides pending authorizations, queues
  security commands, replaces slots and uses the registry; every call may come between any two steps of the loop.
  \<open>ep_reach\<close> collects the states of a running loop. The lemmas bound what each step does to the tables
  that are keyed by a remote address and to the queue of deferred messages.
\<close>

section \<open>The application side\<close>

text \<open>\<^verbatim>\<open>auth_decide\<close> with the channel it answers on: the receiver lives in the peer that waits for it.\<close>

fun awaits_decision :: "handle \<Rightarrow> ('h, 'st) peer \<Rightarrow> bool" where
  "awaits_decision session (PServerAuth h _ _ _ _ _) \<longleftrightarrow> h = session"
| "awaits_decision session _ \<longleftrightarrow> False"

fun deliver_decision :: "handle \<Rightarrow> bool \<Rightarrow> ('h, 'st) peer \<Rightarrow> ('h, 'st) peer" where
  "deliver_decision session accept (PServerAuth h tr auth commands mode started) =
     PServerAuth h tr (if h = session then Some accept else auth) commands mode started"
| "deliver_decision session accept p = p"

definition peer_list :: "('h, 'st) ep \<Rightarrow> ('h, 'st) peer list" where
  "peer_list s = map (\<lambda>k. the (fmlookup (ep_peers s) k)) (table_keys (ep_peers s))"

definition decide_step :: "handle \<Rightarrow> bool \<Rightarrow> ('h, 'st) ep \<Rightarrow> ('h, 'st) ep" where
  "decide_step session accept s =
     (case auth_decide session (list_ex (awaits_decision session) (peer_list s)) (ep_shared s) of
        (sh, Inl _) \<Rightarrow> set_shared sh s
      | (sh, Inr _) \<Rightarrow> set_peers (fmmap (deliver_decision session accept) (ep_peers s)) (set_shared sh s))"

text \<open>\<^verbatim>\<open>send_security_command\<close>: the channel of a session holds one command.\<close>

fun command_queue :: "handle \<Rightarrow> ('h, 'st) peer \<Rightarrow> security_command list option" where
  "command_queue session (PServerAuth h _ _ commands _ _) = (if h = session then Some commands else None)"
| "command_queue session (PEstablished h _ _ commands _ _) = (if h = session then commands else None)"
| "command_queue session _ = None"

fun deliver_command :: "handle \<Rightarrow> security_command \<Rightarrow> ('h, 'st) peer \<Rightarrow> ('h, 'st) peer" where
  "deliver_command session cmd (PServerAuth h tr auth commands mode started) =
     PServerAuth h tr auth (if h = session then commands @ [cmd] else commands) mode started"
| "deliver_command session cmd (PEstablished h tr c commands activity deadline) =
     PEstablished h tr c (if h = session then map_option (\<lambda>cs. cs @ [cmd]) commands else commands) activity deadline"
| "deliver_command session cmd p = p"

definition send_security_command :: "handle \<Rightarrow> security_command \<Rightarrow> ('h, 'st) ep \<Rightarrow> ('h, 'st) ep \<times> unit result" where
  "send_security_command session cmd s = (case ht_get (sh_sessions (ep_shared s)) session of
       None \<Rightarrow> (s, Inl InvalidHandle)
     | Some route \<Rightarrow>
         if \<not> rt_security_commands route then (s, Inl InvalidState)
         else (case List.map_filter (command_queue session) (peer_list s) of
                 [] \<Rightarrow> (s, Inl InvalidState)
               | queue # _ \<Rightarrow>
                   if queue \<noteq> [] then (s, Inl WouldBlock)
                   else (set_peers (fmmap (deliver_command session cmd) (ep_peers s)) s, Inr ())))"

section \<open>Steps\<close>

datatype ep_op =
    EInbound clock socket_addr bytes
  | EReceiveError clock error_code
  | EOutbound clock socket_addr outbound
  | ECleanup socket_addr handle
  | ETick clock tick_in
  | EDecide handle bool
  | ECommand handle security_command
  | ESlot nat bytes
  | ERegistry sreg_op

fun ep_step :: "('h, 'st) ep_env \<Rightarrow> ep_op \<Rightarrow> ('h, 'st) ep \<Rightarrow> ('h, 'st) ep_out" where
  "ep_step en (EInbound ck peer packet) s = inbound en ck peer packet s"
| "ep_step en (EReceiveError ck e) s = receive_failed en ck e s"
| "ep_step en (EOutbound ck peer ob) s = outbound_step en ck peer ob s"
| "ep_step en (ECleanup peer session) s = cleanup_step peer session s"
| "ep_step en (ETick ck tk) s = tick_step en ck tk s"
| "ep_step en (EDecide session accept) s = Some (decide_step session accept s, [], True)"
| "ep_step en (ECommand session cmd) s = Some (fst (send_security_command session cmd s), [], True)"
| "ep_step en (ESlot i bs) s = Some (s\<lparr>ep_slots := fmupd i bs (ep_slots s)\<rparr>, [], True)"
| "ep_step en (ERegistry op) s = Some (set_shared (fst (sreg_step op (ep_shared s))) s, [], True)"

text \<open>The start of \<^verbatim>\<open>run_adaptive_datagram\<close>; \<open>adm\<close> is the admission controller of the listener.\<close>

definition ep_start :: "('h, 'st) ep_env \<Rightarrow> clock \<Rightarrow> bytes option \<Rightarrow> nat \<Rightarrow> nat \<Rightarrow> admission \<Rightarrow> socket_addr option \<Rightarrow>
    socket_addr list \<Rightarrow> shared \<Rightarrow> ('h, 'st) ep_out" where
  "ep_start en ck drawn max_session max_runtime adm remote candidates sh =
     (let env = en_dg en;
          s = \<lparr>ep_dg = \<lparr>dg_shared = sh,
                 dg_wire = dw_new (dg_transport env) (dg_max_datagram env) (dg_max_sessions env) max_session max_runtime,
                 dg_peers = fmempty\<rparr>,
               ep_deferred = fmempty, ep_deferred_count = 0, ep_authorized = fmempty, ep_admission = adm,
               ep_permits = fmempty, ep_rekeys = fmempty, ep_remote = remote, ep_candidates = candidates,
               ep_slots = fmempty\<rparr>
      in case (remote, en_initial_session en) of
           (Some peer, Some session) \<Rightarrow>
             (case send_client_hello env ck drawn peer (ep_wire s) of
                None \<Rightarrow> None
              | Some (w, out, Inl e) \<Rightarrow> Some (fail_ep en ck (Some session) ''datagram_hello'' e (set_wire w s), out, False)
              | Some (w, out, Inr _) \<Rightarrow>
                  Some (set_peer peer (PClientHello session (ck_now ck)) (set_wire w s), out, True))
         | _ \<Rightarrow> Some (s, [], True))"

inductive ep_reach :: "('h, 'st) ep_env \<Rightarrow> ('h, 'st) ep \<Rightarrow> ep_op list \<Rightarrow> ('h, 'st) ep \<Rightarrow> bool" for en s0 where
  ep_init: "ep_reach en s0 [] s0"
| ep_next: "ep_reach en s0 ops s \<Longrightarrow> ep_step en op s = Some (s', out, True) \<Longrightarrow> ep_reach en s0 (ops @ [op]) s'"

section \<open>Addresses in the wire\<close>

definition waddrs :: "dgram_wire \<Rightarrow> socket_addr set" where
  "waddrs w = fmdom' (dw_engines w) \<union> fmdom' (dw_authorized w) \<union> fmdom' (dw_pending w)"

definition wire_local :: "socket_addr \<Rightarrow> dgram_wire \<Rightarrow> dgram_wire \<Rightarrow> bool" where
  "wire_local p w w' \<longleftrightarrow> dw_kind w' = dw_kind w \<and> waddrs w' \<subseteq> insert p (waddrs w)"

lemma wire_local_refl [simp]: "wire_local p w w"
  by (auto simp: wire_local_def)

lemma wire_local_trans: "wire_local p w w1 \<Longrightarrow> wire_local p w1 w2 \<Longrightarrow> wire_local p w w2"
  by (auto simp: wire_local_def)

lemma wire_local_helpers [simp]:
  "wire_local p w (schedule_update q d w') \<longleftrightarrow> wire_local p w w'"
  "wire_local p w (reconcile_kcp_bytes a b w') \<longleftrightarrow> wire_local p w w'"
  "wire_local p w (remember_response q bs w') \<longleftrightarrow> wire_local p w w'"
  "wire_local p w (w'\<lparr>dw_seen := seen\<rparr>) \<longleftrightarrow> wire_local p w w'"
  by (simp_all add: wire_local_def waddrs_def schedule_update_def reconcile_kcp_bytes_def remember_response_def
      split: option.splits)

lemma wire_local_updates [simp]:
  "wire_local p w (w'\<lparr>dw_engines := fmupd p e (dw_engines w')\<rparr>) \<longleftrightarrow>
    wire_local p w (w'\<lparr>dw_engines := fmdrop p (dw_engines w')\<rparr>)"
  "wire_local p w (w'\<lparr>dw_pending := fmupd p r (dw_pending w')\<rparr>) \<longleftrightarrow>
    wire_local p w (w'\<lparr>dw_pending := fmdrop p (dw_pending w')\<rparr>)"
  by (auto simp: wire_local_def waddrs_def)

lemma wire_local_drops:
  "wire_local p w w' \<Longrightarrow> wire_local p w (w'\<lparr>dw_engines := fmdrop q (dw_engines w')\<rparr>)"
  "wire_local p w w' \<Longrightarrow> wire_local p w (w'\<lparr>dw_authorized := fmdrop q (dw_authorized w')\<rparr>)"
  "wire_local p w w' \<Longrightarrow> wire_local p w (w'\<lparr>dw_pending := fmdrop q (dw_pending w')\<rparr>)"
  by (auto simp: wire_local_def waddrs_def)

lemma wire_local_moved [simp]:
  "wire_local p w (w\<lparr>dw_authorized := fmdrop p (dw_authorized w), dw_engines := fmupd p e (dw_engines w)\<rparr>)"
  by (auto simp: wire_local_def waddrs_def)

lemma wire_local_engine: "wire_engine p w = (w', r) \<Longrightarrow> wire_local p w w'"
  by (auto simp: wire_engine_def Let_def wire_local_drops split: option.splits if_splits sum.splits)

lemma wire_local_queue_kcp:
  assumes "queue_kcp p bs control w = Some (w', r)"
  shows "wire_local p w w'"
proof -
  obtain w1 r1 where e: "wire_engine p w = (w1, r1)" by fastforce
  show ?thesis
    using assms wire_local_engine [OF e]
    by (auto simp: queue_kcp_def e Let_def wire_local_drops split: sum.splits if_splits option.splits prod.splits)
qed

lemma wire_local_kcp_record: "kcp_send_record p bs control now w = Some (w', out, r) \<Longrightarrow> wire_local p w w'"
  by (auto simp: kcp_send_record_def split: option.splits prod.splits sum.splits dest!: wire_local_queue_kcp)

lemma wire_local_sends:
  "dw_send p rec m ok ms w = Some (w', out, r) \<Longrightarrow> wire_local p w w'"
  "send_reliable p rec m ok ms now w = Some (w', out, r) \<Longrightarrow> wire_local p w w'"
  "send_response p rec m ok ms w = Some (w', out, r) \<Longrightarrow> wire_local p w w'"
  by (auto simp: dw_send_def send_reliable_def send_response_def wire_local_drops split: sum.splits if_splits
      dest: wire_local_kcp_record)

lemma wire_local_remove [simp]: "wire_local p w (remove_peer q w)"
  by (auto simp: remove_peer_def wire_local_def waddrs_def Let_def split: option.splits)

lemma wire_local_authorize: "authorize_peer p conv w = (w', r) \<Longrightarrow> wire_local p w w'"
  by (auto simp: authorize_peer_def wire_local_def waddrs_def split: if_splits option.splits)

lemma wire_local_revoke [simp]: "wire_local p w (revoke_authorization q w)"
  by (simp add: revoke_authorization_def wire_local_drops)

lemma wire_local_input:
  "begin_input p bs w = (w', dup, resp) \<Longrightarrow> wire_local q w w'"
  "wire_local q w (end_input ok w)"
  by (auto simp: begin_input_def end_input_def wire_local_def waddrs_def split: if_splits option.splits bool.splits prod.splits)

lemma wire_local_receive: "dw_receive p packet now w = (w', r) \<Longrightarrow> wire_local p w w'"
  by (auto simp: dw_receive_def receive_finish_def Let_def wire_local_drops split: if_splits option.splits sum.splits
      prod.splits)

definition wparts :: "dgram_wire \<Rightarrow> socket_addr set \<times> transport" where
  "wparts w = (waddrs w, dw_kind w)"

lemma wparts_updates:
  "wparts (w\<lparr>dw_deadlines := ds\<rparr>) = wparts w"
  "wparts (w\<lparr>dw_deadlines := ds, dw_scheduled := sc\<rparr>) = wparts w"
  "wparts (schedule_update p d w) = wparts w"
  "fmlookup (dw_engines w) p = Some e \<Longrightarrow>
    wparts (w\<lparr>dw_deadlines := ds, dw_engines := fmupd p e' (dw_engines w)\<rparr>) = wparts w"
  using fmdom'I [of "dw_engines w" p e] by (auto simp: wparts_def waddrs_def schedule_update_def)

lemma wparts_flush_loop: "wparts (fst (flush_loop left now w out)) = wparts w"
proof (induction left now w out rule: flush_loop.induct)
  case (1 left now w out)
  then show ?case
    by (subst flush_loop.simps) (simp add: Let_def wparts_updates split: list.split prod.split option.split)
qed

lemma wire_local_flush: "dw_flush now w = (w', out) \<Longrightarrow> wire_local p w w'"
  using wparts_flush_loop [of MAX_KCP_UPDATES_PER_FLUSH now w "[]"]
  by (auto simp: dw_flush_def wire_local_def wparts_def split: if_splits)

lemma wire_local_retry_fold: "wire_local p w (fst (fold (retry_one now) qs (w, out, ex)))"
proof (induction qs arbitrary: w out ex)
  case (Cons q qs)
  obtain w1 out1 ex1 where r: "retry_one now q (w, out, ex) = (w1, out1, ex1)" by (metis surj_pair)
  then have "wire_local p w w1"
    by (auto simp: retry_one_def wire_local_def waddrs_def fmdom'I split: option.splits if_splits)
  then show ?case using wire_local_trans Cons [of w1 out1 ex1] by (simp add: r)
qed simp

lemma wire_local_retry: "dw_retry now w = (w', out, expired) \<Longrightarrow> wire_local p w w'"
  using wire_local_retry_fold [of p w now "table_keys (dw_pending w)" "[]" "[]"]
  by (auto simp: dw_retry_def split: if_splits)

section \<open>Addresses in the record handler\<close>

lemma wire_local_protected:
  "send_protected cy ck p epoch kind data m es = Some (es', out, r) \<Longrightarrow> wire_local p (es_wire es) (es_wire es')"
  "send_protected_response cy ck p epoch kind data m es = Some (es', out, r) \<Longrightarrow> wire_local p (es_wire es) (es_wire es')"
  by (auto simp: send_protected_def send_protected_response_def split: prod.splits sum.splits option.splits
      dest: wire_local_sends)

lemma wire_push_event: "push_event ev now out es = Some (es', out', r) \<Longrightarrow> es_wire es' = es_wire es"
  by (auto simp: push_event_def split: prod.splits)

lemma wire_local_control:
  assumes "established_control env ck p session r payload es = Some (es', out, res)"
  shows "wire_local p (es_wire es) (es_wire es')"
  using assms
  by (auto simp: established_control_def Let_def split: sum.splits prod.splits option.splits if_splits
      dest!: wire_local_protected wire_push_event)

lemma wire_local_established:
  assumes "handle_established env ck p session r es = Some (es', out, res)"
  shows "wire_local p (es_wire es) (es_wire es')"
  using assms
  by (auto simp: handle_established_def Let_def split: sum.splits prod.splits if_splits protected_kind.splits
      dest!: wire_local_control wire_push_event)

definition dg_local :: "socket_addr \<Rightarrow> ('h, 'st) dg \<Rightarrow> ('h, 'st) dg \<Rightarrow> bool" where
  "dg_local p d d' \<longleftrightarrow> wire_local p (dg_wire d) (dg_wire d') \<and> fmdom' (dg_peers d') \<subseteq> insert p (fmdom' (dg_peers d))"

lemma dg_local_put [simp]:
  "dg_local p d d' \<Longrightarrow> dg_local p d (put_peer p x d')"
  "dg_local p d d' \<Longrightarrow> dg_local p d (put_back p y d')"
  by (auto simp: dg_local_def put_peer_def put_back_def split: option.splits)

lemma dg_local_refl [simp]: "dg_local p d d"
  by (auto simp: dg_local_def)

lemma dg_local_updates:
  "dg_local p d d' \<Longrightarrow> dg_local p d (d'\<lparr>dg_shared := sh\<rparr>)"
  "dg_local p d d' \<Longrightarrow> dg_local p d (d'\<lparr>dg_peers := fmdrop q (dg_peers d')\<rparr>)"
  "wire_local p (dg_wire d) w \<Longrightarrow> dg_local p d (d\<lparr>dg_wire := w\<rparr>)"
  "wire_local p (dg_wire d) w \<Longrightarrow> dg_local p d (d\<lparr>dg_wire := w, dg_shared := sh\<rparr>)"
  "wire_local p (dg_wire d) w \<Longrightarrow> dg_local p d (d\<lparr>dg_shared := sh, dg_wire := w\<rparr>)"
  by (auto simp: dg_local_def)

lemma dg_local_sent:
  assumes "with_sent sent d k = Some (d', out, r)"
    and "\<And>w out r. sent = Some (w, out, r) \<Longrightarrow> wire_local p (dg_wire d) w"
    and "\<And>d1. dg_local p d d1 \<Longrightarrow> dg_local p d (fst (k d1))"
  shows "dg_local p d d'"
proof -
  from assms(1) obtain w out1 r1 where sent: "sent = Some (w, out1, r1)"
    by (cases sent) (auto simp: with_sent_def)
  then have w: "dg_local p d (d\<lparr>dg_wire := w\<rparr>)" using assms(2) by (simp add: dg_local_updates)
  show ?thesis
  proof (cases r1)
    case (Inl e)
    then show ?thesis using assms(1) w by (auto simp: with_sent_def sent)
  next
    case (Inr u)
    then show ?thesis using assms(1) assms(3) [OF w] by (auto simp: with_sent_def sent split: prod.splits)
  qed
qed

lemma dg_local_handshake:
  "challenge_peer env ck p previous d = Some (d', out, res) \<Longrightarrow> dg_local p d d'"
  "server_hello env ck private public mode p d = Some (d', out, res) \<Longrightarrow> dg_local p d d'"
  "client_cookie ck p session started payload d = Some (d', out, res) \<Longrightarrow> dg_local p d d'"
  "client_server_hello env ck join p session started payload d = Some (d', out, res) \<Longrightarrow> dg_local p d d'"
  "server_first env ck p h started payload d = Some (d', out, res) \<Longrightarrow> dg_local p d d'"
  "client_response env ck p session i join mode started payload d = Some (d', out, res) \<Longrightarrow> dg_local p d d'"
  unfolding challenge_peer_def server_hello_def client_cookie_def client_server_hello_def server_first_def client_response_def
  by (auto split: if_splits sum.splits prod.splits option.splits simp: dg_local_updates
      elim!: dg_local_sent dest: wire_local_sends)

lemma dg_local_auth:
  "server_finish env ck mode p h payload d = Some (d', out, res) \<Longrightarrow> dg_local p d d'"
  "client_auth env ck p session tr mode r d = Some (d', out, res) \<Longrightarrow> dg_local p d d'"
  unfolding server_finish_def client_auth_def
  by (auto split: if_splits sum.splits prod.splits option.splits simp: dg_local_updates dest!: wire_local_protected)

lemma dg_local_established:
  "process_established env ck p session tr c commands activity deadline r d = Some (d', out, res) \<Longrightarrow> dg_local p d d'"
  unfolding process_established_def
  by (auto simp: Let_def dg_local_updates split: sum.splits option.splits prod.splits dest!: wire_local_established)

lemma dg_local_common:
  "process_common env ck p r previous d = Some (d', out, res) \<Longrightarrow> dg_local p d d'"
  unfolding process_common_def
  by (auto split: option.splits peer.splits if_splits endpoint_security.splits simp: dg_local_updates
      dest: dg_local_handshake dg_local_auth dg_local_established)

lemma dg_local_weaken: "dg_local p (d\<lparr>dg_peers := fmdrop p (dg_peers d)\<rparr>) d' \<Longrightarrow> dg_local p d d'"
  by (auto simp: dg_local_def)

lemma dg_local_process:
  assumes "process env ck p r d = Some (d', out, res)"
  shows "dg_local p d d'"
proof (rule dg_local_weaken)
  show "dg_local p (d\<lparr>dg_peers := fmdrop p (dg_peers d)\<rparr>) d'"
    using assms unfolding process_def Let_def
    by (auto split: endpoint_security.splits if_splits option.splits peer.splits simp: dg_local_updates
        dest: dg_local_handshake dg_local_common)
qed

section \<open>Addresses and deferred messages of the endpoint\<close>

definition addrs :: "('h, 'st) ep \<Rightarrow> socket_addr set" where
  "addrs s = fmdom' (ep_peers s) \<union> fmdom' (ep_deferred s) \<union> fmdom' (ep_authorized s) \<union> fmdom' (ep_permits s) \<union>
     fmdom' (ep_rekeys s) \<union> waddrs (ep_wire s)"

definition deferred_ok :: "nat \<Rightarrow> ('h, 'st) ep \<Rightarrow> bool" where
  "deferred_ok n s \<longleftrightarrow> ep_deferred_count s = table_sum length (ep_deferred s) \<and> ep_deferred_count s \<le> n"

definition ep_tracks :: "nat \<Rightarrow> socket_addr \<Rightarrow> ('h, 'st) ep \<Rightarrow> ('h, 'st) ep \<Rightarrow> bool" where
  "ep_tracks n p s s' \<longleftrightarrow> addrs s' \<subseteq> insert p (addrs s) \<and> dw_kind (ep_wire s') = dw_kind (ep_wire s) \<and>
     ep_remote s' = ep_remote s \<and> (deferred_ok n s \<longrightarrow> deferred_ok n s')"

lemma tracks_refl [simp]: "ep_tracks n p s s"
  by (auto simp: ep_tracks_def)

lemma tracks_trans [trans]: "ep_tracks n p s s1 \<Longrightarrow> ep_tracks n p s1 s2 \<Longrightarrow> ep_tracks n p s s2"
  unfolding ep_tracks_def by (metis insert_absorb2 insert_mono order_trans)

lemma tracks_fields:
  "wire_local p (ep_wire s) w \<Longrightarrow> ep_tracks n p s (set_wire w s)"
  "ep_tracks n p s (set_shared sh s)"
  "dg_local p (ep_dg s) d \<Longrightarrow> ep_tracks n p s (s\<lparr>ep_dg := d\<rparr>)"
  "ep_tracks n p s (set_peer p x s)"
  "ep_tracks n p s (drop_peer q s)"
  "ep_tracks n p s (drop_permit q s)"
  "ep_tracks n p s (drop_rekey q s)"
  "ep_tracks n p s (ensure_rekey en ck p s)"
  "ep_tracks n p s (s\<lparr>ep_authorized := fmupd p t (ep_authorized s)\<rparr>)"
  "ep_tracks n p s (s\<lparr>ep_authorized := fmdrop q (ep_authorized s)\<rparr>)"
  "ep_tracks n p s (s\<lparr>ep_admission := a\<rparr>)"
  "ep_tracks n p s (s\<lparr>ep_slots := sl\<rparr>)"
  "ep_tracks n p s (s\<lparr>ep_rekeys := fmfilter P (ep_rekeys s)\<rparr>)"
  "ep_tracks n p s (restart_rekey t p s)"
  "ep_tracks n p s (count_encrypted p c kind bs s)"
  by (auto simp: ep_tracks_def addrs_def deferred_ok_def wire_local_def dg_local_def set_wire_def set_shared_def set_peers_def
      set_peer_def drop_peer_def drop_permit_def drop_rekey_def ensure_rekey_def restart_rekey_def count_encrypted_def
      fmdom'_filter split: option.splits)

lemma tracks_drop_deferred: "ep_tracks n p s (drop_deferred q s)"
proof (cases "fmlookup (ep_deferred s) q")
  case (Some queued)
  then show ?thesis
    using table_sum_remove [OF Some, of length] by (auto simp: ep_tracks_def addrs_def deferred_ok_def drop_deferred_def)
qed (simp add: drop_deferred_def)

lemma tracks_end:
  "ep_tracks n p s (fail_ep en ck session phase e s)"
  "ep_tracks n p s (end_session en ck session' phase e s)"
  by (simp_all add: fail_ep_def end_session_def tracks_fields)

lemma tracks_remove_state: "ep_tracks n p s (remove_peer_state q s)"
  unfolding remove_peer_state_def Let_def
  by (rule tracks_trans [OF tracks_fields(5) tracks_fields(1)]) simp

lemmas tracks_more = tracks_fields [THEN tracks_trans [rotated]] tracks_drop_deferred [THEN tracks_trans [rotated]]
  tracks_end [THEN tracks_trans [rotated]] tracks_remove_state [THEN tracks_trans [rotated]]

lemma tracks_acquire: "acquire_permit ck p s = (s', ok) \<Longrightarrow> ep_tracks n p s s'"
  by (auto simp: acquire_permit_def ep_tracks_def addrs_def deferred_ok_def split: prod.splits sum.splits)

lemma tracks_hello: "ep_tracks n p s (preflight_hello env ck p conv s)"
proof -
  obtain s1 ok where a: "(if fmlookup (ep_permits s) p \<noteq> None then (s, True) else acquire_permit ck p s) = (s1, ok)"
    by fastforce
  then have t: "ep_tracks n p s s1" by (auto split: if_splits dest: tracks_acquire)
  obtain w r where w: "authorize_peer p conv (ep_wire s1) = (w, r)" by fastforce
  have "ep_tracks n p s (set_wire w s1)"
    by (rule tracks_trans [OF t tracks_fields(1) [OF wire_local_authorize [OF w]]])
  then show ?thesis
    unfolding preflight_hello_def a
    using t w tracks_more(9) [of n p s "set_wire w s1"] tracks_more(6) [of n p s "set_wire w s1"]
    by (auto simp: set_wire_def split: sum.splits)
qed

lemma tracks_challenge:
  "preflight_challenge ck p conv cookie s = Some (s', out, r) \<Longrightarrow> ep_tracks n p s s'"
  unfolding preflight_challenge_def Let_def
  by (auto split: if_splits prod.splits sum.splits option.splits
      intro!: tracks_fields(1) dest!: wire_local_authorize wire_local_sends intro: wire_local_trans)

lemma tracks_preflight: "handle_preflight env ck p packet s = Some (s', out, r) \<Longrightarrow> ep_tracks n p s s'"
  unfolding handle_preflight_def
  by (auto split: if_splits option.splits preflight.splits endpoint_security.splits simp: tracks_hello dest: tracks_challenge)

lemma tracks_failed: "process_failed en ck p prior joining e s = (s', go) \<Longrightarrow> ep_tracks n q s s'"
  unfolding process_failed_def Let_def
  by (auto split: if_splits option.splits simp: tracks_more tracks_end)

lemma tracks_process_record:
  assumes "process_record en ck p r s = Some (s', out, go)"
  shows "ep_tracks n p s s'"
proof -
  from assms obtain d out1 res where pr: "process (en_dg en) ck p r (ep_dg s) = Some (d, out1, res)"
    by (auto simp: process_record_def Let_def split: option.splits)
  have d: "ep_tracks n p s (s\<lparr>ep_dg := d\<rparr>)" by (rule tracks_fields(3) [OF dg_local_process [OF pr]])
  show ?thesis
  proof (cases res)
    case (Inl e)
    then show ?thesis
      using assms pr tracks_trans [OF d tracks_failed]
      by (auto simp: process_record_def Let_def tracks_more wire_local_input split: prod.splits bool.splits)
  next
    case (Inr u)
    then show ?thesis
      using assms pr d by (auto simp: process_record_def Let_def tracks_more wire_local_input split: if_splits)
  qed
qed

lemma tracks_inbound_record:
  assumes "inbound_record en ck p bs s = Some (s', out, go)"
  shows "ep_tracks n p s s'"
proof (cases "decode_record bs (record_limit (en_dg en))")
  case (Inr r)
  obtain s1 ok where a: "admitted (en_dg en) ck p r s = (s1, ok)" by fastforce
  then have t: "ep_tracks n p s s1" by (auto simp: admitted_def split: if_splits dest: tracks_acquire)
  obtain w dup resp where b: "begin_input p bs (ep_wire s1) = (w, dup, resp)" by (metis surj_pair)
  have "ep_tracks n p s (set_wire w s1)"
    by (rule tracks_trans [OF t tracks_fields(1) [OF wire_local_input(1) [OF b]]])
  then show ?thesis
    using assms t tracks_trans [OF _ tracks_process_record]
    by (auto simp: inbound_record_def Inr a b split: if_splits bool.splits)
qed (use assms in \<open>simp add: inbound_record_def\<close>)

lemma ep_thenD:
  assumes "ep_then m f = Some (s', out, go)"
  obtains s1 out1 go1 where "m = Some (s1, out1, go1)" and "if go1 then \<exists>out2. f s1 = Some (s', out2, go) else s' = s1 \<and> \<not> go"
  using assms by (auto simp: ep_then_def split: option.splits if_splits prod.splits)

lemma tracks_inbound_records: "inbound_records en ck p bss s = Some (s', out, go) \<Longrightarrow> ep_tracks n p s s'"
proof (induction bss arbitrary: s out go)
  case (Cons bs bss)
  from Cons.prems show ?case
    by (auto elim!: ep_thenD split: if_splits intro: tracks_inbound_record tracks_trans [OF tracks_inbound_record Cons.IH])
qed simp

lemma tracks_inbound:
  assumes "inbound en ck p packet s = Some (s', out, go)"
  shows "ep_tracks n p s s'"
proof -
  from assms obtain s1 out1 r where h: "handle_preflight (en_dg en) ck p packet s = Some (s1, out1, r)"
    by (auto simp: inbound_def split: option.splits)
  have t: "ep_tracks n p s s1" by (rule tracks_preflight [OF h])
  obtain w res where w: "dw_receive p packet (ck_ms ck) (ep_wire s1) = (w, res)" by fastforce
  have u: "ep_tracks n p s (set_wire w s1)"
    by (rule tracks_trans [OF t tracks_fields(1) [OF wire_local_receive [OF w]]])
  have v: "ep_tracks n p s ((set_wire w s1)\<lparr>ep_authorized := fmdrop p (ep_authorized (set_wire w s1))\<rparr>)"
    by (rule tracks_more(10) [OF u])
  show ?thesis
    using assms t u h w tracks_trans [OF v tracks_inbound_records]
    by (auto simp: inbound_def Let_def tracks_more split: sum.splits bool.splits if_splits elim!: ep_thenD
        intro: tracks_trans [OF _ tracks_inbound_records])
qed

subsection \<open>Sending\<close>

lemma deferred_ok_mono: "deferred_ok m s \<Longrightarrow> m \<le> n \<Longrightarrow> deferred_ok n s"
  by (simp add: deferred_ok_def)

lemma deferred_sum_of: "table_sum length (ep_deferred s) = length (deferred_of p s) + table_sum length (fmdrop p (ep_deferred s))"
  by (cases "fmlookup (ep_deferred s) p") (simp_all add: deferred_of_def fmdrop_absent table_sum_remove)

lemma deferred_ok_defer:
  "deferred_ok n s \<Longrightarrow> deferred_ok (Suc n) (defer_back p ob s)"
  "deferred_ok n s \<Longrightarrow> deferred_ok (Suc n) (defer_front p ob s)"
  using deferred_sum_of [of s p] by (simp_all add: deferred_ok_def defer_back_def defer_front_def)

lemma tracks_defer:
  "ep_deferred_count s < n \<Longrightarrow> ep_tracks n p s (defer_back p ob s)"
  "ep_deferred_count s < n \<Longrightarrow> ep_tracks n p s (defer_front p ob s)"
  using deferred_sum_of [of s p]
  by (auto simp: ep_tracks_def addrs_def deferred_ok_def defer_back_def defer_front_def)

lemma count_simps [simp]:
  "ep_deferred_count (set_wire w s) = ep_deferred_count s"
  "ep_deferred_count (set_shared sh s) = ep_deferred_count s"
  "ep_deferred_count (set_peer p x s) = ep_deferred_count s"
  "ep_wire (set_peer p x s) = ep_wire s"
  "ep_wire (set_wire w s) = w"
  by (simp_all add: set_wire_def set_shared_def set_peer_def set_peers_def)

lemma tracks_resolve: "resolve_latest ob s = (s', r) \<Longrightarrow> ep_tracks n p s s'"
  by (auto simp: resolve_latest_def tracks_fields split: outbound.splits)

lemma resolve_simps [simp]:
  "resolve_latest ob s = (s', r) \<Longrightarrow> ep_deferred_count s' = ep_deferred_count s"
  by (auto simp: resolve_latest_def split: outbound.splits)

lemma tracks_send_now:
  assumes "send_now en ck p session tr c commands activity deadline kind bs s = Some (s', out, go)"
    and "ep_deferred_count s < n"
  shows "ep_tracks n p s s'"
proof (cases "outbound_record (en_dg en) c kind bs tr")
  case (Pair tr1 r1)
  show ?thesis
  proof (cases r1)
    case (Inr r)
    from assms(1) obtain w out1 res where w: "dw_send p r (dg_max_datagram (en_dg en)) (ck_ok ck) (ck_ms ck) (ep_wire s) =
        Some (w, out1, res)"
      by (auto simp: send_now_def Pair Inr split: option.splits)
    have t: "ep_tracks n p s (set_wire w s)" by (rule tracks_fields(1) [OF wire_local_sends(1) [OF w]])
    have u: "ep_tracks n p s (defer_back p (Ready kind bs) (set_wire w s))"
      by (rule tracks_trans [OF t tracks_defer(1)]) (simp add: assms(2))
    show ?thesis
      using assms(1) t u by (auto simp: send_now_def Pair Inr w tracks_more split: sum.splits if_splits)
  qed (use assms Pair in \<open>auto simp: send_now_def tracks_more\<close>)
qed

lemma tracks_outbound:
  assumes "outbound_step en ck p ob s = Some (s', out, go)"
  shows "ep_tracks (en_write_capacity en) p s s'"
proof -
  obtain s1 r where r: "resolve_latest ob s = (s1, r)" by fastforce
  have t: "ep_tracks (en_write_capacity en) p s s1" by (rule tracks_resolve [OF r])
  have n: "ep_deferred_count s1 = ep_deferred_count s" by (rule resolve_simps [OF r])
  show ?thesis
    using assms t n tracks_trans [OF t tracks_send_now]
    by (auto simp: outbound_step_def r tracks_defer split: if_splits option.splits peer.splits)
qed

lemma tracks_cleanup: "ep_tracks n p s (cleanup_peer p session s)"
  by (auto simp: cleanup_peer_def Let_def tracks_more split: option.splits)

lemma tracks_cleanup_step: "cleanup_step p session s = Some (s', out, go) \<Longrightarrow> ep_tracks n p s s'"
  by (auto simp: cleanup_step_def tracks_more tracks_cleanup)

subsection \<open>The timer\<close>

lemma tracks_drive_auth:
  assumes "drive_auth en ck p session tr accepted commands mode s = Some (s', out, go)"
  shows "ep_tracks n p s s'"
proof -
  from assms obtain es out1 r where e: "send_protected (dg_cipher (en_dg en)) ck p INITIAL_EPOCH AuthDecision
      [of_bool accepted, mode_tag mode] 64 \<lparr>es_shared = ep_shared s, es_wire = ep_wire s, es_transport = tr,
        es_controller = sc_new Server mode INITIAL_EPOCH\<rparr> = Some (es, out1, r)"
    by (auto simp: drive_auth_def split: option.splits)
  have t: "ep_tracks n p s (set_wire (es_wire es) s)"
    using wire_local_protected(1) [OF e] by (simp add: tracks_fields)
  show ?thesis
    using assms t by (auto simp: drive_auth_def e Let_def tracks_more split: sum.splits prod.splits)
qed

lemma tracks_commands:
  "take_command t p c commands s = (s', c', commands', ctl) \<Longrightarrow> ep_tracks n p s s'"
  "automatic_rekey t p c s = (s', c', ctl) \<Longrightarrow> ep_tracks n p s s'"
  by (auto simp: take_command_def automatic_rekey_def tracks_fields split: option.splits list.splits if_splits
      security_command.splits sum.splits)

lemma tracks_drive_established:
  assumes "drive_established en ck p session tr c commands activity deadline s = Some (s', out, go)"
  shows "ep_tracks n p s s'"
proof -
  obtain s1 c1 commands1 ctl1 where a: "take_command (ck_now ck) p c commands s = (s1, c1, commands1, ctl1)" by (metis surj_pair)
  obtain s2 c2 ctl2 where b: "(if ctl1 = None \<and> commands \<noteq> None then automatic_rekey (ck_now ck) p c1 s1 else (s1, c1, ctl1)) =
      (s2, c2, ctl2)" by (metis surj_pair)
  have t: "ep_tracks n p s s2"
    using tracks_commands(1) [OF a] b tracks_trans [OF tracks_commands(1) [OF a] tracks_commands(2)] by (auto split: if_splits)
  note d = assms [unfolded drive_established_def a prod.case b]
  show ?thesis
  proof (cases ctl2)
    case None
    then show ?thesis using d t by (auto simp: tracks_more)
  next
    case (Some ctl)
    with d obtain es out1 r where e: "send_protected (dg_cipher (en_dg en)) ck p (sc_epoch c2) ControlMsg (encode_control ctl) 64
        \<lparr>es_shared = ep_shared s2, es_wire = ep_wire s2, es_transport = tr, es_controller = c2\<rparr> = Some (es, out1, r)"
      by (auto split: option.splits)
    have "ep_tracks n p s (set_wire (es_wire es) s2)"
      using tracks_trans [OF t tracks_fields(1)] wire_local_protected(1) [OF e] by simp
    then show ?thesis using d Some by (auto simp: e tracks_more split: sum.splits)
  qed
qed

lemma tracks_drive: "drive_peer en ck p s = Some (s', out, go) \<Longrightarrow> ep_tracks n p s s'"
  by (auto simp: drive_peer_def Let_def tracks_more tracks_remove_state split: option.splits peer.splits if_splits
      dest: tracks_drive_auth tracks_drive_established)

lemma tracks_trim: "ep_tracks n p s (trim_deferred q s)"
proof (cases "fmlookup (ep_deferred s) q = Some []")
  case True
  then show ?thesis
    using table_sum_remove [OF True, of length] by (auto simp: ep_tracks_def addrs_def deferred_ok_def trim_deferred_def)
qed (simp add: trim_deferred_def)

lemma tracks_flush_message:
  assumes "flush_message en ck p session tr c commands activity deadline kind bs s = Some (s', out, go)"
    and "ep_deferred_count s < n"
  shows "ep_tracks n p s s'"
proof (cases "outbound_record (en_dg en) c kind bs tr")
  case (Pair tr1 r1)
  have front: "ep_tracks n p s0 s1 \<Longrightarrow> ep_deferred_count s1 < n \<Longrightarrow> ep_tracks n p s0 (defer_front p (Ready kind bs) s1)" for s0 s1 :: "('h, 'st) ep"
    by (rule tracks_trans [OF _ tracks_defer(2)])
  show ?thesis
  proof (cases r1)
    case (Inr r)
    from assms(1) obtain w out1 res where w: "dw_send p r (dg_max_datagram (en_dg en)) (ck_ok ck) (ck_ms ck) (ep_wire s) =
        Some (w, out1, res)"
      by (auto simp: flush_message_def Pair Inr split: option.splits)
    have t: "ep_tracks n p s (set_wire w s)" by (rule tracks_fields(1) [OF wire_local_sends(1) [OF w]])
    show ?thesis
      using assms t
      by (auto simp: flush_message_def Pair Inr w tracks_more front flush_failed_def
          tracks_trim [THEN tracks_trans [rotated]] split: sum.splits if_splits)
  next
    case (Inl e)
    then show ?thesis
      using assms by (auto simp: flush_message_def Pair tracks_more tracks_fields front flush_failed_def split: if_splits)
  qed
qed

lemma tracks_flush_peer:
  assumes "flush_peer en ck p s = Some (s', out, go)"
  shows "ep_tracks n p s s'"
proof (cases "deferred_of p s")
  case Nil
  then show ?thesis using assms by (auto simp: flush_peer_def split: option.splits peer.splits if_splits)
next
  case (Cons ob rest)
  let ?s1 = "s\<lparr>ep_deferred := fmupd p rest (ep_deferred s), ep_deferred_count := ep_deferred_count s - 1\<rparr>"
  obtain s2 r where r: "resolve_latest ob ?s1 = (s2, r)" by fastforce
  have sum: "table_sum length (ep_deferred s) = Suc (table_sum length (ep_deferred ?s1))"
    using deferred_sum_of [of s p] Cons by simp
  have t: "ep_tracks m p s ?s1" for m
    using sum Cons by (auto simp: ep_tracks_def addrs_def deferred_ok_def deferred_of_def split: option.splits)
  have u: "ep_tracks m p s s2" for m by (rule tracks_trans [OF t tracks_resolve [OF r]])
  have all: "ep_tracks m p s s'" if "ep_deferred_count s2 < m" for m
    using assms u [of m] tracks_trans [OF u tracks_flush_message] that
    by (auto simp: flush_peer_def Cons r [simplified] Let_def tracks_trim [THEN tracks_trans [rotated]]
        split: option.splits peer.splits if_splits)
  show ?thesis
  proof (cases "deferred_ok n s")
    case True
    then show ?thesis using all [of n] sum resolve_simps [OF r] by (simp add: deferred_ok_def)
  next
    case False
    then show ?thesis using all [of "Suc (ep_deferred_count s2)"] by (simp add: ep_tracks_def)
  qed
qed

end
