(* ===== verification/Datagram_Demo.thy ===== *)
theory Datagram_Demo
  imports Datagram_Runs Datagram_Safety
begin

text \<open>
  A concrete datagram listener on which the theorems about endpoints are evaluated: a cipher that appends a tag, a
  handshake whose messages show the key, and a hash that keeps its input.
\<close>

definition demo_cipher :: "unit cipher" where
  "demo_cipher = \<lparr>cy_write = (\<lambda>_ _ plain. Some (plain @ replicate 16 0)),
     cy_read = (\<lambda>_ _ c. if 16 \<le> length c then Some (take (length c - 16) c) else None),
     cy_rekey_out = id, cy_rekey_in = id\<rparr>"

definition demo_noise :: "(bytes, unit) noise" where
  "demo_noise = \<lparr>ny_initiator = (\<lambda>_. Some []), ny_responder = (\<lambda>_. Some []), ny_write = (\<lambda>h m. (h, Some m)),
     ny_read = (\<lambda>_ m. (m, Some [])), ny_remote = Some, ny_into = (\<lambda>_. Some ())\<rparr>"

definition demo_key :: bytes where "demo_key = replicate 32 7"

definition demo_dg_env :: "transport \<Rightarrow> endpoint_security \<Rightarrow> (bytes, unit) dg_env" where
  "demo_dg_env kind sec = \<lparr>dg_endpoint = 1, dg_transport = kind, dg_security = sec,
     dg_client = Some (demo_key, \<lambda>key. key = demo_key), dg_max_body = 256, dg_max_datagram = 1200, dg_max_sessions = 4,
     dg_handshake_timeout = secs 5, dg_hmac = padded_tag, dg_cipher = demo_cipher, dg_noise = demo_noise\<rparr>"

definition demo_ep_env :: "transport \<Rightarrow> (bytes, unit) ep_env" where
  "demo_ep_env kind = \<lparr>en_dg = demo_dg_env kind (AdaptiveServer demo_key demo_key Encrypted), en_initial_session = None,
     en_connect_deadline = None, en_write_capacity = 8, en_rekey_after = None, en_rekey_after_bytes = None,
     en_idle_timeout = secs 60, en_detail = (\<lambda>_ _. [])\<rparr>"

lemma demo_dg_env_sel [simp]:
  "dg_endpoint (demo_dg_env kind sec) = 1" "dg_transport (demo_dg_env kind sec) = kind" "dg_security (demo_dg_env kind sec) = sec"
  "dg_client (demo_dg_env kind sec) = Some (demo_key, \<lambda>key. key = demo_key)" "dg_max_body (demo_dg_env kind sec) = 256"
  "dg_max_datagram (demo_dg_env kind sec) = 1200" "dg_max_sessions (demo_dg_env kind sec) = 4"
  "dg_handshake_timeout (demo_dg_env kind sec) = secs 5" "dg_hmac (demo_dg_env kind sec) = padded_tag"
  "dg_cipher (demo_dg_env kind sec) = demo_cipher" "dg_noise (demo_dg_env kind sec) = demo_noise"
  by (simp_all add: demo_dg_env_def)

lemma demo_ep_env_sel [simp]:
  "en_dg (demo_ep_env kind) = demo_dg_env kind (AdaptiveServer demo_key demo_key Encrypted)"
  "en_write_capacity (demo_ep_env kind) = 8"
  by (simp_all add: demo_ep_env_def)

definition demo_clock :: clock where "demo_clock = \<lparr>ck_now = 0, ck_ms = 0, ck_secs = 60, ck_ok = True\<rparr>"

definition demo_ep :: "transport \<Rightarrow> (bytes, unit) ep" where
  "demo_ep kind = \<lparr>ep_dg = \<lparr>dg_shared = demo_start, dg_wire = dw_new kind 1200 4 4096 8192, dg_peers = fmempty\<rparr>,
     ep_deferred = fmempty, ep_deferred_count = 0, ep_authorized = fmempty, ep_admission = adm_new 2 1 4 16 64,
     ep_permits = fmempty, ep_rekeys = fmempty, ep_remote = None, ep_candidates = [], ep_slots = fmempty\<rparr>"

lemma demo_ep_start:
  "ep_start (demo_ep_env kind) demo_clock None 4096 8192 (adm_new 2 1 4 16 64) None [] demo_start = Some (demo_ep kind, [], True)"
  by (simp add: ep_start_def demo_ep_env_def demo_dg_env_def demo_ep_def)

section \<open>A hello with a cookie\<close>

definition demo_hello_rec :: sec_record where
  "demo_hello_rec = \<lparr>rec_kind = ClientHello, rec_epoch = 0, rec_payload = cookie_issue padded_tag 60 demo_addr\<rparr>"

definition encoded :: "sec_record \<Rightarrow> bytes" where
  "encoded r = (case encode_record r 1200 of Inr bs \<Rightarrow> bs | Inl _ \<Rightarrow> [])"

lemma demo_cookie_length: "length (cookie_issue padded_tag t p) = 40"
  using padded_tag_sound by (simp add: cookie_issue_def cookie_sign_def Let_def sound_hmac_def)

lemma decode_encoded: "length (rec_payload r) \<le> 1200 \<Longrightarrow> decode_record (encoded r) 1200 = Inr r"
  by (rule security_record.dec_enc) (simp_all add: encoded_def encode_record_def validate_payload_len_def u32_max_def)

lemma demo_hello_cookie: "cookie_ok (demo_dg_env kind sec) demo_clock demo_addr (rec_payload demo_hello_rec)"
  using cookie_validate_issued [OF padded_tag_sound, of 60 60 demo_addr demo_addr] demo_cookie_length
  by (simp add: cookie_ok_def demo_dg_env_def demo_clock_def demo_hello_rec_def COOKIE_LEN_def same_endpoint_def)

lemma demo_admitted:
  "\<exists>a key. try_acquire_at (sock_ip demo_addr) 0 (adm_new 2 1 4 16 64) = (a, Inr key)"
  using spent_acquire [of "adm_new 2 1 4 16 64" "[]" "sock_ip demo_addr" 0]
  by (auto simp: adm_new_def spent_def)

text \<open>The listener answers with its own hello and opens the handshake.\<close>

lemma demo_hello_step:
  "\<exists>s out. ep_step (demo_ep_env Udp) (EInbound demo_clock demo_addr (encoded demo_hello_rec)) (demo_ep Udp) = Some (s, out, True) \<and>
    demo_addr |\<in>| fmdom (ep_peers s)"
proof -
  have dec: "decode_record (encoded demo_hello_rec) 1200 = Inr demo_hello_rec"
    by (rule decode_encoded) (simp add: demo_hello_rec_def demo_cookie_length)
  obtain a key where adm: "try_acquire_at (sock_ip demo_addr) 0 (adm_new 2 1 4 16 64) = (a, Inr key)"
    using demo_admitted by blast
  obtain s1 where s1: "admitted (en_dg (demo_ep_env Udp)) demo_clock demo_addr demo_hello_rec (demo_ep Udp) = (s1, True)"
      "ep_dg s1 = ep_dg (demo_ep Udp)" "ep_remote s1 = None"
    using demo_hello_cookie adm
    by (auto simp: admitted_def acquire_permit_def demo_ep_env_def demo_ep_def demo_clock_def demo_hello_rec_def demo_dg_env_def)
  obtain w where w: "begin_input demo_addr (encoded demo_hello_rec) (dw_new Udp 1200 4 4096 8192) = (w, False, None)"
      "dw_kind w = Udp" "dw_pending w = fmempty" "dw_max_peers w = 4"
    by (simp add: begin_input_def dw_new_def)
  let ?env = "demo_dg_env Udp (AdaptiveServer demo_key demo_key Encrypted)"
  let ?d = "\<lparr>dg_shared = demo_start, dg_wire = w, dg_peers = fmempty\<rparr>"
  have "process ?env demo_clock demo_addr demo_hello_rec ?d =
      server_hello ?env demo_clock demo_key demo_key Encrypted demo_addr ?d"
    using demo_hello_cookie [of Udp "AdaptiveServer demo_key demo_key Encrypted"]
    by (simp add: process_def Let_def demo_hello_rec_def)
  also obtain w1 out where "\<dots> = Some (put_peer demo_addr (PServerFirst \<lparr>rh_state = []\<rparr> 0) (?d\<lparr>dg_wire := w1\<rparr>), out, Inr ())"
    using w(2-4)
    by (simp add: server_hello_def with_sent_def send_reliable_def encode_record_def validate_payload_len_def u32_max_def
        demo_key_def demo_clock_def rh_new_def demo_noise_def)
  finally have pr: "process ?env demo_clock demo_addr demo_hello_rec ?d =
      Some (put_peer demo_addr (PServerFirst \<lparr>rh_state = []\<rparr> 0) (?d\<lparr>dg_wire := w1\<rparr>), out, Inr ())" .
  have dg: "ep_dg (demo_ep Udp) = \<lparr>dg_shared = demo_start, dg_wire = dw_new Udp 1200 4 4096 8192, dg_peers = fmempty\<rparr>"
    by (simp add: demo_ep_def)
  have run: "inbound (demo_ep_env Udp) demo_clock demo_addr bs (demo_ep Udp) =
      inbound_record (demo_ep_env Udp) demo_clock demo_addr bs (demo_ep Udp)" for bs
    by (auto simp: inbound_def handle_preflight_def dw_receive_def has_peer_def demo_ep_def dw_new_def set_wire_def ep_then_def
        split: option.split)
  have "process_record (demo_ep_env Udp) demo_clock demo_addr demo_hello_rec (s1\<lparr>ep_dg := ?d\<rparr>) =
      Some (set_wire (end_input True w1) (s1\<lparr>ep_dg := put_peer demo_addr (PServerFirst \<lparr>rh_state = []\<rparr> 0) (?d\<lparr>dg_wire := w1\<rparr>)\<rparr>),
        out, True)"
    using pr by (simp add: process_record_def put_peer_def)
  moreover have "inbound_record (demo_ep_env Udp) demo_clock demo_addr (encoded demo_hello_rec) (demo_ep Udp) =
      process_record (demo_ep_env Udp) demo_clock demo_addr demo_hello_rec (s1\<lparr>ep_dg := ?d\<rparr>)"
    using s1 dec w(1) by (simp add: inbound_record_def record_limit_def dg set_wire_def) (simp add: demo_hello_rec_def)
  ultimately show ?thesis using run by (simp add: set_wire_def put_peer_def)
qed

section \<open>Established sessions\<close>

lemma demo_open_active: "session_active (encode_handle 0 1) demo_open"
  using decode_encode_handle [of 0 1] by (simp add: session_active_def ht_get_def demo_open_def slot_limit_def)

text \<open>A KCP session with one deferred message and room in its window.\<close>

definition demo_deferred :: "(bytes, unit) ep" where
  "demo_deferred = (demo_ep Kcp)\<lparr>
     ep_dg := \<lparr>dg_shared = demo_open, dg_wire = demo_wire\<lparr>dw_authorized := fmupd demo_peer 7 fmempty\<rparr>,
       dg_peers = fmupd demo_peer (PEstablished (encode_handle 0 1) (dt_new ()) (sc_new Server Plaintext 0) None 0 None) fmempty\<rparr>,
     ep_deferred := fmupd demo_peer [Ready OutData [1]] fmempty, ep_deferred_count := 1\<rparr>"

text \<open>A UDP session that waits for the answer to a switch, and a data record from its peer.\<close>

definition demo_switching :: controller where
  "demo_switching = \<lparr>sc_role = Server, sc_mode = Encrypted, sc_epoch = 1, sc_pending = Some (ServerSwitchReady 2 Plaintext)\<rparr>"

definition demo_waiting :: "(bytes, unit) ep" where
  "demo_waiting = (demo_ep Udp)\<lparr>
     ep_dg := \<lparr>dg_shared = demo_open,
       dg_wire = (dw_new Udp 1200 4 4096 8192)\<lparr>
         dw_pending := fmupd demo_peer \<lparr>pr_bytes = [1], pr_last_sent = 0, pr_attempts = 0\<rparr> fmempty\<rparr>,
       dg_peers = fmupd demo_peer (PEstablished (encode_handle 0 1) (dt_new ()) demo_switching None 0 (Some 5)) fmempty\<rparr>\<rparr>"

definition demo_frame :: frame where
  "demo_frame = \<lparr>frame_hdr = \<lparr>hdr_version = VERSION, hdr_flags = 0, hdr_body_len = 0, hdr_correlation_id = 7\<rparr>, frame_body = []\<rparr>"

definition demo_frame_bytes :: bytes where
  "demo_frame_bytes = (case frame_enc 256 demo_frame of Inr bs \<Rightarrow> bs | Inl _ \<Rightarrow> [])"

definition demo_protected :: protected_message where
  "demo_protected = \<lparr>pm_kind = Data, pm_payload = demo_frame_bytes\<rparr>"

definition demo_data_rec :: sec_record where
  "demo_data_rec = \<lparr>rec_kind = Protected, rec_epoch = 1,
     rec_payload = u64_be 0 @ (case encode_protected demo_protected 320 of Inr bs \<Rightarrow> bs | Inl _ \<Rightarrow> []) @ replicate 16 0\<rparr>"

lemma demo_frame_enc: "frame_enc 256 demo_frame = Inr demo_frame_bytes" and demo_frame_length: "length demo_frame_bytes = 20"
  by (simp_all add: demo_frame_bytes_def demo_frame_def frame_enc_def encode_frame_def validate_flags_def u32_max_def)

lemma demo_frame_decoded: "decode_datagram demo_frame_bytes 256 = Inr demo_frame"
  using decode_encode_frame [OF _ demo_frame_enc] by (simp add: frame_valid_def frame_dec_def demo_frame_def validate_flags_def)

lemma demo_data_decrypted:
  "dg_decrypt demo_cipher demo_data_rec 320 (dt_new ()) =
     (\<lparr>dt_state = (), dt_send_nonce = 0, dt_replay = \<lparr>rw_highest = Some 0, rw_bitmap = 1\<rparr>\<rparr>, Inr demo_protected)"
proof -
  obtain bs where bs: "encode_protected demo_protected 320 = Inr bs"
    by (simp add: encode_protected_def validate_payload_len_def demo_protected_def demo_frame_length u32_max_def)
  show ?thesis
    using decode_encode_protected [OF bs]
    by (simp add: dg_decrypt_def dt_decrypt_def demo_data_rec_def bs demo_cipher_def dt_new_def rw_default_def rw_contains_def
        rw_insert_def)
qed

text \<open>A source that is charged for one session and has joined again.\<close>

definition demo_rejoined :: "(bytes, unit) ep" where
  "demo_rejoined = (demo_ep Udp)\<lparr>
     ep_dg := (ep_dg (demo_ep Udp))\<lparr>dg_peers := fmupd demo_addr (PClientHello 9 0) fmempty\<rparr>,
     ep_admission := (adm_new 2 1 4 16 64)\<lparr>
       adm_entries := fmupd (ip_key_of (sock_ip demo_addr) 64) \<lparr>ent_active = 1, ent_tokens = 3, ent_updated = 0\<rparr> fmempty\<rparr>,
     ep_permits := fmupd demo_addr (ip_key_of (sock_ip demo_addr) 64) fmempty\<rparr>"

text \<open>A client that has sent its hello, and the answer of the server.\<close>

definition demo_joining :: "(bytes, unit) dg" where
  "demo_joining = \<lparr>dg_shared = demo_start, dg_wire = dw_new Udp 1200 4 4096 8192,
     dg_peers = fmupd demo_addr (PClientHello 9 0) fmempty\<rparr>"

definition demo_answer :: sec_record where
  "demo_answer = \<lparr>rec_kind = ServerHello, rec_epoch = 0, rec_payload = mode_tag Encrypted # demo_key\<rparr>"

definition demo_initiator :: "bytes initiator" where
  "demo_initiator = \<lparr>ih_state = [], ih_expected = demo_key, ih_verified = False\<rparr>"

lemma demo_client_step:
  "\<exists>d' out. process (demo_dg_env Udp (AdaptiveClient [])) demo_clock demo_addr demo_answer demo_joining = Some (d', out, Inr ()) \<and>
    fmlookup (dg_peers d') demo_addr = Some (PClientResponse 9 demo_initiator [] Encrypted 0)"
proof -
  have "client_first (demo_dg_env Udp (AdaptiveClient [])) (rec_payload demo_answer) = Inr (demo_initiator, Encrypted, [])"
    by (simp add: client_first_def demo_answer_def demo_key_def ih_new_def ih_write_first_def demo_noise_def demo_initiator_def
        mode_try_from_def)
  then show ?thesis
    by (simp add: process_def process_common_def demo_answer_def demo_joining_def client_server_hello_def with_sent_def
        send_reliable_def encode_record_def validate_payload_len_def u32_max_def dw_new_def demo_clock_def put_peer_def Let_def)
qed

end
