(* ===== verification/Datagram_Invariants.thy ===== *)
theory Datagram_Invariants
  imports Datagram_Demo
begin

text \<open>
  What holds of a datagram endpoint in every reachable state: the queue of deferred messages is counted exactly and
  bounded, and a listener keeps state only for addresses that have shown a valid cookie.
\<close>

definition ep_inv :: "nat \<Rightarrow> socket_addr set \<Rightarrow> transport \<Rightarrow> ('h, 'st) ep \<Rightarrow> bool" where
  "ep_inv n A k s \<longleftrightarrow> deferred_ok n s \<and> dw_kind (ep_wire s) = k \<and> addrs s \<subseteq> A \<and> (A = UNIV \<or> ep_remote s = None)"

lemma tracks_inv: "ep_tracks n p s s' \<Longrightarrow> ep_inv n A k s \<Longrightarrow> p \<in> A \<Longrightarrow> ep_inv n A k s'"
  by (auto simp: ep_tracks_def ep_inv_def)

lemma ep_fold_inv:
  assumes "ep_fold f ks s = Some (s', out, go)" and "ep_inv n A k s" and "set ks \<subseteq> A"
    and "\<And>q s s' out go. f q s = Some (s', out, go) \<Longrightarrow> ep_tracks n q s s'"
  shows "ep_inv n A k s'"
  using assms(1-3)
proof (induction ks arbitrary: s out)
  case (Cons q ks)
  from Cons.prems(1) obtain s1 out1 go1 where f: "f q s = Some (s1, out1, go1)"
    and rest: "if go1 then \<exists>out2. ep_fold f ks s1 = Some (s', out2, go) else s' = s1 \<and> \<not> go"
    by (auto elim: ep_thenD)
  have "ep_inv n A k s1" using tracks_inv [OF assms(4) [OF f] Cons.prems(2)] Cons.prems(3) by simp
  then show ?case using rest Cons.IH [of s1] Cons.prems(3) by (auto split: if_splits)
qed simp

section \<open>The timer\<close>

lemma tracks_candidates: "ep_tracks n p s (s\<lparr>ep_candidates := cs\<rparr>)"
  by (auto simp: ep_tracks_def addrs_def deferred_ok_def)

lemma tracks_unauthorized:
  assumes "ep_tracks n p s s1" and "wire_local p (ep_wire s1) w"
  shows "ep_tracks n p s ((set_wire w s1)\<lparr>ep_authorized := fmdrop q (ep_authorized s1)\<rparr>)"
  using tracks_more(10) [OF tracks_trans [OF assms(1) tracks_fields(1) [OF assms(2)]], of q] by (simp add: set_wire_def)

lemma tracks_forget: "ep_tracks n p s (forget_candidate en ck q s)"
  unfolding forget_candidate_def Let_def
  by (intro tracks_more(6,7) tracks_unauthorized tracks_more(5) tracks_fields) simp

lemma tracks_rebind: "rebind en ck tk session next_addr s = Some (s', out, go) \<Longrightarrow> ep_tracks n p s s'"
  by (auto simp: rebind_def tracks_fields tracks_end tracks_more split: if_splits sum.splits prod.splits)

definition client_inv :: "nat \<Rightarrow> transport \<Rightarrow> ('h, 'st) ep \<Rightarrow> bool" where
  "client_inv n k s \<longleftrightarrow> deferred_ok n s \<and> dw_kind (ep_wire s) = k"

lemma tracks_client: "ep_tracks n p s s' \<Longrightarrow> client_inv n k s \<Longrightarrow> client_inv n k s'"
  by (auto simp: ep_tracks_def client_inv_def)

lemma send_hello_local: "send_client_hello env ck drawn p w = Some (w', out, r) \<Longrightarrow> wire_local p w w'"
  by (auto simp: send_client_hello_def split: if_splits sum.splits dest: wire_local_sends)

lemma client_start:
  assumes "start_candidate en ck tk session p s = Some (s', out, go)" and "client_inv n k s"
  shows "client_inv n k s'"
proof -
  obtain sh r where sh: "retarget_datagram_session session p (ep_shared s) = (sh, r)" by fastforce
  show ?thesis
  proof (cases r)
    case (Inl e)
    have "ep_tracks n p s (fail_ep en ck (Some session) ''datagram_retarget_session'' e (set_shared sh s))"
      by (simp add: tracks_more tracks_fields)
    then show ?thesis using assms tracks_client Inl by (auto simp: start_candidate_def sh)
  next
    case (Inr u)
    with assms(1) obtain w out1 res where w: "send_client_hello (en_dg en) ck (tk_random tk) p (ep_wire s) = Some (w, out1, res)"
      by (auto simp: start_candidate_def sh split: option.splits)
    have t: "ep_tracks n p s (set_wire w (set_shared sh s))"
      by (rule tracks_trans [OF tracks_fields(2) tracks_fields(1)])
        (use send_hello_local [OF w] in \<open>simp add: set_shared_def\<close>)
    have put: "ep_tracks n p s (set_peer p x (set_wire w (set_shared sh s)))" for x by (rule tracks_more(4) [OF t])
    have "client_inv n k s1 \<Longrightarrow> client_inv n k (s1\<lparr>ep_remote := Some p\<rparr>)" for s1 :: "('a, 'b) ep"
      by (simp add: client_inv_def deferred_ok_def)
    then show ?thesis
      using assms Inr tracks_client [OF t assms(2)] tracks_client [OF put assms(2)]
        tracks_client [OF tracks_end(1)]
      by (auto simp: start_candidate_def sh w split: sum.splits)
  qed
qed

lemma connect_inv:
  assumes "tick_connect en ck tk s = Some (s', out, go)" and "ep_inv n A k s"
  shows "ep_inv n A k s'"
proof (cases "ep_remote s")
  case None
  then show ?thesis using assms by (simp add: tick_connect_def)
next
  case (Some current)
  then have A: "A = UNIV" and c: "client_inv n k s" using assms(2) by (auto simp: client_inv_def ep_inv_def)
  have "ep_tracks n current s (forget_candidate en ck current (s\<lparr>ep_candidates := rest\<rparr>))" for rest
    by (rule tracks_trans [OF tracks_candidates tracks_forget])
  then have f: "client_inv n k (forget_candidate en ck current (s\<lparr>ep_candidates := rest\<rparr>))" for rest
    using tracks_client c by blast
  note r = tracks_client [OF tracks_rebind f]
  have "client_inv n k s'"
    using assms(1) c tracks_client [OF tracks_end(1) c] r client_start [OF _ r]
    by (auto simp: tick_connect_def Some Let_def split: if_splits option.splits elim!: ep_thenD)
  then show ?thesis by (simp add: A client_inv_def ep_inv_def)
qed

lemma fold_inv:
  assumes "ep_inv n A k s" and "set ks \<subseteq> A" and "\<And>q s. ep_tracks n q s (f q s)"
  shows "ep_inv n A k (fold f ks s)"
  using assms(1,2)
proof (induction ks arbitrary: s)
  case (Cons q ks)
  then show ?case using tracks_inv [OF assms(3) Cons.prems(1)] by simp
qed simp

lemma tracks_expire: "ep_tracks n q s (expire_preflight now q s)"
proof -
  have "ep_tracks n q s ((set_wire (revoke_authorization q (ep_wire s)) s)\<lparr>ep_authorized := fmdrop q (ep_authorized s)\<rparr>)"
    by (rule tracks_unauthorized) simp_all
  then show ?thesis by (auto simp: expire_preflight_def tracks_more split: option.splits)
qed

lemma preflight_inv: "ep_inv n A k s \<Longrightarrow> ep_inv n A k (tick_preflight now s)"
  unfolding tick_preflight_def
  by (rule fold_inv) (auto simp: tracks_expire ep_inv_def addrs_def fmdom'_alt_def)

lemma retain_inv: "ep_inv n A k s \<Longrightarrow> ep_inv n A k (tick_retain s)"
proof -
  assume i: "ep_inv n A k s"
  have t: "ep_tracks n q s (retain_permit q s)" for q and s :: "('a, 'b) ep"
    by (simp add: retain_permit_def tracks_fields)
  let ?s = "fold retain_permit (table_keys (ep_permits s)) s"
  have "ep_inv n A k ?s"
    by (rule fold_inv [OF i _ t]) (use i in \<open>auto simp: ep_inv_def addrs_def fmdom'_alt_def\<close>)
  moreover have "addrs (?s\<lparr>ep_rekeys := fmfilter P (ep_rekeys ?s)\<rparr>) \<subseteq> addrs ?s" for P
    by (auto simp: addrs_def fmdom'_filter)
  ultimately show ?thesis by (auto simp: tick_retain_def Let_def ep_inv_def deferred_ok_def)
qed

lemma drive_inv: "drive_server en ck s = Some (s', out, go) \<Longrightarrow> ep_inv n A k s \<Longrightarrow> ep_inv n A k s'"
  unfolding drive_server_def
  by (rule ep_fold_inv) (auto simp: ep_inv_def addrs_def fmdom'_alt_def intro: tracks_drive)

lemma flush_inv: "flush_deferred en ck s = Some (s', out, go) \<Longrightarrow> ep_inv n A k s \<Longrightarrow> ep_inv n A k s'"
  unfolding flush_deferred_def
  by (rule ep_fold_inv) (auto simp: ep_inv_def addrs_def fmdom'_alt_def intro: tracks_flush_peer)

lemma tracks_retry_expired: "retry_expired en ck q s = Some (s', out, go) \<Longrightarrow> ep_tracks n q s s'"
  by (auto simp: retry_expired_def Let_def tracks_more split: option.splits if_splits)

lemma retry_expired_keys:
  "set (snd (snd (fold (retry_one now) qs (w, out, ex)))) \<subseteq> set ex \<union> set qs"
proof (induction qs arbitrary: w out ex)
  case (Cons q qs)
  obtain w1 out1 ex1 where r: "retry_one now q (w, out, ex) = (w1, out1, ex1)" by (metis surj_pair)
  then have "set ex1 \<subseteq> insert q (set ex)" by (auto simp: retry_one_def split: option.splits if_splits)
  then show ?case using Cons [of w1 out1 ex1] by (auto simp: r)
qed simp

lemma wire_local_all:
  assumes "\<And>p. wire_local p w w'"
  shows "waddrs w' \<subseteq> waddrs w"
  using assms [of "SockV4 0 0"] assms [of "SockV4 0 1"] by (auto simp: wire_local_def)

lemma wire_inv:
  assumes "tick_wire en ck s = Some (s', out, go)" and "ep_inv n A k s"
  shows "ep_inv n A k s'"
proof -
  obtain w out1 where f: "dw_flush (ck_ms ck) (ep_wire s) = (w, out1)" by fastforce
  obtain w1 out2 expired where r: "dw_retry (ck_now ck) w = (w1, out2, expired)" by (metis surj_pair)
  have w: "waddrs w \<subseteq> waddrs (ep_wire s)" by (rule wire_local_all [OF wire_local_flush [OF f]])
  have w1: "waddrs w1 \<subseteq> waddrs (ep_wire s)" "dw_kind w1 = dw_kind (ep_wire s)"
    using wire_local_all [OF wire_local_retry [OF r]] w wire_local_flush [OF f] wire_local_retry [OF r]
    by (auto simp: wire_local_def)
  have "set expired \<subseteq> fmdom' (dw_pending w)"
    using r retry_expired_keys [of "ck_now ck" "table_keys (dw_pending w)" w "[]" "[]"]
    by (auto simp: dw_retry_def fmdom'_alt_def split: if_splits)
  then have keys: "set expired \<subseteq> addrs s" using w by (auto simp: addrs_def waddrs_def)
  have i: "ep_inv n A k (set_wire w1 s)"
    using assms(2) w1 by (auto simp: ep_inv_def addrs_def deferred_ok_def set_wire_def)
  have "set expired \<subseteq> A" using keys assms(2) by (auto simp: ep_inv_def)
  note fold = ep_fold_inv [OF _ i this tracks_retry_expired]
  show ?thesis using assms(1) fold by (auto simp: tick_wire_def f r elim!: ep_thenD)
qed

lemma then_inv:
  assumes "ep_then m f = Some (s', out, go)" and "\<And>s1 out go. m = Some (s1, out, go) \<Longrightarrow> ep_inv n A k s1"
    and "\<And>s1 s' out go. ep_inv n A k s1 \<Longrightarrow> f s1 = Some (s', out, go) \<Longrightarrow> ep_inv n A k s'"
  shows "ep_inv n A k s'"
  using assms by (auto elim!: ep_thenD split: if_splits)

lemma tick_inv:
  assumes "tick_step en ck tk s = Some (s', out, go)" and "ep_inv n A k s"
  shows "ep_inv n A k s'"
  using assms(1) unfolding tick_step_def
proof (rule then_inv)
  fix s1 s' out go assume i: "ep_inv n A k s1"
    and s': "ep_then (drive_server en ck (tick_preflight (ck_now ck) s1))
      (\<lambda>s. ep_then (flush_deferred en ck (tick_retain s)) (tick_wire en ck)) = Some (s', out, go)"
  from s' show "ep_inv n A k s'"
  proof (rule then_inv)
    show "ep_inv n A k s2" if "drive_server en ck (tick_preflight (ck_now ck) s1) = Some (s2, out, go)" for s2 out go
      by (rule drive_inv [OF that preflight_inv [OF i]])
    show "ep_inv n A k s3" if "ep_inv n A k s2"
      and "ep_then (flush_deferred en ck (tick_retain s2)) (tick_wire en ck) = Some (s3, out, go)" for s2 s3 out go
      by (rule then_inv [OF that(2)]) (auto intro: flush_inv retain_inv that(1) wire_inv)
  qed
qed (rule connect_inv [OF _ assms(2)])

section \<open>All steps\<close>

lemma tracks_app:
  "ep_tracks n p s (decide_step session accept s)"
  "ep_tracks n p s (fst (send_security_command session cmd s))"
  by (auto simp: decide_step_def send_security_command_def ep_tracks_def addrs_def deferred_ok_def set_shared_def set_peers_def
      split: prod.splits sum.splits option.splits list.splits)

text \<open>Inbound packets that carry a valid cookie for the address they come from.\<close>

definition shows_cookie :: "('h, 'st) dg_env \<Rightarrow> clock \<Rightarrow> socket_addr \<Rightarrow> bytes \<Rightarrow> bool" where
  "shows_cookie env ck p packet =
     (if dg_transport env = Kcp
      then (case pf_decode packet of Some (Hello _ cookie) \<Rightarrow> cookie_ok env ck p cookie | _ \<Rightarrow> False)
      else (case decode_record packet (record_limit env) of
              Inr r \<Rightarrow> rec_kind r = ClientHello \<and> cookie_ok env ck p (rec_payload r) | Inl _ \<Rightarrow> False))"

fun cookie_from :: "('h, 'st) dg_env \<Rightarrow> ep_op \<Rightarrow> socket_addr option" where
  "cookie_from env (EInbound ck p packet) = (if shows_cookie env ck p packet then Some p else None)"
| "cookie_from env _ = None"

definition proven :: "('h, 'st) dg_env \<Rightarrow> ep_op list \<Rightarrow> socket_addr set" where
  "proven env ops = set (List.map_filter (cookie_from env) ops)"

lemma proven_snoc: "proven env (ops @ [op]) = proven env ops \<union> set_option (cookie_from env op)"
  by (auto simp: proven_def List.map_filter_def split: option.splits)

subsection \<open>Packets without a cookie\<close>

lemma udp_response_local:
  "send_response p r m ok ms w = Some (w', out, res) \<Longrightarrow> dw_kind w \<noteq> Kcp \<Longrightarrow> wire_local q w w'"
  by (auto simp: send_response_def split: sum.splits if_splits)

lemma unproven_process:
  assumes "process env ck p r d = Some (d', out, res)" and "dg_security env = AdaptiveServer private public mode"
    and "fmlookup (dg_peers d) p = None" and "dg_transport env \<noteq> Kcp" and "dw_kind (dg_wire d) \<noteq> Kcp"
    and "\<not> (rec_kind r = ClientHello \<and> cookie_ok env ck p (rec_payload r))"
  shows "dg_local q d d' \<and> fmlookup (dg_peers d') p = None"
proof -
  have d: "d\<lparr>dg_peers := fmdrop p (dg_peers d)\<rparr> = d" using assms(3) by (simp add: fmdrop_absent)
  show ?thesis
  proof (cases "rec_kind r = ClientHello")
    case True
    then have "challenge_peer env ck p None d = Some (d', out, res)"
      using assms by (simp add: process_def d)
    then show ?thesis
      using assms(3-5)
      by (auto simp: challenge_peer_def with_sent_def put_back_def dg_local_updates udp_response_local
          split: option.splits prod.splits sum.splits)
  next
    case False
    then show ?thesis using assms(1-3) by (auto simp: process_def d process_common_def put_back_def)
  qed
qed

lemma unproven_record:
  assumes "process_record en ck p r s = Some (s', out, go)" and "dg_security (en_dg en) = AdaptiveServer private public mode"
    and "fmlookup (ep_peers s) p = None" and "dg_transport (en_dg en) \<noteq> Kcp" and "dw_kind (ep_wire s) \<noteq> Kcp"
    and "\<not> (rec_kind r = ClientHello \<and> cookie_ok (en_dg en) ck p (rec_payload r))"
  shows "ep_tracks n q s s'"
proof -
  from assms(1) obtain d out1 res where pr: "process (en_dg en) ck p r (ep_dg s) = Some (d, out1, res)"
    by (auto simp: process_record_def Let_def split: option.splits)
  have l: "dg_local q (ep_dg s) d" "fmlookup (dg_peers d) p = None"
    using unproven_process [OF pr assms(2-6)] by blast+
  have d: "ep_tracks n q s (s\<lparr>ep_dg := d\<rparr>)" by (rule tracks_fields(3) [OF l(1)])
  show ?thesis
  proof (cases res)
    case (Inl e)
    then show ?thesis
      using assms pr tracks_trans [OF d tracks_failed]
      by (auto simp: process_record_def Let_def tracks_more wire_local_input split: prod.splits bool.splits)
  next
    case (Inr u)
    then show ?thesis
      using assms pr d l by (auto simp: process_record_def Let_def tracks_more wire_local_input)
  qed
qed

lemma tracks_all:
  assumes "\<And>q. ep_tracks n q s s'"
  shows "addrs s' \<subseteq> addrs s"
  using assms [of "SockV4 0 0"] assms [of "SockV4 0 1"] by (auto simp: ep_tracks_def)

lemma tracks_all_inv:
  assumes "\<And>q. ep_tracks n q s s'" and "ep_inv n A k s"
  shows "ep_inv n A k s'"
  using tracks_all [OF assms(1)] assms(1) [of "SockV4 0 0"] assms(2) by (auto simp: ep_tracks_def ep_inv_def)

lemma unproven_udp:
  assumes "inbound_record en ck p packet s = Some (s', out, go)"
    and "dg_security (en_dg en) = AdaptiveServer private public mode"
    and "dw_kind (ep_wire s) = dg_transport (en_dg en)" and "dg_transport (en_dg en) \<noteq> Kcp"
    and "p \<notin> addrs s" and "\<not> shows_cookie (en_dg en) ck p packet"
  shows "addrs s' \<subseteq> addrs s"
proof (cases "decode_record packet (record_limit (en_dg en))")
  case (Inr r)
  have c: "\<not> (rec_kind r = ClientHello \<and> cookie_ok (en_dg en) ck p (rec_payload r))"
    using assms(4,6) Inr by (auto simp: shows_cookie_def)
  then have a: "admitted (en_dg en) ck p r s = (s, True)" by (auto simp: admitted_def)
  have none: "fmlookup (ep_peers s) p = None" using assms(5) by (auto simp: addrs_def fmdom'_notI)
  obtain w dup resp where b: "begin_input p packet (ep_wire s) = (w, dup, resp)" by (metis surj_pair)
  note l = wire_local_input(1) [OF b]
  have w: "ep_tracks 0 q s (set_wire w s)" for q by (rule tracks_fields(1) [OF l])
  have k: "dw_kind w = dg_transport (en_dg en)" using l assms(3) by (simp add: wire_local_def)
  have rec: "ep_tracks 0 q s s'" if "process_record en ck p r s1 = Some (s', out, go)" and "s1 = s \<or> s1 = set_wire w s" for q s1
  proof -
    have "ep_tracks 0 q s s1" using that(2) w by auto
    moreover have "ep_tracks 0 q s1 s'"
      by (rule unproven_record [OF that(1) assms(2)]) (use that(2) none k c assms(3,4) in \<open>auto simp: set_wire_def\<close>)
    ultimately show ?thesis by (rule tracks_trans)
  qed
  have "ep_tracks 0 q s s'" for q
    using assms(1) rec w by (auto simp: inbound_record_def Inr a b split: if_splits bool.splits)
  then show ?thesis by (rule tracks_all)
qed (use assms(1) in \<open>simp add: inbound_record_def\<close>)

lemma cookie_required:
  assumes "inbound en ck p packet s = Some (s', out, go)" and "dg_security (en_dg en) = AdaptiveServer private public mode"
    and "dw_kind (ep_wire s) = dg_transport (en_dg en)"
    and "p \<notin> addrs s" and "\<not> shows_cookie (en_dg en) ck p packet"
  shows "addrs s' \<subseteq> addrs s"
proof (cases "dg_transport (en_dg en) = Kcp")
  case True
  have "fmlookup (dw_engines (ep_wire s)) p = None" "fmlookup (ep_authorized s) p = None"
    using assms(4) by (auto simp: addrs_def waddrs_def fmdom'_notI)
  then show ?thesis
    using assms True
    by (auto simp: inbound_def handle_preflight_def has_peer_def shows_cookie_def split: option.splits preflight.splits)
next
  case False
  have "\<not> has_peer p (ep_wire s)" using assms(4) by (auto simp: addrs_def waddrs_def has_peer_def fmdom'_notI)
  moreover have "set_wire (ep_wire s) s = s" by (simp add: set_wire_def)
  ultimately have "\<exists>out. inbound_records en ck p [packet] s = Some (s', out, go)"
    using assms(1,3) False by (auto simp: inbound_def handle_preflight_def dw_receive_def elim!: ep_thenD)
  then show ?thesis
    using unproven_udp [OF _ assms(2,3) False assms(4,5)] by (auto elim!: ep_thenD split: if_splits)
qed

section \<open>Reachable states\<close>

definition server_env :: "('h, 'st) ep_env \<Rightarrow> bool" where
  "server_env en \<longleftrightarrow> (case dg_security (en_dg en) of AdaptiveServer _ _ _ \<Rightarrow> True | AdaptiveClient _ \<Rightarrow> False)"

lemma step_inv:
  assumes "ep_step en op s = Some (s', out, go)"
    and "ep_inv (en_write_capacity en) A (dg_transport (en_dg en)) s"
    and "A = UNIV \<or> server_env en \<and> set_option (cookie_from (en_dg en) op) \<subseteq> A"
  shows "ep_inv (en_write_capacity en) A (dg_transport (en_dg en)) s'"
proof (cases op)
  case (EInbound ck p packet)
  then have st: "inbound en ck p packet s = Some (s', out, go)" using assms(1) by simp
  note t = tracks_inbound [OF st, of "en_write_capacity en"]
  show ?thesis
  proof (cases "p \<in> A")
    case False
    obtain pr pu m where sec: "dg_security (en_dg en) = AdaptiveServer pr pu m"
      using assms(3) False by (auto simp: server_env_def split: endpoint_security.splits)
    have "p \<notin> addrs s" and "\<not> shows_cookie (en_dg en) ck p packet"
      using False assms(2,3) EInbound by (auto simp: ep_inv_def split: if_splits)
    with cookie_required [OF st sec] assms(2) have "addrs s' \<subseteq> addrs s" by (simp add: ep_inv_def)
    then show ?thesis using t assms(2) False by (auto simp: ep_inv_def ep_tracks_def)
  qed (use tracks_inv [OF t assms(2)] in auto)
next
  case (EOutbound ck p ob)
  then have st: "outbound_step en ck p ob s = Some (s', out, go)" using assms(1) by simp
  show ?thesis
  proof (cases "fmlookup (ep_peers s) p")
    case None
    then show ?thesis using st assms(2) by (auto simp: outbound_step_def split: if_splits)
  next
    case (Some x)
    then have "p \<in> A" using assms(2) by (auto simp: ep_inv_def addrs_def fmdom'I)
    then show ?thesis using tracks_inv [OF tracks_outbound [OF st] assms(2)] by simp
  qed
next
  case (ECleanup p session)
  have "ep_tracks n q s (cleanup_peer p session s)" for n q
    by (auto simp: cleanup_peer_def Let_def tracks_more split: option.splits)
  then have "ep_tracks (en_write_capacity en) q s s'" for q
    using assms(1) ECleanup by (auto simp: cleanup_step_def tracks_more)
  then show ?thesis using tracks_all_inv assms(2) by blast
next
  case (ETick ck tk)
  then show ?thesis using assms(1,2) tick_inv by simp
next
  case (EReceiveError ck e)
  then have "ep_tracks (en_write_capacity en) q s s'" for q using assms(1) by (auto simp: receive_failed_def tracks_end)
  then show ?thesis using tracks_all_inv assms(2) by blast
next
  case (EDecide session accept)
  then have "ep_tracks (en_write_capacity en) q s s'" for q using assms(1) tracks_app(1) by auto
  then show ?thesis using tracks_all_inv assms(2) by blast
next
  case (ECommand session cmd)
  then have "ep_tracks (en_write_capacity en) q s s'" for q using assms(1) tracks_app(2) by auto
  then show ?thesis using tracks_all_inv assms(2) by blast
qed (use assms(1,2) in \<open>auto simp: ep_inv_def addrs_def deferred_ok_def set_shared_def\<close>)

lemma start_inv:
  assumes "ep_start en ck drawn ms mr adm remote candidates sh = Some (s, out, True)"
  shows "ep_inv n UNIV (dg_transport (en_dg en)) s" and "remote = None \<Longrightarrow> ep_inv n {} (dg_transport (en_dg en)) s"
  using assms
  by (auto simp: ep_start_def Let_def ep_inv_def addrs_def waddrs_def dw_new_def deferred_ok_def set_wire_def set_peer_def
      set_peers_def wire_local_def split: option.splits prod.splits sum.splits dest!: send_hello_local)

lemma reach_inv:
  assumes "ep_reach en s0 ops s" and "ep_start en ck drawn ms mr adm remote candidates sh = Some (s0, out, True)"
    and "A = (\<lambda>_. UNIV) \<or> server_env en \<and> remote = None \<and> A = proven (en_dg en)"
  shows "ep_inv (en_write_capacity en) (A ops) (dg_transport (en_dg en)) s"
  using assms(1)
proof (induction rule: ep_reach.induct)
  case ep_init
  then show ?case using start_inv [OF assms(2), of "en_write_capacity en"] assms(3) by (auto simp: ep_inv_def)
next
  case (ep_next ops s op s' out)
  have "ep_inv (en_write_capacity en) (A (ops @ [op])) (dg_transport (en_dg en)) s"
    using ep_next.IH assms(3) by (auto simp: ep_inv_def proven_snoc)
  then show ?case
    by (rule step_inv [OF ep_next.hyps(2)]) (use assms(3) in \<open>auto simp: proven_snoc\<close>)
qed

text \<open>
  C37. A slow peer cannot make a datagram endpoint hold more than its write capacity: over every sequence of packets, sends,
  timers and application calls the counter of deferred messages is the number of messages deferred for all peers together,
  and never above the capacity.
\<close>

theorem deferred_counted_and_bounded:
  assumes "ep_start en ck drawn max_session max_runtime adm remote candidates sh = Some (s0, out, True)"
    and "ep_reach en s0 ops s"
  shows "ep_deferred_count s = table_sum length (ep_deferred s) \<and> ep_deferred_count s \<le> en_write_capacity en"
  using reach_inv [OF assms(2,1), of "\<lambda>_. UNIV"] by (simp add: ep_inv_def deferred_ok_def)

theorem deferred_counted_and_bounded_witness:
  "ep_start (demo_ep_env Udp) demo_clock None 4096 8192 (adm_new 2 1 4 16 64) None [] demo_start = Some (demo_ep Udp, [], True) \<and>
   (\<exists>s. ep_reach (demo_ep_env Udp) (demo_ep Udp) [EInbound demo_clock demo_addr (encoded demo_hello_rec)] s \<and>
      ep_deferred_count s = table_sum length (ep_deferred s) \<and> ep_deferred_count s \<le> 8)"
proof -
  obtain s out where "ep_step (demo_ep_env Udp) (EInbound demo_clock demo_addr (encoded demo_hello_rec)) (demo_ep Udp) = Some (s, out, True)"
    using demo_hello_step by blast
  from ep_next [OF ep_init this] show ?thesis
    using deferred_counted_and_bounded [OF demo_ep_start [of Udp], of "[EInbound demo_clock demo_addr (encoded demo_hello_rec)]" s]
      demo_ep_start [of Udp] by auto
qed

text \<open>
  C6. A listener keeps state only for addresses that have shown a cookie. Over every sequence of steps, whatever the
  packets contain, an address that owns a peer, a session key, an admission permit, a preflight
  authorization, deferred messages, a control record or a KCP engine has sent a packet with a cookie that was valid for it.
\<close>

theorem state_only_after_cookie:
  assumes "dg_security (en_dg en) = AdaptiveServer key public mode"
    and "ep_start en ck drawn max_session max_runtime adm None [] sh = Some (s0, out, True)"
    and "ep_reach en s0 ops s"
    and "p |\<in>| fmdom (ep_peers s) |\<union>| fmdom (ep_permits s) |\<union>| fmdom (ep_rekeys s) |\<union>| fmdom (ep_authorized s) |\<union>|
      fmdom (ep_deferred s) |\<union>| fmdom (dw_pending (ep_wire s)) |\<union>| fmdom (dw_authorized (ep_wire s)) |\<union>| fmdom (dw_engines (ep_wire s))"
  shows "\<exists>ck packet. EInbound ck p packet \<in> set ops \<and> shows_cookie (en_dg en) ck p packet"
proof -
  have "ep_inv (en_write_capacity en) (proven (en_dg en) ops) (dg_transport (en_dg en)) s"
    by (rule reach_inv [OF assms(3,2)]) (simp add: server_env_def assms(1))
  then have "p \<in> proven (en_dg en) ops"
    using assms(4) by (auto simp: ep_inv_def addrs_def waddrs_def fmdom'_alt_def)
  then obtain op where "op \<in> set ops" "cookie_from (en_dg en) op = Some p"
    by (auto simp: proven_def List.map_filter_def)
  then show ?thesis by (cases op rule: ep_op.exhaust) (auto split: if_splits)
qed

theorem state_only_after_cookie_witness:
  "ep_start (demo_ep_env Udp) demo_clock None 4096 8192 (adm_new 2 1 4 16 64) None [] demo_start = Some (demo_ep Udp, [], True) \<and>
   (\<exists>s. ep_reach (demo_ep_env Udp) (demo_ep Udp) [EInbound demo_clock demo_addr (encoded demo_hello_rec)] s \<and>
      demo_addr |\<in>| fmdom (ep_peers s)) \<and>
   shows_cookie (demo_dg_env Udp (AdaptiveServer demo_key demo_key Encrypted)) demo_clock demo_addr (encoded demo_hello_rec)"
proof -
  let ?op = "EInbound demo_clock demo_addr (encoded demo_hello_rec)"
  obtain s out where s: "ep_step (demo_ep_env Udp) ?op (demo_ep Udp) = Some (s, out, True)" and peer: "demo_addr |\<in>| fmdom (ep_peers s)"
    using demo_hello_step by blast
  have reach: "ep_reach (demo_ep_env Udp) (demo_ep Udp) [?op] s" using ep_next [OF ep_init s] by simp
  have "\<exists>ck packet. EInbound ck demo_addr packet \<in> set [?op] \<and> shows_cookie (en_dg (demo_ep_env Udp)) ck demo_addr packet"
    by (rule state_only_after_cookie [OF _ demo_ep_start reach]) (use peer in simp_all)
  then show ?thesis using reach peer demo_ep_start [of Udp] by auto
qed

end
