(* ===== verification/Datagram_Barriers.thy ===== *)
theory Datagram_Barriers
  imports Datagram_Demo
begin

text \<open>
  Single steps of a datagram endpoint: how a client joins, and three places where the loop does
  less than its comments promise (retransmission of barriers, order of deferred messages, admission permits).
\<close>

section \<open>Joining\<close>

lemma with_sent_peers:
  assumes "with_sent sent d k = Some (d', out, res)" and "fmlookup (dg_peers d') p = Some x" and "fmlookup (dg_peers d) p = None"
  shows "\<exists>w. d' = fst (k (d\<lparr>dg_wire := w\<rparr>))"
  using assms by (auto simp: with_sent_def split: option.splits prod.splits sum.splits) (metis fst_conv)

lemma client_first_verified:
  assumes "client_first env payload = Inr (i, mode, first)"
  shows "\<exists>key verifier. dg_client env = Some (key, verifier) \<and> verifier (ih_expected i) \<and>
    mode_try_from (hd payload) = Inr mode \<and> ih_expected i = tl payload"
  using assms
  by (auto simp: client_first_def ih_new_def ih_write_first_def split: if_splits sum.splits option.splits prod.splits)

lemma auth_answer_iff:
  "auth_answer mode msg = Inr () \<longleftrightarrow> msg = \<lparr>pm_kind = AuthDecision, pm_payload = [1, mode_tag mode]\<rparr>"
  by (cases msg) (auto simp: auth_answer_def split: list.splits if_splits)

text \<open>What each branch leaves in the table for a peer that was taken out.\<close>

lemma new_cookie:
  "client_cookie ck p session started payload d = Some (d', out, res) \<Longrightarrow> fmlookup (dg_peers d') p = Some new \<Longrightarrow>
    fmlookup (dg_peers d) p = None \<Longrightarrow> new = PClientHello session started"
  unfolding client_cookie_def by (auto dest!: with_sent_peers simp: put_peer_def)

lemma new_response:
  "client_server_hello env ck join p session started payload d = Some (d', out, res) \<Longrightarrow>
    fmlookup (dg_peers d') p = Some new \<Longrightarrow> fmlookup (dg_peers d) p = None \<Longrightarrow>
    \<exists>i mode first. new = PClientResponse session i join mode started \<and> client_first env payload = Inr (i, mode, first)"
  unfolding client_server_hello_def by (auto split: sum.splits dest!: with_sent_peers simp: put_peer_def)

lemma new_auth:
  assumes "client_response env ck p session i j mode started payload d = Some (d', out, res)"
    and "fmlookup (dg_peers d') p = Some new" and "fmlookup (dg_peers d) p = None"
  shows "(\<exists>tr. new = PClientAuth session tr mode (ck_now ck) started) \<and>
    ny_remote (dg_noise env) (fst (ny_read (dg_noise env) (ih_state i) payload)) = Some (ih_expected i)"
proof -
  obtain i1 r1 where r: "ih_read_response (ny_read (dg_noise env)) (ny_remote (dg_noise env)) payload i = (i1, r1)" by fastforce
  then show ?thesis
    using assms unfolding client_response_def
    by (auto simp: ih_read_response_def Let_def put_peer_def split: sum.splits prod.splits option.splits if_splits
        dest!: with_sent_peers)
qed

lemma new_first:
  "server_first env ck p h started payload d = Some (d', out, res) \<Longrightarrow> fmlookup (dg_peers d') p = Some new \<Longrightarrow>
    fmlookup (dg_peers d) p = None \<Longrightarrow> \<exists>h'. new = PServerFinish h' started"
  unfolding server_first_def by (auto split: sum.splits prod.splits dest!: with_sent_peers simp: put_peer_def)

lemma sent_controller:
  "send_protected_response cy ck p epoch kind data m es = Some (es', out, r) \<Longrightarrow> es_controller es' = es_controller es"
  by (auto simp: send_protected_response_def split: prod.splits sum.splits option.splits)

lemma new_established:
  assumes "client_auth env ck p session tr mode r d = Some (d', out, res)"
    and "fmlookup (dg_peers d') p = Some new" and "fmlookup (dg_peers d) p = None"
  shows "\<exists>tr1 tr2 c. new = PEstablished session tr2 c None (ck_now ck) None \<and> sc_mode c = mode \<and>
    dg_decrypt (dg_cipher env) r (dg_max_body env) tr = (tr1, Inr \<lparr>pm_kind = AuthDecision, pm_payload = [1, mode_tag mode]\<rparr>)"
proof -
  obtain tr1 r1 where dec: "dg_decrypt (dg_cipher env) r (dg_max_body env) tr = (tr1, r1)" by fastforce
  then obtain msg where msg: "r1 = Inr msg" "auth_answer mode msg = Inr ()"
    using assms by (auto simp: client_auth_def split: sum.splits)
  then have m: "msg = \<lparr>pm_kind = AuthDecision, pm_payload = [1, mode_tag mode]\<rparr>" by (simp add: auth_answer_iff)
  show ?thesis
    using assms msg(2) unfolding client_auth_def
    by (auto simp: dec msg(1) put_peer_def m [symmetric] sc_new_def split: option.splits prod.splits sum.splits
        dest!: sent_controller)
qed

lemma new_still_established:
  "process_established env ck p session tr c commands a dl r d = Some (d', out, res) \<Longrightarrow> fmlookup (dg_peers d') p = Some new \<Longrightarrow>
    is_established new"
  unfolding process_established_def
  by (auto simp: Let_def put_peer_def split: option.splits prod.splits sum.splits)

text \<open>
  C38. A client endpoint establishes a session only with the server it verified, in the mode it was told. Whatever
  records arrive, its peer moves through the states of the join in order: it starts a handshake
  only for a key that its verifier accepts, it goes on only when the Noise response authenticated exactly that key, and it is
  established only by an encrypted decision that accepts and repeats the mode of the first hello, in that mode.
\<close>

theorem client_join_verified:
  assumes "dg_security env = AdaptiveClient join" and "process env ck p r d = Some (d', out, res)"
    and "fmlookup (dg_peers d) p = Some old" and "fmlookup (dg_peers d') p = Some new"
  shows "(\<forall>session i j mode t. new = PClientResponse session i j mode t \<longrightarrow> old = new \<or>
      old = PClientHello session t \<and> rec_kind r = ServerHello \<and> mode_try_from (hd (rec_payload r)) = Inr mode \<and>
      ih_expected i = tl (rec_payload r) \<and> (\<exists>key verifier. dg_client env = Some (key, verifier) \<and> verifier (ih_expected i))) \<and>
    (\<forall>session tr mode a t. new = PClientAuth session tr mode a t \<longrightarrow> old = new \<or>
      (\<exists>i j h. old = PClientResponse session i j mode t \<and> fst (ny_read (dg_noise env) (ih_state i) (rec_payload r)) = h \<and>
        ny_remote (dg_noise env) h = Some (ih_expected i))) \<and>
    (\<forall>session tr c commands a dl. new = PEstablished session tr c commands a dl \<longrightarrow> is_established old \<or>
      (\<exists>tr0 tr1 a0 t. old = PClientAuth session tr0 (sc_mode c) a0 t \<and>
        dg_decrypt (dg_cipher env) r (dg_max_body env) tr0 =
          (tr1, Inr \<lparr>pm_kind = AuthDecision, pm_payload = [1, mode_tag (sc_mode c)]\<rparr>)))"
proof -
  let ?d = "d\<lparr>dg_peers := fmdrop p (dg_peers d)\<rparr>"
  have gone: "fmlookup (dg_peers ?d) p = None" by simp
  note pr = assms(2) [unfolded process_def Let_def assms(1,3), simplified]
  note new = assms(4)
  show ?thesis
  proof (cases old)
    case (PClientHello session t)
    then show ?thesis
      using pr new
      by (auto simp: process_common_def put_back_def put_peer_def split: if_splits
          dest!: new_cookie [OF _ new gone] new_response [OF _ new gone] client_first_verified)
  next
    case (PClientResponse session i j mode t)
    then show ?thesis
      using pr new by (auto simp: process_common_def put_back_def put_peer_def split: if_splits dest!: new_auth [OF _ new gone])
  next
    case (PClientAuth session tr mode a t)
    then show ?thesis
      using pr new
      by (auto simp: process_common_def put_back_def put_peer_def split: if_splits dest!: new_established [OF _ new gone])
  next
    case (PEstablished session tr c commands a dl)
    then show ?thesis
      using pr by (auto simp: process_common_def dest!: new_still_established [OF _ new])
  next
    case (PServerFirst h t)
    then show ?thesis
      using pr new by (auto simp: process_common_def put_back_def put_peer_def split: if_splits dest!: new_first [OF _ new gone])
  qed (use pr new assms(1) in \<open>auto simp: process_common_def put_back_def put_peer_def\<close>)
qed

theorem client_join_verified_witness:
  "\<exists>d' out. process (demo_dg_env Udp (AdaptiveClient [])) demo_clock demo_addr demo_answer demo_joining = Some (d', out, Inr ()) \<and>
    fmlookup (dg_peers d') demo_addr = Some (PClientResponse 9 demo_initiator [] Encrypted 0) \<and>
    mode_try_from (hd (rec_payload demo_answer)) = Inr Encrypted \<and> ih_expected demo_initiator = tl (rec_payload demo_answer)"
proof -
  obtain d' out where p: "process (demo_dg_env Udp (AdaptiveClient [])) demo_clock demo_addr demo_answer demo_joining = Some (d', out, Inr ())"
      "fmlookup (dg_peers d') demo_addr = Some (PClientResponse 9 demo_initiator [] Encrypted 0)"
    using demo_client_step by blast
  then show ?thesis
    using client_join_verified [OF _ p(1) _ p(2), of "[]" "PClientHello 9 0"] by (simp add: demo_joining_def)
qed

section \<open>Retransmission of barriers\<close>

text \<open>
  C39. A data record cancels the retransmission of a barrier. While a UDP session waits for the answer to a control record, one
  record with ordinary data from the peer, sent before it saw the control record, is enough for the endpoint to forget the
  control record: it is not sent again, although the transition is still open and its deadline keeps running.
\<close>

theorem barrier_retry_cancelled:
  assumes "dg_transport (en_dg en) = Udp" and "dw_kind (ep_wire s) = Udp"
    and "fmlookup (ep_peers s) p = Some (PEstablished session tr c commands a dl)"
    and "is_transitioning c" and "sc_mode c = Encrypted" and "session_active session (ep_shared s)"
    and "fmlookup (dw_pending (ep_wire s)) p = Some pend"
    and "map_option sr_request (fmlookup (dw_seen (ep_wire s)) p) \<noteq> Some packet"
    and "decode_record packet (dg_max_datagram (en_dg en)) = Inr r" and "rec_kind r = Protected" and "rec_epoch r = sc_epoch c"
    and "dg_decrypt (dg_cipher (en_dg en)) r (dg_max_body (en_dg en) + 64) tr = (tr1, Inr \<lparr>pm_kind = Data, pm_payload = payload\<rparr>)"
    and "decode_datagram payload (dg_max_body (en_dg en)) = Inr fr"
    and "try_push_session_event (message_event_with_integrity (dg_endpoint (en_dg en)) session fr True (ck_now ck)) (ck_now ck)
      (ep_shared s) = (sh, Inr ())"
  shows "\<exists>s'. inbound en ck p packet s = Some (s', [], True) \<and>
    fmlookup (ep_peers s') p = Some (PEstablished session tr1 c commands (ck_now ck) dl) \<and>
    fmlookup (dw_pending (ep_wire s')) p = None"
proof -
  let ?w = "ep_wire s"
  obtain s1 where s1: "ep_dg s1 = ep_dg s"
    and run: "inbound en ck p packet s = ep_then (Some (s1, [], True)) (inbound_records en ck p [packet])"
    using assms(1,2) that [of "if has_peer p ?w then s\<lparr>ep_authorized := fmdrop p (ep_authorized s)\<rparr> else s"]
    by (auto simp: inbound_def handle_preflight_def dw_receive_def Let_def set_wire_def split: if_splits)
  obtain w where w: "begin_input p packet ?w = (w, False, None)" "dw_pending w = dw_pending ?w"
      "dw_active_pending w = Some (p, pr_bytes pend)"
    using assms(2,7,8) by (cases "fmlookup (dw_seen ?w) p") (auto simp: begin_input_def)
  let ?d = "(ep_dg s)\<lparr>dg_wire := w\<rparr>"
  have es: "handle_established (en_dg en) ck p session r
      \<lparr>es_shared = ep_shared s, es_wire = w, es_transport = tr, es_controller = c\<rparr> =
      Some (\<lparr>es_shared = sh, es_wire = w, es_transport = tr1, es_controller = c\<rparr>, [], Inr ())"
    using assms(5,6,10-14) by (simp add: handle_established_def push_event_def)
  have pr: "process (en_dg en) ck p r ?d = Some (put_peer p (PEstablished session tr1 c commands (ck_now ck) dl)
      (?d\<lparr>dg_peers := fmdrop p (dg_peers ?d), dg_shared := sh\<rparr>), [], Inr ())"
    using assms(3,4,10) es
    by (simp add: process_def process_common_def process_established_def put_peer_def Let_def split: endpoint_security.split)
  have adm: "admitted (en_dg en) ck p r s1 = (s1, True)" using assms(10) by (simp add: admitted_def)
  have lim: "record_limit (en_dg en) = dg_max_datagram (en_dg en)" using assms(1) by (simp add: record_limit_def)
  have rec: "process_record en ck p r (set_wire w s1) = Some (s', [], True) \<Longrightarrow> inbound en ck p packet s = Some (s', [], True)" for s'
    unfolding run using assms(9,10) w(1) by (simp add: ep_then_def inbound_record_def lim adm s1)
  let ?s2 = "let s2 = (s1\<lparr>ep_dg := put_peer p (PEstablished session tr1 c commands (ck_now ck) dl)
      (?d\<lparr>dg_peers := fmdrop p (dg_peers ?d), dg_shared := sh\<rparr>)\<rparr>)
    in if commands \<noteq> None then ensure_rekey en ck p s2 else s2"
  have dg: "ep_dg (ensure_rekey en ck p x) = ep_dg x" for x :: "('a, 'b) ep" by (simp add: ensure_rekey_def)
  have "process_record en ck p r (set_wire w s1) = Some (set_wire (end_input True (ep_wire ?s2)) ?s2, [], True)"
    by (simp add: process_record_def set_wire_def s1 pr put_peer_def Let_def)
  from rec [OF this] show ?thesis
    using assms(7) w(2,3) by (auto simp: set_wire_def put_peer_def dg end_input_def Let_def)
qed

theorem barrier_retry_cancelled_witness:
  "fmlookup (dw_pending (ep_wire demo_waiting)) demo_peer \<noteq> None \<and>
   (\<exists>s' tr. inbound (demo_ep_env Udp) demo_clock demo_peer (encoded demo_data_rec) demo_waiting = Some (s', [], True) \<and>
      fmlookup (ep_peers s') demo_peer = Some (PEstablished (encode_handle 0 1) tr demo_switching None 0 (Some 5)) \<and>
      fmlookup (dw_pending (ep_wire s')) demo_peer = None)"
proof -
  have "length (rec_payload demo_data_rec) \<le> 1200"
    by (simp add: demo_data_rec_def encode_protected_def validate_payload_len_def demo_protected_def demo_frame_length u32_max_def)
  note dec = decode_encoded [OF this]
  obtain sh where push: "try_push_session_event (message_event_with_integrity 1 (encode_handle 0 1) demo_frame True 0) 0 demo_open =
      (sh, Inr ())"
    by (auto simp: try_push_session_event_def eq_try_push_def eq_full_def eq_over_bytes_def demo_open_def demo_start_def
        shared_new_def demo_events_def message_event_with_integrity_def demo_frame_def
        event_simple_def checked_add_def usize_max_def eq_admit_def)
  obtain tr where tr: "dg_decrypt demo_cipher demo_data_rec 320 (dt_new ()) = (tr, Inr \<lparr>pm_kind = Data, pm_payload = demo_frame_bytes\<rparr>)"
    using demo_data_decrypted by (simp add: demo_protected_def)
  have "\<exists>s'. inbound (demo_ep_env Udp) demo_clock demo_peer (encoded demo_data_rec) demo_waiting = Some (s', [], True) \<and>
      fmlookup (ep_peers s') demo_peer = Some (PEstablished (encode_handle 0 1) tr demo_switching None (ck_now demo_clock) (Some 5)) \<and>
      fmlookup (dw_pending (ep_wire s')) demo_peer = None"
    by (rule barrier_retry_cancelled [where r = demo_data_rec and fr = demo_frame and payload = demo_frame_bytes and sh = sh
          and a = 0 and tr = "dt_new ()" and pend = "\<lparr>pr_bytes = [1], pr_last_sent = 0, pr_attempts = 0\<rparr>"])
      (use push tr dec demo_frame_decoded demo_open_active in
        \<open>simp_all add: demo_waiting_def dw_new_def demo_switching_def is_transitioning_def demo_data_rec_def demo_clock_def\<close>)
  then show ?thesis by (auto simp: demo_waiting_def demo_clock_def)
qed

section \<open>Order of deferred messages\<close>

text \<open>
  Messages overtake deferred ones. When a KCP session has deferred messages, because of a transition that has completed since
  or because its window was full, the next message of the application is put into the KCP stream at once and the deferred ones
  stay behind it; the timer then releases them one at a time.
\<close>

lemma deferred_overtaken:
  assumes "fmlookup (ep_peers s) p = Some (PEstablished session tr c commands a dl)"
    and "session_active session (ep_shared s)" and "\<not> is_transitioning c" and "dw_kind (ep_wire s) = Kcp"
    and "ep_deferred_count s < en_write_capacity en" and "fmlookup (ep_deferred s) p = Some (old # rest)"
    and "outbound_record (en_dg en) c kind bs tr = (tr1, Inr r)"
    and "dw_send p r (dg_max_datagram (en_dg en)) (ck_ok ck) (ck_ms ck) (ep_wire s) = Some (w, out, Inr ())"
  shows "\<exists>s'. outbound_step en ck p (Ready kind bs) s = Some (s', out, True) \<and> ep_wire s' = w \<and>
    fmlookup (ep_deferred s') p = Some (old # rest)"
  using assms
  by (auto simp: outbound_step_def resolve_latest_def send_now_def set_peer_def set_peers_def set_wire_def count_encrypted_def
      split: option.splits)

lemma deferred_overtaken_example:
  "\<exists>s'. outbound_step (demo_ep_env Kcp) demo_clock demo_peer (Ready OutData []) demo_deferred = Some (s', [], True) \<and>
    fmdom (dw_engines (ep_wire s')) = {|demo_peer|} \<and> fmlookup (ep_deferred s') demo_peer = Some [Ready OutData [1]]"
proof -
  let ?w = "demo_wire\<lparr>dw_authorized := fmupd demo_peer 7 fmempty\<rparr>"
  have "dw_send demo_peer demo_rec 1200 True 0 ?w = dw_send demo_peer demo_rec 64 True 0 ?w"
    by (simp add: dw_send_def demo_wire_def dw_new_def)
  then obtain w where w: "dw_send demo_peer demo_rec 1200 True 0 ?w = Some (w, [], Inr ())" "fmdom (dw_engines w) = {|demo_peer|}"
    using demo_wire_send by simp
  have "\<exists>s'. outbound_step (demo_ep_env Kcp) demo_clock demo_peer (Ready OutData []) demo_deferred = Some (s', [], True) \<and>
      ep_wire s' = w \<and> fmlookup (ep_deferred s') demo_peer = Some [Ready OutData [1]]"
    by (rule deferred_overtaken [of demo_deferred demo_peer "encode_handle 0 1" "dt_new ()" "sc_new Server Plaintext 0" None 0 None
          "demo_ep_env Kcp" "Ready OutData [1]" "[]" OutData "[]" "dt_new ()" demo_rec demo_clock w "[]"])
      (use w(1) demo_open_active in \<open>simp_all add: demo_deferred_def is_transitioning_def sc_new_def demo_wire_def dw_new_def
        outbound_record_def data_record_def demo_rec_def demo_clock_def\<close>)
  then show ?thesis using w(2) by auto
qed

section \<open>Admission permits\<close>

text \<open>
  C40. A late cleanup takes the permit of the next session of the same address. When the cleanup of a closed session arrives after
  its address has joined again, the new peer is recognized and kept, but its admission permit is released and its automatic
  rekey forgotten: the source is charged for one session less than it has.
\<close>

theorem stale_cleanup_releases_permit:
  assumes "fmlookup (ep_peers s) p = Some x" and "peer_session x = Some session" and "session \<noteq> ended_session"
    and "fmlookup (ep_permits s) p = Some key" and "active_of (ep_admission s) key = Suc n"
  shows "\<exists>s'. cleanup_step p ended_session s = Some (s', [], True) \<and> ep_peers s' = ep_peers s \<and> ep_wire s' = ep_wire s \<and>
    fmlookup (ep_permits s') p = None \<and> active_of (ep_admission s') key = n"
proof -
  have "\<not> is_reject (Some x)" using assms(2) by (cases x) auto
  moreover have "active_of (permit_drop key (ep_admission s)) key = n"
    using assms(5) by (auto simp: active_of_def permit_drop_def split: option.splits)
  ultimately show ?thesis
    using assms(1-4) by (auto simp: cleanup_step_def cleanup_peer_def drop_rekey_def drop_permit_def)
qed

theorem stale_cleanup_releases_permit_witness:
  "\<exists>s'. cleanup_step demo_addr 8 demo_rejoined = Some (s', [], True) \<and> ep_peers s' = ep_peers demo_rejoined \<and>
    fmlookup (ep_permits s') demo_addr = None \<and>
    active_of (ep_admission demo_rejoined) (ip_key_of (sock_ip demo_addr) 64) = 1 \<and> active_of (ep_admission s') (ip_key_of (sock_ip demo_addr) 64) = 0"
  using stale_cleanup_releases_permit [of demo_rejoined demo_addr "PClientHello 9 0" 9 8 "ip_key_of (sock_ip demo_addr) 64" 0]
  by (auto simp: demo_rejoined_def active_of_def)

end
