(* ===== verification/Spec2Isabelle.thy ===== *)
theory Spec2Isabelle
  imports Handles Event_Queue Runtime_Lifecycle Frame_Codec Security_Records Secure_Channel
    Security_Transition Tcp_Session Tcp_Pair Game_Wire Resume_Registry Observe Send_Scheduler
    Latest_Queue Session_Quality Range_State Kcp_Pair Kcp_Adapter_Safety Admission
    Preflight Datagram_Udp Transport_Registry Datagram_Invariants Datagram_Barriers
begin

text \<open>
  A verification library for rnet, a Rust networking library for games (sources under
  \<^verbatim>\<open>src/crates\<close>).

  \<^bold>\<open>The program.\<close> \<^verbatim>\<open>rnet-core\<close> has the handle tables, buffers, the bounded event queue and the
  lifecycle flag. \<^verbatim>\<open>rnet-protocol\<close> has the frame format and the three nested security records.
  \<^verbatim>\<open>rnet-security\<close> wraps Noise: ordered and datagram transports, the replay window, the handshakes and
  the controller of mode switches and rekeys. \<^verbatim>\<open>rnet-transport\<close> runs sessions over TCP, UDP and KCP.
  \<^verbatim>\<open>rnet-game\<close> is the game-facing runtime: envelopes, version negotiation, resume tickets, send
  scheduling, snapshot coalescing, heartbeats and network quality. \<^verbatim>\<open>rnet-observe\<close> has latency
  histograms and the bounded logger. \<^verbatim>\<open>rnet-ffi\<close> exports all of it to C.

  \<^bold>\<open>Conventions.\<close> A fallible Rust function returns \<open>error_code + 'a\<close>; diagnostic text is not
  modelled. Integers that wrap, shift or go on the wire are words; sizes and saturating counters are
  natural numbers with the 64-bit limits written out. Instants and durations are nanoseconds. A hash
  map is a finite map; a loop over one visits the keys in ascending order. A panic is \<open>None\<close>
  where it is reachable by type, and the theorems show that it is not reached. Mutexes are not modelled: the
  operations of one component are the steps between which threads interleave. Code outside the
  repository (Noise primitives, HMAC, the random source, sockets, the operating system) is a parameter.

  \<^bold>\<open>Theories.\<close>
  \<^item> \<open>Prelude\<close>, \<open>Tables\<close>, \<open>Step_System\<close>: machine arithmetic, slices, big-endian integers, error codes
    (\<^verbatim>\<open>rnet-core/src/error.rs\<close>); finite maps with sums; the contracts \<open>invariant_system\<close>,
    \<open>byte_budgeted\<close>, \<open>simulation\<close> and \<open>answering_system\<close> that the stateful components interpret.
  \<^item> \<open>Handles\<close>: \<^verbatim>\<open>handle.rs\<close> and \<^verbatim>\<open>buffer.rs\<close>. The generational table implements a partial map, a
    removed handle stays dead until the generation wraps, and buffers are released exactly once.
  \<^item> \<open>Wire_Codec\<close>, \<open>Record_Stream\<close>: the codec contract (decoding accepts exactly the encodings) and
    the contract of incremental stream parsers (the result does not depend on chunking).
  \<^item> \<open>Frame_Codec\<close>: \<^verbatim>\<open>rnet-protocol/src/lib.rs\<close>. \<open>Security_Records\<close>: \<^verbatim>\<open>rnet-protocol/src/control.rs\<close>.
  \<^item> \<open>Event_Queue\<close>: \<^verbatim>\<open>event.rs\<close> and \<^verbatim>\<open>event_queue.rs\<close>. Exact accounting, minimal eviction, the lifecycle
    history is preserved, polls take the maximal prefix, blocking pushes return.
  \<^item> \<open>Runtime_Lifecycle\<close>: \<^verbatim>\<open>lifecycle.rs\<close> under arbitrary interleaving of its atomic accesses.
  \<^item> \<open>Secure_Channel\<close>: \<^verbatim>\<open>rnet-security/src/lib.rs\<close>. Replay window, nonces, at-most-once delivery, pinning.
  \<^item> \<open>Security_Transition\<close>, \<open>Tcp_Session\<close>, \<open>Tcp_Pair\<close>: \<^verbatim>\<open>transition.rs\<close>, \<^verbatim>\<open>record_reader.rs\<close>,
    \<^verbatim>\<open>adaptive_tcp.rs\<close> and \<^verbatim>\<open>adaptive_tcp_session.rs\<close>; then two sessions joined by byte streams: they never
    reject each other's records, data arrives once and in order through switches and rekeys, and the
    two sides agree on epoch, mode and keys.
  \<^item> \<open>Game_Wire\<close>: \<^verbatim>\<open>envelope.rs\<close>, \<^verbatim>\<open>join.rs\<close> and the protocol part of \<^verbatim>\<open>config.rs\<close> of \<^verbatim>\<open>rnet-game\<close>.
  \<^item> \<open>Resume_Registry\<close>: \<^verbatim>\<open>resume.rs\<close>. A ticket is honoured exactly when the history grants it, once.
  \<^item> \<open>Observe\<close>: \<^verbatim>\<open>rnet-observe/src/lib.rs\<close>. Percentile bounds, ordered delivery, shutdown drains.
  \<^item> \<open>Send_Scheduler\<close>: \<^verbatim>\<open>scheduler.rs\<close>. Exact budgets and bounded waiting.
  \<^item> \<open>Latest_Queue\<close>: \<^verbatim>\<open>realtime.rs\<close>. Refinement of an ordered map, exact budgets.
  \<^item> \<open>Session_Quality\<close>: \<^verbatim>\<open>quality.rs\<close> and \<^verbatim>\<open>heartbeat.rs\<close>. Exact sequence-gap tracking.
  \<^item> \<open>Range_State\<close>: \<^verbatim>\<open>range_state.rs\<close> and the events of \<^verbatim>\<open>event.rs\<close>. Exact budgets; readiness
    precedes data and data is neither lost nor reordered.
  \<^item> \<open>Kcp_Engine\<close>: \<^verbatim>\<open>src/vendor/rnet-kcp/src/kcp.rs\<close>. \<open>Kcp_Adapter\<close>: \<^verbatim>\<open>rnet-transport/src/kcp.rs\<close>.
    \<open>Kcp_Window\<close>, \<open>Kcp_Flush\<close> and \<open>Kcp_Messages\<close> have the lemmas on windows, output and fragmentation;
    \<open>Kcp_Pair\<close> joins two engines by a network that loses, duplicates, delays and reorders packets:
    messages arrive once, in order and complete, and no fragment is lost. \<open>Kcp_Adapter_Safety\<close>: no
    packet, valid or forged, makes the adapter panic or exceed its limits.
  \<^item> \<open>Net_Address\<close>, \<open>Float64\<close>, \<open>Admission\<close>: socket addresses and \<^verbatim>\<open>address.rs\<close>; rounding of binary64;
    \<^verbatim>\<open>admission.rs\<close>. Permits are counted exactly, the rate bound holds with rounding, and a table filled by
    idle sources never admits another one.
  \<^item> \<open>Preflight\<close>: \<^verbatim>\<open>cookie.rs\<close> and \<^verbatim>\<open>kcp_preflight.rs\<close>. A cookie is accepted for the address it was issued to, in
    this and the next minute, and nowhere else.
  \<^item> \<open>Datagram_Wire\<close>: \<^verbatim>\<open>adaptive_wire.rs\<close>. \<open>Datagram_Budget\<close> and \<open>Datagram_Safety\<close>: the shared KCP budget holds over
    every sequence of calls, and what a failing input leaves charged. \<open>Datagram_Udp\<close>: duplicates are answered from
    the cache, control records are retransmitted a bounded number of times, and how the cache fills up.
  \<^item> \<open>Transport_State\<close>, \<open>Transport_Registry\<close>: sessions, endpoints and shutdown (\<^verbatim>\<open>state.rs\<close>,
    \<^verbatim>\<open>session_close.rs\<close>, \<^verbatim>\<open>endpoint_failure.rs\<close>, \<^verbatim>\<open>lifecycle.rs\<close>, \<^verbatim>\<open>runtime_registry.rs\<close>, \<^verbatim>\<open>session.rs\<close>). Handshake slots
    are counted exactly, every session ends once, closing an endpoint sweeps its sessions, and what a late registration escapes.
  \<^item> \<open>Datagram_Session\<close>, \<open>Datagram_Process\<close>, \<open>Datagram_Endpoint\<close>, \<open>Datagram_Tick\<close>, \<open>Datagram_Runs\<close>: the loop of a UDP or KCP
    endpoint (\<^verbatim>\<open>adaptive_datagram*.rs\<close>, \<^verbatim>\<open>adaptive_codec.rs\<close>, \<^verbatim>\<open>adaptive_peer.rs\<close>, \<^verbatim>\<open>adaptive_kcp_preflight.rs\<close>,
    \<^verbatim>\<open>auto_rekey.rs\<close>) on top of the wire, the registry, the cookies and the admission control: established sessions, one record
    in every state of a peer, one event of the loop, the timer, and the runs of all of them (\<open>ep_reach\<close>). Each branch of the
    \<^verbatim>\<open>select!\<close> is one constructor of \<open>ep_op\<close>; the field of a peer that holds a channel is what waits in it.
    \<open>Datagram_Invariants\<close>: a listener holds state only for addresses that have shown a cookie, and deferred messages are counted
    and bounded. \<open>Datagram_Barriers\<close>: how a client joins, how data cancels the retransmission of a control record, how deferred
    messages are overtaken, and how a late cleanup takes a permit. \<open>Datagram_Demo\<close>: a concrete endpoint for the examples.

  \<^bold>\<open>Fuel.\<close> The frame parser, the eviction loop and the record reader recurse with a measure. The outer
  loop of the scheduler's pop takes one more iteration than there are queued messages, which the budget
  theorem shows to be enough; the nonce search of the registry retries as often as the source does. The
  blocking push takes the list of wake-ups it sees, and its theorem says that it returns once the deadline has passed.

  \<^bold>\<open>Not modelled.\<close> Socket drivers, the setup of endpoints and TCP handshake drivers, timers and task scheduling of
  \<^verbatim>\<open>rnet-transport\<close> (their effect is the interleaving of the modelled steps), its snapshot slots (\<^verbatim>\<open>latest.rs\<close>, seen by the
  datagram endpoint as entries that are present or taken) and the range checks of its configuration; the
  Noise, HMAC and random-number libraries (third-party code); in \<^verbatim>\<open>rnet-game\<close> the runtime that locks the modelled components and
  calls the transport, and the clock estimator; the C ABI layer \<^verbatim>\<open>rnet-ffi\<close> (raw pointers and layout); probes, soak
  programs, fuzz targets and the C++, Go and C# bindings; metrics and diagnostics.
\<close>

end
